(* ===== verification/Prelude.thy ===== *)
theory Prelude
  imports Main "HOL-Library.Word"
begin

text \<open>
  Shared ground of the development: the machine integers of \<open>types.h\<close>, the flat byte
  addressable memory the kernel's C and inline assembly work on, address ranges in the ring of
  32-bit addresses, and the little-endian views of memory.

  An address range is given by its first address and its length. Membership is decided by the
  distance \<open>x - a\<close> in the ring, so no lemma needs a hypothesis that an address does not wrap.
\<close>

unbundle bit_operations_syntax

named_theorems mem_simps \<open>evaluating reads of written memory\<close>
named_theorems range_simps \<open>membership in address ranges\<close>

type_synonym u8 = "8 word"
type_synonym u16 = "16 word"
type_synonym u32 = "32 word"

text \<open>The flat physical/virtual memory: every 32-bit address holds a byte.\<close>

type_synonym mem = "u32 \<Rightarrow> u8"

abbreviation (input) NULL :: u32 where "NULL \<equiv> 0"

section \<open>Words\<close>

lemma unat_lt32 [simp]: "unat (x :: u32) < 4294967296"
  using unsigned_less [of x, where 'a = nat] by simp

lemma unat_le32 [simp]: "unat (x :: u32) \<le> 4294967295"
  using unat_lt32 [of x] by linarith

lemma of_nat_unat_diff: "(x :: u32) = a + of_nat (unat (x - a))"
  by simp

lemma unat_of_nat32: "n < 4294967296 \<Longrightarrow> unat (of_nat n :: u32) = n"
  by (simp add: unat_of_nat take_bit_nat_eq_self_iff)

lemma of_nat_eq32:
  "i < 4294967296 \<Longrightarrow> j < 4294967296 \<Longrightarrow> (of_nat i :: u32) = of_nat j \<longleftrightarrow> i = j"
  by (metis unat_of_nat32)

lemma of_nat_Suc_left: "(a :: u32) + of_nat (Suc i) = a + 1 + of_nat i"
  by simp

lemma unat_diff_eq: "i < 4294967296 \<Longrightarrow> unat (x - (a :: u32)) = i \<longleftrightarrow> x = a + of_nat i"
  by (auto simp: unat_of_nat32)

lemma unat_diff_Suc: "(x :: u32) \<noteq> a \<Longrightarrow> unat (x - (a + 1)) = unat (x - a) - 1"
proof -
  assume "x \<noteq> a"
  then have "unat ((x - a) - 1) = unat (x - a) - 1" by (intro unat_minus_one) simp
  then show ?thesis by (simp add: diff_diff_eq)
qed

lemma unat_minus_1_32 [simp]: "unat (- 1 :: u32) = 4294967295"
  by (simp add: unsigned_minus_1_eq_mask mask_eq_exp_minus_1)

lemma unat_diff_self_Suc: "unat ((a :: u32) - (a + 1)) = 4294967295"
  by simp

lemma unat_diff_pos: "(x :: u32) \<noteq> a \<Longrightarrow> 0 < unat (x - a)"
  by (simp add: unat_gt_0)

lemma unat_swap_diff: "(a :: u32) \<noteq> b \<Longrightarrow> unat (a - b) = 4294967296 - unat (b - a)"
  using unat_lt32 [of a] unat_lt32 [of b] by (auto simp: unat_sub_if' word_unat_eq_iff simp del: unat_lt32)

lemma unat_Suc_pred: "(x :: u32) \<noteq> 0 \<Longrightarrow> unat x = Suc (unat (x - 1))"
  by (simp add: unat_minus_one unat_gt_0 Suc_diff_1)

lemma unat_succ_less: "(i :: u32) < n \<Longrightarrow> unat (i + 1) = Suc (unat i)"
  by (simp add: unat_plus_if' word_less_nat_alt) (use unat_lt32 [of n] in linarith)

lemma unat_Suc_less: "(i :: u32) < n \<Longrightarrow> unat n - unat (i + 1) < unat n - unat i"
  by (simp add: unat_succ_less word_less_nat_alt)

text \<open>Signed readings of words below \<open>2 ^ 31\<close>.\<close>

lemma sint_of_nat32: "i < 2147483648 \<Longrightarrow> sint (of_nat i :: u32) = int i"
  by (simp add: signed_of_nat signed_take_bit_int_eq_self)

lemma sint_of_int32:
  "- 2147483648 \<le> k \<Longrightarrow> k < 2147483648 \<Longrightarrow> sint (of_int k :: u32) = k"
  by (simp add: signed_of_int signed_take_bit_int_eq_self)

lemma sint_unat32: "unat (x :: u32) < 2147483648 \<Longrightarrow> sint x = int (unat x)"
  using sint_of_nat32 [of "unat x"] by simp

lemma sless_of_nat32:
  "i < 2147483648 \<Longrightarrow> j < 2147483648 \<Longrightarrow> ((of_nat i :: u32) <s of_nat j) \<longleftrightarrow> i < j"
  by (simp add: word_sless_alt sint_of_nat32)

lemma sint_Suc_sless: "(i :: u32) <s n \<Longrightarrow> sint (i + 1) = sint i + 1 \<and> sint i < sint n"
proof -
  assume "i <s n"
  then have s: "sint i < sint n" by (simp add: word_sless_alt)
  have "- 2147483648 \<le> sint i" "sint n < 2147483648" using sint_greater_eq [of i] sint_less [of n] by simp_all
  then have "sint (of_int (sint i + 1) :: u32) = sint i + 1" using s by (intro sint_of_int32) simp_all
  moreover have "i + 1 = of_int (sint i + 1)" by simp
  ultimately show ?thesis using s by (simp only:)
qed

lemma and_mask_unat: "unat ((x :: u32) AND 3) = unat x mod 4"
proof -
  have "x AND 3 = take_bit 2 x" by (simp add: take_bit_eq_mask mask_numeral)
  then have "unat (x AND 3) = take_bit 2 (unat x)" by (simp only: unsigned_take_bit_eq)
  then show ?thesis by (simp add: take_bit_eq_mod)
qed

lemma drop_bit_2_unat: "unat (drop_bit 2 (x :: u32)) = unat x div 4"
  by (subst unsigned_drop_bit_eq) (simp add: drop_bit_eq_div take_bit_nat_eq_self)

lemma unat_split_4: "unat (x :: u32) = 4 * unat (drop_bit 2 x) + unat (x AND 3)"
  by (simp add: and_mask_unat drop_bit_2_unat)

section \<open>Address ranges\<close>

definition in_range :: "u32 \<Rightarrow> nat \<Rightarrow> u32 \<Rightarrow> bool" where
  "in_range a n x \<longleftrightarrow> unat (x - a) < n"

text \<open>Two non-empty ranges of the ring are disjoint iff each starts past the end of the other.\<close>

definition disj_ranges :: "u32 \<Rightarrow> nat \<Rightarrow> u32 \<Rightarrow> nat \<Rightarrow> bool" where
  "disj_ranges a n b k \<longleftrightarrow> n = 0 \<or> k = 0 \<or> n \<le> unat (b - a) \<and> k \<le> unat (a - b)"

lemma in_range_0 [simp, range_simps]: "\<not> in_range a 0 x"
  by (simp add: in_range_def)

lemma in_range_offset [range_simps]:
  "i < 4294967296 \<Longrightarrow> in_range a n (a + of_nat i) \<longleftrightarrow> i < n"
  by (simp add: in_range_def unat_of_nat32)

lemma in_range_full [simp]: "4294967296 \<le> n \<Longrightarrow> in_range a n x"
  unfolding in_range_def using unat_lt32 [of "x - a"] by linarith

lemma in_range_Suc: "n < 4294967296 \<Longrightarrow> in_range a (Suc n) x \<longleftrightarrow> x = a \<or> in_range (a + 1) n x"
  by (cases "x = a") (auto simp: in_range_def unat_diff_Suc dest: unat_diff_pos)

lemma in_range_Suc_last: "in_range a (Suc n) x \<longleftrightarrow> in_range a n x \<or> unat (x - a) = n"
  by (auto simp: in_range_def)

lemma in_range_mono: "in_range a n x \<Longrightarrow> n \<le> k \<Longrightarrow> in_range a k x"
  by (simp add: in_range_def)

lemma in_range_D: "in_range a n x \<Longrightarrow> \<exists>i < n. x = a + of_nat i"
  unfolding in_range_def by (rule exI [of _ "unat (x - a)"]) simp

lemma disj_ranges_sym: "disj_ranges a n b k \<longleftrightarrow> disj_ranges b k a n"
  by (auto simp: disj_ranges_def)

lemma disj_rangesD: "disj_ranges a n b k \<Longrightarrow> in_range a n x \<Longrightarrow> \<not> in_range b k x"
proof -
  assume d: "disj_ranges a n b k" and r: "in_range a n x"
  show ?thesis
  proof (cases "k = 0")
    case True
    then show ?thesis by simp
  next
    case False
    with d r have n: "n \<le> unat (b - a)" and k: "k \<le> unat (a - b)" and i: "unat (x - a) < n"
      by (auto simp: disj_ranges_def in_range_def)
    have ne: "a \<noteq> b" using n i by auto
    have "unat (b - a) = 4294967296 - unat (a - b)"
      using ne by (intro unat_swap_diff) simp
    then have lt: "unat (x - a) + unat (a - b) < 4294967296"
      using n i unat_lt32 [of "a - b"] by linarith
    have "unat (x - b) = unat ((x - a) + (a - b))" by simp
    also have "\<dots> = unat (x - a) + unat (a - b)"
      using lt by (subst unat_add_lem [THEN iffD1]) simp_all
    finally show ?thesis using k by (simp add: in_range_def)
  qed
qed

lemma disj_rangesD2: "disj_ranges a n b k \<Longrightarrow> in_range b k x \<Longrightarrow> \<not> in_range a n x"
  using disj_rangesD disj_ranges_sym by blast

text \<open>A sub-range, written by its offset in the outer range.\<close>

lemma in_range_sub:
  assumes "unat (b - a) + k \<le> n" and "in_range b k x"
  shows "in_range a n x"
proof (cases "4294967296 \<le> n")
  case True
  then show ?thesis by simp
next
  case False
  have lt: "unat (x - b) + unat (b - a) < n" using assms by (simp add: in_range_def)
  have "unat (x - a) = unat ((x - b) + (b - a))" by simp
  also have "\<dots> = unat (x - b) + unat (b - a)"
    using lt False by (subst unat_add_lem [THEN iffD1]) simp_all
  finally show ?thesis using lt by (simp add: in_range_def)
qed

lemma in_range_self [simp]: "in_range a n a \<longleftrightarrow> 0 < n"
  by (simp add: in_range_def)

lemma disj_rangesI:
  assumes "\<And>x. in_range a n x \<Longrightarrow> in_range b k x \<Longrightarrow> False"
  shows "disj_ranges a n b k"
  using assms [of a] assms [of b] unfolding disj_ranges_def in_range_def
  by (cases "n = 0 \<or> k = 0") (auto simp: not_less [symmetric])

lemma disj_ranges_sub:
  assumes "disj_ranges a n b k" and "unat (a' - a) + n' \<le> n" and "unat (b' - b) + k' \<le> k"
  shows "disj_ranges a' n' b' k'"
proof (rule disj_rangesI)
  fix x assume "in_range a' n' x" and "in_range b' k' x"
  with assms(2,3) have "in_range a n x" and "in_range b k x" by (auto intro: in_range_sub)
  with assms(1) show False using disj_rangesD by blast
qed

section \<open>Reading and writing memory\<close>

definition load_bytes :: "mem \<Rightarrow> u32 \<Rightarrow> nat \<Rightarrow> u8 list" where
  "load_bytes m a n = map (\<lambda>i. m (a + of_nat i)) [0..<n]"

primrec store_bytes :: "mem \<Rightarrow> u32 \<Rightarrow> u8 list \<Rightarrow> mem" where
  "store_bytes m a [] = m"
| "store_bytes m a (b # bs) = store_bytes (m(a := b)) (a + 1) bs"

text \<open>Little-endian halfwords and words, as the x86 loads and stores them.\<close>

definition load32 :: "mem \<Rightarrow> u32 \<Rightarrow> u32" where
  "load32 m a = ucast (m a) OR push_bit 8 (ucast (m (a + 1)))
                OR push_bit 16 (ucast (m (a + 2))) OR push_bit 24 (ucast (m (a + 3)))"

definition store16 :: "mem \<Rightarrow> u32 \<Rightarrow> u16 \<Rightarrow> mem" where
  "store16 m a v = m(a := ucast v, a + 1 := ucast (drop_bit 8 v))"

definition store32 :: "mem \<Rightarrow> u32 \<Rightarrow> u32 \<Rightarrow> mem" where
  "store32 m a v = m(a := ucast v, a + 1 := ucast (drop_bit 8 v),
                     a + 2 := ucast (drop_bit 16 v), a + 3 := ucast (drop_bit 24 v))"

text \<open>The four bytes of a loaded word are the four bytes of memory, lowest address first.\<close>

lemma load32_bytes [mem_simps]:
  "ucast (load32 m a) = m a"
  "ucast (drop_bit 8 (load32 m a)) = m (a + 1)"
  "ucast (drop_bit 16 (load32 m a)) = m (a + 2)"
  "ucast (drop_bit 24 (load32 m a)) = m (a + 3)"
  by (rule bit_word_eqI; simp add: load32_def bit_simps; auto dest: bit_imp_le_length)+

lemma length_load_bytes [simp]: "length (load_bytes m a n) = n"
  by (simp add: load_bytes_def)

lemma load_bytes_0 [simp]: "load_bytes m a 0 = []"
  by (simp add: load_bytes_def)

lemma load_bytes_nth [simp]: "i < n \<Longrightarrow> load_bytes m a n ! i = m (a + of_nat i)"
  by (simp add: load_bytes_def)

lemma load_bytes_Suc: "load_bytes m a (Suc n) = m a # load_bytes m (a + 1) n"
  by (rule nth_equalityI) (auto simp: nth_Cons ac_simps split: nat.splits)

lemma load_bytes_numeral [mem_simps]:
  "load_bytes m a (numeral k) = m a # load_bytes m (a + 1) (pred_numeral k)"
  by (simp add: numeral_eq_Suc load_bytes_Suc)

lemma replicate_numeral [mem_simps]:
  "replicate (numeral k) x = x # replicate (pred_numeral k) x"
  by (simp add: numeral_eq_Suc)

lemma load_bytes_add: "load_bytes m a (n + k) = load_bytes m a n @ load_bytes m (a + of_nat n) k"
  by (rule nth_equalityI) (auto simp: nth_append algebra_simps)

lemma load_bytes_cong:
  "(\<And>x. in_range a n x \<Longrightarrow> m x = m' x) \<Longrightarrow> n \<le> 4294967296 \<Longrightarrow> load_bytes m a n = load_bytes m' a n"
  by (rule nth_equalityI) (auto simp: in_range_offset)

lemma store_bytes_apply [mem_simps]:
  "length bs \<le> 4294967296 \<Longrightarrow>
   store_bytes m a bs x = (if in_range a (length bs) x then bs ! unat (x - a) else m x)"
proof (induction bs arbitrary: m a x)
  case Nil
  then show ?case by simp
next
  case (Cons b bs)
  from Cons.prems have len: "length bs < 4294967296" by simp
  show ?case
  proof (cases "x = a")
    case True
    with len show ?thesis
      by (simp add: Cons.IH in_range_def unat_diff_self_Suc)
  next
    case False
    then have "0 < unat (x - a)" by (rule unat_diff_pos)
    with False len show ?thesis
      by (auto simp: Cons.IH in_range_def unat_diff_Suc nth_Cons')
  qed
qed

lemma store_bytes_append:
  "store_bytes m a (xs @ ys) = store_bytes (store_bytes m a xs) (a + of_nat (length xs)) ys"
  by (induction xs arbitrary: m a) (simp_all add: ac_simps)

lemma store_bytes_snoc:
  "(store_bytes m a xs)(a + of_nat (length xs) := b) = store_bytes m a (xs @ [b])"
  by (simp add: store_bytes_append)

lemma store_bytes_update:
  assumes "i < length bs" and "length bs \<le> 4294967296"
  shows "(store_bytes m a bs)(a + of_nat i := b) = store_bytes m a (bs[i := b])"
proof
  fix x
  have "unat (x - a) = i \<longleftrightarrow> x = a + of_nat i"
    using assms by (intro unat_diff_eq) simp
  then show "((store_bytes m a bs)(a + of_nat i := b)) x = store_bytes m a (bs[i := b]) x"
    using assms by (auto simp: store_bytes_apply in_range_def nth_list_update unat_of_nat32)
qed

lemma load_store_bytes [simp]:
  "length bs \<le> 4294967296 \<Longrightarrow> load_bytes (store_bytes m a bs) a (length bs) = bs"
  by (rule nth_equalityI) (simp_all add: store_bytes_apply in_range_offset unat_of_nat32)

lemma store_bytes_id:
  assumes "load_bytes m a (length bs) = bs" and "length bs \<le> 4294967296"
  shows "store_bytes m a bs = m"
proof
  fix x
  have "m (a + of_nat (unat (x - a))) = bs ! unat (x - a)" if "unat (x - a) < length bs"
    using assms(1) that by (metis load_bytes_nth)
  then show "store_bytes m a bs x = m x"
    using assms(2) by (auto simp: store_bytes_apply in_range_def)
qed

lemma store_bytes_overwrite:
  "length xs = length ys \<Longrightarrow> length ys \<le> 4294967296 \<Longrightarrow>
   store_bytes (store_bytes m a xs) a ys = store_bytes m a ys"
  by (rule ext) (simp add: store_bytes_apply in_range_def)

section \<open>Bounded loops\<close>

text \<open>\<open>for (i = a; i < a + n; i++)\<close> with a body that may fail.\<close>

fun for_loop :: "nat \<Rightarrow> nat \<Rightarrow> (nat \<Rightarrow> 's \<Rightarrow> 's option) \<Rightarrow> 's \<Rightarrow> 's option" where
  "for_loop a 0 f s = Some s"
| "for_loop a (Suc n) f s = Option.bind (f a s) (for_loop (Suc a) n f)"

lemma for_loop_invariant:
  "I a s \<Longrightarrow> (\<And>i s. a \<le> i \<Longrightarrow> i < a + n \<Longrightarrow> I i s \<Longrightarrow> \<exists>s'. f i s = Some s' \<and> I (Suc i) s') \<Longrightarrow>
   \<exists>s'. for_loop a n f s = Some s' \<and> I (a + n) s'"
proof (induction n arbitrary: a s)
  case 0
  then show ?case by simp
next
  case (Suc n)
  obtain s1 where s1: "f a s = Some s1" "I (Suc a) s1" using Suc.prems by (metis add_Suc_right le_refl less_add_Suc1)
  have "\<exists>s'. for_loop (Suc a) n f s1 = Some s' \<and> I (Suc a + n) s'"
    by (rule Suc.IH [OF s1(2)]) (use Suc.prems(2) in auto)
  then show ?case using s1 by simp
qed

lemma for_loop_preserves:
  "(\<And>i s s'. f i s = Some s' \<Longrightarrow> P s \<Longrightarrow> P s') \<Longrightarrow> for_loop a n f s = Some s' \<Longrightarrow> P s \<Longrightarrow> P s'"
  by (induction n arbitrary: a s) (auto split: Option.bind_splits)

lemma for_loop_cong:
  "(\<And>i. a \<le> i \<Longrightarrow> i < a + n \<Longrightarrow> f i = g i) \<Longrightarrow> for_loop a n f s = for_loop a n g s"
proof (induction n arbitrary: a s)
  case (Suc n)
  have "for_loop (Suc a) n f = for_loop (Suc a) n g"
    by (rule ext, rule Suc.IH) (use Suc.prems in auto)
  then show ?case using Suc.prems [of a] by simp
qed simp

lemma list_all_update: "list_all P xs \<Longrightarrow> P x \<Longrightarrow> list_all P (xs[i := x])"
  by (auto simp: list_all_iff dest: set_update_subset_insert [THEN subsetD])

text \<open>The bytes of a character string.\<close>

definition ascii :: "string \<Rightarrow> u8 list" where
  "ascii cs = map of_char cs"

end
