(* ===== verification/LibMem.thy ===== *)
theory LibMem
  imports Prelude
begin

text \<open>
  The memory routines of \<open>lib.c\<close>: \<open>memset\<close>, \<open>memset_word\<close>, \<open>memset_dword\<close>,
  \<open>memcpy\<close> and \<open>memmove\<close>. They are inline assembly; each label of the assembly is a function
  on the registers it uses (\<open>edi\<close>, \<open>esi\<close>, \<open>ecx\<close>, \<open>edx\<close>) and the memory. The string
  instructions \<open>rep stosb/stosw/stosl\<close> and \<open>rep movsb/movsl\<close> are functions of their own.

  The lemmas reduce each routine to a reference: \<open>fill\<close> for the \<open>memset\<close> family and
  \<open>copy_fwd\<close>, a byte by byte copy, for \<open>memcpy\<close>. The locale \<open>block_copy\<close> states what a
  client of a copy routine relies on; \<open>memcpy\<close> and \<open>memmove\<close> are its providers.
\<close>

section \<open>Reference routines\<close>

primrec fill :: "mem \<Rightarrow> u32 \<Rightarrow> u8 \<Rightarrow> nat \<Rightarrow> mem" where
  "fill m a b 0 = m"
| "fill m a b (Suc n) = fill (m(a := b)) (a + 1) b n"

primrec copy_fwd :: "mem \<Rightarrow> u32 \<Rightarrow> u32 \<Rightarrow> nat \<Rightarrow> mem" where
  "copy_fwd m d s 0 = m"
| "copy_fwd m d s (Suc n) = copy_fwd (m(d := m s)) (d + 1) (s + 1) n"

lemma fill_add: "fill m a b (n + k) = fill (fill m a b n) (a + of_nat n) b k"
  by (induction n arbitrary: m a) (simp_all add: ac_simps)

lemma copy_fwd_add:
  "copy_fwd m d s (n + k) = copy_fwd (copy_fwd m d s n) (d + of_nat n) (s + of_nat n) k"
  by (induction n arbitrary: m d s) (simp_all add: ac_simps)

lemma numeral_4_fill:
  "fill m a b 4 = m(a := b, a + 1 := b, a + 2 := b, a + 3 := b)"
proof -
  have "fill m a b (Suc (Suc (Suc (Suc 0)))) = m(a := b, a + 1 := b, a + 2 := b, a + 3 := b)"
    by (simp add: add.assoc)
  moreover have "(4 :: nat) = Suc (Suc (Suc (Suc 0)))" by simp
  ultimately show ?thesis by (simp only:)
qed

lemma numeral_4_copy_fwd:
  "copy_fwd m d s 4 =
   (let m1 = m(d := m s); m2 = m1(d + 1 := m1 (s + 1)); m3 = m2(d + 2 := m2 (s + 2))
    in m3(d + 3 := m3 (s + 3)))"
proof -
  have "copy_fwd m d s (Suc (Suc (Suc (Suc 0)))) =
    (let m1 = m(d := m s); m2 = m1(d + 1 := m1 (s + 1)); m3 = m2(d + 2 := m2 (s + 2))
     in m3(d + 3 := m3 (s + 3)))"
    by (simp add: add.assoc Let_def)
  moreover have "(4 :: nat) = Suc (Suc (Suc (Suc 0)))" by simp
  ultimately show ?thesis by (simp only:)
qed

lemma fill_apply [mem_simps]:
  "n \<le> 4294967296 \<Longrightarrow> fill m a b n x = (if in_range a n x then b else m x)"
proof (induction n arbitrary: m a x)
  case 0
  then show ?case by simp
next
  case (Suc n)
  then show ?case
    by (cases "x = a") (auto simp: in_range_Suc)
qed

text \<open>
  A forward copy reads every source byte before it is overwritten when the destination does not
  start inside the source, behind its first byte.
\<close>

lemma copy_fwd_apply [mem_simps]:
  assumes "n \<le> 4294967296" and "d = s \<or> n \<le> unat (d - s)"
  shows "copy_fwd m d s n x = (if in_range d n x then m (s + (x - d)) else m x)"
  using assms
proof (induction n arbitrary: m d s x)
  case 0
  then show ?case by simp
next
  case (Suc n)
  have safe: "d + 1 = s + 1 \<or> n \<le> unat ((d + 1) - (s + 1))"
    using Suc.prems(2) by auto
  have IH: "copy_fwd (m(d := m s)) (d + 1) (s + 1) n x =
    (if in_range (d + 1) n x then (m(d := m s)) (s + 1 + (x - (d + 1))) else (m(d := m s)) x)"
    using Suc.prems(1) by (intro Suc.IH safe) simp
  have n: "n < 4294967296" using Suc.prems(1) by simp
  show ?case
  proof (cases "x = d")
    case True
    with n IH show ?thesis by (simp add: in_range_def unat_diff_self_Suc)
  next
    case False
    have "s + (x - d) \<noteq> d" if r: "in_range d (Suc n) x" and ne: "d \<noteq> s"
    proof
      assume "s + (x - d) = d"
      then have "x - d = d - s" by (simp add: algebra_simps)
      with r ne Suc.prems(2) show False by (simp add: in_range_def)
    qed
    with False n IH show ?thesis
      by (auto simp: in_range_Suc algebra_simps)
  qed
qed

section \<open>memset\<close>

text \<open>The register \<open>eax\<close> the assembly starts with: the low byte of \<open>c\<close> in all four bytes.\<close>

definition memset_eax :: "u32 \<Rightarrow> u32" where
  "memset_eax c = (let c = c AND 0xFF in push_bit 24 c OR push_bit 16 c OR push_bit 8 c OR c)"

text \<open>\<open>rep stosl\<close> with the direction flag clear; returns the memory and \<open>edi\<close>.\<close>

function rep_stosl :: "mem \<Rightarrow> u32 \<Rightarrow> u32 \<Rightarrow> u32 \<Rightarrow> mem \<times> u32" where
  "rep_stosl m edi eax ecx =
     (if ecx = 0 then (m, edi) else rep_stosl (store32 m edi eax) (edi + 4) eax (ecx - 1))"
  by pat_completeness auto
termination
  by (relation "measure (\<lambda>(m, edi, eax, ecx). unat ecx)") (simp_all add: measure_unat)

function rep_stosw :: "mem \<Rightarrow> u32 \<Rightarrow> u16 \<Rightarrow> u32 \<Rightarrow> mem \<times> u32" where
  "rep_stosw m edi ax ecx =
     (if ecx = 0 then (m, edi) else rep_stosw (store16 m edi ax) (edi + 2) ax (ecx - 1))"
  by pat_completeness auto
termination
  by (relation "measure (\<lambda>(m, edi, ax, ecx). unat ecx)") (simp_all add: measure_unat)

function memset_bottom :: "mem \<Rightarrow> u32 \<Rightarrow> u8 \<Rightarrow> u32 \<Rightarrow> mem" where
  "memset_bottom m edi al edx =
     (if edx = 0 then m else memset_bottom (m(edi := al)) (edi + 1) al (edx - 1))"
  by pat_completeness auto
termination
  by (relation "measure (\<lambda>(m, edi, al, edx). unat edx)") (simp_all add: measure_unat)

definition memset_aligned :: "mem \<Rightarrow> u32 \<Rightarrow> u32 \<Rightarrow> u32 \<Rightarrow> mem" where
  "memset_aligned m edi eax ecx =
     (let edx = ecx AND 3; (m', edi') = rep_stosl m edi eax (drop_bit 2 ecx)
      in memset_bottom m' edi' (ucast eax) edx)"

function memset_top :: "mem \<Rightarrow> u32 \<Rightarrow> u32 \<Rightarrow> u32 \<Rightarrow> mem" where
  "memset_top m edi eax ecx =
     (if ecx = 0 then m
      else if edi AND 3 = 0 then memset_aligned m edi eax ecx
      else memset_top (m(edi := ucast eax)) (edi + 1) eax (ecx - 1))"
  by pat_completeness auto
termination
  by (relation "measure (\<lambda>(m, edi, eax, ecx). unat ecx)") (simp_all add: measure_unat)

definition memset :: "mem \<Rightarrow> u32 \<Rightarrow> u32 \<Rightarrow> u32 \<Rightarrow> mem" where
  "memset m s c n = memset_top m s (memset_eax c) n"

definition memset_word :: "mem \<Rightarrow> u32 \<Rightarrow> u32 \<Rightarrow> u32 \<Rightarrow> mem" where
  "memset_word m s c n = fst (rep_stosw m s (ucast c) n)"

definition memset_dword :: "mem \<Rightarrow> u32 \<Rightarrow> u32 \<Rightarrow> u32 \<Rightarrow> mem" where
  "memset_dword m s c n = fst (rep_stosl m s c n)"

declare rep_stosl.simps [simp del] rep_stosw.simps [simp del] memset_bottom.simps [simp del]
  memset_top.simps [simp del]

lemma memset_eax_bytes:
  "ucast (memset_eax c) = (ucast c :: u8)"
  "ucast (drop_bit 8 (memset_eax c)) = (ucast c :: u8)"
  "ucast (drop_bit 16 (memset_eax c)) = (ucast c :: u8)"
  "ucast (drop_bit 24 (memset_eax c)) = (ucast c :: u8)"
proof -
  have low: "c AND 0xFF = take_bit 8 c" by (simp add: take_bit_eq_mask mask_numeral)
  show "ucast (memset_eax c) = (ucast c :: u8)"
    "ucast (drop_bit 8 (memset_eax c)) = (ucast c :: u8)"
    "ucast (drop_bit 16 (memset_eax c)) = (ucast c :: u8)"
    "ucast (drop_bit 24 (memset_eax c)) = (ucast c :: u8)"
    unfolding memset_eax_def Let_def low
    by (rule bit_word_eqI; simp add: bit_simps; auto)+
qed

lemma rep_stosl_fill:
  "rep_stosl m edi (memset_eax c) ecx = (fill m edi (ucast c) (4 * unat ecx), edi + 4 * ecx)"
proof (induction m edi "memset_eax c" ecx rule: rep_stosl.induct)
  case (1 m edi ecx)
  show ?case
  proof (cases "ecx = 0")
    case True
    then show ?thesis by (simp add: rep_stosl.simps)
  next
    case False
    have "store32 m edi (memset_eax c) = fill m edi (ucast c) 4"
      by (simp add: store32_def memset_eax_bytes numeral_4_fill)
    with False 1 show ?thesis
      by (subst rep_stosl.simps)
        (simp add: unat_Suc_pred [of ecx] fill_add [symmetric] fill_add [of m edi _ 4] algebra_simps)
  qed
qed

lemma memset_bottom_fill: "memset_bottom m edi al edx = fill m edi al (unat edx)"
proof (induction m edi al edx rule: memset_bottom.induct)
  case (1 m edi al edx)
  then show ?case
    by (subst memset_bottom.simps) (auto simp: unat_Suc_pred [of edx] fun_upd_def)
qed

lemma memset_aligned_fill:
  "memset_aligned m edi (memset_eax c) ecx = fill m edi (ucast c) (unat ecx)"
  by (simp add: memset_aligned_def Let_def rep_stosl_fill memset_bottom_fill memset_eax_bytes
      unat_split_4 [of ecx] fill_add)

lemma memset_top_fill: "memset_top m edi (memset_eax c) ecx = fill m edi (ucast c) (unat ecx)"
proof (induction m edi "memset_eax c" ecx rule: memset_top.induct)
  case (1 m edi ecx)
  then show ?case
    by (subst memset_top.simps)
      (auto simp: unat_Suc_pred [of ecx] memset_aligned_fill memset_eax_bytes fun_upd_def)
qed

lemma memset_fill: "memset m s c n = fill m s (ucast c) (unat n)"
  by (simp add: memset_def memset_top_fill)

section \<open>memcpy\<close>

text \<open>\<open>rep movsl\<close> with the direction flag clear; returns memory, \<open>edi\<close> and \<open>esi\<close>.\<close>

function rep_movsl :: "mem \<Rightarrow> u32 \<Rightarrow> u32 \<Rightarrow> u32 \<Rightarrow> mem \<times> u32 \<times> u32" where
  "rep_movsl m edi esi ecx =
     (if ecx = 0 then (m, edi, esi)
      else rep_movsl (store32 m edi (load32 m esi)) (edi + 4) (esi + 4) (ecx - 1))"
  by pat_completeness auto
termination
  by (relation "measure (\<lambda>(m, edi, esi, ecx). unat ecx)") (simp_all add: measure_unat)

function memcpy_bottom :: "mem \<Rightarrow> u32 \<Rightarrow> u32 \<Rightarrow> u32 \<Rightarrow> mem" where
  "memcpy_bottom m edi esi edx =
     (if edx = 0 then m else memcpy_bottom (m(edi := m esi)) (edi + 1) (esi + 1) (edx - 1))"
  by pat_completeness auto
termination
  by (relation "measure (\<lambda>(m, edi, esi, edx). unat edx)") (simp_all add: measure_unat)

definition memcpy_aligned :: "mem \<Rightarrow> u32 \<Rightarrow> u32 \<Rightarrow> u32 \<Rightarrow> mem" where
  "memcpy_aligned m edi esi ecx =
     (let edx = ecx AND 3; (m', edi', esi') = rep_movsl m edi esi (drop_bit 2 ecx)
      in memcpy_bottom m' edi' esi' edx)"

function memcpy_top :: "mem \<Rightarrow> u32 \<Rightarrow> u32 \<Rightarrow> u32 \<Rightarrow> mem" where
  "memcpy_top m edi esi ecx =
     (if ecx = 0 then m
      else if edi AND 3 = 0 then memcpy_aligned m edi esi ecx
      else memcpy_top (m(edi := m esi)) (edi + 1) (esi + 1) (ecx - 1))"
  by pat_completeness auto
termination
  by (relation "measure (\<lambda>(m, edi, esi, ecx). unat ecx)") (simp_all add: measure_unat)

definition memcpy :: "mem \<Rightarrow> u32 \<Rightarrow> u32 \<Rightarrow> u32 \<Rightarrow> mem" where
  "memcpy m dest src n = memcpy_top m dest src n"

declare rep_movsl.simps [simp del] memcpy_bottom.simps [simp del] memcpy_top.simps [simp del]

lemma movsl_copy_fwd:
  assumes "d = s \<or> 4 \<le> unat (d - s)"
  shows "store32 m d (load32 m s) = copy_fwd m d s 4"
proof -
  have ne: "d + of_nat i \<noteq> s + of_nat j" if "i < j" "j < 4" "d \<noteq> s" for i j :: nat
  proof
    assume "d + of_nat i = s + of_nat j"
    then have "d - s = of_nat j - of_nat i" by (simp add: algebra_simps)
    also have "\<dots> = of_nat (j - i)" using that by (simp add: of_nat_diff)
    finally have "unat (d - s) = unat (of_nat (j - i) :: u32)" by (rule arg_cong)
    also have "\<dots> = j - i" by (rule unat_of_nat32) (use that in simp)
    finally have "unat (d - s) = j - i" .
    with that assms show False by simp
  qed
  show ?thesis
    using ne [of 0 1] ne [of 0 2] ne [of 0 3] ne [of 1 2] ne [of 1 3] ne [of 2 3]
    by (cases "d = s") (simp_all add: store32_def mem_simps numeral_4_copy_fwd Let_def fun_upd_idem)
qed

lemma rep_movsl_copy_fwd:
  "d = s \<or> 4 * unat n \<le> unat (d - s) \<Longrightarrow>
   rep_movsl m d s n = (copy_fwd m d s (4 * unat n), d + 4 * n, s + 4 * n)"
proof (induction m d s n rule: rep_movsl.induct)
  case (1 m d s n)
  show ?case
  proof (cases "n = 0")
    case True
    then show ?thesis by (simp add: rep_movsl.simps)
  next
    case False
    then have n: "unat n = Suc (unat (n - 1))" by (rule unat_Suc_pred)
    have "d = s \<or> 4 \<le> unat (d - s)" using "1.prems" n by auto
    moreover have "d + 4 = s + 4 \<or> 4 * unat (n - 1) \<le> unat ((d + 4) - (s + 4))"
      using "1.prems" n by auto
    ultimately show ?thesis using False "1.IH" n
      by (subst rep_movsl.simps)
        (simp add: movsl_copy_fwd copy_fwd_add [of m d s 4] algebra_simps)
  qed
qed

lemma memcpy_bottom_copy_fwd: "memcpy_bottom m d s n = copy_fwd m d s (unat n)"
proof (induction m d s n rule: memcpy_bottom.induct)
  case (1 m d s n)
  then show ?case
    by (subst memcpy_bottom.simps) (auto simp: unat_Suc_pred [of n] fun_upd_def)
qed

lemma memcpy_aligned_copy_fwd:
  assumes "d = s \<or> unat n \<le> unat (d - s)"
  shows "memcpy_aligned m d s n = copy_fwd m d s (unat n)"
proof -
  have "d = s \<or> 4 * unat (drop_bit 2 n) \<le> unat (d - s)"
    using assms unat_split_4 [of n] by auto
  then show ?thesis
    by (simp add: memcpy_aligned_def Let_def rep_movsl_copy_fwd memcpy_bottom_copy_fwd
        unat_split_4 [of n] copy_fwd_add)
qed

lemma memcpy_top_copy_fwd:
  "d = s \<or> unat n \<le> unat (d - s) \<Longrightarrow> memcpy_top m d s n = copy_fwd m d s (unat n)"
proof (induction m d s n rule: memcpy_top.induct)
  case (1 m d s n)
  show ?case
  proof (cases "n = 0 \<or> d AND 3 = 0")
    case True
    with "1.prems" show ?thesis
      by (subst memcpy_top.simps) (auto simp: memcpy_aligned_copy_fwd)
  next
    case False
    then have n: "unat n = Suc (unat (n - 1))" by (simp add: unat_Suc_pred)
    have "d + 1 = s + 1 \<or> unat (n - 1) \<le> unat ((d + 1) - (s + 1))"
      using "1.prems" n by auto
    with False "1.IH" n show ?thesis by (subst memcpy_top.simps) (simp add: fun_upd_def)
  qed
qed

lemma memcpy_copy_fwd:
  "d = s \<or> unat n \<le> unat (d - s) \<Longrightarrow> memcpy m d s n = copy_fwd m d s (unat n)"
  by (simp add: memcpy_def memcpy_top_copy_fwd)

text \<open>For every overlap: nothing outside the destination is written.\<close>

lemma copy_fwd_frame:
  "\<not> in_range d n x \<Longrightarrow> n \<le> 4294967296 \<Longrightarrow> copy_fwd m d s n x = m x"
proof (induction n arbitrary: m d s)
  case (Suc n)
  then show ?case using in_range_Suc [of n d x] by simp
qed simp

lemma in_range_diff: "\<not> in_range d n x \<Longrightarrow> k \<le> n \<Longrightarrow> n \<le> 4294967296 \<Longrightarrow> 0 < k \<Longrightarrow> \<not> in_range (d + of_nat k) (n - k) x"
proof (rule notI)
  assume a: "\<not> in_range d n x" "k \<le> n" "n \<le> 4294967296" "0 < k" "in_range (d + of_nat k) (n - k) x"
  show False
  proof (cases "k = n")
    case False
    then have "unat (of_nat k :: u32) = k" using a by (intro unat_of_nat32) simp
    with a show False using in_range_sub [of "d + of_nat k" d "n - k" n x] by simp
  qed (use a in simp)
qed

lemma in_range_4: "\<not> in_range d n x \<Longrightarrow> 4 \<le> n \<Longrightarrow> x \<noteq> d \<and> x \<noteq> d + 1 \<and> x \<noteq> d + 2 \<and> x \<noteq> d + 3"
  by (auto simp: in_range_def)

lemma rep_movsl_frame:
  "\<not> in_range d (4 * unat n) x \<Longrightarrow> 4 * unat n \<le> 4294967296 \<Longrightarrow> fst (rep_movsl m d s n) x = m x
   \<and> snd (rep_movsl m d s n) = (d + 4 * n, s + 4 * n)"
proof (induction m d s n rule: rep_movsl.induct)
  case (1 m d s n)
  show ?case
  proof (cases "n = 0")
    case True
    then show ?thesis by (simp add: rep_movsl.simps)
  next
    case False
    then have n: "unat n = Suc (unat (n - 1))" by (rule unat_Suc_pred)
    have "\<not> in_range (d + 4) (4 * unat (n - 1)) x"
      using in_range_diff [OF "1.prems"(1), of 4] "1.prems"(2) n by simp
    moreover have "store32 m d (load32 m s) x = m x"
      using in_range_4 [OF "1.prems"(1)] n by (simp add: store32_def)
    ultimately show ?thesis using False "1.IH" "1.prems"(2) n
      by (subst (1 2) rep_movsl.simps) (simp add: algebra_simps)
  qed
qed

lemma memcpy_aligned_frame:
  assumes "\<not> in_range d (unat n) x"
  shows "memcpy_aligned m d s n x = m x"
proof -
  define k where "k = 4 * unat (drop_bit 2 n)"
  have n: "unat n = k + unat (n AND 3)" by (simp add: unat_split_4 [of n] k_def)
  have lt: "k \<le> 4294967295" using n unat_le32 [of n] by linarith
  have k: "\<not> in_range d k x" using assms in_range_mono [of d k x "unat n"] n by auto
  have "\<not> in_range (d + 4 * drop_bit 2 n) (unat (n AND 3)) x"
  proof (cases "k = 0")
    case True
    then show ?thesis using assms n by (simp add: k_def unat_eq_0)
  next
    case False
    have "of_nat k = 4 * drop_bit 2 n" by (simp add: k_def)
    with False show ?thesis using in_range_diff [OF assms, of k] n unat_le32 [of n] by simp
  qed
  then have b: "memcpy_bottom m' (d + 4 * drop_bit 2 n) s' (n AND 3) x = m' x" for m' s'
    by (simp add: memcpy_bottom_copy_fwd copy_fwd_frame less_imp_le)
  obtain m1 where r: "rep_movsl m d s (drop_bit 2 n) = (m1, d + 4 * drop_bit 2 n, s + 4 * drop_bit 2 n)" and "m1 x = m x"
    using rep_movsl_frame [of d "drop_bit 2 n" x m s] k lt
    by (cases "rep_movsl m d s (drop_bit 2 n)") (auto simp: k_def)
  then show ?thesis by (simp add: memcpy_aligned_def Let_def r b)
qed

lemma memcpy_top_frame: "\<not> in_range d (unat n) x \<Longrightarrow> memcpy_top m d s n x = m x"
proof (induction m d s n rule: memcpy_top.induct)
  case (1 m d s n)
  show ?case
  proof (cases "n = 0 \<or> d AND 3 = 0")
    case True
    with "1.prems" show ?thesis
      by (subst memcpy_top.simps) (auto simp: memcpy_aligned_frame)
  next
    case False
    then have n: "unat n = Suc (unat (n - 1))" by (simp add: unat_Suc_pred)
    have "x \<noteq> d" and "\<not> in_range (d + 1) (unat (n - 1)) x"
      using "1.prems" n in_range_Suc [of "unat (n - 1)" d x] by auto
    with False "1.IH" show ?thesis by (subst memcpy_top.simps) (simp add: fun_upd_def)
  qed
qed

lemma memcpy_frame: "\<not> in_range d (unat n) x \<Longrightarrow> memcpy m d s n x = m x"
  by (simp add: memcpy_def memcpy_top_frame)

section \<open>memmove\<close>

text \<open>\<open>rep movsb\<close>: \<open>df\<close> is the direction flag, set for descending addresses.\<close>

function rep_movsb :: "bool \<Rightarrow> mem \<Rightarrow> u32 \<Rightarrow> u32 \<Rightarrow> u32 \<Rightarrow> mem" where
  "rep_movsb df m edi esi ecx =
     (if ecx = 0 then m
      else if df then rep_movsb df (m(edi := m esi)) (edi - 1) (esi - 1) (ecx - 1)
      else rep_movsb df (m(edi := m esi)) (edi + 1) (esi + 1) (ecx - 1))"
  by pat_completeness auto
termination
  by (relation "measure (\<lambda>(df, m, edi, esi, ecx). unat ecx)") (simp_all add: measure_unat)

declare rep_movsb.simps [simp del]

text \<open>
  The result is the memory and the direction flag the routine leaves behind: the backward branch
  executes \<open>std\<close> and nothing clears the flag again.
\<close>

definition memmove :: "mem \<Rightarrow> u32 \<Rightarrow> u32 \<Rightarrow> u32 \<Rightarrow> mem \<times> bool" where
  "memmove m dest src n =
     (if src \<ge> dest then (rep_movsb False m dest src n, False)
      else (rep_movsb True m (dest + n - 1) (src + n - 1) n, True))"


text \<open>The backward reference: the last byte is moved first.\<close>

primrec copy_bwd :: "mem \<Rightarrow> u32 \<Rightarrow> u32 \<Rightarrow> nat \<Rightarrow> mem" where
  "copy_bwd m d s 0 = m"
| "copy_bwd m d s (Suc n) = copy_bwd (m(d + of_nat n := m (s + of_nat n))) d s n"

lemma copy_bwd_apply [mem_simps]:
  assumes "n \<le> 4294967296" and "d = s \<or> n \<le> unat (s - d)"
  shows "copy_bwd m d s n x = (if in_range d n x then m (s + (x - d)) else m x)"
  using assms
proof (induction n arbitrary: m)
  case 0
  then show ?case by simp
next
  case (Suc n)
  have n: "n < 4294967296" using Suc.prems(1) by simp
  have "s + (x - d) \<noteq> d + of_nat n" if r: "in_range d n x" and ne: "d \<noteq> s"
  proof
    assume "s + (x - d) = d + of_nat n"
    then have "of_nat n - (x - d) = s - d" by (simp add: algebra_simps)
    moreover have "of_nat n - (x - d) = of_nat (n - unat (x - d))"
      using r by (simp add: in_range_def of_nat_diff)
    ultimately have "unat (s - d) = n - unat (x - d)"
      using n by (metis diff_le_self le_less_trans unat_of_nat32)
    with r ne Suc.prems(2) show False by (simp add: in_range_def)
  qed
  moreover have "unat (x - d) = n \<longleftrightarrow> x = d + of_nat n"
    using n by (rule unat_diff_eq)
  ultimately show ?case
    using Suc n by (cases "d = s") (auto simp: in_range_Suc_last)
qed

lemma rep_movsb_copy_fwd: "rep_movsb False m d s n = copy_fwd m d s (unat n)"
proof (induction False m d s n rule: rep_movsb.induct)
  case (1 m d s n)
  then show ?case
    by (subst rep_movsb.simps) (auto simp: unat_Suc_pred [of n] fun_upd_def)
qed

lemma rep_movsb_copy_bwd: "rep_movsb True m (d + n - 1) (s + n - 1) n = copy_bwd m d s (unat n)"
proof (induction "unat n" arbitrary: m n)
  case 0
  then have "n = 0" by (simp add: unat_eq_0)
  then show ?case by (simp add: rep_movsb.simps)
next
  case (Suc k)
  then have n: "n \<noteq> 0" by auto
  then have k: "k = unat (n - 1)" using Suc.hyps(2) unat_Suc_pred [of n] by simp
  then have "n - 1 = of_nat k" by simp
  then have "d + n - 1 = d + of_nat k" and "s + n - 1 = s + of_nat k"
    by (simp_all add: algebra_simps)
  moreover have "d + (n - 1) - 1 = d + n - 1 - 1" and "s + (n - 1) - 1 = s + n - 1 - 1"
    by (simp_all add: algebra_simps)
  ultimately have "rep_movsb True m (d + n - 1) (s + n - 1) n =
    rep_movsb True (m(d + of_nat k := m (s + of_nat k))) (d + (n - 1) - 1) (s + (n - 1) - 1) (n - 1)"
    using n by (subst rep_movsb.simps) (simp only: if_True if_False)
  also have "\<dots> = copy_bwd (m(d + of_nat k := m (s + of_nat k))) d s k"
    using Suc.hyps(1) [OF k] k by (simp only:)
  finally show ?case using Suc.hyps(2) by (simp only: copy_bwd.simps flip: Suc.hyps(2))
qed

section \<open>The contract of a block copy\<close>

text \<open>
  What the rest of the kernel relies on when it copies a block: for disjoint blocks the
  destination receives the source and everything else keeps its value.
\<close>

locale block_copy =
  fixes copy :: "mem \<Rightarrow> u32 \<Rightarrow> u32 \<Rightarrow> u32 \<Rightarrow> mem"
  assumes copy_at: "disj_ranges d (unat n) s (unat n) \<Longrightarrow>
    copy m d s n x = (if in_range d (unat n) x then m (s + (x - d)) else m x)"
begin

lemma copy_frame:
  "disj_ranges d (unat n) s (unat n) \<Longrightarrow> \<not> in_range d (unat n) x \<Longrightarrow> copy m d s n x = m x"
  by (simp add: copy_at)

lemma copy_dest:
  "disj_ranges d (unat n) s (unat n) \<Longrightarrow>
   load_bytes (copy m d s n) d (unat n) = load_bytes m s (unat n)"
  by (rule nth_equalityI)
    (auto simp: copy_at in_range_offset less_trans [OF _ unat_lt32])

lemma copy_load_other:
  "disj_ranges d (unat n) s (unat n) \<Longrightarrow> disj_ranges d (unat n) a k \<Longrightarrow> k \<le> 4294967296 \<Longrightarrow>
   load_bytes (copy m d s n) a k = load_bytes m a k"
  by (rule load_bytes_cong) (auto simp: copy_at dest: disj_rangesD)

lemma copy_source_kept:
  "disj_ranges d (unat n) s (unat n) \<Longrightarrow> load_bytes (copy m d s n) s (unat n) = load_bytes m s (unat n)"
  by (rule copy_load_other) (auto intro: less_imp_le)

lemma copy_store_bytes:
  assumes "disj_ranges d (unat n) s (unat n)"
  shows "copy m d s n = store_bytes m d (load_bytes m s (unat n))"
  by (rule ext) (auto simp: copy_at [OF assms] store_bytes_apply less_imp_le in_range_def)

end

text \<open>A routine that also copies overlapping blocks, as long as neither wraps around.\<close>

locale overlap_copy = block_copy +
  assumes copy_overlap: "unat d + unat n \<le> 4294967296 \<Longrightarrow> unat s + unat n \<le> 4294967296 \<Longrightarrow>
    copy m d s n x = (if in_range d (unat n) x then m (s + (x - d)) else m x)"
begin

lemma overlap_dest:
  "unat d + unat n \<le> 4294967296 \<Longrightarrow> unat s + unat n \<le> 4294967296 \<Longrightarrow>
   load_bytes (copy m d s n) d (unat n) = load_bytes m s (unat n)"
  by (rule nth_equalityI)
    (auto simp: copy_overlap in_range_offset less_trans [OF _ unat_lt32])

end

lemma disj_ranges_safe: "disj_ranges d n s n \<Longrightarrow> d = s \<or> n \<le> unat (d - s)"
  by (auto simp: disj_ranges_def)

lemma memmove_apply:
  assumes fwd: "d \<le> s \<Longrightarrow> d = s \<or> unat n \<le> unat (d - s)"
    and bwd: "s < d \<Longrightarrow> unat n \<le> unat (s - d)"
  shows "fst (memmove m d s n) x = (if in_range d (unat n) x then m (s + (x - d)) else m x)"
proof (cases "d \<le> s")
  case True
  then show ?thesis
    using fwd by (simp add: memmove_def rep_movsb_copy_fwd copy_fwd_apply less_imp_le)
next
  case False
  then show ?thesis
    using bwd by (simp add: memmove_def rep_movsb_copy_bwd copy_bwd_apply less_imp_le)
qed

interpretation memcpy: block_copy memcpy
proof
  fix d s n :: u32 and m x
  assume "disj_ranges d (unat n) s (unat n)"
  then have "d = s \<or> unat n \<le> unat (d - s)" by (rule disj_ranges_safe)
  then show "memcpy m d s n x = (if in_range d (unat n) x then m (s + (x - d)) else m x)"
    by (simp add: memcpy_copy_fwd copy_fwd_apply less_imp_le)
qed

lemma unat_diff_no_wrap:
  fixes d s :: u32
  assumes "s < d" and "unat d + n \<le> 4294967296"
  shows "n \<le> unat (s - d)"
  using assms by (auto simp: unat_sub_if' word_less_nat_alt)

interpretation memmove: overlap_copy "\<lambda>m d s n. fst (memmove m d s n)"
proof
  fix d s n :: u32 and m x
  assume a: "disj_ranges d (unat n) s (unat n)"
  show "fst (memmove m d s n) x = (if in_range d (unat n) x then m (s + (x - d)) else m x)"
    using disj_ranges_safe [OF a] disj_ranges_safe [OF a [THEN disj_ranges_sym [THEN iffD1]]]
    by (intro memmove_apply) auto
next
  fix d s n :: u32 and m x
  assume d: "unat d + unat n \<le> 4294967296" and s: "unat s + unat n \<le> 4294967296"
  show "fst (memmove m d s n) x = (if in_range d (unat n) x then m (s + (x - d)) else m x)"
    using unat_diff_no_wrap [OF _ d, of s] unat_diff_no_wrap [OF _ s, of d]
    by (intro memmove_apply) (auto simp: order_le_less)
qed

section \<open>Properties\<close>

text \<open>
  \<open>memset\<close> writes the low byte of \<open>c\<close> to exactly the \<open>n\<close> bytes from \<open>s\<close>, for every
  alignment of \<open>s\<close> and every \<open>n\<close>, whatever part of the work the dword loop does.
\<close>

lemma memset_spec:
  "memset m s c n x = (if in_range s (unat n) x then ucast c else m x)"
  by (simp add: memset_fill fill_apply less_imp_le)

text \<open>
  C37. \<open>memcpy\<close> copies \<open>n\<close> bytes and changes nothing else, also for overlapping blocks as
  long as the destination does not start strictly inside the source.
\<close>

theorem memcpy_spec:
  assumes "d = s \<or> unat n \<le> unat (d - s)"
  shows "memcpy m d s n x = (if in_range d (unat n) x then m (s + (x - d)) else m x)"
  using assms by (simp add: memcpy_copy_fwd copy_fwd_apply less_imp_le)

theorem memcpy_spec_witness:
  "memcpy (\<lambda>a. ucast a) 0x1001 0x1003 6 0x1001 = 3"
  by (subst memcpy_spec) (simp_all add: in_range_def)

text \<open>
  \<open>memmove\<close> copies \<open>n\<close> bytes for every overlap of two blocks that do not wrap around, and
  leaves the direction flag set exactly when it copied backwards.
\<close>

lemma memmove_spec:
  assumes "unat d + unat n \<le> 4294967296" and "unat s + unat n \<le> 4294967296"
  shows "fst (memmove m d s n) x = (if in_range d (unat n) x then m (s + (x - d)) else m x)
    \<and> (snd (memmove m d s n) \<longleftrightarrow> s < d)"
  using memmove.copy_overlap [OF assms, of m x] by (auto simp: memmove_def)

end
