(* ===== verification/LibString.thy ===== *)
theory LibString
  imports LibMem
begin

text \<open>
  The string routines of \<open>lib.c\<close> on the flat memory: \<open>strlen\<close>, \<open>strncmp\<close>, \<open>strcpy\<close>,
  \<open>strncpy\<close>, \<open>strrev\<close> and \<open>itoa\<close>. A loop that only ends at a terminating NUL is a
  \<open>partial_function\<close>: its value is \<open>None\<close> when memory holds no NUL to stop it, and the lemmas
  show when it returns. \<open>cstr m s bs\<close> says that the C string at \<open>s\<close> has the characters \<open>bs\<close>.
\<close>

section \<open>C strings\<close>

definition cstr :: "mem \<Rightarrow> u32 \<Rightarrow> u8 list \<Rightarrow> bool" where
  "cstr m s bs \<longleftrightarrow> length bs < 4294967296 \<and> 0 \<notin> set bs
     \<and> load_bytes m s (length bs) = bs \<and> m (s + of_nat (length bs)) = 0"

lemma cstr_length: "cstr m s bs \<Longrightarrow> length bs < 4294967296"
  by (simp add: cstr_def)

lemma cstr_nth: "cstr m s bs \<Longrightarrow> i < length bs \<Longrightarrow> m (s + of_nat i) = bs ! i"
  unfolding cstr_def by (metis load_bytes_nth)

lemma cstr_nonzero: "cstr m s bs \<Longrightarrow> i < length bs \<Longrightarrow> bs ! i \<noteq> 0"
  unfolding cstr_def by (metis nth_mem)

lemma cstr_end: "cstr m s bs \<Longrightarrow> m (s + of_nat (length bs)) = 0"
  by (simp add: cstr_def)

lemma cstr_unique:
  assumes "cstr m s bs" and "cstr m s cs"
  shows "bs = cs"
proof -
  have "\<not> length bs < length cs"
    using cstr_end [OF assms(1)] cstr_nth [OF assms(2)] cstr_nonzero [OF assms(2)] by metis
  moreover have "\<not> length cs < length bs"
    using cstr_end [OF assms(2)] cstr_nth [OF assms(1)] cstr_nonzero [OF assms(1)] by metis
  ultimately have "length bs = length cs" by linarith
  then show ?thesis using assms unfolding cstr_def by metis
qed

lemma cstr_iff:
  "cstr m s bs \<longleftrightarrow> length bs < 4294967296 \<and> 0 \<notin> set bs
     \<and> (\<forall>i < length bs. m (s + of_nat i) = bs ! i) \<and> m (s + of_nat (length bs)) = 0"
  unfolding cstr_def by (auto simp: list_eq_iff_nth_eq)

lemma cstr_store_bytes:
  "0 \<notin> set bs \<Longrightarrow> length bs < 4294967296 \<Longrightarrow> cstr (store_bytes m s (bs @ [0])) s bs"
  by (auto simp: cstr_iff store_bytes_apply in_range_offset unat_of_nat32 nth_append)

lemma cstr_cong:
  "cstr m s bs \<Longrightarrow> (\<And>x. in_range s (Suc (length bs)) x \<Longrightarrow> m' x = m x) \<Longrightarrow> cstr m' s bs"
  by (auto simp: cstr_iff in_range_offset)

section \<open>strlen\<close>

partial_function (option) strlen_loop :: "mem \<Rightarrow> u32 \<Rightarrow> u32 \<Rightarrow> u32 option" where
  "strlen_loop m s len = (if m (s + len) \<noteq> 0 then strlen_loop m s (len + 1) else Some len)"

definition strlen :: "mem \<Rightarrow> u32 \<Rightarrow> u32 option" where
  "strlen m s = strlen_loop m s 0"

lemma strlen_loop_Some:
  "k < 4294967296 \<Longrightarrow> j \<le> k \<Longrightarrow> m (s + of_nat k) = 0 \<Longrightarrow>
   (\<And>i. j \<le> i \<Longrightarrow> i < k \<Longrightarrow> m (s + of_nat i) \<noteq> 0) \<Longrightarrow>
   strlen_loop m s (of_nat j) = Some (of_nat k)"
proof (induction "k - j" arbitrary: j)
  case 0
  then show ?case by (simp add: strlen_loop.simps)
next
  case (Suc d)
  then have "strlen_loop m s (of_nat (Suc j)) = Some (of_nat k)"
    by (intro Suc.hyps(1)) auto
  moreover have "m (s + of_nat j) \<noteq> 0" using Suc by simp
  ultimately show ?case by (subst strlen_loop.simps) (simp add: add.commute)
qed

lemma strlen_loop_stops: "strlen_loop m s len = Some r \<Longrightarrow> m (s + r) = 0"
proof (erule strlen_loop.raw_induct [where P = "\<lambda>m s len r. m (s + r) = 0", rotated])
  fix f :: "mem \<Rightarrow> u32 \<Rightarrow> u32 \<Rightarrow> u32 option" and m s len r
  assume "\<And>m s len r. f m s len = Some r \<Longrightarrow> m (s + r) = 0"
    and "(if m (s + len) \<noteq> 0 then f m s (len + 1) else Some len) = Some r"
  then show "m (s + r) = 0" by (auto split: if_splits)
qed

lemma strlen_cstr: "cstr m s bs \<Longrightarrow> strlen m s = Some (of_nat (length bs))"
  unfolding strlen_def
  using strlen_loop_Some [of "length bs" 0 m s]
  by (simp add: cstr_length cstr_end cstr_nth cstr_nonzero)

lemma cstr_exists:
  assumes "m x = 0"
  shows "\<exists>bs. cstr m s bs"
proof -
  let ?P = "\<lambda>k. k < 4294967296 \<and> m (s + of_nat k) = 0"
  have "?P (unat (x - s))" using assms by simp
  then obtain k where k: "?P k" and min: "\<And>i. i < k \<Longrightarrow> \<not> ?P i"
    using exists_least_iff [of ?P] by blast
  have "cstr m s (load_bytes m s k)"
    using k min by (auto simp: cstr_def in_set_conv_nth)
  then show ?thesis by blast
qed

section \<open>strncmp\<close>

text \<open>Both bytes are \<open>int8_t\<close>, so the difference is taken after sign extension.\<close>

function strncmp_loop :: "mem \<Rightarrow> u32 \<Rightarrow> u32 \<Rightarrow> u32 \<Rightarrow> u32 \<Rightarrow> u32" where
  "strncmp_loop m s1 s2 n i =
     (if i < n
      then (if m (s1 + i) \<noteq> m (s2 + i) \<or> m (s1 + i) = 0
            then scast (m (s1 + i)) - scast (m (s2 + i))
            else strncmp_loop m s1 s2 n (i + 1))
      else 0)"
  by pat_completeness auto
termination
proof (relation "measure (\<lambda>(m, s1, s2, n, i). unat n - unat i)")
  fix n i :: u32
  assume "i < n"
  then show "((m, s1, s2, n, i + 1), m, s1, s2, n, i) \<in> measure (\<lambda>(m, s1, s2, n, i). unat n - unat i)"
    for m :: mem and s1 s2 :: u32
    by (simp add: unat_Suc_less)
qed simp

declare strncmp_loop.simps [simp del]

definition strncmp :: "mem \<Rightarrow> u32 \<Rightarrow> u32 \<Rightarrow> u32 \<Rightarrow> u32" where
  "strncmp m s1 s2 n = strncmp_loop m s1 s2 n 0"


text \<open>The comparison on lists of bytes that \<open>strncmp\<close> computes.\<close>

fun ncmp :: "u8 list \<Rightarrow> u8 list \<Rightarrow> u32" where
  "ncmp (a # as) (b # bs) = (if a \<noteq> b \<or> a = 0 then scast a - scast b else ncmp as bs)"
| "ncmp _ _ = 0"

text \<open>The characters of the string at \<open>s\<close>, cut after \<open>n\<close>.\<close>

definition cprefix :: "mem \<Rightarrow> u32 \<Rightarrow> nat \<Rightarrow> u8 list" where
  "cprefix m s n = takeWhile (\<lambda>b. b \<noteq> 0) (load_bytes m s n)"

lemma ucast_scast_byte: "ucast (scast (a :: u8) :: u32) = a"
  by (rule bit_word_eqI) (auto simp: bit_simps)

lemma scast_byte_eq: "scast (a :: u8) = (scast b :: u32) \<longleftrightarrow> a = b"
  by (metis ucast_scast_byte)

lemma scast_byte_eq_0 [simp]: "scast (a :: u8) = (0 :: u32) \<longleftrightarrow> a = 0"
  using scast_byte_eq [of a 0] by simp

lemma strncmp_loop_ncmp:
  "i \<le> n \<Longrightarrow> strncmp_loop m s1 s2 n i =
   ncmp (load_bytes m (s1 + i) (unat n - unat i)) (load_bytes m (s2 + i) (unat n - unat i))"
proof (induction m s1 s2 n i rule: strncmp_loop.induct)
  case (1 m s1 s2 n i)
  show ?case
  proof (cases "i < n")
    case True
    have "unat n - unat i = Suc (unat n - unat (i + 1))"
      using True by (simp add: unat_succ_less word_less_nat_alt)
    moreover have "i + 1 \<le> n"
      using True by (simp add: word_le_nat_alt word_less_nat_alt unat_succ_less)
    ultimately show ?thesis
      using True "1.IH" by (subst strncmp_loop.simps) (auto simp: load_bytes_Suc add.assoc)
  next
    case False
    with "1.prems" show ?thesis by (subst strncmp_loop.simps) simp
  qed
qed

lemma strncmp_ncmp:
  "strncmp m s1 s2 n = ncmp (load_bytes m s1 (unat n)) (load_bytes m s2 (unat n))"
  by (simp add: strncmp_def strncmp_loop_ncmp)

lemma ncmp_zero:
  "length as = length bs \<Longrightarrow>
   ncmp as bs = 0 \<longleftrightarrow> takeWhile (\<lambda>b. b \<noteq> 0) as = takeWhile (\<lambda>b. b \<noteq> 0) bs"
  by (induction as bs rule: list_induct2) (auto simp: scast_byte_eq)

lemma ncmp_swap: "length as = length bs \<Longrightarrow> ncmp bs as = - ncmp as bs"
proof (induction as bs rule: list_induct2)
  case (Cons a as b bs)
  then show ?case by (cases "a = b") simp_all
qed simp

lemma strncmp_zero: "strncmp m s1 s2 n = 0 \<longleftrightarrow> cprefix m s1 (unat n) = cprefix m s2 (unat n)"
  by (simp add: strncmp_ncmp ncmp_zero cprefix_def)

section \<open>strcpy and strncpy\<close>

partial_function (option) strcpy_loop :: "mem \<Rightarrow> u32 \<Rightarrow> u32 \<Rightarrow> u32 \<Rightarrow> mem option" where
  "strcpy_loop m dest src i =
     (if m (src + i) \<noteq> 0 then strcpy_loop (m(dest + i := m (src + i))) dest src (i + 1)
      else Some (m(dest + i := 0)))"

definition strcpy :: "mem \<Rightarrow> u32 \<Rightarrow> u32 \<Rightarrow> mem option" where
  "strcpy m dest src = strcpy_loop m dest src 0"

text \<open>The two loops of \<open>strncpy\<close>: copy up to the NUL or the bound, then pad.\<close>

function strncpy_copy :: "mem \<Rightarrow> u32 \<Rightarrow> u32 \<Rightarrow> u32 \<Rightarrow> u32 \<Rightarrow> mem \<times> u32" where
  "strncpy_copy m dest src n i =
     (if m (src + i) \<noteq> 0 \<and> i < n
      then strncpy_copy (m(dest + i := m (src + i))) dest src n (i + 1)
      else (m, i))"
  by pat_completeness auto
termination
  by (relation "measure (\<lambda>(m, dest, src, n, i). unat n - unat i)") (simp_all add: unat_Suc_less)

function strncpy_pad :: "mem \<Rightarrow> u32 \<Rightarrow> u32 \<Rightarrow> u32 \<Rightarrow> mem" where
  "strncpy_pad m dest n i =
     (if i < n then strncpy_pad (m(dest + i := 0)) dest n (i + 1) else m)"
  by pat_completeness auto
termination
  by (relation "measure (\<lambda>(m, dest, n, i). unat n - unat i)") (simp_all add: unat_Suc_less)

declare strncpy_copy.simps [simp del] strncpy_pad.simps [simp del]

definition strncpy :: "mem \<Rightarrow> u32 \<Rightarrow> u32 \<Rightarrow> u32 \<Rightarrow> mem" where
  "strncpy m dest src n =
     (case strncpy_copy m dest src n 0 of (m', i) \<Rightarrow> strncpy_pad m' dest n i)"

text \<open>The \<open>n\<close> bytes \<open>strncpy\<close> writes: the string cut at \<open>n\<close>, padded with NULs.\<close>

definition strncpy_bytes :: "mem \<Rightarrow> u32 \<Rightarrow> nat \<Rightarrow> u8 list" where
  "strncpy_bytes m src n = (let t = cprefix m src n in t @ replicate (n - length t) 0)"

lemma cprefix_length: "length (cprefix m s n) \<le> n"
  unfolding cprefix_def using length_takeWhile_le [of _ "load_bytes m s n"] by simp

lemma length_strncpy_bytes [simp]: "length (strncpy_bytes m src n) = n"
  using cprefix_length [of m src n] by (simp add: strncpy_bytes_def Let_def)

lemma cprefix_nonzero: "i < length (cprefix m s n) \<Longrightarrow> m (s + of_nat i) \<noteq> 0"
  unfolding cprefix_def
  by (metis (mono_tags, lifting) length_load_bytes length_takeWhile_le less_le_trans load_bytes_nth
      nth_mem set_takeWhileD takeWhile_nth)

lemma cprefix_stop: "length (cprefix m s n) < n \<Longrightarrow> m (s + of_nat (length (cprefix m s n))) = 0"
  unfolding cprefix_def
  by (metis (mono_tags, lifting) length_load_bytes load_bytes_nth nth_length_takeWhile)

lemma cprefix_load: "cprefix m s n = load_bytes m s (length (cprefix m s n))"
  using cprefix_length [of m s n]
  by (intro nth_equalityI) (auto simp: cprefix_def takeWhile_nth)

text \<open>One step of a copy loop whose source is untouched by what it has written so far.\<close>

lemma store_bytes_outside:
  assumes "disj_ranges dest n src k" and "i < k" and "length bs \<le> n" and "n \<le> 4294967296" "k \<le> 4294967296"
  shows "store_bytes m dest bs (src + of_nat i) = m (src + of_nat i)"
proof -
  have "in_range src k (src + of_nat i)" using assms by (simp add: in_range_offset)
  then have "\<not> in_range dest n (src + of_nat i)"
    using assms(1) disj_rangesD2 by blast
  then have "\<not> in_range dest (length bs) (src + of_nat i)"
    using assms in_range_mono by blast
  then show ?thesis using assms by (simp add: store_bytes_apply)
qed

lemma load_bytes_snoc: "load_bytes m s n @ [m (s + of_nat n)] = load_bytes m s (Suc n)"
  by (simp add: load_bytes_def)

lemma copy_step:
  "(store_bytes m dest (load_bytes m src j))(dest + of_nat j := m (src + of_nat j))
   = store_bytes m dest (load_bytes m src (Suc j))"
  using store_bytes_snoc [of m dest "load_bytes m src j"] by (simp add: load_bytes_snoc)

lemma strncpy_copy_upto:
  assumes d: "disj_ranges dest (unat n) src (unat n)"
    and k_def: "k = length (cprefix m src (unat n))"
  shows "j \<le> k \<Longrightarrow> strncpy_copy (store_bytes m dest (load_bytes m src j)) dest src n (of_nat j) =
    (store_bytes m dest (cprefix m src (unat n)), of_nat k)"
proof (induction "k - j" arbitrary: j)
  case 0
  then have j: "j = k" by simp
  have k: "k \<le> unat n" unfolding k_def by (rule cprefix_length)
  have "\<not> (store_bytes m dest (load_bytes m src k) (src + of_nat k) \<noteq> 0 \<and> of_nat k < n)"
  proof
    assume "store_bytes m dest (load_bytes m src k) (src + of_nat k) \<noteq> 0 \<and> of_nat k < n"
    then have "k < unat n" and nz: "store_bytes m dest (load_bytes m src k) (src + of_nat k) \<noteq> 0"
      using k less_le_trans [OF _ unat_le32] by (auto simp: word_less_nat_alt unat_of_nat32 le_less_trans [OF k])
    then show False
      using store_bytes_outside [OF d \<open>k < unat n\<close>, of "load_bytes m src k" m] k
        cprefix_stop [of m src "unat n"]
      by (simp add: k_def less_imp_le)
  qed
  then show ?case
    using j cprefix_load [of m src "unat n"] by (subst strncpy_copy.simps) (auto simp: k_def)
next
  case (Suc d')
  then have j: "j < k" by simp
  have k: "k \<le> unat n" unfolding k_def by (rule cprefix_length)
  have jn: "j < unat n" using j k by simp
  then have jw: "of_nat j < n" by (simp add: word_less_nat_alt unat_of_nat32 less_trans [OF _ unat_lt32])
  have rd: "store_bytes m dest (load_bytes m src j) (src + of_nat j) = m (src + of_nat j)"
    using jn by (intro store_bytes_outside [OF d]) (auto simp: less_imp_le)
  have nz: "m (src + of_nat j) \<noteq> 0"
    using j unfolding k_def by (rule cprefix_nonzero)
  have "strncpy_copy (store_bytes m dest (load_bytes m src (Suc j))) dest src n (of_nat (Suc j)) =
    (store_bytes m dest (cprefix m src (unat n)), of_nat k)"
    using Suc.hyps(2) j by (intro Suc.hyps(1)) auto
  then show ?case
    using jw rd nz by (subst strncpy_copy.simps) (simp add: copy_step add.commute)
qed

lemma strncpy_pad_fill:
  "i \<le> n \<Longrightarrow> strncpy_pad m dest n i = fill m (dest + i) 0 (unat n - unat i)"
proof (induction m dest n i rule: strncpy_pad.induct)
  case (1 m dest n i)
  show ?case
  proof (cases "i < n")
    case True
    have "unat n - unat i = Suc (unat n - unat (i + 1))" and "i + 1 \<le> n"
      using True by (simp_all add: unat_succ_less word_less_nat_alt word_le_nat_alt)
    with True "1.IH" show ?thesis
      by (subst strncpy_pad.simps) (simp add: add.assoc fun_upd_def)
  next
    case False
    with "1.prems" show ?thesis by (subst strncpy_pad.simps) simp
  qed
qed

lemma fill_store_bytes: "fill m a b n = store_bytes m a (replicate n b)"
  by (induction n arbitrary: m a) simp_all

lemma strncpy_store_bytes:
  assumes "disj_ranges dest (unat n) src (unat n)"
  shows "strncpy m dest src n = store_bytes m dest (strncpy_bytes m src (unat n))"
proof -
  let ?k = "length (cprefix m src (unat n))"
  have k: "?k \<le> unat n" by (rule cprefix_length)
  then have kw: "unat (of_nat ?k :: u32) = ?k"
    by (intro unat_of_nat32) (simp add: le_less_trans)
  then have "of_nat ?k \<le> n" using k by (simp add: word_le_nat_alt)
  then show ?thesis
    using strncpy_copy_upto [OF assms refl, of 0] kw
    by (simp add: strncpy_def strncpy_pad_fill fill_store_bytes strncpy_bytes_def Let_def store_bytes_append)
qed

lemma strcpy_loop_upto:
  assumes c: "cstr m src bs"
    and d: "disj_ranges dest (Suc (length bs)) src (Suc (length bs))"
  shows "j \<le> length bs \<Longrightarrow>
    strcpy_loop (store_bytes m dest (load_bytes m src j)) dest src (of_nat j) =
    Some (store_bytes m dest (bs @ [0]))"
proof (induction "length bs - j" arbitrary: j)
  case 0
  then have j: "j = length bs" by simp
  have "store_bytes m dest (load_bytes m src j) (src + of_nat j) = 0"
    using store_bytes_outside [OF d, of j "load_bytes m src j" m] j c cstr_length [OF c]
    by (simp add: cstr_end)
  moreover have "load_bytes m src j = bs" using c j by (simp add: cstr_def)
  ultimately show ?case
    using store_bytes_snoc [of m dest bs 0] j by (subst strcpy_loop.simps) auto
next
  case (Suc d')
  then have j: "j < length bs" by simp
  have rd: "store_bytes m dest (load_bytes m src j) (src + of_nat j) = m (src + of_nat j)"
    using j cstr_length [OF c] by (intro store_bytes_outside [OF d]) auto
  have nz: "m (src + of_nat j) \<noteq> 0"
    using cstr_nth [OF c j] cstr_nonzero [OF c j] by simp
  have "strcpy_loop (store_bytes m dest (load_bytes m src (Suc j))) dest src (of_nat (Suc j)) =
    Some (store_bytes m dest (bs @ [0]))"
    using Suc.hyps(2) j by (intro Suc.hyps(1)) auto
  then show ?case
    using rd nz by (subst strcpy_loop.simps) (simp add: copy_step add.commute)
qed

lemma strcpy_store_bytes:
  "cstr m src bs \<Longrightarrow> disj_ranges dest (Suc (length bs)) src (Suc (length bs)) \<Longrightarrow>
   strcpy m dest src = Some (store_bytes m dest (bs @ [0]))"
  using strcpy_loop_upto [of m src bs dest 0] by (simp add: strcpy_def)


section \<open>strrev\<close>

text \<open>The indices \<open>beg\<close> and \<open>end\<close> are \<open>int32_t\<close>, so the loop compares them as signed.\<close>

partial_function (option) strrev_loop :: "mem \<Rightarrow> u32 \<Rightarrow> u32 \<Rightarrow> u32 \<Rightarrow> mem option" where
  "strrev_loop m s b e =
     (if b <s e
      then (let tmp = m (s + e); m1 = m(s + e := m (s + b)); m2 = m1(s + b := tmp)
            in strrev_loop m2 s (b + 1) (e - 1))
      else Some m)"

definition strrev :: "mem \<Rightarrow> u32 \<Rightarrow> mem option" where
  "strrev m s = (case strlen m s of None \<Rightarrow> None | Some n \<Rightarrow> strrev_loop m s 0 (n - 1))"

text \<open>The list after \<open>i\<close> swaps: the outer \<open>i\<close> bytes at both ends are already reversed.\<close>

definition swapped :: "u8 list \<Rightarrow> nat \<Rightarrow> u8 list" where
  "swapped bs i = map (\<lambda>k. if k < i \<or> length bs - i \<le> k then rev bs ! k else bs ! k) [0..<length bs]"

lemma length_swapped [simp]: "length (swapped bs i) = length bs"
  by (simp add: swapped_def)

lemma swapped_0: "swapped bs 0 = bs"
  by (rule nth_equalityI) (simp_all add: swapped_def)

lemma swapped_done: "length bs \<le> 2 * i + 1 \<Longrightarrow> swapped bs i = rev bs"
proof (rule nth_equalityI)
  fix k assume "length bs \<le> 2 * i + 1" and "k < length (swapped bs i)"
  moreover from this have "k = i \<and> length bs = 2 * i + 1" if "\<not> (k < i \<or> length bs - i \<le> k)"
    using that by auto
  ultimately show "swapped bs i ! k = rev bs ! k"
    by (auto simp: swapped_def rev_nth)
qed simp

lemma swapped_step:
  assumes "2 * i + 1 < length bs"
  shows "(swapped bs i)[length bs - 1 - i := swapped bs i ! i, i := swapped bs i ! (length bs - 1 - i)]
    = swapped bs (Suc i)"
  using assms
  by (intro nth_equalityI) (auto simp: swapped_def nth_list_update rev_nth)

lemma strrev_loop_swapped:
  assumes len: "length bs < 2147483648"
  shows "i \<le> length bs \<Longrightarrow>
    strrev_loop (store_bytes m s (swapped bs i)) s (of_nat i) (of_nat (length bs) - 1 - of_nat i) =
    Some (store_bytes m s (rev bs))"
proof (induction "length bs - i" arbitrary: i rule: less_induct)
  case less
  let ?m = "store_bytes m s (swapped bs i)"
  show ?case
  proof (cases "2 * i + 1 < length bs")
    case True
    define j where "j = length bs - 1 - i"
    have jw: "of_nat (length bs) - 1 - of_nat i = (of_nat j :: u32)"
      using True by (simp add: j_def of_nat_diff)
    have ij: "i < j" "j < length bs" "i < length bs" using True by (auto simp: j_def)
    have lt: "(of_nat i :: u32) <s of_nat j"
      using ij len by (subst sless_of_nat32) auto
    have rd: "?m (s + of_nat k) = swapped bs i ! k" if "k < length bs" for k
      using that len by (simp add: store_bytes_apply in_range_offset unat_of_nat32)
    have "?m(s + of_nat j := ?m (s + of_nat i), s + of_nat i := ?m (s + of_nat j)) =
      store_bytes m s ((swapped bs i)[j := swapped bs i ! i, i := swapped bs i ! j])"
      unfolding rd [OF ij(2)] rd [OF ij(3)] using ij len by (simp add: store_bytes_update)
    also have "\<dots> = store_bytes m s (swapped bs (Suc i))"
      unfolding j_def using swapped_step [OF True] by simp
    finally have upd: "?m(s + of_nat j := ?m (s + of_nat i), s + of_nat i := ?m (s + of_nat j)) =
      store_bytes m s (swapped bs (Suc i))" .
    have IH: "strrev_loop (store_bytes m s (swapped bs (Suc i))) s (of_nat i + 1) (of_nat j - 1)
      = Some (store_bytes m s (rev bs))"
      using less.hyps [of "Suc i"] ij unfolding jw [symmetric] by (simp add: algebra_simps)
    show ?thesis
      unfolding jw using upd IH by (subst strrev_loop.simps) (simp add: lt Let_def)
  next
    case False
    have "\<not> (of_nat i :: u32) <s of_nat (length bs) - 1 - of_nat i"
    proof -
      have "of_nat (length bs) - 1 - of_nat i = (of_int (int (length bs) - 1 - int i) :: u32)"
        by simp
      then have "sint (of_nat (length bs) - 1 - of_nat i :: u32) = int (length bs) - 1 - int i"
        using less.prems len by (simp only: sint_of_int32)
      moreover have "sint (of_nat i :: u32) = int i"
        using less.prems len by (intro sint_of_nat32) simp
      ultimately show ?thesis using False by (simp add: word_sless_alt)
    qed
    then show ?thesis
      using False by (subst strrev_loop.simps) (simp add: swapped_done)
  qed
qed


lemma strrev_cstr:
  assumes c: "cstr m s bs" and len: "length bs < 2147483648"
  shows "strrev m s = Some (store_bytes m s (rev bs))"
proof -
  have "store_bytes m s (swapped bs 0) = m"
    using c len by (simp add: swapped_0 store_bytes_id cstr_def)
  then show ?thesis
    using strrev_loop_swapped [OF len, of 0 m s] strlen_cstr [OF c] by (simp add: strrev_def)
qed

section \<open>itoa\<close>

text \<open>The static table \<open>lookup\<close>, its terminating NUL included.\<close>

definition itoa_lookup :: "u8 list" where
  "itoa_lookup = ascii ''0123456789ABCDEFGHIJKLMNOPQRSTUVWXYZ'' @ [0]"

definition lookup_digit :: "u32 \<Rightarrow> u8 option" where
  "lookup_digit i = (if unat i < length itoa_lookup then Some (itoa_lookup ! unat i) else None)"

text \<open>
  \<open>None\<close> stands for the divide error of \<open>radix = 0\<close>, a read past the end of the table, and the
  endless loop of \<open>radix = 1\<close>.
\<close>

partial_function (option) itoa_loop :: "mem \<Rightarrow> u32 \<Rightarrow> u32 \<Rightarrow> u32 \<Rightarrow> (mem \<times> u32) option" where
  "itoa_loop m newbuf newval radix =
     (if newval > 0
      then if radix = 0 then None
           else (case lookup_digit (newval mod radix) of
                   None \<Rightarrow> None
                 | Some ch \<Rightarrow> itoa_loop (m(newbuf := ch)) (newbuf + 1) (newval div radix) radix)
      else Some (m, newbuf))"

definition itoa :: "mem \<Rightarrow> u32 \<Rightarrow> u32 \<Rightarrow> u32 \<Rightarrow> mem option" where
  "itoa m value buf radix =
     (if value = 0 then Some (m(buf := 0x30, buf + 1 := 0))
      else (case itoa_loop m buf value radix of
              None \<Rightarrow> None
            | Some (m', newbuf) \<Rightarrow> strrev (m'(newbuf := 0)) buf))"

text \<open>The numeral of \<open>v\<close> in base \<open>r\<close>, and what a numeral denotes.\<close>

function digits_rev :: "nat \<Rightarrow> nat \<Rightarrow> nat list" where
  "digits_rev r v = (if v = 0 \<or> r < 2 then [] else v mod r # digits_rev r (v div r))"
  by pat_completeness auto
termination
  by (relation "measure snd") auto

declare digits_rev.simps [simp del]

definition numeral_bytes :: "nat \<Rightarrow> nat \<Rightarrow> u8 list" where
  "numeral_bytes r v = (if v = 0 then [0x30] else map (\<lambda>d. itoa_lookup ! d) (rev (digits_rev r v)))"

definition digit_value :: "u8 \<Rightarrow> nat" where
  "digit_value b = (if b < 0x41 then unat b - 48 else unat b - 55)"

definition parse_numeral :: "nat \<Rightarrow> u8 list \<Rightarrow> nat" where
  "parse_numeral r bs = foldl (\<lambda>a b. a * r + digit_value b) 0 bs"

lemma length_itoa_lookup [simp]: "length itoa_lookup = 37"
  by (simp add: itoa_lookup_def ascii_def)

lemma itoa_lookup_digits:
  "\<forall>d \<in> set [0..<36]. itoa_lookup ! d \<noteq> 0 \<and> digit_value (itoa_lookup ! d) = d"
  by code_simp

lemma digits_rev_less: "d \<in> set (digits_rev r v) \<Longrightarrow> d < r"
proof (induction r v rule: digits_rev.induct)
  case (1 r v)
  then show ?case
    by (subst (asm) (2) digits_rev.simps) (auto split: if_splits)
qed

lemma length_digits_rev: "v < 2 ^ k \<Longrightarrow> length (digits_rev r v) \<le> k"
proof (induction k arbitrary: v)
  case 0
  then show ?case by (simp add: digits_rev.simps)
next
  case (Suc k)
  show ?case
  proof (cases "v = 0 \<or> r < 2")
    case True
    then show ?thesis by (simp add: digits_rev.simps)
  next
    case False
    then have "v div r \<le> v div 2" by (intro div_le_mono2) auto
    also have "\<dots> < 2 ^ k" using Suc.prems by (simp add: less_mult_imp_div_less)
    finally show ?thesis using False Suc.IH by (subst digits_rev.simps) simp
  qed
qed

lemma digits_rev_value:
  "2 \<le> r \<Longrightarrow> foldr (\<lambda>d a. a * r + d) (digits_rev r v) 0 = v"
proof (induction r v rule: digits_rev.induct)
  case (1 r v)
  then show ?case
    by (subst digits_rev.simps) (auto simp: mult.commute)
qed


lemma itoa_loop_digits:
  assumes r: "2 \<le> unat r" "unat r \<le> 36"
  shows "itoa_loop (store_bytes m buf pre) (buf + of_nat (length pre)) v r =
    Some (store_bytes m buf (pre @ map ((!) itoa_lookup) (digits_rev (unat r) (unat v))),
          buf + of_nat (length pre + length (digits_rev (unat r) (unat v))))"
proof (induction "unat v" arbitrary: v pre rule: less_induct)
  case less
  show ?case
  proof (cases "v = 0")
    case True
    then show ?thesis by (simp add: itoa_loop.simps digits_rev.simps)
  next
    case False
    have r0: "r \<noteq> 0" using r by auto
    have dv: "unat (v div r) < unat v"
      using False r by (simp add: unat_div unat_gt_0)
    have dm: "unat v mod unat r < 37"
      using r mod_less_divisor [of "unat r" "unat v"] by linarith
    define ch where "ch = itoa_lookup ! (unat v mod unat r)"
    have lk: "lookup_digit (v mod r) = Some ch"
      using dm by (simp add: lookup_digit_def ch_def unat_mod)
    have "itoa_loop (store_bytes m buf pre) (buf + of_nat (length pre)) v r =
      itoa_loop (store_bytes m buf (pre @ [ch])) (buf + of_nat (length (pre @ [ch]))) (v div r) r"
      using False r0 lk
      by (subst itoa_loop.simps) (simp add: word_greater_zero_iff store_bytes_snoc ac_simps)
    also have "\<dots> = Some (store_bytes m buf ((pre @ [ch]) @ map ((!) itoa_lookup) (digits_rev (unat r) (unat (v div r)))),
      buf + of_nat (length (pre @ [ch]) + length (digits_rev (unat r) (unat (v div r)))))"
      by (rule less.hyps [OF dv])
    finally show ?thesis
      using False r by (simp add: digits_rev.simps [of "unat r" "unat v"] unat_div ch_def unat_eq_0)
  qed
qed

lemma numeral_bytes_digits:
  assumes "2 \<le> r" and "r \<le> 36" and "b \<in> set (numeral_bytes r v)"
  shows "b \<noteq> 0"
proof (cases "v = 0")
  case True
  with assms(3) show ?thesis by (simp add: numeral_bytes_def)
next
  case False
  with assms(3) obtain d where d: "d \<in> set (digits_rev r v)" "b = itoa_lookup ! d"
    by (auto simp: numeral_bytes_def)
  with assms(2) have "d < 36" using digits_rev_less less_le_trans by blast
  with d(2) itoa_lookup_digits show ?thesis by simp
qed

lemma length_numeral_bytes: "v < 4294967296 \<Longrightarrow> length (numeral_bytes r v) \<le> 32"
  using length_digits_rev [of v 32 r] by (simp add: numeral_bytes_def)

text \<open>The string a numeral routine leaves in its buffer, read back as a number.\<close>

lemma foldl_digit_value:
  assumes "\<And>d. d \<in> set ds \<Longrightarrow> d < 36"
  shows "foldl (\<lambda>a b. a * r + digit_value b) c (map ((!) itoa_lookup) ds)
    = foldl (\<lambda>a d. a * r + d) c ds"
  using assms itoa_lookup_digits by (induction ds arbitrary: c) auto

lemma parse_numeral_bytes:
  assumes r: "2 \<le> r" "r \<le> 36"
  shows "parse_numeral r (numeral_bytes r v) = v"
proof (cases "v = 0")
  case True
  then show ?thesis by (simp add: numeral_bytes_def parse_numeral_def digit_value_def)
next
  case False
  have "d < 36" if "d \<in> set (rev (digits_rev r v))" for d
    using that r digits_rev_less [of d r v] by simp
  then have "parse_numeral r (numeral_bytes r v) = foldl (\<lambda>a d. a * r + d) 0 (rev (digits_rev r v))"
    using False foldl_digit_value [of "rev (digits_rev r v)" r 0]
    by (simp add: parse_numeral_def numeral_bytes_def)
  also have "\<dots> = foldr (\<lambda>d a. a * r + d) (digits_rev r v) 0"
    by (simp add: foldl_conv_foldr)
  finally show ?thesis using r by (simp add: digits_rev_value)
qed

lemma itoa_numeral:
  assumes r: "2 \<le> unat r" "unat r \<le> 36"
  shows "itoa m v buf r = Some (store_bytes m buf (numeral_bytes (unat r) (unat v) @ [0]))"
proof (cases "v = 0")
  case True
  then show ?thesis by (simp add: itoa_def numeral_bytes_def)
next
  case False
  define ds where "ds = map ((!) itoa_lookup) (digits_rev (unat r) (unat v))"
  have rev_ds: "rev ds = numeral_bytes (unat r) (unat v)"
    using False by (simp add: ds_def numeral_bytes_def rev_map unat_eq_0)
  have len: "length ds \<le> 32"
    using length_numeral_bytes [of "unat v" "unat r"] by (simp flip: rev_ds)
  have nz: "0 \<notin> set ds"
    using numeral_bytes_digits [OF r] rev_ds by (metis set_rev)
  have loop: "itoa_loop m buf v r = Some (store_bytes m buf ds, buf + of_nat (length ds))"
    using itoa_loop_digits [OF r, of m buf "[]" v] by (simp add: ds_def)
  have "(store_bytes m buf ds)(buf + of_nat (length ds) := 0) = store_bytes m buf (ds @ [0])"
    by (rule store_bytes_snoc)
  moreover have "cstr (store_bytes m buf (ds @ [0])) buf ds"
    using nz len by (intro cstr_store_bytes) auto
  ultimately have "itoa m v buf r = Some (store_bytes (store_bytes m buf (ds @ [0])) buf (rev ds))"
    using False loop len strrev_cstr [of "store_bytes m buf (ds @ [0])" buf ds]
    by (simp add: itoa_def)
  also have "store_bytes (store_bytes m buf (ds @ [0])) buf (rev ds) = store_bytes m buf (rev ds @ [0])"
  proof -
    have "store_bytes (store_bytes m buf (ds @ [0])) buf (rev ds @ [0]) = store_bytes m buf (rev ds @ [0])"
      using len by (intro store_bytes_overwrite) auto
    moreover have "store_bytes (store_bytes m buf (ds @ [0])) buf (rev ds @ [0]) =
      store_bytes (store_bytes m buf (ds @ [0])) buf (rev ds)"
      using len
      by (subst store_bytes_append, subst (2) fun_upd_triv [symmetric, where x = "buf + of_nat (length ds)"])
        (simp add: store_bytes_apply in_range_offset unat_of_nat32 nth_append)
    ultimately show ?thesis by simp
  qed
  finally show ?thesis by (simp add: rev_ds)
qed


section \<open>Properties\<close>

lemma strlen_Some_cstr: "strlen m s = Some n \<Longrightarrow> \<exists>bs. cstr m s bs \<and> n = of_nat (length bs)"
  using strlen_loop_stops cstr_exists strlen_cstr unfolding strlen_def
  by (metis option.inject strlen_def)

text \<open>
  C40. \<open>strlen\<close> returns \<open>n\<close> exactly when the string at \<open>s\<close> has \<open>n\<close> characters, and it fails to
  return exactly when memory holds no NUL byte at all.
\<close>

theorem strlen_spec:
  "(strlen m s = Some n \<longleftrightarrow> (\<exists>bs. cstr m s bs \<and> n = of_nat (length bs)))
   \<and> (strlen m s = None \<longleftrightarrow> (\<nexists>x. m x = 0))"
proof
  show "strlen m s = Some n \<longleftrightarrow> (\<exists>bs. cstr m s bs \<and> n = of_nat (length bs))"
    using strlen_Some_cstr strlen_cstr by blast
  show "strlen m s = None \<longleftrightarrow> (\<nexists>x. m x = 0)"
  proof (cases "strlen m s")
    case None
    have "m x \<noteq> 0" for x
    proof
      assume "m x = 0"
      then obtain bs where "cstr m s bs" using cstr_exists by blast
      with None show False by (simp add: strlen_cstr)
    qed
    with None show ?thesis by simp
  next
    case (Some n)
    then obtain bs where "cstr m s bs" using strlen_Some_cstr by blast
    then have "m (s + of_nat (length bs)) = 0" by (rule cstr_end)
    with Some show ?thesis by auto
  qed
qed

text \<open>
  \<open>strncmp\<close> returns zero exactly when the two strings agree up to their NUL or the first
  \<open>n\<close> characters, and swapping its arguments negates its result.
\<close>

lemma strncmp_spec:
  "(strncmp m s1 s2 n = 0 \<longleftrightarrow> cprefix m s1 (unat n) = cprefix m s2 (unat n))
   \<and> strncmp m s2 s1 n = - strncmp m s1 s2 n"
proof
  show "strncmp m s1 s2 n = 0 \<longleftrightarrow> cprefix m s1 (unat n) = cprefix m s2 (unat n)"
    by (rule strncmp_zero)
  show "strncmp m s2 s1 n = - strncmp m s1 s2 n"
    unfolding strncmp_ncmp by (rule ncmp_swap) simp
qed

text \<open>
  \<open>strncpy\<close> into a disjoint buffer writes exactly \<open>n\<close> bytes: the source string cut at \<open>n\<close>
  characters, padded with NULs (so no terminator when the string has \<open>n\<close> or more characters).
\<close>

lemma strncpy_spec:
  assumes "disj_ranges dest (unat n) src (unat n)"
  shows "strncpy m dest src n = store_bytes m dest (strncpy_bytes m src (unat n))"
  using assms by (rule strncpy_store_bytes)

text \<open>
  C39. \<open>itoa\<close> returns for every value and every radix from 2 to 36, writes the numeral and its NUL
  to the buffer and nothing else, and the numeral denotes the value.
\<close>

theorem itoa_roundtrip:
  assumes "2 \<le> unat r" and "unat r \<le> 36"
  shows "\<exists>bs. itoa m v buf r = Some (store_bytes m buf (bs @ [0]))
    \<and> parse_numeral (unat r) bs = unat v \<and> 0 \<notin> set bs \<and> 0 < length bs \<and> length bs \<le> 32"
proof (intro exI conjI)
  show "itoa m v buf r = Some (store_bytes m buf (numeral_bytes (unat r) (unat v) @ [0]))"
    by (rule itoa_numeral [OF assms])
  show "parse_numeral (unat r) (numeral_bytes (unat r) (unat v)) = unat v"
    by (rule parse_numeral_bytes [OF assms])
  show "0 \<notin> set (numeral_bytes (unat r) (unat v))"
    using numeral_bytes_digits [OF assms] by blast
  show "0 < length (numeral_bytes (unat r) (unat v))"
    using assms by (auto simp: numeral_bytes_def digits_rev.simps)
  show "length (numeral_bytes (unat r) (unat v)) \<le> 32"
    by (intro length_numeral_bytes) simp
qed

theorem itoa_roundtrip_witness:
  "\<exists>bs. itoa (\<lambda>_. 0) 0xBEEF 0x500 16 = Some (store_bytes (\<lambda>_. 0) 0x500 (bs @ [0]))
    \<and> parse_numeral 16 bs = 0xBEEF"
  using itoa_roundtrip [of 16 "\<lambda>_. 0" "0xBEEF" "0x500"] by auto

end
