(* ===== verification/Video.thy ===== *)
theory Video
  imports LibString "HOL-Library.Signed_Division"
begin

text \<open>
  Text output, the first half of \<open>lib.c\<close>: the video memory at \<open>0xB8000\<close>, two bytes for a cell,
  the position of the next character, and \<open>printf\<close>. All coordinates are C \<open>int\<close>s; they stay far
  from overflow and are integers here, \<open>smod\<close> and \<open>sdiv\<close> are C's division. Every format in the
  kernel is a literal, so a format is the list of its characters and reading past its end is
  undefined, \<open>None\<close>. \<open>printf\<close> and \<open>cout\<close> have the same text but for the function that takes a
  character; \<open>fmt_loop\<close> is that text, with the function a parameter.
\<close>

section \<open>The screen\<close>

abbreviation (input) VIDEO :: u32 where "VIDEO \<equiv> 0xB8000"

record screen =
  screen_x :: int
  screen_y :: int
  color_pick :: int

definition colour_palette :: "u8 list" where
  "colour_palette = [0x07, 0xF0, 0xA0, 0x4F, 0xE0]"

text \<open>\<open>colour_palette[color_pick]\<close>; \<open>color_pick\<close> is always reduced modulo 5.\<close>

definition colour :: "screen \<Rightarrow> u8" where
  "colour s = colour_palette ! nat (color_pick s)"

text \<open>\<open>video_mem + (i << 1)\<close>.\<close>

definition cell :: "int \<Rightarrow> u32" where
  "cell i = VIDEO + of_int (2 * i)"

definition put_cell :: "int \<Rightarrow> u8 \<Rightarrow> u8 \<Rightarrow> mem \<Rightarrow> mem" where
  "put_cell i ch attr m = m(cell i := ch, cell i + 1 := attr)"

definition clear :: "mem \<Rightarrow> mem" where
  "clear m = fold (\<lambda>i m. put_cell (int i) 0x20 0x07 m) [0..<(24 + 1) * 80] m"

definition clear_line :: "screen \<Rightarrow> mem \<Rightarrow> screen \<times> mem" where
  "clear_line s m =
     (let (index, s) = (if screen_y s \<noteq> 24 then (80 * screen_y s, s) else (0, s\<lparr>screen_x := 0\<rparr>))
      in (s, fold (\<lambda>k m. put_cell (index + int k) 0x20 0x07 m) [0..<80] m))"

definition clear_blue :: "mem \<Rightarrow> mem" where
  "clear_blue m = fold (\<lambda>i m. put_cell (int i) 0x20 0x17 m) [0..<24 * 80] m"

definition set_palette :: "screen \<Rightarrow> mem \<Rightarrow> mem" where
  "set_palette s m = fold (\<lambda>i m. put_cell (int i) 0x20 (colour s) m) [0..<24 * 80] m"

definition set_colour :: "int \<Rightarrow> int \<Rightarrow> u8 \<Rightarrow> mem \<Rightarrow> mem" where
  "set_colour x y c m = (let offset = y * 80 + x in m(cell offset + 1 := c))"

definition reset_scr :: "screen \<Rightarrow> mem \<Rightarrow> screen \<times> mem" where
  "reset_scr s m = (s\<lparr>screen_x := 0, screen_y := 0\<rparr>, clear m)"

definition putc :: "u8 \<Rightarrow> mem \<times> screen \<Rightarrow> mem \<times> screen" where
  "putc c = (\<lambda>(m, s).
     if c = 0x0A \<or> c = 0x0D then (m, s\<lparr>screen_y := screen_y s + 1, screen_x := 0\<rparr>)
     else (let m = put_cell (80 * screen_y s + screen_x s) c (colour s) m;
               s = s\<lparr>screen_x := screen_x s + 1\<rparr>;
               s = s\<lparr>screen_x := screen_x s smod 80\<rparr>;
               s = s\<lparr>screen_y := (screen_y s + screen_x s sdiv 80) smod 24\<rparr>
           in (m, s)))"

section \<open>Formatted output\<close>

type_synonym 'w sink = "u8 \<Rightarrow> mem \<times> 'w \<Rightarrow> (mem \<times> 'w) option"

text \<open>\<open>puts\<close> and \<open>puts_cout\<close>: the string at \<open>s\<close>, read as it is being put out.\<close>

partial_function (option) puts_loop :: "'w sink \<Rightarrow> u32 \<Rightarrow> u32 \<Rightarrow> mem \<times> 'w \<Rightarrow> (u32 \<times> mem \<times> 'w) option" where
  "puts_loop out s index w =
     (if fst w (s + index) \<noteq> 0
      then (case out (fst w (s + index)) w of
              None \<Rightarrow> None
            | Some w' \<Rightarrow> puts_loop out s (index + 1) w')
      else Some (index, w))"

definition puts :: "u32 \<Rightarrow> mem \<times> screen \<Rightarrow> (u32 \<times> mem \<times> screen) option" where
  "puts s w = puts_loop (\<lambda>c w. Some (putc c w)) s 0 w"

definition puts_sink :: "'w sink \<Rightarrow> u32 \<Rightarrow> mem \<times> 'w \<Rightarrow> (mem \<times> 'w) option" where
  "puts_sink out s w = map_option snd (puts_loop out s 0 w)"

text \<open>The conversions; \<open>conv\<close> is the address of the local \<open>conv_buf\<close>.\<close>

definition put_number :: "'w sink \<Rightarrow> u32 \<Rightarrow> u32 \<Rightarrow> u32 \<Rightarrow> mem \<times> 'w \<Rightarrow> (mem \<times> 'w) option" where
  "put_number out conv value radix w =
     (case itoa (fst w) value conv radix of
        None \<Rightarrow> None
      | Some m \<Rightarrow> puts_sink out conv (m, snd w))"

function zero_fill :: "u32 \<Rightarrow> u32 \<Rightarrow> mem \<Rightarrow> mem" where
  "zero_fill conv i m = (if i <s 8 then zero_fill conv (i + 1) (m(conv + i := 0x30)) else m)"
  by pat_completeness auto
termination
  by (relation "measure (\<lambda>(conv, i, m). nat (8 - sint i))") (use sint_Suc_sless [of _ 8] in auto)

declare zero_fill.simps [simp del]

definition put_hex8 :: "'w sink \<Rightarrow> u32 \<Rightarrow> u32 \<Rightarrow> mem \<times> 'w \<Rightarrow> (mem \<times> 'w) option" where
  "put_hex8 out conv value w =
     (case itoa (fst w) value (conv + 8) 16 of
        None \<Rightarrow> None
      | Some m \<Rightarrow>
          (case strlen m (conv + 8) of
             None \<Rightarrow> None
           | Some starting_index \<Rightarrow>
               puts_sink out (conv + starting_index) (zero_fill conv starting_index m, snd w)))"

definition put_signed :: "'w sink \<Rightarrow> u32 \<Rightarrow> u32 \<Rightarrow> mem \<times> 'w \<Rightarrow> (mem \<times> 'w) option" where
  "put_signed out conv value w =
     (case (if value <s 0 then itoa ((fst w)(conv := 0x2D)) (- value) (conv + 1) 10
            else itoa (fst w) value conv 10) of
        None \<Rightarrow> None
      | Some m \<Rightarrow> puts_sink out conv (m, snd w))"

datatype fmt_mode = Plain | Conversion bool

fun fmt_loop ::
  "'w sink \<Rightarrow> u32 \<Rightarrow> fmt_mode \<Rightarrow> u8 list \<Rightarrow> u32 list \<Rightarrow> mem \<times> 'w \<Rightarrow> (mem \<times> 'w) option" where
  "fmt_loop out conv Plain [] esp w = Some w"
| "fmt_loop out conv (Conversion alternate) [] esp w = None"
| "fmt_loop out conv Plain (c # buf) esp w =
     (if c = 0x25 then fmt_loop out conv (Conversion False) buf esp w
      else Option.bind (out c w) (fmt_loop out conv Plain buf esp))"
| "fmt_loop out conv (Conversion alternate) (c # buf) esp w =
     (if c = 0x25 then Option.bind (out 0x25 w) (fmt_loop out conv Plain buf esp)
      else if c = 0x23 then fmt_loop out conv (Conversion True) buf esp w
      else if c = 0x78
      then (case esp of
              [] \<Rightarrow> None
            | a # esp \<Rightarrow>
                Option.bind (if alternate then put_hex8 out conv a w else put_number out conv a 16 w)
                  (fmt_loop out conv Plain buf esp))
      else if c = 0x75
      then (case esp of
              [] \<Rightarrow> None
            | a # esp \<Rightarrow> Option.bind (put_number out conv a 10 w) (fmt_loop out conv Plain buf esp))
      else if c = 0x64
      then (case esp of
              [] \<Rightarrow> None
            | a # esp \<Rightarrow> Option.bind (put_signed out conv a w) (fmt_loop out conv Plain buf esp))
      else if c = 0x63
      then (case esp of
              [] \<Rightarrow> None
            | a # esp \<Rightarrow> Option.bind (out (ucast a) w) (fmt_loop out conv Plain buf esp))
      else if c = 0x73
      then (case esp of
              [] \<Rightarrow> None
            | a # esp \<Rightarrow> Option.bind (puts_sink out a w) (fmt_loop out conv Plain buf esp))
      else fmt_loop out conv Plain buf esp w)"

definition printf :: "u32 \<Rightarrow> u8 list \<Rightarrow> u32 list \<Rightarrow> mem \<times> screen \<Rightarrow> (u32 \<times> mem \<times> screen) option" where
  "printf conv format esp w =
     map_option (\<lambda>w'. (of_nat (length format), w')) (fmt_loop (\<lambda>c w. Some (putc c w)) conv Plain format esp w)"

text \<open>\<open>printf("%c", input)\<close> with the position set first; a newline is not printed.\<close>

definition print_helper :: "u32 \<Rightarrow> u8 \<Rightarrow> int \<Rightarrow> int \<Rightarrow> mem \<times> screen \<Rightarrow> (mem \<times> screen) option" where
  "print_helper conv input x y = (\<lambda>(m, s).
     let s = s\<lparr>screen_x := x\<rparr>;
         s = s\<lparr>screen_y := y\<rparr>
     in if input \<noteq> 0x0A then map_option snd (printf conv (ascii ''%c'') [scast input] (m, s)) else Some (m, s))"

definition test_interrupts :: "mem \<Rightarrow> mem" where
  "test_interrupts m = fold (\<lambda>i m. m(cell (int i) := m (cell (int i)) + 1)) [0..<24 * 80] m"

section \<open>What is printed\<close>

text \<open>A sink that only collects the characters.\<close>

definition collect :: "u8 list sink" where
  "collect c w = Some (fst w, snd w @ [c])"

lemma puts_loop_collect:
  assumes "cstr m s bs"
  shows "i \<le> length bs \<Longrightarrow>
    puts_loop collect s (of_nat i) (m, log) = Some (of_nat (length bs), m, log @ drop i bs)"
proof (induction "length bs - i" arbitrary: i log)
  case 0
  then show ?case using cstr_end [OF assms] by (subst puts_loop.simps) simp
next
  case (Suc n)
  then have i: "i < length bs" by simp
  have "puts_loop collect s (of_nat (Suc i)) (m, log @ [bs ! i]) =
    Some (of_nat (length bs), m, (log @ [bs ! i]) @ drop (Suc i) bs)"
    using Suc i by (intro Suc.hyps(1)) simp_all
  then show ?case
    using cstr_nth [OF assms i] cstr_nonzero [OF assms i] Cons_nth_drop_Suc [OF i, symmetric]
    by (subst puts_loop.simps) (simp add: collect_def add.commute)
qed

lemma puts_sink_collect: "cstr m s bs \<Longrightarrow> puts_sink collect s (m, log) = Some (m, log @ bs)"
  using puts_loop_collect [of m s bs 0 log] by (simp add: puts_sink_def)

lemma numeral_bytes_cstr:
  "2 \<le> r \<Longrightarrow> r \<le> 36 \<Longrightarrow> v < 4294967296 \<Longrightarrow>
   cstr (store_bytes m s (numeral_bytes r v @ [0])) s (numeral_bytes r v)"
  using numeral_bytes_digits [of r] length_numeral_bytes [of v r]
  by (intro cstr_store_bytes) fastforce+

lemma put_number_collect:
  "2 \<le> unat r \<Longrightarrow> unat r \<le> 36 \<Longrightarrow> put_number collect conv v r (m, log) =
   Some (store_bytes m conv (numeral_bytes (unat r) (unat v) @ [0]), log @ numeral_bytes (unat r) (unat v))"
  using numeral_bytes_cstr [of "unat r" "unat v" m conv]
  by (simp add: put_number_def itoa_numeral puts_sink_collect)

lemma put_signed_collect:
  "\<exists>m'. put_signed collect conv v (m, log) =
   Some (m', log @ (if v <s 0 then 0x2D # numeral_bytes 10 (unat (- v)) else numeral_bytes 10 (unat v)))"
proof (cases "v <s 0")
  case False
  then show ?thesis
    using itoa_numeral [of 10 m v conv] numeral_bytes_cstr [of 10 "unat v" m conv]
    by (simp add: put_signed_def puts_sink_collect)
next
  case True
  define d where "d = numeral_bytes 10 (unat (- v))"
  have d: "length d \<le> 32" "0 \<notin> set d"
    using length_numeral_bytes [of "unat (- v)" 10] numeral_bytes_digits [of 10] by (auto simp: d_def)
  have "store_bytes (m(conv := 0x2D)) (conv + 1) (d @ [0]) = store_bytes m conv ((0x2D # d) @ [0])" by simp
  moreover have "cstr (store_bytes m conv ((0x2D # d) @ [0])) conv (0x2D # d)"
    using d by (intro cstr_store_bytes) auto
  ultimately show ?thesis
    using True itoa_numeral [of 10 "m(conv := 0x2D)" "- v" "conv + 1"]
    by (simp add: put_signed_def puts_sink_collect d_def [symmetric])
qed

lemma zero_fill_store:
  "i \<le> 8 \<Longrightarrow> zero_fill conv (of_nat i) m = store_bytes m (conv + of_nat i) (replicate (8 - i) 0x30)"
proof (induction "8 - i" arbitrary: i m)
  case 0
  then show ?case by (subst zero_fill.simps) simp
next
  case (Suc n)
  then have lt: "(of_nat i :: u32) <s 8" using sless_of_nat32 [of i 8] by simp
  have "zero_fill conv (of_nat (Suc i)) (m(conv + of_nat i := 0x30)) =
    store_bytes (m(conv + of_nat i := 0x30)) (conv + of_nat (Suc i)) (replicate (8 - Suc i) 0x30)"
    using Suc by (intro Suc.hyps(1)) simp_all
  moreover have "8 - i = Suc (8 - Suc i)" using Suc by simp
  ultimately show ?case using lt by (subst zero_fill.simps) (simp add: ac_simps)
qed

lemma length_hex_numeral: "v < 4294967296 \<Longrightarrow> length (numeral_bytes 16 v) \<le> 8"
proof -
  have "v < 16 ^ k \<Longrightarrow> length (digits_rev 16 v) \<le> k" for k
  proof (induction k arbitrary: v)
    case 0
    then show ?case by (simp add: digits_rev.simps)
  next
    case (Suc k)
    then have "v div 16 < 16 ^ k" by (simp add: less_mult_imp_div_less)
    then show ?case using Suc.IH by (subst digits_rev.simps) simp
  qed
  from this [of 8] show "v < 4294967296 \<Longrightarrow> length (numeral_bytes 16 v) \<le> 8"
    by (simp add: numeral_bytes_def)
qed

lemma put_hex8_collect:
  "\<exists>m'. put_hex8 collect conv v (m, log) =
   Some (m', log @ replicate (8 - length (numeral_bytes 16 (unat v))) 0x30 @ numeral_bytes 16 (unat v))"
proof -
  define d where "d = numeral_bytes 16 (unat v)"
  have d: "length d \<le> 8" "0 \<notin> set d"
    using length_hex_numeral [of "unat v"] numeral_bytes_digits [of 16] by (auto simp: d_def)
  define m1 where "m1 = store_bytes m (conv + 8) (d @ [0])"
  have it: "itoa m v (conv + 8) 16 = Some m1" using itoa_numeral [of 16] by (simp add: m1_def d_def)
  have len: "strlen m1 (conv + 8) = Some (of_nat (length d))"
    unfolding m1_def using d by (intro strlen_cstr cstr_store_bytes) auto
  define z where "z = replicate (8 - length d) (0x30 :: u8)"
  define m2 where "m2 = zero_fill conv (of_nat (length d)) m1"
  have m2: "m2 = store_bytes m1 (conv + of_nat (length d)) z"
    using d by (simp add: m2_def z_def zero_fill_store)
  have "m2 = store_bytes m1 (conv + of_nat (length d)) (z @ d @ [0])"
  proof -
    have "conv + of_nat (length d) + of_nat (length z) = conv + 8"
      using d by (simp add: z_def of_nat_diff)
    then have "store_bytes m1 (conv + of_nat (length d)) (z @ d @ [0]) = store_bytes m2 (conv + 8) (d @ [0])"
      by (simp only: store_bytes_append m2)
    also have "\<dots> = m2"
    proof (rule store_bytes_id)
      have "m2 (conv + 8 + of_nat i) = (d @ [0]) ! i" if "i < length (d @ [0])" for i
      proof -
        have e: "conv + 8 + of_nat i = (conv + of_nat (length d)) + of_nat (length z + i)"
          using d by (simp add: z_def of_nat_diff)
        have "length z + i < 4294967296" using that d by (simp add: z_def)
        then have "\<not> in_range (conv + of_nat (length d)) (length z) (conv + 8 + of_nat i)"
          unfolding e by (subst in_range_offset) simp_all
        then have "m2 (conv + 8 + of_nat i) = m1 (conv + 8 + of_nat i)"
          unfolding m2 by (subst store_bytes_apply) (simp_all add: z_def)
        also have "\<dots> = (d @ [0]) ! i"
          using that d unfolding m1_def by (simp add: store_bytes_apply in_range_offset unat_of_nat32)
        finally show ?thesis .
      qed
      then show "load_bytes m2 (conv + 8) (length (d @ [0])) = d @ [0]"
        by (intro nth_equalityI) simp_all
    qed (use d in simp)
    finally show ?thesis by simp
  qed
  then have "cstr m2 (conv + of_nat (length d)) (z @ d)"
    using d cstr_store_bytes [of "z @ d" m1 "conv + of_nat (length d)"] by (auto simp: z_def)
  then have "puts_sink collect (conv + of_nat (length d)) (m2, log) = Some (m2, log @ z @ d)"
    by (simp add: puts_sink_collect)
  then show ?thesis by (simp add: put_hex8_def it len m2_def z_def d_def [symmetric])
qed

lemma parse_numeral_zeros:
  "parse_numeral r (replicate n 0x30 @ bs) = parse_numeral r bs"
proof -
  have "foldl (\<lambda>a b. a * r + digit_value b) 0 (replicate n 0x30) = 0"
    by (induction n) (simp_all add: digit_value_def)
  then show ?thesis by (simp add: parse_numeral_def)
qed

section \<open>Cells\<close>

lemma cell_offset: "0 \<le> i \<Longrightarrow> cell i = VIDEO + of_nat (2 * nat i)"
  by (simp add: cell_def)

lemma cell_eq_iff:
  assumes "0 \<le> i" "i < 2000" "0 \<le> j" "j < 2000"
  shows "cell i = cell j \<longleftrightarrow> i = j" and "cell i + 1 = cell j + 1 \<longleftrightarrow> i = j" and "cell i \<noteq> cell j + 1"
proof -
  have n: "nat i < 2000" "nat j < 2000" using assms by auto
  show "cell i = cell j \<longleftrightarrow> i = j"
    using assms n of_nat_eq32 [of "2 * nat i" "2 * nat j"] by (simp add: cell_offset) linarith
  then show "cell i + 1 = cell j + 1 \<longleftrightarrow> i = j" by simp
  have "2 * a \<noteq> 2 * b + 1" for a b :: nat by presburger
  then have "(of_nat (2 * nat i) :: u32) \<noteq> of_nat (2 * nat j + 1)"
    using n of_nat_eq32 [of "2 * nat i" "2 * nat j + 1"] by (simp only:) simp
  then show "cell i \<noteq> cell j + 1" using assms by (simp add: cell_offset)
qed

lemma put_cell_same [simp]: "put_cell i ch attr m (cell i) = ch" "put_cell i ch attr m (cell i + 1) = attr"
  by (simp_all add: put_cell_def)

lemma put_cell_other:
  assumes "0 \<le> i" "i < 2000" "0 \<le> j" "j < 2000" "i \<noteq> j"
  shows "put_cell i ch attr m (cell j) = m (cell j)" and "put_cell i ch attr m (cell j + 1) = m (cell j + 1)"
  using cell_eq_iff [OF assms(1-4)] cell_eq_iff [OF assms(3,4,1,2)] assms(5)
  by (auto simp: put_cell_def)

lemma smod_small: "0 \<le> a \<Longrightarrow> 0 < b \<Longrightarrow> (a :: int) smod b = a mod b"
  by (cases "a = 0") (simp_all add: signed_modulo_int_def)

lemma sdiv_small: "0 \<le> a \<Longrightarrow> 0 < b \<Longrightarrow> (a :: int) sdiv b = a div b"
  by (cases "a = 0") (simp_all add: signed_divide_int_def)

lemma putc_char:
  assumes "c \<noteq> 0x0A" and "c \<noteq> 0x0D" and "0 \<le> screen_x s" "screen_x s < 80" "0 \<le> screen_y s" "screen_y s < 24"
  shows "putc c (m, s) = (put_cell (80 * screen_y s + screen_x s) c (colour s) m,
    s\<lparr>screen_x := (screen_x s + 1) mod 80\<rparr>)"
proof -
  have "(screen_x s + 1) mod 80 div 80 = 0" using assms by (simp add: div_eq_0_iff)
  moreover have "screen_y s mod 24 = screen_y s" using assms by simp
  ultimately show ?thesis
    using assms by (simp add: putc_def smod_small sdiv_small Let_def)
qed

section \<open>Properties\<close>

text \<open>
  \<open>putc\<close> of a printable character at a position on the screen writes the character and the
  current colour to its cell, changes no other cell and no other memory, and moves one column on.
  At the end of a row it goes back to the start of the same row: the row is computed from the
  column after the column was reduced, so it never advances.
\<close>

lemma putc_spec:
  assumes "c \<noteq> 0x0A" and "c \<noteq> 0x0D" and "0 \<le> screen_x s" "screen_x s < 80" "0 \<le> screen_y s" "screen_y s < 24"
  shows "putc c (m, s) =
    (m(cell (80 * screen_y s + screen_x s) := c, cell (80 * screen_y s + screen_x s) + 1 := colour s),
     s\<lparr>screen_x := (if screen_x s = 79 then 0 else screen_x s + 1)\<rparr>)"
proof -
  have "(screen_x s + 1) mod 80 = (if screen_x s = 79 then 0 else screen_x s + 1)" using assms by auto
  then show ?thesis using putc_char [OF assms] by (simp add: put_cell_def)
qed

text \<open>
  The number conversions of \<open>printf\<close>, whatever follows them in the format: \<open>%u\<close> and \<open>%d\<close>
  put out the decimal numeral of the argument, \<open>%d\<close> with a minus sign for a negative one, and
  \<open>%#x\<close> exactly eight hexadecimal digits that denote the argument.
\<close>

lemma printf_numbers:
  "(\<exists>m'. fmt_loop collect conv Plain (ascii ''%u'' @ rest) (v # args) (m, log) =
      fmt_loop collect conv Plain rest args (m', log @ numeral_bytes 10 (unat v)))
   \<and> (\<exists>m'. fmt_loop collect conv Plain (ascii ''%d'' @ rest) (v # args) (m, log) =
      fmt_loop collect conv Plain rest args
        (m', log @ (if v <s 0 then 0x2D # numeral_bytes 10 (unat (- v)) else numeral_bytes 10 (unat v))))
   \<and> (\<exists>m' ds. fmt_loop collect conv Plain (ascii ''%#x'' @ rest) (v # args) (m, log) =
      fmt_loop collect conv Plain rest args (m', log @ ds) \<and> length ds = 8 \<and> parse_numeral 16 ds = unat v)"
proof (intro conjI)
  show "\<exists>m'. fmt_loop collect conv Plain (ascii ''%u'' @ rest) (v # args) (m, log) =
      fmt_loop collect conv Plain rest args (m', log @ numeral_bytes 10 (unat v))"
    by (simp add: ascii_def put_number_collect) blast
  obtain m1 where "put_signed collect conv v (m, log) = Some (m1, log @ (if v <s 0
      then 0x2D # numeral_bytes 10 (unat (- v)) else numeral_bytes 10 (unat v)))"
    using put_signed_collect by blast
  then show "\<exists>m'. fmt_loop collect conv Plain (ascii ''%d'' @ rest) (v # args) (m, log) =
      fmt_loop collect conv Plain rest args
        (m', log @ (if v <s 0 then 0x2D # numeral_bytes 10 (unat (- v)) else numeral_bytes 10 (unat v)))"
    by (simp add: ascii_def) blast
  define d where "d = numeral_bytes 16 (unat v)"
  define z where "z = replicate (8 - length d) (0x30 :: u8)"
  obtain m2 where "put_hex8 collect conv v (m, log) = Some (m2, log @ z @ d)"
    using put_hex8_collect [of conv v m log] by (auto simp: d_def z_def)
  moreover have "length (z @ d) = 8" using length_hex_numeral [of "unat v"] by (simp add: d_def z_def)
  moreover have "parse_numeral 16 (z @ d) = unat v"
    by (simp add: z_def parse_numeral_zeros d_def parse_numeral_bytes)
  ultimately show "\<exists>m' ds. fmt_loop collect conv Plain (ascii ''%#x'' @ rest) (v # args) (m, log) =
      fmt_loop collect conv Plain rest args (m', log @ ds) \<and> length ds = 8 \<and> parse_numeral 16 ds = unat v"
    by (intro exI [of _ m2] exI [of _ "z @ d"]) (simp add: ascii_def)
qed

end
