(* ===== verification/Buffer.thy ===== *)
theory Buffer
  imports Video
begin

text \<open>
  The screen buffers, \<open>buffer.c\<close>: an array of \<open>node\<close>s for each terminal and the position of the
  next character. A \<open>node*\<close> is the number of one of the static arrays; an access outside of an
  array is undefined, \<open>None\<close>. The invariant \<open>buffer_ok\<close> says that the position is on the screen and
  the nodes carry their coordinates; under it every operation is within bounds and keeps it, and
  \<open>printb\<close> makes video memory show the buffer.
\<close>

section \<open>State and operations\<close>

record node =
  x_coord :: int
  y_coord :: int
  mo :: u8
  printed :: int

record buffers =
  buf_x :: int
  buf_y :: int
  backspace_flag :: int
  bufs :: "nat \<Rightarrow> node list"

definition node_at :: "nat \<Rightarrow> int \<Rightarrow> buffers \<Rightarrow> node option" where
  "node_at b i s = (if 0 \<le> i \<and> i < int (length (bufs s b)) then Some (bufs s b ! nat i) else None)"

definition update_node :: "nat \<Rightarrow> int \<Rightarrow> (node \<Rightarrow> node) \<Rightarrow> buffers \<Rightarrow> buffers option" where
  "update_node b i f s =
     (if 0 \<le> i \<and> i < int (length (bufs s b))
      then Some (s\<lparr>bufs := (bufs s)(b := (bufs s b)[nat i := f (bufs s b ! nat i)])\<rparr>) else None)"

text \<open>The loop of \<open>reset_buf\<close> keeps the local \<open>x\<close> and \<open>y\<close> beside the state.\<close>

definition reset_buf :: "nat \<Rightarrow> buffers \<Rightarrow> buffers option" where
  "reset_buf b s =
     map_option (\<lambda>(x, y, s). s\<lparr>buf_x := 0, buf_y := 0\<rparr>)
       (for_loop 0 ((24 + 1) * 80)
          (\<lambda>i (x, y, s). map_option (\<lambda>s. if x \<noteq> 80 - 1 then (x + 1, y, s) else (0, y + 1, s))
             (update_node b (int i) (\<lambda>n. n\<lparr>x_coord := x, y_coord := y, mo := 0x20, printed := 0\<rparr>) s))
          (0 :: int, 0 :: int, s))"

definition scroll_buf :: "nat \<Rightarrow> buffers \<Rightarrow> buffers option" where
  "scroll_buf b s =
     Option.bind
       (for_loop 80 (80 * 24 - 80)
          (\<lambda>i s. case node_at b (int i) s of
                   None \<Rightarrow> None
                 | Some n \<Rightarrow> update_node b (int i - 80) (mo_update (\<lambda>_. if mo n \<noteq> 0x0A then mo n else 0x20)) s)
          s)
       (for_loop (80 * (24 - 1)) 80
          (\<lambda>i s. map_option (\<lambda>s. s\<lparr>buf_x := 0, buf_y := 24 - 1\<rparr>)
             (update_node b (int i) (mo_update (\<lambda>_. 0x20)) s)))"

definition setb :: "nat \<Rightarrow> u8 \<Rightarrow> buffers \<Rightarrow> buffers option" where
  "setb b input s =
     (let index = 80 * buf_y s + buf_x s
      in map_option
           (\<lambda>s. let s = (if buf_x s = 80 - 1 then s\<lparr>buf_x := 0\<rparr> else s\<lparr>buf_x := buf_x s + 1\<rparr>)
                in s\<lparr>backspace_flag := 1\<rparr>)
           (update_node b index (\<lambda>n. n\<lparr>mo := input, printed := 0\<rparr>) s))"

definition printb :: "u32 \<Rightarrow> nat \<Rightarrow> buffers \<Rightarrow> mem \<times> screen \<Rightarrow> (mem \<times> screen) option" where
  "printb conv b s w =
     for_loop 0 (24 * 80)
       (\<lambda>i w. case node_at b (int i) s of
                None \<Rightarrow> None
              | Some n \<Rightarrow> print_helper conv (mo n) (x_coord n) (y_coord n) w) w"

definition new_line :: "nat \<Rightarrow> buffers \<Rightarrow> buffers option" where
  "new_line b s =
     Option.bind
       (if buf_x s \<noteq> 80
        then (let index = 80 * buf_y s + buf_x s in update_node b (index + 1) (mo_update (\<lambda>_. 0x0A)) s)
        else Some s)
       (\<lambda>s. let s = s\<lparr>buf_x := 0\<rparr>
            in if buf_y s \<noteq> 24 - 1 then Some (s\<lparr>buf_y := buf_y s + 1\<rparr>) else scroll_buf b s)"

definition clear_buf_line :: "nat \<Rightarrow> buffers \<Rightarrow> buffers option" where
  "clear_buf_line b s =
     (let index = 80 * buf_y s
      in for_loop 0 80 (\<lambda>k. update_node b (index + int k) (mo_update (\<lambda>_. 0x20))) s)"

definition backspace :: "nat \<Rightarrow> int \<Rightarrow> buffers \<Rightarrow> buffers option" where
  "backspace b line_count s =
     (let index = 80 * buf_y s + buf_x s
      in if line_count > 0
         then (case node_at b (index - 1) s of
                 None \<Rightarrow> None
               | Some n \<Rightarrow>
                   if printed n = 0
                   then map_option
                     (\<lambda>s. let s = s\<lparr>buf_x := buf_x s - 1\<rparr>
                          in if buf_x s = - 1
                             then (let s = s\<lparr>buf_y := buf_y s - 1\<rparr>;
                                       s = s\<lparr>buf_x := 80 - 1\<rparr>
                                   in if buf_y s \<le> 0 \<and> buf_x s \<le> 0
                                      then s\<lparr>buf_y := 0, buf_x := 0, backspace_flag := 0\<rparr> else s)
                             else s)
                     (update_node b (index - 1) (mo_update (\<lambda>_. 0x20)) s)
                   else Some s)
         else Some s)"

definition pass_y :: "buffers \<Rightarrow> int" where
  "pass_y s = buf_y s"

lemma low_byte_scast: "(ucast (scast (c :: u8) :: u32) :: u8) = c"
  by (rule bit_word_eqI) (auto simp: bit_simps)

section \<open>The invariant\<close>

definition node_ok :: "nat \<Rightarrow> node \<Rightarrow> bool" where
  "node_ok i n \<longleftrightarrow> x_coord n = int (i mod 80) \<and> y_coord n = int (i div 80)"

definition nodes_ok :: "node list \<Rightarrow> bool" where
  "nodes_ok ns \<longleftrightarrow> length ns = 2000 \<and> (\<forall>i < 2000. node_ok i (ns ! i))"

definition buffer_ok :: "nat \<Rightarrow> buffers \<Rightarrow> bool" where
  "buffer_ok b s \<longleftrightarrow> nodes_ok (bufs s b) \<and> 0 \<le> buf_x s \<and> buf_x s < 80 \<and> 0 \<le> buf_y s \<and> buf_y s < 24"

text \<open>The characters of a buffer; the lemmas describe an operation by what it does to them.\<close>

definition chars :: "nat \<Rightarrow> buffers \<Rightarrow> u8 list" where
  "chars b s = map mo (bufs s b)"

lemma length_chars: "nodes_ok (bufs s b) \<Longrightarrow> length (chars b s) = 2000"
  by (simp add: chars_def nodes_ok_def)

text \<open>Writing a character keeps everything but that character.\<close>

lemma update_node_mo:
  assumes "nodes_ok (bufs s b)" and "0 \<le> i" "i < 2000" and "\<And>n. x_coord (f n) = x_coord n"
    "\<And>n. y_coord (f n) = y_coord n" "\<And>n. mo (f n) = c"
  shows "\<exists>s'. update_node b i f s = Some s' \<and> nodes_ok (bufs s' b) \<and> chars b s' = (chars b s)[nat i := c]
    \<and> buf_x s' = buf_x s \<and> buf_y s' = buf_y s"
proof -
  have "nat i < 2000" using assms by simp
  then show ?thesis
    using assms by (auto simp: update_node_def nodes_ok_def node_ok_def chars_def map_update nth_list_update)
qed

lemmas update_node_char = update_node_mo [where f = "mo_update (\<lambda>_. c)" and c = c for c, simplified]

lemma node_at_ok: "nodes_ok (bufs s b) \<Longrightarrow> 0 \<le> i \<Longrightarrow> i < 2000 \<Longrightarrow>
    \<exists>n. node_at b i s = Some n \<and> mo n = chars b s ! nat i \<and> node_ok (nat i) n"
  by (auto simp: node_at_def nodes_ok_def chars_def)

section \<open>Operations\<close>

lemma index_bounds:
  assumes "buffer_ok b s"
  shows "0 \<le> 80 * buf_y s + buf_x s" and "80 * buf_y s + buf_x s < 1920"
  using assms by (auto simp: buffer_ok_def)

lemma setb_chars:
  assumes "buffer_ok b s"
  shows "\<exists>s'. setb b c s = Some s' \<and> buffer_ok b s' \<and> chars b s' = (chars b s)[nat (80 * buf_y s + buf_x s) := c]
    \<and> buf_x s' = (if buf_x s = 79 then 0 else buf_x s + 1) \<and> buf_y s' = buf_y s"
proof -
  obtain s1 where s1: "update_node b (80 * buf_y s + buf_x s) (\<lambda>n. n\<lparr>mo := c, printed := 0\<rparr>) s = Some s1"
    "nodes_ok (bufs s1 b)" "chars b s1 = (chars b s)[nat (80 * buf_y s + buf_x s) := c]"
    "buf_x s1 = buf_x s" "buf_y s1 = buf_y s"
    using update_node_mo [of s b "80 * buf_y s + buf_x s" "\<lambda>n. n\<lparr>mo := c, printed := 0\<rparr>" c]
      index_bounds [OF assms] assms unfolding buffer_ok_def by auto
  then show ?thesis using assms by (auto simp: setb_def Let_def buffer_ok_def chars_def)
qed

text \<open>The buffer after the copying loop has reached position \<open>i\<close>.\<close>

definition blank :: "u8 \<Rightarrow> u8" where
  "blank c = (if c \<noteq> 0x0A then c else 0x20)"

definition scrolled_to :: "u8 list \<Rightarrow> nat \<Rightarrow> u8 list" where
  "scrolled_to cs i = map (\<lambda>k. if k + 80 < i then blank (cs ! (k + 80)) else cs ! k) [0..<length cs]"

lemma scrolled_to_step:
  assumes "80 \<le> i" and "i < length cs"
  shows "(scrolled_to cs i)[i - 80 := blank (scrolled_to cs i ! i)] = scrolled_to cs (Suc i)"
  using assms by (intro nth_equalityI) (auto simp: scrolled_to_def nth_list_update)

lemma scrolled_to_start: "scrolled_to cs 80 = cs"
  by (rule nth_equalityI) (simp_all add: scrolled_to_def)

definition scrolled :: "u8 list \<Rightarrow> u8 list" where
  "scrolled cs = map blank (take 1840 (drop 80 cs)) @ replicate 80 0x20 @ drop 1920 cs"

lemma scrolled_to_end:
  assumes "length cs = 2000"
  shows "map (\<lambda>k. if 1840 \<le> k \<and> k < 1920 then 0x20 else scrolled_to cs 1920 ! k) [0..<2000] = scrolled cs"
proof (rule nth_equalityI)
  fix k assume "k < length (map (\<lambda>k. if 1840 \<le> k \<and> k < 1920 then 0x20 else scrolled_to cs 1920 ! k) [0..<2000])"
  then have k: "k < 2000" by simp
  consider "k < 1840" | "1840 \<le> k" "k < 1920" | "1920 \<le> k" by linarith
  then show "map (\<lambda>k. if 1840 \<le> k \<and> k < 1920 then 0x20 else scrolled_to cs 1920 ! k) [0..<2000] ! k = scrolled cs ! k"
    using k assms by cases (auto simp: scrolled_def scrolled_to_def nth_append ac_simps)
qed (use assms in \<open>simp add: scrolled_def\<close>)

lemma scroll_buf_chars:
  assumes "buffer_ok b s"
  shows "\<exists>s'. scroll_buf b s = Some s' \<and> buffer_ok b s' \<and> chars b s' = scrolled (chars b s)
    \<and> buf_x s' = 0 \<and> buf_y s' = 23"
proof -
  define cs where "cs = chars b s"
  have ok: "nodes_ok (bufs s b)" using assms by (simp add: buffer_ok_def)
  have len: "length cs = 2000" using length_chars [OF ok] by (simp add: cs_def)
  define f where "f = (\<lambda>i s. case node_at b (int i) s of
      None \<Rightarrow> None
    | Some n \<Rightarrow> update_node b (int i - 80) (mo_update (\<lambda>_. if mo n \<noteq> 0x0A then mo n else 0x20)) s)"
  define g where "g = (\<lambda>i s. map_option (\<lambda>s. s\<lparr>buf_x := 0, buf_y := 24 - 1\<rparr>)
    (update_node b (int i) (mo_update (\<lambda>_. 0x20)) s))"
  let ?I = "\<lambda>i s'. nodes_ok (bufs s' b) \<and> chars b s' = scrolled_to cs i"
  have "\<exists>s'. for_loop 80 1840 f s = Some s' \<and> ?I (80 + 1840) s'"
  proof (rule for_loop_invariant [where I = ?I])
    show "?I 80 s" using ok by (simp add: scrolled_to_start cs_def)
    fix i s1 assume i: "80 \<le> i" "i < 80 + 1840" and I: "?I i s1"
    obtain n where n: "node_at b (int i) s1 = Some n" "mo n = scrolled_to cs i ! i"
      using node_at_ok [of s1 b "int i"] I i by auto
    obtain s2 where "update_node b (int i - 80) (mo_update (\<lambda>_. if mo n \<noteq> 0x0A then mo n else 0x20)) s1 = Some s2"
      "nodes_ok (bufs s2 b)" "chars b s2 = (scrolled_to cs i)[i - 80 := blank (scrolled_to cs i ! i)]"
      using update_node_char [of s1 b "int i - 80" "if mo n \<noteq> 0x0A then mo n else 0x20"] I i n(2)
      by (auto simp: blank_def nat_diff_distrib')
    then show "\<exists>s'. f i s1 = Some s' \<and> ?I (Suc i) s'"
      using i len by (simp add: f_def n(1) scrolled_to_step)
  qed
  then obtain s1 where s1: "for_loop 80 1840 f s = Some s1" "nodes_ok (bufs s1 b)"
    "chars b s1 = scrolled_to cs 1920" by auto
  let ?J = "\<lambda>i s'. nodes_ok (bufs s' b) \<and>
    chars b s' = map (\<lambda>k. if 1840 \<le> k \<and> k < i then 0x20 else scrolled_to cs 1920 ! k) [0..<2000]
    \<and> (1840 < i \<longrightarrow> buf_x s' = 0 \<and> buf_y s' = 23)"
  have "\<exists>s'. for_loop 1840 80 g s1 = Some s' \<and> ?J (1840 + 80) s'"
  proof (rule for_loop_invariant [where I = ?J])
    show "?J 1840 s1"
      using s1 len by (auto simp: scrolled_to_def intro: nth_equalityI)
    fix i s2 assume i: "1840 \<le> i" "i < 1840 + 80" and J: "?J i s2"
    obtain s3 where "update_node b (int i) (mo_update (\<lambda>_. 0x20)) s2 = Some s3"
      "nodes_ok (bufs s3 b)" "chars b s3 = (chars b s2)[i := 0x20]"
      using update_node_char [of s2 b "int i" "0x20"] J i by auto
    moreover have "(chars b s2)[i := 0x20] =
      map (\<lambda>k. if 1840 \<le> k \<and> k < Suc i then 0x20 else scrolled_to cs 1920 ! k) [0..<2000]"
      using J i by (intro nth_equalityI) (auto simp: nth_list_update)
    ultimately show "\<exists>s'. g i s2 = Some s' \<and> ?J (Suc i) s'"
      by (simp add: g_def chars_def)
  qed
  then obtain s2 where s2: "for_loop 1840 80 g s1 = Some s2" "nodes_ok (bufs s2 b)"
    "chars b s2 = scrolled cs" "buf_x s2 = 0" "buf_y s2 = 23"
    using scrolled_to_end [OF len] by auto
  have "scroll_buf b s = Option.bind (for_loop 80 (80 * 24 - 80) f s) (for_loop (80 * (24 - 1)) 80 g)"
    by (simp only: scroll_buf_def f_def g_def)
  then have "scroll_buf b s = Some s2" using s1(1) s2(1) by simp
  then show ?thesis using s2 by (simp add: buffer_ok_def cs_def)
qed

lemma new_line_ok:
  assumes "buffer_ok b s"
  shows "\<exists>s'. new_line b s = Some s' \<and> buffer_ok b s' \<and> buf_x s' = 0
    \<and> buf_y s' = min 23 (buf_y s + 1)
    \<and> chars b s' = (let cs = (chars b s)[nat (80 * buf_y s + buf_x s + 1) := 0x0A]
                    in if buf_y s = 23 then scrolled cs else cs)"
proof -
  obtain s1 where s1: "update_node b (80 * buf_y s + buf_x s + 1) (mo_update (\<lambda>_. 0x0A)) s = Some s1"
    "nodes_ok (bufs s1 b)" "chars b s1 = (chars b s)[nat (80 * buf_y s + buf_x s + 1) := 0x0A]"
    "buf_x s1 = buf_x s" "buf_y s1 = buf_y s"
    using update_node_char [of s b "80 * buf_y s + buf_x s + 1" "0x0A"]
      index_bounds [OF assms] assms unfolding buffer_ok_def by auto
  define s2 where "s2 = s1\<lparr>buf_x := 0\<rparr>"
  have s2: "buffer_ok b s2" "chars b s2 = chars b s1" "buf_y s2 = buf_y s"
    using s1 assms by (simp_all add: s2_def buffer_ok_def chars_def)
  have nl: "new_line b s = (if buf_y s \<noteq> 23 then Some (s2\<lparr>buf_y := buf_y s2 + 1\<rparr>) else scroll_buf b s2)"
    using assms s1(1,5) by (simp add: new_line_def buffer_ok_def Let_def s2_def)
  show ?thesis
  proof (cases "buf_y s = 23")
    case True
    then show ?thesis using scroll_buf_chars [OF s2(1)] s2 s1(3) nl by auto
  next
    case False
    then show ?thesis
      using nl s2 s1(3) assms by (auto simp: buffer_ok_def chars_def s2_def)
  qed
qed

lemma clear_buf_line_ok:
  assumes "buffer_ok b s"
  shows "\<exists>s'. clear_buf_line b s = Some s' \<and> buffer_ok b s' \<and> buf_x s' = buf_x s \<and> buf_y s' = buf_y s
    \<and> chars b s' = take (80 * nat (buf_y s)) (chars b s) @ replicate 80 0x20 @ drop (80 * nat (buf_y s) + 80) (chars b s)"
proof -
  define y where "y = nat (buf_y s)"
  define cs where "cs = chars b s"
  have y: "buf_y s = int y" "y < 24" using assms by (auto simp: y_def buffer_ok_def)
  have len: "length cs = 2000" using assms length_chars by (auto simp: cs_def buffer_ok_def)
  let ?cs = "\<lambda>i. map (\<lambda>k. if 80 * y \<le> k \<and> k < 80 * y + i then 0x20 else cs ! k) [0..<2000]"
  let ?I = "\<lambda>i s'. buffer_ok b s' \<and> buf_x s' = buf_x s \<and> buf_y s' = buf_y s \<and> chars b s' = ?cs i"
  have "\<exists>s'. for_loop 0 80 (\<lambda>k. update_node b (80 * int y + int k) (mo_update (\<lambda>_. 0x20))) s = Some s' \<and> ?I (0 + 80) s'"
  proof (rule for_loop_invariant [where I = ?I])
    have "cs = ?cs 0" using len by (intro nth_equalityI) auto
    then show "?I 0 s" using assms by (simp add: cs_def)
    fix i s1 assume i: "i < 0 + 80" and I: "?I i s1"
    obtain s2 where "update_node b (80 * int y + int i) (mo_update (\<lambda>_. 0x20)) s1 = Some s2"
      "nodes_ok (bufs s2 b)" "chars b s2 = (?cs i)[nat (80 * int y + int i) := 0x20]"
      "buf_x s2 = buf_x s1" "buf_y s2 = buf_y s1"
      using update_node_char [of s1 b "80 * int y + int i" "0x20"] I i y(2) unfolding buffer_ok_def by auto
    moreover have "(?cs i)[nat (80 * int y + int i) := 0x20] = ?cs (Suc i)"
    proof -
      have "nat (80 * int y + int i) = 80 * y + i" by simp
      then show ?thesis using i y(2) by (intro nth_equalityI) (auto simp: nth_list_update)
    qed
    ultimately show "\<exists>s'. update_node b (80 * int y + int i) (mo_update (\<lambda>_. 0x20)) s1 = Some s' \<and> ?I (Suc i) s'"
      using I by (simp add: buffer_ok_def)
  qed
  then obtain s' where s': "clear_buf_line b s = Some s'" "buffer_ok b s'" "buf_x s' = buf_x s"
    "buf_y s' = buf_y s" "chars b s' = ?cs 80"
    by (auto simp: clear_buf_line_def Let_def y)
  have "?cs 80 = take (80 * y) cs @ replicate 80 0x20 @ drop (80 * y + 80) cs"
    using len y(2) by (intro nth_equalityI) (auto simp: nth_append)
  then show ?thesis using s' by (simp add: y_def cs_def)
qed

lemma backspace_ok:
  assumes "buffer_ok b s" and "line_count > 0 \<Longrightarrow> 0 < buf_x s \<or> 0 < buf_y s"
  shows "\<exists>s'. backspace b line_count s = Some s' \<and> buffer_ok b s'"
proof (cases "line_count > 0")
  case False
  then show ?thesis using assms by (simp add: backspace_def)
next
  case True
  define i where "i = 80 * buf_y s + buf_x s - 1"
  have i: "0 \<le> i" "i < 2000" using assms True by (auto simp: i_def buffer_ok_def)
  obtain n where n: "node_at b i s = Some n" using node_at_ok [of s b i] i assms(1) by (auto simp: buffer_ok_def)
  obtain s1 where s1: "update_node b i (mo_update (\<lambda>_. 0x20)) s = Some s1" "nodes_ok (bufs s1 b)"
    "buf_x s1 = buf_x s" "buf_y s1 = buf_y s"
    using update_node_char [of s b i "0x20"] i assms(1) by (auto simp: buffer_ok_def)
  show ?thesis
  proof (cases "printed n = 0")
    case False
    then show ?thesis using assms True n by (simp add: backspace_def i_def)
  next
    case p: True
    then show ?thesis using assms True n s1
      by (cases "buf_x s = 0") (auto simp: backspace_def i_def buffer_ok_def Let_def)
  qed
qed

lemma reset_buf_ok:
  assumes "length (bufs s b) = 2000"
  shows "\<exists>s'. reset_buf b s = Some s' \<and> buffer_ok b s' \<and> chars b s' = replicate 2000 0x20
    \<and> buf_x s' = 0 \<and> buf_y s' = 0"
proof -
  define f where "f = (\<lambda>i (x, y, s). map_option (\<lambda>s. if x \<noteq> 80 - 1 then (x + 1, y, s) else (0, y + 1, s))
    (update_node b (int i) (\<lambda>n. n\<lparr>x_coord := x, y_coord := y, mo := 0x20, printed := 0\<rparr>) s))"
  let ?I = "\<lambda>i (x, y, s'). x = int (i mod 80) \<and> y = int (i div 80) \<and> length (bufs s' b) = 2000
    \<and> (\<forall>k < i. node_ok k (bufs s' b ! k) \<and> mo (bufs s' b ! k) = 0x20)"
  have "\<exists>w. for_loop 0 2000 f (0, 0, s) = Some w \<and> ?I (0 + 2000) w"
  proof (rule for_loop_invariant [where I = ?I])
    show "?I 0 (0, 0, s)" using assms by simp
    fix i :: nat and w :: "int \<times> int \<times> buffers"
    assume i: "i < 0 + 2000" and I: "?I i w"
    obtain x y s1 where w: "w = (x, y, s1)" by (cases w)
    have x: "x = int (i mod 80)" "y = int (i div 80)" "length (bufs s1 b) = 2000" using I w by auto
    define s2 where "s2 = s1\<lparr>bufs := (bufs s1)(b := (bufs s1 b)[i :=
      (bufs s1 b ! i)\<lparr>x_coord := x, y_coord := y, mo := 0x20, printed := 0\<rparr>])\<rparr>"
    have "f i w = Some (if x \<noteq> 79 then (x + 1, y, s2) else (0, y + 1, s2))"
      using i x(3) by (simp add: f_def w update_node_def s2_def)
    moreover have "Suc i mod 80 = (if i mod 80 = 79 then 0 else i mod 80 + 1)"
      "Suc i div 80 = (if i mod 80 = 79 then i div 80 + 1 else i div 80)"
      by (auto simp: mod_Suc div_Suc)
    ultimately show "\<exists>w'. f i w = Some w' \<and> ?I (Suc i) w'"
      using I x i by (auto simp: w s2_def node_ok_def less_Suc_eq nth_list_update)
  qed
  then obtain x y s1 where s1: "for_loop 0 2000 f (0, 0, s) = Some (x, y, s1)" "length (bufs s1 b) = 2000"
    "\<forall>k < 2000. node_ok k (bufs s1 b ! k) \<and> mo (bufs s1 b ! k) = 0x20" by auto
  have "reset_buf b s = map_option (\<lambda>(x, y, s). s\<lparr>buf_x := 0, buf_y := 0\<rparr>) (for_loop 0 ((24 + 1) * 80) f (0, 0, s))"
    by (simp only: reset_buf_def f_def)
  then have "reset_buf b s = Some (s1\<lparr>buf_x := 0, buf_y := 0\<rparr>)" using s1(1) by simp
  moreover have "chars b s1 = replicate 2000 0x20"
    using s1(2,3) by (intro nth_equalityI) (simp_all add: chars_def)
  ultimately show ?thesis
    using s1(2,3) by (auto simp: buffer_ok_def nodes_ok_def chars_def)
qed

section \<open>Showing a buffer\<close>

text \<open>What the screen shows for a character: newlines and carriage returns leave the cell alone.\<close>

definition shows_cell :: "u8 \<Rightarrow> u8 \<Rightarrow> mem \<Rightarrow> mem \<Rightarrow> nat \<Rightarrow> bool" where
  "shows_cell c attr m m' i \<longleftrightarrow>
     (if c = 0x0A \<or> c = 0x0D
      then m' (cell (int i)) = m (cell (int i)) \<and> m' (cell (int i) + 1) = m (cell (int i) + 1)
      else m' (cell (int i)) = c \<and> m' (cell (int i) + 1) = attr)"

definition shows_cell_at :: "u8 list \<Rightarrow> u8 \<Rightarrow> mem \<Rightarrow> mem \<Rightarrow> nat \<Rightarrow> bool" where
  "shows_cell_at cs attr m m' i = shows_cell (cs ! i) attr m m' i"

lemma print_helper_char:
  "print_helper conv c x y (m, s) =
   Some (if c \<noteq> 0x0A then putc c (m, s\<lparr>screen_x := x, screen_y := y\<rparr>) else (m, s\<lparr>screen_x := x, screen_y := y\<rparr>))"
  by (simp add: print_helper_def printf_def ascii_def Let_def low_byte_scast)

lemma cell_in_video:
  "k < 1920 \<Longrightarrow> in_range VIDEO 3840 (cell (int k)) \<and> in_range VIDEO 3840 (cell (int k) + 1)"
proof -
  assume k: "k < 1920"
  have "cell (int k) = VIDEO + of_nat (2 * k)" "cell (int k) + 1 = VIDEO + of_nat (2 * k + 1)"
    by (simp_all add: cell_offset)
  then show ?thesis using k by (simp only: in_range_offset) (simp add: in_range_offset del: of_nat_add of_nat_mult)
qed

lemma printb_shows:
  assumes "buffer_ok b s"
  shows "\<exists>m' w'. printb conv b s (m, w) = Some (m', w') \<and> colour w' = colour w
    \<and> (\<forall>i < 1920. shows_cell (chars b s ! i) (colour w) m m' i)
    \<and> (\<forall>x. \<not> in_range VIDEO 3840 x \<longrightarrow> m' x = m x)"
proof -
  define f where "f = (\<lambda>i v. case node_at b (int i) s of
      None \<Rightarrow> None
    | Some n \<Rightarrow> print_helper conv (mo n) (x_coord n) (y_coord n) v)"
  let ?I = "\<lambda>i (m', w'). colour w' = colour w
    \<and> (\<forall>k < i. shows_cell (chars b s ! k) (colour w) m m' k)
    \<and> (\<forall>k. i \<le> k \<longrightarrow> k < 1920 \<longrightarrow> m' (cell (int k)) = m (cell (int k)) \<and> m' (cell (int k) + 1) = m (cell (int k) + 1))
    \<and> (\<forall>x. \<not> in_range VIDEO 3840 x \<longrightarrow> m' x = m x)"
  have "\<exists>v. for_loop 0 1920 f (m, w) = Some v \<and> ?I (0 + 1920) v"
  proof (rule for_loop_invariant [where I = ?I])
    show "?I 0 (m, w)" by simp
    fix i :: nat and v :: "mem \<times> screen"
    assume i: "i < 0 + 1920" and I: "?I i v"
    obtain m1 w1 where v: "v = (m1, w1)" by (cases v)
    obtain n where n: "node_at b (int i) s = Some n" "mo n = chars b s ! i"
      "x_coord n = int (i mod 80)" "y_coord n = int (i div 80)"
      using node_at_ok [of s b "int i"] i assms by (auto simp: buffer_ok_def node_ok_def)
    define c where "c = mo n"
    define w2 where "w2 = w1\<lparr>screen_x := int (i mod 80), screen_y := int (i div 80)\<rparr>"
    have w2: "colour w2 = colour w" using I v by (simp add: w2_def colour_def)
    show "\<exists>v'. f i v = Some v' \<and> ?I (Suc i) v'"
    proof (cases "c = 0x0A \<or> c = 0x0D")
      case True
      have "f i v = Some (m1, if c = 0x0A then w2 else w2\<lparr>screen_y := screen_y w2 + 1, screen_x := 0\<rparr>)"
        using True n by (auto simp: f_def v print_helper_char putc_def w2_def c_def)
      then show ?thesis
        using I v i w2 True n(2) by (auto simp: less_Suc_eq shows_cell_def c_def colour_def)
    next
      case False
      have "int (80 * (i div 80) + i mod 80) = int i" by simp
      then have pos: "80 * int (i div 80) + int (i mod 80) = int i"
        by (simp only: of_nat_add of_nat_mult of_nat_numeral)
      have "i div 80 < 24" using i by (simp add: less_mult_imp_div_less)
      then have "putc c (m1, w2) = (put_cell (int i) c (colour w2) m1, w2\<lparr>screen_x := (screen_x w2 + 1) mod 80\<rparr>)"
        using False putc_char [of c w2 m1] pos by (simp add: w2_def)
      then have fi: "f i v = Some (put_cell (int i) c (colour w) m1, w2\<lparr>screen_x := (screen_x w2 + 1) mod 80\<rparr>)"
        using False n w2 by (simp add: f_def v print_helper_char w2_def c_def)
      have other: "put_cell (int i) c a m1 (cell (int k)) = m1 (cell (int k))"
        "put_cell (int i) c a m1 (cell (int k) + 1) = m1 (cell (int k) + 1)" if "k \<noteq> i" "k < 1920" for k a
        using put_cell_other [of "int i" "int k"] that i by auto
      have frame: "put_cell (int i) c a m1 x = m1 x" if "\<not> in_range VIDEO 3840 x" for x a
        using cell_in_video [of i] that i by (auto simp: put_cell_def)
      show ?thesis
        unfolding fi using I v i w2 False n(2) other frame
        by (auto simp: less_Suc_eq shows_cell_def c_def colour_def)
    qed
  qed
  moreover have "printb conv b s (m, w) = for_loop 0 (24 * 80) f (m, w)" by (simp only: printb_def f_def)
  ultimately show ?thesis by auto
qed

section \<open>Properties\<close>

text \<open>
  The operations on a screen buffer stay within the array and keep the position on the screen:
  \<open>reset_buf\<close> of any array of 2000 nodes, and \<open>setb\<close>, \<open>new_line\<close>, \<open>scroll_buf\<close>, \<open>clear_buf_line\<close> and
  \<open>backspace\<close> of a well-formed buffer, \<open>backspace\<close> as long as there is a character before the
  position.
\<close>

lemma buffer_ops_safe:
  assumes "buffer_ok b s" and "line_count > 0 \<Longrightarrow> 0 < buf_x s \<or> 0 < buf_y s"
  shows "(\<exists>s'. reset_buf b s = Some s' \<and> buffer_ok b s') \<and> (\<exists>s'. setb b c s = Some s' \<and> buffer_ok b s')
    \<and> (\<exists>s'. new_line b s = Some s' \<and> buffer_ok b s') \<and> (\<exists>s'. scroll_buf b s = Some s' \<and> buffer_ok b s')
    \<and> (\<exists>s'. clear_buf_line b s = Some s' \<and> buffer_ok b s')
    \<and> (\<exists>s'. backspace b line_count s = Some s' \<and> buffer_ok b s')"
proof -
  have "length (bufs s b) = 2000" using assms(1) by (simp add: buffer_ok_def nodes_ok_def)
  then show ?thesis
    using reset_buf_ok [of s b] setb_chars [OF assms(1), of c] new_line_ok [OF assms(1)]
      scroll_buf_chars [OF assms(1)] clear_buf_line_ok [OF assms(1)] backspace_ok [OF assms] by blast
qed

definition sample_nodes :: "node list" where
  "sample_nodes = map (\<lambda>i. \<lparr>x_coord = int (i mod 80), y_coord = int (i div 80), mo = 0x41, printed = 0\<rparr>) [0..<2000]"

definition sample_buffers :: buffers where
  "sample_buffers = \<lparr>buf_x = 79, buf_y = 23, backspace_flag = 0, bufs = (\<lambda>_. sample_nodes)\<rparr>"

lemma sample_buffer_ok: "buffer_ok 0 sample_buffers"
  by (simp add: buffer_ok_def sample_buffers_def nodes_ok_def node_ok_def sample_nodes_def)

text \<open>
  \<open>scroll_buf\<close> moves rows 1 to 23 up by one, with blanks for the newline marks, blanks row 23,
  keeps row 24 and puts the position at the start of row 23.
\<close>

lemma scroll_buf_spec:
  assumes "buffer_ok b s"
  shows "\<exists>s'. scroll_buf b s = Some s' \<and> buf_x s' = 0 \<and> buf_y s' = 23
    \<and> chars b s' = map (\<lambda>c. if c = 0x0A then 0x20 else c) (take 1840 (drop 80 (chars b s)))
        @ replicate 80 0x20 @ drop 1920 (chars b s)"
proof -
  have "blank = (\<lambda>c. if c = 0x0A then 0x20 else c)" by (auto simp: blank_def)
  then show ?thesis using scroll_buf_chars [OF assms] by (auto simp: scrolled_def)
qed

text \<open>
  \<open>printb\<close> makes the 24 rows of video memory show the buffer: every cell has its node's
  character in the current colour, a cell of a newline or carriage return mark is left as it was,
  and no memory outside of the 24 rows changes.
\<close>

lemma printb_spec:
  assumes "buffer_ok b s"
  shows "\<exists>m' w'. printb conv b s (m, w) = Some (m', w')
    \<and> list_all (shows_cell_at (chars b s) (colour w) m m') [0..<1920]
    \<and> {x. m' x \<noteq> m x} \<subseteq> {x. in_range VIDEO 3840 x}"
  using printb_shows [OF assms, of conv m w] by (auto simp: shows_cell_at_def list_all_iff)

end
