(* ===== verification/Ports.thy ===== *)
theory Ports
  imports Prelude
begin

text \<open>
  Port input and output and the interrupt flag, the macros of \<open>lib.h\<close>. The state keeps the trace
  of port accesses, newest first. What a port read returns is decided by the hardware, a parameter
  \<open>dev\<close> of every function that reads a port: a function of the accesses so far and of the port.
\<close>

datatype io_event = InB u16 | OutB u16 u8

type_synonym device = "io_event list \<Rightarrow> u16 \<Rightarrow> u8"

record io =
  trace :: "io_event list"
  intr_on :: bool

definition inb :: "device \<Rightarrow> u32 \<Rightarrow> io \<Rightarrow> u32 \<times> io" where
  "inb dev port s = (ucast (dev (trace s) (ucast port)), s\<lparr>trace := InB (ucast port) # trace s\<rparr>)"

definition outb :: "u32 \<Rightarrow> u32 \<Rightarrow> io \<Rightarrow> io" where
  "outb data port s = s\<lparr>trace := OutB (ucast port) (ucast data) # trace s\<rparr>"

definition cli :: "io \<Rightarrow> io" where
  "cli s = s\<lparr>intr_on := False\<rparr>"

text \<open>Of the saved flags the kernel only relies on the interrupt flag.\<close>

definition cli_and_save :: "io \<Rightarrow> bool \<times> io" where
  "cli_and_save s = (intr_on s, s\<lparr>intr_on := False\<rparr>)"

definition sti :: "io \<Rightarrow> io" where
  "sti s = s\<lparr>intr_on := True\<rparr>"

definition restore_flags :: "bool \<Rightarrow> io \<Rightarrow> io" where
  "restore_flags flags s = s\<lparr>intr_on := flags\<rparr>"

named_theorems port_defs \<open>the port macros, for evaluating a driver's accesses\<close>

declare inb_def [port_defs] outb_def [port_defs] cli_def [port_defs] cli_and_save_def [port_defs]
  sti_def [port_defs] restore_flags_def [port_defs]

end
