(* ===== verification/FileTypes.thy ===== *)
theory FileTypes
  imports Prelude
begin

text \<open>
  The open file entry \<open>file_t\<close> of \<open>systemcalls.h\<close>, shared by every driver, and the contract a
  driver's \<open>open\<close> and \<open>close\<close> keep. A jump table pointer is named by the table it points to.
\<close>

datatype fops = NoOps | FileJt | DirectoryJt | RtcJt | StdinJt | StdoutJt

record file_t =
  file_op :: fops
  inode_ptr :: u32
  file_pos :: u32
  flags :: u32

text \<open>The return codes of \<open>filesys.c\<close>, \<open>rtc.c\<close> and the system calls, as 32-bit values.\<close>

abbreviation (input) RET_SUCCESS :: u32 where "RET_SUCCESS \<equiv> 0"
abbreviation (input) RET_FAILURE :: u32 where "RET_FAILURE \<equiv> - 1"

text \<open>A closed entry, as \<open>execute\<close> and the drivers' \<open>close\<close> write it.\<close>

definition closed_file :: file_t where
  "closed_file = \<lparr>file_op = NoOps, inode_ptr = 0, file_pos = 0, flags = 0\<rparr>"

text \<open>An entry in use refers to a jump table.\<close>

definition file_wf :: "file_t \<Rightarrow> bool" where
  "file_wf f \<longleftrightarrow> (flags f = 0 \<or> flags f = 1) \<and> (flags f = 1 \<longrightarrow> file_op f \<noteq> NoOps)"

lemma file_wf_closed [simp]: "file_wf closed_file"
  by (simp add: file_wf_def closed_file_def)

text \<open>
  What the system calls rely on in a driver's \<open>open\<close>: \<open>opened f f'\<close> says that a call that returns
  success can turn the entry \<open>f\<close> into \<open>f'\<close>. It marks the entry as used, from the start of the
  file, with the driver's own jump table.
\<close>

locale file_driver =
  fixes jt :: fops
    and opened :: "file_t \<Rightarrow> file_t \<Rightarrow> bool"
  assumes jt_set: "jt \<noteq> NoOps"
    and opened_op: "opened f f' \<Longrightarrow> file_op f' = jt"
    and opened_pos: "opened f f' \<Longrightarrow> file_pos f' = 0"
    and opened_flags: "opened f f' \<Longrightarrow> flags f' = 1"
begin

lemma opened_wf: "opened f f' \<Longrightarrow> file_wf f'"
  using jt_set by (simp add: file_wf_def opened_op opened_flags)

lemma opened_used: "opened f f' \<Longrightarrow> flags f' \<noteq> 0 \<and> file_op f' \<noteq> NoOps"
  using jt_set by (simp add: opened_op opened_flags)

end

end
