(* ===== verification/Terminal.thy ===== *)
theory Terminal
  imports Buffer Ports FileTypes
begin

text \<open>
  The three terminals, \<open>terminal.c\<close>, and the output to a terminal's buffer, \<open>put_cout\<close>,
  \<open>puts_cout\<close> and \<open>cout\<close> of \<open>lib.c\<close>. A terminal is a screen buffer of its own; the position, the
  line counters and the video memory are those of the terminal on display and \<open>terminal_switch\<close>
  exchanges them. The counters \<open>line_count\<close>, \<open>limit\<close> and \<open>enter_press\<close> of \<open>keyboard.c\<close> and the mouse
  position are part of the state because the terminal code reads or writes them.
\<close>

section \<open>State\<close>

record buff_attr =
  curr_line :: int
  curr_limit :: int
  curr_x :: int
  curr_y :: int

record terminal =
  scr :: screen
  bf :: buffers
  line_count :: int
  limit :: int
  typed_length :: int
  enter_press :: int
  screens :: "nat option list"
  screen_num :: int
  process_buf :: int
  components :: "buff_attr list"
  status :: u32
  sys_time :: "u8 list"
  mouse_x :: int
  mouse_y :: int

text \<open>\<open>screens[i]\<close>. Using the NULL pointer or an entry outside of the array is undefined: \<open>None\<close>.\<close>

definition screen_at :: "int \<Rightarrow> terminal \<Rightarrow> nat option" where
  "screen_at i s = (if 0 \<le> i \<and> i < int (length (screens s)) then screens s ! nat i else None)"

definition set_screen :: "int \<Rightarrow> nat option \<Rightarrow> terminal \<Rightarrow> terminal option" where
  "set_screen i b s =
     (if 0 \<le> i \<and> i < int (length (screens s)) then Some (s\<lparr>screens := (screens s)[nat i := b]\<rparr>) else None)"

definition component_at :: "int \<Rightarrow> terminal \<Rightarrow> buff_attr option" where
  "component_at i s =
     (if 0 \<le> i \<and> i < int (length (components s)) then Some (components s ! nat i) else None)"

definition set_component :: "int \<Rightarrow> buff_attr \<Rightarrow> terminal \<Rightarrow> terminal option" where
  "set_component i a s =
     (if 0 \<le> i \<and> i < int (length (components s))
      then Some (s\<lparr>components := (components s)[nat i := a]\<rparr>) else None)"

text \<open>An operation of \<open>buffer.c\<close> inside the terminal.\<close>

definition on_buffer :: "(buffers \<Rightarrow> buffers option) \<Rightarrow> terminal \<Rightarrow> terminal option" where
  "on_buffer f s = map_option (\<lambda>u. s\<lparr>bf := u\<rparr>) (f (bf s))"

section \<open>Output to a buffer\<close>

definition put_cout :: "u8 \<Rightarrow> nat \<Rightarrow> terminal \<Rightarrow> terminal option" where
  "put_cout c b s =
     (let u = bf s; index = 80 * buf_y u + buf_x u
      in if c = 0x0A \<or> c = 0x0D
         then (case update_node b index (mo_update (\<lambda>_. 0x0A)) u of
                 None \<Rightarrow> None
               | Some u \<Rightarrow>
                   (let u = u\<lparr>buf_x := 0\<rparr>
                    in map_option
                         (\<lambda>u. s\<lparr>bf := u,
                                 scr := (scr s)\<lparr>screen_y := screen_y (scr s) + 1, screen_x := 0\<rparr>,
                                 line_count := 0, limit := 0\<rparr>)
                         (if buf_y u \<noteq> 24 - 1 then Some (u\<lparr>buf_y := buf_y u + 1\<rparr>) else scroll_buf b u)))
         else (case Option.bind (update_node b index (mo_update (\<lambda>_. c)) u)
                      (update_node b index (printed_update (\<lambda>_. 1))) of
                 None \<Rightarrow> None
               | Some u \<Rightarrow>
                   (let u = u\<lparr>buf_x := buf_x u + 1\<rparr>;
                        s = s\<lparr>limit := limit s + 1\<rparr>;
                        s = s\<lparr>line_count := line_count s + 1\<rparr>;
                        u = u\<lparr>buf_x := buf_x u smod 80\<rparr>;
                        u = u\<lparr>buf_y := (buf_y u + buf_x u sdiv 80) smod 24\<rparr>
                    in Some (s\<lparr>bf := u\<rparr>))))"

text \<open>The sink of \<open>cout\<close>: a character to the buffer \<open>screens[process_buf]\<close>.\<close>

definition cout_char :: "terminal sink" where
  "cout_char c = (\<lambda>(m, s).
     case screen_at (process_buf s) s of
       None \<Rightarrow> None
     | Some b \<Rightarrow> map_option (Pair m) (put_cout c b s))"

definition puts_cout :: "u32 \<Rightarrow> mem \<times> terminal \<Rightarrow> (u32 \<times> mem \<times> terminal) option" where
  "puts_cout a w = puts_loop cout_char a 0 w"

definition cout :: "u32 \<Rightarrow> u8 list \<Rightarrow> u32 list \<Rightarrow> mem \<times> terminal \<Rightarrow> (u32 \<times> mem \<times> terminal) option" where
  "cout conv format esp w =
     map_option (\<lambda>w'. (of_nat (length format), w')) (fmt_loop cout_char conv Plain format esp w)"

section \<open>The terminals\<close>

text \<open>The three branches of \<open>screen_assign\<close> differ in the index only; \<open>buff_1\<close> is buffer 0.\<close>

definition screen_assign :: "int \<Rightarrow> terminal \<Rightarrow> (terminal \<times> u32) option" where
  "screen_assign i s =
     (if i = 0 \<or> i = 1 \<or> i = 2
      then map_option (\<lambda>s. (s, 1))
             (Option.bind (set_screen i (Some (nat i)) s)
               (\<lambda>s. Option.bind (on_buffer (reset_buf (nat i)) s)
                  (set_component i \<lparr>curr_line = 0, curr_limit = 0, curr_x = 0, curr_y = 0\<rparr>)))
      else Some (s, RET_FAILURE))"

definition terminal_init :: "terminal \<Rightarrow> terminal option" where
  "terminal_init s =
     (let s = (if screen_num s < 2 \<and> screen_num s > - 1 then s\<lparr>screen_num := screen_num s + 1\<rparr>
               else s\<lparr>screen_num := 0\<rparr>)
      in map_option fst (screen_assign (screen_num s) s))"

definition pass_buff :: "terminal \<Rightarrow> nat option" where
  "pass_buff s = screen_at (screen_num s) s"

definition terminal_open :: "terminal \<Rightarrow> nat option" where
  "terminal_open s = screen_at (screen_num s) s"

definition terminal_close :: "terminal \<Rightarrow> (terminal \<times> u32) option" where
  "terminal_close s =
     (let s = s\<lparr>screen_num := screen_num s - 1\<rparr>
      in map_option (\<lambda>s. (s, 0)) (set_screen (screen_num s) None s))"

text \<open>\<open>printb\<close> on the state of the terminal.\<close>

definition show_buffer :: "u32 \<Rightarrow> nat option \<Rightarrow> mem \<times> terminal \<Rightarrow> (mem \<times> terminal) option" where
  "show_buffer conv b = (\<lambda>(m, s).
     case b of
       None \<Rightarrow> None
     | Some b \<Rightarrow> map_option (\<lambda>(m, w). (m, s\<lparr>scr := w\<rparr>)) (printb conv b (bf s) (m, scr s)))"

definition terminal_write ::
  "u32 \<Rightarrow> file_t \<Rightarrow> u32 \<Rightarrow> u32 \<Rightarrow> mem \<times> terminal \<Rightarrow> (u32 \<times> mem \<times> terminal) option" where
  "terminal_write conv f buf counter = (\<lambda>(m, s).
     let s = s\<lparr>process_buf := sint (file_pos f)\<rparr>
     in case strlen m buf of
          None \<Rightarrow> None
        | Some len \<Rightarrow>
            (case for_loop 0 (unat len) (\<lambda>i. cout_char (m (buf + of_nat i))) (m, s) of
               None \<Rightarrow> None
             | Some (m, s) \<Rightarrow> map_option (Pair counter) (show_buffer conv (pass_buff s) (m, s))))"

definition terminal_switch :: "u32 \<Rightarrow> int \<Rightarrow> int \<Rightarrow> mem \<times> terminal \<Rightarrow> (mem \<times> terminal) option" where
  "terminal_switch conv new_screen old_screen = (\<lambda>(m, s).
     case set_component old_screen
            \<lparr>curr_line = line_count s, curr_limit = limit s, curr_x = buf_x (bf s), curr_y = buf_y (bf s)\<rparr> s of
       None \<Rightarrow> None
     | Some s \<Rightarrow>
         (case component_at new_screen s of
            None \<Rightarrow> None
          | Some a \<Rightarrow>
              (let s = s\<lparr>line_count := curr_line a, limit := curr_limit a,
                         bf := (bf s)\<lparr>buf_x := curr_x a, buf_y := curr_y a\<rparr>\<rparr>;
                   m = clear m
               in map_option (\<lambda>(m, s). (m, s\<lparr>screen_num := new_screen\<rparr>))
                    (show_buffer conv (screen_at new_screen s) (m, s)))))"

section \<open>Reading a line\<close>

text \<open>
  The wait of \<open>terminal_read\<close>. Interrupts are on between two tests of the loop condition; \<open>kbd k\<close>
  is what the handlers that run before the \<open>k\<close>th test do. The result has the last \<open>cmd_end\<close>.
\<close>

type_synonym line_world = "mem \<times> terminal \<times> io"

partial_function (option) enter_wait ::
  "(nat \<Rightarrow> line_world \<Rightarrow> line_world) \<Rightarrow> nat \<Rightarrow> int \<Rightarrow> line_world \<Rightarrow> (int \<times> line_world) option" where
  "enter_wait kbd k cmd_end w =
     (case kbd k w of
        (m, s, p) \<Rightarrow>
          (let p = cli p
           in if typed_length s = 127 \<or> enter_press s = 1 then Some (cmd_end, (m, s, p))
              else (let cmd_end = buf_x (bf s); p = sti p
                    in enter_wait kbd (Suc k) cmd_end (m, s, p))))"

text \<open>Copying the line from the screen into the local array \<open>out\<close>, up to \<open>i = stop\<close>.\<close>

function copy_line ::
  "nat \<Rightarrow> int \<Rightarrow> int \<Rightarrow> int \<Rightarrow> nat \<Rightarrow> u8 list \<Rightarrow> terminal \<Rightarrow> (u8 list \<times> terminal) option" where
  "copy_line b cmd_start stop i j out s =
     (if i < stop
      then (let s = s\<lparr>typed_length := typed_length s + 1\<rparr>
            in case (node_at b i (bf s), node_at b (i + 1) (bf s)) of
                 (Some n, Some next) \<Rightarrow>
                   if j < length out
                   then (let out = out[j := mo n]
                         in if mo next = 0x0A
                            then (let index = buf_y (bf s) - 1; k = i - index - cmd_start
                                  in if 0 \<le> k \<and> k < int (length out) then Some (out[nat k := 0x0A], s) else None)
                            else copy_line b cmd_start stop (i + 1) (Suc j) out s)
                   else None
               | _ \<Rightarrow> None)
      else Some (out, s))"
  by pat_completeness auto
termination
  by (relation "measure (\<lambda>(b, cmd_start, stop, i, j, out, s). nat (stop - i))") auto

declare copy_line.simps [simp del]

text \<open>
  \<open>out\<close> is a local array of \<open>counter\<close> characters, so a negative \<open>counter\<close> is undefined, as are a
  write past its end and a search for its NUL that runs past it.
\<close>

definition terminal_read ::
  "device \<Rightarrow> (nat \<Rightarrow> line_world \<Rightarrow> line_world) \<Rightarrow> file_t \<Rightarrow> u32 \<Rightarrow> u32 \<Rightarrow> line_world
     \<Rightarrow> (u32 \<times> line_world) option" where
  "terminal_read dev kbd f buf counter = (\<lambda>(m, s, p).
     let p = sti p;
         m = store_bytes m buf (replicate 20 0);
         buffer = pass_buff s;
         (to_print, p) = inb dev 0x60 p;
         cmd_start = buf_x (bf s);
         cmd_end = line_count s
     in if counter <s 0 then None
        else (let out = replicate (unat counter) 0
              in case enter_wait kbd 0 cmd_end (m, s, p) of
                   None \<Rightarrow> None
                 | Some (cmd_end, (m, s, p)) \<Rightarrow>
                     (let s = s\<lparr>enter_press := 0\<rparr>;
                          index = (if line_count s \<ge> 80 then (buf_y (bf s) - 2) * 80
                                   else (buf_y (bf s) - 1) * 80)
                      in case buffer of
                           None \<Rightarrow> None
                         | Some b \<Rightarrow>
                             (case copy_line b cmd_start (index + cmd_end) (index + cmd_start) 0 out s of
                                None \<Rightarrow> None
                              | Some (out, s) \<Rightarrow>
                                  (let line = takeWhile (\<lambda>c. c \<noteq> 0) out
                                   in if length line = length out then None
                                      else (let m = store_bytes m buf (line @ [0]);
                                                m = m(buf + of_nat (length line) := 0)
                                            in Some (if 128 <s counter then 128 else counter, (m, s, p))))))))"

section \<open>The status bar\<close>

definition switch_status :: "mem \<times> terminal \<Rightarrow> mem \<times> terminal" where
  "switch_status = (\<lambda>(m, s).
     let paint = (\<lambda>a n m. fold (\<lambda>i m. m(cell (int i) + 1 := 0x4E)) [a..<a + n] m);
         j = (25 - 1) * 80
     in if screen_num s = 0 then (paint j 11 m, s)
        else if screen_num s = 1 then (paint (j + 11) 11 m, s)
        else if screen_num s = 2 then (paint (j + 22) 11 m, s)
        else (m, s))"

text \<open>\<open>lit\<close> is the address of the string literal \<open>status\<close> is set to.\<close>

definition status_bar :: "u32 \<Rightarrow> mem \<times> terminal \<Rightarrow> mem \<times> terminal" where
  "status_bar lit = (\<lambda>(m, s).
     let s = s\<lparr>status := lit\<rparr>;
         x = mouse_x s;
         y = mouse_y s;
         m = fold (\<lambda>j m. let i = int ((25 - 1) * 80 + j);
                              m = m(cell i + 1 := 0x90)
                          in m(cell i := m (status s + of_nat j))) [0..<80] m;
         (m, s) = switch_status (m, s)
     in if (x > - 1 \<and> x < 80) \<and> y = 24 then (set_colour x y 0x64 m, s) else (m, s))"

section \<open>The clock on the status bar\<close>

text \<open>\<open>sys_time[k]\<close> is a signed \<open>char\<close>.\<close>

definition get_system_time :: "terminal \<Rightarrow> terminal" where
  "get_system_time s =
     (let t = sys_time s;
          t = t[4 := t ! 4 + 1];
          (t, sec1_flag) = (if 0x39 <s t ! 4 then (t[4 := 0x30], 1 :: int) else (t, 0));
          (t, sec2_flag) =
            (if sec1_flag = 1
             then (let t = t[3 := t ! 3 + 1] in if 0x35 <s t ! 3 then (t[3 := 0x30], 1 :: int) else (t, 0))
             else (t, 0));
          (t, min1_flag) =
            (if sec2_flag = 1
             then (let t = t[1 := t ! 1 + 1] in if 0x39 <s t ! 1 then (t[1 := 0x30], 1 :: int) else (t, 0))
             else (t, 0));
          t = (if min1_flag = 1
               then (let t = t[0 := t ! 0 + 1]
                     in if 0x35 <s t ! 0 then t[0 := 0x30, 1 := 0x30, 3 := 0x30, 4 := 0x30] else t)
               else t)
      in s\<lparr>sys_time := t\<rparr>)"

text \<open>
  The two copying loops of \<open>embed_time\<close>, downwards from \<open>i\<close> and \<open>j\<close>; the bound \<open>strlen(status) - k\<close>
  is computed anew, as an unsigned number, in each test. A negative \<open>j\<close> is outside of the array.
\<close>

partial_function (option) embed_loop ::
  "u8 list \<Rightarrow> u32 \<Rightarrow> u32 \<Rightarrow> u32 \<Rightarrow> int \<Rightarrow> mem \<Rightarrow> mem option" where
  "embed_loop src k st i j m =
     (case strlen m st of
        None \<Rightarrow> None
      | Some n \<Rightarrow>
          if i > n - k
          then (if 0 \<le> j \<and> j < int (length src)
                then embed_loop src k st (i - 1) (j - 1) (m(st + i := src ! nat j)) else None)
          else Some m)"

definition embed_time :: "u32 \<Rightarrow> mem \<times> terminal \<Rightarrow> (u32 \<times> mem \<times> terminal) option" where
  "embed_time st = (\<lambda>(m, s).
     let s = get_system_time s
     in case strlen m st of
          None \<Rightarrow> None
        | Some n \<Rightarrow>
            (case embed_loop (sys_time s) 7 st (n - 2) 4 m of
               None \<Rightarrow> None
             | Some m \<Rightarrow>
                 (case strlen m st of
                    None \<Rightarrow> None
                  | Some n \<Rightarrow>
                      map_option (\<lambda>m. (st, m, s)) (embed_loop (ascii ''Time Elapsed'') 20 st (n - 8) 11 m))))"

end
