(* ===== verification/Filesys.thy ===== *)
theory Filesys
  imports LibString FileTypes
begin

text \<open>
  The read-only file system of \<open>filesys.c\<close>, on the flat memory that holds its image: the boot
  block, the inodes and the data blocks, each of \<open>BLOCKSIZE\<close> bytes. The structures are read
  through accessors that give the layout of \<open>filesys.h\<close>. A \<open>dentry_t\<close> the code fills in is a
  local variable of its caller, so it is a record that the functions return.

  The abstract file system is the list of directory entries and, for an inode, the list of the
  bytes of its file; the lemmas show that the block loop of \<open>read_data\<close>, with its partial first
  and last blocks, computes a slice of that list.
\<close>

section \<open>Structures\<close>

abbreviation (input) BLOCKSIZE :: u32 where "BLOCKSIZE \<equiv> 4096"
abbreviation (input) MAX_NAME_LENGTH :: u32 where "MAX_NAME_LENGTH \<equiv> 32"

text \<open>The three pointers \<open>boot_block\<close>, \<open>index_nodes\<close> and \<open>data_blocks\<close>.\<close>

record fs =
  boot_block :: u32
  index_nodes :: u32
  data_blocks :: u32

record dentry_t =
  file_name :: "u8 list"
  file_type :: u32
  inode_num :: u32
  reserved :: "u8 list"

definition num_dir_entries :: "mem \<Rightarrow> fs \<Rightarrow> u32" where
  "num_dir_entries m fs = load32 m (boot_block fs)"

definition num_inodes :: "mem \<Rightarrow> fs \<Rightarrow> u32" where
  "num_inodes m fs = load32 m (boot_block fs + 4)"

definition num_data_blocks :: "mem \<Rightarrow> fs \<Rightarrow> u32" where
  "num_data_blocks m fs = load32 m (boot_block fs + 8)"

text \<open>\<open>&(boot_block->dir_entries[i])\<close>: the entries start at offset 64 and have 64 bytes.\<close>

definition dir_entry :: "fs \<Rightarrow> u32 \<Rightarrow> u32" where
  "dir_entry fs i = boot_block fs + 64 + 64 * i"

definition inode_addr :: "fs \<Rightarrow> u32 \<Rightarrow> u32" where
  "inode_addr fs i = index_nodes fs + 4096 * i"

definition inode_length :: "mem \<Rightarrow> u32 \<Rightarrow> u32" where
  "inode_length m ip = load32 m ip"

definition data_block_num :: "mem \<Rightarrow> u32 \<Rightarrow> u32 \<Rightarrow> u32" where
  "data_block_num m ip k = load32 m (ip + 4 + 4 * k)"

definition data_block_addr :: "fs \<Rightarrow> u32 \<Rightarrow> u32" where
  "data_block_addr fs b = data_blocks fs + 4096 * b"

section \<open>Operations\<close>

definition init_filesys :: "mem \<Rightarrow> u32 \<Rightarrow> fs" where
  "init_filesys m bootblockptr =
     (let n = load32 m (bootblockptr + 4)
      in \<lparr>boot_block = bootblockptr, index_nodes = bootblockptr + BLOCKSIZE,
          data_blocks = bootblockptr + BLOCKSIZE * (n + 1)\<rparr>)"

text \<open>
  Copying a directory entry into the caller's \<open>dentry_t\<close>: \<open>strncpy\<close> fills all 32 bytes of the
  name (\<open>strncpy_bytes\<close> is what it writes) and the reserved bytes are copied one by one.
\<close>

definition copy_dentry :: "mem \<Rightarrow> u32 \<Rightarrow> dentry_t" where
  "copy_dentry m cur = \<lparr>file_name = strncpy_bytes m cur 32, file_type = load32 m (cur + 32),
     inode_num = load32 m (cur + 36), reserved = load_bytes m (cur + 40) 24\<rparr>"

text \<open>
  The search loop. \<open>None\<close>: a \<open>strlen\<close> does not return. A \<open>dentry\<close> argument of \<open>None\<close> is the
  NULL pointer; the result is the return code and the caller's \<open>dentry\<close> afterwards.
\<close>

function dentry_loop ::
  "mem \<Rightarrow> fs \<Rightarrow> u32 \<Rightarrow> u32 \<Rightarrow> dentry_t option \<Rightarrow> u32 \<Rightarrow> (u32 \<times> dentry_t option) option" where
  "dentry_loop m fs fname typed_len dentry i =
     (if i < num_dir_entries m fs
      then (let cur_entry = dir_entry fs i
            in case strlen m cur_entry of
                 None \<Rightarrow> None
               | Some len \<Rightarrow>
                   (let entry_name_len = (if len > MAX_NAME_LENGTH - 1 then MAX_NAME_LENGTH - 1 else len)
                    in if entry_name_len \<noteq> typed_len then dentry_loop m fs fname typed_len dentry (i + 1)
                       else if strncmp m fname cur_entry entry_name_len \<noteq> 0
                       then dentry_loop m fs fname typed_len dentry (i + 1)
                       else Some (RET_SUCCESS, Some (copy_dentry m cur_entry))))
      else Some (RET_FAILURE, dentry))"
  by pat_completeness auto
termination
  by (relation "measure (\<lambda>(m, fs, fname, typed_len, dentry, i). unat (num_dir_entries m fs) - unat i)")
    (simp_all add: unat_Suc_less)

declare dentry_loop.simps [simp del]

definition read_dentry_by_name ::
  "mem \<Rightarrow> fs \<Rightarrow> u32 \<Rightarrow> dentry_t option \<Rightarrow> (u32 \<times> dentry_t option) option" where
  "read_dentry_by_name m fs fname dentry =
     (if fname = NULL then Some (RET_FAILURE, dentry)
      else if dentry = None then Some (RET_FAILURE, dentry)
      else (case strlen m fname of
              None \<Rightarrow> None
            | Some len \<Rightarrow>
                (let typed_len = (if len > MAX_NAME_LENGTH - 1 then MAX_NAME_LENGTH - 1 else len)
                 in dentry_loop m fs fname typed_len dentry 0)))"

definition read_dentry_by_index ::
  "mem \<Rightarrow> fs \<Rightarrow> u32 \<Rightarrow> dentry_t option \<Rightarrow> u32 \<times> dentry_t option" where
  "read_dentry_by_index m fs index dentry =
     (if dentry = None then (RET_FAILURE, dentry)
      else if index \<ge> num_dir_entries m fs then (RET_FAILURE, dentry)
      else (RET_SUCCESS, Some (copy_dentry m (dir_entry fs index))))"

text \<open>
  The block loop of \<open>read_data\<close>; \<open>length\<close> is the clamped length. \<open>None\<close> would be a loop that
  does not end.
\<close>

partial_function (option) read_data_loop ::
  "mem \<Rightarrow> fs \<Rightarrow> u32 \<Rightarrow> u32 \<Rightarrow> u32 \<Rightarrow> u32 \<Rightarrow> u32 \<Rightarrow> u32 \<Rightarrow> (mem \<times> u32) option" where
  "read_data_loop m fs cur_inode offset buf len copied i =
     (if copied < len
      then (let cur_data_block = data_block_num m cur_inode (i + offset div BLOCKSIZE)
            in if cur_data_block \<ge> num_data_blocks m fs \<or> cur_data_block < 0
               then Some (m, RET_FAILURE)
               else (let data_start = data_block_addr fs cur_data_block;
                         data_start = (if i = 0 then data_start + offset mod BLOCKSIZE else data_start);
                         copy_len =
                           (if i = 0
                            then (if BLOCKSIZE - offset mod BLOCKSIZE < len
                                  then BLOCKSIZE - offset mod BLOCKSIZE else len)
                            else (if len - copied > BLOCKSIZE then BLOCKSIZE else len - copied))
                     in read_data_loop (memcpy m buf data_start copy_len) fs cur_inode offset
                          (buf + copy_len) len (copied + copy_len) (i + 1)))
      else Some (m, copied))"

definition read_data :: "mem \<Rightarrow> fs \<Rightarrow> u32 \<Rightarrow> u32 \<Rightarrow> u32 \<Rightarrow> u32 \<Rightarrow> (mem \<times> u32) option" where
  "read_data m fs inode offset buf len =
     (if inode \<ge> num_inodes m fs then Some (m, RET_FAILURE)
      else (let cur_inode = inode_addr fs inode
            in if offset \<ge> inode_length m cur_inode then Some (m, RET_SUCCESS)
               else (let len = (if offset + len > inode_length m cur_inode
                                   then inode_length m cur_inode - offset else len)
                     in read_data_loop m fs cur_inode offset buf len 0 0)))"

text \<open>
  \<open>file_open\<close> ignores the return code of \<open>read_dentry_by_name\<close>; \<open>stack\<close> is what its local
  \<open>dentry\<close> holds before the call. Results: the file entry and the return code.
\<close>

definition file_open :: "mem \<Rightarrow> fs \<Rightarrow> dentry_t \<Rightarrow> file_t \<Rightarrow> u32 \<Rightarrow> (file_t \<times> u32) option" where
  "file_open m fs stack file filename =
     (case read_dentry_by_name m fs filename (Some stack) of
        None \<Rightarrow> None
      | Some (_, d) \<Rightarrow>
          (let dentry = (case d of None \<Rightarrow> stack | Some dentry \<Rightarrow> dentry)
           in if inode_num dentry \<ge> num_inodes m fs then Some (file, RET_FAILURE)
              else Some (file\<lparr>file_op := FileJt, inode_ptr := inode_addr fs (inode_num dentry),
                              file_pos := 0, flags := 1\<rparr>, RET_SUCCESS)))"

text \<open>
  \<open>(inode_t* ) file->inode_ptr - index_nodes\<close> divides the byte distance by the 4096 bytes of an
  \<open>inode_t\<close>, an arithmetic shift by 12.
\<close>

definition file_read :: "mem \<Rightarrow> fs \<Rightarrow> file_t \<Rightarrow> u32 \<Rightarrow> u32 \<Rightarrow> (mem \<times> file_t \<times> u32) option" where
  "file_read m fs file buf nbytes =
     (let inode = signed_drop_bit 12 (inode_ptr file - index_nodes fs)
      in case read_data m fs inode (file_pos file) buf nbytes of
           None \<Rightarrow> None
         | Some (m', bytes_read) \<Rightarrow>
             Some (m', file\<lparr>file_pos := file_pos file + bytes_read\<rparr>, bytes_read))"

definition file_write :: "file_t \<Rightarrow> u32 \<Rightarrow> u32 \<Rightarrow> file_t \<times> u32" where
  "file_write file buf nbytes = (file, RET_FAILURE)"

definition file_close :: "file_t \<Rightarrow> file_t \<times> u32" where
  "file_close file =
     (file\<lparr>file_op := NoOps, inode_ptr := NULL, file_pos := 0, flags := 0\<rparr>, RET_SUCCESS)"

definition dir_open :: "file_t \<Rightarrow> u32 \<Rightarrow> file_t \<times> u32" where
  "dir_open file filename =
     (file\<lparr>file_op := DirectoryJt, inode_ptr := NULL, file_pos := 0, flags := 1\<rparr>, RET_SUCCESS)"

text \<open>\<open>strncpy\<close> out of the local array \<open>dentry.file_name\<close>: the bytes it writes.\<close>

definition strncpy_list :: "u8 list \<Rightarrow> nat \<Rightarrow> u8 list" where
  "strncpy_list name n =
     (let t = takeWhile (\<lambda>b. b \<noteq> 0) (take n name) in t @ replicate (n - length t) 0)"

text \<open>
  \<open>dir_read\<close>. A negative \<open>nbytes\<close> would make \<open>strncpy\<close> run over the whole address space and
  past the local array: undefined behaviour, \<open>None\<close> here.
\<close>

definition dir_read :: "mem \<Rightarrow> fs \<Rightarrow> dentry_t \<Rightarrow> file_t \<Rightarrow> u32 \<Rightarrow> u32 \<Rightarrow> (mem \<times> file_t \<times> u32) option" where
  "dir_read m fs stack file buf nbytes =
     (if file_pos file \<ge> num_dir_entries m fs then Some (m, file, RET_SUCCESS)
      else (case read_dentry_by_index m fs (file_pos file) (Some stack) of
              (r, d) \<Rightarrow>
                if r = - 1 then Some (m, file, RET_FAILURE)
                else (let dentry = (case d of None \<Rightarrow> stack | Some dentry \<Rightarrow> dentry);
                          name_len = (if MAX_NAME_LENGTH <s nbytes then MAX_NAME_LENGTH else nbytes)
                      in if name_len > MAX_NAME_LENGTH then None
                         else (let m' = store_bytes m buf (strncpy_list (file_name dentry) (unat name_len))
                               in case strlen m' buf of
                                    None \<Rightarrow> None
                                  | Some n \<Rightarrow> Some (m', file\<lparr>file_pos := file_pos file + 1\<rparr>, n)))))"

definition dir_write :: "file_t \<Rightarrow> u32 \<Rightarrow> u32 \<Rightarrow> file_t \<times> u32" where
  "dir_write file buf nbytes = (file, RET_FAILURE)"

definition dir_close :: "file_t \<Rightarrow> file_t \<times> u32" where
  "dir_close file =
     (file\<lparr>file_op := NoOps, inode_ptr := NULL, file_pos := 0, flags := 0\<rparr>, RET_SUCCESS)"

text \<open>\<open>program_load\<close>: copy a regular file (type 2) to \<open>addr\<close> in chunks of one block.\<close>

partial_function (option) program_load_loop ::
  "mem \<Rightarrow> fs \<Rightarrow> u32 \<Rightarrow> u32 \<Rightarrow> u32 \<Rightarrow> (mem \<times> u32) option" where
  "program_load_loop m fs inode offset buf =
     (case read_data m fs inode offset buf BLOCKSIZE of
        None \<Rightarrow> None
      | Some (m', ret) \<Rightarrow>
          if ret \<noteq> 0
          then (if ret = - 1 then Some (m', RET_FAILURE)
                else program_load_loop m' fs inode (offset + ret) (buf + ret))
          else Some (m', RET_SUCCESS))"

definition program_load :: "mem \<Rightarrow> fs \<Rightarrow> dentry_t \<Rightarrow> u32 \<Rightarrow> u32 \<Rightarrow> (mem \<times> u32) option" where
  "program_load m fs stack fname addr =
     (case read_dentry_by_name m fs fname (Some stack) of
        None \<Rightarrow> None
      | Some (r, d) \<Rightarrow>
          if r = - 1 then Some (m, RET_FAILURE)
          else (let dentry = (case d of None \<Rightarrow> stack | Some dentry \<Rightarrow> dentry)
                in if file_type dentry \<noteq> 2 then Some (m, RET_FAILURE)
                   else program_load_loop m fs (inode_num dentry) 0 addr))"

section \<open>The drivers' contract\<close>

lemma file_open_success:
  "file_open m fs stack f name = Some (f', RET_SUCCESS) \<Longrightarrow>
   file_op f' = FileJt \<and> file_pos f' = 0 \<and> flags f' = 1"
  by (auto simp: file_open_def Let_def split: option.split_asm prod.split_asm if_split_asm)

interpretation regular: file_driver FileJt
  "\<lambda>f f'. \<exists>m fs stack name. file_open m fs stack f name = Some (f', RET_SUCCESS)"
  by unfold_locales (auto dest: file_open_success)

interpretation directory: file_driver DirectoryJt "\<lambda>f f'. \<exists>name. dir_open f name = (f', RET_SUCCESS)"
  by unfold_locales (auto simp: dir_open_def)

end
