(* ===== verification/Paging.thy ===== *)
theory Paging
  imports Prelude
begin

text \<open>
  Page directories and tables, \<open>paging.c\<close> and \<open>paging.h\<close>. The bit fields of an entry are a
  record of words of their widths; \<open>PDE_val\<close> and \<open>PTE_val\<close> are the 32-bit views of the unions. The
  static arrays are functions of their indices, the control registers are fields of the state, and
  the address the linker gives the array \<open>PT\<close> is the parameter \<open>pt_base\<close>. Invalidating a TLB entry
  changes nothing the model keeps.

  \<open>walk\<close> is what the entries mean: the translation of an address by one of the directories. The
  invariant \<open>paging_inv\<close> holds after \<open>init_paging\<close> and every later operation keeps it; from it
  follow the kernel's identity mapping and the isolation of the processes.
\<close>

section \<open>Entries\<close>

abbreviation (input) VIDEO_MEM :: u32 where "VIDEO_MEM \<equiv> 0xB8000"
abbreviation (input) KERNEL_MEM :: u32 where "KERNEL_MEM \<equiv> 0x400000"
abbreviation (input) USER_VID :: u32 where "USER_VID \<equiv> 0x07CB8000"
abbreviation (input) PGRM_IMG :: u32 where "PGRM_IMG \<equiv> 0x08048000"
abbreviation (input) PAGE1 :: u32 where "PAGE1 \<equiv> 0x800000"
abbreviation (input) PAGE_SIZE :: u32 where "PAGE_SIZE \<equiv> 0x400000"
abbreviation (input) NUM_PD :: nat where "NUM_PD \<equiv> 7"
abbreviation (input) NUM_PT :: nat where "NUM_PT \<equiv> 7"
abbreviation (input) NUM_PDE :: nat where "NUM_PDE \<equiv> 1024"
abbreviation (input) NUM_PTE :: nat where "NUM_PTE \<equiv> 1024"

record PDE_t =
  pde_present :: "1 word"
  pde_read_write :: "1 word"
  pde_user_super :: "1 word"
  pde_write_through :: "1 word"
  pde_cache_disabled :: "1 word"
  pde_accessed :: "1 word"
  pde_reserved :: "1 word"
  pde_page_size :: "1 word"
  pde_global :: "1 word"
  pde_avail :: "3 word"
  pde_page_table_base :: "20 word"

record PTE_t =
  pte_present :: "1 word"
  pte_read_write :: "1 word"
  pte_user_super :: "1 word"
  pte_write_through :: "1 word"
  pte_cache_disabled :: "1 word"
  pte_accessed :: "1 word"
  pte_dirty :: "1 word"
  pte_page_table_attribute :: "1 word"
  pte_global :: "1 word"
  pte_avail :: "3 word"
  pte_page_base :: "20 word"

text \<open>The union's other view, \<open>val\<close>: the fields from the lowest bit up.\<close>

definition PDE_val :: "PDE_t \<Rightarrow> u32" where
  "PDE_val e = ucast (pde_present e) OR push_bit 1 (ucast (pde_read_write e))
     OR push_bit 2 (ucast (pde_user_super e)) OR push_bit 3 (ucast (pde_write_through e))
     OR push_bit 4 (ucast (pde_cache_disabled e)) OR push_bit 5 (ucast (pde_accessed e))
     OR push_bit 6 (ucast (pde_reserved e)) OR push_bit 7 (ucast (pde_page_size e))
     OR push_bit 8 (ucast (pde_global e)) OR push_bit 9 (ucast (pde_avail e))
     OR push_bit 12 (ucast (pde_page_table_base e))"

definition PDE_of_val :: "u32 \<Rightarrow> PDE_t" where
  "PDE_of_val v = \<lparr>pde_present = ucast v, pde_read_write = ucast (drop_bit 1 v),
     pde_user_super = ucast (drop_bit 2 v), pde_write_through = ucast (drop_bit 3 v),
     pde_cache_disabled = ucast (drop_bit 4 v), pde_accessed = ucast (drop_bit 5 v),
     pde_reserved = ucast (drop_bit 6 v), pde_page_size = ucast (drop_bit 7 v),
     pde_global = ucast (drop_bit 8 v), pde_avail = ucast (drop_bit 9 v),
     pde_page_table_base = ucast (drop_bit 12 v)\<rparr>"

definition PTE_val :: "PTE_t \<Rightarrow> u32" where
  "PTE_val e = ucast (pte_present e) OR push_bit 1 (ucast (pte_read_write e))
     OR push_bit 2 (ucast (pte_user_super e)) OR push_bit 3 (ucast (pte_write_through e))
     OR push_bit 4 (ucast (pte_cache_disabled e)) OR push_bit 5 (ucast (pte_accessed e))
     OR push_bit 6 (ucast (pte_dirty e)) OR push_bit 7 (ucast (pte_page_table_attribute e))
     OR push_bit 8 (ucast (pte_global e)) OR push_bit 9 (ucast (pte_avail e))
     OR push_bit 12 (ucast (pte_page_base e))"

text \<open>The macros that set an entry.\<close>

definition SET_PDE_4MB_PAGE :: "PDE_t \<Rightarrow> u32 \<Rightarrow> PDE_t" where
  "SET_PDE_4MB_PAGE str addr = str\<lparr>pde_page_table_base := ucast (drop_bit 12 (addr AND 0xFFC00000)),
     pde_page_size := 1, pde_accessed := 0, pde_present := 1\<rparr>"

definition SET_PDE_4KB_PT :: "PDE_t \<Rightarrow> u32 \<Rightarrow> PDE_t" where
  "SET_PDE_4KB_PT str addr = str\<lparr>pde_page_table_base := ucast (drop_bit 12 (addr AND 0xFFFFF000)),
     pde_page_size := 0, pde_accessed := 0, pde_present := 1\<rparr>"

definition SET_PTE :: "PTE_t \<Rightarrow> u32 \<Rightarrow> PTE_t" where
  "SET_PTE str addr = str\<lparr>pte_page_base := ucast (drop_bit 12 (addr AND 0xFFFFF000)),
     pte_accessed := 0, pte_present := 1\<rparr>"

section \<open>State\<close>

text \<open>\<open>cur_PD\<close> and \<open>CR3\<close> point to one of the directories; \<open>None\<close> is the NULL pointer.\<close>

record paging =
  PD :: "nat \<Rightarrow> nat \<Rightarrow> PDE_t"
  PT :: "nat \<Rightarrow> nat \<Rightarrow> PTE_t"
  PGRM_PAGE :: "nat \<Rightarrow> u32"
  PDE_default :: PDE_t
  PTE_default :: PTE_t
  cur_PD :: "nat option"
  cr0 :: u32
  cr3 :: "nat option"
  cr4 :: u32

definition PT_addr :: "u32 \<Rightarrow> nat \<Rightarrow> u32" where
  "PT_addr pt_base i = pt_base + 4096 * of_nat i"

definition set_PG :: "paging \<Rightarrow> paging" where
  "set_PG p = p\<lparr>cr0 := cr0 p OR 0x80000000\<rparr>"

definition set_PSE :: "paging \<Rightarrow> paging" where
  "set_PSE p = p\<lparr>cr4 := cr4 p OR 0x10\<rparr>"

definition set_PGE :: "paging \<Rightarrow> paging" where
  "set_PGE p = p\<lparr>cr4 := cr4 p OR 0x80\<rparr>"

definition set_PDBR :: "nat option \<Rightarrow> paging \<Rightarrow> paging" where
  "set_PDBR pd p = p\<lparr>cr3 := pd\<rparr>"

definition get_PDE_offset :: "u32 \<Rightarrow> u32" where
  "get_PDE_offset addr = drop_bit 22 (addr AND 0xFFC00000)"

definition get_PTE_offset :: "u32 \<Rightarrow> u32" where
  "get_PTE_offset addr = drop_bit 12 (addr AND 0x003FF000)"

definition get_Page_offset :: "u32 \<Rightarrow> u32" where
  "get_Page_offset addr = addr AND 0xFFF"

text \<open>Writing \<open>cur_PD[i]\<close> and \<open>PT[i][j]\<close>.\<close>

definition put_PDE :: "nat \<Rightarrow> PDE_t \<Rightarrow> paging \<Rightarrow> paging" where
  "put_PDE i e p =
     (case cur_PD p of None \<Rightarrow> p | Some d \<Rightarrow> p\<lparr>PD := (PD p)(d := (PD p d)(i := e))\<rparr>)"

definition put_PTE :: "nat \<Rightarrow> nat \<Rightarrow> PTE_t \<Rightarrow> paging \<Rightarrow> paging" where
  "put_PTE t i e p = p\<lparr>PT := (PT p)(t := (PT p t)(i := e))\<rparr>"

section \<open>Operations\<close>

definition zero_PDE :: PDE_t where
  "zero_PDE = \<lparr>pde_present = 0, pde_read_write = 0, pde_user_super = 0, pde_write_through = 0,
     pde_cache_disabled = 0, pde_accessed = 0, pde_reserved = 0, pde_page_size = 0, pde_global = 0,
     pde_avail = 0, pde_page_table_base = 0\<rparr>"

definition zero_PTE :: PTE_t where
  "zero_PTE = \<lparr>pte_present = 0, pte_read_write = 0, pte_user_super = 0, pte_write_through = 0,
     pte_cache_disabled = 0, pte_accessed = 0, pte_dirty = 0, pte_page_table_attribute = 0,
     pte_global = 0, pte_avail = 0, pte_page_base = 0\<rparr>"

definition map_4MB_page :: "u32 \<Rightarrow> u32 \<Rightarrow> u32 \<Rightarrow> u32 \<Rightarrow> paging \<Rightarrow> paging" where
  "map_4MB_page vir_addr phys_addr user_super read_write p =
     (let PDE = PDE_default p;
          PD_offset = get_PDE_offset vir_addr;
          PDE = PDE\<lparr>pde_user_super := ucast user_super\<rparr>;
          PDE = PDE\<lparr>pde_read_write := ucast read_write\<rparr>;
          PDE = SET_PDE_4MB_PAGE PDE phys_addr
      in put_PDE (unat PD_offset) PDE p)"

definition init_PD :: "u32 \<Rightarrow> paging \<Rightarrow> paging" where
  "init_PD pt_base p =
     (let p = p\<lparr>PDE_default := zero_PDE\<rparr>;
          p = fold (\<lambda>i p. p\<lparr>PD := (PD p)(0 := (PD p 0)(i := PDE_default p))\<rparr>) [0..<NUM_PDE] p;
          p = p\<lparr>cur_PD := Some 0\<rparr>;
          video_offset = get_PDE_offset VIDEO_MEM;
          PDE_video = PDE_default p;
          PDE_video = PDE_video\<lparr>pde_global := 1\<rparr>;
          PDE_video = PDE_video\<lparr>pde_read_write := 1\<rparr>;
          PDE_video = SET_PDE_4KB_PT PDE_video (PT_addr pt_base 0);
          p = put_PDE (unat video_offset) PDE_video p;
          kernel_offset = get_PDE_offset KERNEL_MEM;
          PDE_kernel = PDE_default p;
          PDE_kernel = PDE_kernel\<lparr>pde_global := 1\<rparr>;
          PDE_kernel = PDE_kernel\<lparr>pde_read_write := 1\<rparr>;
          PDE_kernel = SET_PDE_4MB_PAGE PDE_kernel KERNEL_MEM;
          p = put_PDE (unat kernel_offset) PDE_kernel p;
          p = set_PDBR (cur_PD p) p
      in fold (\<lambda>j p. fold (\<lambda>k p. p\<lparr>PD := (PD p)(j := (PD p j)(k := PD p 0 k))\<rparr>) [0..<NUM_PDE] p)
           [1..<NUM_PD] p)"

definition init_VIDEO_PT :: "paging \<Rightarrow> paging" where
  "init_VIDEO_PT p =
     (let p = p\<lparr>PTE_default := zero_PTE\<rparr>;
          p = fold (\<lambda>i p. fold (\<lambda>j p. put_PTE i j (PTE_default p) p) [0..<NUM_PTE] p) [0..<NUM_PT] p;
          offset = get_PTE_offset VIDEO_MEM;
          PTE_video = PTE_default p;
          PTE_video = PTE_video\<lparr>pte_global := 1\<rparr>;
          PTE_video = PTE_video\<lparr>pte_read_write := 1\<rparr>;
          PTE_video = SET_PTE PTE_video VIDEO_MEM
      in put_PTE 0 (unat offset) PTE_video p)"

definition init_paging :: "u32 \<Rightarrow> paging \<Rightarrow> paging" where
  "init_paging pt_base p =
     (let p = fold (\<lambda>i p. p\<lparr>PGRM_PAGE := (PGRM_PAGE p)(i := PAGE1 + of_nat i * PAGE_SIZE)\<rparr>) [0..<NUM_PD] p;
          p = init_PD pt_base p;
          p = init_VIDEO_PT p;
          p = set_PSE p;
          p = set_PG p
      in set_PGE p)"

text \<open>The pointer \<open>task_mem_init\<close> returns, \<open>None\<close> for NULL.\<close>

definition task_mem_init :: "u32 \<Rightarrow> paging \<Rightarrow> paging \<times> nat option" where
  "task_mem_init PID p =
     (if PID < 0 \<or> PID > 6 then (p, None)
      else (let p = p\<lparr>cur_PD := Some (unat PID)\<rparr>;
                p = map_4MB_page PGRM_IMG (PGRM_PAGE p (unat PID)) 1 1 p;
                p = set_PDBR (cur_PD p) p
            in (p, cur_PD p)))"

definition user_vidmap :: "u32 \<Rightarrow> paging \<Rightarrow> paging \<times> u32" where
  "user_vidmap pt_base p =
     (let PT_index = unat (get_PTE_offset USER_VID);
          p = (if pte_present (PT p 1 PT_index) = 0
               then (let PTE_video = PTE_default p;
                         PTE_video = PTE_video\<lparr>pte_user_super := 1\<rparr>;
                         PTE_video = PTE_video\<lparr>pte_read_write := 1\<rparr>;
                         PTE_video = SET_PTE PTE_video VIDEO_MEM
                     in put_PTE 1 PT_index PTE_video p)
               else p);
          PD_index = unat (get_PDE_offset USER_VID);
          p = (case cur_PD p of
                 None \<Rightarrow> p
               | Some d \<Rightarrow>
                   if pde_present (PD p d PD_index) = 0
                   then (let PDE_video = PDE_default p;
                             PDE_video = PDE_video\<lparr>pde_user_super := 1\<rparr>;
                             PDE_video = PDE_video\<lparr>pde_read_write := 1\<rparr>;
                             PDE_video = SET_PDE_4KB_PT PDE_video (PT_addr pt_base 1)
                         in put_PDE PD_index PDE_video p)
                   else p)
      in (p, USER_VID))"

definition get_curr_PD :: "paging \<Rightarrow> nat option" where
  "get_curr_PD p = cur_PD p"

section \<open>Entries as 32-bit values\<close>

lemma less_32_cases:
  "(n :: nat) < 32 \<Longrightarrow> n \<in> {0, 1, 2, 3, 4, 5, 6, 7, 8, 9, 10, 11} \<or> (\<exists>k < 20. n = k + 12)"
proof -
  assume n: "n < 32"
  have "n < 12 \<Longrightarrow> n \<in> {0, 1, 2, 3, 4, 5, 6, 7, 8, 9, 10, 11}"
    by (simp add: numeral_eq_Suc less_Suc_eq)
  moreover have "\<not> n < 12 \<Longrightarrow> \<exists>k < 20. n = k + 12" using n by (intro exI [of _ "n - 12"]) auto
  ultimately show ?thesis by blast
qed

lemma bit_1word: "n \<noteq> 0 \<Longrightarrow> \<not> bit (x :: 1 word) n"
  by (auto dest: bit_imp_le_length)

lemma bit_3word: "3 \<le> n \<Longrightarrow> \<not> bit (x :: 3 word) n"
  by (auto dest: bit_imp_le_length)

lemma bit_PDE_val:
  "bit (PDE_val e) 0 = bit (pde_present e) 0" "bit (PDE_val e) 1 = bit (pde_read_write e) 0"
  "bit (PDE_val e) 2 = bit (pde_user_super e) 0" "bit (PDE_val e) 3 = bit (pde_write_through e) 0"
  "bit (PDE_val e) 4 = bit (pde_cache_disabled e) 0" "bit (PDE_val e) 5 = bit (pde_accessed e) 0"
  "bit (PDE_val e) 6 = bit (pde_reserved e) 0" "bit (PDE_val e) 7 = bit (pde_page_size e) 0"
  "bit (PDE_val e) 8 = bit (pde_global e) 0" "bit (PDE_val e) 9 = bit (pde_avail e) 0"
  "bit (PDE_val e) 10 = bit (pde_avail e) 1" "bit (PDE_val e) 11 = bit (pde_avail e) 2"
  "k < 20 \<Longrightarrow> bit (PDE_val e) (k + 12) = bit (pde_page_table_base e) k"
  by (simp_all add: PDE_val_def bit_simps bit_1word bit_3word del: push_bit_Suc)

lemma PDE_val_of_val: "PDE_val (PDE_of_val v) = v"
proof (rule bit_word_eqI)
  fix n assume "n < LENGTH(32)"
  then have "n \<in> {0, 1, 2, 3, 4, 5, 6, 7, 8, 9, 10, 11} \<or> (\<exists>k < 20. n = k + 12)"
    using less_32_cases by simp
  then show "bit (PDE_val (PDE_of_val v)) n = bit v n"
    by (elim disjE insertE emptyE exE conjE)
      (simp_all add: bit_PDE_val [unfolded One_nat_def] bit_PDE_val PDE_of_val_def bit_simps add.commute numeral_2_eq_2 [symmetric])
qed

lemma less_3_cases: "(n :: nat) < 3 \<Longrightarrow> n \<in> {0, 1, 2}"
  by auto

lemma PDE_of_val_val: "PDE_of_val (PDE_val e) = e"
proof -
  have one: "(ucast (drop_bit n v) :: 1 word) = x" if "bit v n = bit x 0" for x and v :: u32 and n
    using that by (intro bit_word_eqI) (simp add: bit_simps)
  have three: "(ucast (drop_bit 9 (PDE_val e)) :: 3 word) = pde_avail e"
  proof (rule bit_word_eqI)
    fix n assume "n < LENGTH(3)"
    then have "n \<in> {0, 1, 2}" using less_3_cases by simp
    then show "bit (ucast (drop_bit 9 (PDE_val e)) :: 3 word) n = bit (pde_avail e) n"
      by (elim insertE emptyE) (simp_all add: bit_simps bit_PDE_val)
  qed
  have base: "(ucast (drop_bit 12 (PDE_val e)) :: 20 word) = pde_page_table_base e"
    by (rule bit_word_eqI) (simp add: bit_simps bit_PDE_val(13) [symmetric] add.commute)
  show ?thesis
    using one [of "PDE_val e" 0 "pde_present e"]
    by (intro PDE_t.equality) (simp_all add: PDE_of_val_def three base one bit_PDE_val bit_PDE_val [unfolded One_nat_def])
qed

section \<open>Translation\<close>

text \<open>
  The physical address a directory gives a virtual one; \<open>user\<close> asks for a page user code may
  touch. A directory entry that is no 4 MB page refers to one of the page tables.
\<close>

definition pt_frame :: "u32 \<Rightarrow> nat \<Rightarrow> 20 word" where
  "pt_frame pt_base i = ucast (drop_bit 12 (PT_addr pt_base i AND 0xFFFFF000))"

definition walk :: "u32 \<Rightarrow> paging \<Rightarrow> nat \<Rightarrow> bool \<Rightarrow> u32 \<Rightarrow> u32 option" where
  "walk pt_base p d user v =
     (let pde = PD p d (unat (get_PDE_offset v))
      in if pde_present pde = 0 \<or> user \<and> pde_user_super pde = 0 then None
         else if pde_page_size pde = 1
         then Some (push_bit 22 (ucast (drop_bit 10 (pde_page_table_base pde))) OR (v AND 0x3FFFFF))
         else (case find (\<lambda>i. pt_frame pt_base i = pde_page_table_base pde) [0..<NUM_PT] of
                 None \<Rightarrow> None
               | Some t \<Rightarrow>
                   (let pte = PT p t (unat (get_PTE_offset v))
                    in if pte_present pte = 0 \<or> user \<and> pte_user_super pte = 0 then None
                       else Some (push_bit 12 (ucast (pte_page_base pte)) OR get_Page_offset v))))"

text \<open>The entries the code ever writes.\<close>

definition kernel_video_PDE :: "u32 \<Rightarrow> PDE_t" where
  "kernel_video_PDE pt_base = SET_PDE_4KB_PT (zero_PDE\<lparr>pde_global := 1, pde_read_write := 1\<rparr>) (PT_addr pt_base 0)"

definition kernel_PDE :: PDE_t where
  "kernel_PDE = SET_PDE_4MB_PAGE (zero_PDE\<lparr>pde_global := 1, pde_read_write := 1\<rparr>) KERNEL_MEM"

definition user_video_PDE :: "u32 \<Rightarrow> PDE_t" where
  "user_video_PDE pt_base = SET_PDE_4KB_PT (zero_PDE\<lparr>pde_user_super := 1, pde_read_write := 1\<rparr>) (PT_addr pt_base 1)"

definition program_PDE :: "nat \<Rightarrow> PDE_t" where
  "program_PDE d = SET_PDE_4MB_PAGE (zero_PDE\<lparr>pde_user_super := 1, pde_read_write := 1\<rparr>)
     (PAGE1 + of_nat d * PAGE_SIZE)"

definition kernel_video_PTE :: PTE_t where
  "kernel_video_PTE = SET_PTE (zero_PTE\<lparr>pte_global := 1, pte_read_write := 1\<rparr>) VIDEO_MEM"

definition user_video_PTE :: PTE_t where
  "user_video_PTE = SET_PTE (zero_PTE\<lparr>pte_user_super := 1, pte_read_write := 1\<rparr>) VIDEO_MEM"

definition PDE_ok :: "u32 \<Rightarrow> nat \<Rightarrow> nat \<Rightarrow> PDE_t \<Rightarrow> bool" where
  "PDE_ok pt_base d i e =
     (if i = 0 then e = kernel_video_PDE pt_base
      else if i = 1 then e = kernel_PDE
      else if i = 31 then e = zero_PDE \<or> e = user_video_PDE pt_base
      else if i = 32 then e = zero_PDE \<or> e = program_PDE d
      else e = zero_PDE)"

definition PTE_ok :: "nat \<Rightarrow> nat \<Rightarrow> PTE_t \<Rightarrow> bool" where
  "PTE_ok t i e =
     (if t = 0 \<and> i = 0xB8 then e = kernel_video_PTE
      else if t = 1 \<and> i = 0xB8 then e = zero_PTE \<or> e = user_video_PTE
      else e = zero_PTE)"

definition paging_inv :: "u32 \<Rightarrow> paging \<Rightarrow> bool" where
  "paging_inv pt_base p \<longleftrightarrow> PDE_default p = zero_PDE \<and> PTE_default p = zero_PTE
     \<and> (\<forall>d < NUM_PD. PGRM_PAGE p d = PAGE1 + of_nat d * PAGE_SIZE)
     \<and> (\<forall>d < NUM_PD. \<forall>i < NUM_PDE. PDE_ok pt_base d i (PD p d i))
     \<and> (\<forall>t < NUM_PT. \<forall>i < NUM_PTE. PTE_ok t i (PT p t i))
     \<and> (\<exists>d < NUM_PD. cur_PD p = Some d)"

lemma PDE_offsets:
  "get_PDE_offset VIDEO_MEM = 0" "get_PDE_offset KERNEL_MEM = 1" "get_PDE_offset USER_VID = 31"
  "get_PDE_offset PGRM_IMG = 32" "get_PTE_offset VIDEO_MEM = 0xB8" "get_PTE_offset USER_VID = 0xB8"
  by (simp_all add: get_PDE_offset_def get_PTE_offset_def drop_bit_numeral_minus_bit1)

section \<open>The loops of the initialisation\<close>

lemma fold_PGRM_PAGE:
  "fold (\<lambda>i p. p\<lparr>PGRM_PAGE := (PGRM_PAGE p)(i := f i)\<rparr>) [0..<n] p =
   p\<lparr>PGRM_PAGE := (\<lambda>i. if i < n then f i else PGRM_PAGE p i)\<rparr>"
  by (induction n) (auto intro!: paging.equality simp: fun_eq_iff)

lemma fold_PD0:
  "fold (\<lambda>i p. p\<lparr>PD := (PD p)(0 := (PD p 0)(i := PDE_default p))\<rparr>) [0..<n] p =
   p\<lparr>PD := (PD p)(0 := (\<lambda>i. if i < n then PDE_default p else PD p 0 i))\<rparr>"
  by (induction n) (auto intro!: paging.equality simp: fun_eq_iff)

lemma fold_PD_row:
  "j \<noteq> 0 \<Longrightarrow> fold (\<lambda>k p. p\<lparr>PD := (PD p)(j := (PD p j)(k := PD p 0 k))\<rparr>) [0..<n] p =
   p\<lparr>PD := (PD p)(j := (\<lambda>k. if k < n then PD p 0 k else PD p j k))\<rparr>"
  by (induction n) (auto intro!: paging.equality simp: fun_eq_iff)

lemma fold_PD_rows:
  "fold (\<lambda>j p. fold (\<lambda>k p. p\<lparr>PD := (PD p)(j := (PD p j)(k := PD p 0 k))\<rparr>) [0..<n] p) [1..<m] p =
   p\<lparr>PD := (\<lambda>j k. if 0 < j \<and> j < m \<and> k < n then PD p 0 k else PD p j k)\<rparr>"
proof (induction m)
  case (Suc m)
  show ?case
  proof (cases "m = 0")
    case False
    then have e: "[1..<Suc m] = [1..<m] @ [m]" by simp
    show ?thesis unfolding e fold_append comp_def Suc.IH
      using False by (simp add: fold_PD_row) (auto intro!: paging.equality simp: fun_eq_iff)
  qed (auto intro!: paging.equality simp: fun_eq_iff)
qed (auto intro!: paging.equality simp: fun_eq_iff)

lemma fold_PT_row:
  "fold (\<lambda>j p. put_PTE i j (PTE_default p) p) [0..<n] p =
   p\<lparr>PT := (PT p)(i := (\<lambda>j. if j < n then PTE_default p else PT p i j))\<rparr>"
  by (induction n) (auto intro!: paging.equality simp: put_PTE_def fun_eq_iff)

lemma fold_PT_rows:
  "fold (\<lambda>i p. fold (\<lambda>j p. put_PTE i j (PTE_default p) p) [0..<n] p) [0..<m] p =
   p\<lparr>PT := (\<lambda>i j. if i < m \<and> j < n then PTE_default p else PT p i j)\<rparr>"
  by (induction m) (auto intro!: paging.equality simp: fold_PT_row fun_eq_iff)

lemma put_PDE_cur: "cur_PD p = Some d \<Longrightarrow> put_PDE i e p = p\<lparr>PD := (PD p)(d := (PD p d)(i := e))\<rparr>"
  by (simp add: put_PDE_def)

lemma init_PD_eq:
  "init_PD pt_base p = p\<lparr>PDE_default := zero_PDE, cur_PD := Some 0, cr3 := Some 0,
     PD := (\<lambda>d i. if d < 7 \<and> i < 1024
       then (if i = 0 then kernel_video_PDE pt_base else if i = 1 then kernel_PDE else zero_PDE)
       else PD p d i)\<rparr>"
  unfolding init_PD_def Let_def fold_PD0 fold_PD_rows PDE_offsets
  by (auto intro!: paging.equality simp: put_PDE_cur set_PDBR_def fun_eq_iff kernel_video_PDE_def kernel_PDE_def)

lemma init_VIDEO_PT_eq:
  "init_VIDEO_PT p = p\<lparr>PTE_default := zero_PTE,
     PT := (\<lambda>t i. if t < 7 \<and> i < 1024
       then (if t = 0 \<and> i = 0xB8 then kernel_video_PTE else zero_PTE) else PT p t i)\<rparr>"
  unfolding init_VIDEO_PT_def Let_def fold_PT_rows PDE_offsets
  by (auto intro!: paging.equality simp: put_PTE_def fun_eq_iff kernel_video_PTE_def)

lemma init_paging_inv: "paging_inv pt_base (init_paging pt_base p)"
  by (auto simp: init_paging_def Let_def init_PD_eq init_VIDEO_PT_eq fold_PGRM_PAGE paging_inv_def
      set_PG_def set_PGE_def set_PSE_def PDE_ok_def PTE_ok_def)

section \<open>The invariant\<close>

lemma paging_inv_map:
  assumes "paging_inv pt_base p" and "d < NUM_PD"
  shows "paging_inv pt_base (map_4MB_page PGRM_IMG (PGRM_PAGE p d) 1 1 (p\<lparr>cur_PD := Some d\<rparr>))"
proof -
  have "map_4MB_page PGRM_IMG (PGRM_PAGE p d) 1 1 (p\<lparr>cur_PD := Some d\<rparr>)
    = p\<lparr>cur_PD := Some d, PD := (PD p)(d := (PD p d)(32 := program_PDE d))\<rparr>"
    using assms by (simp add: map_4MB_page_def Let_def PDE_offsets put_PDE_def paging_inv_def program_PDE_def)
  then show ?thesis using assms by (auto simp: paging_inv_def PDE_ok_def)
qed

lemma paging_inv_PDBR: "paging_inv pt_base (set_PDBR x p) \<longleftrightarrow> paging_inv pt_base p"
  by (simp add: paging_inv_def set_PDBR_def)

lemma task_mem_init_inv:
  assumes "paging_inv pt_base p"
  shows "paging_inv pt_base (fst (task_mem_init PID p))"
proof (cases "PID > 6")
  case False
  then have "unat PID < 7" by (simp add: word_less_nat_alt)
  then show ?thesis using False paging_inv_map [OF assms]
    by (simp add: task_mem_init_def Let_def paging_inv_PDBR)
qed (use assms in \<open>simp add: task_mem_init_def\<close>)

lemma user_vidmap_inv:
  assumes "paging_inv pt_base p"
  shows "paging_inv pt_base (fst (user_vidmap pt_base p))"
proof -
  obtain d where d: "cur_PD p = Some d" "d < 7" using assms by (auto simp: paging_inv_def)
  define p1 where "p1 = (if pte_present (PT p 1 0xB8) = 0 then put_PTE 1 0xB8 user_video_PTE p else p)"
  have p1: "paging_inv pt_base p1" "cur_PD p1 = Some d"
    using assms d by (auto simp: p1_def paging_inv_def put_PTE_def PTE_ok_def)
  have "fst (user_vidmap pt_base p) =
    (if pde_present (PD p1 d 31) = 0 then put_PDE 31 (user_video_PDE pt_base) p1 else p1)"
    using assms d by (auto simp: user_vidmap_def Let_def PDE_offsets p1_def put_PTE_def put_PDE_def
        paging_inv_def user_video_PTE_def user_video_PDE_def)
  then show ?thesis
    using p1 d(2) by (auto simp: put_PDE_def paging_inv_def PDE_ok_def)
qed

lemma user_vidmap_cur: "cur_PD (fst (user_vidmap pt_base p)) = cur_PD p"
  by (simp add: user_vidmap_def Let_def put_PDE_def put_PTE_def split: option.splits)

lemma task_mem_init_cur: "PID \<le> 6 \<Longrightarrow> cur_PD (fst (task_mem_init PID p)) = Some (unat PID)"
  by (simp add: task_mem_init_def Let_def map_4MB_page_def put_PDE_def set_PDBR_def not_le [symmetric])

text \<open>What can happen to the page tables once the kernel runs.\<close>

inductive paging_step :: "u32 \<Rightarrow> paging \<Rightarrow> paging \<Rightarrow> bool" for pt_base :: u32 where
  task_mem_init: "paging_step pt_base p (fst (task_mem_init PID p))"
| user_vidmap: "paging_step pt_base p (fst (user_vidmap pt_base p))"
| set_PDBR: "paging_step pt_base p (set_PDBR pd p)"

inductive paging_reach :: "u32 \<Rightarrow> paging \<Rightarrow> bool" for pt_base :: u32 where
  init: "paging_reach pt_base (init_paging pt_base p)"
| step: "paging_reach pt_base p \<Longrightarrow> paging_step pt_base p q \<Longrightarrow> paging_reach pt_base q"

lemma paging_reach_inv: "paging_reach pt_base p \<Longrightarrow> paging_inv pt_base p"
proof (induction rule: paging_reach.induct)
  case (init p)
  then show ?case by (rule init_paging_inv)
next
  case (step p q)
  from step.hyps(2) step.IH show ?case
    by cases (simp_all add: task_mem_init_inv user_vidmap_inv paging_inv_PDBR)
qed

section \<open>What the directories map\<close>

lemma paging_masks:
  "(0xFFC00000 :: u32) = push_bit 22 (mask 10)" "(0x3FF000 :: u32) = push_bit 12 (mask 10)"
  "(0xFFF :: u32) = mask 12" "(0xFFFFF000 :: u32) = push_bit 12 (mask 20)" "(0x3FFFFF :: u32) = mask 22"
  by (simp_all add: mask_eq_exp_minus_1)

lemma unat_PDE_offset: "unat (get_PDE_offset v) = unat v div 4194304"
proof -
  have "get_PDE_offset v = drop_bit 22 v"
    unfolding get_PDE_offset_def paging_masks
    by (rule bit_word_eqI) (auto simp: bit_simps dest: bit_imp_le_length)
  then show ?thesis by (simp add: drop_bit_eq_div unat_div)
qed

lemma PDE_offset_less: "unat (get_PDE_offset v) < 1024"
  using unat_lt32 [of v] by (simp add: unat_PDE_offset less_mult_imp_div_less)

lemma unat_PTE_offset: "unat (get_PTE_offset v) = unat v mod 4194304 div 4096"
proof -
  have "get_PTE_offset v = drop_bit 12 (take_bit 22 v)"
    unfolding get_PTE_offset_def paging_masks
    by (rule bit_word_eqI) (auto simp: bit_simps dest: bit_imp_le_length)
  then show ?thesis
    by (simp add: drop_bit_eq_div take_bit_eq_mod unat_div unat_mod)
qed

lemma PTE_offset_less: "unat (get_PTE_offset v) < 1024"
  by (simp add: unat_PTE_offset less_mult_imp_div_less)

text \<open>An address split as the code splits it, and put together again.\<close>

lemma address_parts:
  "push_bit 22 (get_PDE_offset v) OR push_bit 12 (get_PTE_offset v) OR get_Page_offset v = v"
proof (rule bit_word_eqI)
  fix n
  show "bit (push_bit 22 (get_PDE_offset v) OR push_bit 12 (get_PTE_offset v) OR get_Page_offset v) n = bit v n"
    unfolding get_PDE_offset_def get_PTE_offset_def get_Page_offset_def paging_masks
    by (cases "22 \<le> n") (auto simp: bit_simps dest: bit_imp_le_length)
qed

lemma frame_4MB:
  "push_bit 22 (ucast (drop_bit 10 (ucast (drop_bit 12 (a AND 0xFFC00000 :: u32)) :: 20 word)))
   = a AND 0xFFC00000"
  unfolding paging_masks by (rule bit_word_eqI) (auto simp: bit_simps dest: bit_imp_le_length)

lemma frame_4KB:
  "push_bit 12 (ucast (ucast (drop_bit 12 (a AND 0xFFFFF000 :: u32)) :: 20 word)) = a AND 0xFFFFF000"
  unfolding paging_masks by (rule bit_word_eqI) (auto simp: bit_simps dest: bit_imp_le_length)

lemma or_4MB: "(a AND 0xFFC00000) OR (v AND 0x3FFFFF) = (a AND 0xFFC00000) + (v AND 0x3FFFFF :: u32)"
  unfolding paging_masks by (subst disjunctive_add) (auto simp: bit_simps)

lemma or_4KB: "(a AND 0xFFFFF000) OR (v AND 0xFFF) = (a AND 0xFFFFF000) + (v AND 0xFFF :: u32)"
  unfolding paging_masks by (subst disjunctive_add) (auto simp: bit_simps)

lemma unat_low: "unat (v AND 0x3FFFFF :: u32) = unat v mod 4194304" "unat (v AND 0xFFF :: u32) = unat v mod 4096"
  unfolding paging_masks by (simp_all flip: take_bit_eq_mask add: take_bit_eq_mod unat_mod)

lemma low_part:
  assumes "unat l = unat v mod n" and "unat v div n = k"
  shows "(l :: u32) = v - of_nat (n * k)"
proof -
  have "unat v = n * k + unat l" using assms by auto
  then have "(of_nat (unat v) :: u32) = of_nat (n * k + unat l)" by (rule arg_cong)
  moreover have "of_nat (unat x) = x" for x :: u32 by simp
  ultimately have "v = of_nat (n * k) + l" by (simp only: of_nat_add)
  then show ?thesis by (simp only: add_diff_cancel_left')
qed

lemmas low_4MB = low_part [OF unat_low(1)]
lemmas low_4KB = low_part [OF unat_low(2)]

lemma in_range_div:
  assumes "0 < n" and "n * Suc k \<le> 4294967296"
  shows "in_range (of_nat (n * k)) n v \<longleftrightarrow> unat v div n = k"
proof -
  have lt: "n * k < 4294967296" using assms by simp
  then have u: "unat (of_nat (n * k) :: u32) = n * k" by (rule unat_of_nat32)
  show ?thesis
  proof
    assume "unat v div n = k"
    then have "n * k \<le> unat v" "unat v < n * k + n"
      using assms(1) using dividend_less_times_div [of n "unat v"] by auto
    then show "in_range (of_nat (n * k)) n v"
      unfolding in_range_def by (simp add: unat_sub_if' u del: of_nat_mult)
  next
    assume "in_range (of_nat (n * k)) n v"
    then have "n * k \<le> unat v \<and> unat v < n * k + n"
      unfolding in_range_def using assms(2) unat_lt32 [of v] by (simp add: unat_sub_if' u del: of_nat_mult split: if_splits)
    then show "unat v div n = k"
      using assms(1) by (intro div_nat_eqI) (simp_all add: mult.commute)
  qed
qed

lemma find_pt_frame:
  "find (\<lambda>i. pt_frame pt_base i = pt_frame pt_base 0) [0..<NUM_PT] = Some 0"
  "find (\<lambda>i. pt_frame pt_base i = pt_frame pt_base 1) [0..<NUM_PT] = Some 1"
proof -
  show "find (\<lambda>i. pt_frame pt_base i = pt_frame pt_base 0) [0..<NUM_PT] = Some 0"
    by (simp add: upt_rec)
  have "pt_frame pt_base 0 \<noteq> pt_frame pt_base 1"
  proof
    assume eq: "pt_frame pt_base 0 = pt_frame pt_base 1"
    have "pt_base AND 0xFFFFF000 = (pt_base + 4096) AND 0xFFFFF000"
      using arg_cong [OF eq, of "\<lambda>w. push_bit 12 (ucast w) :: u32"]
      unfolding pt_frame_def PT_addr_def frame_4KB by simp
    moreover have "(pt_base AND 0xFFF) = (pt_base + 4096) AND 0xFFF"
      by (rule word_unat_eq_iff [THEN iffD2]) (simp add: unat_low unat_word_ariths mod_mod_cancel)
    moreover have "x = (x AND 0xFFFFF000) + (x AND 0xFFF)" for x :: u32
      unfolding or_4KB [symmetric] unfolding paging_masks
      by (rule bit_word_eqI) (auto simp: bit_simps dest: bit_imp_le_length)
    ultimately have "pt_base = pt_base + 4096" by metis
    then show False by simp
  qed
  then show "find (\<lambda>i. pt_frame pt_base i = pt_frame pt_base 1) [0..<NUM_PT] = Some 1"
    by (simp add: upt_rec)
qed

lemma hi_4MB: "unat (x :: u32) mod 4194304 = 0 \<Longrightarrow> x AND 0xFFC00000 = x"
proof -
  assume "unat x mod 4194304 = 0"
  then have "unat (x AND 0x3FFFFF) = 0" by (simp only: unat_low)
  moreover have "x = (x AND 0xFFC00000) + (x AND 0x3FFFFF)"
    unfolding or_4MB [symmetric] unfolding paging_masks
    by (rule bit_word_eqI) (auto simp: bit_simps dest: bit_imp_le_length)
  ultimately show ?thesis by (simp add: unat_eq_0)
qed

lemma walk_4MB:
  assumes "PD p d (unat (get_PDE_offset v)) = SET_PDE_4MB_PAGE e addr" and "unat addr mod 4194304 = 0"
    and "user \<Longrightarrow> pde_user_super e = 1"
  shows "walk pt_base p d user v = Some (addr + (v AND 0x3FFFFF))"
  using assms or_4MB [of addr v] frame_4MB [of addr]
  by (auto simp: walk_def SET_PDE_4MB_PAGE_def hi_4MB Let_def)

lemma walk_4KB:
  assumes "PD p d (unat (get_PDE_offset v)) = SET_PDE_4KB_PT e (PT_addr pt_base t)" and "t = 0 \<or> t = 1"
    and "PT p t (unat (get_PTE_offset v)) = SET_PTE e' addr" and "addr AND 0xFFFFF000 = addr"
    and "user \<Longrightarrow> pde_user_super e = 1 \<and> pte_user_super e' = 1"
  shows "walk pt_base p d user v = Some (addr + (v AND 0xFFF))"
proof -
  have "pde_page_table_base (PD p d (unat (get_PDE_offset v))) = pt_frame pt_base t"
    by (simp add: assms(1) SET_PDE_4KB_PT_def pt_frame_def)
  then show ?thesis
    using assms or_4KB [of addr v] frame_4KB [of addr] find_pt_frame [of pt_base]
    by (auto simp: walk_def SET_PDE_4KB_PT_def SET_PTE_def get_Page_offset_def Let_def)
qed

lemma walk_zero_PTE:
  assumes "PD p d (unat (get_PDE_offset v)) = SET_PDE_4KB_PT e (PT_addr pt_base t)" and "t = 0 \<or> t = 1"
    and "user \<and> pde_user_super e = 0 \<or> PT p t (unat (get_PTE_offset v)) = zero_PTE"
  shows "walk pt_base p d user v = None"
proof -
  have "pde_page_table_base (PD p d (unat (get_PDE_offset v))) = pt_frame pt_base t"
    by (simp add: assms(1) SET_PDE_4KB_PT_def pt_frame_def)
  then show ?thesis
    using assms find_pt_frame [of pt_base]
    by (auto simp: walk_def SET_PDE_4KB_PT_def zero_PTE_def Let_def)
qed

lemma walk_zero_PDE: "PD p d (unat (get_PDE_offset v)) = zero_PDE \<Longrightarrow> walk pt_base p d user v = None"
  by (simp add: walk_def zero_PDE_def)

lemma walk_not_user: "pde_user_super (PD p d (unat (get_PDE_offset v))) = 0 \<Longrightarrow> walk pt_base p d True v = None"
  by (simp add: walk_def Let_def)

lemma in_4MB: "in_range 0x8000000 4194304 v \<longleftrightarrow> unat v div 4194304 = 32"
  "in_range 0x400000 4194304 v \<longleftrightarrow> unat v div 4194304 = 1"
  using in_range_div [of 4194304 32 v] in_range_div [of 4194304 1 v] by simp_all

lemma in_4KB: "in_range 0x7CB8000 4096 v \<longleftrightarrow> unat v div 4096 = 31928"
  "in_range 0xB8000 4096 v \<longleftrightarrow> unat v div 4096 = 184"
  using in_range_div [of 4096 31928 v] in_range_div [of 4096 184 v] by simp_all

lemma program_page_addr:
  "d < 7 \<Longrightarrow> unat (PAGE1 + of_nat d * PAGE_SIZE) = 4194304 * (d + 2)"
proof -
  assume "d < 7"
  have "PAGE1 + of_nat d * PAGE_SIZE = of_nat (4194304 * (d + 2))" by simp
  then show ?thesis using \<open>d < 7\<close> by (simp only: unat_of_nat32) (subst unat_of_nat32, simp_all)
qed

lemma page_of_offsets:
  "unat v div 4096 = 1024 * (unat v div 4194304) + unat v mod 4194304 div 4096"
proof -
  have e: "(r + 4096 * q) div 4096 = q + r div 4096" for r q :: nat by simp
  have "unat v = unat v mod 4194304 + 4096 * (1024 * (unat v div 4194304))" by simp
  then show ?thesis using e [of "unat v mod 4194304" "1024 * (unat v div 4194304)"] by metis
qed

text \<open>Everything user code can reach.\<close>

lemma walk_user:
  assumes inv: "paging_inv pt_base p" and d: "d < NUM_PD" and w: "walk pt_base p d True v = Some a"
  shows "in_range 0x8000000 0x400000 v \<and> a = PAGE1 + of_nat d * PAGE_SIZE + (v - 0x8000000)
    \<or> in_range USER_VID 0x1000 v \<and> a = VIDEO_MEM + (v - USER_VID)"
proof -
  define i where "i = unat (get_PDE_offset v)"
  have ok: "PDE_ok pt_base d i (PD p d i)"
    using inv d PDE_offset_less unfolding paging_inv_def i_def by blast
  have i: "i = unat v div 4194304" by (simp add: i_def unat_PDE_offset)
  from ok w consider "i = 31" "PD p d i = user_video_PDE pt_base" | "i = 32" "PD p d i = program_PDE d"
    using walk_zero_PDE [of p d v pt_base True] walk_not_user [of p d v pt_base]
    by (auto simp: PDE_ok_def i_def [symmetric] kernel_video_PDE_def kernel_PDE_def SET_PDE_4KB_PT_def
        SET_PDE_4MB_PAGE_def zero_PDE_def split: if_splits)
  then show ?thesis
  proof cases
    case 2
    have "walk pt_base p d True v = Some (PAGE1 + of_nat d * PAGE_SIZE + (v AND 0x3FFFFF))"
      by (rule walk_4MB [of _ _ _ "zero_PDE\<lparr>pde_user_super := 1, pde_read_write := 1\<rparr>"])
        (use 2 d in \<open>simp_all add: i_def program_PDE_def program_page_addr\<close>)
    then show ?thesis using w low_4MB [of v 32] 2(1) i by (simp add: in_4MB)
  next
    case 1
    define j where "j = unat (get_PTE_offset v)"
    have ptok: "PTE_ok 1 j (PT p 1 j)"
      using inv PTE_offset_less unfolding paging_inv_def j_def by auto
    have pd: "PD p d (unat (get_PDE_offset v)) = SET_PDE_4KB_PT
        (zero_PDE\<lparr>pde_user_super := 1, pde_read_write := 1\<rparr>) (PT_addr pt_base 1)"
      using 1 by (simp add: i_def user_video_PDE_def)
    have pj: "PT p 1 j = user_video_PTE \<and> j = 184"
      using ptok w walk_zero_PTE [OF pd, of True] by (auto simp: PTE_ok_def j_def [symmetric] split: if_splits)
    then have j: "unat v mod 4194304 div 4096 = 184" by (simp add: j_def unat_PTE_offset)
    have page: "unat v div 4096 = 31928"
      using page_of_offsets [of v] j 1(1) i by simp
    have "walk pt_base p d True v = Some (VIDEO_MEM + (v AND 0xFFF))"
      by (rule walk_4KB [OF pd _ pj [THEN conjunct1, unfolded j_def user_video_PTE_def]]) simp_all
    then show ?thesis using w low_4KB [OF page] page by (simp add: in_4KB)
  qed
qed

lemma program_page_range:
  assumes "d < 7" and "in_range 0x8000000 0x400000 v"
  shows "in_range (PAGE1 + of_nat d * PAGE_SIZE) 0x400000 (PAGE1 + of_nat d * PAGE_SIZE + (v - 0x8000000))"
  using assms(2) by (simp add: in_range_def)

lemma program_pages_disjoint:
  assumes "d < 7" and "e < 7" and "in_range (PAGE1 + of_nat d * PAGE_SIZE) 0x400000 a"
    and "in_range (PAGE1 + of_nat e * PAGE_SIZE) 0x400000 a"
  shows "d = e"
proof -
  have r: "PAGE1 + of_nat k * PAGE_SIZE = (of_nat (4194304 * (k + 2)) :: u32)" for k
    by (simp add: algebra_simps)
  have "unat a div 4194304 = k + 2" if "k < 7" "in_range (PAGE1 + of_nat k * PAGE_SIZE) 0x400000 a" for k
    using in_range_div [of 4194304 "k + 2" a] that unfolding r by simp
  from this [OF assms(1,3)] this [OF assms(2,4)] show ?thesis by simp
qed

lemma video_not_program:
  assumes "d < 7" and "in_range (PAGE1 + of_nat d * PAGE_SIZE) 0x400000 a" and "in_range VIDEO_MEM 0x1000 a"
  shows False
proof -
  have r: "PAGE1 + of_nat d * PAGE_SIZE = (of_nat (4194304 * (d + 2)) :: u32)"
    by (simp add: algebra_simps)
  have "unat a div 4194304 = d + 2"
    using in_range_div [of 4194304 "d + 2" a] assms(1,2) unfolding r by simp
  moreover have "unat a div 4096 = 184" using assms(3) by (simp add: in_4KB)
  ultimately show False using page_of_offsets [of a] by simp
qed

lemma video_page_range: "in_range USER_VID 0x1000 v \<Longrightarrow> in_range VIDEO_MEM 0x1000 (VIDEO_MEM + (v - USER_VID))"
  by (simp add: in_range_def)

text \<open>What user code reaches is outside of the kernel's 4 MB, and video memory only through its own page.\<close>

lemma user_reach:
  assumes "paging_inv pt_base p" and "d < NUM_PD" and "walk pt_base p d True u = Some a"
  shows "\<not> in_range KERNEL_MEM 0x400000 a \<and> (in_range VIDEO_MEM 0x1000 a \<longrightarrow> in_range USER_VID 0x1000 u)"
  using walk_user [OF assms]
proof
  assume u: "in_range 0x8000000 0x400000 u \<and> a = PAGE1 + of_nat d * PAGE_SIZE + (u - 0x8000000)"
  have page: "PAGE1 + of_nat d * PAGE_SIZE = (of_nat (4194304 * (d + 2)) :: u32)" by (simp add: algebra_simps)
  have "in_range (PAGE1 + of_nat d * PAGE_SIZE) 0x400000 a" using program_page_range [OF assms(2), of u] u by simp
  then have "unat a div 4194304 = d + 2"
    using in_range_div [of 4194304 "d + 2" a] assms(2) unfolding page by simp
  then have "unat a div 4194304 \<noteq> 1" "unat a div 4096 \<noteq> 184" by (simp, linarith)
  then show ?thesis by (simp add: in_4MB in_4KB)
next
  assume u: "in_range USER_VID 0x1000 u \<and> a = VIDEO_MEM + (u - USER_VID)"
  then have "unat a div 4096 = 184" using video_page_range [of u] by (simp add: in_4KB)
  then have "unat a div 4194304 \<noteq> 1" by linarith
  then show ?thesis using u by (simp add: in_4MB)
qed

section \<open>Properties\<close>

text \<open>
  C4. Isolation: however the kernel has set up processes and mapped video memory since
  \<open>init_paging\<close>, a physical address that user code of two different processes can reach lies in
  the video page.
\<close>

theorem user_isolation:
  assumes "paging_reach pt_base p" and "d < NUM_PD" and "e < NUM_PD" and "d \<noteq> e"
    and "walk pt_base p d True v = Some a" and "walk pt_base p e True w = Some a"
  shows "in_range VIDEO_MEM 0x1000 a"
proof -
  note inv = paging_reach_inv [OF assms(1)]
  have reach: "in_range (PAGE1 + of_nat k * PAGE_SIZE) 0x400000 a \<or> in_range VIDEO_MEM 0x1000 a"
    if "k < 7" "walk pt_base p k True x = Some a" for k x
    using walk_user [OF inv that] program_page_range [OF that(1), of x] video_page_range [of x] by auto
  show ?thesis
    using reach [OF assms(2,5)] reach [OF assms(3,6)] program_pages_disjoint [OF assms(2,3)] assms(4) by blast
qed

definition sample_paging :: paging where
  "sample_paging = fst (user_vidmap 0x10000 (fst (task_mem_init 1 (fst (user_vidmap 0x10000
     (fst (task_mem_init 0 (init_paging 0x10000 \<lparr>PD = (\<lambda>_ _. zero_PDE), PT = (\<lambda>_ _. zero_PTE), PGRM_PAGE = (\<lambda>_. 0),
       PDE_default = zero_PDE, PTE_default = zero_PTE, cur_PD = None, cr0 = 1, cr3 = None, cr4 = 0\<rparr>))))))))"

lemma sample_paging_reach: "paging_reach 0x10000 sample_paging"
  unfolding sample_paging_def
  by (rule paging_reach.step [OF paging_reach.step [OF paging_reach.step [OF paging_reach.step
        [OF paging_reach.init paging_step.task_mem_init] paging_step.user_vidmap]
        paging_step.task_mem_init] paging_step.user_vidmap])

lemma sample_paging_video:
  "PD sample_paging 0 31 = user_video_PDE 0x10000" "PD sample_paging 1 31 = user_video_PDE 0x10000"
  "PT sample_paging 1 184 = user_video_PTE"
  by (simp_all add: sample_paging_def user_vidmap_def task_mem_init_def map_4MB_page_def init_paging_def Let_def
      init_PD_eq init_VIDEO_PT_eq fold_PGRM_PAGE PDE_offsets put_PDE_def put_PTE_def set_PDBR_def
      set_PG_def set_PGE_def set_PSE_def user_video_PDE_def user_video_PTE_def zero_PTE_def zero_PDE_def
      SET_PTE_def SET_PDE_4KB_PT_def SET_PDE_4MB_PAGE_def)

lemma walk_user_video:
  assumes "PD p d 31 = user_video_PDE pt_base" and "PT p 1 184 = user_video_PTE"
    and "in_range USER_VID 0x1000 v"
  shows "walk pt_base p d True v = Some (VIDEO_MEM + (v - USER_VID))"
proof -
  have page: "unat v div 4096 = 31928" using assms(3) by (simp add: in_4KB)
  have "q = 31 \<and> r = 184" if "1024 * q + r = 31928" "r < 1024" for q r :: nat
  proof -
    have "q < 32" and "30 < q" using that by linarith+
    then have "q = 31" by simp
    with that show ?thesis by simp
  qed
  from this [of "unat v div 4194304" "unat v mod 4194304 div 4096"]
  have "unat v div 4194304 = 31 \<and> unat v mod 4194304 div 4096 = 184"
    using page_of_offsets [of v] PTE_offset_less [of v] page by (simp add: unat_PTE_offset)
  then have off: "unat (get_PDE_offset v) = 31" "unat (get_PTE_offset v) = 184"
    by (simp_all add: unat_PDE_offset unat_PTE_offset)
  have pd: "PD p d (unat (get_PDE_offset v)) = user_video_PDE pt_base" by (simp only: off assms(1))
  have pt: "PT p 1 (unat (get_PTE_offset v)) = user_video_PTE" by (simp only: off assms(2))
  have "walk pt_base p d True v = Some (VIDEO_MEM + (v AND 0xFFF))"
    by (rule walk_4KB [OF pd [unfolded user_video_PDE_def] _ pt [unfolded user_video_PTE_def]]) simp_all
  then show ?thesis using low_4KB [OF page] by simp
qed

theorem user_isolation_witness:
  "in_range VIDEO_MEM 0x1000 (0xB8123 :: u32)"
proof (rule user_isolation [OF sample_paging_reach, of 0 1 "0x07CB8123" "0xB8123" "0x07CB8123"])
  show "walk 0x10000 sample_paging 0 True 0x07CB8123 = Some 0xB8123"
    using walk_user_video [OF sample_paging_video(1,3), of "0x07CB8123"] by (simp add: in_range_def)
  show "walk 0x10000 sample_paging 1 True 0x07CB8123 = Some 0xB8123"
    using walk_user_video [OF sample_paging_video(2,3), of "0x07CB8123"] by (simp add: in_range_def)
qed simp_all

lemma kernel_identity:
  assumes inv: "paging_inv pt_base p" and "d < NUM_PD"
    and "in_range KERNEL_MEM 0x400000 v \<or> in_range VIDEO_MEM 0x1000 v"
  shows "walk pt_base p d False v = Some v \<and> walk pt_base p d True v = None"
proof -
  consider "unat v div 4194304 = 1" | "unat v div 4096 = 184"
    using assms(3) by (auto simp: in_4MB in_4KB)
  then show ?thesis
  proof cases
    case 1
    then have off: "unat (get_PDE_offset v) = 1" by (simp add: unat_PDE_offset)
    then have pd: "PD p d (unat (get_PDE_offset v)) = kernel_PDE"
      using inv assms(2) by (auto simp: paging_inv_def PDE_ok_def)
    then have "walk pt_base p d False v = Some (KERNEL_MEM + (v AND 0x3FFFFF))"
      unfolding kernel_PDE_def by (rule walk_4MB) simp_all
    moreover have "walk pt_base p d True v = None"
      by (rule walk_not_user) (simp add: pd kernel_PDE_def SET_PDE_4MB_PAGE_def zero_PDE_def)
    ultimately show ?thesis using low_4MB [OF 1] by simp
  next
    case 2
    then have off: "unat (get_PDE_offset v) = 0" "unat (get_PTE_offset v) = 184"
      using page_of_offsets [of v] by (auto simp: unat_PDE_offset unat_PTE_offset)
    have pd: "PD p d (unat (get_PDE_offset v)) = kernel_video_PDE pt_base"
      using inv assms(2) off by (auto simp: paging_inv_def PDE_ok_def)
    have pt: "PT p 0 (unat (get_PTE_offset v)) = kernel_video_PTE"
      using inv off by (auto simp: paging_inv_def PTE_ok_def)
    have "walk pt_base p d False v = Some (VIDEO_MEM + (v AND 0xFFF))"
      by (rule walk_4KB [OF pd [unfolded kernel_video_PDE_def] _ pt [unfolded kernel_video_PTE_def]]) simp_all
    moreover have "walk pt_base p d True v = None"
      by (rule walk_not_user) (simp add: pd kernel_video_PDE_def SET_PDE_4KB_PT_def zero_PDE_def)
    ultimately show ?thesis using low_4KB [OF 2] by simp
  qed
qed

text \<open>
  C30. The kernel's page and video memory are mapped to themselves in every directory, for the
  kernel only: at these addresses user code faults. No address of user code leads into the kernel's 4 MB of physical
  memory, and none leads to the video memory other than those of the page that \<open>vidmap\<close> maps.
\<close>

theorem kernel_mapped:
  assumes "paging_reach pt_base p" and "d < NUM_PD"
    and "in_range KERNEL_MEM 0x400000 v \<or> in_range VIDEO_MEM 0x1000 v"
  shows "walk pt_base p d False v = Some v \<and> walk pt_base p d True v = None
    \<and> (\<forall>u a. walk pt_base p d True u = Some a \<longrightarrow>
         \<not> in_range KERNEL_MEM 0x400000 a \<and> (in_range VIDEO_MEM 0x1000 a \<longrightarrow> in_range USER_VID 0x1000 u))"
  using kernel_identity [OF paging_reach_inv [OF assms(1)] assms(2,3)] user_reach [OF paging_reach_inv [OF assms(1)] assms(2)]
  by blast

theorem kernel_mapped_witness:
  "walk 0x10000 sample_paging 3 False 0x412345 = Some 0x412345
   \<and> walk 0x10000 sample_paging 3 True 0x412345 = None"
  using kernel_mapped [OF sample_paging_reach, of 3 "0x412345"] by (simp add: in_range_def)

text \<open>
  C31. \<open>task_mem_init\<close> makes the process's directory current, in \<open>CR3\<close> too, and maps the 4 MB page
  that holds the program to the process's own physical page.
\<close>

theorem task_mem_init_spec:
  assumes "paging_reach pt_base p" and "PID \<le> 6" and "in_range 0x8000000 0x400000 v"
  shows "\<exists>q. task_mem_init PID p = (q, Some (unat PID)) \<and> cr3 q = Some (unat PID)
    \<and> cur_PD q = Some (unat PID)
    \<and> walk pt_base q (unat PID) True v = Some (PAGE1 + PID * PAGE_SIZE + (v - 0x8000000))"
proof -
  note inv = paging_reach_inv [OF assms(1)]
  have d: "unat PID < 7" and n: "\<not> PID > 6" using assms(2) by (auto simp: word_le_nat_alt word_less_nat_alt)
  have v: "unat v div 4194304 = 32" using assms(3) by (simp add: in_4MB)
  define q where "q = p\<lparr>cur_PD := Some (unat PID), cr3 := Some (unat PID),
    PD := (PD p)(unat PID := (PD p (unat PID))(32 := program_PDE (unat PID)))\<rparr>"
  have "task_mem_init PID p = (q, Some (unat PID))"
    using inv d n by (auto simp: task_mem_init_def Let_def map_4MB_page_def PDE_offsets put_PDE_def
        set_PDBR_def paging_inv_def program_PDE_def q_def intro!: paging.equality)
  moreover have "walk pt_base q (unat PID) True v = Some (PAGE1 + of_nat (unat PID) * PAGE_SIZE + (v AND 0x3FFFFF))"
    by (rule walk_4MB [of _ _ _ "zero_PDE\<lparr>pde_user_super := 1, pde_read_write := 1\<rparr>"])
      (use d v program_page_addr [OF d] in \<open>simp_all add: q_def unat_PDE_offset program_PDE_def\<close>)
  ultimately show ?thesis using low_4MB [OF v] by (intro exI [of _ q]) (simp add: q_def)
qed

theorem task_mem_init_spec_witness:
  "\<exists>q. task_mem_init 2 sample_paging = (q, Some 2) \<and> walk 0x10000 q 2 True 0x08048000 = Some 0x01048000"
  using task_mem_init_spec [OF sample_paging_reach, of 2 "0x08048000"] by (auto simp: in_range_def)

text \<open>
  \<open>user_vidmap\<close> returns \<open>USER_VID\<close> and maps that page to video memory for user code in the
  directory of the process that was set up last, \<open>cur_PD\<close>. It does not look at \<open>CR3\<close>: when
  another process is running, its directory is left as it was, so the address it is given is not
  mapped for it.
\<close>

lemma user_vidmap_spec:
  assumes "paging_reach pt_base p" and "cur_PD p = Some d" and "in_range USER_VID 0x1000 v"
  shows "\<exists>q. user_vidmap pt_base p = (q, USER_VID) \<and> walk pt_base q d True v = Some (VIDEO_MEM + (v - USER_VID))
    \<and> cr3 q = cr3 p \<and> PD q = (PD p)(d := (PD p d)(31 := user_video_PDE pt_base))"
proof -
  note inv = paging_reach_inv [OF assms(1)]
  then have d: "d < 7" using assms(2) by (auto simp: paging_inv_def)
  define q where "q = fst (user_vidmap pt_base p)"
  have ok: "PDE_ok pt_base d 31 (PD p d 31)" "PTE_ok 1 184 (PT p 1 184)"
    using inv d by (auto simp: paging_inv_def)
  have pd: "PD q = (PD p)(d := (PD p d)(31 := user_video_PDE pt_base))"
    and pt: "PT q 1 184 = user_video_PTE" and c: "cr3 q = cr3 p"
    using inv d assms(2) ok
    by (auto simp: q_def user_vidmap_def Let_def PDE_offsets put_PTE_def put_PDE_def paging_inv_def
        PDE_ok_def PTE_ok_def zero_PTE_def zero_PDE_def user_video_PTE_def user_video_PDE_def SET_PTE_def
        SET_PDE_4KB_PT_def fun_eq_iff)
  have "walk pt_base q d True v = Some (VIDEO_MEM + (v - USER_VID))"
    by (rule walk_user_video) (simp_all add: pd pt [unfolded One_nat_def] assms(3))
  moreover have "user_vidmap pt_base p = (q, USER_VID)"
    unfolding q_def user_vidmap_def Let_def by simp
  ultimately show ?thesis using pd c by blast
qed

text \<open>
  The two views of a directory entry agree: packing the bit fields into 32 bits and reading
  them back gives the same fields, and every 32-bit value is the packing of its fields.
\<close>

lemma PDE_roundtrip: "PDE_of_val (PDE_val e) = e \<and> PDE_val (PDE_of_val v) = v"
  by (simp add: PDE_of_val_val PDE_val_of_val)

end
