(* ===== verification/Pic.thy ===== *)
theory Pic
  imports Ports
begin

text \<open>
  The 8259 interrupt controllers, \<open>i8259.c\<close>. The functions are sequences of port accesses;
  \<open>pic_run\<close> gives a trace its meaning for one controller as the 8259's data sheet documents it:
  the four initialization words, the mask register, and the end of interrupt command. The
  hypothesis \<open>reads_mask\<close>, used where the code reads a mask back, states that documented
  behaviour for a port read.
\<close>

section \<open>The driver\<close>

abbreviation (input) PIC1 :: u32 where "PIC1 \<equiv> 0x20"
abbreviation (input) PIC2 :: u32 where "PIC2 \<equiv> 0xA0"
abbreviation (input) PIC1_DATA :: u32 where "PIC1_DATA \<equiv> 0x21"
abbreviation (input) PIC2_DATA :: u32 where "PIC2_DATA \<equiv> 0xA1"
abbreviation (input) ICW1 :: u32 where "ICW1 \<equiv> 0x11"
abbreviation (input) ICW2_MASTER :: u32 where "ICW2_MASTER \<equiv> 0x20"
abbreviation (input) ICW2_SLAVE :: u32 where "ICW2_SLAVE \<equiv> 0x28"
abbreviation (input) ICW3_MASTER :: u32 where "ICW3_MASTER \<equiv> 0x04"
abbreviation (input) ICW3_SLAVE :: u32 where "ICW3_SLAVE \<equiv> 0x02"
abbreviation (input) ICW4 :: u32 where "ICW4 \<equiv> 0x01"
abbreviation (input) EOI :: u32 where "EOI \<equiv> 0x60"
abbreviation (input) GREATEST_IRQ :: u32 where "GREATEST_IRQ \<equiv> 8"

definition i8259_init :: "device \<Rightarrow> io \<Rightarrow> io" where
  "i8259_init dev s =
     (let (a1, s) = inb dev PIC1_DATA s;
          (a2, s) = inb dev PIC2_DATA s;
          s = outb ICW1 PIC1 s;
          s = outb ICW1 PIC2 s;
          s = outb ICW2_MASTER PIC1_DATA s;
          s = outb ICW2_SLAVE PIC2_DATA s;
          s = outb ICW3_MASTER PIC1_DATA s;
          s = outb ICW3_SLAVE PIC2_DATA s;
          s = outb ICW4 PIC1_DATA s;
          s = outb ICW4 PIC2_DATA s;
          s = outb a1 PIC1_DATA s;
          s = outb a2 PIC2_DATA s;
          s = outb 0xFB PIC1_DATA s
      in outb 0xFF PIC2_DATA s)"

text \<open>The x86 shift takes its count modulo 32; \<open>value\<close> is a byte.\<close>

definition irq_bit :: "u32 \<Rightarrow> u32" where
  "irq_bit n = push_bit (unat n mod 32) 1"

definition enable_irq :: "device \<Rightarrow> u32 \<Rightarrow> io \<Rightarrow> io" where
  "enable_irq dev irq_num s =
     (let (port, irq_num) = (if irq_num < GREATEST_IRQ then (PIC1_DATA, irq_num)
                             else (PIC2_DATA, irq_num - GREATEST_IRQ));
          (v, s) = inb dev port s;
          value = (ucast (v AND NOT (irq_bit irq_num)) :: u8)
      in outb (ucast value) port s)"

definition disable_irq :: "device \<Rightarrow> u32 \<Rightarrow> io \<Rightarrow> io" where
  "disable_irq dev irq_num s =
     (let (port, irq_num) = (if irq_num < GREATEST_IRQ then (PIC1_DATA, irq_num)
                             else (PIC2_DATA, irq_num - GREATEST_IRQ));
          (v, s) = inb dev port s;
          value = (ucast (v OR irq_bit irq_num) :: u8)
      in outb (ucast value) port s)"

definition send_eoi :: "u32 \<Rightarrow> io \<Rightarrow> io" where
  "send_eoi irq_num s =
     (if irq_num \<ge> GREATEST_IRQ
      then (let temp_irq_num = irq_num - GREATEST_IRQ;
                temp_eoi = (ucast (EOI OR temp_irq_num) :: u8);
                s = outb (ucast temp_eoi) PIC2 s
            in outb (EOI OR 2) PIC1 s)
      else (let temp_eoi = (ucast (EOI OR irq_num) :: u8)
            in outb (ucast temp_eoi) PIC1 s))"

definition init_keyboard :: "device \<Rightarrow> io \<Rightarrow> io" where
  "init_keyboard dev s = enable_irq dev 1 s"

section \<open>The controller\<close>

text \<open>
  One 8259: \<open>phase\<close> counts the initialization words it still expects (0 when it is ready), \<open>imr\<close>
  is the mask, \<open>isr\<close> the interrupts in service.
\<close>

datatype pic_phase = Ready | Wants_ICW2 | Wants_ICW3 | Wants_ICW4

record pic =
  phase :: pic_phase
  icw1 :: u8
  vector :: u8
  cascade :: u8
  mode :: u8
  imr :: u8
  isr :: u8

definition pic_command :: "u8 \<Rightarrow> pic \<Rightarrow> pic" where
  "pic_command v c =
     (if bit v 4 then c\<lparr>phase := Wants_ICW2, icw1 := v, imr := 0, isr := 0\<rparr>
      else if v AND 0xF8 = 0x60 then c\<lparr>isr := unset_bit (unat (v AND 7)) (isr c)\<rparr>
      else c)"

definition pic_data :: "u8 \<Rightarrow> pic \<Rightarrow> pic" where
  "pic_data v c =
     (let last = (if bit (icw1 c) 0 then Wants_ICW4 else Ready)
      in case phase c of
           Ready \<Rightarrow> c\<lparr>imr := v\<rparr>
         | Wants_ICW2 \<Rightarrow> c\<lparr>vector := v AND 0xF8, phase := (if bit (icw1 c) 1 then last else Wants_ICW3)\<rparr>
         | Wants_ICW3 \<Rightarrow> c\<lparr>cascade := v, phase := last\<rparr>
         | Wants_ICW4 \<Rightarrow> c\<lparr>mode := v, phase := Ready\<rparr>)"

fun pic_event :: "u16 \<Rightarrow> io_event \<Rightarrow> pic \<Rightarrow> pic" where
  "pic_event base (InB p) c = c"
| "pic_event base (OutB p v) c =
     (if p = base then pic_command v c else if p = base + 1 then pic_data v c else c)"

definition pic_run :: "pic \<Rightarrow> u16 \<Rightarrow> io_event list \<Rightarrow> pic" where
  "pic_run c base log = foldr (pic_event base) log c"

lemma pic_run_simps [simp]:
  "pic_run c base [] = c"
  "pic_run c base (e # log) = pic_event base e (pic_run c base log)"
  by (simp_all add: pic_run_def)

text \<open>The two controllers, started in any state \<open>c\<close>, and the interrupt line \<open>k\<close> of the pair.\<close>

definition pic_of :: "pic \<Rightarrow> io_event list \<Rightarrow> nat \<Rightarrow> pic" where
  "pic_of c log k = pic_run c (if k < 8 then 0x20 else 0xA0) log"

definition masked :: "pic \<Rightarrow> io_event list \<Rightarrow> nat \<Rightarrow> bool" where
  "masked c log k = bit (imr (pic_of c log k)) (k mod 8)"

definition in_service :: "pic \<Rightarrow> io_event list \<Rightarrow> nat \<Rightarrow> bool" where
  "in_service c log k = bit (isr (pic_of c log k)) (k mod 8)"

definition pics_ready :: "pic \<Rightarrow> io_event list \<Rightarrow> bool" where
  "pics_ready c log \<longleftrightarrow> phase (pic_run c 0x20 log) = Ready \<and> phase (pic_run c 0xA0 log) = Ready"

text \<open>Reading a ready controller's data port returns its mask.\<close>

definition reads_mask :: "pic \<Rightarrow> device \<Rightarrow> bool" where
  "reads_mask c dev \<longleftrightarrow> (\<forall>log base. base \<in> {0x20, 0xA0} \<longrightarrow> phase (pic_run c base log) = Ready \<longrightarrow>
     dev log (base + 1) = imr (pic_run c base log))"

section \<open>Masks\<close>

lemma irq_bit_bit: "n < 32 \<Longrightarrow> bit (irq_bit (of_nat n)) k \<longleftrightarrow> k = n"
  by (auto simp: irq_bit_def unat_of_nat32 bit_simps)

lemma mask_bits:
  assumes "n < 8" and "k < 8"
  shows "bit (ucast (ucast (x :: u8) AND NOT (irq_bit (of_nat n))) :: u8) k \<longleftrightarrow> k \<noteq> n \<and> bit x k"
    and "bit (ucast (ucast (x :: u8) OR irq_bit (of_nat n)) :: u8) k \<longleftrightarrow> k = n \<or> bit x k"
  using assms by (auto simp: bit_simps irq_bit_bit)

lemma ucast_byte_up_down [simp]: "(ucast (ucast (x :: u8) :: u32) :: u8) = x"
  by (rule bit_word_eqI) (auto simp: bit_simps)

lemma line_cases:
  assumes "n < 16"
  obtains "n < 8" "(of_nat n :: u32) < 8"
  | j where "j < 8" "n = j + 8" "\<not> (of_nat n :: u32) < 8" "(of_nat n :: u32) - 8 = of_nat j"
proof (cases "n < 8")
  case True
  then have "(of_nat n :: u32) < 8" by (simp add: word_less_nat_alt unat_of_nat32)
  with True show ?thesis by (rule that(1))
next
  case False
  then obtain j where j: "n = j + 8" using le_iff_add [of 8 n] by (auto simp: not_less)
  show ?thesis
    by (rule that(2) [of j]) (use assms j in \<open>simp_all add: word_less_nat_alt unat_of_nat32 del: of_nat_add, simp\<close>)
qed

lemma specific_eoi:
  assumes "j < 8"
  shows "pic_command (ucast (0x60 OR (of_nat j :: u32)) :: u8) c = c\<lparr>isr := unset_bit j (isr c)\<rparr>"
proof -
  have "j = 0 \<or> j = 1 \<or> j = 2 \<or> j = 3 \<or> j = 4 \<or> j = 5 \<or> j = 6 \<or> j = 7"
    using assms by auto
  then show ?thesis by (elim disjE) (simp_all add: pic_command_def)
qed

text \<open>What a mask write does to the two controllers.\<close>

lemma run_mask_write:
  assumes "pics_ready c log" and "base \<in> {0x20, 0xA0}" and "b = 0x20 \<or> b = 0xA0"
  shows "pic_run c b (OutB (base + 1) v # InB (base + 1) # log) =
    (if b = base then (pic_run c b log)\<lparr>imr := v\<rparr> else pic_run c b log)"
  using assms by (auto simp: pics_ready_def pic_data_def Let_def)

lemma enable_irq_trace:
  assumes "n < 16"
  shows "\<exists>base v. base = (if n < 8 then 0x20 else 0xA0) \<and>
    trace (enable_irq dev (of_nat n) s) = OutB (base + 1) v # InB (base + 1) # trace s
    \<and> (\<forall>k < 8. bit v k \<longleftrightarrow> k \<noteq> n mod 8 \<and> bit (dev (trace s) (base + 1)) k)"
  using assms
proof (cases rule: line_cases)
  case 1
  then show ?thesis by (simp add: enable_irq_def port_defs Let_def mask_bits)
next
  case (2 j)
  then show ?thesis by (simp add: enable_irq_def port_defs Let_def mask_bits)
qed

lemma disable_irq_trace:
  assumes "n < 16"
  shows "\<exists>base v. base = (if n < 8 then 0x20 else 0xA0) \<and>
    trace (disable_irq dev (of_nat n) s) = OutB (base + 1) v # InB (base + 1) # trace s
    \<and> (\<forall>k < 8. bit v k \<longleftrightarrow> k = n mod 8 \<or> bit (dev (trace s) (base + 1)) k)"
  using assms
proof (cases rule: line_cases)
  case 1
  then show ?thesis by (simp add: disable_irq_def port_defs Let_def mask_bits)
next
  case (2 j)
  then show ?thesis by (simp add: disable_irq_def port_defs Let_def mask_bits)
qed

lemma same_line: "n < 16 \<Longrightarrow> k < 16 \<Longrightarrow> n = k \<longleftrightarrow> (n < 8 \<longleftrightarrow> k < 8) \<and> n mod 8 = (k mod 8 :: nat)"
  by (auto simp: mod_if)

lemma send_eoi_line:
  assumes "n < 16" and "k < 16"
  shows "in_service c (trace (send_eoi (of_nat n) s)) k \<longleftrightarrow>
    k \<noteq> n \<and> \<not> (8 \<le> n \<and> k = 2) \<and> in_service c (trace s) k"
proof -
  have eoi: "send_eoi (of_nat n) s = (if n < 8
    then s\<lparr>trace := OutB 0x20 (ucast (0x60 OR (of_nat n :: u32))) # trace s\<rparr>
    else s\<lparr>trace := OutB 0x20 0x62 # OutB 0xA0 (ucast (0x60 OR (of_nat (n - 8) :: u32))) # trace s\<rparr>)"
    using assms(1) by (cases rule: line_cases) (simp_all add: send_eoi_def port_defs Let_def not_le [symmetric])
  have slave: "pic_command 0x62 x = x\<lparr>isr := unset_bit 2 (isr x)\<rparr>" for x
    using specific_eoi [of 2 x] by simp
  have k: "k mod 8 < 8" by simp
  show ?thesis
  proof (cases "n < 8")
    case True
    then show ?thesis using assms(2)
      by (cases "k < 8") (auto simp: eoi in_service_def pic_of_def specific_eoi bit_unset_bit_iff)
  next
    case False
    then obtain j where j: "n = j + 8" "j < 8" using assms(1) le_iff_add [of 8 n] by (auto simp: not_less)
    have "k mod 8 = k - 8" if "\<not> k < 8" using that assms(2) by (simp add: mod_if)
    then show ?thesis using assms(2) j unfolding eoi
      by (cases "k < 8") (auto simp: in_service_def pic_of_def specific_eoi slave bit_unset_bit_iff)
  qed
qed

section \<open>Properties\<close>

text \<open>
  From any state of the hardware, even one in the middle of an initialization, \<open>i8259_init\<close>
  leaves both controllers ready: vectors 0x20 and 0x28, the slave on line 2, 8086 mode, nothing in
  service, and every line masked but the slave's.
\<close>

lemma i8259_init_spec:
  "pic_run c 0x20 (trace (i8259_init dev s)) =
     \<lparr>phase = Ready, icw1 = 0x11, vector = 0x20, cascade = 4, mode = 1, imr = 0xFB, isr = 0\<rparr>
   \<and> pic_run c 0xA0 (trace (i8259_init dev s)) =
     \<lparr>phase = Ready, icw1 = 0x11, vector = 0x28, cascade = 2, mode = 1, imr = 0xFF, isr = 0\<rparr>"
  by (cases "pic_run c 0x20 (trace s)"; cases "pic_run c 0xA0 (trace s)")
    (simp add: i8259_init_def port_defs pic_command_def pic_data_def)

text \<open>
  On ready controllers that read their masks back, \<open>enable_irq\<close> unmasks exactly its line and
  \<open>disable_irq\<close> masks exactly its line, of the sixteen lines of the pair; the controllers stay
  ready.
\<close>

lemma irq_mask_spec:
  assumes "reads_mask c dev" and "pics_ready c (trace s)" and "n < 16" and "k < 16"
  shows "(masked c (trace (enable_irq dev (of_nat n) s)) k \<longleftrightarrow> k \<noteq> n \<and> masked c (trace s) k)
    \<and> (masked c (trace (disable_irq dev (of_nat n) s)) k \<longleftrightarrow> k = n \<or> masked c (trace s) k)
    \<and> pics_ready c (trace (enable_irq dev (of_nat n) s))
    \<and> pics_ready c (trace (disable_irq dev (of_nat n) s))"
proof -
  define base :: u16 where "base = (if n < 8 then 0x20 else 0xA0)"
  have b: "base \<in> {0x20, 0xA0}" by (simp add: base_def)
  have rd: "dev (trace s) (base + 1) = imr (pic_run c base (trace s))"
    using assms(1,2) by (simp add: reads_mask_def pics_ready_def base_def)
  define kb :: u16 where "kb = (if k < 8 then 0x20 else 0xA0)"
  have kb: "kb = base \<longleftrightarrow> (n < 8 \<longleftrightarrow> k < 8)" "kb = 0x20 \<or> kb = 0xA0" by (auto simp: kb_def base_def)
  obtain v where v: "trace (enable_irq dev (of_nat n) s) = OutB (base + 1) v # InB (base + 1) # trace s"
    "\<And>k. k < 8 \<Longrightarrow> bit v k \<longleftrightarrow> k \<noteq> n mod 8 \<and> bit (dev (trace s) (base + 1)) k"
    using enable_irq_trace [OF assms(3), of dev s] unfolding base_def by blast
  obtain w where w: "trace (disable_irq dev (of_nat n) s) = OutB (base + 1) w # InB (base + 1) # trace s"
    "\<And>k. k < 8 \<Longrightarrow> bit w k \<longleftrightarrow> k = n mod 8 \<or> bit (dev (trace s) (base + 1)) k"
    using disable_irq_trace [OF assms(3), of dev s] unfolding base_def by blast
  note run = run_mask_write [OF assms(2) b]
  have "masked c (trace (enable_irq dev (of_nat n) s)) k \<longleftrightarrow> k \<noteq> n \<and> masked c (trace s) k"
    using same_line [OF assms(4,3)] v(2) [of "k mod 8"] kb
    by (auto simp: masked_def pic_of_def kb_def [symmetric] v(1) run rd simp del: pic_run_simps)
  moreover have "masked c (trace (disable_irq dev (of_nat n) s)) k \<longleftrightarrow> k = n \<or> masked c (trace s) k"
    using same_line [OF assms(4,3)] w(2) [of "k mod 8"] kb
    by (auto simp: masked_def pic_of_def kb_def [symmetric] w(1) run rd simp del: pic_run_simps)
  moreover have "pics_ready c (OutB (base + 1) x # InB (base + 1) # trace s)" for x
    using assms(2) unfolding pics_ready_def by (simp add: run del: pic_run_simps)
  ultimately show ?thesis by (simp add: v(1) w(1))
qed

definition sample_pic :: pic where
  "sample_pic = \<lparr>phase = Ready, icw1 = 0x11, vector = 0x20, cascade = 4, mode = 1, imr = 0xFB, isr = 0x06\<rparr>"

text \<open>A device that answers as the two controllers do.\<close>

definition sample_dev :: device where
  "sample_dev log port = imr (pic_run sample_pic (port - 1) log)"

lemma sample_reads_mask: "reads_mask sample_pic sample_dev"
  by (simp add: reads_mask_def sample_dev_def)

text \<open>
  \<open>send_eoi\<close> ends the service of its line, of the slave's line 2 too when it belongs to the
  slave, and of no other.
\<close>

lemma send_eoi_spec:
  assumes "n < 16" and "k < 16"
  shows "in_service c (trace (send_eoi (of_nat n) s)) k \<longleftrightarrow>
    k \<noteq> n \<and> \<not> (8 \<le> n \<and> k = 2) \<and> in_service c (trace s) k"
  using assms by (rule send_eoi_line)

end
