(* ===== verification/Rtc.thy ===== *)
theory Rtc
  imports Pic FileTypes
begin

text \<open>
  The real time clock driver, \<open>rtc.c\<close>. Besides the ports its state is the interrupt counter.
  \<open>cmos_run\<close> gives a trace of port accesses its documented meaning for the clock: the index
  register behind port \<open>0x70\<close> and the registers behind \<open>0x71\<close>. The loops that search a rate and
  that wait for an interrupt are partial functions: \<open>None\<close> says that they do not end.
\<close>

section \<open>The driver\<close>

record rtc =
  ports :: io
  interrupt_number :: u32

abbreviation (input) PORT_1 :: u32 where "PORT_1 \<equiv> 0x70"
abbreviation (input) PORT_2 :: u32 where "PORT_2 \<equiv> 0x71"
abbreviation (input) VAL_1 :: u32 where "VAL_1 \<equiv> 0x8A"
abbreviation (input) VAL_2 :: u32 where "VAL_2 \<equiv> 0x8B"
abbreviation (input) BIT_6 :: u32 where "BIT_6 \<equiv> 0x40"
abbreviation (input) FIRST_4_BITS :: u32 where "FIRST_4_BITS \<equiv> 0xF0"
abbreviation (input) HIGHEST_FREQ :: u32 where "HIGHEST_FREQ \<equiv> 1024"
abbreviation (input) LOWEST_FREQ :: u32 where "LOWEST_FREQ \<equiv> 2"
abbreviation (input) HIGH_16_BIT :: u32 where "HIGH_16_BIT \<equiv> 32768"
abbreviation (input) RTC_PORT_NO :: u32 where "RTC_PORT_NO \<equiv> 8"
abbreviation (input) REG_C :: u32 where "REG_C \<equiv> 0x0C"

text \<open>
  The eight port accesses \<open>init_rtc\<close> and \<open>rtc_write\<close> share: the rate into register A and the
  periodic interrupt bit into register B. \<open>prev\<close> is a signed \<open>char\<close>.
\<close>

definition program_rate :: "device \<Rightarrow> u32 \<Rightarrow> io \<Rightarrow> io" where
  "program_rate dev rate s =
     (let s = outb VAL_1 PORT_1 s;
          (v, s) = inb dev PORT_2 s;
          prev = (ucast v :: u8);
          s = outb VAL_1 PORT_1 s;
          s = outb ((scast prev AND FIRST_4_BITS) OR rate) PORT_2 s;
          s = outb VAL_2 PORT_1 s;
          (v, s) = inb dev PORT_2 s;
          prev = (ucast v :: u8);
          s = outb VAL_2 PORT_1 s
      in outb (scast prev OR BIT_6) PORT_2 s)"

definition init_rtc :: "device \<Rightarrow> rtc \<Rightarrow> rtc" where
  "init_rtc dev s =
     s\<lparr>ports := enable_irq dev RTC_PORT_NO (program_rate dev 0x0E (ports s)), interrupt_number := 0\<rparr>"

definition rtc_int_handler :: "device \<Rightarrow> rtc \<Rightarrow> rtc" where
  "rtc_int_handler dev s =
     (let p = outb REG_C PORT_1 (ports s);
          (_, p) = inb dev PORT_2 p;
          n = interrupt_number s + 1
      in s\<lparr>ports := send_eoi RTC_PORT_NO p, interrupt_number := n\<rparr>)"

definition rtc_open :: "device \<Rightarrow> rtc \<Rightarrow> file_t \<Rightarrow> u32 \<Rightarrow> rtc \<times> file_t \<times> u32" where
  "rtc_open dev s file filename =
     (init_rtc dev s, file\<lparr>file_op := RtcJt, inode_ptr := NULL, file_pos := 0, flags := 1\<rparr>, RET_SUCCESS)"

text \<open>
  The busy wait of \<open>rtc_read\<close>: \<open>irq k\<close> says whether a clock interrupt comes in before the \<open>k\<close>th
  next test of the loop condition.
\<close>

partial_function (option) rtc_wait ::
  "device \<Rightarrow> (nat \<Rightarrow> bool) \<Rightarrow> nat \<Rightarrow> u32 \<Rightarrow> rtc \<Rightarrow> rtc option" where
  "rtc_wait dev irq k temp s =
     (if temp = interrupt_number s
      then rtc_wait dev irq (Suc k) temp (if irq k then rtc_int_handler dev s else s)
      else Some s)"

definition rtc_read ::
  "device \<Rightarrow> (nat \<Rightarrow> bool) \<Rightarrow> rtc \<Rightarrow> file_t \<Rightarrow> u32 \<Rightarrow> u32 \<Rightarrow> (rtc \<times> file_t \<times> u32) option" where
  "rtc_read dev irq s file buf count =
     (let s = s\<lparr>ports := sti (ports s)\<rparr>;
          temp = interrupt_number s
      in case rtc_wait dev irq 0 temp s of
           None \<Rightarrow> None
         | Some s' \<Rightarrow> Some (s', file, RET_SUCCESS))"

text \<open>The search for the rate; the x86 shift takes its count modulo 32.\<close>

partial_function (option) rtc_rate :: "u32 \<Rightarrow> u32 \<Rightarrow> u32 option" where
  "rtc_rate frequency rate =
     (if frequency \<noteq> drop_bit (unat (rate - 1) mod 32) HIGH_16_BIT then rtc_rate frequency (rate + 1)
      else Some rate)"

definition rtc_write ::
  "device \<Rightarrow> mem \<Rightarrow> rtc \<Rightarrow> file_t \<Rightarrow> u32 \<Rightarrow> u32 \<Rightarrow> (rtc \<times> file_t \<times> u32) option" where
  "rtc_write dev m s file buf nbytes =
     (if nbytes \<noteq> 4 then Some (s, file, RET_FAILURE)
      else (let (flags, p) = cli_and_save (ports s);
                frequency = load32 m buf
            in if frequency > HIGHEST_FREQ \<or> frequency < LOWEST_FREQ
               then Some (s\<lparr>ports := restore_flags flags p\<rparr>, file, RET_FAILURE)
               else (case rtc_rate frequency LOWEST_FREQ of
                       None \<Rightarrow> None
                     | Some rate \<Rightarrow>
                         (let rate = rate - 1;
                              p = program_rate dev rate p;
                              p = sti p;
                              p = restore_flags flags p
                          in Some (s\<lparr>ports := p\<rparr>, file, RET_SUCCESS)))))"

definition rtc_close :: "file_t \<Rightarrow> file_t \<times> u32" where
  "rtc_close file = (file, RET_SUCCESS)"

interpretation rtc: file_driver RtcJt "\<lambda>f f'. \<exists>dev s s' name. rtc_open dev s f name = (s', f', RET_SUCCESS)"
  by unfold_locales (auto simp: rtc_open_def)

section \<open>The clock\<close>

text \<open>
  The clock's registers: a write to port \<open>0x70\<close> selects one, its top bit only masks the NMI; an
  access to port \<open>0x71\<close> moves the index to register D, and reading register C clears it.
\<close>

record cmos =
  idx :: u8
  regs :: "u8 \<Rightarrow> u8"

fun cmos_event :: "io_event \<Rightarrow> cmos \<Rightarrow> cmos" where
  "cmos_event (OutB p v) c =
     (if p = 0x70 then c\<lparr>idx := v AND 0x7F\<rparr>
      else if p = 0x71 then c\<lparr>regs := (regs c)(idx c := v), idx := 0x0D\<rparr>
      else c)"
| "cmos_event (InB p) c =
     (if p = 0x71 then c\<lparr>regs := (if idx c = 0x0C then (regs c)(0x0C := 0) else regs c), idx := 0x0D\<rparr>
      else c)"

definition cmos_run :: "cmos \<Rightarrow> io_event list \<Rightarrow> cmos" where
  "cmos_run c log = foldr cmos_event log c"

lemma cmos_run_simps [simp]:
  "cmos_run c [] = c"
  "cmos_run c (e # log) = cmos_event e (cmos_run c log)"
  by (simp_all add: cmos_run_def)

definition reads_register :: "cmos \<Rightarrow> device \<Rightarrow> bool" where
  "reads_register c dev \<longleftrightarrow> (\<forall>log. dev log 0x71 = regs (cmos_run c log) (idx (cmos_run c log)))"

text \<open>The rate of the periodic interrupt register A asks for.\<close>

definition rtc_frequency :: "cmos \<Rightarrow> io_event list \<Rightarrow> u32" where
  "rtc_frequency c log = drop_bit (unat (regs (cmos_run c log) 0x0A AND 0x0F) - 1) HIGH_16_BIT"

definition periodic_on :: "cmos \<Rightarrow> io_event list \<Rightarrow> bool" where
  "periodic_on c log = bit (regs (cmos_run c log) 0x0B) 6"

section \<open>Setting the rate\<close>

lemma low_byte_simps:
  "(ucast (a AND b :: u32) :: u8) = ucast a AND ucast b"
  "(ucast (a OR b :: u32) :: u8) = ucast a OR ucast b"
  "(ucast (scast (x :: u8) :: u32) :: u8) = x"
  by (rule bit_word_eqI; auto simp: bit_simps)+

lemma program_rate_regs:
  assumes "reads_register c dev"
  shows "regs (cmos_run c (trace (program_rate dev rate s))) =
    (regs (cmos_run c (trace s)))
      (0x0A := (regs (cmos_run c (trace s)) 0x0A AND 0xF0) OR ucast rate,
       0x0B := regs (cmos_run c (trace s)) 0x0B OR 0x40)"
proof -
  have rd: "dev log 0x71 = regs (cmos_run c log) (idx (cmos_run c log))" for log
    using assms by (simp add: reads_register_def)
  show ?thesis
    by (simp add: program_rate_def port_defs low_byte_simps rd)
qed

lemma program_rate_frequency:
  assumes "reads_register c dev" and "r \<le> 15"
  shows "rtc_frequency c (trace (program_rate dev (of_nat r) s)) = drop_bit (r - 1) HIGH_16_BIT"
    and "periodic_on c (trace (program_rate dev (of_nat r) s))"
proof -
  have "(((x :: u8) AND 0xF0) OR of_nat r) AND 0x0F = of_nat r" for x
  proof -
    have "(of_nat r :: u8) = take_bit 4 (of_nat r)"
      using assms(2) by (simp add: take_bit_of_nat take_bit_nat_eq_self)
    moreover have "((x AND 0xF0) OR take_bit 4 y) AND 0x0F = take_bit 4 y" for y :: u8
    proof -
      have m: "(0xF0 :: u8) = push_bit 4 (mask 4)" "(0x0F :: u8) = mask 4"
        by (simp_all add: mask_eq_exp_minus_1)
      show ?thesis unfolding m by (rule bit_word_eqI) (auto simp: bit_simps)
    qed
    ultimately show ?thesis by metis
  qed
  moreover have "(ucast (of_nat r :: u32) :: u8) = of_nat r"
    by (rule bit_word_eqI) (auto simp: bit_simps)
  moreover have "unat (of_nat r :: u8) = r" using assms(2) by (simp add: unat_of_nat take_bit_nat_eq_self)
  ultimately show "rtc_frequency c (trace (program_rate dev (of_nat r) s)) = drop_bit (r - 1) HIGH_16_BIT"
    using program_rate_regs [OF assms(1), of "of_nat r" s] by (simp add: rtc_frequency_def)
  show "periodic_on c (trace (program_rate dev (of_nat r) s))"
    using program_rate_regs [OF assms(1), of "of_nat r" s] by (simp add: periodic_on_def bit_simps)
qed

text \<open>The search ends exactly for the powers of two below 65536.\<close>

lemma rtc_rate_stops: "rtc_rate f r = Some r' \<Longrightarrow> f = drop_bit (unat (r' - 1) mod 32) HIGH_16_BIT"
proof (erule rtc_rate.raw_induct [where P = "\<lambda>f r r'. f = drop_bit (unat (r' - 1) mod 32) HIGH_16_BIT", rotated])
  fix g :: "u32 \<Rightarrow> u32 \<Rightarrow> u32 option" and f r r'
  assume "\<And>f r r'. g f r = Some r' \<Longrightarrow> f = drop_bit (unat (r' - 1) mod 32) HIGH_16_BIT"
    and "(if f \<noteq> drop_bit (unat (r - 1) mod 32) HIGH_16_BIT then g f (r + 1) else Some r) = Some r'"
  then show "f = drop_bit (unat (r' - 1) mod 32) HIGH_16_BIT" by (auto split: if_splits)
qed

lemma power_2_eq_iff: "a < 32 \<Longrightarrow> (2 :: u32) ^ a = 2 ^ b \<Longrightarrow> a = b"
proof -
  assume a: "a < 32" and e: "(2 :: u32) ^ a = 2 ^ b"
  have "bit ((2 :: u32) ^ a) a" using a by (simp add: bit_exp_iff)
  then have "bit ((2 :: u32) ^ b) a" by (simp only: e)
  then show "a = b" by (simp add: bit_exp_iff)
qed

lemma high_16_shift: "j \<le> 15 \<Longrightarrow> drop_bit j HIGH_16_BIT = (2 :: u32) ^ (15 - j)"
proof -
  assume "j \<le> 15"
  then have "drop_bit j ((2 :: u32) ^ 15) = 2 ^ (15 - j)" by (simp only: drop_bit_exp_eq) simp
  then show ?thesis by simp
qed

lemma unat_pred_of_nat: "1 \<le> r \<Longrightarrow> r < 4294967296 \<Longrightarrow> unat ((of_nat r :: u32) - 1) = r - 1"
proof -
  assume r: "1 \<le> r" "r < 4294967296"
  then have "(of_nat r :: u32) - 1 = of_nat (r - 1)" by (simp add: of_nat_diff)
  then show ?thesis using r by (simp only:) (rule unat_of_nat32, simp)
qed

lemma rtc_rate_power:
  "k \<le> 14 \<Longrightarrow> 2 \<le> r \<Longrightarrow> r \<le> 16 - k \<Longrightarrow> rtc_rate (2 ^ k) (of_nat r) = Some (of_nat (16 - k))"
proof (induction "16 - k - r" arbitrary: r)
  case 0
  then have r: "r = 16 - k" by simp
  have "unat ((of_nat r :: u32) - 1) = r - 1" using 0 by (intro unat_pred_of_nat) auto
  then show ?case using 0 r high_16_shift [of "r - 1"] by (subst rtc_rate.simps) simp
next
  case (Suc n)
  have u: "unat ((of_nat r :: u32) - 1) = r - 1" using Suc by (intro unat_pred_of_nat) auto
  have "(2 :: u32) ^ k \<noteq> 2 ^ (15 - (r - 1))" using power_2_eq_iff [of k "15 - (r - 1)"] Suc by auto
  moreover have "rtc_rate (2 ^ k) (of_nat (Suc r)) = Some (of_nat (16 - k))"
    using Suc by (intro Suc.hyps(1)) auto
  ultimately show ?case using Suc u high_16_shift [of "r - 1"]
    by (subst rtc_rate.simps) (simp add: add.commute)
qed

lemma rtc_rate_bound:
  assumes "rtc_rate f 2 = Some r" and "2 \<le> f" and "f \<le> 1024"
  shows "\<exists>k. 1 \<le> k \<and> k \<le> 10 \<and> f = 2 ^ k"
proof -
  define j where "j = unat (r - 1) mod 32"
  have f: "f = drop_bit j HIGH_16_BIT" using rtc_rate_stops [OF assms(1)] by (simp add: j_def)
  have "j \<le> 15"
  proof (rule ccontr)
    assume "\<not> j \<le> 15"
    then have "drop_bit j ((2 :: u32) ^ 15) = 0" by (simp only: drop_bit_exp_eq) simp
    with f assms(2) show False by (simp add: word_le_nat_alt)
  qed
  then have p: "f = 2 ^ (15 - j)" using f high_16_shift by simp
  have u: "unat f = 2 ^ (15 - j)"
  proof -
    have "(2 :: nat) ^ (15 - j) \<le> 2 ^ 15" by (rule power_increasing) simp_all
    then have "unat (of_nat (2 ^ (15 - j)) :: u32) = 2 ^ (15 - j)" by (intro unat_of_nat32) simp
    then show ?thesis by (simp add: p)
  qed
  have "15 - j \<le> 10"
  proof (rule ccontr)
    assume "\<not> 15 - j \<le> 10"
    then have "(2 :: nat) ^ 11 \<le> 2 ^ (15 - j)" by (intro power_increasing) simp_all
    with u assms(3) show False by (simp add: word_le_nat_alt)
  qed
  moreover have "15 - j \<noteq> 0" using u assms(2) by (auto simp: word_le_nat_alt intro: ccontr)
  ultimately show ?thesis using p by (intro exI [of _ "15 - j"]) auto
qed

section \<open>Properties\<close>

text \<open>
  \<open>rtc_write\<close> rejects a buffer that is not 4 bytes and a frequency out of bounds without
  touching the clock; in bounds it returns exactly for the powers of two and spins with interrupts
  off for every other frequency. The clock is then programmed for twice the frequency asked for
  (the \<open>rate--\<close> after the search), periodic interrupts are on, and the caller's interrupt flag is
  restored.
\<close>

lemma rtc_write_spec:
  assumes "reads_register c dev" and "f = load32 m buf"
  shows "(if nbytes \<noteq> 4 \<or> f > 1024 \<or> f < 2 then rtc_write dev m s file buf nbytes = Some (s, file, RET_FAILURE)
    else if \<exists>k. 1 \<le> k \<and> k \<le> 10 \<and> f = 2 ^ k
    then (\<exists>s'. rtc_write dev m s file buf nbytes = Some (s', file, RET_SUCCESS)
      \<and> rtc_frequency c (trace (ports s')) = 2 * f \<and> periodic_on c (trace (ports s'))
      \<and> intr_on (ports s') = intr_on (ports s) \<and> interrupt_number s' = interrupt_number s)
    else rtc_write dev m s file buf nbytes = None)"
proof -
  consider "nbytes \<noteq> 4" | "nbytes = 4" "f > 1024 \<or> f < 2"
    | k where "nbytes = 4" "\<not> f > 1024" "\<not> f < 2" "1 \<le> k" "k \<le> 10" "f = 2 ^ k"
    | "nbytes = 4" "\<not> f > 1024" "\<not> f < 2" "\<nexists>k. 1 \<le> k \<and> k \<le> 10 \<and> f = 2 ^ k" by blast
  then show ?thesis
  proof cases
    case 1
    then show ?thesis by (simp add: rtc_write_def)
  next
    case 2
    then show ?thesis using assms(2) by (simp add: rtc_write_def port_defs)
  next
    case (3 k)
    have rate: "rtc_rate f 2 = Some (of_nat (16 - k))"
      using rtc_rate_power [of k 2] 3 by simp
    define p where "p = program_rate dev (of_nat (15 - k)) ((ports s)\<lparr>intr_on := False\<rparr>)"
    define s' where "s' = s\<lparr>ports := p\<lparr>intr_on := intr_on (ports s)\<rparr>\<rparr>"
    have "of_nat (16 - k) - 1 = (of_nat (15 - k) :: u32)" using 3 by (simp add: of_nat_diff)
    then have "rtc_write dev m s file buf nbytes = Some (s', file, RET_SUCCESS)"
      using 3(1-3) rate assms(2) by (simp add: rtc_write_def Let_def cli_and_save_def sti_def restore_flags_def
          s'_def p_def)
    moreover have "drop_bit (15 - k - 1) HIGH_16_BIT = 2 * f"
      using 3(4,5,6) high_16_shift [of "15 - k - 1"] by (simp flip: power_Suc)
    then have "rtc_frequency c (trace p) = 2 * f" and "periodic_on c (trace p)"
      using program_rate_frequency [OF assms(1), of "15 - k"] by (simp_all add: p_def)
    ultimately show ?thesis using 3 by (auto simp: s'_def)
  next
    case 4
    then have "rtc_rate f 2 = None"
      using rtc_rate_bound [of f] by (cases "rtc_rate f 2") (auto simp: not_less)
    then show ?thesis using 4 assms(2) by (simp add: rtc_write_def Let_def cli_and_save_def)
  qed
qed

definition sample_cmos :: cmos where
  "sample_cmos = \<lparr>idx = 0x0D, regs = (\<lambda>_. 0)(0x0A := 0x26, 0x0B := 0x02)\<rparr>"

definition sample_clock :: device where
  "sample_clock log port = regs (cmos_run sample_cmos log) (idx (cmos_run sample_cmos log))"

lemma sample_reads_register: "reads_register sample_cmos sample_clock"
  by (simp add: reads_register_def sample_clock_def)

definition sample_rtc :: rtc where
  "sample_rtc = \<lparr>ports = \<lparr>trace = [], intr_on = True\<rparr>, interrupt_number = 0\<rparr>"

text \<open>
  The interrupt handler counts the interrupt, reads register C so that the clock will raise
  the next one, and ends the service of line 8 and of the slave's line 2, of no other line.
\<close>

lemma rtc_int_handler_spec:
  "interrupt_number (rtc_int_handler dev s) = interrupt_number s + 1
   \<and> regs (cmos_run cm (trace (ports (rtc_int_handler dev s)))) = (regs (cmos_run cm (trace (ports s))))(0x0C := 0)
   \<and> {k. k < 16 \<and> in_service c (trace (ports (rtc_int_handler dev s))) k}
     = {k. k < 16 \<and> in_service c (trace (ports s)) k} - {2, 8}"
proof -
  define p where "p = (ports s)\<lparr>trace := InB 0x71 # OutB 0x70 0x0C # trace (ports s)\<rparr>"
  have h: "rtc_int_handler dev s = s\<lparr>ports := send_eoi 8 p, interrupt_number := interrupt_number s + 1\<rparr>"
    by (simp add: rtc_int_handler_def port_defs Let_def p_def)
  have pics: "in_service c (trace p) k = in_service c (trace (ports s)) k" for k
    by (simp add: in_service_def pic_of_def p_def)
  have eoi: "in_service c (trace (send_eoi 8 p)) k \<longleftrightarrow>
      k \<noteq> 8 \<and> k \<noteq> 2 \<and> in_service c (trace (ports s)) k" if "k < 16" for k
    using send_eoi_line [of 8 k c p] that by (simp add: pics)
  have "regs (cmos_run cm (trace (send_eoi 8 p))) = (regs (cmos_run cm (trace (ports s))))(0x0C := 0)"
    by (simp add: send_eoi_def port_defs p_def)
  then show ?thesis by (auto simp: h eoi)
qed

lemma rtc_wait_never:
  "rtc_wait dev irq k temp s = Some r \<Longrightarrow> temp = interrupt_number s \<Longrightarrow> \<exists>j \<ge> k. irq j"
proof -
  assume "rtc_wait dev irq k temp s = Some r" and "temp = interrupt_number s"
  moreover have "rtc_wait dev irq k temp s = Some r \<Longrightarrow> temp = interrupt_number s \<longrightarrow> (\<exists>j \<ge> k. irq j)"
  proof (erule rtc_wait.raw_induct
      [where P = "\<lambda>dev irq k temp s r. temp = interrupt_number s \<longrightarrow> (\<exists>j \<ge> k. irq j)", rotated])
    fix g :: "device \<Rightarrow> (nat \<Rightarrow> bool) \<Rightarrow> nat \<Rightarrow> u32 \<Rightarrow> rtc \<Rightarrow> rtc option" and dev irq k temp s r
    assume IH: "\<And>dev irq k temp s r. g dev irq k temp s = Some r \<Longrightarrow>
        temp = interrupt_number s \<longrightarrow> (\<exists>j \<ge> k. irq j)"
      and step: "(if temp = interrupt_number s
        then g dev irq (Suc k) temp (if irq k then rtc_int_handler dev s else s) else Some s) = Some r"
    show "temp = interrupt_number s \<longrightarrow> (\<exists>j \<ge> k. irq j)"
    proof
      assume t: "temp = interrupt_number s"
      show "\<exists>j \<ge> k. irq j"
      proof (cases "irq k")
        case False
        then have "\<exists>j \<ge> Suc k. irq j" using step t IH [of dev irq "Suc k" temp s r] by simp
        then show ?thesis by (meson Suc_leD)
      qed blast
    qed
  qed
  ultimately show ?thesis by blast
qed

lemma rtc_wait_irq:
  "irq (k + d) \<Longrightarrow> (\<And>j. j < d \<Longrightarrow> \<not> irq (k + j)) \<Longrightarrow> temp = interrupt_number s \<Longrightarrow>
   rtc_wait dev irq k temp s = Some (rtc_int_handler dev s)"
proof (induction d arbitrary: k)
  case 0
  then show ?case
    by (subst rtc_wait.simps, subst rtc_wait.simps) (simp add: rtc_int_handler_def port_defs Let_def)
next
  case (Suc d)
  have "\<not> irq k" using Suc.prems(2) [of 0] by simp
  moreover have "rtc_wait dev irq (Suc k) temp s = Some (rtc_int_handler dev s)"
  proof (rule Suc.IH)
    show "irq (Suc k + d)" using Suc.prems(1) by simp
    show "\<not> irq (Suc k + j)" if "j < d" for j using Suc.prems(2) [of "Suc j"] that by simp
  qed (rule Suc.prems(3))
  ultimately show ?case using Suc.prems(3) by (subst rtc_wait.simps) simp
qed

text \<open>
  C32. \<open>rtc_read\<close> turns interrupts on and returns 0 right after the first clock interrupt that
  follows, having taken exactly that one; when none ever comes it does not return.
\<close>

theorem rtc_read_spec:
  "rtc_read dev irq s file buf count =
    (if \<exists>k. irq k then Some (rtc_int_handler dev (s\<lparr>ports := sti (ports s)\<rparr>), file, RET_SUCCESS) else None)"
proof -
  let ?s = "s\<lparr>ports := sti (ports s)\<rparr>"
  show ?thesis
  proof (cases "\<exists>k. irq k")
    case True
    then obtain k where "irq k" "\<And>j. j < k \<Longrightarrow> \<not> irq j"
      using LeastI_ex [of irq] not_less_Least [of _ irq] by blast
    then have "rtc_wait dev irq 0 (interrupt_number ?s) ?s = Some (rtc_int_handler dev ?s)"
      using rtc_wait_irq [of irq 0 k "interrupt_number ?s" ?s dev] by simp
    then show ?thesis using True by (simp add: rtc_read_def)
  next
    case False
    then have "rtc_wait dev irq 0 (interrupt_number ?s) ?s = None"
      using rtc_wait_never [of dev irq 0 "interrupt_number ?s" ?s] by (cases "rtc_wait dev irq 0 (interrupt_number ?s) ?s") auto
    then show ?thesis using False by (simp add: rtc_read_def)
  qed
qed

end
