(* ===== verification/Syscalls.thy ===== *)
theory Syscalls
  imports Terminal Filesys Paging Rtc
begin

text \<open>
  Processes and system calls, \<open>systemcalls.c\<close> and \<open>systemcalls.h\<close>. The state \<open>kernel\<close> joins the
  states of the components and the globals of the file. A \<open>pcb_t*\<close> is the address of a process
  control block and \<open>pcbs\<close> holds the blocks by address; the byte memory is what strings, buffers
  and program images live in. The page at \<open>0x08000000\<close> is a different one for each directory.
  The blocks, the page tables and the globals are in the kernel's memory too; here they are apart from the
  byte memory, so a call that is given a pointer to them, which the code does not check, is not followed. The
  conditions on pointers that keep the calls off them are \<open>read_allowed\<close>, \<open>args_allowed\<close> and \<open>command_fits\<close>,
  which the theorems on sequences of calls demand.

  What the stack switches of the assembly do to the control flow is a value of \<open>control\<close>. What is
  decided at link time or by the hardware is a field of the parameter \<open>env\<close>.
\<close>

section \<open>State\<close>

record pcb_t =
  file_fds :: "file_t list"
  pcb_k_bp :: u32
  k_sp :: u32
  PD_ptr :: "nat option"
  pcb_process_id :: u8
  esp0 :: u32
  ss0 :: u32
  child_flag :: u32
  parent_process :: u32
  child :: u32

record kernel =
  kmem :: mem
  upage :: "nat \<Rightarrow> mem"
  fsys :: fs
  pg :: paging
  clock :: rtc
  tty :: terminal
  args :: u32
  space_seen :: u32
  arg_index :: u32
  open_processes :: u8
  k_bp :: u32
  process_id :: u32
  curr_process :: u32
  retval :: u32
  initial_shell :: u32
  task_queue :: "u32 list"
  next_available :: u32
  next_task :: u32
  tss_esp0 :: u32
  tss_ss0 :: u32
  pcbs :: "u32 \<Rightarrow> pcb_t"

text \<open>
  The environment: the hardware and the interrupts (\<open>dev\<close>, \<open>rtc_irq\<close>, \<open>kbd\<close>), the addresses of the
  page tables, of the string literals, of the local arrays \<open>elf_check\<close>, \<open>buf_temp\<close> and \<open>conv_buf\<close>,
  what an uninitialised \<open>dentry_t\<close> holds, the padding after \<open>process_id\<close> in a \<open>pcb_t\<close>, and the
  registers \<open>esp\<close> and \<open>ebp\<close> where the code saves them.
\<close>

record env =
  dev :: device
  rtc_irq :: "nat \<Rightarrow> bool"
  kbd :: "nat \<Rightarrow> line_world \<Rightarrow> line_world"
  pt_base :: u32
  str1 :: u32
  str2 :: u32
  minus1 :: u32
  elf_check :: u32
  buf_temp :: u32
  conv_buf :: u32
  stack_dentry :: dentry_t
  pcb_padding :: "24 word"
  esp :: u32
  ebp :: u32

text \<open>
  How a function ends: it returns a value; \<open>execute\<close> jumps to user space at an address; \<open>halt\<close>
  continues at the label \<open>ret_halt\<close> on its parent's stack, so that the parent's \<open>execute\<close> returns
  \<open>retval\<close>; \<open>context_switch\<close> returns on the stack of another process; or \<open>while(1)\<close>.
\<close>

datatype control = Return u32 | Userspace u32 | Ret_halt u32 u32 | Switched u32 u32 | Spin

abbreviation (input) MASK :: u8 where "MASK \<equiv> 0x80"
abbreviation (input) KERNEL_DS :: u32 where "KERNEL_DS \<equiv> 0x18"

text \<open>\<open>(pcb_t* )((_8MB - _8KB * pid - 4) & 0xFFFFE000)\<close>, and the stack below it.\<close>

definition kernel_bp :: "u32 \<Rightarrow> u32" where
  "kernel_bp pid = 0x00800000 - 0x2000 * pid - 4"

definition pcb_addr :: "u32 \<Rightarrow> u32" where
  "pcb_addr pid = kernel_bp pid AND 0xFFFFE000"

definition update_pcb :: "u32 \<Rightarrow> (pcb_t \<Rightarrow> pcb_t) \<Rightarrow> kernel \<Rightarrow> kernel" where
  "update_pcb a f k = k\<lparr>pcbs := (pcbs k)(a := f (pcbs k a))\<rparr>"

text \<open>Memory as the current directory shows it.\<close>

definition user_page :: "u32 \<Rightarrow> bool" where
  "user_page x \<longleftrightarrow> 0x08000000 \<le> x \<and> x < 0x08400000"

definition view :: "kernel \<Rightarrow> mem" where
  "view k = (case cr3 (pg k) of
     None \<Rightarrow> kmem k
   | Some d \<Rightarrow> (\<lambda>x. if user_page x then upage k d x else kmem k x))"

definition set_view :: "mem \<Rightarrow> kernel \<Rightarrow> kernel" where
  "set_view m k = (case cr3 (pg k) of
     None \<Rightarrow> k\<lparr>kmem := m\<rparr>
   | Some d \<Rightarrow> k\<lparr>kmem := (\<lambda>x. if user_page x then kmem k x else m x),
                upage := (upage k)(d := (\<lambda>x. if user_page x then m x else upage k d x))\<rparr>)"

definition kernel_send_eoi :: "u32 \<Rightarrow> kernel \<Rightarrow> kernel" where
  "kernel_send_eoi irq k = k\<lparr>clock := (clock k)\<lparr>ports := send_eoi irq (ports (clock k))\<rparr>\<rparr>"

definition kernel_printf :: "env \<Rightarrow> u8 list \<Rightarrow> kernel \<Rightarrow> kernel option" where
  "kernel_printf E text k =
     map_option (\<lambda>(_, m, w). set_view m (k\<lparr>tty := (tty k)\<lparr>scr := w\<rparr>\<rparr>))
       (printf (conv_buf E) text [] (view k, scr (tty k)))"

section \<open>The command line\<close>

function parse_loop :: "u32 \<Rightarrow> u32 \<Rightarrow> u32 \<Rightarrow> u32 \<Rightarrow> mem \<times> bool \<Rightarrow> mem \<times> bool \<times> u32" where
  "parse_loop input output len i (m, seen) =
     (if i <s len
      then (if m (input + i) = 0x20 \<or> m (input + i) = 0x0A then (m, True, i)
            else parse_loop input output len (i + 1) (m(output + i := m (input + i)), seen))
      else (m, seen, i))"
  by pat_completeness auto
termination
  by (relation "measure (\<lambda>(input, output, len, i, w). nat (sint len - sint i))")
    (simp_all add: sint_Suc_sless)

declare parse_loop.simps [simp del]

definition parse :: "env \<Rightarrow> u32 \<Rightarrow> kernel \<Rightarrow> (kernel \<times> u32) option" where
  "parse E input k =
     (case strlen (view k) input of
        None \<Rightarrow> None
      | Some len \<Rightarrow>
          if len = 0 then Some (k, minus1 E)
          else if view k input = 0x20 then Some (k, minus1 E)
          else (case parse_loop input (str1 E) len 0 (view k, False) of
                  (m, seen, i) \<Rightarrow>
                    (let m = m(str1 E + i := 0);
                         k = set_view m k;
                         k = (if seen then k\<lparr>space_seen := 1\<rparr> else k);
                         k = k\<lparr>arg_index := i\<rparr>
                     in Some (k, str1 E))))"

function arg_loop :: "u32 \<Rightarrow> u32 \<Rightarrow> u32 \<Rightarrow> u32 \<Rightarrow> u32 \<Rightarrow> u32 \<Rightarrow> mem \<Rightarrow> mem \<times> u32" where
  "arg_loop input dest index nbytes j arg_length m =
     (if j <s nbytes
      then arg_loop input dest index nbytes (j + 1) (arg_length + 1)
             (m(dest + (j - index - 1) := m (input + j)))
      else (m, arg_length))"
  by pat_completeness auto
termination
  by (relation "measure (\<lambda>(input, dest, index, nbytes, j, arg_length, m). nat (sint nbytes - sint j))")
    (simp_all add: sint_Suc_sless)

declare arg_loop.simps [simp del]

definition get_arg :: "env \<Rightarrow> u32 \<Rightarrow> u32 \<Rightarrow> kernel \<Rightarrow> kernel" where
  "get_arg E input nbytes k =
     (let k = k\<lparr>args := str2 E\<rparr>
      in if view k input = 0x20 then k\<lparr>args := minus1 E\<rparr>
         else (case arg_loop input (args k) (arg_index k) nbytes (arg_index k + 1) 0 (view k) of
                 (m, arg_length) \<Rightarrow> set_view (m(args k + arg_length := 0)) k))"

section \<open>Processes\<close>

text \<open>The search for a free bit of \<open>open_processes\<close>; the result is the loop counter.\<close>

function alloc_loop :: "nat \<Rightarrow> u8 \<Rightarrow> kernel \<Rightarrow> nat \<times> kernel" where
  "alloc_loop i process_mask k =
     (if i < 7
      then (if process_mask AND open_processes k = 0
            then (i, k\<lparr>open_processes := open_processes k OR process_mask, process_id := of_nat i\<rparr>)
            else alloc_loop (Suc i) (drop_bit 1 process_mask) k)
      else (i, k))"
  by pat_completeness auto
termination by (relation "measure (\<lambda>(i, process_mask, k). 7 - i)") auto

declare alloc_loop.simps [simp del]

definition set_fd :: "nat \<Rightarrow> (file_t \<Rightarrow> file_t) \<Rightarrow> pcb_t \<Rightarrow> pcb_t" where
  "set_fd fd f p = p\<lparr>file_fds := (file_fds p)[fd := f (file_fds p ! fd)]\<rparr>"

definition stdin :: "nat \<Rightarrow> kernel \<Rightarrow> kernel" where
  "stdin fd k = update_pcb (curr_process k) (set_fd fd (\<lambda>f. f\<lparr>file_op := StdinJt, flags := 1\<rparr>)) k"

definition stdout :: "nat \<Rightarrow> kernel \<Rightarrow> kernel" where
  "stdout fd k = update_pcb (curr_process k)
     (set_fd fd (\<lambda>f. f\<lparr>file_op := StdoutJt, flags := 1, file_pos := of_int (screen_num (tty k))\<rparr>)) k"

definition push_task :: "kernel \<Rightarrow> kernel" where
  "push_task k = k\<lparr>task_queue := (task_queue k)[unat (next_available k) := process_id k],
                   next_available := (next_available k + 1) mod 7\<rparr>"

text \<open>The first half of \<open>execute\<close>: finding the program; \<open>Inl\<close> is an early return.\<close>

definition execute_check :: "env \<Rightarrow> u32 \<Rightarrow> kernel \<Rightarrow> ((kernel \<times> u32) + (kernel \<times> u32 \<times> u32)) option" where
  "execute_check E command k =
     (case parse E command k of
        None \<Rightarrow> None
      | Some (k, fname) \<Rightarrow>
          (case strlen (view k) command of
             None \<Rightarrow> None
           | Some n \<Rightarrow>
               (let k = get_arg E command n k;
                    (i, k) = alloc_loop 0 MASK k
                in if i = 7 then map_option (\<lambda>k. Inl (k, 1)) (kernel_printf E (ascii ''Too many processes!'' @ [0x0A]) k)
                   else (case read_dentry_by_name (view k) (fsys k) fname (Some (stack_dentry E)) of
                           None \<Rightarrow> None
                         | Some (r, d) \<Rightarrow>
                             if r = - 1 then Some (Inl (k, - 1))
                             else (let dentry_temp = (case d of None \<Rightarrow> stack_dentry E | Some x \<Rightarrow> x)
                                   in case read_data (view k) (fsys k) (inode_num dentry_temp) 0 (elf_check E) 4 of
                                        None \<Rightarrow> None
                                      | Some (m, r) \<Rightarrow>
                                          (let k = set_view m k
                                           in if r = - 1 then Some (Inl (k, - 1))
                                              else if \<not> (m (elf_check E) = 0x7F \<and> m (elf_check E + 1) = 0x45 \<and>
                                                         m (elf_check E + 2) = 0x4C \<and> m (elf_check E + 3) = 0x46)
                                              then Some (Inl (k, - 1))
                                              else (case read_data (view k) (fsys k) (inode_num dentry_temp) 24 (buf_temp E) 4 of
                                                      None \<Rightarrow> None
                                                    | Some (m, r) \<Rightarrow>
                                                        (let k = set_view m k
                                                         in if r = - 1 then Some (Inl (k, - 1))
                                                            else Some (Inr (k, fname, load32 m (buf_temp E)))))))))))"

text \<open>The second half, once the image is loaded: the process control block and the switch.\<close>

definition execute_start :: "env \<Rightarrow> u32 \<Rightarrow> nat option \<Rightarrow> kernel \<Rightarrow> kernel" where
  "execute_start E previous_pcb pd k =
     (let k = k\<lparr>k_bp := kernel_bp (process_id k)\<rparr>;
          k = k\<lparr>curr_process := k_bp k AND 0xFFFFE000\<rparr>;
          k = update_pcb (curr_process k) (\<lambda>p. p\<lparr>pcb_process_id := ucast (process_id k), PD_ptr := pd,
                pcb_k_bp := k_bp k, k_sp := k_bp k\<rparr>) k;
          k = (if initial_shell k \<noteq> 0
               then (let k = update_pcb (curr_process k) (\<lambda>p. p\<lparr>parent_process := curr_process k, child_flag := 0\<rparr>) k;
                         k = update_pcb (parent_process (pcbs k (curr_process k))) (\<lambda>p. p\<lparr>child := - 1\<rparr>) k
                     in k\<lparr>initial_shell := 0\<rparr>)
               else (let k = update_pcb (curr_process k) (\<lambda>p. p\<lparr>parent_process := previous_pcb\<rparr>) k
                     in update_pcb (parent_process (pcbs k (curr_process k)))
                          (\<lambda>p. p\<lparr>child_flag := 1, child := process_id k\<rparr>) k));
          k = update_pcb (curr_process k) (\<lambda>p. p\<lparr>file_fds := replicate 8 closed_file\<rparr>) k;
          k = push_task k;
          k = stdin 0 k;
          k = stdout 1 k;
          k = push_task k;
          k = k\<lparr>tss_esp0 := k_sp (pcbs k (curr_process k)), tss_ss0 := KERNEL_DS\<rparr>
      in if previous_pcb \<noteq> NULL
         then update_pcb previous_pcb (\<lambda>p. p\<lparr>k_sp := esp E, pcb_k_bp := ebp E\<rparr>) k else k)"

definition execute :: "env \<Rightarrow> u32 \<Rightarrow> kernel \<Rightarrow> (kernel \<times> control) option" where
  "execute E command k =
     (let previous_pcb = curr_process k
      in case execute_check E command k of
           None \<Rightarrow> None
         | Some (Inl (k, r)) \<Rightarrow> Some (k, Return r)
         | Some (Inr (k, fname, entry_addr)) \<Rightarrow>
             (case task_mem_init (process_id k) (pg k) of
                (p, None) \<Rightarrow>
                  map_option (\<lambda>k. (k, Return 1)) (kernel_printf E (ascii ''Too many processes!'' @ [0x0A]) (k\<lparr>pg := p\<rparr>))
              | (p, Some pd) \<Rightarrow>
                  (let k = k\<lparr>pg := p\<rparr>
                   in case program_load (view k) (fsys k) (stack_dentry E) fname PGRM_IMG of
                        None \<Rightarrow> None
                      | Some (m, r) \<Rightarrow>
                          (let k = set_view m k
                           in if r = - 1 then Some (k, Return (- 1))
                              else Some (execute_start E previous_pcb (Some pd) k, Userspace entry_addr)))))"

definition halt :: "env \<Rightarrow> u8 \<Rightarrow> kernel \<Rightarrow> (kernel \<times> control) option" where
  "halt E st k =
     (let cur = pcbs k (curr_process k);
          parent = parent_process cur
      in if curr_process k = parent
         then map_option (\<lambda>k. (k, Spin))
                (kernel_printf E (ascii ''YOU CAN CHECK OUT, BUT YOU CAN NEVER LEAVE...'' @ [0x0A]) k)
         else (let k = k\<lparr>retval := ucast st\<rparr>;
                   k = k\<lparr>open_processes :=
                          open_processes k XOR ucast (drop_bit (unat (pcb_process_id cur)) (0x80 :: u32))\<rparr>;
                   k = update_pcb parent (\<lambda>p. p\<lparr>child_flag := 0\<rparr>) k;
                   k = k\<lparr>tss_esp0 := k_sp (pcbs k parent)\<rparr>;
                   k = k\<lparr>pg := set_PDBR (PD_ptr (pcbs k parent)) (pg k)\<rparr>;
                   p_sp = k_sp (pcbs k parent);
                   p_bp = pcb_k_bp (pcbs k parent);
                   halting_task = (next_available k - 1) mod 7;
                   k = k\<lparr>task_queue := (task_queue k)[unat halting_task := - 1]\<rparr>;
                   k = k\<lparr>next_available := halting_task\<rparr>;
                   k = k\<lparr>curr_process := parent_process (pcbs k (curr_process k))\<rparr>
               in Some (k, Ret_halt p_sp p_bp)))"

section \<open>Switching\<close>

definition context_switch :: "env \<Rightarrow> u32 \<Rightarrow> kernel \<Rightarrow> kernel \<times> control" where
  "context_switch E new_pid k =
     (if new_pid = - 1 then (kernel_send_eoi 0 k, Return 0)
      else (let new_process = pcb_addr new_pid;
                k = k\<lparr>pg := set_PDBR (PD_ptr (pcbs k new_process)) (pg k)\<rparr>;
                k = k\<lparr>tss_esp0 := k_sp (pcbs k new_process)\<rparr>;
                p_sp = k_sp (pcbs k new_process);
                p_bp = pcb_k_bp (pcbs k new_process);
                k = k\<lparr>tty := (tty k)\<lparr>process_buf := sint (file_pos (file_fds (pcbs k new_process) ! 1))\<rparr>\<rparr>;
                k = k\<lparr>process_id := new_pid\<rparr>;
                k = update_pcb (curr_process k) (\<lambda>p. p\<lparr>k_sp := esp E, pcb_k_bp := ebp E\<rparr>) k;
                k = k\<lparr>curr_process := new_process\<rparr>
            in (kernel_send_eoi 0 k, Switched p_sp p_bp)))"

text \<open>The search of \<open>scheduling\<close>: the result has \<open>j\<close> and \<open>next_pid\<close>.\<close>

function schedule_loop :: "u32 \<Rightarrow> u32 \<Rightarrow> u32 \<Rightarrow> kernel \<Rightarrow> u32 \<times> u32 \<times> kernel" where
  "schedule_loop num_tasks j next_pid k =
     (if j < num_tasks
      then (let next_pid = task_queue k ! unat (next_task k);
                next_pcb = pcb_addr next_pid;
                k = k\<lparr>task_queue := (task_queue k)[unat (next_task k) := - 1]\<rparr>;
                k = k\<lparr>next_task := (next_task k + 1) mod 7\<rparr>;
                k = k\<lparr>task_queue := (task_queue k)[unat (next_available k) := next_pid]\<rparr>;
                k = k\<lparr>next_available := (next_available k + 1) mod 7\<rparr>
            in if child_flag (pcbs k next_pcb) = 0 \<and>
                  next_pid \<noteq> ucast (pcb_process_id (pcbs k (curr_process k)))
               then (j, next_pid, k)
               else schedule_loop num_tasks (j + 1) next_pid k)
      else (j, next_pid, k))"
  by pat_completeness auto
termination
  by (relation "measure (\<lambda>(num_tasks, j, next_pid, k). unat num_tasks - unat j)") (simp_all add: unat_Suc_less)

declare schedule_loop.simps [simp del]

definition scheduling :: "env \<Rightarrow> kernel \<Rightarrow> kernel \<times> control" where
  "scheduling E k =
     (let num_tasks = of_nat (length (filter (\<lambda>t. t \<noteq> - 1) (take 7 (task_queue k))));
          (j, next_pid, k) = schedule_loop num_tasks 0 0 k
      in if j < num_tasks then context_switch E next_pid k else (k, Return 0))"

section \<open>File descriptors\<close>

text \<open>
  \<open>farray[fd].flags\<close>. The search of \<open>open\<close> reads past the eight descriptors when all are in use;
  the compiler lays out a \<open>pcb_t\<close> so that the next two words it looks at are the process number
  with its padding and the pointer to the parent. What follows the block is undefined.
\<close>

definition flags_at :: "env \<Rightarrow> pcb_t \<Rightarrow> nat \<Rightarrow> u32 option" where
  "flags_at E p fd =
     (if fd < 8 then Some (flags (file_fds p ! fd))
      else if fd = 8 then Some (ucast (pcb_process_id p) OR push_bit 8 (ucast (pcb_padding E)))
      else if fd = 9 then Some (parent_process p)
      else None)"

function free_fd :: "env \<Rightarrow> pcb_t \<Rightarrow> nat \<Rightarrow> nat option" where
  "free_fd E p fd =
     (case flags_at E p fd of
        None \<Rightarrow> None
      | Some f \<Rightarrow> if f = 1 then free_fd E p (Suc fd) else Some fd)"
  by pat_completeness auto
termination
  by (relation "measure (\<lambda>(E, p, fd). 10 - fd)") (auto simp: flags_at_def split: if_splits)

declare free_fd.simps [simp del]

definition sys_open :: "env \<Rightarrow> u32 \<Rightarrow> kernel \<Rightarrow> (kernel \<times> u32) option" where
  "sys_open E filename k =
     (let cur_PCB = curr_process k
      in case free_fd E (pcbs k cur_PCB) 0 of
           None \<Rightarrow> None
         | Some fd \<Rightarrow>
             if fd > 7 then Some (k, - 1)
             else (case read_dentry_by_name (view k) (fsys k) filename (Some (stack_dentry E)) of
                     None \<Rightarrow> None
                   | Some (r, d) \<Rightarrow>
                       if r = - 1 then Some (k, - 1)
                       else (let dentry = (case d of None \<Rightarrow> stack_dentry E | Some x \<Rightarrow> x);
                                 cur_file = file_fds (pcbs k cur_PCB) ! fd;
                                 finish = (\<lambda>k f r. let k = update_pcb cur_PCB (set_fd fd (\<lambda>_. f)) k
                                                   in Some (if r = - 1 then (k, - 1) else (k, of_nat fd)))
                             in if file_type dentry = 0
                                then (case rtc_open (dev E) (clock k) cur_file filename of
                                        (c, f, r) \<Rightarrow> finish (k\<lparr>clock := c\<rparr>) f r)
                                else if file_type dentry = 1
                                then (case dir_open cur_file filename of (f, r) \<Rightarrow> finish k f r)
                                else if file_type dentry = 2
                                then (case file_open (view k) (fsys k) (stack_dentry E) cur_file filename of
                                        None \<Rightarrow> None
                                      | Some (f, r) \<Rightarrow> finish k f r)
                                else Some (k, - 1))))"

text \<open>
  The \<open>read\<close> and \<open>write\<close> entries of the jump tables. The outer \<open>None\<close> is a NULL entry. A driver
  returns the state, the file entry and the value.
\<close>

type_synonym driver = "kernel \<Rightarrow> file_t \<Rightarrow> u32 \<Rightarrow> u32 \<Rightarrow> (kernel \<times> file_t \<times> u32) option"

fun read_fp :: "env \<Rightarrow> fops \<Rightarrow> driver option" where
  "read_fp E FileJt = Some (\<lambda>k f buf n.
     map_option (\<lambda>(m, f, r). (set_view m k, f, r)) (file_read (view k) (fsys k) f buf n))"
| "read_fp E DirectoryJt = Some (\<lambda>k f buf n.
     map_option (\<lambda>(m, f, r). (set_view m k, f, r)) (dir_read (view k) (fsys k) (stack_dentry E) f buf n))"
| "read_fp E RtcJt = Some (\<lambda>k f buf n.
     map_option (\<lambda>(c, f, r). (k\<lparr>clock := c\<rparr>, f, r)) (rtc_read (dev E) (rtc_irq E) (clock k) f buf n))"
| "read_fp E StdinJt = Some (\<lambda>k f buf n.
     map_option (\<lambda>(r, m, s, p). (set_view m (k\<lparr>tty := s, clock := (clock k)\<lparr>ports := p\<rparr>\<rparr>), f, r))
       (terminal_read (dev E) (kbd E) f buf n (view k, tty k, ports (clock k))))"
| "read_fp E StdoutJt = None"
| "read_fp E NoOps = None"

fun write_fp :: "env \<Rightarrow> fops \<Rightarrow> driver option" where
  "write_fp E FileJt = Some (\<lambda>k f buf n. case file_write f buf n of (f, r) \<Rightarrow> Some (k, f, r))"
| "write_fp E DirectoryJt = Some (\<lambda>k f buf n. case dir_write f buf n of (f, r) \<Rightarrow> Some (k, f, r))"
| "write_fp E RtcJt = Some (\<lambda>k f buf n.
     map_option (\<lambda>(c, f, r). (k\<lparr>clock := c\<rparr>, f, r)) (rtc_write (dev E) (view k) (clock k) f buf n))"
| "write_fp E StdinJt = None"
| "write_fp E StdoutJt = Some (\<lambda>k f buf n.
     map_option (\<lambda>(r, m, s). (set_view m (k\<lparr>tty := s\<rparr>), f, r))
       (terminal_write (conv_buf E) f buf n (view k, tty k)))"
| "write_fp E NoOps = None"

text \<open>\<open>read\<close> and \<open>write\<close> have the same text but for the entry they call.\<close>

definition call_driver :: "(fops \<Rightarrow> driver option) \<Rightarrow> u32 \<Rightarrow> u32 \<Rightarrow> u32 \<Rightarrow> kernel \<Rightarrow> (kernel \<times> u32) option" where
  "call_driver fp fd buf nbytes k =
     (if fd <s 0 \<or> 7 <s fd \<or> buf = NULL \<or> nbytes <s 0 then Some (k, - 1)
      else (let a = curr_process k; f = file_fds (pcbs k a) ! unat fd
            in if flags f = 0 then Some (k, - 1)
               else if file_op f = NoOps then None
               else (case fp (file_op f) of
                       None \<Rightarrow> Some (k, - 1)
                     | Some drv \<Rightarrow>
                         map_option (\<lambda>(k, f, r). (update_pcb a (set_fd (unat fd) (\<lambda>_. f)) k, r)) (drv k f buf nbytes))))"

definition sys_read :: "env \<Rightarrow> u32 \<Rightarrow> u32 \<Rightarrow> u32 \<Rightarrow> kernel \<Rightarrow> (kernel \<times> u32) option" where
  "sys_read E fd buf nbytes k = call_driver (read_fp E) fd buf nbytes k"

definition sys_write :: "env \<Rightarrow> u32 \<Rightarrow> u32 \<Rightarrow> u32 \<Rightarrow> kernel \<Rightarrow> (kernel \<times> u32) option" where
  "sys_write E fd buf nbytes k = call_driver (write_fp E) fd buf nbytes k"

definition sys_close :: "u32 \<Rightarrow> kernel \<Rightarrow> kernel \<times> u32" where
  "sys_close fd k =
     (let cur_PCB = curr_process k
      in if fd <s 2 \<or> 7 <s fd \<or> flags (file_fds (pcbs k cur_PCB) ! unat fd) = 0 then (k, - 1)
         else (update_pcb cur_PCB (set_fd (unat fd) (\<lambda>f. f\<lparr>flags := 0\<rparr>)) k, 0))"

section \<open>The other system calls\<close>

definition getargs :: "u32 \<Rightarrow> u32 \<Rightarrow> kernel \<Rightarrow> (kernel \<times> u32) option" where
  "getargs buf nbytes k =
     (case strlen (view k) (args k) of
        None \<Rightarrow> None
      | Some len \<Rightarrow>
          (let k = set_view (memset (view k) buf 0 nbytes) k;
               k = set_view (memcpy (view k) buf (args k) len) k
           in Some (k, 0)))"

definition vidmap :: "env \<Rightarrow> u32 \<Rightarrow> kernel \<Rightarrow> kernel \<times> u32" where
  "vidmap E screen_start k =
     (if screen_start < 0x08000000 \<or> screen_start \<ge> 0x08000000 + 0x00400000 then (k, - 1)
      else (case user_vidmap (pt_base E) (pg k) of
              (p, v) \<Rightarrow>
                (let k = k\<lparr>pg := p\<rparr>; k = set_view (store32 (view k) screen_start v) k in (k, 0))))"

definition set_handler :: "u32 \<Rightarrow> u32 \<Rightarrow> kernel \<Rightarrow> kernel \<times> u32" where
  "set_handler signum handler_address k = (k, - 1)"

definition sigreturn :: "kernel \<Rightarrow> kernel \<times> u32" where
  "sigreturn k = (k, - 1)"

end
