(* ===== verification/FilesysSpec.thy ===== *)
theory FilesysSpec
  imports Filesys
begin

text \<open>
  The abstract file system and the refinement: a file is the list of its bytes and the directory
  the list of its entries. \<open>image_wf\<close> says that the three pointers describe one image that fits
  the address space, \<open>inode_wf\<close> that an inode's blocks exist. Under them \<open>read_data\<close> returns the
  slice of the file it was asked for, reads in chunks of any sizes put the file together again,
  and \<open>program_load\<close> copies the whole program.
\<close>

section \<open>The image\<close>

definition image_size :: "mem \<Rightarrow> fs \<Rightarrow> nat" where
  "image_size m fs = 4096 * (1 + unat (num_inodes m fs) + unat (num_data_blocks m fs))"

definition image_wf :: "mem \<Rightarrow> fs \<Rightarrow> bool" where
  "image_wf m fs \<longleftrightarrow> fs = init_filesys m (boot_block fs) \<and> image_size m fs \<le> 2147483648
     \<and> unat (num_dir_entries m fs) \<le> 63"

definition file_size :: "mem \<Rightarrow> fs \<Rightarrow> u32 \<Rightarrow> nat" where
  "file_size m fs ino = unat (inode_length m (inode_addr fs ino))"

definition file_block :: "mem \<Rightarrow> fs \<Rightarrow> u32 \<Rightarrow> nat \<Rightarrow> u32" where
  "file_block m fs ino k = data_block_num m (inode_addr fs ino) (of_nat k)"

definition inode_wf :: "mem \<Rightarrow> fs \<Rightarrow> u32 \<Rightarrow> bool" where
  "inode_wf m fs ino \<longleftrightarrow> ino < num_inodes m fs \<and> file_size m fs ino \<le> 1023 * 4096
     \<and> list_all (\<lambda>k. file_block m fs ino k < num_data_blocks m fs) [0..<(file_size m fs ino + 4095) div 4096]"

text \<open>Byte \<open>p\<close> of a file, and the whole file.\<close>

definition file_byte :: "mem \<Rightarrow> fs \<Rightarrow> u32 \<Rightarrow> nat \<Rightarrow> u8" where
  "file_byte m fs ino p = m (data_block_addr fs (file_block m fs ino (p div 4096)) + of_nat (p mod 4096))"

definition file_content :: "mem \<Rightarrow> fs \<Rightarrow> u32 \<Rightarrow> u8 list" where
  "file_content m fs ino = map (file_byte m fs ino) [0..<file_size m fs ino]"

lemma length_file_content [simp]: "length (file_content m fs ino) = file_size m fs ino"
  by (simp add: file_content_def)

lemma file_size_le: "inode_wf m fs ino \<Longrightarrow> file_size m fs ino \<le> 4190208"
  by (simp add: inode_wf_def)

lemma inode_wf_block:
  "inode_wf m fs ino \<Longrightarrow> p < file_size m fs ino \<Longrightarrow> file_block m fs ino (p div 4096) < num_data_blocks m fs"
  unfolding inode_wf_def list_all_iff by auto

section \<open>Where the structures lie\<close>

abbreviation (input) in_image :: "mem \<Rightarrow> fs \<Rightarrow> u32 \<Rightarrow> bool" where
  "in_image m fs x \<equiv> in_range (boot_block fs) (image_size m fs) x"

lemma image_offset:
  "image_wf m fs \<Longrightarrow> k < image_size m fs \<Longrightarrow> in_image m fs (boot_block fs + of_nat k)"
  by (simp add: in_range_offset image_wf_def)

lemma image_wf_nodes: "image_wf m fs \<Longrightarrow> index_nodes fs = boot_block fs + 4096"
  unfolding image_wf_def init_filesys_def by (metis fs.select_convs(2))

lemma image_wf_blocks: "image_wf m fs \<Longrightarrow> data_blocks fs = boot_block fs + 4096 * (num_inodes m fs + 1)"
  unfolding image_wf_def init_filesys_def num_inodes_def by (metis fs.select_convs(3))

lemma boot_in_image: "image_wf m fs \<Longrightarrow> k < 4096 \<Longrightarrow> in_image m fs (boot_block fs + of_nat k)"
  by (rule image_offset) (simp_all add: image_size_def)

lemma inode_in_image:
  assumes "image_wf m fs" and "ino < num_inodes m fs" and "k < 4096"
  shows "in_image m fs (inode_addr fs ino + of_nat k)"
proof -
  have "inode_addr fs ino + of_nat k = boot_block fs + of_nat (4096 * (1 + unat ino) + k)"
    by (simp add: inode_addr_def image_wf_nodes [OF assms(1)])
  moreover have "4096 * (1 + unat ino) + k < image_size m fs"
    using assms(2,3) by (simp add: image_size_def word_less_nat_alt)
  ultimately show ?thesis using image_offset [OF assms(1)] by metis
qed

lemma block_offset:
  assumes "image_wf m fs"
  shows "data_block_addr fs b + of_nat k =
    boot_block fs + of_nat (4096 * (1 + unat (num_inodes m fs) + unat b) + k)"
  by (simp add: data_block_addr_def image_wf_blocks [OF assms] algebra_simps)

lemma block_in_image:
  assumes "image_wf m fs" and "b < num_data_blocks m fs" and "k < 4096"
  shows "in_image m fs (data_block_addr fs b + of_nat k)"
proof -
  have "4096 * (1 + unat (num_inodes m fs) + unat b) + k < image_size m fs"
    using assms(2,3) by (simp add: image_size_def word_less_nat_alt)
  then show ?thesis using image_offset [OF assms(1)] block_offset [OF assms(1)] by metis
qed

text \<open>A write outside the image leaves the file system as it was.\<close>

definition same_image :: "fs \<Rightarrow> mem \<Rightarrow> mem \<Rightarrow> bool" where
  "same_image fs m m' \<longleftrightarrow> (\<forall>x. in_image m fs x \<longrightarrow> m' x = m x)"

lemma same_image_refl [simp]: "same_image fs m m"
  by (simp add: same_image_def)

lemma load32_cong:
  "m' a = m a \<Longrightarrow> m' (a + 1) = m (a + 1) \<Longrightarrow> m' (a + 2) = m (a + 2) \<Longrightarrow> m' (a + 3) = m (a + 3)
   \<Longrightarrow> load32 m' a = load32 m a"
  by (simp add: load32_def)

lemma same_image_load32:
  assumes "same_image fs m m'" and "\<And>i. i < 4 \<Longrightarrow> in_image m fs (a + of_nat i)"
  shows "load32 m' a = load32 m a"
  using assms(2) [of 0] assms(2) [of 1] assms(2) [of 2] assms(2) [of 3] assms(1)
  by (intro load32_cong) (simp_all add: same_image_def)

lemma same_image_boot32:
  assumes "image_wf m fs" and "same_image fs m m'" and "k + 3 < 4096"
  shows "load32 m' (boot_block fs + of_nat k) = load32 m (boot_block fs + of_nat k)"
proof (rule same_image_load32 [OF assms(2)])
  fix i :: nat assume "i < 4"
  then have "in_image m fs (boot_block fs + of_nat (k + i))"
    using assms(3) by (intro boot_in_image [OF assms(1)]) simp
  then show "in_image m fs (boot_block fs + of_nat k + of_nat i)" by (simp add: ac_simps)
qed

lemma same_image_inode32:
  assumes "image_wf m fs" and "same_image fs m m'" and "ino < num_inodes m fs" and "k + 3 < 4096"
  shows "load32 m' (inode_addr fs ino + of_nat k) = load32 m (inode_addr fs ino + of_nat k)"
proof (rule same_image_load32 [OF assms(2)])
  fix i :: nat assume "i < 4"
  then have "in_image m fs (inode_addr fs ino + of_nat (k + i))"
    using assms(4) by (intro inode_in_image [OF assms(1,3)]) simp
  then show "in_image m fs (inode_addr fs ino + of_nat k + of_nat i)" by (simp add: ac_simps)
qed

lemma same_image_header:
  assumes "image_wf m fs" and "same_image fs m m'"
  shows "num_dir_entries m' fs = num_dir_entries m fs" and "num_inodes m' fs = num_inodes m fs"
    and "num_data_blocks m' fs = num_data_blocks m fs"
  using same_image_boot32 [OF assms, of 0] same_image_boot32 [OF assms, of 4]
    same_image_boot32 [OF assms, of 8]
  by (simp_all add: num_dir_entries_def num_inodes_def num_data_blocks_def)

lemma same_image_size:
  assumes "image_wf m fs" and "same_image fs m m'"
  shows "image_size m' fs = image_size m fs"
  by (simp add: image_size_def same_image_header [OF assms])

lemma same_image_wf:
  assumes "image_wf m fs" and "same_image fs m m'"
  shows "image_wf m' fs"
proof -
  have "init_filesys m' (boot_block fs) = init_filesys m (boot_block fs)"
    using same_image_header(2) [OF assms] by (simp add: init_filesys_def num_inodes_def)
  then show ?thesis
    using assms(1) same_image_header [OF assms] same_image_size [OF assms] by (simp add: image_wf_def)
qed

lemma same_image_file_size:
  "image_wf m fs \<Longrightarrow> same_image fs m m' \<Longrightarrow> ino < num_inodes m fs \<Longrightarrow> file_size m' fs ino = file_size m fs ino"
  using same_image_inode32 [of m fs m' ino 0] by (simp add: file_size_def inode_length_def)

lemma same_image_file_block:
  "image_wf m fs \<Longrightarrow> same_image fs m m' \<Longrightarrow> ino < num_inodes m fs \<Longrightarrow> k < 1023 \<Longrightarrow>
   file_block m' fs ino k = file_block m fs ino k"
  using same_image_inode32 [of m fs m' ino "4 + 4 * k"]
  by (simp add: file_block_def data_block_num_def ac_simps)

lemma same_image_file_byte:
  assumes "image_wf m fs" and "same_image fs m m'" and "inode_wf m fs ino" and "p < file_size m fs ino"
  shows "file_byte m' fs ino p = file_byte m fs ino p"
proof -
  have "p div 4096 < 1023" and "ino < num_inodes m fs"
    using assms(3,4) by (auto simp: inode_wf_def)
  then have "file_block m' fs ino (p div 4096) = file_block m fs ino (p div 4096)"
    by (intro same_image_file_block [OF assms(1,2)])
  moreover have "in_image m fs (data_block_addr fs (file_block m fs ino (p div 4096)) + of_nat (p mod 4096))"
    using assms(1,3,4) by (intro block_in_image inode_wf_block) auto
  ultimately show ?thesis
    using assms(2) by (simp add: file_byte_def same_image_def)
qed

lemma same_image_content:
  assumes "image_wf m fs" and "same_image fs m m'" and "inode_wf m fs ino"
  shows "file_content m' fs ino = file_content m fs ino"
  using assms same_image_file_size [OF assms(1,2)] same_image_file_byte [OF assms]
  by (simp add: file_content_def inode_wf_def)

lemma same_image_inode_wf:
  assumes "image_wf m fs" and "same_image fs m m'" and "inode_wf m fs ino"
  shows "inode_wf m' fs ino"
proof -
  have ino: "ino < num_inodes m fs" using assms(3) by (simp add: inode_wf_def)
  have "file_block m' fs ino k < num_data_blocks m fs" if "k < (file_size m fs ino + 4095) div 4096" for k
  proof -
    have "k < 1023" using that file_size_le [OF assms(3)] by linarith
    then show ?thesis
      using that assms(3) by (simp add: same_image_file_block [OF assms(1,2) ino] inode_wf_def list_all_iff)
  qed
  then show ?thesis
    using assms(3)
    by (simp add: inode_wf_def list_all_iff same_image_header [OF assms(1,2)]
        same_image_file_size [OF assms(1,2) ino])
qed

lemma same_image_store:
  assumes "disj_ranges a (length bs) (boot_block fs) (image_size m fs)" and "length bs \<le> 4294967296"
  shows "same_image fs m (store_bytes m a bs)"
  unfolding same_image_def
  using assms disj_rangesD by (auto simp: store_bytes_apply)

section \<open>read_data computes a slice of the file\<close>

definition file_slice :: "mem \<Rightarrow> fs \<Rightarrow> u32 \<Rightarrow> nat \<Rightarrow> nat \<Rightarrow> u8 list" where
  "file_slice m fs ino off n = take n (drop off (file_content m fs ino))"

lemma length_file_slice: "length (file_slice m fs ino off n) = min n (file_size m fs ino - off)"
  by (simp add: file_slice_def min.commute)

text \<open>The part of a file that lies in one block is a piece of the data block.\<close>

lemma file_block_bytes:
  assumes "p + n \<le> 4096" and "4096 * k + p + n \<le> file_size m fs ino"
  shows "load_bytes m (data_block_addr fs (file_block m fs ino k) + of_nat p) n =
    file_slice m fs ino (4096 * k + p) n"
proof (rule nth_equalityI)
  show "length (load_bytes m (data_block_addr fs (file_block m fs ino k) + of_nat p) n) =
    length (file_slice m fs ino (4096 * k + p) n)"
    using assms(2) by (simp add: length_file_slice)
next
  fix i assume "i < length (load_bytes m (data_block_addr fs (file_block m fs ino k) + of_nat p) n)"
  then have i: "i < n" by simp
  then have "(4096 * k + p + i) div 4096 = k" and "(4096 * k + p + i) mod 4096 = p + i"
    using assms(1) by (auto simp: add.assoc)
  then show "load_bytes m (data_block_addr fs (file_block m fs ino k) + of_nat p) n ! i =
    file_slice m fs ino (4096 * k + p) n ! i"
    using i assms(2) by (simp add: file_slice_def file_content_def file_byte_def ac_simps)
qed

lemma file_slice_append:
  "file_slice m fs ino off n @ file_slice m fs ino (off + n) k = file_slice m fs ino off (n + k)"
  by (simp add: file_slice_def take_add add.commute [of off n])

text \<open>One pass of the loop: the piece of block \<open>k\<close> from \<open>p\<close> is appended to what is copied.\<close>

lemma read_block:
  assumes wf: "image_wf m fs" and ino: "inode_wf m fs ino"
    and bound: "p + n \<le> 4096" "4096 * k + p + n \<le> file_size m fs ino" "0 < n"
    and c: "off + c = 4096 * k + p" "c + n \<le> len"
    and disj: "disj_ranges buf len (boot_block fs) (image_size m fs)" and len: "len < 4294967296"
  shows "memcpy (store_bytes m buf (file_slice m fs ino off c)) (buf + of_nat c)
      (data_block_addr fs (file_block m fs ino k) + of_nat p) (of_nat n)
    = store_bytes m buf (file_slice m fs ino off (c + n))"
proof -
  let ?m = "store_bytes m buf (file_slice m fs ino off c)"
  let ?src = "data_block_addr fs (file_block m fs ino k) + of_nat p"
  have size: "file_size m fs ino \<le> 4190208" by (rule file_size_le [OF ino])
  have lc: "length (file_slice m fs ino off c) = c"
    using bound c by (simp add: length_file_slice)
  have un: "unat (of_nat n :: u32) = n" using bound by (intro unat_of_nat32) simp
  have same: "same_image fs m ?m"
    using c(2) lc len by (intro same_image_store disj_ranges_sub [OF disj]) simp_all
  have "(4096 * k + p) div 4096 = k" using bound by simp
  then have blk: "file_block m fs ino k < num_data_blocks m fs"
    using inode_wf_block [OF ino, of "4096 * k + p"] bound by simp
  have src: "in_image m fs (?src + of_nat i)" if "i < n" for i
    using block_in_image [OF wf blk, of "p + i"] that bound(1) by (simp add: ac_simps)
  have sub: "disj_ranges (buf + of_nat c) (unat (of_nat n :: u32)) ?src (unat (of_nat n :: u32))"
  proof (rule disj_rangesI)
    fix x assume d: "in_range (buf + of_nat c) (unat (of_nat n :: u32)) x"
      and "in_range ?src (unat (of_nat n :: u32)) x"
    then obtain i where "i < n" "x = ?src + of_nat i" using in_range_D un by metis
    then have "in_image m fs x" using src by blast
    moreover have "in_range buf len x"
      using c(2) len by (intro in_range_sub [OF _ d]) (simp add: un unat_of_nat32)
    ultimately show False using disj disj_rangesD by blast
  qed
  have "load_bytes ?m ?src n = load_bytes m ?src n"
    using same src by (intro nth_equalityI) (simp_all add: same_image_def)
  also have "\<dots> = file_slice m fs ino (off + c) n"
    using file_block_bytes [OF bound(1,2)] c(1) by simp
  finally have ld: "load_bytes ?m ?src n = file_slice m fs ino (off + c) n" .
  have "memcpy ?m (buf + of_nat c) ?src (of_nat n) =
    store_bytes ?m (buf + of_nat c) (file_slice m fs ino (off + c) n)"
    using memcpy.copy_store_bytes [OF sub] by (simp add: un ld)
  also have "\<dots> = store_bytes m buf (file_slice m fs ino off c @ file_slice m fs ino (off + c) n)"
    by (simp add: store_bytes_append lc)
  finally show ?thesis by (simp add: file_slice_append)
qed

lemma of_nat_div32: "a < 4294967296 \<Longrightarrow> (of_nat a :: u32) div 4096 = of_nat (a div 4096)"
  by (simp add: word_arith_nat_div unat_of_nat32)

lemma of_nat_mod32: "a < 4294967296 \<Longrightarrow> (of_nat a :: u32) mod 4096 = of_nat (a mod 4096)"
  by (simp add: word_arith_nat_mod unat_of_nat32)

lemma of_nat_less32:
  "a < 4294967296 \<Longrightarrow> b < 4294967296 \<Longrightarrow> (of_nat a :: u32) < of_nat b \<longleftrightarrow> a < b"
  by (simp add: word_less_nat_alt unat_of_nat32)

lemma of_nat_min32:
  "a < 4294967296 \<Longrightarrow> b < 4294967296 \<Longrightarrow>
   (if (of_nat a :: u32) < of_nat b then of_nat a else of_nat b) = (of_nat (min a b) :: u32)"
  by (simp add: of_nat_less32)

text \<open>The length one pass copies, in the two branches of the code.\<close>

lemma copy_len_first:
  assumes "len < 4294967296" and "off < 4294967296"
  shows "(if 4096 - (of_nat off :: u32) mod 4096 < of_nat len
      then 4096 - of_nat off mod 4096 else of_nat len) = (of_nat (min (4096 - off mod 4096) len) :: u32)"
proof -
  have "4096 - (of_nat off :: u32) mod 4096 = of_nat (4096 - off mod 4096)"
    using assms(2) by (simp add: of_nat_mod32 of_nat_diff less_imp_le)
  then show ?thesis using of_nat_min32 [of "4096 - off mod 4096" len] assms(1) by (simp only:)
qed

lemma copy_len_next:
  assumes "len < 4294967296" and "c \<le> len"
  shows "(if (of_nat len :: u32) - of_nat c > 4096 then 4096 else of_nat len - of_nat c)
    = (of_nat (min 4096 (len - c)) :: u32)"
proof -
  have "(of_nat len :: u32) - of_nat c = of_nat (len - c)"
    using assms(2) by (simp add: of_nat_diff)
  moreover have "(4096 :: u32) < of_nat (len - c) \<longleftrightarrow> 4096 < len - c"
    using of_nat_less32 [of 4096 "len - c"] assms(1) by (simp only: of_nat_numeral)
  ultimately show ?thesis by (simp only:) (simp add: min_def)
qed

lemma read_data_loop_steps:
  assumes wf: "image_wf m fs" and ino: "inode_wf m fs ino"
    and bound: "off + len \<le> file_size m fs ino"
    and disj: "disj_ranges buf len (boot_block fs) (image_size m fs)"
  shows "c \<le> len \<Longrightarrow> i \<le> c \<Longrightarrow> (i = 0 \<and> c = 0) \<or> c = len \<or> (0 < i \<and> off + c = 4096 * (off div 4096 + i)) \<Longrightarrow>
    read_data_loop (store_bytes m buf (file_slice m fs ino off c)) fs (inode_addr fs ino) (of_nat off)
      (buf + of_nat c) (of_nat len) (of_nat c) (of_nat i)
    = Some (store_bytes m buf (file_slice m fs ino off len), of_nat len)"
proof (induction "len - c" arbitrary: c i rule: less_induct)
  case less
  have size: "file_size m fs ino \<le> 4190208" by (rule file_size_le [OF ino])
  have cw: "(of_nat c :: u32) < of_nat len \<longleftrightarrow> c < len"
    using less.prems(1) bound size by (simp add: word_less_nat_alt unat_of_nat32)
  show ?case
  proof (cases "c < len")
    case False
    then show ?thesis using less.prems(1) by (subst read_data_loop.simps) simp
  next
    case True
    let ?m = "store_bytes m buf (file_slice m fs ino off c)"
    define k where "k = off div 4096 + i"
    define p where "p = (if i = 0 then off mod 4096 else 0)"
    define n where "n = min (4096 - p) (len - c)"
    have c: "off + c = 4096 * k + p"
      using less.prems(3) True by (auto simp: k_def p_def)
    have p: "p < 4096" by (simp add: p_def)
    have n: "0 < n" "p + n \<le> 4096" "c + n \<le> len" "4096 * k + p + n \<le> file_size m fs ino"
      using True p c bound by (auto simp: n_def)
    have same: "same_image fs m ?m"
      using True bound size
      by (intro same_image_store disj_ranges_sub [OF disj]) (simp_all add: length_file_slice)
    have inoN: "ino < num_inodes m fs" using ino by (simp add: inode_wf_def)
    have k: "k < 1023" using n size by linarith
    have lt: "off < 4294967296" "len < 4294967296" "i < 4294967296"
      using bound size less.prems(1,2) by linarith+
    have blk: "data_block_num ?m (inode_addr fs ino) (of_nat i + of_nat off div 4096) = file_block m fs ino k"
      using same_image_file_block [OF wf same inoN k] lt
      by (simp add: file_block_def of_nat_div32 k_def add.commute)
    have valid: "file_block m fs ino k < num_data_blocks ?m fs"
      using inode_wf_block [OF ino, of "4096 * k + p"] p n
      by (simp add: same_image_header [OF wf same])
    have i0: "(of_nat i :: u32) = 0 \<longleftrightarrow> i = 0" using lt of_nat_eq32 [of i 0] by simp
    define b where "b = file_block m fs ino k"
    have chk: "(num_data_blocks ?m fs \<le> b \<or> b < 0) = False"
      using valid by (simp add: b_def not_le)
    have start: "(if (of_nat i :: u32) = 0 then data_block_addr fs b + of_nat off mod 4096 else data_block_addr fs b)
      = data_block_addr fs b + of_nat p"
      using lt by (simp add: i0 p_def of_nat_mod32)
    have cl: "(if (of_nat i :: u32) = 0
        then (if 4096 - (of_nat off :: u32) mod 4096 < of_nat len then 4096 - of_nat off mod 4096 else of_nat len)
        else (if (of_nat len :: u32) - of_nat c > 4096 then 4096 else of_nat len - of_nat c)) = (of_nat n :: u32)"
      unfolding i0 copy_len_first [OF lt(2,1)] copy_len_next [OF lt(2) less.prems(1)]
      using less.prems(3) True by (auto simp: n_def p_def)
    have step: "memcpy ?m (buf + of_nat c) (data_block_addr fs b + of_nat p) (of_nat n)
      = store_bytes m buf (file_slice m fs ino off (c + n))"
      unfolding b_def by (rule read_block [OF wf ino n(2,4,1) c n(3) disj lt(2)])
    have "read_data_loop ?m fs (inode_addr fs ino) (of_nat off) (buf + of_nat c) (of_nat len) (of_nat c) (of_nat i)
      = read_data_loop (store_bytes m buf (file_slice m fs ino off (c + n))) fs (inode_addr fs ino) (of_nat off)
      (buf + of_nat c + of_nat n) (of_nat len) (of_nat c + of_nat n) (of_nat i + 1)"
      by (subst read_data_loop.simps)
        (simp only: blk Let_def b_def [symmetric] start cl step cw True if_True chk if_False)
    also have "\<dots> = Some (store_bytes m buf (file_slice m fs ino off len), of_nat len)"
    proof -
      have "c + n = len \<or> off + (c + n) = 4096 * (off div 4096 + Suc i)"
        using c p True unfolding n_def k_def min_def by auto
      then show ?thesis
        using less.hyps [of "c + n" "Suc i"] n True less.prems(2) by (simp add: ac_simps)
    qed
    finally show ?thesis .
  qed
qed

text \<open>The clamped length, without the wrap-around of \<open>offset + length\<close>.\<close>

lemma read_data_clamped:
  assumes wf: "image_wf m fs" and ino: "inode_wf m fs ino"
    and nowrap: "unat offset < file_size m fs ino \<longrightarrow> unat offset + unat len < 4294967296"
    and disj: "disj_ranges buf (length bs) (boot_block fs) (image_size m fs)"
    and bs_def: "bs = file_slice m fs ino (unat offset) (unat len)"
  shows "read_data m fs ino offset buf len = Some (store_bytes m buf bs, of_nat (length bs))"
proof (cases "offset < inode_length m (inode_addr fs ino)")
  case False
  then have "file_size m fs ino \<le> unat offset" by (simp add: file_size_def word_less_nat_alt)
  then have "bs = []" by (simp add: bs_def file_slice_def)
  then show ?thesis using ino False by (simp add: read_data_def inode_wf_def not_le not_less)
next
  case True
  define n where "n = length bs"
  have n: "n = min (unat len) (file_size m fs ino - unat offset)"
    by (simp add: n_def bs_def length_file_slice)
  have lt: "unat offset < file_size m fs ino" using True by (simp add: file_size_def word_less_nat_alt)
  have clamp: "(if offset + len > inode_length m (inode_addr fs ino)
      then inode_length m (inode_addr fs ino) - offset else len) = of_nat n"
  proof -
    have "unat (offset + len) = unat offset + unat len"
      using nowrap lt by (subst unat_add_lem [THEN iffD1]) simp_all
    moreover have "inode_length m (inode_addr fs ino) - offset = of_nat (file_size m fs ino - unat offset)"
      using lt by (simp add: file_size_def of_nat_diff)
    ultimately show ?thesis
      using lt by (auto simp: n word_less_nat_alt file_size_def min_def)
  qed
  have bs: "bs = file_slice m fs ino (unat offset) n"
    unfolding n by (simp add: bs_def file_slice_def min_def)
  have "read_data_loop (store_bytes m buf (file_slice m fs ino (unat offset) 0)) fs (inode_addr fs ino)
      (of_nat (unat offset)) (buf + of_nat 0) (of_nat n) (of_nat 0) (of_nat 0)
    = Some (store_bytes m buf (file_slice m fs ino (unat offset) n), of_nat n)"
  proof (rule read_data_loop_steps [OF wf ino])
    show "unat offset + n \<le> file_size m fs ino" using lt by (simp add: n)
    show "disj_ranges buf n (boot_block fs) (image_size m fs)"
      unfolding n_def by (rule disj)
  qed simp_all
  then have "read_data_loop m fs (inode_addr fs ino) offset buf (of_nat n) 0 0
    = Some (store_bytes m buf bs, of_nat n)"
    by (simp add: bs file_slice_def)
  then show ?thesis
    using ino True unfolding read_data_def Let_def clamp
    by (simp add: inode_wf_def not_le n_def) (simp add: not_less [symmetric])
qed

lemma read_data_slice:
  assumes "image_wf m fs" and "inode_wf m fs ino" and "unat offset + unat len < 4294967296"
    and "disj_ranges buf (unat len) (boot_block fs) (image_size m fs)"
    and "bs = file_slice m fs ino (unat offset) (unat len)"
  shows "read_data m fs ino offset buf len = Some (store_bytes m buf bs, of_nat (length bs))"
  using assms by (intro read_data_clamped disj_ranges_sub [OF assms(4)]) (simp_all add: length_file_slice)

section \<open>read_data on any image\<close>

text \<open>
  Whatever the image holds: the loop ends, and it writes only to the buffer. \<open>i\<close> cannot wrap
  around because every pass but the first and the last copies a whole block.
\<close>

lemma read_data_loop_safe:
  assumes len: "len < 4294967296"
  shows "c \<le> len \<Longrightarrow> i = 0 \<and> c = 0 \<or> 0 < i \<and> (4096 * (i - 1) \<le> c) \<Longrightarrow>
    \<exists>m' r. read_data_loop m fs ip offset (buf + of_nat c) (of_nat len) (of_nat c) (of_nat i) = Some (m', r)
      \<and> (r = - 1 \<or> r = of_nat len) \<and> (\<forall>x. \<not> in_range buf len x \<longrightarrow> m' x = m x)"
proof (induction "len - c" arbitrary: m c i rule: less_induct)
  case less
  show ?case
  proof (cases "c < len")
    case False
    then show ?thesis using less.prems(1) by (subst read_data_loop.simps) auto
  next
    case True
    define off where "off = unat offset"
    have offw: "offset = of_nat off" "off < 4294967296" by (simp_all add: off_def)
    define n where "n = (if i = 0 then min (4096 - off mod 4096) len else min 4096 (len - c))"
    have ilt: "i < 4294967296" using less.prems True len by auto
    have i0: "(of_nat i :: u32) = 0 \<longleftrightarrow> i = 0" using ilt of_nat_eq32 [of i 0] by simp
    have n: "0 < n" "c + n \<le> len" using True less.prems by (auto simp: n_def)
    have cw: "(of_nat c :: u32) < of_nat len" using True len by (simp add: of_nat_less32)
    have cl: "(if (of_nat i :: u32) = 0
        then (if 4096 - offset mod 4096 < of_nat len then 4096 - offset mod 4096 else of_nat len)
        else (if (of_nat len :: u32) - of_nat c > 4096 then 4096 else of_nat len - of_nat c)) = (of_nat n :: u32)"
      unfolding i0 offw(1) copy_len_first [OF len offw(2)] copy_len_next [OF len less.prems(1)]
      by (auto simp: n_def)
    define b where "b = data_block_num m ip (of_nat i + offset div 4096)"
    define src where "src = (if (of_nat i :: u32) = 0 then data_block_addr fs b + offset mod 4096
      else data_block_addr fs b)"
    define m1 where "m1 = memcpy m (buf + of_nat c) src (of_nat n)"
    have m1: "m1 x = m x" if "\<not> in_range buf len x" for x
    proof -
      have un: "unat (of_nat n :: u32) = n" "unat (of_nat c :: u32) = c"
        using n len by (simp_all add: unat_of_nat32)
      have "\<not> in_range (buf + of_nat c) n x"
        using that n(2) in_range_sub [of "buf + of_nat c" buf n len x] by (auto simp: un)
      then show ?thesis unfolding m1_def by (intro memcpy_frame) (simp add: un)
    qed
    have step: "read_data_loop m fs ip offset (buf + of_nat c) (of_nat len) (of_nat c) (of_nat i) =
      (if num_data_blocks m fs \<le> b \<or> b < 0 then Some (m, - 1)
       else read_data_loop m1 fs ip offset (buf + of_nat (c + n)) (of_nat len) (of_nat (c + n)) (of_nat (Suc i)))"
      by (subst read_data_loop.simps)
        (simp only: cw if_True Let_def b_def [symmetric] src_def [symmetric] cl m1_def [symmetric],
          simp add: ac_simps)
    show ?thesis
    proof (cases "num_data_blocks m fs \<le> b \<or> b < 0")
      case True
      then show ?thesis unfolding step by auto
    next
      case False
      define rest where "rest = read_data_loop m1 fs ip offset (buf + of_nat (c + n)) (of_nat len)
        (of_nat (c + n)) (of_nat (Suc i))"
      have "\<exists>m' r. rest = Some (m', r) \<and> (r = - 1 \<or> r = of_nat len)
        \<and> (\<forall>x. \<not> in_range buf len x \<longrightarrow> m' x = m1 x)"
      proof (cases "c + n = len")
        case True
        then show ?thesis unfolding rest_def by (subst read_data_loop.simps) simp
      next
        case False
        have "4096 * i \<le> c + n" using less.prems False by (auto simp: n_def min_def split: if_splits)
        then show ?thesis
          using less.hyps [of "c + n" "Suc i" m1] n True unfolding rest_def by simp
      qed
      then show ?thesis using False m1 unfolding step rest_def [symmetric] by auto
    qed
  qed
qed

lemma read_data_total:
  "\<exists>m' r. read_data m fs inode offset buf len = Some (m', r) \<and> (r = - 1 \<or> unat r \<le> unat len)
     \<and> (\<forall>x. \<not> in_range buf (unat len) x \<longrightarrow> m' x = m x)"
proof (cases "inode \<ge> num_inodes m fs \<or> offset \<ge> inode_length m (inode_addr fs inode)")
  case True
  then show ?thesis by (auto simp: read_data_def Let_def)
next
  case False
  define ip where "ip = inode_addr fs inode"
  define n where "n = (if offset + len > inode_length m ip then inode_length m ip - offset else len)"
  have "unat n \<le> unat len"
  proof (cases "offset + len > inode_length m ip")
    case True
    have "unat (inode_length m ip - offset) = unat (inode_length m ip) - unat offset"
      using False by (intro unat_sub less_imp_le) (simp add: ip_def not_le)
    then show ?thesis
      using True by (auto simp: n_def word_less_nat_alt unat_plus_if' split: if_splits)
  qed (simp add: n_def)
  obtain m' r where l: "read_data_loop m fs ip offset (buf + of_nat 0) (of_nat (unat n)) (of_nat 0) (of_nat 0) = Some (m', r)"
    and r: "r = - 1 \<or> r = of_nat (unat n)" and fr: "\<And>x. \<not> in_range buf (unat n) x \<Longrightarrow> m' x = m x"
    using read_data_loop_safe [of "unat n" 0 0 m fs ip offset buf] by auto
  from l have l': "read_data_loop m fs ip offset buf n 0 0 = Some (m', r)" by simp
  have "read_data m fs inode offset buf len = Some (m', r)"
    using False l' unfolding read_data_def Let_def ip_def n_def by simp
  moreover have "m' x = m x" if "\<not> in_range buf (unat len) x" for x
    using fr that \<open>unat n \<le> unat len\<close> in_range_mono by blast
  ultimately show ?thesis using r \<open>unat n \<le> unat len\<close> by auto
qed

text \<open>When \<open>offset + length\<close> wraps around the length is not cut at the end of the file.\<close>

lemma read_data_wraps:
  assumes "inode_wf m fs ino" and "unat offset < file_size m fs ino" and "4294967296 \<le> unat offset + unat len"
  shows "\<exists>m' r. read_data m fs ino offset buf len = Some (m', r) \<and> (r = - 1 \<or> r = len)"
proof -
  define ip where "ip = inode_addr fs ino"
  have lt: "unat offset < unat (inode_length m ip)" using assms(2) by (simp add: file_size_def ip_def)
  have "unat (offset + len) = unat offset + unat len - 4294967296"
    using assms(3) unat_lt32 [of len] by (simp add: unat_plus_if')
  moreover have "unat len < 4294967296" by (rule unat_lt32)
  ultimately have "\<not> unat (inode_length m ip) < unat (offset + len)" using lt by linarith
  then have "\<not> offset + len > inode_length m ip" by (simp add: word_less_nat_alt)
  then have "read_data m fs ino offset buf len = read_data_loop m fs ip offset buf len 0 0"
    using assms(1) lt by (simp add: read_data_def Let_def ip_def inode_wf_def not_le word_less_nat_alt word_le_nat_alt)
  then show ?thesis
    using read_data_loop_safe [of "unat len" 0 0 m fs ip offset buf] by auto
qed

section \<open>Reading an open file\<close>

lemma image_wf_inode: "image_wf m fs \<Longrightarrow> ino < num_inodes m fs \<Longrightarrow> unat ino < 524288"
  by (simp add: image_wf_def image_size_def word_less_nat_alt)

lemma inode_of_ptr:
  assumes "unat ino < 524288"
  shows "signed_drop_bit 12 (inode_addr fs ino - index_nodes fs) = ino"
proof -
  have "inode_addr fs ino - index_nodes fs = of_nat (4096 * unat ino)"
    by (simp add: inode_addr_def)
  moreover have "sint (of_nat (4096 * unat ino) :: u32) = int (4096 * unat ino)"
    using assms by (intro sint_of_nat32) simp
  ultimately have "sint (signed_drop_bit 12 (inode_addr fs ino - index_nodes fs)) = int (unat ino)"
    by (simp add: sint_signed_drop_bit_eq drop_bit_eq_div)
  then have "of_int (sint (signed_drop_bit 12 (inode_addr fs ino - index_nodes fs))) = (of_int (int (unat ino)) :: u32)"
    by (simp only:)
  then show ?thesis by simp
qed

lemma nonneg_unat32: "\<not> (n :: u32) <s 0 \<longleftrightarrow> unat n < 2147483648"
proof (cases "unat n < 2147483648")
  case True
  then show ?thesis by (simp add: word_sless_alt sint_unat32)
next
  case False
  have "int (unat n) = uint n" "unat n < 4294967296" by (simp, rule unat_lt32)
  then have n: "2147483648 \<le> uint n" "uint n < 4294967296" using False by linarith+
  have "(uint n + 2147483648) mod 4294967296 = uint n - 2147483648"
    using minus_mod_self2 [of "uint n + 2147483648" 4294967296] mod_pos_pos_trivial [of "uint n - 2147483648" 4294967296] n by simp
  then have "sint n = uint n - 4294967296"
    by (simp add: sint_uint signed_take_bit_eq_take_bit_shift take_bit_eq_mod)
  then show ?thesis using False n by (simp add: word_sless_alt)
qed

text \<open>A sequence of \<open>file_read\<close> calls, each into the bytes after the previous one's.\<close>

fun file_reads :: "mem \<Rightarrow> fs \<Rightarrow> file_t \<Rightarrow> u32 \<Rightarrow> u32 list \<Rightarrow> (mem \<times> file_t \<times> u32) option" where
  "file_reads m fs file buf [] = Some (m, file, 0)"
| "file_reads m fs file buf (n # ns) =
     (case file_read m fs file buf n of
        None \<Rightarrow> None
      | Some (m', file', r) \<Rightarrow>
          (case file_reads m' fs file' (buf + r) ns of
             None \<Rightarrow> None
           | Some (m'', file'', r') \<Rightarrow> Some (m'', file'', r + r')))"

lemma file_slice_min:
  "file_slice m fs ino off n @ file_slice m fs ino (off + length (file_slice m fs ino off n)) k
   = file_slice m fs ino off (n + k)"
proof (cases "off + n \<le> file_size m fs ino")
  case True
  then show ?thesis using file_slice_append [of m fs ino off n k] by (simp add: length_file_slice)
next
  case False
  then show ?thesis by (simp add: length_file_slice) (simp add: file_slice_def min_def)
qed

lemma same_image_slice:
  "image_wf m fs \<Longrightarrow> same_image fs m m' \<Longrightarrow> inode_wf m fs ino \<Longrightarrow>
   file_slice m' fs ino off n = file_slice m fs ino off n"
  unfolding file_slice_def using same_image_content by metis

lemma file_read_clamped:
  assumes wf: "image_wf m fs" and ino: "inode_wf m fs ino" and ptr: "inode_ptr file = inode_addr fs ino"
    and nowrap: "unat (file_pos file) < file_size m fs ino \<longrightarrow> unat (file_pos file) + unat n < 4294967296"
    and disj: "disj_ranges buf (length bs) (boot_block fs) (image_size m fs)"
    and bs_def: "bs = file_slice m fs ino (unat (file_pos file)) (unat n)"
  shows "file_read m fs file buf n = Some (store_bytes m buf bs,
    file\<lparr>file_pos := file_pos file + of_nat (length bs)\<rparr>, of_nat (length bs))"
proof -
  have "unat ino < 524288" using image_wf_inode [OF wf] ino by (simp add: inode_wf_def)
  then show ?thesis
    using read_data_clamped [OF wf ino nowrap disj bs_def]
    by (simp add: file_read_def Let_def ptr inode_of_ptr)
qed

lemma file_read_slice:
  assumes "image_wf m fs" and "inode_wf m fs ino" and "inode_ptr file = inode_addr fs ino"
    and "unat (file_pos file) + unat n < 4294967296"
    and "disj_ranges buf (unat n) (boot_block fs) (image_size m fs)"
    and "bs = file_slice m fs ino (unat (file_pos file)) (unat n)"
  shows "file_read m fs file buf n = Some (store_bytes m buf bs,
    file\<lparr>file_pos := file_pos file + of_nat (length bs)\<rparr>, of_nat (length bs))"
  using assms by (intro file_read_clamped disj_ranges_sub [OF assms(5)]) (simp_all add: length_file_slice)

lemma file_reads_slice:
  "image_wf m fs \<Longrightarrow> inode_wf m fs ino \<Longrightarrow> inode_ptr f = inode_addr fs ino \<Longrightarrow>
   unat (file_pos f) \<le> file_size m fs ino \<Longrightarrow> list_all (\<lambda>n. unat n < 2147483648) ns \<Longrightarrow>
   disj_ranges buf (length bs) (boot_block fs) (image_size m fs) \<Longrightarrow>
   bs = file_slice m fs ino (unat (file_pos f)) (sum_list (map unat ns)) \<Longrightarrow>
   file_reads m fs f buf ns = Some (store_bytes m buf bs,
     f\<lparr>file_pos := file_pos f + of_nat (length bs)\<rparr>, of_nat (length bs))"
proof (induction ns arbitrary: m f buf bs)
  case Nil
  then show ?case by (simp add: file_slice_def)
next
  case (Cons n ns)
  define pos where "pos = unat (file_pos f)"
  define b1 where "b1 = file_slice m fs ino pos (unat n)"
  define b2 where "b2 = file_slice m fs ino (pos + length b1) (sum_list (map unat ns))"
  define m1 where "m1 = store_bytes m buf b1"
  define file1 where "file1 = f\<lparr>file_pos := file_pos f + of_nat (length b1)\<rparr>"
  have size: "pos \<le> file_size m fs ino" "file_size m fs ino \<le> 4190208"
    using Cons.prems(4) file_size_le [OF Cons.prems(2)] by (simp_all add: pos_def)
  have l1: "pos + length b1 \<le> file_size m fs ino" using size(1) by (simp add: b1_def length_file_slice)
  then have ul1: "unat (of_nat (length b1) :: u32) = length b1" using size(2) by (intro unat_of_nat32) simp
  have bs: "bs = b1 @ b2"
    using Cons.prems(7) unfolding b1_def b2_def pos_def by (simp add: file_slice_min)
  note sub = disj_ranges_sub [OF Cons.prems(6)]
  have r1: "file_read m fs f buf n = Some (m1, file1, of_nat (length b1))"
    unfolding m1_def file1_def
    using Cons.prems(5) size by (intro file_read_clamped [OF Cons.prems(1-3)] sub) (simp_all add: b1_def pos_def bs)
  have same: "same_image fs m m1" unfolding m1_def
    using l1 size(2) by (intro same_image_store sub) (simp_all add: bs)
  have pos1: "unat (file_pos file1) = pos + length b1"
    using l1 ul1 size(2) unfolding file1_def pos_def by (simp add: unat_plus_if')
  have "file_reads m1 fs file1 (buf + of_nat (length b1)) ns = Some (store_bytes m1 (buf + of_nat (length b1)) b2,
    file1\<lparr>file_pos := file_pos file1 + of_nat (length b2)\<rparr>, of_nat (length b2))"
  proof (rule Cons.IH)
    show "image_wf m1 fs" by (rule same_image_wf [OF Cons.prems(1) same])
    show "inode_wf m1 fs ino" by (rule same_image_inode_wf [OF Cons.prems(1) same Cons.prems(2)])
    show "inode_ptr file1 = inode_addr fs ino" using Cons.prems(3) by (simp add: file1_def)
    show "unat (file_pos file1) \<le> file_size m1 fs ino"
      using l1 arg_cong [OF same_image_content [OF Cons.prems(1) same Cons.prems(2)], of length] by (simp add: pos1)
    show "list_all (\<lambda>n. unat n < 2147483648) ns" using Cons.prems(5) by simp
    show "disj_ranges (buf + of_nat (length b1)) (length b2) (boot_block fs) (image_size m1 fs)"
      unfolding same_image_size [OF Cons.prems(1) same] by (rule sub) (simp_all add: ul1 bs)
    show "b2 = file_slice m1 fs ino (unat (file_pos file1)) (sum_list (map unat ns))"
      by (simp add: b2_def pos1 same_image_slice [OF Cons.prems(1) same Cons.prems(2)])
  qed
  then show ?case
    by (simp add: r1 bs store_bytes_append m1_def file1_def add.assoc)
qed

section \<open>Loading a program\<close>

lemma program_load_loop_slice:
  assumes "image_wf m fs" and "inode_wf m fs ino" and "off \<le> file_size m fs ino"
    and "disj_ranges buf (file_size m fs ino + 4096) (boot_block fs) (image_size m fs)"
  shows "program_load_loop (store_bytes m buf (file_slice m fs ino 0 off)) fs ino (of_nat off) (buf + of_nat off)
    = Some (store_bytes m buf (file_content m fs ino), RET_SUCCESS)"
  using assms(3)
proof (induction "file_size m fs ino - off" arbitrary: off rule: less_induct)
  case less
  let ?m = "store_bytes m buf (file_slice m fs ino 0 off)"
  define bs where "bs = file_slice m fs ino off 4096"
  have size: "file_size m fs ino \<le> 4190208" by (rule file_size_le [OF assms(2)])
  have uo: "unat (of_nat off :: u32) = off" using less.prems size by (intro unat_of_nat32) simp
  have same: "same_image fs m ?m"
    using less.prems size
    by (intro same_image_store disj_ranges_sub [OF assms(4)]) (simp_all add: length_file_slice)
  have lbs: "length bs = min 4096 (file_size m fs ino - off)" by (simp add: bs_def length_file_slice)
  have "read_data ?m fs ino (of_nat off) (buf + of_nat off) 4096 =
    Some (store_bytes ?m (buf + of_nat off) bs, of_nat (length bs))"
  proof (rule read_data_slice)
    show "image_wf ?m fs" by (rule same_image_wf [OF assms(1) same])
    show "inode_wf ?m fs ino" by (rule same_image_inode_wf [OF assms(1) same assms(2)])
    show "unat (of_nat off :: u32) + unat (4096 :: u32) < 4294967296" using less.prems size by (simp add: uo)
    show "disj_ranges (buf + of_nat off) (unat (4096 :: u32)) (boot_block fs) (image_size ?m fs)"
      unfolding same_image_size [OF assms(1) same]
      using less.prems by (intro disj_ranges_sub [OF assms(4)]) (simp_all add: uo)
    show "bs = file_slice ?m fs ino (unat (of_nat off :: u32)) (unat (4096 :: u32))"
      by (simp add: bs_def uo same_image_slice [OF assms(1) same assms(2)])
  qed
  moreover have "store_bytes ?m (buf + of_nat off) bs = store_bytes m buf (file_slice m fs ino 0 (off + length bs))"
  proof -
    have "bs = file_slice m fs ino (0 + off) (length bs)" by (simp add: bs_def file_slice_def min_def)
    then have "file_slice m fs ino 0 (off + length bs) = file_slice m fs ino 0 off @ bs"
      using file_slice_append [of m fs ino 0 off "length bs"] by simp
    moreover have "length (file_slice m fs ino 0 off) = off"
      using less.prems by (simp add: length_file_slice)
    ultimately show ?thesis by (simp add: store_bytes_append)
  qed
  ultimately have rd: "read_data ?m fs ino (of_nat off) (buf + of_nat off) 4096 =
    Some (store_bytes m buf (file_slice m fs ino 0 (off + length bs)), of_nat (length bs))" by simp
  show ?case
  proof (cases "off = file_size m fs ino")
    case True
    then show ?thesis using rd lbs
      by (subst program_load_loop.simps) (simp add: file_slice_def)
  next
    case False
    then have l: "0 < length bs" "length bs \<le> 4096" "off + length bs \<le> file_size m fs ino"
      using less.prems by (auto simp: lbs)
    have "(of_nat (length bs) :: u32) \<noteq> 0" "(of_nat (length bs) :: u32) \<noteq> - 1"
      using l of_nat_eq32 [of "length bs" 0] of_nat_eq32 [of "length bs" 4294967295] by auto
    moreover have "file_size m fs ino - (off + length bs) < file_size m fs ino - off"
      using l by linarith
    ultimately show ?thesis using rd less.hyps [of "off + length bs"] l
      by (subst program_load_loop.simps) (simp add: ac_simps)
  qed
qed

section \<open>The directory\<close>

text \<open>
  Names are compared on their first 31 characters. \<open>dir_index\<close> is the entry a lookup finds: the
  first whose name agrees.
\<close>

definition key_name :: "mem \<Rightarrow> u32 \<Rightarrow> u8 list" where
  "key_name m s = cprefix m s 31"

definition dir_index :: "mem \<Rightarrow> fs \<Rightarrow> u8 list \<Rightarrow> u32 option" where
  "dir_index m fs name =
     find (\<lambda>i. key_name m (dir_entry fs i) = name) (map of_nat [0..<unat (num_dir_entries m fs)])"

lemma cprefix_cstr: 
  assumes "cstr m s bs"
  shows "cprefix m s n = take n bs"
proof (cases "n \<le> length bs")
  case True
  have l: "load_bytes m s n = take n bs"
    using True cstr_nth [OF assms] by (intro nth_equalityI) auto
  have "0 \<notin> set (take n bs)" using assms in_set_takeD [of 0 n bs] by (auto simp: cstr_def)
  then have "takeWhile (\<lambda>b. b \<noteq> 0) (take n bs) = take n bs" by (subst takeWhile_eq_all_conv) auto
  then show ?thesis by (simp add: cprefix_def l)
next
  case False
  then obtain k where n: "n = length bs + Suc k" using less_iff_Suc_add by (auto simp: not_le)
  have b: "load_bytes m s (length bs) = bs" "m (s + of_nat (length bs)) = 0" "0 \<notin> set bs"
    using assms by (auto simp: cstr_def)
  then obtain rest where "load_bytes m s n = bs @ 0 # rest"
    unfolding n using load_bytes_add [of m s "length bs" "Suc k"] by (simp add: load_bytes_Suc)
  moreover have "\<forall>x \<in> set bs. x \<noteq> 0" using b(3) by auto
  ultimately show ?thesis using n by (simp add: cprefix_def takeWhile_append)
qed

text \<open>The code's test, a comparison of lengths and then of that many characters.\<close>

lemma name_test:
  assumes "cstr m s bs" and "cstr m t cs"
  shows "(min 31 (length cs) = min 31 (length bs) \<and> strncmp m s t (of_nat (min 31 (length cs))) = 0)
    \<longleftrightarrow> key_name m t = key_name m s"
proof -
  have u: "unat (of_nat (min 31 (length cs)) :: u32) = min 31 (length cs)" by (rule unat_of_nat32) simp
  have "take 31 cs = take 31 bs \<Longrightarrow> min 31 (length cs) = min 31 (length bs)"
    by (metis length_take min.commute)
  moreover have "take (min 31 (length xs)) xs = take 31 xs" for xs :: "u8 list"
    by (simp add: min_def)
  ultimately have "min 31 (length cs) = min 31 (length bs) \<and> take (min 31 (length cs)) bs = take (min 31 (length cs)) cs
    \<longleftrightarrow> take 31 cs = take 31 bs" by metis
  then show ?thesis
    by (simp only: strncmp_zero u key_name_def cprefix_cstr [OF assms(1)] cprefix_cstr [OF assms(2)])
qed

lemma min_len_word:
  "n < 4294967296 \<Longrightarrow> (if (of_nat n :: u32) > 32 - 1 then 32 - 1 else of_nat n) = (of_nat (min 31 n) :: u32)"
  using of_nat_less32 [of 31 n] by (auto simp: min_def)

lemma min_len_eq: "(of_nat (min 31 a) :: u32) = of_nat (min 31 b) \<longleftrightarrow> min 31 a = min 31 b"
  by (rule of_nat_eq32) simp_all

lemma find_map_from:
  "i < n \<Longrightarrow> find P (map f [i..<n]) = (if P (f i) then Some (f i) else find P (map f [Suc i..<n]))"
  by (simp add: upt_conv_Cons)

lemma dentry_loop_find:
  assumes fname: "cstr m fname bs"
  shows "dentry_loop m fs fname (of_nat (min 31 (length bs))) d i =
    Some (case find (\<lambda>i. key_name m (dir_entry fs i) = key_name m fname)
              (map of_nat [unat i..<unat (num_dir_entries m fs)]) of
            None \<Rightarrow> (RET_FAILURE, d)
          | Some j \<Rightarrow> (RET_SUCCESS, Some (copy_dentry m (dir_entry fs j))))"
proof (induction "unat (num_dir_entries m fs) - unat i" arbitrary: i rule: less_induct)
  case less
  show ?case
  proof (cases "i < num_dir_entries m fs")
    case False
    then show ?thesis by (subst dentry_loop.simps) (simp add: word_less_nat_alt)
  next
    case True
    obtain cs where cs: "cstr m (dir_entry fs i) cs"
      using cstr_exists cstr_end [OF fname] by blast
    have lt: "length cs < 4294967296" using cs by (rule cstr_length)
    have len: "strlen m (dir_entry fs i) = Some (of_nat (length cs))" by (rule strlen_cstr [OF cs])
    have test: "(of_nat (min 31 (length cs)) = (of_nat (min 31 (length bs)) :: u32) \<and>
      strncmp m fname (dir_entry fs i) (of_nat (min 31 (length cs))) = 0)
      \<longleftrightarrow> key_name m (dir_entry fs i) = key_name m fname"
      unfolding min_len_eq by (rule name_test [OF fname cs])
    have step: "dentry_loop m fs fname (of_nat (min 31 (length bs))) d i =
      (if key_name m (dir_entry fs i) = key_name m fname
       then Some (RET_SUCCESS, Some (copy_dentry m (dir_entry fs i)))
       else dentry_loop m fs fname (of_nat (min 31 (length bs))) d (i + 1))"
      unfolding test [symmetric]
      by (subst dentry_loop.simps) (simp only: True if_True Let_def len option.case min_len_word [OF lt], simp)
    have rng: "unat i < unat (num_dir_entries m fs)" using True by (simp add: word_less_nat_alt)
    show ?thesis unfolding step find_map_from [OF rng]
      using less.hyps [of "i + 1"] rng True by (simp add: unat_Suc_less unat_succ_less diff_less_mono2)
  qed
qed

lemma read_dentry_by_name_find:
  assumes "cstr m fname bs" and "fname \<noteq> 0"
  shows "read_dentry_by_name m fs fname (Some d) =
    Some (case dir_index m fs (key_name m fname) of
            None \<Rightarrow> (RET_FAILURE, Some d)
          | Some j \<Rightarrow> (RET_SUCCESS, Some (copy_dentry m (dir_entry fs j))))"
  using assms(2) dentry_loop_find [OF assms(1), of fs "Some d" 0] min_len_word [OF cstr_length [OF assms(1)]]
  by (simp add: read_dentry_by_name_def Let_def strlen_cstr [OF assms(1)] dir_index_def)

text \<open>The name a directory entry shows: up to 32 characters, no NUL needed after the 32nd.\<close>

definition entry_name :: "mem \<Rightarrow> fs \<Rightarrow> u32 \<Rightarrow> u8 list" where
  "entry_name m fs i = cprefix m (dir_entry fs i) 32"

lemma entry_name_chars: "0 \<notin> set (entry_name m fs i)"
  by (auto simp: entry_name_def cprefix_def dest: set_takeWhileD)

lemma length_entry_name: "length (entry_name m fs i) \<le> 32"
  by (simp add: entry_name_def cprefix_length)

lemma strncpy_list_padded:
  assumes "0 \<notin> set t" and "length t \<le> n"
  shows "strncpy_list (t @ replicate (n - length t) 0) n = t @ replicate (n - length t) 0"
proof -
  have "\<forall>x \<in> set t. x \<noteq> 0" using assms(1) by auto
  then have "takeWhile (\<lambda>b. b \<noteq> 0) (t @ replicate (n - length t) 0) = t"
    by (cases "n - length t") (simp_all add: takeWhile_append)
  then show ?thesis using assms(2) by (simp add: strncpy_list_def)
qed

definition padded_name :: "u8 list \<Rightarrow> u8 list" where
  "padded_name t = t @ replicate (32 - length t) 0"

lemma length_padded_name [simp]: "length t \<le> 32 \<Longrightarrow> length (padded_name t) = 32"
  by (simp add: padded_name_def)

lemma copy_dentry_name: "file_name (copy_dentry m (dir_entry fs i)) = padded_name (entry_name m fs i)"
  by (simp add: copy_dentry_def strncpy_bytes_def padded_name_def entry_name_def Let_def)

lemma strncpy_list_entry:
  "strncpy_list (file_name (copy_dentry m (dir_entry fs i))) 32 = padded_name (entry_name m fs i)"
  using strncpy_list_padded [OF entry_name_chars length_entry_name]
  by (simp add: copy_dentry_name padded_name_def)

lemma cstr_padded_name:
  assumes "0 \<notin> set t" and "length t \<le> 32" and "m (buf + 32) = 0"
  shows "cstr (store_bytes m buf (padded_name t)) buf t"
  unfolding cstr_iff
proof (intro conjI allI impI)
  show "length t < 4294967296" using assms(2) by simp
  show "0 \<notin> set t" by (rule assms(1))
  fix i assume "i < length t"
  with assms(2) show "store_bytes m buf (padded_name t) (buf + of_nat i) = t ! i"
    by (simp add: store_bytes_apply in_range_offset unat_of_nat32 padded_name_def nth_append)
next
  show "store_bytes m buf (padded_name t) (buf + of_nat (length t)) = 0"
    using assms(2,3) in_range_offset [of 32 buf 32]
    by (cases "length t = 32")
      (simp_all add: store_bytes_apply in_range_offset unat_of_nat32 padded_name_def nth_append)
qed

lemma dir_read_entry:
  assumes "file_pos f < num_dir_entries m fs" and "m (buf + 32) = 0"
  shows "dir_read m fs d f buf 32 =
    Some (store_bytes m buf (padded_name (entry_name m fs (file_pos f))), f\<lparr>file_pos := file_pos f + 1\<rparr>,
      of_nat (length (entry_name m fs (file_pos f))))"
proof -
  define t where "t = entry_name m fs (file_pos f)"
  have "cstr (store_bytes m buf (padded_name t)) buf t"
    unfolding t_def by (intro cstr_padded_name entry_name_chars length_entry_name assms(2))
  then have "strlen (store_bytes m buf (padded_name t)) buf = Some (of_nat (length t))"
    by (rule strlen_cstr)
  then show ?thesis
    using assms(1)
    by (simp add: dir_read_def read_dentry_by_index_def not_le [symmetric] strncpy_list_entry
        word_sless_alt Let_def t_def)
qed

text \<open>\<open>ls\<close>: read entries until \<open>dir_read\<close> returns 0, at most \<open>k\<close> times.\<close>

fun dir_reads :: "mem \<Rightarrow> fs \<Rightarrow> dentry_t \<Rightarrow> file_t \<Rightarrow> u32 \<Rightarrow> nat \<Rightarrow> u8 list list option" where
  "dir_reads m fs d f buf 0 = None"
| "dir_reads m fs d f buf (Suc k) =
     (case dir_read m fs d f buf 32 of
        None \<Rightarrow> None
      | Some (m', f', r) \<Rightarrow>
          if r = 0 then Some []
          else if r = - 1 then None
          else map_option ((#) (load_bytes m' buf (unat r))) (dir_reads m' fs d f' buf k))"

lemma dir_entry_offset: "dir_entry fs i + of_nat k = boot_block fs + of_nat (64 + 64 * unat i + k)"
  by (simp add: dir_entry_def)

lemma same_image_entry_name:
  assumes wf: "image_wf m fs" and same: "same_image fs m m'" and i: "i < num_dir_entries m fs"
  shows "entry_name m' fs i = entry_name m fs i"
proof -
  have "unat i < 63" using wf i by (simp add: image_wf_def word_less_nat_alt)
  then have "m' (dir_entry fs i + of_nat k) = m (dir_entry fs i + of_nat k)" if "k < 32" for k
    using boot_in_image [OF wf, of "64 + 64 * unat i + k"] same that
    unfolding dir_entry_offset same_image_def by simp
  then have "load_bytes m' (dir_entry fs i) 32 = load_bytes m (dir_entry fs i) 32"
    by (intro nth_equalityI) simp_all
  then show ?thesis by (simp add: entry_name_def cprefix_def)
qed

lemma store_bytes_same: "\<not> in_range a (length bs) x \<Longrightarrow> length bs \<le> 4294967296 \<Longrightarrow> store_bytes m a bs x = m x"
  by (simp add: store_bytes_apply)

lemma dir_reads_names:
  assumes "image_wf m fs" and "m (buf + 32) = 0"
    and "disj_ranges buf 32 (boot_block fs) (image_size m fs)"
    and "\<And>i. i < num_dir_entries m fs \<Longrightarrow> entry_name m fs i \<noteq> []"
    and "unat (num_dir_entries m fs) - unat (file_pos f) < k"
  shows "dir_reads m fs d f buf k =
    Some (map (\<lambda>i. entry_name m fs (of_nat i)) [unat (file_pos f)..<unat (num_dir_entries m fs)])"
  using assms
proof (induction k arbitrary: m f)
  case 0
  then show ?case by simp
next
  case (Suc k)
  define pos where "pos = file_pos f"
  show ?case
  proof (cases "pos < num_dir_entries m fs")
    case False
    then show ?thesis by (simp add: dir_read_def word_less_nat_alt not_less word_le_nat_alt pos_def)
  next
    case True
    define t where "t = entry_name m fs pos"
    define m1 where "m1 = store_bytes m buf (padded_name t)"
    have len: "length t \<le> 32" "t \<noteq> []"
      using length_entry_name Suc.prems(4) True by (simp_all add: t_def)
    have r: "dir_read m fs d f buf 32 = Some (m1, f\<lparr>file_pos := pos + 1\<rparr>, of_nat (length t))"
      using dir_read_entry [of f m fs buf d] True Suc.prems(2) by (simp add: t_def m1_def pos_def)
    have same: "same_image fs m m1"
      unfolding m1_def using len by (intro same_image_store) (simp_all add: Suc.prems(3))
    have w: "(of_nat (length t) :: u32) \<noteq> 0" "(of_nat (length t) :: u32) \<noteq> - 1"
      "unat (of_nat (length t) :: u32) = length t"
      using len of_nat_eq32 [of "length t" 0] of_nat_eq32 [of "length t" 4294967295] by (auto simp: unat_of_nat32)
    have "0 \<notin> set t" unfolding t_def by (rule entry_name_chars)
    then have "cstr m1 buf t" unfolding m1_def by (intro cstr_padded_name len Suc.prems(2))
    then have ld: "load_bytes m1 buf (length t) = t" by (simp add: cstr_def)
    note hdr = same_image_header(1) [OF Suc.prems(1) same]
    have IH: "dir_reads m1 fs d (f\<lparr>file_pos := pos + 1\<rparr>) buf k =
      Some (map (\<lambda>i. entry_name m1 fs (of_nat i)) [unat (file_pos (f\<lparr>file_pos := pos + 1\<rparr>))..<unat (num_dir_entries m1 fs)])"
    proof (rule Suc.IH)
      show "image_wf m1 fs" by (rule same_image_wf [OF Suc.prems(1) same])
      have "\<not> in_range buf 32 (buf + 32)" using in_range_offset [of 32 buf 32] by simp
      then show "m1 (buf + 32) = 0" using Suc.prems(2) len unfolding m1_def by (simp add: store_bytes_same)
      show "disj_ranges buf 32 (boot_block fs) (image_size m1 fs)"
        using Suc.prems(3) by (simp add: same_image_size [OF Suc.prems(1) same])
      show "entry_name m1 fs i \<noteq> []" if "i < num_dir_entries m1 fs" for i
        using that Suc.prems(4) same_image_entry_name [OF Suc.prems(1) same] by (simp add: hdr)
      show "unat (num_dir_entries m1 fs) - unat (file_pos (f\<lparr>file_pos := pos + 1\<rparr>)) < k"
        using Suc.prems(5) True by (simp add: hdr pos_def unat_succ_less word_less_nat_alt)
    qed
    have "entry_name m1 fs (of_nat i) = entry_name m fs (of_nat i)" if "i < unat (num_dir_entries m fs)" for i
      using that less_trans [OF that unat_lt32]
      by (intro same_image_entry_name [OF Suc.prems(1) same]) (simp add: word_less_nat_alt unat_of_nat32)
    then have "map (\<lambda>i. entry_name m1 fs (of_nat i)) [unat (pos + 1)..<unat (num_dir_entries m1 fs)]
      = map (\<lambda>i. entry_name m fs (of_nat i)) [Suc (unat pos)..<unat (num_dir_entries m fs)]"
      using True by (simp add: hdr unat_succ_less)
    moreover have "[unat pos..<unat (num_dir_entries m fs)] = unat pos # [Suc (unat pos)..<unat (num_dir_entries m fs)]"
      using True by (intro upt_conv_Cons) (simp add: word_less_nat_alt)
    ultimately show ?thesis
      by (simp add: r w ld IH pos_def [symmetric] t_def [symmetric])
  qed
qed

section \<open>A small image\<close>

text \<open>
  The image the witnesses use: one entry \<open>a\<close>, a regular file of 5000 bytes in blocks 0 and 1; the
  string \<open>a\<close> at address \<open>0x100\<close>.
\<close>

definition sample_mem :: mem where
  "sample_mem = (\<lambda>_. 0)(0x100 := 0x61, 0x8000 := 1, 0x8004 := 1, 0x8008 := 2, 0x8040 := 0x61,
     0x8060 := 2, 0x9000 := 0x88, 0x9001 := 0x13, 0x9008 := 1, 0xAFFF := 0x68, 0xB000 := 0x69)"

definition sample_fs :: fs where
  "sample_fs = init_filesys sample_mem 0x8000"

text \<open>What an uninitialised directory entry may hold.\<close>

definition stale_dentry :: dentry_t where
  "stale_dentry = \<lparr>file_name = replicate 32 0xFF, file_type = 7, inode_num = 9, reserved = replicate 24 0xFF\<rparr>"

lemma sample_fs_eq: "sample_fs = \<lparr>boot_block = 0x8000, index_nodes = 0x9000, data_blocks = 0xA000\<rparr>"
  by (simp add: sample_fs_def init_filesys_def sample_mem_def load32_def)

lemma sample_boot: "boot_block sample_fs = 0x8000"
  by (simp add: sample_fs_eq)

lemma sample_header:
  "num_dir_entries sample_mem sample_fs = 1" "num_inodes sample_mem sample_fs = 1"
  "num_data_blocks sample_mem sample_fs = 2" "image_size sample_mem sample_fs = 16384"
  by (simp_all add: num_dir_entries_def num_inodes_def num_data_blocks_def image_size_def sample_fs_eq
      sample_mem_def load32_def)

lemma sample_file_size: "file_size sample_mem sample_fs 0 = 5000"
  by (simp add: file_size_def inode_length_def inode_addr_def sample_fs_eq sample_mem_def load32_def)

lemma sample_image_wf: "image_wf sample_mem sample_fs"
  unfolding image_wf_def sample_header by (simp add: sample_fs_eq init_filesys_def sample_mem_def load32_def)

lemma sample_inode_wf: "inode_wf sample_mem sample_fs 0"
  unfolding inode_wf_def sample_header sample_file_size
  by (simp add: upt_rec file_block_def data_block_num_def inode_addr_def sample_fs_eq sample_mem_def load32_def)

lemma sample_name: "cstr sample_mem 0x100 [0x61]"
  by (simp add: cstr_def sample_mem_def load_bytes_Suc)

lemma sample_keys: "key_name sample_mem 0x100 = [0x61]" "key_name sample_mem (dir_entry sample_fs 0) = [0x61]"
  by (simp_all add: key_name_def cprefix_def load_bytes_numeral dir_entry_def sample_fs_eq sample_mem_def)

lemma sample_dir_index: "dir_index sample_mem sample_fs (key_name sample_mem 0x100) = Some 0"
  unfolding dir_index_def sample_header by (simp add: sample_keys)

lemma sample_dentry:
  "inode_num (copy_dentry sample_mem (dir_entry sample_fs 0)) = 0"
  "file_type (copy_dentry sample_mem (dir_entry sample_fs 0)) = 2"
  by (simp_all add: copy_dentry_def dir_entry_def sample_fs_eq sample_mem_def load32_def)

lemma sample_entry_name: "entry_name sample_mem sample_fs 0 = [0x61]"
  by (simp add: entry_name_def cprefix_def load_bytes_numeral dir_entry_def sample_fs_eq sample_mem_def)

lemma sample_disj: "n \<le> 16384 \<Longrightarrow> disj_ranges 0x1000 n (boot_block sample_fs) 16384"
  by (simp add: disj_ranges_def sample_fs_eq)

section \<open>Properties\<close>

text \<open>
  C3. On a well-formed image \<open>read_data\<close> returns exactly the requested bytes of the file, cut at
  its end: it writes them, and nothing else, to the buffer, and returns how many there were
  (0 at or past the end of the file). The exception is a request from inside the file with \<open>offset + length\<close> at or
  above 2^32: the sum wraps around, the length is not cut, and the call returns -1 or the whole
  length, which is more than the file has. The bytes returned have room outside of the image.
\<close>

theorem read_data_spec:
  assumes "image_wf m fs" and "inode_wf m fs ino"
    and "disj_ranges buf (min (unat len) (file_size m fs ino - unat offset)) (boot_block fs) (image_size m fs)"
  shows "if unat offset < file_size m fs ino \<and> 4294967296 \<le> unat offset + unat len
    then \<exists>m' r. read_data m fs ino offset buf len = Some (m', r) \<and> (r = - 1 \<or> r = len)
    else read_data m fs ino offset buf len =
      (let bs = take (unat len) (drop (unat offset) (file_content m fs ino))
       in Some (store_bytes m buf bs, of_nat (length bs)))"
proof (cases "unat offset < file_size m fs ino \<and> 4294967296 \<le> unat offset + unat len")
  case True
  then show ?thesis using read_data_wraps [OF assms(2)] by simp
next
  case False
  then show ?thesis
    using read_data_clamped [OF assms(1,2) _ _ refl, of offset len buf] assms(3)
    by (auto simp: Let_def file_slice_def length_file_slice not_le min.commute)
qed

theorem read_data_spec_witness:
  "\<exists>m'. read_data sample_mem sample_fs 0 4094 0x1000 4 = Some (m', 4) \<and> m' 0x1001 = 0x68 \<and> m' 0x1002 = 0x69"
proof -
  define bs where "bs = take (unat (4 :: u32)) (drop (unat (4094 :: u32)) (file_content sample_mem sample_fs 0))"
  have len: "length bs = 4" by (simp add: bs_def sample_file_size)
  have b: "bs ! i = file_byte sample_mem sample_fs 0 (4094 + i)" if "i < 4" for i
    using that by (simp add: bs_def file_content_def sample_file_size)
  have "read_data sample_mem sample_fs 0 4094 0x1000 4 = Some (store_bytes sample_mem 0x1000 bs, of_nat (length bs))"
    using read_data_spec [OF sample_image_wf sample_inode_wf, of "0x1000" 4 4094] sample_disj [of 4]
    by (simp add: sample_header sample_file_size bs_def Let_def)
  moreover have "bs ! 1 = 0x68" "bs ! 2 = 0x69"
    using b [of 1] b [of 2]
    by (simp_all add: file_byte_def file_block_def data_block_num_def data_block_addr_def inode_addr_def
        sample_fs_eq sample_mem_def load32_def)
  ultimately show ?thesis using len by (simp add: store_bytes_apply in_range_def)
qed

text \<open>
  C13. On every image, however corrupt, and for all arguments \<open>read_data\<close> returns, with \<open>-1\<close> or at
  most the number of bytes asked for, and changes no byte outside the caller's buffer.
\<close>

theorem read_data_safe:
  "\<exists>m' r. read_data m fs inode offset buf len = Some (m', r) \<and> (r = - 1 \<or> unat r \<le> unat len)
     \<and> {x. m' x \<noteq> m x} \<subseteq> {x. in_range buf (unat len) x}"
  using read_data_total [of m fs inode offset buf len] by blast

text \<open>
  C14. \<open>read_dentry_by_name\<close> returns for every name that ends, finds the first directory entry
  whose name agrees in its first 31 characters and returns its fields, and reports failure without
  touching the caller's entry exactly when there is none.
\<close>

theorem read_dentry_by_name_spec:
  assumes "cstr m fname bs" and "fname \<noteq> NULL"
  shows "read_dentry_by_name m fs fname (Some d) =
    Some (case dir_index m fs (take 31 bs) of
            None \<Rightarrow> (RET_FAILURE, Some d)
          | Some j \<Rightarrow> (RET_SUCCESS, Some (copy_dentry m (dir_entry fs j))))"
  using read_dentry_by_name_find [OF assms] cprefix_cstr [OF assms(1)] by (simp add: key_name_def)

theorem read_dentry_by_name_spec_witness:
  "read_dentry_by_name sample_mem sample_fs 0x100 (Some stale_dentry) =
   Some (0, Some (copy_dentry sample_mem (dir_entry sample_fs 0)))"
  using read_dentry_by_name_spec [OF sample_name, of sample_fs stale_dentry] sample_dir_index
  by (simp add: sample_keys)

text \<open>
  C10. Opening a file by name and reading it in chunks of any sizes that \<open>read\<close> accepts (not negative as signed
  numbers) puts exactly the file's bytes into the buffer, in order, up to the sum of the chunks or the end of
  the file, and the position ends where the bytes end. The buffer has room for these bytes outside of the image.
\<close>

theorem file_reads_spec:
  assumes "image_wf m fs" and "cstr m fname bs" and "fname \<noteq> NULL"
    and "dir_index m fs (take 31 bs) = Some j"
    and "inode_wf m fs (inode_num (copy_dentry m (dir_entry fs j)))"
    and "list_all (\<lambda>n. \<not> n <s 0) ns"
    and "disj_ranges buf (min (sum_list (map unat ns)) (file_size m fs (inode_num (copy_dentry m (dir_entry fs j)))))
      (boot_block fs) (image_size m fs)"
  shows "\<exists>f'. file_open m fs stack f fname = Some (f', RET_SUCCESS) \<and> file_op f' = FileJt \<and>
    (let content = take (sum_list (map unat ns)) (file_content m fs (inode_num (copy_dentry m (dir_entry fs j))))
     in file_reads m fs f' buf ns = Some (store_bytes m buf content,
          f'\<lparr>file_pos := of_nat (length content)\<rparr>, of_nat (length content)))"
proof -
  define ino where "ino = inode_num (copy_dentry m (dir_entry fs j))"
  define f' where "f' = f\<lparr>file_op := FileJt, inode_ptr := inode_addr fs ino, file_pos := 0, flags := 1\<rparr>"
  have "dir_index m fs (key_name m fname) = Some j"
    using assms(4) cprefix_cstr [OF assms(2)] by (simp add: key_name_def)
  then have "file_open m fs stack f fname = Some (f', RET_SUCCESS)"
    using assms(5) read_dentry_by_name_find [OF assms(2,3), of fs stack]
    by (simp add: file_open_def ino_def f'_def inode_wf_def not_le [symmetric])
  moreover have "file_reads m fs f' buf ns = Some (store_bytes m buf (file_slice m fs ino 0 (sum_list (map unat ns))),
      f'\<lparr>file_pos := file_pos f' + of_nat (length (file_slice m fs ino 0 (sum_list (map unat ns))))\<rparr>,
      of_nat (length (file_slice m fs ino 0 (sum_list (map unat ns)))))"
    by (rule file_reads_slice) (use assms in \<open>auto simp: f'_def ino_def length_file_slice list_all_iff nonneg_unat32\<close>)
  ultimately show ?thesis
    by (intro exI [of _ f']) (simp add: ino_def [symmetric] file_slice_def Let_def f'_def)
qed

theorem file_reads_spec_witness:
  "\<exists>f' m'. file_open sample_mem sample_fs stale_dentry closed_file 0x100 = Some (f', 0)
     \<and> file_reads sample_mem sample_fs f' 0x1000 [3000, 3000] = Some (m', f'\<lparr>file_pos := 5000\<rparr>, 5000)"
  using file_reads_spec [OF sample_image_wf sample_name _ _ _ _ _, of 0 "[3000, 3000]" "0x1000" stale_dentry closed_file]
    sample_dir_index sample_inode_wf sample_disj [of 5000]
  by (auto simp: sample_keys sample_dentry sample_header sample_file_size Let_def nonneg_unat32)

text \<open>
  \<open>file_open\<close> does not look at the result of the lookup: for a name that is not in the
  directory it opens whatever inode its uninitialised local \<open>dentry\<close> names, and fails only
  when that number is out of range.
\<close>

lemma file_open_not_found:
  assumes "cstr m fname bs" and "fname \<noteq> NULL" and "dir_index m fs (take 31 bs) = None"
  shows "file_open m fs stack f fname =
    (if inode_num stack \<ge> num_inodes m fs then Some (f, RET_FAILURE)
     else Some (f\<lparr>file_op := FileJt, inode_ptr := inode_addr fs (inode_num stack), file_pos := 0, flags := 1\<rparr>,
                RET_SUCCESS))"
  using assms(3) read_dentry_by_name_find [OF assms(1,2), of fs stack] cprefix_cstr [OF assms(1)]
  by (simp add: file_open_def key_name_def)

text \<open>
  C7. \<open>program_load\<close> copies the whole file to \<open>addr\<close> and nothing else, and fails without writing
  when the name is not in the directory or does not name a regular file.
\<close>

theorem program_load_spec:
  assumes "image_wf m fs" and "cstr m fname bs" and "fname \<noteq> NULL"
    and "\<And>j. dir_index m fs (take 31 bs) = Some j \<Longrightarrow> file_type (copy_dentry m (dir_entry fs j)) = 2 \<Longrightarrow>
      inode_wf m fs (inode_num (copy_dentry m (dir_entry fs j))) \<and>
      disj_ranges addr (file_size m fs (inode_num (copy_dentry m (dir_entry fs j))) + 4096)
        (boot_block fs) (image_size m fs)"
  shows "program_load m fs stack fname addr = Some
    (case dir_index m fs (take 31 bs) of
       None \<Rightarrow> (m, RET_FAILURE)
     | Some j \<Rightarrow>
         (let dentry = copy_dentry m (dir_entry fs j)
          in if file_type dentry = 2 then (store_bytes m addr (file_content m fs (inode_num dentry)), RET_SUCCESS)
             else (m, RET_FAILURE)))"
proof -
  have k: "key_name m fname = take 31 bs" using cprefix_cstr [OF assms(2)] by (simp add: key_name_def)
  note rd = read_dentry_by_name_find [OF assms(2,3), of fs stack, unfolded k]
  show ?thesis
  proof (cases "dir_index m fs (take 31 bs)")
    case None
    then show ?thesis using rd by (simp add: program_load_def)
  next
    case (Some j)
    define ino where "ino = inode_num (copy_dentry m (dir_entry fs j))"
    have "program_load_loop m fs ino 0 addr = Some (store_bytes m addr (file_content m fs ino), RET_SUCCESS)"
      if "file_type (copy_dentry m (dir_entry fs j)) = 2"
      using program_load_loop_slice [OF assms(1), of ino 0 addr] assms(4) [OF Some that]
      by (simp add: ino_def file_slice_def)
    then show ?thesis using rd Some by (simp add: program_load_def ino_def Let_def)
  qed
qed

theorem program_load_spec_witness:
  "program_load sample_mem sample_fs stale_dentry 0x100 0x100000
   = Some (store_bytes sample_mem 0x100000 (file_content sample_mem sample_fs 0), 0)"
  using program_load_spec [OF sample_image_wf sample_name, of "0x100000" stale_dentry] sample_dir_index sample_inode_wf
  by (simp add: sample_keys sample_dentry sample_header sample_file_size Let_def disj_ranges_def sample_boot)

text \<open>
  Reading an open directory with a 32-byte buffer (followed by a NUL) until it returns 0
  yields the names of all entries in order, names of 32 characters without a terminator included.
\<close>

lemma dir_reads_spec:
  assumes "image_wf m fs" and "m (buf + 32) = 0"
    and "disj_ranges buf 32 (boot_block fs) (image_size m fs)"
    and "\<And>i. i < num_dir_entries m fs \<Longrightarrow> entry_name m fs i \<noteq> []"
  shows "dir_reads m fs d (fst (dir_open f fname)) buf (unat (num_dir_entries m fs) + 1) =
    Some (map (\<lambda>i. entry_name m fs (of_nat i)) [0..<unat (num_dir_entries m fs)])"
proof -
  have "file_pos (fst (dir_open f fname)) = 0" by (simp add: dir_open_def)
  then show ?thesis
    using dir_reads_names [OF assms, of "fst (dir_open f fname)" "unat (num_dir_entries m fs) + 1"] by simp
qed

end
