(* ===== verification/TerminalSpec.thy ===== *)
theory TerminalSpec
  imports Terminal
begin

text \<open>
  What the terminals do. \<open>terminal_ok\<close> is the invariant: three buffers, each assigned to its
  terminal, and positions on the screen, the saved ones too. An operation of \<open>buffer.c\<close> that is total
  on a well-formed buffer, keeps it so and leaves the other buffers alone is a \<open>screen_op\<close>; every such
  operation keeps the invariant. The text written to a terminal is described by \<open>put_text\<close> on the
  characters of the buffer and the position.
\<close>

section \<open>Operations on one buffer leave the others alone\<close>

lemma update_node_frame: "update_node b i f s = Some s' \<Longrightarrow> c \<noteq> b \<Longrightarrow> bufs s' c = bufs s c"
  by (auto simp: update_node_def split: if_splits)

lemma scroll_buf_frame:
  assumes "scroll_buf b s = Some s'" and "c \<noteq> b"
  shows "bufs s' c = bufs s c"
proof -
  obtain s1 where
    s1: "for_loop 80 (80 * 24 - 80) (\<lambda>i s. case node_at b (int i) s of
        None \<Rightarrow> None
      | Some n \<Rightarrow> update_node b (int i - 80) (mo_update (\<lambda>_. if mo n \<noteq> 0x0A then mo n else 0x20)) s) s = Some s1"
    and s': "for_loop (80 * (24 - 1)) 80 (\<lambda>i s. map_option (\<lambda>s. s\<lparr>buf_x := 0, buf_y := 24 - 1\<rparr>)
      (update_node b (int i) (mo_update (\<lambda>_. 0x20)) s)) s1 = Some s'"
    using assms(1) by (auto simp only: scroll_buf_def split: Option.bind_splits)
  have "bufs s1 c = bufs s c"
    by (rule for_loop_preserves [where P = "\<lambda>t. bufs t c = bufs s c", OF _ s1])
      (auto simp: update_node_frame [OF _ assms(2)] split: option.splits)
  moreover have "bufs s' c = bufs s1 c"
    by (rule for_loop_preserves [where P = "\<lambda>t. bufs t c = bufs s1 c", OF _ s'])
      (auto simp: update_node_frame [OF _ assms(2)])
  ultimately show ?thesis by simp
qed

lemma reset_buf_frame:
  assumes "reset_buf b s = Some s'" and "c \<noteq> b"
  shows "bufs s' c = bufs s c"
proof -
  obtain x y s1 where
    s1: "for_loop 0 ((24 + 1) * 80)
          (\<lambda>i (x, y, s). map_option (\<lambda>s. if x \<noteq> 80 - 1 then (x + 1, y, s) else (0, y + 1, s))
             (update_node b (int i) (\<lambda>n. n\<lparr>x_coord := x, y_coord := y, mo := 0x20, printed := 0\<rparr>) s))
          (0 :: int, 0 :: int, s) = Some (x, y, s1)"
    and s': "s' = s1\<lparr>buf_x := 0, buf_y := 0\<rparr>"
    using assms(1) by (auto simp only: reset_buf_def map_option_eq_Some)
  have "bufs (snd (snd (x, y, s1))) c = bufs s c"
    by (rule for_loop_preserves [where P = "\<lambda>w. bufs (snd (snd w)) c = bufs s c", OF _ s1])
      (auto simp: update_node_frame [OF _ assms(2)] split: if_splits)
  then show ?thesis by (simp add: s')
qed

lemma setb_frame: "setb b ch s = Some s' \<Longrightarrow> c \<noteq> b \<Longrightarrow> bufs s' c = bufs s c"
  by (auto simp: setb_def Let_def update_node_frame)

lemma new_line_frame: "new_line b s = Some s' \<Longrightarrow> c \<noteq> b \<Longrightarrow> bufs s' c = bufs s c"
  by (auto simp: new_line_def Let_def update_node_frame scroll_buf_frame split: if_splits Option.bind_splits)

lemma clear_buf_line_frame:
  assumes "clear_buf_line b s = Some s'" and "c \<noteq> b"
  shows "bufs s' c = bufs s c"
  by (rule for_loop_preserves [where P = "\<lambda>t. bufs t c = bufs s c", OF _ assms(1) [unfolded clear_buf_line_def Let_def]])
    (auto simp: update_node_frame [OF _ assms(2)])

lemma backspace_frame: "backspace b k s = Some s' \<Longrightarrow> c \<noteq> b \<Longrightarrow> bufs s' c = bufs s c"
  by (auto simp: backspace_def Let_def update_node_frame split: if_splits option.splits)

section \<open>The invariant\<close>

definition attr_ok :: "buff_attr \<Rightarrow> bool" where
  "attr_ok a \<longleftrightarrow> 0 \<le> curr_x a \<and> curr_x a < 80 \<and> 0 \<le> curr_y a \<and> curr_y a < 24"

definition all_buffers_ok :: "buffers \<Rightarrow> bool" where
  "all_buffers_ok u \<longleftrightarrow> buffer_ok 0 u \<and> buffer_ok 1 u \<and> buffer_ok 2 u"

definition terminal_ok :: "terminal \<Rightarrow> bool" where
  "terminal_ok s \<longleftrightarrow> screens s = [Some 0, Some 1, Some 2] \<and> all_buffers_ok (bf s) \<and> 0 \<le> screen_num s \<and> screen_num s < 3
     \<and> length (components s) = 3 \<and> list_all attr_ok (components s)"

lemma all_buffers_okD: "all_buffers_ok u \<Longrightarrow> b < 3 \<Longrightarrow> buffer_ok b u"
  by (auto simp: all_buffers_ok_def numeral_3_eq_3 less_Suc_eq numeral_2_eq_2)

lemma all_buffers_ok_frame:
  assumes "all_buffers_ok u" and "buffer_ok b u'" and "b < 3" and "\<And>c. c \<noteq> b \<Longrightarrow> bufs u' c = bufs u c"
  shows "all_buffers_ok u'"
proof -
  have "buffer_ok c u'" if "c < 3" for c
    using all_buffers_okD [OF assms(1) that] assms(2,4) by (cases "c = b") (auto simp: buffer_ok_def)
  then show ?thesis by (simp add: all_buffers_ok_def)
qed

lemma screen_at_ok: "terminal_ok s \<Longrightarrow> 0 \<le> i \<Longrightarrow> i < 3 \<Longrightarrow> screen_at i s = Some (nat i)"
proof -
  assume s: "terminal_ok s" and i: "0 \<le> i" "i < 3"
  then have "i = 0 \<or> i = 1 \<or> i = 2" by linarith
  then show ?thesis using s by (auto simp: terminal_ok_def screen_at_def nth_Cons')
qed

locale screen_op =
  fixes op :: "nat \<Rightarrow> buffers \<Rightarrow> buffers option"
  assumes op_total: "buffer_ok b u \<Longrightarrow> \<exists>u'. op b u = Some u' \<and> buffer_ok b u'"
    and op_frame: "op b u = Some u' \<Longrightarrow> c \<noteq> b \<Longrightarrow> bufs u' c = bufs u c"
begin

lemma on_buffer_ok:
  assumes "terminal_ok s" and "b < 3"
  shows "\<exists>s'. on_buffer (op b) s = Some s' \<and> terminal_ok s' \<and> s' = s\<lparr>bf := bf s'\<rparr>"
proof -
  have ok: "all_buffers_ok (bf s)" using assms(1) by (simp add: terminal_ok_def)
  obtain u where u: "op b (bf s) = Some u" "buffer_ok b u"
    using op_total all_buffers_okD [OF ok assms(2)] by blast
  have "all_buffers_ok u" using all_buffers_ok_frame [OF ok u(2) assms(2)] op_frame [OF u(1)] by blast
  then show ?thesis using u(1) assms(1) by (simp add: on_buffer_def terminal_ok_def)
qed

end

interpretation scroll: screen_op scroll_buf
  by unfold_locales (use scroll_buf_chars scroll_buf_frame in blast)+

interpretation set_char: screen_op "\<lambda>b. setb b c" for c
  by unfold_locales (use setb_chars setb_frame in blast)+

interpretation line_break: screen_op new_line
  by unfold_locales (use new_line_ok new_line_frame in blast)+

interpretation line_clear: screen_op clear_buf_line
  by unfold_locales (use clear_buf_line_ok clear_buf_line_frame in blast)+

interpretation reset: screen_op reset_buf
  by unfold_locales
    (use reset_buf_ok reset_buf_frame in \<open>auto simp: buffer_ok_def nodes_ok_def, blast\<close>)

section \<open>Writing\<close>

text \<open>
  The effect of one character on the characters of a buffer and the position. A newline mark stays
  in the buffer; past the last column the position goes back to the start of the same row.
\<close>

type_synonym text_state = "u8 list \<times> int \<times> int"

fun put_text :: "u8 \<Rightarrow> text_state \<Rightarrow> text_state" where
  "put_text c (cs, x, y) =
     (if c = 0x0A \<or> c = 0x0D
      then (let cs = cs[nat (80 * y + x) := 0x0A]
            in if y = 23 then (scrolled cs, 0, 23) else (cs, 0, y + 1))
      else (cs[nat (80 * y + x) := c], if x = 79 then 0 else x + 1, y))"

definition text_of :: "nat \<Rightarrow> terminal \<Rightarrow> text_state" where
  "text_of b s = (chars b (bf s), buf_x (bf s), buf_y (bf s))"

text \<open>What output to buffer \<open>b\<close> leaves alone.\<close>

definition same_but :: "nat \<Rightarrow> terminal \<Rightarrow> terminal \<Rightarrow> bool" where
  "same_but b s s' \<longleftrightarrow> screens s' = screens s \<and> screen_num s' = screen_num s \<and> process_buf s' = process_buf s
     \<and> components s' = components s \<and> colour (scr s') = colour (scr s)
     \<and> (\<forall>c. c \<noteq> b \<longrightarrow> bufs (bf s') c = bufs (bf s) c)"

lemma same_but_refl: "same_but b s s"
  by (simp add: same_but_def)

lemma same_but_trans: "same_but b s s' \<Longrightarrow> same_but b s' s'' \<Longrightarrow> same_but b s s''"
  by (simp add: same_but_def)

lemma update_node_printed:
  assumes "nodes_ok (bufs u b)" and "0 \<le> i" "i < 2000"
  shows "\<exists>u'. update_node b i (printed_update (\<lambda>_. 1)) u = Some u' \<and> nodes_ok (bufs u' b) \<and> chars b u' = chars b u
    \<and> buf_x u' = buf_x u \<and> buf_y u' = buf_y u"
proof -
  have "nat i < 2000" using assms by simp
  moreover have "map mo (ns[k := (ns ! k)\<lparr>printed := 1\<rparr>]) = map mo ns" for ns k
  proof (rule nth_equalityI)
    fix i assume "i < length (map mo (ns[k := (ns ! k)\<lparr>printed := 1\<rparr>]))"
    then show "map mo (ns[k := (ns ! k)\<lparr>printed := 1\<rparr>]) ! i = map mo ns ! i" by (cases "i = k") auto
  qed simp
  ultimately show ?thesis
    using assms by (auto simp: update_node_def nodes_ok_def node_ok_def chars_def nth_list_update)
qed

lemma put_cout_newline:
  assumes "terminal_ok s" and "b < 3" and "c = 0x0A \<or> c = 0x0D"
  shows "\<exists>s'. put_cout c b s = Some s' \<and> terminal_ok s' \<and> same_but b s s'
    \<and> text_of b s' = put_text c (text_of b s)"
proof -
  have all: "all_buffers_ok (bf s)" using assms(1) by (simp add: terminal_ok_def)
  note ok = all_buffers_okD [OF all assms(2)]
  obtain u where u: "update_node b (80 * buf_y (bf s) + buf_x (bf s)) (mo_update (\<lambda>_. 0x0A)) (bf s) = Some u"
    "nodes_ok (bufs u b)" "chars b u = (chars b (bf s))[nat (80 * buf_y (bf s) + buf_x (bf s)) := 0x0A]"
    "buf_x u = buf_x (bf s)" "buf_y u = buf_y (bf s)"
    using update_node_char [of "bf s" b "80 * buf_y (bf s) + buf_x (bf s)" "0x0A"]
      index_bounds [OF ok] ok unfolding buffer_ok_def by auto
  define v where "v = u\<lparr>buf_x := 0\<rparr>"
  have v: "buffer_ok b v" "chars b v = chars b u" "buf_x v = 0" "buf_y v = buf_y (bf s)"
    using u ok by (simp_all add: v_def buffer_ok_def chars_def)
  have vf: "bufs v c = bufs (bf s) c" if "c \<noteq> b" for c
    using update_node_frame [OF u(1) that] by (simp add: v_def)
  define after where "after = (\<lambda>w. s\<lparr>bf := w, scr := (scr s)\<lparr>screen_y := screen_y (scr s) + 1, screen_x := 0\<rparr>,
    line_count := 0, limit := 0\<rparr>)"
  have pc: "put_cout c b s = map_option after (if buf_y v \<noteq> 23 then Some (v\<lparr>buf_y := buf_y v + 1\<rparr>) else scroll_buf b v)"
    using assms(3) u(1) unfolding put_cout_def Let_def v_def after_def by auto
  have "\<exists>w. (if buf_y v \<noteq> 23 then Some (v\<lparr>buf_y := buf_y v + 1\<rparr>) else scroll_buf b v) = Some w
    \<and> buffer_ok b w \<and> (chars b w, buf_x w, buf_y w) = put_text c (text_of b s)
    \<and> (\<forall>c. c \<noteq> b \<longrightarrow> bufs w c = bufs v c)"
  proof (cases "buf_y v = 23")
    case True
    then show ?thesis
      using scroll_buf_chars [OF v(1)] scroll_buf_frame [of b v] v u(3) assms(3)
      by (auto simp: text_of_def Let_def)
  next
    case False
    then show ?thesis
      using v u(3) assms(3) by (auto simp: text_of_def Let_def buffer_ok_def chars_def)
  qed
  then obtain w where w: "put_cout c b s = Some (after w)" "buffer_ok b w"
    "(chars b w, buf_x w, buf_y w) = put_text c (text_of b s)" "\<forall>c. c \<noteq> b \<longrightarrow> bufs w c = bufs (bf s) c"
    using pc vf by auto
  have "all_buffers_ok w" using all_buffers_ok_frame [OF all w(2) assms(2)] w(4) by blast
  then show ?thesis
    using w assms(1) by (auto simp: after_def terminal_ok_def same_but_def text_of_def colour_def)
qed

lemma put_cout_char:
  assumes "terminal_ok s" and "b < 3" and "\<not> (c = 0x0A \<or> c = 0x0D)"
  shows "\<exists>s'. put_cout c b s = Some s' \<and> terminal_ok s' \<and> same_but b s s'
    \<and> text_of b s' = put_text c (text_of b s)"
proof -
  define i where "i = 80 * buf_y (bf s) + buf_x (bf s)"
  have all: "all_buffers_ok (bf s)" using assms(1) by (simp add: terminal_ok_def)
  note ok = all_buffers_okD [OF all assms(2)]
  have i: "0 \<le> i" "i < 1920" using index_bounds [OF ok] by (simp_all add: i_def)
  obtain u where u: "update_node b i (mo_update (\<lambda>_. c)) (bf s) = Some u"
    "nodes_ok (bufs u b)" "chars b u = (chars b (bf s))[nat i := c]"
    "buf_x u = buf_x (bf s)" "buf_y u = buf_y (bf s)"
    using update_node_char [of "bf s" b i c] i ok unfolding buffer_ok_def by auto
  obtain v where v: "update_node b i (printed_update (\<lambda>_. 1)) u = Some v" "nodes_ok (bufs v b)"
    "chars b v = chars b u" "buf_x v = buf_x u" "buf_y v = buf_y u"
    using update_node_printed [OF u(2) i(1)] i(2) by auto
  have xy: "0 \<le> buf_x (bf s)" "buf_x (bf s) < 80" "0 \<le> buf_y (bf s)" "buf_y (bf s) < 24"
    using ok by (auto simp: buffer_ok_def)
  define x where "x = (if buf_x (bf s) = 79 then 0 else buf_x (bf s) + 1)"
  have x: "(buf_x v + 1) smod 80 = x" "0 \<le> x" "x < 80"
    using xy v(4) u(4) by (auto simp: x_def smod_int_alt_def)
  then have y: "(buf_y v + x sdiv 80) smod 24 = buf_y (bf s)"
    using xy v(5) u(5) by (auto simp: signed_divide_int_def smod_int_alt_def sgn_if)
  define w where "w = v\<lparr>buf_x := x, buf_y := buf_y (bf s)\<rparr>"
  define s' where "s' = s\<lparr>limit := limit s + 1, line_count := line_count s + 1, bf := w\<rparr>"
  have "put_cout c b s = Some s'"
    using assms(3) u(1) v(1) x y unfolding put_cout_def Let_def i_def [symmetric] by (simp add: s'_def w_def)
  moreover have w: "buffer_ok b w" "bufs w c = bufs (bf s) c" if "c \<noteq> b" for c
    using v(2) x xy update_node_frame [OF v(1) that] update_node_frame [OF u(1) that]
    by (simp_all add: w_def buffer_ok_def)
  have wb: "buffer_ok b w" using v(2) x xy by (simp add: w_def buffer_ok_def)
  have "all_buffers_ok w" using all_buffers_ok_frame [OF all wb assms(2)] w(2) by blast
  moreover have "(chars b w, buf_x w, buf_y w) = put_text c (text_of b s)"
    using assms(3) u(3) v(3) by (simp add: w_def chars_def text_of_def x_def i_def)
  ultimately show ?thesis
    using assms(1) w(2) by (auto simp: s'_def terminal_ok_def same_but_def text_of_def)
qed

lemma put_cout_text:
  "terminal_ok s \<Longrightarrow> b < 3 \<Longrightarrow> \<exists>s'. put_cout c b s = Some s' \<and> terminal_ok s' \<and> same_but b s s'
    \<and> text_of b s' = put_text c (text_of b s)"
  using put_cout_newline put_cout_char by blast

lemma write_loop_text:
  assumes "terminal_ok s" and "process_buf s = int b" and "b < 3"
  shows "\<exists>s'. for_loop 0 (length bs) (\<lambda>i. cout_char (bs ! i)) (m, s) = Some (m, s') \<and> terminal_ok s'
    \<and> same_but b s s' \<and> text_of b s' = fold put_text bs (text_of b s)"
proof -
  let ?I = "\<lambda>i (m', s'). m' = m \<and> terminal_ok s' \<and> same_but b s s' \<and> text_of b s' = fold put_text (take i bs) (text_of b s)"
  have "\<exists>w. for_loop 0 (length bs) (\<lambda>i. cout_char (bs ! i)) (m, s) = Some w \<and> ?I (0 + length bs) w"
  proof (rule for_loop_invariant [where I = ?I])
    show "?I 0 (m, s)" using assms(1) by (simp add: same_but_refl)
    fix i w assume i: "i < 0 + length bs" and I: "?I i w"
    obtain s1 where w: "w = (m, s1)" using I by (cases w) auto
    have s1: "terminal_ok s1" "same_but b s s1" "text_of b s1 = fold put_text (take i bs) (text_of b s)"
      using I w by auto
    obtain s2 where s2: "put_cout (bs ! i) b s1 = Some s2" "terminal_ok s2" "same_but b s1 s2"
      "text_of b s2 = put_text (bs ! i) (text_of b s1)"
      using put_cout_text [OF s1(1) assms(3)] by blast
    have "process_buf s1 = int b" using s1(2) assms(2) by (simp add: same_but_def)
    then have "cout_char (bs ! i) w = Some (m, s2)"
      using s2(1) screen_at_ok [OF s1(1), of "int b"] assms(3) by (simp add: cout_char_def w)
    then show "\<exists>w'. cout_char (bs ! i) w = Some w' \<and> ?I (Suc i) w'"
      using s2 s1 i same_but_trans [OF s1(2) s2(3)] by (simp add: take_Suc_conv_app_nth)
  qed
  then show ?thesis by auto
qed

lemma show_buffer_ok:
  assumes "terminal_ok s" and "b < 3"
  shows "\<exists>m' w. show_buffer conv (Some b) (m, s) = Some (m', s\<lparr>scr := w\<rparr>) \<and> colour w = colour (scr s)
    \<and> list_all (shows_cell_at (chars b (bf s)) (colour (scr s)) m m') [0..<1920]
    \<and> {x. m' x \<noteq> m x} \<subseteq> {x. in_range VIDEO 3840 x}"
proof -
  have "buffer_ok b (bf s)" using assms all_buffers_okD by (simp add: terminal_ok_def)
  from printb_shows [OF this, of conv m "scr s"] obtain m' w where
    w: "printb conv b (bf s) (m, scr s) = Some (m', w)" "colour w = colour (scr s)"
    "\<forall>i < 1920. shows_cell (chars b (bf s) ! i) (colour (scr s)) m m' i"
    "\<forall>x. \<not> in_range VIDEO 3840 x \<longrightarrow> m' x = m x" by blast
  then show ?thesis
    by (intro exI [of _ m'] exI [of _ w]) (auto simp: show_buffer_def shows_cell_at_def list_all_iff)
qed

text \<open>Drawing leaves the number of the colour alone.\<close>

lemma printb_pick: "printb conv b u (m, w) = Some (m', w') \<Longrightarrow> color_pick w' = color_pick w"
proof -
  assume p: "printb conv b u (m, w) = Some (m', w')"
  have putc: "color_pick (snd (putc c v)) = color_pick (snd v)" for c v
    by (cases v) (simp add: putc_def Let_def)
  have step: "color_pick (snd v') = color_pick w" if "print_helper conv c x y v = Some v'" "color_pick (snd v) = color_pick w" for c x y v v'
    using that putc [of c] by (cases v) (auto simp: print_helper_char split: if_split_asm)
  have "color_pick (snd (m', w')) = color_pick w"
    by (rule for_loop_preserves [OF _ p [unfolded printb_def], where P = "\<lambda>v. color_pick (snd v) = color_pick w"])
      (auto intro: step split: option.splits)
  then show ?thesis by simp
qed

lemma show_buffer_pick: "show_buffer conv (Some b) (m, s) = Some (m', s\<lparr>scr := w\<rparr>) \<Longrightarrow> color_pick w = color_pick (scr s)"
proof -
  assume "show_buffer conv (Some b) (m, s) = Some (m', s\<lparr>scr := w\<rparr>)"
  then obtain w' where "printb conv b (bf s) (m, scr s) = Some (m', w')" "s\<lparr>scr := w'\<rparr> = s\<lparr>scr := w\<rparr>"
    by (auto simp: show_buffer_def)
  moreover from this(2) have "scr (s\<lparr>scr := w'\<rparr>) = scr (s\<lparr>scr := w\<rparr>)" by (rule arg_cong)
  ultimately show ?thesis using printb_pick by simp
qed

lemma terminal_ok_scr: "terminal_ok (s\<lparr>scr := w\<rparr>) = terminal_ok s"
  by (simp add: terminal_ok_def)

section \<open>Starting and switching\<close>

text \<open>The state at boot: no screen is assigned and the arrays have their static sizes.\<close>

definition boot_sizes :: "terminal \<Rightarrow> bool" where
  "boot_sizes s \<longleftrightarrow> length (screens s) = 3 \<and> length (components s) = 3
     \<and> length (bufs (bf s) 0) = 2000 \<and> length (bufs (bf s) 1) = 2000 \<and> length (bufs (bf s) 2) = 2000"

definition origin :: buff_attr where
  "origin = \<lparr>curr_line = 0, curr_limit = 0, curr_x = 0, curr_y = 0\<rparr>"

lemma screen_assign_ok:
  assumes "boot_sizes s" and "i < 3"
  shows "\<exists>u. screen_assign (int i) s = Some (s\<lparr>screens := (screens s)[i := Some i], bf := u,
      components := (components s)[i := origin]\<rparr>, 1)
    \<and> buffer_ok i u \<and> chars i u = replicate 2000 0x20 \<and> (\<forall>c. c \<noteq> i \<longrightarrow> bufs u c = bufs (bf s) c)
    \<and> buf_x u = 0 \<and> buf_y u = 0"
proof -
  have i: "i = 0 \<or> i = 1 \<or> i = 2" using assms(2) by auto
  have "length (bufs (bf s) i) = 2000" using assms(1) i by (auto simp: boot_sizes_def)
  then obtain u where u: "reset_buf i (bf s) = Some u" "buffer_ok i u" "chars i u = replicate 2000 0x20"
    "buf_x u = 0" "buf_y u = 0"
    using reset_buf_ok by blast
  have len: "length (screens s) = 3" "length (components s) = 3" using assms(1) by (simp_all add: boot_sizes_def)
  have "int i = 0 \<or> int i = 1 \<or> int i = 2" using i by auto
  then have "screen_assign (int i) s = Some (s\<lparr>screens := (screens s)[i := Some i], bf := u,
      components := (components s)[i := origin]\<rparr>, 1)"
    using assms(2) len u(1)
    by (simp add: screen_assign_def set_screen_def on_buffer_def set_component_def origin_def)
  then show ?thesis using u reset_buf_frame [OF u(1)] by blast
qed

lemma terminal_init_assign:
  "terminal_init s = map_option fst (screen_assign (if - 1 < screen_num s \<and> screen_num s < 2 then screen_num s + 1 else 0)
     (s\<lparr>screen_num := (if - 1 < screen_num s \<and> screen_num s < 2 then screen_num s + 1 else 0)\<rparr>))"
  by (simp add: terminal_init_def)

lemma terminal_init_ok:
  assumes "boot_sizes s" and "i < 3" and "(if - 1 < screen_num s \<and> screen_num s < 2 then screen_num s + 1 else 0) = int i"
  shows "\<exists>u. terminal_init s = Some (s\<lparr>screen_num := int i, screens := (screens s)[i := Some i], bf := u,
      components := (components s)[i := origin]\<rparr>)
    \<and> buffer_ok i u \<and> chars i u = replicate 2000 0x20 \<and> (\<forall>c. c \<noteq> i \<longrightarrow> bufs u c = bufs (bf s) c)
    \<and> buf_x u = 0 \<and> buf_y u = 0"
proof -
  have "boot_sizes (s\<lparr>screen_num := int i\<rparr>)" using assms(1) by (simp add: boot_sizes_def)
  from screen_assign_ok [OF this assms(2)] show ?thesis
    unfolding terminal_init_assign assms(3) by fastforce
qed

lemma terminal_switch_ok:
  assumes "terminal_ok s" and "0 \<le> new" "new < 3" "0 \<le> old" "old < 3"
  defines "saved \<equiv> (components s)[nat old := \<lparr>curr_line = line_count s, curr_limit = limit s,
      curr_x = buf_x (bf s), curr_y = buf_y (bf s)\<rparr>]"
  defines "a \<equiv> saved ! nat new"
  shows "\<exists>m' w. terminal_switch conv new old (m, s) = Some (m', s\<lparr>components := saved, line_count := curr_line a,
      limit := curr_limit a, bf := (bf s)\<lparr>buf_x := curr_x a, buf_y := curr_y a\<rparr>, scr := w, screen_num := new\<rparr>)
    \<and> terminal_ok (s\<lparr>components := saved, line_count := curr_line a,
      limit := curr_limit a, bf := (bf s)\<lparr>buf_x := curr_x a, buf_y := curr_y a\<rparr>, scr := w, screen_num := new\<rparr>)
    \<and> list_all (shows_cell_at (chars (nat new) (bf s)) (colour (scr s)) (clear m) m') [0..<1920]
    \<and> {x. m' x \<noteq> clear m x} \<subseteq> {x. in_range VIDEO 3840 x} \<and> color_pick w = color_pick (scr s)"
proof -
  have len: "length (components s) = 3" "length saved = 3" using assms(1) by (simp_all add: terminal_ok_def saved_def)
  have n: "nat new < 3" "nat old < 3" using assms by auto
  have all: "all_buffers_ok (bf s)" using assms(1) by (simp add: terminal_ok_def)
  have pos: "0 \<le> buf_x (bf s)" "buf_x (bf s) < 80" "0 \<le> buf_y (bf s)" "buf_y (bf s) < 24"
    using all_buffers_okD [OF all n(1)] by (auto simp: buffer_ok_def)
  have saved: "list_all attr_ok saved"
    unfolding saved_def
    by (rule list_all_update) (use assms(1) pos in \<open>auto simp: terminal_ok_def attr_ok_def\<close>)
  then have a: "attr_ok a" using n(1) len(2) by (simp add: a_def list_all_length)
  define s1 where "s1 = s\<lparr>components := saved, line_count := curr_line a, limit := curr_limit a,
    bf := (bf s)\<lparr>buf_x := curr_x a, buf_y := curr_y a\<rparr>\<rparr>"
  have "all_buffers_ok (bf s1)" using all a by (simp add: s1_def all_buffers_ok_def buffer_ok_def attr_ok_def)
  then have ok1: "terminal_ok s1" using assms(1) saved len by (simp add: s1_def terminal_ok_def)
  obtain m' w where sb: "show_buffer conv (Some (nat new)) (clear m, s1) = Some (m', s1\<lparr>scr := w\<rparr>)"
    "list_all (shows_cell_at (chars (nat new) (bf s1)) (colour (scr s1)) (clear m) m') [0..<1920]"
    "{x. m' x \<noteq> clear m x} \<subseteq> {x. in_range VIDEO 3840 x}"
    using show_buffer_ok [OF ok1 n(1)] by blast
  have pick: "color_pick w = color_pick (scr s)" using show_buffer_pick [OF sb(1)] by (simp add: s1_def)
  have "terminal_switch conv new old (m, s) = Some (m', s1\<lparr>scr := w, screen_num := new\<rparr>)"
    using sb(1) assms(2-5) len screen_at_ok [OF ok1 assms(2,3)]
    unfolding terminal_switch_def set_component_def component_at_def
    by (simp add: saved_def [symmetric] a_def [symmetric] s1_def [symmetric])
  moreover have "terminal_ok (s1\<lparr>scr := w, screen_num := new\<rparr>)"
    using ok1 assms(2,3) by (simp add: terminal_ok_def)
  moreover have "chars (nat new) (bf s1) = chars (nat new) (bf s)" "colour (scr s1) = colour (scr s)"
    by (simp_all add: s1_def chars_def)
  ultimately show ?thesis
    using sb(2,3) pick by (intro exI [of _ m'] exI [of _ w]) (simp add: s1_def)
qed

section \<open>The clock\<close>

text \<open>The text \<open>hh:mm\<close> for a number of ticks below 3600.\<close>

definition time_text :: "nat \<Rightarrow> u8 list" where
  "time_text v = [0x30 + of_nat (v div 600), 0x30 + of_nat (v div 60 mod 10), 0x3A,
                  0x30 + of_nat (v mod 60 div 10), 0x30 + of_nat (v mod 10)]"

lemma digit_carry:
  "n < 10 \<Longrightarrow> (0x39 <s (0x30 + of_nat n + 1 :: u8)) = (n = 9)"
  "n < 10 \<Longrightarrow> (0x35 <s (0x30 + of_nat n + 1 :: u8)) = (5 \<le> n)"
proof -
  assume n: "n < 10"
  have "(0x30 + of_nat n + 1 :: u8) = of_int (int n + 49)" by simp
  then have "sint (0x30 + of_nat n + 1 :: u8) = int n + 49"
    using n by (simp only: signed_of_int) (simp add: signed_take_bit_int_eq_self)
  then show "(0x39 <s (0x30 + of_nat n + 1 :: u8)) = (n = 9)" "(0x35 <s (0x30 + of_nat n + 1 :: u8)) = (5 \<le> n)"
    using n by (auto simp: word_sless_alt)
qed

lemma time_text_digits:
  "i < 6 \<Longrightarrow> j < 10 \<Longrightarrow> k < 6 \<Longrightarrow> l < 10 \<Longrightarrow>
   time_text (600 * i + 60 * j + 10 * k + l) = [0x30 + of_nat i, 0x30 + of_nat j, 0x3A, 0x30 + of_nat k, 0x30 + of_nat l]"
proof -
  assume b: "i < 6" "j < 10" "k < 6" "l < 10"
  define n where "n = 600 * i + 60 * j + 10 * k + l"
  have "n div 600 = i" "n div 60 = 10 * i + j" "n div 10 = 60 * i + 6 * j + k"
    using b by (auto simp: n_def intro!: div_nat_eqI)
  moreover have "n mod 60 = 10 * k + l" "n mod 10 = l"
    using b calculation by (simp_all add: modulo_nat_def n_def)
  ultimately have "time_text n = [0x30 + of_nat i, 0x30 + of_nat j, 0x3A, 0x30 + of_nat k, 0x30 + of_nat l]"
    using b by (simp add: time_text_def)
  then show ?thesis by (simp only: n_def)
qed

lemma get_system_time_digits:
  assumes "sys_time s = [0x30 + of_nat i, 0x30 + of_nat j, 0x3A, 0x30 + of_nat k, 0x30 + of_nat l]"
    and "i < 6" "j < 10" "k < 6" "l < 10"
  shows "get_system_time s = s\<lparr>sys_time := time_text ((600 * i + 60 * j + 10 * k + l + 1) mod 3600)\<rparr>"
proof -
  note c = digit_carry [of i] digit_carry [of j] digit_carry [of k] digit_carry [of l]
  have up: "i < 10" "k < 10" using assms by simp_all
  consider "l < 9" | "l = 9" "k < 5" | "l = 9" "k = 5" "j < 9" | "l = 9" "k = 5" "j = 9" "i < 5" | "l = 9" "k = 5" "j = 9" "i = 5"
    using assms by linarith
  then show ?thesis
  proof cases
    case 1
    have "(600 * i + 60 * j + 10 * k + l + 1) mod 3600 = 600 * i + 60 * j + 10 * k + Suc l" using 1 assms by simp
    then show ?thesis
      using 1 assms c up time_text_digits [of i j k "Suc l"] by (simp add: get_system_time_def Let_def ac_simps)
  next
    case 2
    have "(600 * i + 60 * j + 10 * k + l + 1) mod 3600 = 600 * i + 60 * j + 10 * Suc k + 0" using 2 assms by simp
    then show ?thesis
      using 2 assms c up time_text_digits [of i j "Suc k" 0] by (simp add: get_system_time_def Let_def ac_simps)
  next
    case 3
    have "(600 * i + 60 * j + 10 * k + l + 1) mod 3600 = 600 * i + 60 * Suc j + 10 * 0 + 0" using 3 assms by simp
    then show ?thesis
      using 3 assms c up time_text_digits [of i "Suc j" 0 0] by (simp add: get_system_time_def Let_def ac_simps)
  next
    case 4
    have "(600 * i + 60 * j + 10 * k + l + 1) mod 3600 = 600 * Suc i + 60 * 0 + 10 * 0 + 0" using 4 assms by simp
    then show ?thesis
      using 4 assms c up time_text_digits [of "Suc i" 0 0 0] by (simp add: get_system_time_def Let_def ac_simps)
  next
    case 5
    have "(600 * i + 60 * j + 10 * k + l + 1) mod 3600 = 600 * 0 + 60 * 0 + 10 * 0 + 0" using 5 by simp
    then show ?thesis
      using 5 assms c up time_text_digits [of 0 0 0 0] by (simp add: get_system_time_def Let_def ac_simps)
  qed
qed

lemma get_system_time_text:
  assumes "v < 3600" and "sys_time s = time_text v"
  shows "get_system_time s = s\<lparr>sys_time := time_text (Suc v mod 3600)\<rparr>"
proof -
  have d: "600 * (v div 600) + 60 * (v div 60 mod 10) + 10 * (v mod 60 div 10) + v mod 10 = v"
  proof -
    have "v = 60 * (v div 60) + v mod 60" "v div 60 = 10 * (v div 60 div 10) + v div 60 mod 10"
      "v mod 60 = 10 * (v mod 60 div 10) + v mod 60 mod 10" by simp_all
    moreover have "v div 60 div 10 = v div 600" "v mod 60 mod 10 = v mod 10"
      by (simp_all add: div_mult2_eq [symmetric] mod_mod_cancel)
    ultimately show ?thesis by linarith
  qed
  have b: "v div 600 < 6" "v div 60 mod 10 < 10" "v mod 60 div 10 < 6" "v mod 10 < 10"
    using assms(1) by (simp_all add: less_mult_imp_div_less)
  show ?thesis
    using get_system_time_digits [OF assms(2) [unfolded time_text_def] b] unfolding d by simp
qed

lemma byte_of_nat_nonzero: "0 < n \<Longrightarrow> n < 256 \<Longrightarrow> (of_nat n :: u8) \<noteq> 0"
proof -
  assume "0 < n" "n < 256"
  then have "unat (of_nat n :: u8) \<noteq> 0" by (simp add: unat_of_nat take_bit_nat_eq_self)
  then show ?thesis by auto
qed

lemma time_text_nonzero: "0 \<notin> set (time_text (v mod 3600))"
proof -
  have "(0x30 + of_nat d :: u8) \<noteq> 0" if "d < 10" for d
    using that byte_of_nat_nonzero [of "48 + d"] by simp
  from this [of "v mod 3600 div 600"] this [of "v mod 3600 div 60 mod 10"] this [of "v mod 3600 mod 60 div 10"]
    this [of "v mod 3600 mod 10"]
  show ?thesis by (simp add: time_text_def less_mult_imp_div_less)
qed

text \<open>The copying loops write \<open>src\<close> backwards, ending \<open>k\<close> characters before the end of the string.\<close>

lemma store_bytes_last:
  "length bs < 4294967296 \<Longrightarrow> store_bytes (m(a + of_nat (length bs) := v)) a bs = store_bytes m a (bs @ [v])"
proof
  fix x assume len: "length bs < 4294967296"
  have "unat (x - a) = length bs \<longleftrightarrow> x = a + of_nat (length bs)" using len by (rule unat_diff_eq)
  then show "store_bytes (m(a + of_nat (length bs) := v)) a bs x = store_bytes m a (bs @ [v]) x"
    using len by (auto simp: store_bytes_apply in_range_def nth_append unat_of_nat32)
qed

lemma cstr_update:
  assumes "cstr m s bs" and "i < length bs" and "v \<noteq> 0"
  shows "cstr (m(s + of_nat i := v)) s (bs[i := v])"
proof -
  have eq: "s + of_nat j = s + of_nat i \<longleftrightarrow> j = i" if "j \<le> length bs" for j
    using that assms(2) cstr_length [OF assms(1)] of_nat_eq32 [of j i] by simp
  have "0 \<notin> set (bs[i := v])" using assms(1,3) set_update_subset_insert [of bs i v] by (auto simp: cstr_iff)
  then show ?thesis
    using assms eq by (auto simp: cstr_iff nth_list_update)
qed

lemma embed_loop_store:
  assumes "cstr m st bs" and "0 \<notin> set src" and "length src < k" and "k \<le> length bs" and "r \<le> length src"
  shows "embed_loop src (of_nat k) st (of_nat (length bs - k + r)) (int r - 1) m =
    Some (store_bytes m (st + of_nat (length bs - k + 1)) (take r src))"
  using assms(1,4,5)
proof (induction r arbitrary: m bs)
  case 0
  have "of_nat (length bs) - of_nat k = (of_nat (length bs - k) :: u32)" using 0 by (simp add: of_nat_diff)
  then show ?case using strlen_cstr [OF 0(1)] by (subst embed_loop.simps) simp
next
  case (Suc r)
  define p where "p = length bs - k + Suc r"
  have n: "length bs < 4294967296" using cstr_length [OF Suc.prems(1)] .
  have p: "p < length bs" "length bs - k < p" using Suc.prems assms(3) by (simp_all add: p_def)
  have d: "of_nat (length bs) - of_nat k = (of_nat (length bs - k) :: u32)" using Suc.prems by (simp add: of_nat_diff)
  have gt: "(of_nat (length bs - k) :: u32) < of_nat p"
    using p n by (simp add: word_less_nat_alt unat_of_nat32)
  have nz: "src ! r \<noteq> 0" using Suc.prems assms(2) by (metis Suc_le_lessD nth_mem)
  have c: "cstr (m(st + of_nat p := src ! r)) st (bs[p := src ! r])"
    using cstr_update [OF Suc.prems(1) p(1) nz] .
  have pm: "(of_nat p :: u32) - 1 = of_nat (length bs - k + r)" by (simp add: p_def)
  have "embed_loop src (of_nat k) st (of_nat p) (int r) m =
    embed_loop src (of_nat k) st (of_nat (length bs - k + r)) (int r - 1) (m(st + of_nat p := src ! r))"
    using strlen_cstr [OF Suc.prems(1)] gt Suc.prems(3) pm d by (subst embed_loop.simps) simp
  also have "\<dots> = Some (store_bytes (m(st + of_nat p := src ! r)) (st + of_nat (length bs - k + 1)) (take r src))"
    by (rule Suc.IH [OF c, unfolded length_list_update]) (use Suc.prems in auto)
  also have "store_bytes (m(st + of_nat p := src ! r)) (st + of_nat (length bs - k + 1)) (take r src) =
    store_bytes m (st + of_nat (length bs - k + 1)) (take (Suc r) src)"
  proof -
    have e: "st + of_nat p = st + of_nat (length bs - k + 1) + of_nat (length (take r src))"
      using Suc.prems by (simp add: p_def)
    have "take (Suc r) src = take r src @ [src ! r]" using Suc.prems by (simp add: take_Suc_conv_app_nth)
    moreover have "length (take r src) < 4294967296" using Suc.prems assms(3) n by simp
    ultimately show ?thesis unfolding e by (simp only: store_bytes_last)
  qed
  finally show ?case by (simp add: p_def)
qed

lemma cstr_splice:
  assumes "cstr m st bs" and "0 \<notin> set src" and "i + length src \<le> length bs"
  shows "cstr (store_bytes m (st + of_nat i) src) st (take i bs @ src @ drop (i + length src) bs)"
proof -
  have n: "length bs < 4294967296" using cstr_length [OF assms(1)] .
  have eq: "unat (st + of_nat j - (st + of_nat i)) < length src \<longleftrightarrow> i \<le> j \<and> j < i + length src"
    "i \<le> j \<Longrightarrow> unat (st + of_nat j - (st + of_nat i)) = j - i" if j: "j \<le> length bs" for j
  proof -
    show ge: "unat (st + of_nat j - (st + of_nat i)) = j - i" if "i \<le> j"
    proof -
      have "st + of_nat j - (st + of_nat i) = (of_nat (j - i) :: u32)" using that by (simp add: of_nat_diff)
      then show ?thesis using j n by (simp add: unat_of_nat32)
    qed
    show "unat (st + of_nat j - (st + of_nat i)) < length src \<longleftrightarrow> i \<le> j \<and> j < i + length src"
    proof (cases "i \<le> j")
      case True
      then show ?thesis using ge by auto
    next
      case False
      have d: "st + of_nat i - (st + of_nat j) = (of_nat (i - j) :: u32)" using False by (simp add: of_nat_diff)
      have "0 < i - j" "i - j < 4294967296" using False n assms(3) by auto
      then have "unat (st + of_nat i - (st + of_nat j)) = i - j" unfolding d by (simp only: unat_of_nat32)
      moreover from this have "st + of_nat j \<noteq> st + of_nat i" using False by (metis diff_self unat_0 zero_less_diff not_less less_irrefl linorder_not_le)
      ultimately have "unat (st + of_nat j - (st + of_nat i)) = 4294967296 - (i - j)"
        using unat_swap_diff [of "st + of_nat j" "st + of_nat i"] by simp
      then show ?thesis using False n assms(3) by auto
    qed
  qed
  have "0 \<notin> set (take i bs @ src @ drop (i + length src) bs)"
    using assms(1,2) set_take_subset [of i bs] set_drop_subset [of "i + length src" bs] by (auto simp: cstr_iff)
  moreover have "store_bytes m (st + of_nat i) src (st + of_nat j) = (take i bs @ src @ drop (i + length src) bs) ! j"
    if "j < length bs" for j
    using that n assms(3) eq [of j] cstr_nth [OF assms(1) that]
    by (auto simp: store_bytes_apply in_range_def nth_append)
  moreover have "store_bytes m (st + of_nat i) src (st + of_nat (length bs)) = 0"
    using n assms(3) eq [of "length bs"] cstr_end [OF assms(1)] by (auto simp: store_bytes_apply in_range_def)
  ultimately show ?thesis using n assms(3) by (simp add: cstr_iff)
qed

section \<open>Reading a line\<close>

lemma copy_line_typed:
  assumes "buffer_ok b (bf s)" and "i + length typed < 2000" and "length typed < c"
    and "typed = take (length typed) (drop i (chars b (bf s)))"
    and "0x0A \<notin> set (take (length typed) (drop (Suc i) (chars b (bf s))))" and "j \<le> length typed"
  shows "copy_line b cmd_start (int (i + length typed)) (int (i + j)) j (take j typed @ replicate (c - j) 0)
      (s\<lparr>typed_length := k\<rparr>)
    = Some (typed @ replicate (c - length typed) 0, s\<lparr>typed_length := k + int (length typed - j)\<rparr>)"
  using assms(6)
proof (induction "length typed - j" arbitrary: j k)
  case 0
  then show ?case by (subst copy_line.simps) simp
next
  case (Suc d)
  then have j: "j < length typed" "d = length typed - Suc j" by simp_all
  have ok: "nodes_ok (bufs (bf s) b)" using assms(1) by (simp add: buffer_ok_def)
  have len: "length (chars b (bf s)) = 2000" using length_chars [OF ok] .
  obtain n where n: "node_at b (int (i + j)) (bf s) = Some n" "mo n = chars b (bf s) ! (i + j)"
    using node_at_ok [OF ok, of "int (i + j)", unfolded nat_int] assms(2) j by (auto simp del: of_nat_add)
  obtain n' where n': "node_at b (int (i + j) + 1) (bf s) = Some n'" "mo n' = chars b (bf s) ! Suc (i + j)"
    using node_at_ok [OF ok, of "int (Suc (i + j))", unfolded nat_int] assms(2) j by (auto simp: ac_simps)
  have tj: "typed ! j = chars b (bf s) ! (i + j)"
    using j assms(2) len by (subst assms(4)) (simp add: nth_append)
  have "chars b (bf s) ! Suc (i + j) = take (length typed) (drop (Suc i) (chars b (bf s))) ! j"
    using j assms(2) len by simp
  moreover have "j < length (take (length typed) (drop (Suc i) (chars b (bf s))))"
    using j assms(2) len by simp
  ultimately have nl: "mo n' \<noteq> 0x0A" using assms(5) n'(2) nth_mem by metis
  have out: "(take j typed @ replicate (c - j) 0)[j := mo n] = take (Suc j) typed @ replicate (c - Suc j) 0"
  proof -
    have "replicate (c - j) (0 :: u8) = 0 # replicate (c - Suc j) 0"
      using j assms(3) by (simp add: Suc_diff_Suc flip: replicate_Suc)
    then show ?thesis using j n(2) tj by (simp add: list_update_append take_Suc_conv_app_nth)
  qed
  have "copy_line b cmd_start (int (i + length typed)) (int (i + j)) j (take j typed @ replicate (c - j) 0)
      (s\<lparr>typed_length := k\<rparr>) =
    copy_line b cmd_start (int (i + length typed)) (int (i + Suc j)) (Suc j)
      (take (Suc j) typed @ replicate (c - Suc j) 0) (s\<lparr>typed_length := k + 1\<rparr>)"
    using j n n' nl assms(3) out by (subst copy_line.simps) (simp add: Let_def ac_simps)
  also have "\<dots> = Some (typed @ replicate (c - length typed) 0, s\<lparr>typed_length := (k + 1) + int (length typed - Suc j)\<rparr>)"
    using Suc.hyps(1) [OF j(2)] j(1) by simp
  finally show ?case using j by (simp add: of_nat_diff)
qed

section \<open>A terminal to apply the properties to\<close>

definition sample_terminal :: terminal where
  "sample_terminal = \<lparr>scr = \<lparr>screen_x = 0, screen_y = 0, color_pick = 0\<rparr>, bf = sample_buffers\<lparr>buf_x := 7, buf_y := 3\<rparr>,
     line_count = 0, limit = 0, typed_length = 0, enter_press = 0, screens = [Some 0, Some 1, Some 2],
     screen_num = 0, process_buf = 0, components = [origin, origin, origin], status = 0,
     sys_time = time_text 59, mouse_x = 79, mouse_y = 24\<rparr>"

lemma sample_terminal_nodes: "bufs (bf sample_terminal) b = sample_nodes"
  by (simp add: sample_terminal_def sample_buffers_def)

lemma sample_nodes_ok: "nodes_ok sample_nodes"
  by (simp add: nodes_ok_def node_ok_def sample_nodes_def)

lemma sample_terminal_pos: "buf_x (bf sample_terminal) = 7" "buf_y (bf sample_terminal) = 3"
  by (simp_all add: sample_terminal_def)

lemma sample_terminal_ok: "terminal_ok sample_terminal"
  using sample_nodes_ok
  by (simp add: terminal_ok_def all_buffers_ok_def buffer_ok_def sample_terminal_nodes sample_terminal_pos)
    (simp add: sample_terminal_def attr_ok_def origin_def)

lemma sample_chars: "chars b (bf sample_terminal) = replicate 2000 0x41"
  by (rule nth_equalityI) (simp_all add: chars_def sample_terminal_nodes sample_nodes_def)

text \<open>Two keys are typed before the first test, Enter before the second.\<close>

definition sample_kbd :: "nat \<Rightarrow> line_world \<Rightarrow> line_world" where
  "sample_kbd k = (\<lambda>(m, s, p). (m,
     if k = 0 then s\<lparr>bf := (bf s)\<lparr>buf_x := 9\<rparr>\<rparr> else s\<lparr>bf := (bf s)\<lparr>buf_x := 0, buf_y := 4\<rparr>, enter_press := 1\<rparr>, p))"

lemma terminal_write_string:
  assumes "terminal_ok s" and "cstr m buf bs" and "file_pos f < 3"
  shows "\<exists>m' s'. terminal_write conv f buf counter (m, s) = Some (counter, m', s') \<and> terminal_ok s'
    \<and> text_of (unat (file_pos f)) s' = fold put_text bs (text_of (unat (file_pos f)) s)
    \<and> {c. bufs (bf s') c \<noteq> bufs (bf s) c} \<subseteq> {unat (file_pos f)}
    \<and> list_all (shows_cell_at (chars (nat (screen_num s)) (bf s')) (colour (scr s)) m m') [0..<1920]
    \<and> {x. m' x \<noteq> m x} \<subseteq> {x. in_range VIDEO 3840 x}"
proof -
  define b where "b = unat (file_pos f)"
  define s0 where "s0 = s\<lparr>process_buf := sint (file_pos f)\<rparr>"
  have b: "b < 3" using assms(3) by (simp add: b_def word_less_nat_alt)
  have ok0: "terminal_ok s0" "process_buf s0 = int b"
    using assms(1) sint_unat32 [of "file_pos f"] b by (simp_all add: s0_def terminal_ok_def b_def)
  have len: "length bs < 4294967296" using cstr_length [OF assms(2)] .
  obtain s1 where s1: "for_loop 0 (length bs) (\<lambda>i. cout_char (bs ! i)) (m, s0) = Some (m, s1)" "terminal_ok s1"
    "same_but b s0 s1" "text_of b s1 = fold put_text bs (text_of b s0)"
    using write_loop_text [OF ok0 b] by blast
  have "for_loop 0 (length bs) (\<lambda>i. cout_char (m (buf + of_nat i))) (m, s0) =
    for_loop 0 (length bs) (\<lambda>i. cout_char (bs ! i)) (m, s0)"
    by (rule for_loop_cong) (simp add: cstr_nth [OF assms(2)])
  then have loop: "for_loop 0 (length bs) (\<lambda>i. cout_char (m (buf + of_nat i))) (m, s0) = Some (m, s1)"
    using s1(1) by simp
  have num: "0 \<le> screen_num s1" "screen_num s1 < 3" using s1(2) by (simp_all add: terminal_ok_def)
  define d where "d = nat (screen_num s1)"
  have d: "pass_buff s1 = Some d" "d < 3"
    using screen_at_ok [OF s1(2) num] num by (auto simp: pass_buff_def d_def)
  obtain m' w where sb: "show_buffer conv (Some d) (m, s1) = Some (m', s1\<lparr>scr := w\<rparr>)"
    "list_all (shows_cell_at (chars d (bf s1)) (colour (scr s1)) m m') [0..<1920]"
    "{x. m' x \<noteq> m x} \<subseteq> {x. in_range VIDEO 3840 x}"
    using show_buffer_ok [OF s1(2) d(2)] by blast
  have "terminal_write conv f buf counter (m, s) = Some (counter, m', s1\<lparr>scr := w\<rparr>)"
    using strlen_cstr [OF assms(2)] loop len d(1) sb(1)
    by (simp add: terminal_write_def Let_def s0_def [symmetric] unat_of_nat32)
  moreover have "colour (scr s1) = colour (scr s)" "d = nat (screen_num s)"
    using s1(3) by (simp_all add: same_but_def s0_def d_def)
  moreover have "{c. bufs (bf s1) c \<noteq> bufs (bf s) c} \<subseteq> {b}"
    using s1(3) by (auto simp: same_but_def s0_def)
  moreover have "text_of b s0 = text_of b s" "text_of b (s1\<lparr>scr := w\<rparr>) = text_of b s1"
    by (simp_all add: text_of_def s0_def)
  ultimately show ?thesis
    using s1 sb(2,3) unfolding b_def [symmetric]
    by (intro exI [of _ m'] exI [of _ "s1\<lparr>scr := w\<rparr>"]) (simp add: terminal_ok_scr)
qed

section \<open>Properties\<close>

text \<open>
  C11. \<open>terminal_write\<close> of a string returns \<open>counter\<close> and puts the characters of the string, one
  after the other, into the buffer of the terminal the file entry names, whichever terminal is on
  display; no other buffer changes, and the screen shows the buffer on display. The count plays no
  part: the whole string is written.
\<close>

theorem terminal_write_spec:
  assumes "terminal_ok s" and "cstr m buf bs" and "file_pos f < 3"
  shows "\<exists>m' s'. terminal_write conv f buf counter (m, s) = Some (counter, m', s') \<and> terminal_ok s'
    \<and> text_of (unat (file_pos f)) s' = fold put_text bs (text_of (unat (file_pos f)) s)
    \<and> {c. bufs (bf s') c \<noteq> bufs (bf s) c} \<subseteq> {unat (file_pos f)}
    \<and> list_all (shows_cell_at (chars (nat (screen_num s)) (bf s')) (colour (scr s)) m m') [0..<1920]
    \<and> {x. m' x \<noteq> m x} \<subseteq> {x. in_range VIDEO 3840 x}"
  by (rule terminal_write_string [OF assms])

theorem terminal_write_spec_witness:
  "\<exists>m' s'. terminal_write 0x5000 (closed_file\<lparr>file_pos := 1\<rparr>) 0x100 9
      (store_bytes (\<lambda>_. 0) 0x100 (ascii ''hi'' @ [0]), sample_terminal) = Some (9, m', s')
    \<and> chars 1 (bf s') ! 247 = 0x68 \<and> buf_x (bf s') = 9 \<and> bufs (bf s') 0 = sample_nodes"
proof -
  have c: "cstr (store_bytes (\<lambda>_. 0) 0x100 (ascii ''hi'' @ [0])) 0x100 (ascii ''hi'')"
    by (rule cstr_store_bytes) (simp_all add: ascii_def)
  obtain m' s' where w: "terminal_write 0x5000 (closed_file\<lparr>file_pos := 1\<rparr>) 0x100 9
      (store_bytes (\<lambda>_. 0) 0x100 (ascii ''hi'' @ [0]), sample_terminal) = Some (9, m', s')"
    "text_of 1 s' = fold put_text (ascii ''hi'') (text_of 1 sample_terminal)"
    "{c. bufs (bf s') c \<noteq> bufs (bf sample_terminal) c} \<subseteq> {1}"
    using terminal_write_spec [OF sample_terminal_ok c, of "closed_file\<lparr>file_pos := 1\<rparr>" "0x5000" 9] by auto
  have "fold put_text (ascii ''hi'') (text_of 1 sample_terminal) =
    ((replicate 2000 0x41)[247 := 0x68, 248 := 0x69], 9, 3)"
    by (simp add: text_of_def sample_chars sample_terminal_pos ascii_def)
  then have "chars 1 (bf s') = (replicate 2000 0x41)[247 := 0x68, 248 := 0x69]" "buf_x (bf s') = 9"
    using w(2) by (simp_all add: text_of_def)
  moreover have "bufs (bf s') 0 = sample_nodes" using w(3) sample_terminal_nodes by auto
  ultimately show ?thesis using w(1) by auto
qed

text \<open>
  The three calls of \<open>terminal_init\<close> at boot assign a blank buffer to each of the three
  terminals, establish the invariant and leave terminal 0 on display.
\<close>

lemma terminal_init_spec:
  assumes "boot_sizes s" and "screen_num s = 0"
  shows "\<exists>s1 s2 s3. terminal_init s = Some s1 \<and> terminal_init s1 = Some s2 \<and> terminal_init s2 = Some s3
    \<and> terminal_ok s3 \<and> screen_num s3 = 0
    \<and> map (\<lambda>b. text_of b s3) [0, 1, 2] = replicate 3 (replicate 2000 0x20, 0, 0)
    \<and> mouse_x s3 = mouse_x s \<and> mouse_y s3 = mouse_y s \<and> scr s3 = scr s"
proof -
  have l: "length (screens s) = 3" "length (components s) = 3" using assms(1) by (simp_all add: boot_sizes_def)
  obtain u1 where u1: "terminal_init s = Some (s\<lparr>screen_num := 1, screens := (screens s)[1 := Some 1], bf := u1,
      components := (components s)[1 := origin]\<rparr>)" "buffer_ok 1 u1" "chars 1 u1 = replicate 2000 0x20"
    "\<forall>c. c \<noteq> 1 \<longrightarrow> bufs u1 c = bufs (bf s) c"
    using terminal_init_ok [OF assms(1), of 1] assms(2) by auto
  define s1 where "s1 = s\<lparr>screen_num := 1, screens := (screens s)[1 := Some 1], bf := u1,
      components := (components s)[1 := origin]\<rparr>"
  have b1: "boot_sizes s1" using assms(1) u1(2,4) by (simp add: s1_def boot_sizes_def buffer_ok_def nodes_ok_def)
  obtain u2 where u2: "terminal_init s1 = Some (s1\<lparr>screen_num := 2, screens := (screens s1)[2 := Some 2], bf := u2,
      components := (components s1)[2 := origin]\<rparr>)" "buffer_ok 2 u2" "chars 2 u2 = replicate 2000 0x20"
    "\<forall>c. c \<noteq> 2 \<longrightarrow> bufs u2 c = bufs (bf s1) c"
    using terminal_init_ok [OF b1, of 2] by (auto simp: s1_def)
  define s2 where "s2 = s1\<lparr>screen_num := 2, screens := (screens s1)[2 := Some 2], bf := u2,
      components := (components s1)[2 := origin]\<rparr>"
  have b2: "boot_sizes s2" using b1 u2(2,4) by (simp add: s2_def boot_sizes_def buffer_ok_def nodes_ok_def)
  obtain u3 where u3: "terminal_init s2 = Some (s2\<lparr>screen_num := 0, screens := (screens s2)[0 := Some 0], bf := u3,
      components := (components s2)[0 := origin]\<rparr>)" "buffer_ok 0 u3" "chars 0 u3 = replicate 2000 0x20"
    "\<forall>c. c \<noteq> 0 \<longrightarrow> bufs u3 c = bufs (bf s2) c" "buf_x u3 = 0" "buf_y u3 = 0"
    using terminal_init_ok [OF b2, of 0] by (auto simp: s2_def)
  define s3 where "s3 = s2\<lparr>screen_num := 0, screens := (screens s2)[0 := Some 0], bf := u3,
      components := (components s2)[0 := origin]\<rparr>"
  have b: "bf s1 = u1" "bf s2 = u2" "bf s3 = u3" by (simp_all add: s1_def s2_def s3_def)
  have scr: "screens s3 = (screens s)[1 := Some 1, 2 := Some 2, 0 := Some 0]"
    "components s3 = (components s)[1 := origin, 2 := origin, 0 := origin]"
    by (simp_all add: s1_def s2_def s3_def)
  have three: "xs[1 := x, 2 := y, 0 := z] = [z, x, y]" if "length xs = 3" for xs :: "'b list" and x y z
    using that by (auto simp: numeral_3_eq_3 numeral_2_eq_2 length_Suc_conv)
  have "screens s3 = [Some 0, Some 1, Some 2]" "components s3 = [origin, origin, origin]"
    using scr l by (simp_all only: three)
  moreover have "all_buffers_ok u3" "chars 1 u3 = replicate 2000 0x20" "chars 2 u3 = replicate 2000 0x20"
    using u1(2,3) u2 u3 b by (auto simp: all_buffers_ok_def buffer_ok_def chars_def)
  moreover have "screen_num s3 = 0" by (simp add: s3_def)
  ultimately have "terminal_ok s3" "screen_num s3 = 0"
    "map (\<lambda>b. text_of b s3) [0, 1, 2] = replicate 3 (replicate 2000 0x20, 0, 0)"
    using u3(3,5,6) b(3) by (simp_all add: terminal_ok_def attr_ok_def origin_def text_of_def numeral_3_eq_3)
  moreover have "mouse_x s3 = mouse_x s" "mouse_y s3 = mouse_y s" "scr s3 = scr s" by (simp_all add: s1_def s2_def s3_def)
  moreover have "terminal_init s = Some s1" "terminal_init s1 = Some s2" "terminal_init s2 = Some s3"
    using u1(1) u2(1) u3(1) by (simp_all only: s1_def s2_def s3_def)
  ultimately show ?thesis by blast
qed

text \<open>
  Switching to another terminal and back restores the position, the line counters and the
  text of every buffer of the first terminal; in between the screen shows the other buffer, on a
  cleared screen, and the position is the one that terminal was left at.
\<close>

lemma terminal_switch_spec:
  assumes "terminal_ok s" and "0 \<le> new" "new < 3" and "screen_num s \<noteq> new"
  shows "\<exists>m1 s1 m2 s2. terminal_switch conv new (screen_num s) (m, s) = Some (m1, s1)
    \<and> screen_num s1 = new \<and> terminal_ok s1 \<and> buf_x (bf s1) = curr_x (components s ! nat new)
    \<and> buf_y (bf s1) = curr_y (components s ! nat new) \<and> line_count s1 = curr_line (components s ! nat new)
    \<and> list_all (shows_cell_at (chars (nat new) (bf s)) (colour (scr s)) (clear m) m1) [0..<1920]
    \<and> terminal_switch conv (screen_num s) new (m1, s1) = Some (m2, s2)
    \<and> screen_num s2 = screen_num s \<and> terminal_ok s2 \<and> bf s2 = bf s \<and> line_count s2 = line_count s \<and> limit s2 = limit s"
proof -
  define old where "old = screen_num s"
  have old: "0 \<le> old" "old < 3" "nat new \<noteq> nat old" using assms by (auto simp: old_def terminal_ok_def)
  have len: "length (components s) = 3" using assms(1) by (simp add: terminal_ok_def)
  obtain m1 s1 where s1: "terminal_switch conv new old (m, s) = Some (m1, s1)" "terminal_ok s1"
    "components s1 = (components s)[nat old := \<lparr>curr_line = line_count s, curr_limit = limit s,
      curr_x = buf_x (bf s), curr_y = buf_y (bf s)\<rparr>]" "screen_num s1 = new"
    "buf_x (bf s1) = curr_x (components s ! nat new)" "buf_y (bf s1) = curr_y (components s ! nat new)"
    "line_count s1 = curr_line (components s ! nat new)" "bufs (bf s1) = bufs (bf s)"
    "backspace_flag (bf s1) = backspace_flag (bf s)"
    "list_all (shows_cell_at (chars (nat new) (bf s)) (colour (scr s)) (clear m) m1) [0..<1920]"
    using terminal_switch_ok [OF assms(1-3) old(1,2), of conv m] old(3) by auto
  obtain m2 s2 where s2: "terminal_switch conv old new (m1, s1) = Some (m2, s2)" "terminal_ok s2"
    "screen_num s2 = old" "buf_x (bf s2) = buf_x (bf s)" "buf_y (bf s2) = buf_y (bf s)"
    "line_count s2 = line_count s" "limit s2 = limit s" "bufs (bf s2) = bufs (bf s1)"
    "backspace_flag (bf s2) = backspace_flag (bf s1)"
    using terminal_switch_ok [OF s1(2) old(1,2) assms(2,3), of conv m1] old len by (auto simp: s1(3))
  have "bf s2 = bf s" using s1(8,9) s2 by simp
  then show ?thesis using s1 s2 by (auto simp: old_def)
qed

text \<open>
  The clock of the status bar counts ticks modulo 3600: from the text of \<open>v\<close> it goes to the
  text of \<open>v + 1\<close>, and \<open>embed_time\<close> puts the label and that text at the end of the status line,
  changes no other character of it and keeps its length.
\<close>

lemma embed_time_spec:
  assumes "v < 3600" and "sys_time s = time_text v" and "cstr m st bs" and "20 \<le> length bs"
  shows "\<exists>m'. embed_time st (m, s) = Some (st, m', s\<lparr>sys_time := time_text (Suc v mod 3600)\<rparr>)
    \<and> cstr m' st (take (length bs - 19) bs @ ascii ''Time Elapsed'' @ [bs ! (length bs - 7)]
        @ time_text (Suc v mod 3600) @ [bs ! (length bs - 1)])
    \<and> (\<forall>x. \<not> in_range st (length bs) x \<longrightarrow> m' x = m x)"
proof -
  define n where "n = length bs"
  define t where "t = time_text (Suc v mod 3600)"
  have n: "20 \<le> n" "n < 4294967296" using assms(4) cstr_length [OF assms(3)] by (simp_all add: n_def)
  have t: "length t = 5" "0 \<notin> set t" using time_text_nonzero [of "Suc v mod 3600"] by (simp_all add: t_def time_text_def)
  define m1 where "m1 = store_bytes m (st + of_nat (n - 6)) t"
  define bs1 where "bs1 = take (n - 6) bs @ t @ drop (n - 1) bs"
  have c1: "cstr m1 st bs1" "length bs1 = n"
    using cstr_splice [OF assms(3) t(2), of "n - 6"] t(1) n by (simp_all add: m1_def bs1_def n_def)
  define msg where "msg = ascii ''Time Elapsed''"
  have msg: "length msg = 12" "0 \<notin> set msg" by (simp_all add: msg_def ascii_def)
  define m2 where "m2 = store_bytes m1 (st + of_nat (n - 19)) msg"
  have c2: "cstr m2 st (take (n - 19) bs1 @ msg @ drop (n - 7) bs1)"
    using cstr_splice [OF c1(1) msg(2), of "n - 19"] msg(1) n c1(2) by (simp add: m2_def)
  have i1: "of_nat n - 2 = (of_nat (n - 7 + 5) :: u32)" and i2: "of_nat n - 8 = (of_nat (n - 20 + 12) :: u32)"
    using n by (simp_all add: of_nat_diff)
  have p: "n - 7 + 1 = n - 6" "n - 20 + 1 = n - 19" using n by simp_all
  have "embed_loop t (of_nat 7) st (of_nat (n - 7 + 5)) (int 5 - 1) m = Some (store_bytes m (st + of_nat (n - 7 + 1)) (take 5 t))"
    unfolding n_def by (rule embed_loop_store [OF assms(3) t(2)]) (use t(1) assms(4) in auto)
  then have "embed_loop t 7 st (of_nat n - 2) 4 m = Some m1"
    unfolding i1 [symmetric] p using t(1) by (simp add: m1_def)
  moreover have "embed_loop msg (of_nat 20) st (of_nat (n - 20 + 12)) (int 12 - 1) m1 =
      Some (store_bytes m1 (st + of_nat (n - 20 + 1)) (take 12 msg))"
    unfolding c1(2) [symmetric] by (rule embed_loop_store [OF c1(1) msg(2)]) (use msg(1) c1(2) n in auto)
  then have "embed_loop msg 20 st (of_nat n - 8) 11 m1 = Some m2"
    unfolding i2 [symmetric] p using msg(1) by (simp add: m2_def)
  ultimately have "embed_time st (m, s) = Some (st, m2, s\<lparr>sys_time := t\<rparr>)"
    using get_system_time_text [OF assms(1,2)] strlen_cstr [OF assms(3)] strlen_cstr [OF c1(1)] c1(2)
    by (simp add: embed_time_def t_def [symmetric] n_def msg_def [symmetric])
  moreover have "take (n - 19) bs1 = take (n - 19) bs" using n by (simp add: bs1_def n_def min_def)
  moreover have "drop (n - 7) bs1 = [bs ! (n - 7)] @ t @ [bs ! (n - 1)]"
  proof -
    have "drop (n - 1) bs = [bs ! (n - 1)]" using n Cons_nth_drop_Suc [of "n - 1" bs] by (simp add: n_def)
    moreover have "drop (n - 7) (take (n - 6) bs) = [bs ! (n - 7)]"
      using n Cons_nth_drop_Suc [of "n - 7" "take (n - 6) bs"] by (simp add: n_def Suc_diff_le)
    moreover have "n - 7 - (n - 6) = 0" by simp
    ultimately show ?thesis using n by (simp add: bs1_def n_def min_def)
  qed
  moreover have "m2 x = m x" if "\<not> in_range st n x" for x
  proof -
    have "unat (st + of_nat i - st) + k \<le> n" if "i + k \<le> n" for i k using that n(2) by (simp add: unat_of_nat32)
    then have sub: "\<not> in_range (st + of_nat i) k x" if "i + k \<le> n" for i k
      using \<open>\<not> in_range st n x\<close> that in_range_sub [of "st + of_nat i" st k n x] by blast
    have "\<not> in_range (st + of_nat (n - 6)) 5 x" "\<not> in_range (st + of_nat (n - 19)) 12 x"
      by (rule sub, use n(1) in simp)+
    then show ?thesis using t(1) msg(1) by (simp add: m2_def m1_def store_bytes_apply)
  qed
  ultimately show ?thesis using c2 unfolding n_def [symmetric] t_def [symmetric] msg_def [symmetric] by auto
qed

text \<open>
  When Enter ends the wait, \<open>terminal_read\<close> stores the characters that stand on the finished
  row between the column where the read began and the last column seen before Enter, followed by a
  NUL, and returns the count it was given, at most 128, whatever was typed; this is for a line of at
  most 80 columns that fits the count.
\<close>

lemma terminal_read_spec:
  assumes "terminal_ok s" and "terminal_ok s1"
    and "enter_wait kbd 0 (line_count s) (store_bytes m buf (replicate 20 0), s, snd (inb dev 0x60 (sti p))) = Some (e, m1, s1, p1)"
    and "line_count s1 < 80" and "1 \<le> buf_y (bf s1)" and "buf_x (bf s) \<le> e" "e < 80"
    and "typed = take (nat (e - buf_x (bf s))) (drop (nat (80 * (buf_y (bf s1) - 1) + buf_x (bf s)))
           (chars (nat (screen_num s)) (bf s1)))"
    and "0x0A \<notin> set (take (nat (e - buf_x (bf s))) (drop (Suc (nat (80 * (buf_y (bf s1) - 1) + buf_x (bf s))))
           (chars (nat (screen_num s)) (bf s1))))"
    and "0 \<notin> set typed" and "length typed < unat counter" and "unat counter < 2147483648"
  shows "terminal_read dev kbd f buf counter (m, s, p) = Some (if 128 <s counter then 128 else counter,
    store_bytes m1 buf (typed @ [0]),
    s1\<lparr>enter_press := 0, typed_length := typed_length s1 + int (length typed)\<rparr>, p1)"
proof -
  define b where "b = nat (screen_num s)"
  define x where "x = buf_x (bf s)"
  define i where "i = nat (80 * (buf_y (bf s1) - 1) + x)"
  define s2 where "s2 = s1\<lparr>enter_press := 0\<rparr>"
  have b: "pass_buff s = Some b" "b < 3"
    using assms(1) screen_at_ok [OF assms(1)] by (auto simp: pass_buff_def b_def terminal_ok_def)
  have all: "all_buffers_ok (bf s)" "all_buffers_ok (bf s1)" using assms(1,2) by (simp_all add: terminal_ok_def)
  note ok = all_buffers_okD [OF all(1) b(2)] all_buffers_okD [OF all(2) b(2)]
  have x: "0 \<le> x" "x < 80" "buf_y (bf s1) < 24" using ok by (simp_all add: x_def buffer_ok_def)
  have len: "length (chars b (bf s1)) = 2000" using ok(2) length_chars by (simp add: buffer_ok_def)
  have i: "int i = (buf_y (bf s1) - 1) * 80 + x" using assms(5) x by (simp add: i_def)
  have n: "length typed = nat (e - x)" and le: "i + length typed < 2000"
    using assms(5-8) x len i by (auto simp: i_def x_def b_def)
  have e: "(buf_y (bf s1) - 1) * 80 + e = int (i + length typed)" using i n assms(6) by (simp add: x_def)
  have "copy_line b x (int (i + length typed)) (int (i + 0)) 0 (take 0 typed @ replicate (unat counter - 0) 0)
      (s2\<lparr>typed_length := typed_length s1\<rparr>)
    = Some (typed @ replicate (unat counter - length typed) 0,
        s2\<lparr>typed_length := typed_length s1 + int (length typed - 0)\<rparr>)"
    by (rule copy_line_typed) (use ok(2) le assms(8,9,11) n in \<open>simp_all add: s2_def i_def x_def b_def\<close>)
  moreover have "s2\<lparr>typed_length := typed_length s1\<rparr> = s2" by (simp add: s2_def)
  ultimately have cl: "copy_line b x (int (i + length typed)) (int i) 0 (replicate (unat counter) 0) s2
    = Some (typed @ replicate (unat counter - length typed) 0, s2\<lparr>typed_length := typed_length s1 + int (length typed)\<rparr>)"
    by simp
  have tw: "takeWhile (\<lambda>c. c \<noteq> 0) (typed @ replicate (unat counter - length typed) (0 :: u8)) = typed"
    using assms(10,11) by (subst takeWhile_append2) (auto simp: neq0_conv [symmetric] dest: gr0_implies_Suc)
  have cl': "copy_line b x ((buf_y (bf s1) - 1) * 80 + e) ((buf_y (bf s1) - 1) * 80 + x) 0 (replicate (unat counter) 0) s2
    = Some (typed @ replicate (unat counter - length typed) 0, s2\<lparr>typed_length := typed_length s1 + int (length typed)\<rparr>)"
    unfolding e i [symmetric] by (rule cl)
  have "\<not> counter <s 0" using sint_unat32 [OF assms(12)] by (simp add: word_sless_alt)
  moreover obtain tp p0 where p0: "inb dev 0x60 (sti p) = (tp, p0)" by (cases "inb dev 0x60 (sti p)")
  moreover have "buf_y (bf s2) = buf_y (bf s1)" "line_count s2 = line_count s1" by (simp_all add: s2_def)
  ultimately have "terminal_read dev kbd f buf counter (m, s, p) = Some (if 128 <s counter then 128 else counter,
    (store_bytes m1 buf (typed @ [0]))(buf + of_nat (length typed) := 0),
    s2\<lparr>typed_length := typed_length s1 + int (length typed)\<rparr>, p1)"
    using assms(3,4,11) b(1) cl' tw
    unfolding terminal_read_def Let_def x_def [symmetric] case_prod_conv s2_def [symmetric]
    by (simp del: left_diff_distrib_numeral right_diff_distrib_numeral fun_upd_apply add: x_def [symmetric] s2_def [symmetric])
  moreover have "(store_bytes m1 buf (typed @ [0]))(buf + of_nat (length typed) := 0) = store_bytes m1 buf (typed @ [0])"
    by (simp add: store_bytes_snoc [symmetric])
  ultimately show ?thesis by (simp add: s2_def)
qed

end
