(* ===== verification/FileCalls.thy ===== *)
theory FileCalls
  imports Syscalls FilesysSpec TerminalSpec
begin

text \<open>
  The system calls on file descriptors. \<open>fds_ok\<close> says that a process has its eight entries and that
  an entry in use refers to a jump table. Every call keeps it, so no call follows a NULL jump table,
  and \<open>open\<close> gives the lowest free descriptor to the driver the file's type asks for; the drivers'
  part of this is the contract \<open>file_driver\<close>.
\<close>

section \<open>Memory and the rest of the state\<close>

lemma view_set_view [simp]: "view (set_view m k) = m"
  by (auto simp: view_def set_view_def split: option.splits)

lemma set_view_fields [simp]:
  "fsys (set_view m k) = fsys k" "pg (set_view m k) = pg k" "clock (set_view m k) = clock k"
  "tty (set_view m k) = tty k" "args (set_view m k) = args k" "arg_index (set_view m k) = arg_index k"
  "open_processes (set_view m k) = open_processes k" "process_id (set_view m k) = process_id k"
  "curr_process (set_view m k) = curr_process k" "retval (set_view m k) = retval k"
  "initial_shell (set_view m k) = initial_shell k" "task_queue (set_view m k) = task_queue k"
  "next_available (set_view m k) = next_available k" "next_task (set_view m k) = next_task k"
  "tss_esp0 (set_view m k) = tss_esp0 k" "tss_ss0 (set_view m k) = tss_ss0 k"
  "pcbs (set_view m k) = pcbs k" "k_bp (set_view m k) = k_bp k" "space_seen (set_view m k) = space_seen k"
  by (auto simp: set_view_def split: option.splits)

text \<open>A call changes only the pages of the current directory and the kernel's memory.\<close>

lemma set_view_other_page: "cr3 (pg k) \<noteq> Some d \<Longrightarrow> upage (set_view m k) d = upage k d"
  by (auto simp: set_view_def split: option.splits)

lemma update_pcb_fields [simp]:
  "curr_process (update_pcb a f k) = curr_process k" "view (update_pcb a f k) = view k"
  "fsys (update_pcb a f k) = fsys k" "pg (update_pcb a f k) = pg k" "open_processes (update_pcb a f k) = open_processes k"
  "initial_shell (update_pcb a f k) = initial_shell k" "process_id (update_pcb a f k) = process_id k"
  "tty (update_pcb a f k) = tty k" "clock (update_pcb a f k) = clock k" "upage (update_pcb a f k) = upage k"
  "pcbs (update_pcb a f k) = (pcbs k)(a := f (pcbs k a))" "kmem (update_pcb a f k) = kmem k"
  by (auto simp: update_pcb_def view_def fun_eq_iff split: option.splits)

lemma view_clock [simp]: "view (k\<lparr>clock := c\<rparr>) = view k"
  by (auto simp: view_def fun_eq_iff split: option.splits)

section \<open>The invariant\<close>

definition fds_ok :: "pcb_t \<Rightarrow> bool" where
  "fds_ok p \<longleftrightarrow> length (file_fds p) = 8 \<and> list_all file_wf (file_fds p)"

lemma fds_ok_set: "fds_ok p \<Longrightarrow> file_wf (f (file_fds p ! fd)) \<Longrightarrow> fds_ok (set_fd fd f p)"
  by (simp add: fds_ok_def set_fd_def list_all_update)

lemma fds_ok_nth: "fds_ok p \<Longrightarrow> fd < 8 \<Longrightarrow> file_wf (file_fds p ! fd)"
  by (simp add: fds_ok_def list_all_length)

definition fds_inv :: "kernel \<Rightarrow> bool" where
  "fds_inv k \<longleftrightarrow> fds_ok (pcbs k (curr_process k))"

text \<open>What no call on a descriptor changes, besides the blocks of the other processes.\<close>

definition proc_state :: "kernel \<Rightarrow> nat option \<times> u8 \<times> u32 \<times> u32 \<times> u32 \<times> u32 \<times> u32 list \<times> u32 \<times> u32 \<times> fs" where
  "proc_state k = (cr3 (pg k), open_processes k, process_id k, initial_shell k, tss_esp0 k, tss_ss0 k,
     task_queue k, next_available k, next_task k, fsys k)"

lemma proc_state_simps [simp]:
  "proc_state (set_view m k) = proc_state k" "proc_state (update_pcb a f k) = proc_state k"
  "proc_state (k\<lparr>clock := c\<rparr>) = proc_state k" "proc_state (k\<lparr>tty := s\<rparr>) = proc_state k"
  "proc_state (k\<lparr>tty := s, clock := c\<rparr>) = proc_state k"
  by (simp_all add: proc_state_def update_pcb_def)

text \<open>A driver's \<open>read\<close> or \<open>write\<close> only moves the file position and leaves the processes alone.\<close>

lemma read_fp_keeps:
  "read_fp E jt = Some drv \<Longrightarrow> drv k f buf n = Some (k', f', r) \<Longrightarrow>
   flags f' = flags f \<and> file_op f' = file_op f \<and> pcbs k' = pcbs k \<and> curr_process k' = curr_process k
   \<and> proc_state k' = proc_state k"
  by (cases jt) (auto simp: file_read_def dir_read_def rtc_read_def Let_def map_option_eq_Some
      split: option.split_asm prod.split_asm if_split_asm)

lemma write_fp_keeps:
  "write_fp E jt = Some drv \<Longrightarrow> drv k f buf n = Some (k', f', r) \<Longrightarrow>
   flags f' = flags f \<and> file_op f' = file_op f \<and> pcbs k' = pcbs k \<and> curr_process k' = curr_process k
   \<and> proc_state k' = proc_state k"
  by (cases jt) (auto simp: file_write_def dir_write_def rtc_write_def Let_def map_option_eq_Some
      split: option.split_asm prod.split_asm if_split_asm)

lemma file_wf_same: "file_wf f \<Longrightarrow> flags f' = flags f \<Longrightarrow> file_op f' = file_op f \<Longrightarrow> file_wf f'"
  by (simp add: file_wf_def)

lemma fd_range: "\<not> fd <s 0 \<Longrightarrow> \<not> 7 <s fd \<Longrightarrow> unat (fd :: u32) < 8 \<and> sint fd = int (unat fd)"
proof -
  assume "\<not> fd <s 0" "\<not> 7 <s fd"
  then have "0 \<le> sint fd" "sint fd \<le> 7" by (simp_all add: word_sless_alt)
  then have n: "nat (sint fd) < 8" "int (nat (sint fd)) = sint fd" by simp_all
  define m where "m = nat (sint fd)"
  have "(of_int (sint fd) :: u32) = of_int (int m)" by (simp only: m_def n(2))
  then have "fd = of_nat m" by simp
  moreover have "m < 8" using n(1) by (simp add: m_def)
  ultimately have "unat fd = m" using unat_of_nat32 [of m] by simp
  then show ?thesis using n by (simp add: m_def)
qed

lemmas fd_bounds = fd_range [THEN conjunct1]

text \<open>No call follows a NULL jump table: a call fails to return only where its driver does.\<close>

lemma call_driver_None:
  assumes "fds_inv k" and "call_driver fp fd buf n k = None"
  shows "\<exists>drv. fp (file_op (file_fds (pcbs k (curr_process k)) ! unat fd)) = Some drv
    \<and> drv k (file_fds (pcbs k (curr_process k)) ! unat fd) buf n = None"
proof -
  define f where "f = file_fds (pcbs k (curr_process k)) ! unat fd"
  have fd: "unat fd < 8" using assms(2) by (intro fd_bounds) (auto simp: call_driver_def split: if_split_asm)
  have "file_wf f" using assms(1) fd fds_ok_nth unfolding fds_inv_def f_def by blast
  then show ?thesis
    using assms(2) unfolding call_driver_def Let_def f_def [symmetric] file_wf_def
    by (auto split: if_split_asm option.split_asm)
qed

section \<open>Opening and closing\<close>

lemma word_less_two: "(x :: u32) < 2 \<Longrightarrow> x = 0 \<or> x = 1"
  by (cases "unat x = 0") (auto simp: word_less_nat_alt word_unat_eq_iff)


text \<open>The number of the lowest entry not in use.\<close>

definition lowest_free :: "pcb_t \<Rightarrow> nat" where
  "lowest_free p = length (takeWhile (\<lambda>f. flags f = 1) (file_fds p))"

lemma free_fd_lowest:
  assumes "fds_ok p" and "fd \<le> lowest_free p" and "lowest_free p < 8"
  shows "free_fd E p fd = Some (lowest_free p)"
  using assms(2)
proof (induction "lowest_free p - fd" arbitrary: fd)
  case 0
  then have fd: "fd = lowest_free p" by simp
  have "length (file_fds p) = 8" using assms(1) by (simp add: fds_ok_def)
  then have "flags (file_fds p ! lowest_free p) \<noteq> 1"
    using nth_length_takeWhile [of "\<lambda>f. flags f = 1" "file_fds p"] assms(3) by (simp add: lowest_free_def)
  then show ?case using assms(3) by (subst free_fd.simps) (simp add: flags_at_def fd)
next
  case (Suc d)
  then have lt: "fd < lowest_free p" by simp
  then have "flags (file_fds p ! fd) = 1"
    using takeWhile_nth [of fd "\<lambda>f. flags f = 1" "file_fds p"]
      nth_mem [of fd "takeWhile (\<lambda>f. flags f = 1) (file_fds p)"] set_takeWhileD [of "file_fds p ! fd" "\<lambda>f. flags f = 1" "file_fds p"]
    by (simp add: lowest_free_def)
  moreover have "free_fd E p (Suc fd) = Some (lowest_free p)" using Suc lt by (intro Suc.hyps(1)) simp_all
  ultimately show ?case using lt assms(3) by (subst free_fd.simps) (simp add: flags_at_def)
qed

text \<open>With all eight in use the search looks past the array, at the process number and the parent.\<close>

lemma free_fd_full:
  assumes "fds_ok p" and "lowest_free p = 8" and "fd \<le> 8" and "parent_process p \<noteq> 1"
  shows "\<exists>n. free_fd E p fd = Some n \<and> 8 \<le> n"
  using assms(3)
proof (induction "8 - fd" arbitrary: fd)
  case 0
  then have "fd = 8" by simp
  moreover have "free_fd E p 9 = Some 9"
    using assms(4) by (subst free_fd.simps) (simp add: flags_at_def)
  ultimately show ?case by (subst free_fd.simps) (simp add: flags_at_def)
next
  case (Suc d)
  then have lt: "fd < 8" by simp
  have "length (file_fds p) = 8" using assms(1) by (simp add: fds_ok_def)
  then have "takeWhile (\<lambda>f. flags f = 1) (file_fds p) = file_fds p"
    using assms(2) takeWhile_eq_take [of "\<lambda>f. flags f = 1" "file_fds p"] by (simp add: lowest_free_def)
  then have "flags (file_fds p ! fd) = 1"
    using lt \<open>length (file_fds p) = 8\<close> by (simp add: takeWhile_eq_all_conv)
  moreover have "\<exists>n. free_fd E p (Suc fd) = Some n \<and> 8 \<le> n" using Suc lt by (intro Suc.hyps(1)) simp_all
  ultimately show ?case using lt by (subst free_fd.simps) (simp add: flags_at_def)
qed

lemma lowest_free_le: "fds_ok p \<Longrightarrow> lowest_free p \<le> 8"
  using length_takeWhile_le [of "\<lambda>f. flags f = 1" "file_fds p"] by (simp add: lowest_free_def fds_ok_def)

text \<open>What \<open>open\<close> does to the chosen entry, by the type of the file.\<close>

definition opened_as :: "u32 \<Rightarrow> fs \<Rightarrow> dentry_t \<Rightarrow> file_t \<Rightarrow> bool" where
  "opened_as ty fs d f \<longleftrightarrow> flags f = 1 \<and> file_pos f = 0 \<and>
     (if ty = 0 then file_op f = RtcJt else if ty = 1 then file_op f = DirectoryJt
      else file_op f = FileJt \<and> inode_ptr f = inode_addr fs (inode_num d))"

lemma opened_as_wf: "opened_as ty fs d f \<Longrightarrow> file_wf f"
  by (auto simp: opened_as_def file_wf_def split: if_splits)

lemma file_open_result:
  assumes "cstr m fname bs" and "fname \<noteq> NULL" and "dir_index m fs (take 31 bs) = Some j"
  shows "file_open m fs stack f fname = Some
    (let d = copy_dentry m (dir_entry fs j)
     in if inode_num d \<ge> num_inodes m fs then (f, RET_FAILURE)
        else (f\<lparr>file_op := FileJt, inode_ptr := inode_addr fs (inode_num d), file_pos := 0, flags := 1\<rparr>, RET_SUCCESS))"
proof -
  have k: "key_name m fname = take 31 bs" using cprefix_cstr [OF assms(1)] by (simp add: key_name_def)
  show ?thesis
    using read_dentry_by_name_find [OF assms(1,2), of fs stack, unfolded k] assms(3)
    by (simp add: file_open_def Let_def)
qed

lemma sys_open_free:
  assumes "fds_inv k" and "cstr (view k) filename bs" and "filename \<noteq> NULL"
    and "lowest_free (pcbs k (curr_process k)) < 8"
  shows "sys_open E filename k =
    (case dir_index (view k) (fsys k) (take 31 bs) of
       None \<Rightarrow> Some (k, - 1)
     | Some j \<Rightarrow>
         (let fd = lowest_free (pcbs k (curr_process k));
              f = file_fds (pcbs k (curr_process k)) ! fd;
              d = copy_dentry (view k) (dir_entry (fsys k) j);
              finish = (\<lambda>k f. Some (update_pcb (curr_process k) (set_fd fd (\<lambda>_. f)) k, of_nat fd))
          in if file_type d = 0
             then finish (k\<lparr>clock := init_rtc (dev E) (clock k)\<rparr>) (f\<lparr>file_op := RtcJt, inode_ptr := NULL, file_pos := 0, flags := 1\<rparr>)
             else if file_type d = 1 then finish k (f\<lparr>file_op := DirectoryJt, inode_ptr := NULL, file_pos := 0, flags := 1\<rparr>)
             else if file_type d = 2
             then (if inode_num d \<ge> num_inodes (view k) (fsys k)
                   then Some (update_pcb (curr_process k) (set_fd fd (\<lambda>_. f)) k, - 1)
                   else finish k (f\<lparr>file_op := FileJt, inode_ptr := inode_addr (fsys k) (inode_num d), file_pos := 0, flags := 1\<rparr>))
             else Some (k, - 1)))"
proof -
  have k: "key_name (view k) filename = take 31 bs" using cprefix_cstr [OF assms(2)] by (simp add: key_name_def)
  have free: "free_fd E (pcbs k (curr_process k)) 0 = Some (lowest_free (pcbs k (curr_process k)))"
    using free_fd_lowest [of "pcbs k (curr_process k)" 0] assms(1,4) by (simp add: fds_inv_def)
  note rd = read_dentry_by_name_find [OF assms(2,3), of "fsys k" "stack_dentry E", unfolded k]
  show ?thesis
  proof (cases "dir_index (view k) (fsys k) (take 31 bs)")
    case None
    then show ?thesis using free assms(4) rd by (simp add: sys_open_def)
  next
    case (Some j)
    then show ?thesis
      using free assms(4) rd file_open_result [OF assms(2,3) Some]
      by (simp add: sys_open_def Let_def rtc_open_def dir_open_def)
  qed
qed

lemma opened_result:
  assumes "sys_open E filename k = Some (update_pcb (curr_process k) (set_fd fd (\<lambda>_. f)) k0, v)"
    and "opened_as ty fs d f" and "pcbs k0 = pcbs k" and "curr_process k0 = curr_process k" and "view k0 = view k"
  shows "\<exists>k' f. sys_open E filename k = Some (k', v) \<and> opened_as ty fs d f
    \<and> pcbs k' = (pcbs k)(curr_process k := pcbs k (curr_process k)
         \<lparr>file_fds := (file_fds (pcbs k (curr_process k)))[fd := f]\<rparr>)
    \<and> curr_process k' = curr_process k \<and> view k' = view k"
  using assms by (auto simp: set_fd_def)

lemma set_fd_self: "set_fd fd (\<lambda>_. file_fds p ! fd) p = p"
  by (simp add: set_fd_def)

section \<open>The calls as steps\<close>

text \<open>
  Descriptors 0 and 1 are the keyboard and the screen: \<open>close\<close> refuses them and \<open>open\<close> never
  gives them out.
\<close>

definition std_ok :: "pcb_t \<Rightarrow> bool" where
  "std_ok p \<longleftrightarrow> fds_ok p \<and> file_op (file_fds p ! 0) = StdinJt \<and> flags (file_fds p ! 0) = 1
     \<and> file_op (file_fds p ! 1) = StdoutJt \<and> flags (file_fds p ! 1) = 1"

text \<open>
  The kernel does not check the buffer of a \<open>read\<close>. Its process control blocks and tables, which are
  kept apart from the byte memory here, are safe when the buffer lies in the page of the program; the
  driver of the keyboard clears 20 bytes whatever the count, and copies the line through an array of
  that count on the kernel stack, which has 8 KB.
\<close>

definition program_range :: "u32 \<Rightarrow> nat \<Rightarrow> bool" where
  "program_range a n \<longleftrightarrow> 0x08000000 \<le> unat a \<and> unat a + n \<le> 0x08400000"

definition read_allowed :: "u32 \<Rightarrow> u32 \<Rightarrow> u32 \<Rightarrow> bool" where
  "read_allowed fd buf nbytes \<longleftrightarrow> fd <s 0 \<or> 7 <s fd \<or> buf = NULL \<or> nbytes <s 0
     \<or> program_range buf (max (unat nbytes) 20) \<and> (fd = 0 \<longrightarrow> unat nbytes \<le> 1024)"

inductive fd_step :: "env \<Rightarrow> kernel \<Rightarrow> kernel \<Rightarrow> bool" for E where
  open_step: "sys_open E filename k = Some (k', r) \<Longrightarrow> fd_step E k k'"
| read_step: "sys_read E fd buf nbytes k = Some (k', r) \<Longrightarrow> read_allowed fd buf nbytes \<Longrightarrow> fd_step E k k'"
| write_step: "sys_write E fd buf nbytes k = Some (k', r) \<Longrightarrow> fd_step E k k'"
| close_step: "sys_close fd k = (k', r) \<Longrightarrow> fd_step E k k'"

inductive_cases fd_stepE: "fd_step E k k'"

text \<open>What a step of any kind does to the table: nothing, or it replaces one entry of the caller.\<close>

definition fd_update :: "kernel \<Rightarrow> kernel \<Rightarrow> bool" where
  "fd_update k k' \<longleftrightarrow> curr_process k' = curr_process k \<and> proc_state k' = proc_state k \<and> (pcbs k' = pcbs k \<or>
     (\<exists>fd f. fd < 8 \<and> file_wf f \<and>
        (file_op f = file_op (file_fds (pcbs k (curr_process k)) ! fd)
           \<and> flags f = flags (file_fds (pcbs k (curr_process k)) ! fd)
         \<or> 2 \<le> fd \<or> flags (file_fds (pcbs k (curr_process k)) ! fd) \<noteq> 1)
        \<and> pcbs k' = (pcbs k)(curr_process k := set_fd fd (\<lambda>_. f) (pcbs k (curr_process k)))))"

lemma fd_updateI:
  assumes "curr_process k' = curr_process k" and "proc_state k' = proc_state k" and "fd < 8" and "file_wf f"
    and "file_op f = file_op (file_fds (pcbs k (curr_process k)) ! fd)
           \<and> flags f = flags (file_fds (pcbs k (curr_process k)) ! fd)
         \<or> 2 \<le> fd \<or> flags (file_fds (pcbs k (curr_process k)) ! fd) \<noteq> 1"
    and "pcbs k' = (pcbs k)(curr_process k := set_fd fd (\<lambda>_. f) (pcbs k (curr_process k)))"
  shows "fd_update k k'"
  using assms unfolding fd_update_def by blast

lemma fd_update_std:
  assumes "std_ok (pcbs k (curr_process k))" and "fd_update k k'"
  shows "std_ok (pcbs k' (curr_process k')) \<and> curr_process k' = curr_process k \<and>
    (\<forall>a. a \<noteq> curr_process k \<longrightarrow> pcbs k' a = pcbs k a)"
proof (cases "pcbs k' = pcbs k")
  case True
  then show ?thesis using assms by (simp add: fd_update_def)
next
  case False
  define p where "p = pcbs k (curr_process k)"
  obtain fd f where f: "fd < 8" "file_wf f" "file_op f = file_op (file_fds p ! fd) \<and> flags f = flags (file_fds p ! fd)
      \<or> 2 \<le> fd \<or> flags (file_fds p ! fd) \<noteq> 1"
    "pcbs k' = (pcbs k)(curr_process k := set_fd fd (\<lambda>_. f) p)" "curr_process k' = curr_process k"
    using assms(2) False unfolding fd_update_def p_def by blast
  have p: "std_ok p" using assms(1) by (simp add: p_def)
  then have "fds_ok (set_fd fd (\<lambda>_. f) p)" using f(2) by (simp add: std_ok_def fds_ok_set)
  moreover have "length (file_fds p) = 8" using p by (simp add: std_ok_def fds_ok_def)
  ultimately have "std_ok (set_fd fd (\<lambda>_. f) p)"
    using p f(1,3) by (auto simp: std_ok_def set_fd_def nth_list_update)
  then show ?thesis using f(4,5) by simp
qed

lemma call_driver_update:
  assumes "fds_inv k" and "call_driver fp fd buf n k = Some (k', r)"
    and "\<And>jt drv f k1 f1 r1. fp jt = Some drv \<Longrightarrow> drv k f buf n = Some (k1, f1, r1) \<Longrightarrow>
      flags f1 = flags f \<and> file_op f1 = file_op f \<and> pcbs k1 = pcbs k \<and> curr_process k1 = curr_process k
      \<and> proc_state k1 = proc_state k"
  shows "fd_update k k'"
proof (cases "k' = k")
  case True
  then show ?thesis by (simp add: fd_update_def)
next
  case False
  define f where "f = file_fds (pcbs k (curr_process k)) ! unat fd"
  have fd: "unat fd < 8" using False assms(2) by (intro fd_bounds) (auto simp: call_driver_def split: if_split_asm)
  obtain drv k1 f1 where d: "fp (file_op f) = Some drv" "drv k f buf n = Some (k1, f1, r)"
    "k' = update_pcb (curr_process k) (set_fd (unat fd) (\<lambda>_. f1)) k1"
    using assms(2) False unfolding call_driver_def Let_def f_def [symmetric]
    by (auto split: if_split_asm option.split_asm)
  have "file_wf f" using assms(1) fd fds_ok_nth unfolding fds_inv_def f_def by blast
  then have "file_wf f1" using assms(3) [OF d(1,2)] file_wf_same by blast
  then show ?thesis
    using assms(3) [OF d(1,2)] d(3) fd by (intro fd_updateI [of _ _ "unat fd" f1]) (simp_all add: f_def)
qed

lemma free_fd_not_used: "free_fd E p fd = Some n \<Longrightarrow> n < 8 \<Longrightarrow> flags (file_fds p ! n) \<noteq> 1"
proof (induction E p fd rule: free_fd.induct)
  case (1 E p fd)
  have "(case flags_at E p fd of None \<Rightarrow> None | Some f \<Rightarrow> if f = 1 then free_fd E p (Suc fd) else Some fd) = Some n"
    using 1(2) by (simp only: free_fd.simps [of E p fd])
  then show ?case using 1(1,3) by (auto simp: flags_at_def split: if_split_asm option.split_asm)
qed

lemma sys_open_update:
  assumes "fds_inv k" and "sys_open E filename k = Some (k', r)"
  shows "fd_update k k'"
proof (cases "k' = k")
  case True
  then show ?thesis by (simp add: fd_update_def)
next
  case False
  define p where "p = pcbs k (curr_process k)"
  obtain fd where fd: "free_fd E p 0 = Some fd" "fd < 8"
    using assms(2) False unfolding sys_open_def Let_def p_def by (auto split: option.split_asm if_split_asm)
  have wf: "file_wf (file_fds p ! fd)" using assms(1) fd(2) fds_ok_nth unfolding fds_inv_def p_def by blast
  have opened: "file_wf f" if "file_open m fs st (file_fds p ! fd) filename = Some (f, v)" for m fs st f v
  proof (cases "v = 0")
    case True
    then show ?thesis using that regular.opened_wf by blast
  next
    case False
    then show ?thesis using that wf by (auto simp: file_open_def Let_def split: option.split_asm if_split_asm)
  qed
  obtain f k0 where f: "k' = update_pcb (curr_process k) (set_fd fd (\<lambda>_. f)) k0" "pcbs k0 = pcbs k"
      "curr_process k0 = curr_process k" "proc_state k0 = proc_state k" "file_wf f"
    using assms(2) False fd opened wf unfolding sys_open_def Let_def p_def [symmetric]
    by (auto simp: rtc_open_def dir_open_def file_wf_def split: option.split_asm if_split_asm)
  then show ?thesis
    using fd(2) free_fd_not_used [OF fd] by (intro fd_updateI [of _ _ fd f]) (simp_all add: p_def)
qed

lemma sys_close_update: "fds_inv k \<Longrightarrow> fd_update k (fst (sys_close fd k))"
proof (cases "fst (sys_close fd k) = k")
  case False
  define p where "p = pcbs k (curr_process k)"
  assume "fds_inv k"
  have fd: "\<not> fd <s 2" "\<not> 7 <s fd" "fst (sys_close fd k) = update_pcb (curr_process k) (set_fd (unat fd) (\<lambda>f. f\<lparr>flags := 0\<rparr>)) k"
    using False by (auto simp: sys_close_def Let_def split: if_split_asm)
  have "\<not> fd <s 0" using fd(1) by (simp add: word_sless_alt)
  then have n: "unat fd < 8" "sint fd = int (unat fd)" using fd_range fd(2) by blast+
  have "sint (2 :: u32) \<le> sint fd" using fd(1) by (simp only: word_sless_alt not_less)
  moreover have "sint (2 :: u32) = 2" by simp
  ultimately have "2 \<le> unat fd" using n(2) by linarith
  then show ?thesis
    using n(1) unfolding fd(3)
    by (intro fd_updateI [of _ _ "unat fd" "(file_fds p ! unat fd)\<lparr>flags := 0\<rparr>"])
      (simp_all add: p_def set_fd_def file_wf_def)
qed (simp add: fd_update_def)

lemma fd_step_update: "fds_inv k \<Longrightarrow> fd_step E k k' \<Longrightarrow> fd_update k k'"
  unfolding fd_step.simps sys_read_def sys_write_def
  by (auto intro: sys_open_update call_driver_update [OF _ _ read_fp_keeps] call_driver_update [OF _ _ write_fp_keeps])
    (metis sys_close_update fst_conv)

lemma update_pcb_same: "update_pcb a (set_fd fd (\<lambda>_. file_fds (pcbs k a) ! fd)) k = k"
  by (simp add: update_pcb_def set_fd_self)

section \<open>A sample kernel\<close>

definition sample_env :: env where
  "sample_env = \<lparr>dev = (\<lambda>_ _. 0), rtc_irq = (\<lambda>_. True), kbd = sample_kbd, pt_base = 0x10000, str1 = 0x20000,
     str2 = 0x20020, minus1 = 0x20040, elf_check = 0x20050, buf_temp = 0x20054, conv_buf = 0x20060,
     stack_dentry = stale_dentry, pcb_padding = 0, esp = 0x7FE000, ebp = 0x7FE020\<rparr>"

definition shell_pcb :: "u32 \<Rightarrow> pcb_t" where
  "shell_pcb a = \<lparr>file_fds = closed_file\<lparr>file_op := StdinJt, flags := 1\<rparr> #
       closed_file\<lparr>file_op := StdoutJt, flags := 1\<rparr> # replicate 6 closed_file,
     pcb_k_bp = 0x7FFFFC, k_sp = 0x7FFFFC, PD_ptr = Some 0, pcb_process_id = 0, esp0 = 0, ss0 = 0,
     child_flag = 0, parent_process = a, child = - 1\<rparr>"

definition sample_kernel :: kernel where
  "sample_kernel = \<lparr>kmem = sample_mem, upage = (\<lambda>_ _. 0), fsys = sample_fs, pg = sample_paging,
     clock = \<lparr>ports = \<lparr>trace = [], intr_on = True\<rparr>, interrupt_number = 0\<rparr>, tty = sample_terminal, args = 0, space_seen = 0,
     arg_index = 0, open_processes = 0x80, k_bp = 0x7FFFFC, process_id = 0, curr_process = 0x7FE000,
     retval = 0, initial_shell = 0, task_queue = [0, 0, - 1, - 1, - 1, - 1, - 1], next_available = 2,
     next_task = 0, tss_esp0 = 0x7FFFFC, tss_ss0 = 0x18, pcbs = shell_pcb\<rparr>"

lemma sample_kernel_view: "view sample_kernel = sample_mem"
  by (auto simp: view_def sample_kernel_def user_page_def sample_mem_def fun_eq_iff split: option.splits)

lemma sample_kernel_fields:
  "fsys sample_kernel = sample_fs" "curr_process sample_kernel = 0x7FE000" "pcbs sample_kernel = shell_pcb"
  by (simp_all add: sample_kernel_def)

lemma sample_kernel_std: "std_ok (pcbs sample_kernel (curr_process sample_kernel))"
  by (simp add: std_ok_def fds_ok_def sample_kernel_def shell_pcb_def file_wf_def closed_file_def list_all_iff)

section \<open>Properties\<close>

text \<open>
  C9. \<open>open\<close> of an existing file returns the lowest free descriptor and marks it as used, at
  position 0, with the jump table its type asks for and, for a regular file, its inode; no other
  descriptor and no other process changes. It fails without changing anything when the name is not
  in the directory, and when all eight descriptors are in use.
\<close>

theorem open_spec:
  assumes "fds_inv k" and "cstr (view k) filename bs" and "filename \<noteq> NULL"
    and "parent_process (pcbs k (curr_process k)) \<noteq> 1"
  defines "p \<equiv> pcbs k (curr_process k)"
  shows "(lowest_free p = 8 \<longrightarrow> sys_open E filename k = Some (k, - 1))
    \<and> (dir_index (view k) (fsys k) (take 31 bs) = None \<longrightarrow> sys_open E filename k = Some (k, - 1))
    \<and> (\<forall>j d. lowest_free p < 8 \<longrightarrow> dir_index (view k) (fsys k) (take 31 bs) = Some j \<longrightarrow>
          d = copy_dentry (view k) (dir_entry (fsys k) j) \<longrightarrow>
          file_type d < 2 \<or> file_type d = 2 \<and> inode_num d < num_inodes (view k) (fsys k) \<longrightarrow>
          (\<exists>k' f. sys_open E filename k = Some (k', of_nat (lowest_free p)) \<and> opened_as (file_type d) (fsys k) d f
             \<and> pcbs k' = (pcbs k)(curr_process k := p\<lparr>file_fds := (file_fds p)[lowest_free p := f]\<rparr>)
             \<and> curr_process k' = curr_process k \<and> view k' = view k))"
proof (intro conjI allI impI)
  have ok: "fds_ok p" using assms(1) by (simp add: fds_inv_def p_def)
  show full: "sys_open E filename k = Some (k, - 1)" if "lowest_free p = 8"
    using free_fd_full [OF ok that, of 0 E] assms(4) by (auto simp: sys_open_def p_def)
  show "sys_open E filename k = Some (k, - 1)" if "dir_index (view k) (fsys k) (take 31 bs) = None"
  proof (cases "lowest_free p = 8")
    case False
    then have "lowest_free p < 8" using lowest_free_le [OF ok] by simp
    then show ?thesis using sys_open_free [OF assms(1-3)] that by (simp add: p_def)
  qed (rule full)
  fix j d
  assume fd: "lowest_free p < 8" and j: "dir_index (view k) (fsys k) (take 31 bs) = Some j"
    and d: "d = copy_dentry (view k) (dir_entry (fsys k) j)"
    and ty: "file_type d < 2 \<or> file_type d = 2 \<and> inode_num d < num_inodes (view k) (fsys k)"
  note run = sys_open_free [OF assms(1-3), of E, folded p_def, OF fd, unfolded j option.case Let_def, folded d]
  from ty consider "file_type d = 0" | "file_type d = 1"
    | "file_type d = 2" "\<not> num_inodes (view k) (fsys k) \<le> inode_num d"
    using word_less_two [of "file_type d"] by (auto simp: not_le)
  then show "\<exists>k' f. sys_open E filename k = Some (k', of_nat (lowest_free p)) \<and> opened_as (file_type d) (fsys k) d f
             \<and> pcbs k' = (pcbs k)(curr_process k := p\<lparr>file_fds := (file_fds p)[lowest_free p := f]\<rparr>)
             \<and> curr_process k' = curr_process k \<and> view k' = view k"
  proof cases
    case 1
    have r: "sys_open E filename k = Some (update_pcb (curr_process k) (set_fd (lowest_free p)
        (\<lambda>_. (file_fds p ! lowest_free p)\<lparr>file_op := RtcJt, inode_ptr := NULL, file_pos := 0, flags := 1\<rparr>))
        (k\<lparr>clock := init_rtc (dev E) (clock k)\<rparr>), of_nat (lowest_free p))"
      using run 1 by (simp add: p_def)
    show ?thesis unfolding p_def by (rule opened_result [OF r [unfolded p_def]]) (use 1 in \<open>simp_all add: opened_as_def\<close>)
  next
    case 2
    have r: "sys_open E filename k = Some (update_pcb (curr_process k) (set_fd (lowest_free p)
        (\<lambda>_. (file_fds p ! lowest_free p)\<lparr>file_op := DirectoryJt, inode_ptr := NULL, file_pos := 0, flags := 1\<rparr>))
        k, of_nat (lowest_free p))"
      using run 2 by (simp add: p_def)
    show ?thesis unfolding p_def by (rule opened_result [OF r [unfolded p_def]]) (use 2 in \<open>simp_all add: opened_as_def\<close>)
  next
    case 3
    have r: "sys_open E filename k = Some (update_pcb (curr_process k) (set_fd (lowest_free p)
        (\<lambda>_. (file_fds p ! lowest_free p)\<lparr>file_op := FileJt, inode_ptr := inode_addr (fsys k) (inode_num d), file_pos := 0, flags := 1\<rparr>))
        k, of_nat (lowest_free p))"
      using run 3 by (simp add: p_def)
    show ?thesis unfolding p_def by (rule opened_result [OF r [unfolded p_def]]) (use 3 in \<open>simp_all add: opened_as_def\<close>)
  qed
qed

theorem open_spec_witness:
  "\<exists>k'. sys_open sample_env 0x100 sample_kernel = Some (k', 2)
     \<and> file_op (file_fds (pcbs k' 0x7FE000) ! 2) = FileJt"
proof -
  have free: "lowest_free (pcbs sample_kernel (curr_process sample_kernel)) = 2"
    by (simp add: lowest_free_def sample_kernel_fields shell_pcb_def closed_file_def)
  have idx: "dir_index (view sample_kernel) (fsys sample_kernel) (take 31 [0x61]) = Some 0"
    using sample_dir_index by (simp add: sample_kernel_view sample_kernel_fields sample_keys)
  obtain k' f where k': "sys_open sample_env 0x100 sample_kernel = Some (k', of_nat 2)"
    "opened_as 2 sample_fs (copy_dentry sample_mem (dir_entry sample_fs 0)) f"
    "pcbs k' = (pcbs sample_kernel)(0x7FE000 := (shell_pcb 0x7FE000)\<lparr>file_fds := (file_fds (shell_pcb 0x7FE000))[2 := f]\<rparr>)"
    using open_spec [of sample_kernel "0x100" "[0x61]" sample_env] sample_kernel_std sample_name idx free
    by (auto simp: fds_inv_def std_ok_def sample_kernel_view sample_kernel_fields shell_pcb_def sample_dentry sample_header)
  then show ?thesis by (auto simp: opened_as_def shell_pcb_def)
qed

text \<open>
  C6. Whatever sequence of \<open>open\<close>, \<open>read\<close>, \<open>write\<close> and \<open>close\<close> calls that return a process makes, its
  table keeps eight entries, those in use refer to a jump table, and descriptors 0 and 1 stay the
  keyboard and the screen; the process control blocks of the others are not touched. Descriptors, names and
  written buffers are arbitrary; the buffer of a \<open>read\<close> lies in the program's page, as the kernel does not check it,
  and one from the keyboard asks for at most 1024 bytes, as it takes that much of the kernel stack; the
  kernel stack is assumed not to overflow. Hence every \<open>read\<close> or \<open>write\<close> passes the NULL tests or
  is refused: one without a result got as far as the driver its entry names, and it was the driver that did not return.
\<close>

theorem fd_calls_safe:
  assumes "std_ok (pcbs k (curr_process k))" and "(fd_step E)\<^sup>*\<^sup>* k k'"
  shows "std_ok (pcbs k' (curr_process k')) \<and> curr_process k' = curr_process k
    \<and> (\<forall>a. a \<noteq> curr_process k \<longrightarrow> pcbs k' a = pcbs k a)
    \<and> (\<forall>fd buf n. sys_read E fd buf n k' = None \<longrightarrow>
         (let f = file_fds (pcbs k' (curr_process k')) ! unat fd
          in \<exists>drv. read_fp E (file_op f) = Some drv \<and> drv k' f buf n = None))
    \<and> (\<forall>fd buf n. sys_write E fd buf n k' = None \<longrightarrow>
         (let f = file_fds (pcbs k' (curr_process k')) ! unat fd
          in \<exists>drv. write_fp E (file_op f) = Some drv \<and> drv k' f buf n = None))"
proof -
  have inv: "std_ok (pcbs k' (curr_process k')) \<and> curr_process k' = curr_process k \<and>
      (\<forall>a. a \<noteq> curr_process k \<longrightarrow> pcbs k' a = pcbs k a)"
    using assms(2)
  proof (induction rule: rtranclp_induct)
    case base
    then show ?case using assms(1) by simp
  next
    case (step k1 k2)
    then have "fd_update k1 k2" by (intro fd_step_update) (auto simp: fds_inv_def std_ok_def)
    then show ?case using fd_update_std step.IH by metis
  qed
  then have "fds_inv k'" unfolding fds_inv_def std_ok_def by blast
  then show ?thesis
    using inv call_driver_None unfolding sys_read_def sys_write_def Let_def by blast
qed

theorem fd_calls_safe_witness:
  "std_ok (pcbs (fst (sys_close 5 sample_kernel)) (curr_process (fst (sys_close 5 sample_kernel))))"
  using fd_calls_safe [OF sample_kernel_std, of sample_env "fst (sys_close 5 sample_kernel)"]
  by (metis close_step r_into_rtranclp prod.collapse)

text \<open>
  C23. The errors of the calls on descriptors. A descriptor below 0 or above 7, a NULL buffer, a
  negative count or an entry not in use makes \<open>read\<close> and \<open>write\<close> return -1 and change nothing;
  so do reading the screen, writing the keyboard and writing a file or a directory, the file system
  being read only. \<open>close\<close> refuses 0 and 1 as well.
\<close>

theorem fd_errors:
  assumes "std_ok (pcbs k (curr_process k))"
  defines "fds \<equiv> file_fds (pcbs k (curr_process k))"
  shows "(fd <s 0 \<or> 7 <s fd \<or> buf = NULL \<or> n <s 0 \<or> flags (fds ! unat fd) = 0 \<longrightarrow>
      sys_read E fd buf n k = Some (k, - 1) \<and> sys_write E fd buf n k = Some (k, - 1))
    \<and> sys_read E 1 buf n k = Some (k, - 1) \<and> sys_write E 0 buf n k = Some (k, - 1)
    \<and> (file_op (fds ! unat fd) = FileJt \<or> file_op (fds ! unat fd) = DirectoryJt \<longrightarrow> sys_write E fd buf n k = Some (k, - 1))
    \<and> (fd <s 2 \<or> 7 <s fd \<or> flags (fds ! unat fd) = 0 \<longrightarrow> sys_close fd k = (k, - 1))"
  using assms(1) unfolding sys_read_def sys_write_def call_driver_def sys_close_def Let_def fds_def
  by (auto simp: std_ok_def update_pcb_same set_fd_self file_write_def dir_write_def)

theorem fd_errors_witness:
  "sys_read sample_env 9 0x1000 4 sample_kernel = Some (sample_kernel, - 1) \<and>
   sys_write sample_env 0 0x1000 4 sample_kernel = Some (sample_kernel, - 1) \<and>
   sys_close 1 sample_kernel = (sample_kernel, - 1)"
  using fd_errors [OF sample_kernel_std, of 9 "0x1000" 4 sample_env] fd_errors [OF sample_kernel_std, of 1 "0x1000" 4 sample_env]
  by (simp add: word_sless_alt)

end
