(* ===== verification/ProcessSpec.thy ===== *)
theory ProcessSpec
  imports FileCalls
begin

text \<open>
  Processes as a stack. The specification is a list of frames, the running process first: a process
  number with the stack and base pointers under which its \<open>execute\<close> will continue. \<open>execute\<close> pushes
  a frame, \<open>halt\<close> pops one, every other system call leaves the list alone; \<open>proc_stack\<close> relates it to the
  process control blocks, the bitmap, the page directory and the task state segment.
\<close>

section \<open>Blocks, stacks and the bitmap\<close>

lemma less_7_cases: "(i :: nat) < 7 \<Longrightarrow> i = 0 \<or> i = 1 \<or> i = 2 \<or> i = 3 \<or> i = 4 \<or> i = 5 \<or> i = 6"
  by arith

lemma pcb_addr_eq: "i < 7 \<Longrightarrow> pcb_addr (of_nat i) = 0x7FE000 - 0x2000 * of_nat i"
  by (drule less_7_cases) (auto simp: pcb_addr_def kernel_bp_def)

lemma kernel_bp_eq: "i < 7 \<Longrightarrow> kernel_bp (of_nat i) = pcb_addr (of_nat i) + 0x1FFC"
  by (simp add: pcb_addr_eq kernel_bp_def)

lemma unat_pcb_addr: "i < 7 \<Longrightarrow> unat (pcb_addr (of_nat i)) = 0x7FE000 - 0x2000 * i"
  by (drule less_7_cases) (auto simp: pcb_addr_def kernel_bp_def)

lemma pcb_addr_inj [simp]: "i < 7 \<Longrightarrow> j < 7 \<Longrightarrow> pcb_addr (of_nat i) = pcb_addr (of_nat j) \<longleftrightarrow> i = j"
  using unat_pcb_addr [of i] unat_pcb_addr [of j] by (auto dest: arg_cong [of _ _ unat])

lemma pcb_addr_nz [simp]: "i < 7 \<Longrightarrow> pcb_addr (of_nat i) \<noteq> 0"
  using unat_pcb_addr [of i] by auto

lemma kernel_bp_addr: "kernel_bp pid AND 0xFFFFE000 = pcb_addr pid"
  by (simp add: pcb_addr_def)

text \<open>The bit of \<open>open_processes\<close> for a process number.\<close>

definition slot_used :: "u8 \<Rightarrow> nat \<Rightarrow> bool" where
  "slot_used ops i \<longleftrightarrow> drop_bit i MASK AND ops \<noteq> 0"

lemma mask_bit: "i < 7 \<Longrightarrow> drop_bit i (0x80 :: u8) = push_bit (7 - i) 1"
  by (drule less_7_cases) auto

lemma slot_used_bit: "i < 7 \<Longrightarrow> slot_used ops i \<longleftrightarrow> bit ops (7 - i)"
  by (simp add: slot_used_def mask_bit bit_iff_and_push_bit_not_eq_0 and.commute)

lemma slot_used_set: "i < 7 \<Longrightarrow> j < 7 \<Longrightarrow> slot_used (ops OR drop_bit i 0x80) j \<longleftrightarrow> slot_used ops j \<or> j = i"
  by (auto simp: slot_used_bit mask_bit bit_simps)

lemma slot_used_clear:
  "i < 7 \<Longrightarrow> j < 7 \<Longrightarrow> slot_used (ops XOR ucast (drop_bit i (0x80 :: u32))) j \<longleftrightarrow> slot_used ops j \<noteq> (j = i)"
proof -
  assume i: "i < 7" and j: "j < 7"
  have "drop_bit i (0x80 :: u32) = push_bit (7 - i) 1" using less_7_cases [OF i] by auto
  moreover have "ucast (push_bit (7 - i) 1 :: u32) = (push_bit (7 - i) 1 :: u8)" using less_7_cases [OF i] by auto
  ultimately show ?thesis using i j by (auto simp: slot_used_bit bit_simps)
qed

text \<open>The search takes the lowest free number.\<close>

definition free_slot :: "u8 \<Rightarrow> nat" where
  "free_slot ops = length (takeWhile (slot_used ops) [0..<7])"

lemma free_slot_le: "free_slot ops \<le> 7"
  using length_takeWhile_le [of "slot_used ops" "[0..<7]"] by (simp add: free_slot_def)

lemma free_slot_free: "free_slot ops < 7 \<Longrightarrow> \<not> slot_used ops (free_slot ops)"
  using nth_length_takeWhile [of "slot_used ops" "[0..<7]"] by (simp add: free_slot_def)

lemma free_slot_lower: "i < free_slot ops \<Longrightarrow> slot_used ops i"
proof -
  assume i: "i < free_slot ops"
  then have "takeWhile (slot_used ops) [0..<7] ! i \<in> set (takeWhile (slot_used ops) [0..<7])"
    by (simp add: free_slot_def)
  moreover have "takeWhile (slot_used ops) [0..<7] ! i = i"
    using i free_slot_le [of ops] takeWhile_nth [of i "slot_used ops" "[0..<7]"] by (simp add: free_slot_def)
  ultimately show ?thesis using set_takeWhileD [of i "slot_used ops" "[0..<7]"] by simp
qed

lemma alloc_loop_from:
  assumes "i \<le> free_slot (open_processes k)"
  shows "alloc_loop i (drop_bit i MASK) k =
    (if free_slot (open_processes k) = 7 then (7, k)
     else (free_slot (open_processes k),
       k\<lparr>open_processes := open_processes k OR drop_bit (free_slot (open_processes k)) MASK,
         process_id := of_nat (free_slot (open_processes k))\<rparr>))"
  using assms
proof (induction "free_slot (open_processes k) - i" arbitrary: i)
  case 0
  then have i: "i = free_slot (open_processes k)" by simp
  show ?case
    using free_slot_free [of "open_processes k"] free_slot_le [of "open_processes k"]
    by (subst alloc_loop.simps) (auto simp: i slot_used_def)
next
  case (Suc d)
  then have i: "i < free_slot (open_processes k)" by simp
  then have "drop_bit i MASK AND open_processes k \<noteq> 0" using free_slot_lower by (simp add: slot_used_def)
  moreover have "i < 7" using i free_slot_le [of "open_processes k"] by simp
  moreover have "alloc_loop i m k = alloc_loop (Suc i) (drop_bit 1 m) k" if "i < 7" "m AND open_processes k \<noteq> 0" for m
    using that by (subst alloc_loop.simps) simp
  moreover have "drop_bit 1 (drop_bit i MASK) = drop_bit (Suc i) MASK" by (simp only: drop_bit_drop_bit plus_1_eq_Suc)
  ultimately have "alloc_loop i (drop_bit i MASK) k = alloc_loop (Suc i) (drop_bit (Suc i) MASK) k" by metis
  moreover have "d = free_slot (open_processes k) - Suc i" "Suc i \<le> free_slot (open_processes k)" using Suc(2) i by simp_all
  ultimately show ?case using Suc(1) [of "Suc i"] by (simp only: refl)
qed

lemmas alloc_loop_eq = alloc_loop_from [of 0, simplified]

section \<open>Starting a program\<close>

text \<open>The part of the state that only a change of process changes.\<close>

definition core :: "kernel \<Rightarrow> paging \<times> u32 \<times> (u32 \<Rightarrow> pcb_t) \<times> u32 \<times> u32 \<times> u32 \<times> u32 list \<times> u32 \<times> u32 \<times> fs" where
  "core k = (pg k, curr_process k, pcbs k, initial_shell k, tss_esp0 k, tss_ss0 k, task_queue k,
     next_available k, next_task k, fsys k)"

lemma core_simps [simp]:
  "core (set_view m k) = core k" "core (k\<lparr>space_seen := a\<rparr>) = core k" "core (k\<lparr>arg_index := b\<rparr>) = core k"
  "core (k\<lparr>args := c\<rparr>) = core k" "core (k\<lparr>tty := s\<rparr>) = core k"
  "core (k\<lparr>open_processes := x, process_id := y\<rparr>) = core k"
  by (simp_all add: core_def)

lemma kernel_printf_keeps:
  "kernel_printf E text k = Some k' \<Longrightarrow>
   core k' = core k \<and> open_processes k' = open_processes k \<and> process_id k' = process_id k"
  by (auto simp: kernel_printf_def)

lemma parse_keeps:
  "parse E input k = Some (k', r) \<Longrightarrow>
   core k' = core k \<and> open_processes k' = open_processes k \<and> process_id k' = process_id k"
  by (auto simp: parse_def Let_def split: option.split_asm if_split_asm prod.split_asm)

lemma get_arg_keeps:
  "core (get_arg E input n k) = core k \<and> open_processes (get_arg E input n k) = open_processes k
   \<and> process_id (get_arg E input n k) = process_id k"
  by (auto simp: get_arg_def Let_def split: prod.split)

text \<open>
  Until the program is found nothing but the process number and its bit change. The bit is set
  before the first check that can fail.
\<close>

definition taken :: "u8 \<Rightarrow> u8" where
  "taken ops = ops OR drop_bit (free_slot ops) MASK"

lemma execute_check_cases:
  assumes "execute_check E command k = Some res"
  shows "(\<exists>k'. res = Inl (k', 1) \<and> core k' = core k \<and> free_slot (open_processes k) = 7
        \<and> open_processes k' = open_processes k)
    \<or> (\<exists>k'. res = Inl (k', - 1) \<and> core k' = core k \<and> free_slot (open_processes k) < 7
        \<and> open_processes k' = taken (open_processes k))
    \<or> (\<exists>k' fname entry. res = Inr (k', fname, entry) \<and> core k' = core k \<and> free_slot (open_processes k) < 7
        \<and> open_processes k' = taken (open_processes k) \<and> process_id k' = of_nat (free_slot (open_processes k)))"
proof -
  obtain k1 fname n where 1: "parse E command k = Some (k1, fname)" "strlen (view k1) command = Some n"
    using assms by (auto simp: execute_check_def split: option.split_asm)
  define k2 where "k2 = get_arg E command n k1"
  define k3 where "k3 = snd (alloc_loop 0 MASK k2)"
  define ops where "ops = open_processes k"
  have k2: "core k2 = core k" "open_processes k2 = ops"
    using parse_keeps [OF 1(1)] get_arg_keeps unfolding k2_def ops_def by metis+
  show ?thesis
  proof (cases "free_slot ops = 7")
    case True
    then have "alloc_loop 0 MASK k2 = (7, k2)" by (simp add: alloc_loop_eq k2)
    then show ?thesis
      using assms 1 k2 True kernel_printf_keeps [of E _ k2]
      by (auto simp: execute_check_def k2_def [symmetric] ops_def)
  next
    case False
    then have lt: "free_slot ops < 7" using free_slot_le [of ops] by simp
    have a: "alloc_loop 0 MASK k2 = (free_slot ops, k3)" "core k3 = core k" "open_processes k3 = taken ops"
      "process_id k3 = of_nat (free_slot ops)"
      using False by (simp_all add: k3_def alloc_loop_eq k2 taken_def)
    show ?thesis
      using assms 1 a(2-) lt unfolding ops_def [symmetric]
      by (simp add: execute_check_def k2_def [symmetric] a(1) Let_def)
        (auto simp: Let_def split: option.split_asm if_split_asm prod.split_asm)
  qed
qed

lemma push_task_simps [simp]:
  "pcbs (push_task k) = pcbs k" "curr_process (push_task k) = curr_process k" "pg (push_task k) = pg k"
  "tty (push_task k) = tty k" "initial_shell (push_task k) = initial_shell k"
  "open_processes (push_task k) = open_processes k" "process_id (push_task k) = process_id k"
  "view (push_task k) = view k"
  by (auto simp: push_task_def view_def fun_eq_iff split: option.splits)

lemma update_pcb_tss [simp]:
  "tss_esp0 (update_pcb a f k) = tss_esp0 k" "retval (update_pcb a f k) = retval k"
  by (simp_all add: update_pcb_def)

text \<open>The table with the keyboard and the screen open.\<close>

definition std_fds :: "int \<Rightarrow> file_t list" where
  "std_fds screen = closed_file\<lparr>file_op := StdinJt, flags := 1\<rparr> #
     closed_file\<lparr>file_op := StdoutJt, flags := 1, file_pos := of_int screen\<rparr> # replicate 6 closed_file"

lemma std_ok_std_fds: "file_fds p = std_fds screen \<Longrightarrow> std_ok p"
  by (simp add: std_ok_def fds_ok_def std_fds_def file_wf_def closed_file_def list_all_iff)

lemma set_std_fds:
  "set_fd (Suc 0) (\<lambda>f. f\<lparr>file_op := StdoutJt, flags := 1, file_pos := of_int screen\<rparr>)
     (set_fd 0 (\<lambda>f. f\<lparr>file_op := StdinJt, flags := 1\<rparr>) (p\<lparr>file_fds := replicate 8 closed_file\<rparr>))
   = p\<lparr>file_fds := std_fds screen\<rparr>"
  by (simp add: set_fd_def std_fds_def eval_nat_numeral)

text \<open>The blocks after \<open>execute_start\<close>: the new process and the one that called \<open>execute\<close>.\<close>

definition new_block :: "u32 \<Rightarrow> nat option \<Rightarrow> u32 \<Rightarrow> int \<Rightarrow> pcb_t \<Rightarrow> pcb_t" where
  "new_block n pd parent screen p =
     p\<lparr>pcb_process_id := ucast n, PD_ptr := pd, pcb_k_bp := kernel_bp n, k_sp := kernel_bp n,
       parent_process := parent, file_fds := std_fds screen\<rparr>"

definition suspended :: "env \<Rightarrow> u32 \<Rightarrow> pcb_t \<Rightarrow> pcb_t" where
  "suspended E n p = p\<lparr>child_flag := 1, child := n, k_sp := esp E, pcb_k_bp := ebp E\<rparr>"

lemma std_ok_new_block: "std_ok (new_block n pd parent screen p)"
  by (rule std_ok_std_fds [of _ screen]) (simp add: new_block_def)

lemma k_sp_set_fd [simp]: "k_sp (set_fd fd f p) = k_sp p"
  by (simp add: set_fd_def)

lemma execute_start_child:
  assumes "initial_shell k = 0" and "prev \<noteq> NULL" and "prev \<noteq> pcb_addr (process_id k)"
  defines "a \<equiv> pcb_addr (process_id k)"
  shows "pcbs (execute_start E prev pd k) =
      (pcbs k)(a := new_block (process_id k) pd prev (screen_num (tty k)) (pcbs k a),
               prev := suspended E (process_id k) (pcbs k prev))"
    and "curr_process (execute_start E prev pd k) = a"
    and "pg (execute_start E prev pd k) = pg k" and "open_processes (execute_start E prev pd k) = open_processes k"
    and "initial_shell (execute_start E prev pd k) = 0"
    and "tss_esp0 (execute_start E prev pd k) = kernel_bp (process_id k)"
  using assms
  by (simp_all add: execute_start_def stdin_def stdout_def Let_def kernel_bp_addr a_def suspended_def
      set_std_fds new_block_def)

lemma fds_last:
  "p\<lparr>file_fds := fds, child_flag := c, child := d\<rparr> = p\<lparr>child_flag := c, child := d, file_fds := fds\<rparr>"
  by (cases p) simp

lemma execute_start_first:
  assumes "initial_shell k \<noteq> 0"
  defines "a \<equiv> pcb_addr (process_id k)"
  shows "pcbs (execute_start E NULL pd k) =
      (pcbs k)(a := (new_block (process_id k) pd a (screen_num (tty k)) (pcbs k a))\<lparr>child_flag := 0, child := - 1\<rparr>)"
    and "curr_process (execute_start E NULL pd k) = a"
    and "pg (execute_start E NULL pd k) = pg k" and "open_processes (execute_start E NULL pd k) = open_processes k"
    and "initial_shell (execute_start E NULL pd k) = 0"
    and "tss_esp0 (execute_start E NULL pd k) = kernel_bp (process_id k)"
  using assms
  by (simp_all add: execute_start_def stdin_def stdout_def Let_def kernel_bp_addr a_def set_std_fds new_block_def fds_last)

section \<open>The stack of processes\<close>

type_synonym frame = "nat \<times> u32 \<times> u32"

definition frame_pcb :: "kernel \<Rightarrow> frame \<Rightarrow> pcb_t" where
  "frame_pcb k f = pcbs k (pcb_addr (of_nat (fst f)))"

definition block_ok :: "u8 \<Rightarrow> frame \<Rightarrow> pcb_t \<Rightarrow> bool" where
  "block_ok ops f p \<longleftrightarrow> fst f < 7 \<and> slot_used ops (fst f) \<and> std_ok p \<and> pcb_process_id p = of_nat (fst f)
     \<and> PD_ptr p = Some (fst f) \<and> k_sp p = fst (snd f) \<and> pcb_k_bp p = snd (snd f)"

fun linked :: "kernel \<Rightarrow> frame list \<Rightarrow> bool" where
  "linked k [] = True"
| "linked k [f] \<longleftrightarrow> parent_process (frame_pcb k f) = pcb_addr (of_nat (fst f))"
| "linked k (f # g # fs) \<longleftrightarrow> parent_process (frame_pcb k f) = pcb_addr (of_nat (fst g)) \<and> linked k (g # fs)"

definition proc_stack :: "kernel \<Rightarrow> frame list \<Rightarrow> bool" where
  "proc_stack k fs \<longleftrightarrow> fs \<noteq> [] \<and> distinct (map fst fs)
     \<and> list_all (\<lambda>f. block_ok (open_processes k) f (frame_pcb k f)) fs \<and> linked k fs
     \<and> curr_process k = pcb_addr (of_nat (fst (hd fs))) \<and> cr3 (pg k) = Some (fst (hd fs))
     \<and> tss_esp0 k = fst (snd (hd fs)) \<and> initial_shell k = 0"

inductive stack_step :: "frame list \<Rightarrow> frame list \<Rightarrow> bool" where
  push: "i < 7 \<Longrightarrow> i \<notin> fst ` set (f # fs) \<Longrightarrow>
    stack_step (f # fs) ((i, kernel_bp (of_nat i), kernel_bp (of_nat i)) # (fst f, sp, bp) # fs)"
| pop: "stack_step (f # g # fs) (g # fs)"

text \<open>
  What the calls that write kernel memory at unchecked addresses or without regard to sizes need so that
  they miss the process control blocks and tables: \<open>execute\<close> copies the name and the arguments
  over literals of 11 characters, \<open>getargs\<close> clears the size it is given and copies the arguments, however long.
\<close>

definition command_fits :: "kernel \<Rightarrow> u32 \<Rightarrow> bool" where
  "command_fits k command \<longleftrightarrow> (\<forall>bs. cstr (view k) command bs \<longrightarrow>
     (let n = length (takeWhile (\<lambda>b. b \<noteq> 0x20 \<and> b \<noteq> 0x0A) bs) in n \<le> 11 \<and> length bs \<le> n + 12))"

definition args_allowed :: "u32 \<Rightarrow> u32 \<Rightarrow> kernel \<Rightarrow> bool" where
  "args_allowed buf n k \<longleftrightarrow> (\<forall>bs. cstr (view k) (args k) bs \<longrightarrow> program_range buf (max (unat n) (length bs)))"

text \<open>The system calls as steps. A failed \<open>execute\<close> is one only if it leaves the directory alone.\<close>

inductive proc_step :: "kernel \<Rightarrow> kernel \<Rightarrow> bool" where
  exec: "execute E command k = Some (k', Userspace entry) \<Longrightarrow> command_fits k command \<Longrightarrow> proc_step k k'"
| exec_fail: "execute E command k = Some (k', Return r) \<Longrightarrow> command_fits k command \<Longrightarrow> cr3 (pg k') = cr3 (pg k) \<Longrightarrow> proc_step k k'"
| halt: "halt E st k = Some (k', Ret_halt sp bp) \<Longrightarrow> proc_step k k'"
| fd: "fd_step E k k' \<Longrightarrow> proc_step k k'"
| args: "getargs buf n k = Some (k', r) \<Longrightarrow> args_allowed buf n k \<Longrightarrow> proc_step k k'"
| video: "vidmap E screen_start k = (k', r) \<Longrightarrow> proc_step k k'"

lemma linked_cong:
  "(\<And>f. f \<in> set fs \<Longrightarrow> parent_process (frame_pcb k' f) = parent_process (frame_pcb k f)) \<Longrightarrow>
   linked k' fs \<longleftrightarrow> linked k fs"
  by (induction k fs rule: linked.induct) simp_all

lemma proc_stack_same:
  assumes "proc_stack k fs" and "pcbs k' = pcbs k" and "open_processes k' = open_processes k"
    and "curr_process k' = curr_process k" and "cr3 (pg k') = cr3 (pg k)" and "tss_esp0 k' = tss_esp0 k"
    and "initial_shell k' = initial_shell k"
  shows "proc_stack k' fs"
proof -
  have "frame_pcb k' = frame_pcb k" using assms(2) by (simp add: frame_pcb_def fun_eq_iff)
  then show ?thesis using assms linked_cong [of fs k' k] by (simp add: proc_stack_def)
qed

lemma slot_used_taken: "i < 7 \<Longrightarrow> free_slot ops < 7 \<Longrightarrow> slot_used ops i \<Longrightarrow> slot_used (taken ops) i"
  by (simp add: taken_def slot_used_set)

lemma proc_stack_leak:
  assumes "proc_stack k fs" and "pcbs k' = pcbs k" and "free_slot (open_processes k) < 7"
    and "open_processes k' = taken (open_processes k)" and "curr_process k' = curr_process k"
    and "cr3 (pg k') = cr3 (pg k)" and "tss_esp0 k' = tss_esp0 k" and "initial_shell k' = initial_shell k"
  shows "proc_stack k' fs"
proof -
  have "frame_pcb k' = frame_pcb k" using assms(2) by (simp add: frame_pcb_def fun_eq_iff)
  moreover have "block_ok (open_processes k') f p" if "block_ok (open_processes k) f p" for f p
    using that assms(3,4) slot_used_taken by (simp add: block_ok_def)
  ultimately show ?thesis
    using assms(1,5-) linked_cong [of fs k' k] by (auto simp: proc_stack_def list_all_iff)
qed

lemma frame_pcb_other:
  assumes "distinct (map fst (f # fs))" and "list_all (\<lambda>f. fst f < 7) (f # fs)" and "g \<in> set fs"
  shows "pcb_addr (of_nat (fst g)) \<noteq> pcb_addr (of_nat (fst f))"
proof -
  have "fst g \<in> fst ` set fs" using assms(3) by simp
  moreover have "fst f \<notin> fst ` set fs" using assms(1) by simp
  ultimately have "fst g \<noteq> fst f" by metis
  moreover have "fst f < 7" "fst g < 7" using assms(2,3) by (auto simp: list_all_iff)
  ultimately show ?thesis by simp
qed

lemma proc_stack_less: "proc_stack k fs \<Longrightarrow> list_all (\<lambda>f. fst f < 7) fs"
  by (auto simp: proc_stack_def block_ok_def list_all_iff)

lemma execute_success:
  assumes "execute E command k = Some (k', Userspace entry)"
  shows "\<exists>k1 m. core k1 = core k \<and> free_slot (open_processes k) < 7 \<and> open_processes k1 = taken (open_processes k)
    \<and> process_id k1 = of_nat (free_slot (open_processes k))
    \<and> k' = execute_start E (curr_process k) (Some (free_slot (open_processes k)))
         (set_view m (k1\<lparr>pg := fst (task_mem_init (process_id k1) (pg k1))\<rparr>))"
proof -
  obtain k1 fname where c: "execute_check E command k = Some (Inr (k1, fname, entry))"
    using assms by (auto simp: execute_def Let_def split: option.split_asm sum.split_asm prod.split_asm if_split_asm)
  have k1: "core k1 = core k" "free_slot (open_processes k) < 7" "open_processes k1 = taken (open_processes k)"
    "process_id k1 = of_nat (free_slot (open_processes k))"
    using execute_check_cases [OF c] by auto
  have "process_id k1 \<le> 6" using k1(2) by (simp add: k1(4) word_le_nat_alt unat_of_nat32)
  then obtain p where p: "task_mem_init (process_id k1) (pg k1) = (p, Some (free_slot (open_processes k)))"
    using k1(2) by (simp add: task_mem_init_def Let_def map_4MB_page_def put_PDE_def set_PDBR_def k1(4) unat_of_nat32 not_less)
  show ?thesis
  proof -
    obtain m where "k' = execute_start E (curr_process k) (Some (free_slot (open_processes k))) (set_view m (k1\<lparr>pg := p\<rparr>))"
      using assms c p by (auto simp: execute_def Let_def split: option.split_asm prod.split_asm if_split_asm)
    then show ?thesis using k1 p by (intro exI [of _ k1] exI [of _ m]) simp
  qed
qed

lemma task_mem_init_cr3: "PID \<le> 6 \<Longrightarrow> cr3 (fst (task_mem_init PID p)) = Some (unat PID)"
  using leD by (auto simp: task_mem_init_def Let_def map_4MB_page_def put_PDE_def set_PDBR_def)

text \<open>The first shell, started by \<open>entry\<close> with no process running.\<close>

lemma boot_stack:
  assumes "execute E command k = Some (k', Userspace entry)" and "initial_shell k \<noteq> 0"
    and "curr_process k = NULL" and "open_processes k = 0"
  shows "proc_stack k' [(0, kernel_bp 0, kernel_bp 0)] \<and> open_processes k' = MASK"
proof -
  have slot: "free_slot 0 = 0" by (simp add: free_slot_def slot_used_def upt_rec)
  obtain k1 m where k1: "core k1 = core k" "open_processes k1 = MASK" "process_id k1 = 0"
    "k' = execute_start E 0 (Some 0) (set_view m (k1\<lparr>pg := fst (task_mem_init 0 (pg k1))\<rparr>))"
    using execute_success [OF assms(1)] assms(3,4) by (auto simp: slot taken_def)
  have i: "initial_shell (set_view m (k1\<lparr>pg := fst (task_mem_init 0 (pg k1))\<rparr>)) \<noteq> 0"
    using assms(2) k1(1) by (simp add: core_def)
  show ?thesis
    using execute_start_first [OF i, of E "Some 0"] k1 task_mem_init_cr3 [of 0 "pg k1"]
    by (simp add: proc_stack_def block_ok_def frame_pcb_def new_block_def std_ok_std_fds [of _ "screen_num (tty k1)"] slot_used_def)
qed

text \<open>Popping.\<close>

lemma halt_pop:
  assumes "proc_stack k (f # g # fs)" and "halt E st k = Some (k', c)"
  shows "c = Ret_halt (fst (snd g)) (snd (snd g)) \<and> proc_stack k' (g # fs) \<and> retval k' = ucast st
    \<and> (\<forall>i < 7. slot_used (open_processes k') i \<longleftrightarrow> slot_used (open_processes k) i \<and> i \<noteq> fst f)"
proof -
  define a where "a = pcb_addr (of_nat (fst g))"
  have less: "list_all (\<lambda>f. fst f < 7) (f # g # fs)" using proc_stack_less [OF assms(1)] .
  have st: "distinct (map fst (f # g # fs))" "linked k (f # g # fs)" "curr_process k = pcb_addr (of_nat (fst f))"
    "block_ok (open_processes k) f (frame_pcb k f)" "block_ok (open_processes k) g (frame_pcb k g)"
    "list_all (\<lambda>f. block_ok (open_processes k) f (frame_pcb k f)) fs" "initial_shell k = 0"
    using assms(1) by (simp_all add: proc_stack_def)
  have par: "parent_process (pcbs k (curr_process k)) = a" using st(2,3) by (simp add: frame_pcb_def a_def)
  have ne: "curr_process k \<noteq> a" using frame_pcb_other [OF st(1) less, of g] st(3) by (simp add: a_def)
  have pid: "unat (pcb_process_id (pcbs k (curr_process k))) = fst f"
    using st(3,4) less less_7_cases [of "fst f"] by (auto simp: block_ok_def frame_pcb_def)
  have k': "pcbs k' = (pcbs k)(a := (pcbs k a)\<lparr>child_flag := 0\<rparr>)" "curr_process k' = a"
    "cr3 (pg k') = PD_ptr (pcbs k a)" "tss_esp0 k' = k_sp (pcbs k a)" "retval k' = ucast st"
    "open_processes k' = open_processes k XOR ucast (drop_bit (fst f) (0x80 :: u32))" "initial_shell k' = initial_shell k"
    "c = Ret_halt (k_sp (pcbs k a)) (pcb_k_bp (pcbs k a))"
    using assms(2) ne par pid by (auto simp: halt_def Let_def set_PDBR_def)
  have used: "slot_used (open_processes k') i \<longleftrightarrow> slot_used (open_processes k) i \<and> i \<noteq> fst f" if "i < 7" for i
    using k'(6) that slot_used_clear [of "fst f" i] less st(4) by (auto simp: block_ok_def)
  have fp: "std_ok (frame_pcb k' h) = std_ok (frame_pcb k h) \<and> pcb_process_id (frame_pcb k' h) = pcb_process_id (frame_pcb k h)
      \<and> PD_ptr (frame_pcb k' h) = PD_ptr (frame_pcb k h) \<and> k_sp (frame_pcb k' h) = k_sp (frame_pcb k h)
      \<and> pcb_k_bp (frame_pcb k' h) = pcb_k_bp (frame_pcb k h) \<and> parent_process (frame_pcb k' h) = parent_process (frame_pcb k h)" for h
    by (simp add: frame_pcb_def k'(1) std_ok_def fds_ok_def)
  have ga: "PD_ptr (pcbs k a) = Some (fst g)" "k_sp (pcbs k a) = fst (snd g)" "pcb_k_bp (pcbs k a) = snd (snd g)"
    using st(5) by (simp_all add: block_ok_def frame_pcb_def a_def)
  have "block_ok (open_processes k') h (frame_pcb k' h)" if "h \<in> set (g # fs)" for h
  proof -
    have "fst h \<in> fst ` set (g # fs)" using that by (rule imageI)
    then have "fst h \<noteq> fst f" using st(1) by (metis distinct.simps(2) list.simps(9) set_map)
    moreover have "block_ok (open_processes k) h (frame_pcb k h)" using that st(5,6) by (auto simp: list_all_iff)
    ultimately show ?thesis using used fp by (simp add: block_ok_def)
  qed
  then have "list_all (\<lambda>f. block_ok (open_processes k') f (frame_pcb k' f)) (g # fs)" unfolding list_all_iff by blast
  moreover have "linked k' (g # fs)" using st(2) fp linked_cong [of "g # fs" k' k] by simp
  ultimately have "proc_stack k' (g # fs)"
    using st(1,7) k'(2-4,7) ga unfolding proc_stack_def a_def by simp
  then show ?thesis using k'(5,8) ga used by simp
qed

text \<open>Pushing.\<close>

lemma execute_push:
  assumes "proc_stack k (f # fs)" and "execute E command k = Some (k', Userspace entry)"
  defines "i \<equiv> free_slot (open_processes k)"
  shows "i < 7 \<and> i \<notin> fst ` set (f # fs) \<and> open_processes k' = taken (open_processes k)
    \<and> proc_stack k' ((i, kernel_bp (of_nat i), kernel_bp (of_nat i)) # (fst f, esp E, ebp E) # fs)"
proof -
  define n :: u32 where "n = of_nat i"
  define j where "j = pcb_addr (of_nat (fst f))"
  obtain k1 m where k1: "core k1 = core k" "i < 7" "open_processes k1 = taken (open_processes k)" "process_id k1 = n"
    "k' = execute_start E (curr_process k) (Some i) (set_view m (k1\<lparr>pg := fst (task_mem_init n (pg k1))\<rparr>))"
    using execute_success [OF assms(2)] by (auto simp: i_def n_def)
  have less: "list_all (\<lambda>f. fst f < 7) (f # fs)" using proc_stack_less [OF assms(1)] .
  have st: "distinct (map fst (f # fs))" "linked k (f # fs)" "curr_process k = j" "initial_shell k = 0"
    "list_all (\<lambda>f. block_ok (open_processes k) f (frame_pcb k f)) (f # fs)"
    using assms(1) by (simp_all add: proc_stack_def j_def)
  have new: "i \<notin> fst ` set (f # fs)"
    using free_slot_free [of "open_processes k"] k1(2) st(5) by (auto simp: i_def list_all_iff block_ok_def)
  have nj: "pcb_addr n \<noteq> j" using new less k1(2) by (auto simp: n_def j_def)
  have jz: "j \<noteq> 0" using less by (simp add: j_def)
  have un: "unat n = i" "n \<le> 6" using k1(2) by (simp_all add: n_def unat_of_nat32 word_le_nat_alt)
  note start = execute_start_child [of "set_view m (k1\<lparr>pg := fst (task_mem_init n (pg k1))\<rparr>)" j E "Some i"]
  have k': "pcbs k' = (pcbs k)(pcb_addr n := new_block n (Some i) j (screen_num (tty k1)) (pcbs k (pcb_addr n)),
        j := suspended E n (pcbs k j))"
    "curr_process k' = pcb_addr n" "cr3 (pg k') = Some i" "open_processes k' = taken (open_processes k)"
    "initial_shell k' = 0" "tss_esp0 k' = kernel_bp n"
    using start nj jz st(3,4) k1 task_mem_init_cr3 [OF un(2)] un(1) by (simp_all add: core_def)
  have other: "frame_pcb k' h = frame_pcb k h" if "h \<in> set fs" for h
  proof -
    have "pcb_addr (of_nat (fst h)) \<noteq> j" using frame_pcb_other [OF st(1) less that] by (simp add: j_def)
    moreover have "fst h \<noteq> i" "fst h < 7" using new that less by (auto simp: list_all_iff)
    ultimately show ?thesis using k1(2) by (simp add: frame_pcb_def k'(1) n_def)
  qed
  have top: "frame_pcb k' (fst f, sp, bp) = suspended E n (frame_pcb k f)" for sp bp
    by (simp add: frame_pcb_def k'(1) j_def)
  have bot: "frame_pcb k' (i, sp, bp) = new_block n (Some i) j (screen_num (tty k1)) (pcbs k (pcb_addr n))" for sp bp
    using nj by (simp add: frame_pcb_def k'(1) n_def)
  have used: "slot_used (taken (open_processes k)) h \<longleftrightarrow> slot_used (open_processes k) h \<or> h = i" if "h < 7" for h
    using that k1(2) by (simp add: taken_def slot_used_set i_def)
  have pid: "ucast n = (of_nat i :: u8)" using less_7_cases [OF k1(2)] by (auto simp: n_def)
  have blocks: "list_all (\<lambda>f. block_ok (open_processes k') f (frame_pcb k' f))
      ((i, kernel_bp n, kernel_bp n) # (fst f, esp E, ebp E) # fs)"
    using st(5) other used k1(2)
    by (auto simp: k'(4) block_ok_def bot top list_all_iff std_ok_new_block,
        simp_all add: new_block_def suspended_def std_ok_def fds_ok_def pid)
  have "linked k' ((fst f, sp, bp) # fs)" for sp bp
    using st(2) other top linked_cong [of fs k' k] by (cases fs) (simp_all add: suspended_def)
  moreover have "linked k' ((i, kernel_bp n, kernel_bp n) # (fst f, sp, bp) # fs)" if "linked k' ((fst f, sp, bp) # fs)" for sp bp
    using that by (simp add: bot new_block_def j_def)
  ultimately show ?thesis
    using new k1(2) k' blocks st(1) unfolding proc_stack_def by (auto simp: n_def)
qed

section \<open>Every step keeps the stack\<close>

lemma execute_fail:
  assumes "execute E command k = Some (k', Return r)"
  shows "pcbs k' = pcbs k \<and> curr_process k' = curr_process k \<and> tss_esp0 k' = tss_esp0 k
    \<and> initial_shell k' = initial_shell k \<and>
    (free_slot (open_processes k) = 7 \<and> open_processes k' = open_processes k \<and> r = 1
     \<or> free_slot (open_processes k) < 7 \<and> open_processes k' = taken (open_processes k))"
proof -
  obtain res where c: "execute_check E command k = Some res"
    using assms by (auto simp: execute_def Let_def split: option.split_asm)
  show ?thesis
  proof (cases res)
    case (Inl x)
    then show ?thesis using assms c execute_check_cases [OF c] by (auto simp: execute_def core_def)
  next
    case (Inr x)
    obtain k1 fname entry where x: "x = (k1, fname, entry)" using prod_cases3 by blast
    have k1: "core k1 = core k" "free_slot (open_processes k) < 7" "open_processes k1 = taken (open_processes k)"
      "process_id k1 = of_nat (free_slot (open_processes k))"
      using execute_check_cases [OF c] Inr x by auto
    obtain p pd where p: "task_mem_init (process_id k1) (pg k1) = (p, pd)" by fastforce
    have "core (k1\<lparr>pg := q\<rparr>) = (q, snd (core k1))" for q by (simp add: core_def)
    then show ?thesis
      using assms c Inr x k1 p
      by (cases pd) (auto simp: execute_def core_def Let_def dest!: kernel_printf_keeps split: option.split_asm prod.split_asm if_split_asm)
  qed
qed

lemma fd_step_keeps:
  assumes "proc_stack k fs" and "fd_step E k k'"
  shows "proc_stack k' fs"
proof -
  obtain f gs where fs: "fs = f # gs" using assms(1) by (cases fs) (simp_all add: proc_stack_def)
  have st: "distinct (map fst (f # gs))" "linked k fs" "curr_process k = pcb_addr (of_nat (fst f))"
    "block_ok (open_processes k) f (frame_pcb k f)"
    using assms(1) by (simp_all add: proc_stack_def fs)
  have std: "std_ok (pcbs k (curr_process k))" using st(3,4) by (simp add: block_ok_def frame_pcb_def)
  then have u: "fd_update k k'" using assms(2) by (intro fd_step_update) (simp add: fds_inv_def std_ok_def)
  have ps: "proc_state k' = proc_state k" "curr_process k' = curr_process k" using u by (simp_all add: fd_update_def)
  have std': "std_ok (pcbs k' (curr_process k))" using fd_update_std [OF std u] ps(2) by simp
  have fp: "pcb_process_id (frame_pcb k' h) = pcb_process_id (frame_pcb k h)
      \<and> PD_ptr (frame_pcb k' h) = PD_ptr (frame_pcb k h) \<and> k_sp (frame_pcb k' h) = k_sp (frame_pcb k h)
      \<and> pcb_k_bp (frame_pcb k' h) = pcb_k_bp (frame_pcb k h) \<and> parent_process (frame_pcb k' h) = parent_process (frame_pcb k h)
      \<and> (std_ok (frame_pcb k h) \<longrightarrow> std_ok (frame_pcb k' h))" for h
    using u std' by (auto simp: fd_update_def frame_pcb_def set_fd_def)
  have "block_ok (open_processes k') h (frame_pcb k' h)" if "block_ok (open_processes k) h (frame_pcb k h)" for h
    using that fp ps(1) by (simp add: block_ok_def proc_state_def)
  then show ?thesis
    using assms(1) fp ps linked_cong [of fs k' k] by (auto simp: proc_stack_def list_all_iff proc_state_def)
qed

lemma vidmap_keeps:
  "vidmap E s k = (k', r) \<Longrightarrow> pcbs k' = pcbs k \<and> curr_process k' = curr_process k \<and> open_processes k' = open_processes k
    \<and> cr3 (pg k') = cr3 (pg k) \<and> tss_esp0 k' = tss_esp0 k \<and> initial_shell k' = initial_shell k"
  by (auto simp: vidmap_def Let_def user_vidmap_def put_PTE_def put_PDE_def split: if_split_asm prod.split_asm option.split_asm)

lemma getargs_keeps:
  "getargs buf n k = Some (k', r) \<Longrightarrow> pcbs k' = pcbs k \<and> curr_process k' = curr_process k
    \<and> open_processes k' = open_processes k \<and> pg k' = pg k \<and> tss_esp0 k' = tss_esp0 k \<and> initial_shell k' = initial_shell k"
  by (auto simp: getargs_def Let_def split: option.split_asm)

lemma halt_initial:
  "proc_stack k [f] \<Longrightarrow> halt E st k = Some (k', c) \<Longrightarrow> c = Spin"
  by (auto simp: proc_stack_def halt_def frame_pcb_def Let_def)

text \<open>The number of a process that halts becomes free.\<close>

lemma halt_defined: "proc_stack k (f # g # fs) \<Longrightarrow> \<exists>k' c. halt E st k = Some (k', c)"
proof -
  assume st: "proc_stack k (f # g # fs)"
  have "curr_process k \<noteq> parent_process (pcbs k (curr_process k))"
    using st frame_pcb_other [of f "g # fs" g] proc_stack_less [OF st] by (simp add: proc_stack_def frame_pcb_def)
  then show ?thesis by (simp add: halt_def Let_def)
qed

lemma proc_step_simulates:
  assumes "proc_stack k fs" and "proc_step k k'"
  shows "\<exists>fs'. proc_stack k' fs' \<and> (fs' = fs \<or> stack_step fs fs')
    \<and> (length fs' < length fs \<longrightarrow> \<not> slot_used (open_processes k') (fst (hd fs)))"
  using assms(2)
proof cases
  case (exec E command entry)
  obtain f gs where fs: "fs = f # gs" using assms(1) by (cases fs) (simp_all add: proc_stack_def)
  show ?thesis using execute_push [OF assms(1) [unfolded fs] exec(1)] push fs
    by (metis length_Cons less_SucI less_irrefl)
next
  case (exec_fail E command r)
  then show ?thesis
    using execute_fail [OF exec_fail(1)] proc_stack_same [OF assms(1)] proc_stack_leak [OF assms(1)]
    by (metis less_irrefl)
next
  case (halt E st sp bp)
  show ?thesis
  proof (cases fs rule: remdups_adj.cases)
    case (3 f g gs)
    then have "fst f < 7" using proc_stack_less [OF assms(1)] by simp
    then show ?thesis using halt_pop [of k f g gs] halt assms(1) pop 3 by (metis list.sel(1))
  next
    case (2 f)
    then show ?thesis using halt_initial [of k f] assms(1) halt by blast
  qed (use assms(1) in \<open>simp add: proc_stack_def\<close>)
next
  case (fd E)
  then show ?thesis using fd_step_keeps [OF assms(1)] by blast
next
  case (args buf n r)
  then show ?thesis using proc_stack_same [OF assms(1)] getargs_keeps by (metis less_irrefl)
next
  case (video E s r)
  then show ?thesis using proc_stack_same [OF assms(1)] vidmap_keeps by (metis less_irrefl)
qed

text \<open>While a process has its number its frame and those below it stay.\<close>

lemma stack_step_above:
  assumes "stack_step (ys @ (i, s, b) # rest) fs'"
  shows "(\<exists>zs s b. fs' = zs @ (i, s, b) # rest) \<or> ys = [] \<and> fs' = rest"
  using assms
proof cases
  case (push j f fs sp bp)
  show ?thesis
  proof (cases ys)
    case Nil
    then have "fs' = [(j, kernel_bp (of_nat j), kernel_bp (of_nat j))] @ (i, sp, bp) # rest" using push by auto
    then show ?thesis by blast
  next
    case (Cons y zs)
    then have "fs' = ((j, kernel_bp (of_nat j), kernel_bp (of_nat j)) # (fst f, sp, bp) # zs) @ (i, s, b) # rest"
      using push by auto
    then show ?thesis by blast
  qed
next
  case (pop f g fs)
  show ?thesis
  proof (cases ys)
    case (Cons y zs)
    then have "fs' = zs @ (i, s, b) # rest" using pop by auto
    then show ?thesis by blast
  qed (use pop in auto)
qed

lemma run_above:
  assumes "proc_stack k (ys @ (i, s, b) # rest)"
    and "(\<lambda>a b. proc_step a b \<and> slot_used (open_processes b) i)\<^sup>*\<^sup>* k k'"
  shows "\<exists>ys s b. proc_stack k' (ys @ (i, s, b) # rest)"
  using assms(2)
proof (induction rule: rtranclp_induct)
  case base
  then show ?case using assms(1) by blast
next
  case (step k1 k2)
  obtain zs s1 b1 where st: "proc_stack k1 (zs @ (i, s1, b1) # rest)" using step.IH by blast
  obtain fs' where fs': "proc_stack k2 fs'" "fs' = zs @ (i, s1, b1) # rest \<or> stack_step (zs @ (i, s1, b1) # rest) fs'"
    "length fs' < length (zs @ (i, s1, b1) # rest) \<longrightarrow> \<not> slot_used (open_processes k2) (fst (hd (zs @ (i, s1, b1) # rest)))"
    using proc_step_simulates [OF st] step.hyps(2) by blast
  from fs'(2) show ?case
  proof
    assume "fs' = zs @ (i, s1, b1) # rest"
    then show ?thesis using fs'(1) by blast
  next
    assume "stack_step (zs @ (i, s1, b1) # rest) fs'"
    then show ?thesis using stack_step_above fs'(1,3) step.hyps(2) by fastforce
  qed
qed

lemma proc_stack_bound: "proc_stack k fs \<Longrightarrow> length fs \<le> 7"
proof -
  assume st: "proc_stack k fs"
  then have "set (map fst fs) \<subseteq> {..<7}" using proc_stack_less by (force simp: list_all_iff)
  then have "card (set (map fst fs)) \<le> card {..<7 :: nat}" by (intro card_mono) auto
  then show ?thesis using st by (simp only: proc_stack_def distinct_card card_lessThan length_map)
qed

section \<open>A sample shell\<close>

definition shell_kernel :: kernel where
  "shell_kernel = sample_kernel\<lparr>pg := sample_paging\<lparr>cr3 := Some 0\<rparr>\<rparr>"

lemma shell_stack: "proc_stack shell_kernel [(0, 0x7FFFFC, 0x7FFFFC)]"
proof -
  have "std_ok (shell_pcb a)" for a
    by (simp add: std_ok_def fds_ok_def shell_pcb_def file_wf_def closed_file_def list_all_iff)
  then show ?thesis
    by (simp add: proc_stack_def block_ok_def frame_pcb_def shell_kernel_def sample_kernel_def slot_used_def pcb_addr_def kernel_bp_def)
      (simp add: shell_pcb_def)
qed

section \<open>Properties\<close>

text \<open>
  Processes form a stack of at most seven. Starting from a shell, whatever system calls of \<open>proc_step\<close> the
  running process makes, in whatever order, the process control blocks, the parent links, the bitmap,
  the page directory and the task state segment keep describing a stack of processes, and each call
  either leaves that stack alone, pushes the process \<open>execute\<close> starts or pops the one that halts.
\<close>

lemma process_refinement:
  assumes "proc_stack k fs" and "proc_step\<^sup>*\<^sup>* k k'"
  shows "\<exists>fs'. proc_stack k' fs' \<and> stack_step\<^sup>*\<^sup>* fs fs' \<and> length fs' \<le> 7"
  using assms(2)
proof (induction rule: rtranclp_induct)
  case base
  then show ?case using assms(1) proc_stack_bound by blast
next
  case (step k1 k2)
  obtain fs1 where fs1: "proc_stack k1 fs1" "stack_step\<^sup>*\<^sup>* fs fs1" using step.IH by blast
  obtain fs2 where fs2: "proc_stack k2 fs2" "fs2 = fs1 \<or> stack_step fs1 fs2"
    using proc_step_simulates [OF fs1(1) step.hyps(2)] by blast
  have "stack_step\<^sup>*\<^sup>* fs fs2" using fs1(2) fs2(2) by (auto intro: rtranclp.rtrancl_into_rtrancl)
  then show ?case using fs2(1) proc_stack_bound by blast
qed

end
