(* ===== verification/CommandLine.thy ===== *)
theory CommandLine
  imports ProcessSpec
begin

text \<open>
  The command line: \<open>parse\<close> cuts the first word off a command, \<open>get_arg\<close> keeps the rest and the
  \<open>getargs\<close> system call hands it to the program. The reference functions \<open>cmd_name\<close> and \<open>cmd_args\<close>
  work on the string of characters.
\<close>

section \<open>The two halves of a command\<close>

definition is_sep :: "u8 \<Rightarrow> bool" where
  "is_sep b \<longleftrightarrow> b = 0x20 \<or> b = 0x0A"

definition cmd_name :: "u8 list \<Rightarrow> u8 list" where
  "cmd_name bs = takeWhile (\<lambda>b. \<not> is_sep b) bs"

definition cmd_args :: "u8 list \<Rightarrow> u8 list" where
  "cmd_args bs = drop (Suc (length (cmd_name bs))) bs"

lemma length_cmd_name: "length (cmd_name bs) \<le> length bs"
  by (simp add: cmd_name_def length_takeWhile_le)

lemma cmd_name_prefix: "i \<le> length (cmd_name bs) \<Longrightarrow> take i bs = take i (cmd_name bs)"
proof (rule nth_equalityI)
  assume i: "i \<le> length (cmd_name bs)"
  then show "length (take i bs) = length (take i (cmd_name bs))" using length_cmd_name [of bs] by simp
  fix j assume "j < length (take i bs)"
  then show "take i bs ! j = take i (cmd_name bs) ! j" using i by (simp add: cmd_name_def takeWhile_nth)
qed

lemma cmd_name_take: "take (length (cmd_name bs)) bs = cmd_name bs"
  using cmd_name_prefix [of "length (cmd_name bs)" bs] by simp

lemma cmd_name_sep:
  "length (cmd_name bs) < length bs \<Longrightarrow> is_sep (bs ! length (cmd_name bs))"
  using nth_length_takeWhile [of "\<lambda>b. \<not> is_sep b" bs] by (simp add: cmd_name_def)

lemma cmd_name_chars: "i < length (cmd_name bs) \<Longrightarrow> \<not> is_sep (bs ! i)"
  using nth_mem [of i "cmd_name bs"] set_takeWhileD [of _ "\<lambda>b. \<not> is_sep b" bs]
  by (metis cmd_name_def takeWhile_nth)

lemma cmd_name_nonzero: "0 \<notin> set bs \<Longrightarrow> 0 \<notin> set (cmd_name bs)"
  by (auto simp: cmd_name_def dest: set_takeWhileD)

lemma cmd_args_nonzero: "0 \<notin> set bs \<Longrightarrow> 0 \<notin> set (cmd_args bs)"
  by (auto simp: cmd_args_def dest: in_set_dropD)

text \<open>A name without separators and its arguments are recovered from the command.\<close>

lemma cmd_split:
  "list_all (\<lambda>b. \<not> is_sep b) name \<Longrightarrow> is_sep s \<Longrightarrow>
   cmd_name (name @ s # rest) = name \<and> cmd_args (name @ s # rest) = rest"
  by (simp add: cmd_name_def cmd_args_def list_all_iff takeWhile_append2)

section \<open>parse\<close>

lemma view_fields [simp]:
  "view (k\<lparr>space_seen := a\<rparr>) = view k" "view (k\<lparr>arg_index := b\<rparr>) = view k" "view (k\<lparr>args := c\<rparr>) = view k"
  "view (k\<lparr>open_processes := d, process_id := e\<rparr>) = view k"
  by (auto simp: view_def fun_eq_iff split: option.splits)

lemma store_take_Suc:
  "i < length bs \<Longrightarrow> (store_bytes m a (take i bs))(a + of_nat i := bs ! i) = store_bytes m a (take (Suc i) bs)"
  using store_bytes_snoc [of m a "take i bs" "bs ! i"] by (simp add: take_Suc_conv_app_nth)

lemma parse_loop_name:
  assumes str: "cstr m input bs" and len: "length bs < 2147483648"
    and disj: "disj_ranges output (Suc (length (cmd_name bs))) input (Suc (length bs))"
  shows "i \<le> length (cmd_name bs) \<Longrightarrow>
    parse_loop input output (of_nat (length bs)) (of_nat i) (store_bytes m output (take i bs), seen) =
      (store_bytes m output (cmd_name bs), seen \<or> length (cmd_name bs) < length bs, of_nat (length (cmd_name bs)))"
proof (induction "length (cmd_name bs) - i" arbitrary: i)
  case 0
  then have i: "i = length (cmd_name bs)" by simp
  define m' where "m' = store_bytes m output (cmd_name bs)"
  have "(of_nat i :: u32) <s of_nat (length bs) \<longleftrightarrow> i < length bs"
    using len length_cmd_name [of bs] by (simp add: sless_of_nat32 i)
  moreover have "m' (input + of_nat i) = bs ! i" if "i < length bs"
    using store_bytes_outside [OF disj, of i "cmd_name bs" m] that len length_cmd_name [of bs] cstr_nth [OF str that]
    by (simp add: m'_def)
  ultimately show ?case
    using cmd_name_sep [of bs] by (subst parse_loop.simps) (auto simp: i cmd_name_take m'_def [symmetric] is_sep_def)
next
  case (Suc d)
  then have lt: "i < length (cmd_name bs)" by simp
  then have ib: "i < length bs" using length_cmd_name [of bs] by simp
  have c: "(of_nat i :: u32) <s of_nat (length bs)" using ib len by (simp add: sless_of_nat32)
  define m' where "m' = store_bytes m output (take i bs)"
  have "m' (input + of_nat i) = bs ! i"
    using store_bytes_outside [OF disj, of i "take i bs" m] ib len lt cstr_nth [OF str ib] length_cmd_name [of bs]
    by (simp add: m'_def)
  moreover have "bs ! i \<noteq> 0x20" "bs ! i \<noteq> 0x0A" using cmd_name_chars [OF lt] by (simp_all add: is_sep_def)
  moreover have "m'(output + of_nat i := bs ! i) = store_bytes m output (take (Suc i) bs)"
    using store_take_Suc [OF ib] by (simp add: m'_def)
  moreover have "parse_loop input output (of_nat (length bs)) (of_nat (Suc i)) (store_bytes m output (take (Suc i) bs), seen)
      = (store_bytes m output (cmd_name bs), seen \<or> length (cmd_name bs) < length bs, of_nat (length (cmd_name bs)))"
    using Suc lt by (intro Suc.hyps(1)) simp_all
  ultimately show ?case
    using c unfolding m'_def [symmetric] by (subst parse_loop.simps) (simp add: add.commute)
qed

lemma parse_eq:
  assumes str: "cstr (view k) input bs" and len: "length bs < 2147483648" and ne: "bs \<noteq> []" "hd bs \<noteq> 0x20"
    and disj: "disj_ranges (str1 E) (Suc (length (cmd_name bs))) input (Suc (length bs))"
  shows "parse E input k = Some
    ((if length (cmd_name bs) < length bs
      then set_view (store_bytes (view k) (str1 E) (cmd_name bs @ [0])) k\<lparr>space_seen := 1\<rparr>
      else set_view (store_bytes (view k) (str1 E) (cmd_name bs @ [0])) k)
     \<lparr>arg_index := of_nat (length (cmd_name bs))\<rparr>, str1 E)"
proof -
  have "view k input \<noteq> 0x20" using cstr_nth [OF str, of 0] ne by (simp add: hd_conv_nth)
  moreover have "(of_nat (length bs) :: u32) \<noteq> 0"
    using of_nat_eq32 [of "length bs" 0] len ne(1) by simp
  ultimately show ?thesis
    using parse_loop_name [OF str len disj, of 0 False]
    by (simp add: parse_def strlen_cstr [OF str] Let_def store_bytes_snoc)
qed

section \<open>get_arg\<close>

lemma arg_loop_args:
  assumes str: "cstr m input bs" and len: "length bs < 2147483647"
    and disj: "disj_ranges dest (Suc (length (cmd_args bs))) input (Suc (length bs))"
    and n: "n = length (cmd_name bs)"
  shows "a \<le> length (cmd_args bs) \<Longrightarrow>
    arg_loop input dest (of_nat n) (of_nat (length bs)) (of_nat (n + 1 + a)) (of_nat a)
      (store_bytes m dest (take a (cmd_args bs)))
    = (store_bytes m dest (cmd_args bs), of_nat (length (cmd_args bs)))"
proof (induction "length (cmd_args bs) - a" arbitrary: a)
  case 0
  then have a: "a = length (cmd_args bs)" by simp
  have "\<not> (of_nat (n + 1 + a) :: u32) <s of_nat (length bs)"
    using len n length_cmd_name [of bs] by (subst sless_of_nat32) (simp_all add: a cmd_args_def)
  then show ?case by (subst arg_loop.simps) (simp add: a)
next
  case (Suc d)
  then have lt: "a < length (cmd_args bs)" by simp
  then have ib: "n + 1 + a < length bs" by (simp add: cmd_args_def n)
  have c: "(of_nat (n + 1 + a) :: u32) <s of_nat (length bs)" using ib len by (subst sless_of_nat32) simp_all
  define m' where "m' = store_bytes m dest (take a (cmd_args bs))"
  define j :: u32 where "j = of_nat (n + 1 + a)"
  have "m' (input + j) = cmd_args bs ! a"
    using store_bytes_outside [OF disj, of "n + 1 + a" "take a (cmd_args bs)" m] ib len lt cstr_nth [OF str ib] n
    by (simp add: m'_def j_def cmd_args_def)
  moreover have "dest + (j - of_nat n - 1) = dest + of_nat a" by (simp add: j_def)
  moreover have "m'(dest + of_nat a := cmd_args bs ! a) = store_bytes m dest (take (Suc a) (cmd_args bs))"
    using store_take_Suc [OF lt] by (simp add: m'_def)
  moreover have "arg_loop input dest (of_nat n) (of_nat (length bs)) (of_nat (n + 1 + Suc a)) (of_nat (Suc a))
      (store_bytes m dest (take (Suc a) (cmd_args bs)))
    = (store_bytes m dest (cmd_args bs), of_nat (length (cmd_args bs)))"
    using Suc lt by (intro Suc.hyps(1)) simp_all
  moreover have "j + 1 = of_nat (n + 1 + Suc a)" "(of_nat a + 1 :: u32) = of_nat (Suc a)" by (simp_all add: j_def)
  ultimately show ?case
    using c unfolding m'_def [symmetric] j_def [symmetric] by (subst arg_loop.simps) (simp add: ac_simps)
qed

lemma get_arg_eq:
  assumes str: "cstr (view k) input bs" and len: "length bs < 2147483647" and ne: "bs \<noteq> []" "hd bs \<noteq> 0x20"
    and disj: "disj_ranges (str2 E) (Suc (length (cmd_args bs))) input (Suc (length bs))"
    and idx: "arg_index k = of_nat (length (cmd_name bs))"
  shows "get_arg E input (of_nat (length bs)) k =
    set_view (store_bytes (view k) (str2 E) (cmd_args bs @ [0])) (k\<lparr>args := str2 E\<rparr>)"
proof -
  have "view k input \<noteq> 0x20" using cstr_nth [OF str, of 0] ne by (simp add: hd_conv_nth)
  then show ?thesis
    using arg_loop_args [OF str len disj refl, of 0]
    by (simp add: get_arg_def Let_def idx store_bytes_snoc add.commute)
qed

section \<open>getargs\<close>

lemma getargs_eq:
  assumes str: "cstr (view k) (args k) bs"
    and disj: "disj_ranges buf (max (unat n) (length bs)) (args k) (Suc (length bs))"
  shows "getargs buf n k =
    Some (set_view (store_bytes (view k) buf (bs @ replicate (unat n - length bs) 0)) k, 0)"
proof -
  have len: "length bs < 4294967296" by (rule cstr_length [OF str])
  define m where "m = memset (view k) buf 0 n"
  have m: "m x = (if in_range buf (unat n) x then 0 else view k x)" for x
    by (simp add: m_def memset_fill fill_apply less_imp_le)
  have u: "unat (of_nat (length bs) :: u32) = length bs" using len by (rule unat_of_nat32)
  have d: "disj_ranges buf (length bs) (args k) (length bs)"
    by (rule disj_ranges_sub [OF disj]) simp_all
  have src: "load_bytes m (args k) (length bs) = bs"
  proof -
    have "m x = view k x" if "in_range (args k) (length bs) x" for x
    proof -
      have "in_range (args k) (Suc (length bs)) x" using that by (rule in_range_mono) simp
      then have "\<not> in_range buf (max (unat n) (length bs)) x" using disj_rangesD2 [OF disj] by blast
      then have "\<not> in_range buf (unat n) x" using in_range_mono [of buf "unat n" x] by auto
      then show ?thesis by (simp add: m)
    qed
    then have "load_bytes m (args k) (length bs) = load_bytes (view k) (args k) (length bs)"
      using len by (intro load_bytes_cong) simp_all
    then show ?thesis using str by (simp add: cstr_def)
  qed
  have "memcpy m buf (args k) (of_nat (length bs)) = store_bytes m buf bs"
    using memcpy.copy_store_bytes [of buf "of_nat (length bs)" "args k" m] d u src by simp
  moreover have "store_bytes m buf bs = store_bytes (view k) buf (bs @ replicate (unat n - length bs) 0)"
  proof
    fix x
    have "length (bs @ replicate (unat n - length bs) 0) \<le> 4294967296"
      using len unat_lt32 [of n] unfolding length_append length_replicate by linarith
    then show "store_bytes m buf bs x = store_bytes (view k) buf (bs @ replicate (unat n - length bs) 0) x"
      using len by (auto simp: store_bytes_apply m in_range_def nth_append)
  qed
  ultimately have "memcpy m buf (args k) (of_nat (length bs))
      = store_bytes (view k) buf (bs @ replicate (unat n - length bs) 0)" by (rule trans)
  moreover have "set_view b (set_view a k) = set_view b k" for a b
    by (auto simp: set_view_def fun_eq_iff split: option.splits)
  ultimately show ?thesis by (simp add: getargs_def strlen_cstr [OF str] Let_def m_def)
qed

section \<open>Writing kernel memory\<close>

text \<open>A range the program page does not meet: a write there is the same under every directory.\<close>

definition kernel_only :: "u32 \<Rightarrow> nat \<Rightarrow> bool" where
  "kernel_only a n \<longleftrightarrow> disj_ranges a n 0x08000000 0x400000"

lemma user_page_range: "user_page x \<longleftrightarrow> in_range 0x08000000 0x400000 x"
proof -
  have "x < 0x08400000 \<longleftrightarrow> x - 0x08000000 < 0x400000" if "0x08000000 \<le> x"
  proof -
    have "unat (x - 0x08000000) = unat x - 0x08000000" using that by (simp add: unat_sub)
    then show ?thesis using that by (simp add: word_less_nat_alt word_le_nat_alt) arith
  qed
  moreover have "\<not> x - 0x08000000 < 0x400000" if "x < 0x08000000"
  proof -
    have "unat (x - 0x08000000) = 4294967296 - 0x08000000 + unat x"
      using that by (simp add: unat_sub_if' word_less_nat_alt)
    then show ?thesis by (simp add: word_less_nat_alt)
  qed
  ultimately show ?thesis
    unfolding user_page_def in_range_def by (auto simp: word_less_nat_alt not_le [symmetric] word_le_nat_alt)
qed

lemma kernel_onlyD: "kernel_only a n \<Longrightarrow> in_range a n x \<Longrightarrow> \<not> user_page x"
  using disj_rangesD by (auto simp: kernel_only_def user_page_range)

lemma set_view_kernel:
  assumes "kernel_only a (length bs)" and "length bs \<le> 4294967296"
  shows "set_view (store_bytes (view k) a bs) k = k\<lparr>kmem := store_bytes (kmem k) a bs\<rparr>"
proof (cases "cr3 (pg k)")
  case None
  then show ?thesis by (simp add: set_view_def view_def)
next
  case (Some d)
  have "(\<lambda>x. if user_page x then kmem k x else store_bytes (view k) a bs x) = store_bytes (kmem k) a bs"
    using kernel_onlyD [OF assms(1)] assms(2) Some by (auto simp: store_bytes_apply view_def fun_eq_iff)
  moreover have "(\<lambda>x. if user_page x then store_bytes (view k) a bs x else upage k d x) = upage k d"
    using kernel_onlyD [OF assms(1)] assms(2) Some by (auto simp: store_bytes_apply view_def fun_eq_iff)
  ultimately show ?thesis using Some by (simp add: set_view_def)
qed

lemma set_view_upage:
  "kernel_only a (length bs) \<Longrightarrow> length bs \<le> 4294967296 \<Longrightarrow> view k' = view k \<Longrightarrow> cr3 (pg k') = cr3 (pg k) \<Longrightarrow>
   upage k' = upage k \<Longrightarrow> upage (set_view (store_bytes (view k) a bs) k') = upage k"
  using set_view_kernel [of a bs k'] by simp

section \<open>Both halves together\<close>

lemma command_parsed:
  assumes str: "cstr (view k) command bs" and ne: "bs \<noteq> []" "hd bs \<noteq> 0x20" and len: "length bs < 2147483647"
    and d1: "disj_ranges (str1 E) (Suc (length (cmd_name bs))) command (Suc (length bs))"
    and d2: "disj_ranges (str2 E) (Suc (length (cmd_args bs))) command (Suc (length bs))"
    and d12: "disj_ranges (str1 E) (Suc (length (cmd_name bs))) (str2 E) (Suc (length (cmd_args bs)))"
  defines "M \<equiv> store_bytes (store_bytes (view k) (str1 E) (cmd_name bs @ [0])) (str2 E) (cmd_args bs @ [0])"
  shows "\<exists>k1 k2. parse E command k = Some (k1, str1 E) \<and> strlen (view k1) command = Some (of_nat (length bs))
    \<and> get_arg E command (of_nat (length bs)) k1 = k2 \<and> view k2 = M \<and> args k2 = str2 E
    \<and> cstr M (str1 E) (cmd_name bs) \<and> cstr M (str2 E) (cmd_args bs)
    \<and> (kernel_only (str1 E) (Suc (length (cmd_name bs))) \<longrightarrow> kernel_only (str2 E) (Suc (length (cmd_args bs))) \<longrightarrow>
       upage k2 = upage k)"
proof -
  have nz: "0 \<notin> set (cmd_name bs)" "0 \<notin> set (cmd_args bs)"
    using str cmd_name_nonzero cmd_args_nonzero by (auto simp: cstr_def)
  have l: "length (cmd_name bs) < 4294967295" "length (cmd_args bs) < 4294967295"
    using len length_cmd_name [of bs] by (simp_all add: cmd_args_def)
  define M1 where "M1 = store_bytes (view k) (str1 E) (cmd_name bs @ [0])"
  define k0 where "k0 = set_view M1 k"
  obtain k1 where k1: "parse E command k = Some (k1, str1 E)" "view k1 = M1" "arg_index k1 = of_nat (length (cmd_name bs))"
    "upage k1 = upage k0" "cr3 (pg k1) = cr3 (pg k)"
    using parse_eq [OF str _ ne d1] len by (cases "length (cmd_name bs) < length bs") (auto simp: M1_def k0_def)
  have str1: "cstr M1 command bs"
  proof (rule cstr_cong [OF str])
    fix x assume "in_range command (Suc (length bs)) x"
    then have "\<not> in_range (str1 E) (Suc (length (cmd_name bs))) x" using disj_rangesD2 [OF d1] by blast
    then show "M1 x = view k x" using l(1) by (simp add: M1_def store_bytes_apply)
  qed
  have k2: "get_arg E command (of_nat (length bs)) k1 = set_view M (k1\<lparr>args := str2 E\<rparr>)"
    using get_arg_eq [of k1 command bs E] str1 len ne d2 k1(2,3) by (simp add: M_def M1_def)
  have "cstr M1 (str1 E) (cmd_name bs)"
    unfolding M1_def using nz l by (intro cstr_store_bytes) simp_all
  then have c1: "cstr M (str1 E) (cmd_name bs)"
  proof (rule cstr_cong)
    fix x assume "in_range (str1 E) (Suc (length (cmd_name bs))) x"
    then have "\<not> in_range (str2 E) (Suc (length (cmd_args bs))) x" using disj_rangesD [OF d12] by blast
    then show "M x = M1 x" using l(2) by (simp add: M_def M1_def store_bytes_apply)
  qed
  have c2: "cstr M (str2 E) (cmd_args bs)"
    unfolding M_def using nz l by (intro cstr_store_bytes) simp_all
  have u1: "upage k1 = upage k" if "kernel_only (str1 E) (Suc (length (cmd_name bs)))"
    using that set_view_upage [of "str1 E" "cmd_name bs @ [0]" k k] l k1(4) by (simp add: k0_def M1_def)
  have u2: "upage (set_view M (k1\<lparr>args := str2 E\<rparr>)) = upage k1" if "kernel_only (str2 E) (Suc (length (cmd_args bs)))"
    using that set_view_upage [of "str2 E" "cmd_args bs @ [0]" "k1\<lparr>args := str2 E\<rparr>" k1] l k1(2) by (simp add: M_def M1_def)
  show ?thesis
    by (rule exI [of _ k1], rule exI [of _ "set_view M (k1\<lparr>args := str2 E\<rparr>)"])
      (use k1(1,2) k2 c1 c2 strlen_cstr [OF str1] u1 u2 in auto)
qed

section \<open>Properties\<close>

text \<open>
  C15. A command line reaches the program. For a command that is a name, a separator and a rest,
  \<open>parse\<close> returns the name as a string, \<open>get_arg\<close> keeps the rest, and \<open>getargs\<close> copies the rest into the
  program's buffer, as a string when the buffer is larger than it. \<open>getargs\<close> does not look at the size:
  a longer rest runs past the buffer.
\<close>

theorem command_line_spec:
  assumes "cstr (view k) command (name @ s # rest)" and "name \<noteq> []" and "list_all (\<lambda>b. \<not> is_sep b) name" and "is_sep s"
    and "length (name @ s # rest) < 2147483647"
    and "disj_ranges (str1 E) (Suc (length name)) command (Suc (length (name @ s # rest)))"
    and "disj_ranges (str2 E) (Suc (length rest)) command (Suc (length (name @ s # rest)))"
    and "disj_ranges (str1 E) (Suc (length name)) (str2 E) (Suc (length rest))"
  shows "\<exists>k1 k2. parse E command k = Some (k1, str1 E)
    \<and> get_arg E command (of_nat (length (name @ s # rest))) k1 = k2
    \<and> cstr (view k2) (str1 E) name \<and> cstr (view k2) (args k2) rest
    \<and> (\<forall>buf n. disj_ranges buf (max (unat n) (length rest)) (args k2) (Suc (length rest)) \<longrightarrow>
         (\<exists>k3. getargs buf n k2 = Some (k3, 0)
            \<and> view k3 = store_bytes (view k2) buf (rest @ replicate (unat n - length rest) 0)
            \<and> (length rest < unat n \<longrightarrow> cstr (view k3) buf rest)))"
proof -
  define bs where "bs = name @ s # rest"
  have sp: "cmd_name bs = name" "cmd_args bs = rest" using cmd_split [OF assms(3,4)] by (simp_all add: bs_def)
  have ne: "bs \<noteq> []" "hd bs \<noteq> 0x20" using assms(2,3) by (auto simp: bs_def hd_append is_sep_def list_all_iff)
  have nz: "0 \<notin> set bs" using assms(1) by (simp add: cstr_def bs_def)
  have len: "length name < 4294967296" "length rest < 4294967296" using assms(5) by simp_all
  obtain k1 k2 where k12: "parse E command k = Some (k1, str1 E)" "get_arg E command (of_nat (length bs)) k1 = k2"
    "args k2 = str2 E" "cstr (view k2) (str1 E) name" "cstr (view k2) (str2 E) rest"
    using command_parsed [of k command bs E] assms(1,5-) ne by (auto simp: sp bs_def [symmetric])
  have "\<exists>k3. getargs buf n k2 = Some (k3, 0)
      \<and> view k3 = store_bytes (view k2) buf (rest @ replicate (unat n - length rest) 0)
      \<and> (length rest < unat n \<longrightarrow> cstr (view k3) buf rest)"
    if "disj_ranges buf (max (unat n) (length rest)) (args k2) (Suc (length rest))" for buf n
  proof -
    have l: "length (rest @ replicate (unat n - length rest) 0) \<le> 4294967296"
      using len(2) unat_lt32 [of n] unfolding length_append length_replicate by linarith
    have "cstr (store_bytes (view k2) buf (rest @ replicate (unat n - length rest) 0)) buf rest" if "length rest < unat n"
      using that l nz len(2)
      by (auto simp: cstr_iff store_bytes_apply in_range_offset nth_append unat_of_nat32 bs_def)
    then show ?thesis using getargs_eq [of k2 rest buf n] k12(3,5) that by simp
  qed
  then show ?thesis using k12 unfolding bs_def by (intro exI conjI) auto
qed

definition args_kernel :: kernel where
  "args_kernel = shell_kernel\<lparr>kmem := (\<lambda>_. 0)(0x300 := 0x61, 0x301 := 0x20, 0x302 := 0x78)\<rparr>"

lemma args_kernel_view: "view args_kernel = (\<lambda>_. 0)(0x300 := 0x61, 0x301 := 0x20, 0x302 := 0x78)"
  by (auto simp: view_def args_kernel_def shell_kernel_def sample_kernel_def user_page_def fun_eq_iff)

theorem command_line_spec_witness:
  "\<exists>k1 k2. parse sample_env 0x300 args_kernel = Some (k1, 0x20000) \<and> get_arg sample_env 0x300 3 k1 = k2
     \<and> cstr (view k2) 0x20000 [0x61] \<and> cstr (view k2) (args k2) [0x78]"
proof -
  have "cstr (view args_kernel) 0x300 ([0x61] @ 0x20 # [0x78])"
    by (simp add: args_kernel_view cstr_def load_bytes_Suc)
  from command_line_spec [OF this, of sample_env] show ?thesis
    by (auto simp: is_sep_def sample_env_def disj_ranges_def)
qed

end
