(* ===== verification/ExecuteSpec.thy ===== *)
theory ExecuteSpec
  imports CommandLine
begin

text \<open>
  What \<open>execute\<close> does to memory: it finds the program the command names, reads its entry address,
  loads its image into the page of the new process and keeps the arguments, leaving the pages of the
  other processes alone. With \<open>ProcessSpec\<close> this is the whole effect of a successful \<open>execute\<close>.
  Then the ways it fails.
\<close>

section \<open>The directory in a changed memory\<close>

lemma dir_entry_in_image:
  assumes "image_wf m fs" and "unat i < unat (num_dir_entries m fs)" and "j < 64"
  shows "in_image m fs (dir_entry fs i + of_nat j)"
proof -
  have "unat i < 63" using assms(1,2) by (simp add: image_wf_def)
  moreover have "dir_entry fs i + of_nat j = boot_block fs + of_nat (64 + 64 * unat i + j)"
    by (simp add: dir_entry_def)
  ultimately show ?thesis using boot_in_image [OF assms(1), of "64 + 64 * unat i + j"] assms(3) by (simp add: add.assoc)
qed

lemma same_image_bytes:
  assumes "image_wf m fs" and "same_image fs m m'" and "unat i < unat (num_dir_entries m fs)" and "a + n \<le> 64"
  shows "load_bytes m' (dir_entry fs i + of_nat a) n = load_bytes m (dir_entry fs i + of_nat a) n"
proof (rule nth_equalityI)
  fix j assume "j < length (load_bytes m' (dir_entry fs i + of_nat a) n)"
  then have "in_image m fs (dir_entry fs i + of_nat (a + j))" "j < n"
    using dir_entry_in_image [OF assms(1,3), of "a + j"] assms(4) by simp_all
  then show "load_bytes m' (dir_entry fs i + of_nat a) n ! j = load_bytes m (dir_entry fs i + of_nat a) n ! j"
    using assms(2) by (simp add: same_image_def add.assoc)
qed simp

lemma same_image_cprefix:
  assumes "image_wf m fs" and "same_image fs m m'" and "unat i < unat (num_dir_entries m fs)" and "n \<le> 64"
  shows "cprefix m' (dir_entry fs i) n = cprefix m (dir_entry fs i) n"
  using same_image_bytes [OF assms(1-3), of 0 n] assms(4) by (simp add: cprefix_def)

lemma same_image_entry32:
  assumes "image_wf m fs" and "same_image fs m m'" and "unat i < unat (num_dir_entries m fs)" and "a + 4 \<le> 64"
  shows "load32 m' (dir_entry fs i + of_nat a) = load32 m (dir_entry fs i + of_nat a)"
proof (rule same_image_load32 [OF assms(2)])
  fix j :: nat assume "j < 4"
  then show "in_image m fs (dir_entry fs i + of_nat a + of_nat j)"
    using dir_entry_in_image [OF assms(1,3), of "a + j"] assms(4) by (simp add: add.assoc)
qed

lemma same_image_dentry:
  assumes "image_wf m fs" and "same_image fs m m'" and "unat i < unat (num_dir_entries m fs)"
  shows "copy_dentry m' (dir_entry fs i) = copy_dentry m (dir_entry fs i)"
  using same_image_cprefix [OF assms, of 32] same_image_entry32 [OF assms, of 32] same_image_entry32 [OF assms, of 36]
    same_image_bytes [OF assms, of 40 24]
  by (simp add: copy_dentry_def strncpy_bytes_def)

lemma find_cong_set: "(\<And>x. x \<in> set xs \<Longrightarrow> P x = Q x) \<Longrightarrow> find P xs = find Q xs"
  by (induction xs) auto

lemma same_image_dir_index:
  assumes "image_wf m fs" and "same_image fs m m'"
  shows "dir_index m' fs name = dir_index m fs name"
  unfolding dir_index_def same_image_header(1) [OF assms]
proof (rule find_cong_set)
  fix i assume "i \<in> set (map of_nat [0..<unat (num_dir_entries m fs)] :: u32 list)"
  then obtain j where "i = of_nat j" "j < unat (num_dir_entries m fs)" by auto
  then have "unat i < unat (num_dir_entries m fs)" using unat_lt32 [of "num_dir_entries m fs"] by (simp add: unat_of_nat32 del: unat_lt32)
  then show "(key_name m' (dir_entry fs i) = name) = (key_name m (dir_entry fs i) = name)"
    using same_image_cprefix [OF assms, of i 31] by (simp add: key_name_def)
qed

lemma find_in: "find P xs = Some x \<Longrightarrow> x \<in> set xs"
  by (induction xs) (auto split: if_split_asm)

lemma dir_index_less: "dir_index m fs name = Some i \<Longrightarrow> unat i < unat (num_dir_entries m fs)"
  using unat_lt32 [of "num_dir_entries m fs"]
  by (auto simp: dir_index_def unat_of_nat32 simp del: unat_lt32 dest!: find_in)

section \<open>Finding the program\<close>

definition exec_regions :: "env \<Rightarrow> u8 list \<Rightarrow> (u32 \<times> nat) list" where
  "exec_regions E bs = [(str1 E, Suc (length (cmd_name bs))), (str2 E, Suc (length (cmd_args bs))),
     (elf_check E, 4), (buf_temp E, 4)]"

text \<open>
  The kernel's strings, local arrays and file system image lie in kernel memory and apart, and the
  command apart from the two strings.
\<close>

definition exec_layout :: "env \<Rightarrow> kernel \<Rightarrow> u32 \<Rightarrow> u8 list \<Rightarrow> bool" where
  "exec_layout E k command bs \<longleftrightarrow> str1 E \<noteq> NULL
     \<and> list_all (\<lambda>(a, n). kernel_only a n \<and> disj_ranges a n (boot_block (fsys k)) (image_size (view k) (fsys k))) (exec_regions E bs)
     \<and> kernel_only (boot_block (fsys k)) (image_size (view k) (fsys k))
     \<and> disj_ranges (str1 E) (Suc (length (cmd_name bs))) command (Suc (length bs))
     \<and> disj_ranges (str2 E) (Suc (length (cmd_args bs))) command (Suc (length bs))
     \<and> disj_ranges (str1 E) (Suc (length (cmd_name bs))) (str2 E) (Suc (length (cmd_args bs)))
     \<and> list_all (\<lambda>a. disj_ranges a 4 (str1 E) (Suc (length (cmd_name bs))) \<and> disj_ranges a 4 (str2 E) (Suc (length (cmd_args bs))))
         [elf_check E, buf_temp E]"

definition command_ok :: "env \<Rightarrow> kernel \<Rightarrow> u32 \<Rightarrow> u8 list \<Rightarrow> bool" where
  "command_ok E k command bs \<longleftrightarrow> cstr (view k) command bs \<and> bs \<noteq> [] \<and> hd bs \<noteq> 0x20
     \<and> length bs < 2147483647 \<and> exec_layout E k command bs \<and> image_wf (view k) (fsys k)"

lemma same_image_trans: "image_wf m fs \<Longrightarrow> same_image fs m m' \<Longrightarrow> same_image fs m' m'' \<Longrightarrow> same_image fs m m''"
  using same_image_size [of m fs m'] by (simp add: same_image_def)

lemma exec_prefix:
  assumes "command_ok E k command bs" and "free_slot (open_processes k) < 7"
  shows "\<exists>k1 k3. parse E command k = Some (k1, str1 E) \<and> strlen (view k1) command = Some (of_nat (length bs))
    \<and> alloc_loop 0 MASK (get_arg E command (of_nat (length bs)) k1) = (free_slot (open_processes k), k3)
    \<and> core k3 = core k \<and> upage k3 = upage k \<and> args k3 = str2 E \<and> open_processes k3 = taken (open_processes k)
    \<and> process_id k3 = of_nat (free_slot (open_processes k)) \<and> same_image (fsys k) (view k) (view k3)
    \<and> cstr (view k3) (str1 E) (cmd_name bs) \<and> cstr (view k3) (str2 E) (cmd_args bs)"
proof -
  have ok: "cstr (view k) command bs" "bs \<noteq> []" "hd bs \<noteq> 0x20" "length bs < 2147483647" "exec_layout E k command bs"
    "image_wf (view k) (fsys k)"
    using assms(1) by (simp_all add: command_ok_def)
  have lay: "disj_ranges (str1 E) (Suc (length (cmd_name bs))) command (Suc (length bs))"
    "disj_ranges (str2 E) (Suc (length (cmd_args bs))) command (Suc (length bs))"
    "disj_ranges (str1 E) (Suc (length (cmd_name bs))) (str2 E) (Suc (length (cmd_args bs)))"
    "kernel_only (str1 E) (Suc (length (cmd_name bs)))" "kernel_only (str2 E) (Suc (length (cmd_args bs)))"
    "disj_ranges (str1 E) (Suc (length (cmd_name bs))) (boot_block (fsys k)) (image_size (view k) (fsys k))"
    "disj_ranges (str2 E) (Suc (length (cmd_args bs))) (boot_block (fsys k)) (image_size (view k) (fsys k))"
    using ok(5) by (simp_all add: exec_layout_def exec_regions_def)
  define M1 where "M1 = store_bytes (view k) (str1 E) (cmd_name bs @ [0])"
  define M where "M = store_bytes M1 (str2 E) (cmd_args bs @ [0])"
  obtain k1 k2 where k12: "parse E command k = Some (k1, str1 E)" "strlen (view k1) command = Some (of_nat (length bs))"
    "get_arg E command (of_nat (length bs)) k1 = k2" "view k2 = M" "args k2 = str2 E"
    "cstr M (str1 E) (cmd_name bs)" "cstr M (str2 E) (cmd_args bs)" "upage k2 = upage k"
    using command_parsed [OF ok(1-4) lay(1-3)] lay(4,5) by (auto simp: M_def M1_def)
  have kept: "core k2 = core k" "open_processes k2 = open_processes k"
    using parse_keeps [OF k12(1)] get_arg_keeps k12(3) by metis+
  have l: "length (cmd_name bs @ [0]) \<le> 4294967296" "length (cmd_args bs @ [0]) \<le> 4294967296"
    using ok(4) length_cmd_name [of bs] by (simp_all add: cmd_args_def)
  have s1: "same_image (fsys k) (view k) M1"
    unfolding M1_def by (rule same_image_store) (use lay(6) l in simp_all)
  have "same_image (fsys k) M1 M"
    unfolding M_def by (rule same_image_store) (use lay(7) l same_image_size [OF ok(6) s1] in simp_all)
  then have s: "same_image (fsys k) (view k) M" using same_image_trans [OF ok(6) s1] by blast
  show ?thesis
    by (rule exI [of _ k1], rule exI [of _ "snd (alloc_loop 0 MASK k2)"])
      (use k12 kept assms(2) s in \<open>auto simp: alloc_loop_eq taken_def\<close>)
qed

text \<open>What makes a file a program, and where it starts.\<close>

definition bytes32 :: "u8 list \<Rightarrow> u32" where
  "bytes32 bs = ucast (bs ! 0) OR push_bit 8 (ucast (bs ! 1)) OR push_bit 16 (ucast (bs ! 2)) OR push_bit 24 (ucast (bs ! 3))"

definition is_program :: "u8 list \<Rightarrow> bool" where
  "is_program c \<longleftrightarrow> 28 \<le> length c \<and> take 4 c = [0x7F, 0x45, 0x4C, 0x46]"

definition entry_of :: "u8 list \<Rightarrow> u32" where
  "entry_of c = bytes32 (take 4 (drop 24 c))"

lemma store_four:
  assumes "length bs = 4"
  shows "store_bytes m a bs a = bs ! 0" "store_bytes m a bs (a + 1) = bs ! 1"
    "store_bytes m a bs (a + 2) = bs ! 2" "store_bytes m a bs (a + 3) = bs ! 3"
  using assms by (simp_all add: store_bytes_apply in_range_def)

lemma load32_store: "length bs = 4 \<Longrightarrow> load32 (store_bytes m a bs) a = bytes32 bs"
  by (simp add: load32_def bytes32_def store_four)

lemma read_slice:
  assumes "image_wf m0 fs" and "same_image fs m0 m" and "inode_wf m0 fs ino" and "off + n \<le> file_size m0 fs ino"
    and "disj_ranges a n (boot_block fs) (image_size m0 fs)"
  shows "read_data m fs ino (of_nat off) a (of_nat n) =
      Some (store_bytes m a (take n (drop off (file_content m0 fs ino))), of_nat n)"
    and "same_image fs m0 (store_bytes m a (take n (drop off (file_content m0 fs ino))))"
proof -
  have le: "off + n \<le> 4190208" using assms(4) file_size_le [OF assms(3)] by simp
  then have u: "unat (of_nat off :: u32) = off" "unat (of_nat n :: u32) = n" by (simp_all add: unat_of_nat32)
  note same = same_image_wf [OF assms(1,2)] same_image_inode_wf [OF assms(1-3)] same_image_content [OF assms(1-3)]
    same_image_size [OF assms(1,2)]
  have len: "length (take n (drop off (file_content m0 fs ino))) = n" using assms(4) by simp
  show "read_data m fs ino (of_nat off) a (of_nat n) =
      Some (store_bytes m a (take n (drop off (file_content m0 fs ino))), of_nat n)"
    using read_data_slice [OF same(1,2) _ _ refl, of "of_nat off" "of_nat n" a] assms(4,5) le len
    by (simp add: u same(3,4) file_slice_def)
  have "same_image fs m (store_bytes m a (take n (drop off (file_content m0 fs ino))))"
    by (rule same_image_store) (use assms(5) same(4) len le in simp_all)
  then show "same_image fs m0 (store_bytes m a (take n (drop off (file_content m0 fs ino))))"
    using same_image_trans [OF assms(1,2)] by blast
qed

lemma core_fields: "core k' = core k \<Longrightarrow> fsys k' = fsys k \<and> pg k' = pg k \<and> curr_process k' = curr_process k"
  by (simp add: core_def)

lemma exec_lookup:
  assumes "image_wf m0 fs" and "same_image fs m0 m" and "cstr m fname name" and "fname \<noteq> NULL"
    and "dir_index m0 fs (take 31 name) = Some j"
  shows "read_dentry_by_name m fs fname (Some d) = Some (RET_SUCCESS, Some (copy_dentry m0 (dir_entry fs j)))"
proof -
  have "key_name m fname = take 31 name" using cprefix_cstr [OF assms(3)] by (simp add: key_name_def)
  then show ?thesis
    using read_dentry_by_name_find [OF assms(3,4), of fs d] assms(5) same_image_dir_index [OF assms(1,2)]
      same_image_dentry [OF assms(1,2) dir_index_less [OF assms(5)]]
    by simp
qed

lemma execute_check_found:
  assumes ok: "command_ok E k command bs" and slot: "free_slot (open_processes k) < 7"
    and found: "dir_index (view k) (fsys k) (take 31 (cmd_name bs)) = Some j"
    and ino: "ino = inode_num (copy_dentry (view k) (dir_entry (fsys k) j))" "inode_wf (view k) (fsys k) ino"
    and prog: "c = file_content (view k) (fsys k) ino" "is_program c"
  shows "\<exists>k5. execute_check E command k = Some (Inr (k5, str1 E, entry_of c)) \<and> core k5 = core k \<and> upage k5 = upage k
    \<and> args k5 = str2 E \<and> open_processes k5 = taken (open_processes k) \<and> process_id k5 = of_nat (free_slot (open_processes k))
    \<and> same_image (fsys k) (view k) (view k5)
    \<and> cstr (view k5) (str1 E) (cmd_name bs) \<and> cstr (view k5) (str2 E) (cmd_args bs)"
proof -
  define m0 where "m0 = view k"
  define fs where "fs = fsys k"
  have wf: "image_wf m0 fs" using ok by (simp add: command_ok_def m0_def fs_def)
  have lay: "str1 E \<noteq> NULL" "kernel_only (elf_check E) 4" "kernel_only (buf_temp E) 4"
    "disj_ranges (elf_check E) 4 (boot_block fs) (image_size m0 fs)" "disj_ranges (buf_temp E) 4 (boot_block fs) (image_size m0 fs)"
    "disj_ranges (elf_check E) 4 (str1 E) (Suc (length (cmd_name bs)))" "disj_ranges (elf_check E) 4 (str2 E) (Suc (length (cmd_args bs)))"
    "disj_ranges (buf_temp E) 4 (str1 E) (Suc (length (cmd_name bs)))" "disj_ranges (buf_temp E) 4 (str2 E) (Suc (length (cmd_args bs)))"
    using ok by (simp_all add: command_ok_def exec_layout_def exec_regions_def m0_def fs_def)
  obtain k1 k3 where k3: "parse E command k = Some (k1, str1 E)" "strlen (view k1) command = Some (of_nat (length bs))"
    "alloc_loop 0 MASK (get_arg E command (of_nat (length bs)) k1) = (free_slot (open_processes k), k3)"
    "core k3 = core k" "upage k3 = upage k" "args k3 = str2 E" "open_processes k3 = taken (open_processes k)"
    "process_id k3 = of_nat (free_slot (open_processes k))" "same_image fs m0 (view k3)"
    "cstr (view k3) (str1 E) (cmd_name bs)" "cstr (view k3) (str2 E) (cmd_args bs)"
    using exec_prefix [OF ok slot] by (auto simp: m0_def fs_def)
  have c: "28 \<le> length c" "length c = file_size m0 fs ino" "take 4 c = [0x7F, 0x45, 0x4C, 0x46]"
    using prog by (simp_all add: is_program_def m0_def fs_def)
  have wfi: "inode_wf m0 fs ino" using ino(2) by (simp add: m0_def fs_def)
  define m4 where "m4 = store_bytes (view k3) (elf_check E) (take 4 c)"
  define m5 where "m5 = store_bytes m4 (buf_temp E) (take 4 (drop 24 c))"
  have r1: "read_data (view k3) fs ino 0 (elf_check E) 4 = Some (m4, 4)" "same_image fs m0 m4"
    using read_slice [OF wf k3(9) wfi, of 0 4 "elf_check E"] lay(4) c prog(1) by (simp_all add: m4_def m0_def fs_def)
  have r2: "read_data m4 fs ino 24 (buf_temp E) 4 = Some (m5, 4)" "same_image fs m0 m5"
    using read_slice [OF wf r1(2) wfi, of 24 4 "buf_temp E"] lay(5) c prog(1) by (simp_all add: m5_def m0_def fs_def)
  have magic: "m4 (elf_check E) = 0x7F" "m4 (elf_check E + 1) = 0x45" "m4 (elf_check E + 2) = 0x4C" "m4 (elf_check E + 3) = 0x46"
    using c(1,3) store_four [of "take 4 c" "view k3" "elf_check E"] by (simp_all add: m4_def)
  have entry: "load32 m5 (buf_temp E) = entry_of c"
    using c(1) by (simp add: m5_def load32_store entry_of_def)
  have frame: "m5 x = view k3 x" if "in_range a n x" "disj_ranges (elf_check E) 4 a n" "disj_ranges (buf_temp E) 4 a n" for a n x
    using that c(1) disj_rangesD2 [of "elf_check E" 4 a n x] disj_rangesD2 [of "buf_temp E" 4 a n x]
    by (simp add: m5_def m4_def store_bytes_apply)
  have strs: "cstr m5 (str1 E) (cmd_name bs)" "cstr m5 (str2 E) (cmd_args bs)"
    by (rule cstr_cong [OF k3(10)], erule frame [OF _ lay(6,8)]) (rule cstr_cong [OF k3(11)], erule frame [OF _ lay(7,9)])
  define k5 where "k5 = set_view m5 (set_view m4 k3)"
  have up: "upage k5 = upage k"
    using set_view_upage [of "elf_check E" "take 4 c" k3 k3] set_view_upage [of "buf_temp E" "take 4 (drop 24 c)" "set_view m4 k3" "set_view m4 k3"]
      lay(2,3) c(1) k3(5) by (simp add: k5_def m5_def m4_def)
  have lookup: "read_dentry_by_name (view k3) fs (str1 E) (Some (stack_dentry E)) = Some (0, Some (copy_dentry m0 (dir_entry fs j)))"
    using exec_lookup [OF wf k3(9,10) lay(1)] found by (simp add: m0_def fs_def)
  have "execute_check E command k = Some (Inr (k5, str1 E, entry_of c))"
    using k3(1-3) slot core_fields [OF k3(4)] lookup r1(1) r2(1) magic entry
    by (simp add: execute_check_def Let_def fs_def [symmetric] m0_def [symmetric] ino(1) [folded m0_def fs_def, symmetric] k5_def)
  then show ?thesis
    using k3 up strs r2(2) by (intro exI [of _ k5]) (simp add: k5_def m0_def fs_def)
qed

section \<open>Loading it\<close>

lemma view_new_page:
  "cr3 (pg k') = Some i \<Longrightarrow> upage k' = upage k \<Longrightarrow> kmem k' = kmem k \<Longrightarrow>
   view k' x = (if user_page x then upage k i x else view k x)"
  by (auto simp: view_def split: option.splits)

lemma program_page_size: "n \<le> 0x3B8000 \<Longrightarrow> in_range PGRM_IMG n x \<Longrightarrow> user_page x"
  unfolding user_page_range by (rule in_range_sub [of PGRM_IMG]) (simp_all add: in_range_def)

text \<open>\<open>execute\<close> up to the call of \<open>program_load\<close>, which sees the new page.\<close>

lemma execute_page:
  assumes ok: "command_ok E k command bs" and slot: "free_slot (open_processes k) < 7"
    and found: "dir_index (view k) (fsys k) (take 31 (cmd_name bs)) = Some j"
    and dentry: "d = copy_dentry (view k) (dir_entry (fsys k) j)" "inode_wf (view k) (fsys k) (inode_num d)"
    and prog: "c = file_content (view k) (fsys k) (inode_num d)" "is_program c"
  defines "i \<equiv> free_slot (open_processes k)"
  shows "\<exists>kp. execute E command k = (case program_load (view kp) (fsys k) (stack_dentry E) (str1 E) PGRM_IMG of
        None \<Rightarrow> None
      | Some (m, r) \<Rightarrow> if r = - 1 then Some (set_view m kp, Return (- 1))
          else Some (execute_start E (curr_process k) (Some i) (set_view m kp), Userspace (entry_of c)))
    \<and> pcbs kp = pcbs k \<and> curr_process kp = curr_process k \<and> cr3 (pg kp) = Some i \<and> upage kp = upage k
    \<and> args kp = str2 E \<and> fsys kp = fsys k \<and> same_image (fsys k) (view k) (view kp)
    \<and> (\<forall>x. user_page x \<longrightarrow> view kp x = upage k i x)
    \<and> cstr (view kp) (str1 E) (cmd_name bs) \<and> cstr (view kp) (str2 E) (cmd_args bs)"
proof -
  have ko: "kernel_only (boot_block (fsys k)) (image_size (view k) (fsys k))" "kernel_only (str1 E) (Suc (length (cmd_name bs)))"
    "kernel_only (str2 E) (Suc (length (cmd_args bs)))"
    using ok by (simp_all add: command_ok_def exec_layout_def exec_regions_def)
  obtain k5 where k5: "execute_check E command k = Some (Inr (k5, str1 E, entry_of c))" "core k5 = core k" "upage k5 = upage k"
    "args k5 = str2 E" "process_id k5 = of_nat i" "same_image (fsys k) (view k) (view k5)"
    "cstr (view k5) (str1 E) (cmd_name bs)" "cstr (view k5) (str2 E) (cmd_args bs)"
    using execute_check_found [OF ok slot found _ dentry(2) prog] dentry(1) by (auto simp: i_def)
  have i: "i < 7" using slot by (simp add: i_def)
  have un: "unat (of_nat i :: u32) = i" "(of_nat i :: u32) \<le> 6" using i by (simp_all add: unat_of_nat32 word_le_nat_alt)
  obtain p where p: "task_mem_init (of_nat i) (pg k5) = (p, Some i)"
    using un by (auto simp: task_mem_init_def Let_def map_4MB_page_def put_PDE_def set_PDBR_def dest: leD)
  define kp where "kp = k5\<lparr>pg := p\<rparr>"
  have kp: "cr3 (pg kp) = Some i" "upage kp = upage k"
    using task_mem_init_cr3 [OF un(2), of "pg k5"] p un(1) k5(3) by (simp_all add: kp_def)
  have vp: "view kp x = (if user_page x then upage k i x else view k5 x)" for x
    using view_new_page [of kp i k5] kp k5(3) by (simp add: kp_def)
  have "same_image (fsys k) (view k) (view kp)"
    using k5(6) kernel_onlyD [OF ko(1)] by (simp add: same_image_def vp)
  moreover have "cstr (view kp) (str1 E) (cmd_name bs)"
    by (rule cstr_cong [OF k5(7)]) (use kernel_onlyD [OF ko(2)] in \<open>simp add: vp\<close>)
  moreover have "cstr (view kp) (str2 E) (cmd_args bs)"
    by (rule cstr_cong [OF k5(8)]) (use kernel_onlyD [OF ko(3)] in \<open>simp add: vp\<close>)
  moreover have "execute E command k = (case program_load (view kp) (fsys k) (stack_dentry E) (str1 E) PGRM_IMG of
        None \<Rightarrow> None
      | Some (m, r) \<Rightarrow> if r = - 1 then Some (set_view m kp, Return (- 1))
          else Some (execute_start E (curr_process k) (Some i) (set_view m kp), Userspace (entry_of c)))"
    using k5(1) p core_fields [OF k5(2)] by (auto simp: execute_def Let_def k5(5) kp_def split: option.split)
  moreover have "pcbs kp = pcbs k" "curr_process kp = curr_process k" "fsys kp = fsys k" "args kp = str2 E"
    using k5(2,4) by (simp_all add: kp_def core_def)
  ultimately show ?thesis using kp vp by (intro exI [of _ kp]) simp
qed

lemma program_load_image:
  assumes "image_wf m0 fs" and "same_image fs m0 m" and "cstr m fname name" and "fname \<noteq> NULL"
    and "dir_index m0 fs (take 31 name) = Some j" and "d = copy_dentry m0 (dir_entry fs j)"
    and "inode_wf m0 fs (inode_num d)" and "c = file_content m0 fs (inode_num d)"
    and "disj_ranges addr (length c + 4096) (boot_block fs) (image_size m0 fs)"
  shows "program_load m fs stack fname addr =
    Some (if file_type d = 2 then (store_bytes m addr c, RET_SUCCESS) else (m, RET_FAILURE))"
proof -
  have d: "dir_index m fs (take 31 name) = Some j" "copy_dentry m (dir_entry fs j) = d"
    using same_image_dir_index [OF assms(1,2)] same_image_dentry [OF assms(1,2) dir_index_less [OF assms(5)]] assms(5,6) by simp_all
  have wfi: "inode_wf m fs (inode_num d)" "file_content m fs (inode_num d) = c"
    "image_size m fs = image_size m0 fs" "file_size m fs (inode_num d) = length c"
    using same_image_inode_wf [OF assms(1,2,7)] same_image_content [OF assms(1,2,7)] same_image_size [OF assms(1,2)]
      same_image_file_size [OF assms(1,2), of "inode_num d"] assms(7,8) by (simp_all add: inode_wf_def)
  show ?thesis
    using program_load_spec [OF same_image_wf [OF assms(1,2)] assms(3,4), of addr stack] d wfi assms(9) by (simp add: Let_def)
qed

text \<open>
  A successful \<open>execute\<close>, apart from the process control blocks. The size bound is the room between
  \<open>0x08048000\<close> and the end of the page.
\<close>

lemma execute_found:
  assumes ok: "command_ok E k command bs" and slot: "free_slot (open_processes k) < 7"
    and found: "dir_index (view k) (fsys k) (take 31 (cmd_name bs)) = Some j"
    and dentry: "d = copy_dentry (view k) (dir_entry (fsys k) j)" "file_type d = 2" "inode_wf (view k) (fsys k) (inode_num d)"
    and prog: "c = file_content (view k) (fsys k) (inode_num d)" "is_program c" "length c \<le> 0x3B8000"
    and img: "disj_ranges PGRM_IMG (length c + 4096) (boot_block (fsys k)) (image_size (view k) (fsys k))"
  defines "i \<equiv> free_slot (open_processes k)"
  shows "\<exists>k6. execute E command k = Some (execute_start E (curr_process k) (Some i) k6, Userspace (entry_of c))
    \<and> pcbs k6 = pcbs k \<and> upage k6 = (upage k)(i := store_bytes (upage k i) PGRM_IMG c)
    \<and> args k6 = str2 E \<and> cstr (view k6) (str2 E) (cmd_args bs) \<and> fsys k6 = fsys k"
proof -
  have wf: "image_wf (view k) (fsys k)" "str1 E \<noteq> NULL" "kernel_only (str2 E) (Suc (length (cmd_args bs)))"
    using ok by (simp_all add: command_ok_def exec_layout_def exec_regions_def)
  obtain kp where kp: "execute E command k = (case program_load (view kp) (fsys k) (stack_dentry E) (str1 E) PGRM_IMG of
        None \<Rightarrow> None
      | Some (m, r) \<Rightarrow> if r = - 1 then Some (set_view m kp, Return (- 1))
          else Some (execute_start E (curr_process k) (Some i) (set_view m kp), Userspace (entry_of c)))"
    "pcbs kp = pcbs k" "cr3 (pg kp) = Some i" "upage kp = upage k" "args kp = str2 E" "fsys kp = fsys k"
    "same_image (fsys k) (view k) (view kp)" "\<forall>x. user_page x \<longrightarrow> view kp x = upage k i x"
    "cstr (view kp) (str1 E) (cmd_name bs)" "cstr (view kp) (str2 E) (cmd_args bs)"
    using execute_page [OF ok slot found dentry(1,3) prog(1,2)] unfolding i_def by blast
  define k6 where "k6 = set_view (store_bytes (view kp) PGRM_IMG c) kp"
  have run: "execute E command k = Some (execute_start E (curr_process k) (Some i) k6, Userspace (entry_of c))"
    using kp(1) program_load_image [OF wf(1) kp(7,9) wf(2) found dentry(1,3) prog(1) img] dentry(2) by (simp add: k6_def)
  have len: "length c \<le> 4294967296" using prog(3) by simp
  have "(\<lambda>x. if user_page x then store_bytes (view kp) PGRM_IMG c x else upage kp i x) = store_bytes (upage k i) PGRM_IMG c"
    using program_page_size [OF prog(3)] kp(4,8) by (auto simp: fun_eq_iff store_bytes_apply [OF len])
  with kp(3,4) have up: "upage k6 = (upage k)(i := store_bytes (upage k i) PGRM_IMG c)"
    by (simp add: k6_def set_view_def)
  have "cstr (view k6) (str2 E) (cmd_args bs)"
  proof (rule cstr_cong [OF kp(10)])
    fix x assume "in_range (str2 E) (Suc (length (cmd_args bs))) x"
    then have "\<not> user_page x" by (rule kernel_onlyD [OF wf(3)])
    then show "view k6 x = view kp x"
      using program_page_size [OF prog(3), of x] by (auto simp: k6_def store_bytes_apply [OF len])
  qed
  then show ?thesis using run up kp by (intro exI [of _ k6]) (simp add: k6_def)
qed

section \<open>Failing\<close>

text \<open>A command that names no file, and a table that is full.\<close>

lemma execute_not_found:
  assumes ok: "command_ok E k command bs" and slot: "free_slot (open_processes k) < 7"
    and "dir_index (view k) (fsys k) (take 31 (cmd_name bs)) = None"
  shows "\<exists>k'. execute E command k = Some (k', Return (- 1)) \<and> core k' = core k \<and> open_processes k' = taken (open_processes k)
    \<and> upage k' = upage k \<and> same_image (fsys k) (view k) (view k')"
proof -
  have wf: "image_wf (view k) (fsys k)" and nz: "str1 E \<noteq> NULL" using ok by (simp_all add: command_ok_def exec_layout_def)
  obtain k1 k3 where k3: "parse E command k = Some (k1, str1 E)" "strlen (view k1) command = Some (of_nat (length bs))"
    "alloc_loop 0 MASK (get_arg E command (of_nat (length bs)) k1) = (free_slot (open_processes k), k3)"
    "core k3 = core k" "upage k3 = upage k" "open_processes k3 = taken (open_processes k)"
    "same_image (fsys k) (view k) (view k3)" "cstr (view k3) (str1 E) (cmd_name bs)"
    using exec_prefix [OF ok slot] by auto
  have "key_name (view k3) (str1 E) = take 31 (cmd_name bs)" using cprefix_cstr [OF k3(8)] by (simp add: key_name_def)
  then have "read_dentry_by_name (view k3) (fsys k) (str1 E) (Some (stack_dentry E)) = Some (RET_FAILURE, Some (stack_dentry E))"
    using read_dentry_by_name_find [OF k3(8) nz, of "fsys k" "stack_dentry E"] assms(3) same_image_dir_index [OF wf k3(7)] by simp
  then have "execute_check E command k = Some (Inl (k3, - 1))"
    using k3(1-3) slot core_fields [OF k3(4)] by (simp add: execute_check_def Let_def)
  then show ?thesis using k3 by (intro exI [of _ k3]) (simp add: execute_def Let_def)
qed

text \<open>A failed \<open>execute\<close> that returns -1 keeps the number it took.\<close>

definition free_count :: "u8 \<Rightarrow> nat" where
  "free_count ops = card {i. i < 7 \<and> \<not> slot_used ops i}"

lemma free_count_taken: "free_slot ops < 7 \<Longrightarrow> free_count ops = Suc (free_count (taken ops))"
proof -
  assume lt: "free_slot ops < 7"
  have "{i. i < 7 \<and> \<not> slot_used ops i} = insert (free_slot ops) {i. i < 7 \<and> \<not> slot_used (taken ops) i}"
    using lt free_slot_free [OF lt] by (auto simp: taken_def slot_used_set)
  moreover have "slot_used (taken ops) (free_slot ops)" using lt by (simp add: taken_def slot_used_set)
  ultimately show ?thesis by (simp add: free_count_def)
qed

lemma free_count_zero: "free_count ops = 0 \<Longrightarrow> free_slot ops = 7"
  using free_count_taken [of ops] free_slot_le [of ops] by (cases "free_slot ops < 7") simp_all

lemma failed_takes: "execute E command k = Some (k', Return (- 1)) \<Longrightarrow> free_count (open_processes k) = Suc (free_count (open_processes k'))"
  using execute_fail [of E command k k' "- 1"] free_count_taken by auto

lemma full_table: "free_slot (open_processes k) = 7 \<Longrightarrow> execute E command k = Some (k', c) \<Longrightarrow> c = Return 1"
  by (auto simp: execute_def Let_def dest!: execute_check_cases split: option.split_asm)

lemma execute_start_memory [simp]:
  "upage (execute_start E prev pd k) = upage k" "args (execute_start E prev pd k) = args k"
  "view (execute_start E prev pd k) = view k"
proof -
  have [simp]: "upage (push_task x) = upage x" "args (push_task x) = args x" "args (update_pcb a f x) = args x"
    "upage (stdin fd x) = upage x" "args (stdin fd x) = args x"
    "upage (stdout fd x) = upage x" "args (stdout fd x) = args x" for x a f fd
    by (simp_all add: push_task_def update_pcb_def stdin_def stdout_def)
  have [simp]: "view (stdin fd x) = view x" "view (stdout fd x) = view x" for x fd
    by (simp_all add: stdin_def stdout_def)
  have v [simp]: "view (x\<lparr>tss_esp0 := a, tss_ss0 := b\<rparr>) = view x" "view (x\<lparr>initial_shell := d\<rparr>) = view x"
    "view (x\<lparr>k_bp := a, curr_process := b\<rparr>) = view x" for x a b d
    by (auto simp: view_def fun_eq_iff split: option.splits)
  show "upage (execute_start E prev pd k) = upage k" "args (execute_start E prev pd k) = args k"
    "view (execute_start E prev pd k) = view k"
    by (simp_all add: execute_start_def Let_def)
qed

section \<open>A sample program\<close>

text \<open>
  The file \<open>a\<close> of the sample image made a program that starts at \<open>0x08048000\<close>, its directory entry of
  type \<open>t\<close>, and two commands.
\<close>

definition prog_mem :: "u8 \<Rightarrow> mem" where
  "prog_mem t = sample_mem(0xA000 := 0x7F, 0xA001 := 0x45, 0xA002 := 0x4C, 0xA003 := 0x46,
     0xA019 := 0x80, 0xA01A := 0x04, 0xA01B := 0x08, 0x300 := 0x61, 0x301 := 0x20, 0x302 := 0x78, 0x310 := 0x62, 0x8060 := t)"

definition prog_kernel :: "u8 \<Rightarrow> kernel" where
  "prog_kernel t = shell_kernel\<lparr>kmem := prog_mem t\<rparr>"

lemma prog_header:
  "num_dir_entries (prog_mem t) sample_fs = 1" "num_inodes (prog_mem t) sample_fs = 1"
  "num_data_blocks (prog_mem t) sample_fs = 2" "image_size (prog_mem t) sample_fs = 16384"
  by (simp_all add: num_dir_entries_def num_inodes_def num_data_blocks_def image_size_def sample_fs_eq
      prog_mem_def sample_mem_def load32_def)

lemma prog_file_size: "file_size (prog_mem t) sample_fs 0 = 5000"
  by (simp add: file_size_def inode_length_def inode_addr_def sample_fs_eq prog_mem_def sample_mem_def load32_def)

lemma prog_image_wf: "image_wf (prog_mem t) sample_fs"
  unfolding image_wf_def prog_header
  by (simp add: sample_fs_eq init_filesys_def prog_mem_def sample_mem_def load32_def)

lemma prog_inode_wf: "inode_wf (prog_mem t) sample_fs 0"
  unfolding inode_wf_def prog_header prog_file_size
  by (simp add: upt_rec file_block_def data_block_num_def inode_addr_def sample_fs_eq prog_mem_def sample_mem_def load32_def)

lemma prog_bytes: "p < 4096 \<Longrightarrow> file_byte (prog_mem t) sample_fs 0 p = (prog_mem t) (0xA000 + of_nat p)"
  by (simp add: file_byte_def file_block_def data_block_num_def data_block_addr_def inode_addr_def sample_fs_eq
      load32_def) (simp add: prog_mem_def sample_mem_def)

lemma prog_content:
  "is_program (file_content (prog_mem t) sample_fs 0)" "entry_of (file_content (prog_mem t) sample_fs 0) = 0x08048000"
proof -
  have n: "p < 5000 \<Longrightarrow> file_content (prog_mem t) sample_fs 0 ! p = file_byte (prog_mem t) sample_fs 0 p" for p
    by (simp add: file_content_def prog_file_size)
  have "take 4 (file_content (prog_mem t) sample_fs 0) = map (\<lambda>p. file_content (prog_mem t) sample_fs 0 ! p) [0..<4]"
    by (rule nth_equalityI) (simp_all add: prog_file_size)
  also have "\<dots> = [0x7F, 0x45, 0x4C, 0x46]"
    by (simp add: n prog_bytes upt_rec) (simp add: prog_mem_def sample_mem_def)
  finally show "is_program (file_content (prog_mem t) sample_fs 0)" by (simp add: is_program_def prog_file_size)
  show "entry_of (file_content (prog_mem t) sample_fs 0) = 0x08048000"
    by (simp add: entry_of_def bytes32_def n prog_bytes prog_file_size) (simp add: prog_mem_def sample_mem_def)
qed

lemma prog_kernel_view: "view (prog_kernel t) = (prog_mem t)"
  by (auto simp: view_def prog_kernel_def shell_kernel_def sample_kernel_def user_page_def prog_mem_def sample_mem_def fun_eq_iff)

lemma prog_kernel_fields:
  "fsys (prog_kernel t) = sample_fs" "curr_process (prog_kernel t) = 0x7FE000" "open_processes (prog_kernel t) = 0x80"
  "upage (prog_kernel t) = (\<lambda>_ _. 0)" "cr3 (pg (prog_kernel t)) = Some 0" "tss_esp0 (prog_kernel t) = 0x7FFFFC"
  "initial_shell (prog_kernel t) = 0" "pcbs (prog_kernel t) = shell_pcb"
  by (simp_all add: prog_kernel_def shell_kernel_def sample_kernel_def)

lemma prog_kernel_stack: "proc_stack (prog_kernel t) [(0, 0x7FFFFC, 0x7FFFFC)]"
  by (rule proc_stack_same [OF shell_stack]) (simp_all add: prog_kernel_def)

lemma prog_kernel_slot: "free_slot 0x80 = 1"
  by (simp add: free_slot_def slot_used_def upt_rec)

lemma prog_commands: "command_ok sample_env (prog_kernel t) 0x300 [0x61, 0x20, 0x78]" "command_ok sample_env (prog_kernel t) 0x310 [0x62]"
  unfolding command_ok_def exec_layout_def prog_kernel_view prog_kernel_fields prog_header
  by (simp_all add: prog_image_wf [unfolded sample_fs_eq] exec_regions_def cmd_name_def cmd_args_def is_sep_def sample_env_def sample_fs_eq kernel_only_def
      disj_ranges_def cstr_def load_bytes_Suc, simp_all add: prog_mem_def sample_mem_def)

lemma prog_keys: "key_name (prog_mem t) (dir_entry sample_fs 0) = [0x61]"
  by (simp add: key_name_def cprefix_def load_bytes_numeral dir_entry_def sample_fs_eq prog_mem_def sample_mem_def)

lemma prog_names: "cmd_name [0x61, 0x20, 0x78] = [0x61]" "cmd_args [0x61, 0x20, 0x78] = [0x78]" "cmd_name [0x62] = [0x62]"
  by (simp_all add: cmd_name_def cmd_args_def is_sep_def)

lemma prog_index: "dir_index (prog_mem t) sample_fs [0x61] = Some 0" "dir_index (prog_mem t) sample_fs [0x62] = None"
  unfolding dir_index_def prog_header by (simp_all add: prog_keys)

lemma prog_dentry:
  "inode_num (copy_dentry (prog_mem t) (dir_entry sample_fs 0)) = 0" "file_type (copy_dentry (prog_mem t) (dir_entry sample_fs 0)) = ucast t"
  by (simp_all add: copy_dentry_def dir_entry_def sample_fs_eq prog_mem_def sample_mem_def load32_def)

section \<open>Properties\<close>

text \<open>
  C1. \<open>execute\<close> of a command whose first word names an executable file takes the lowest free
  process number, loads the file's bytes at \<open>0x08048000\<close> into that process's own page and into no other
  page, jumps to the address in bytes 24 to 27 of the file, keeps the rest of the command as the
  arguments, and puts the new process on the stack of processes, above its caller.
\<close>

theorem execute_spec:
  assumes "proc_stack k (f # fs)" and "command_ok E k command bs" and "free_slot (open_processes k) < 7"
    and "dir_index (view k) (fsys k) (take 31 (cmd_name bs)) = Some j"
    and "d = copy_dentry (view k) (dir_entry (fsys k) j)" and "file_type d = 2" and "inode_wf (view k) (fsys k) (inode_num d)"
    and "c = file_content (view k) (fsys k) (inode_num d)" and "is_program c" and "length c \<le> 0x3B8000"
    and "disj_ranges PGRM_IMG (length c + 4096) (boot_block (fsys k)) (image_size (view k) (fsys k))"
  defines "i \<equiv> free_slot (open_processes k)"
  shows "\<exists>k'. execute E command k = Some (k', Userspace (entry_of c))
    \<and> upage k' = (upage k)(i := store_bytes (upage k i) PGRM_IMG c)
    \<and> cstr (view k') (args k') (cmd_args bs)
    \<and> proc_stack k' ((i, kernel_bp (of_nat i), kernel_bp (of_nat i)) # (fst f, esp E, ebp E) # fs)
    \<and> open_processes k' = open_processes k OR drop_bit i MASK"
proof -
  obtain k6 where k6: "execute E command k = Some (execute_start E (curr_process k) (Some i) k6, Userspace (entry_of c))"
    "upage k6 = (upage k)(i := store_bytes (upage k i) PGRM_IMG c)" "args k6 = str2 E" "cstr (view k6) (str2 E) (cmd_args bs)"
    using execute_found [OF assms(2-11)] by (auto simp: i_def)
  show ?thesis
    using k6 execute_push [OF assms(1) k6(1)] unfolding i_def [symmetric] by (simp add: taken_def i_def)
qed

theorem execute_spec_witness:
  "\<exists>k'. execute sample_env 0x300 (prog_kernel 2) = Some (k', Userspace 0x08048000)
     \<and> proc_stack k' [(1, 0x7FDFFC, 0x7FDFFC), (0, 0x7FE000, 0x7FE020)] \<and> cstr (view k') (args k') [0x78]"
  using execute_spec [OF prog_kernel_stack [of 2] prog_commands(1) [of 2], of 0 "copy_dentry (prog_mem 2) (dir_entry sample_fs 0)"
      "file_content (prog_mem 2) sample_fs 0"] prog_inode_wf prog_content
  by (auto simp: prog_kernel_slot prog_kernel_view prog_kernel_fields prog_names prog_index prog_dentry prog_header prog_file_size
      disj_ranges_def sample_boot kernel_bp_def sample_env_def)

text \<open>
  C5. \<open>execute\<close> returns when the program halts, however many programs run in between: as long as the
  program's number stays taken, whatever system calls it and the programs it starts make, its \<open>halt\<close> continues
  the caller's \<open>execute\<close> on the stack and base pointers saved there, with the program's exit code as the
  result, the caller's block as the current one and the caller's page directory. The kernel stack of the
  caller's next system call starts at the saved stack pointer and not at the top of its stack. The calls are
  those of \<open>proc_step\<close>: they return, the buffers of \<open>read\<close> and \<open>getargs\<close> lie in the program's page (over a
  process control block, which the kernel does not check, they would change it), name and arguments of a command
  have at most 11 characters each, and an \<open>execute\<close> that fails leaves the page directory alone (else C22).
  Terminals are not switched in between, and kernel stacks are assumed not to overflow.
\<close>

theorem halt_returns:
  assumes "proc_stack k (f # fs)" and "execute E command k = Some (k1, Userspace entry)"
  defines "i \<equiv> free_slot (open_processes k)"
  assumes "(\<lambda>a b. proc_step a b \<and> slot_used (open_processes b) i)\<^sup>*\<^sup>* k1 k2"
    and "halt E' st k2 = Some (k3, c)" and "curr_process k2 = pcb_addr (of_nat i)" and "command_fits k command"
  shows "c = Ret_halt (esp E) (ebp E) \<and> retval k3 = ucast st \<and> curr_process k3 = curr_process k
    \<and> cr3 (pg k3) = cr3 (pg k) \<and> tss_esp0 k3 = esp E \<and> \<not> slot_used (open_processes k3) i
    \<and> proc_stack k3 ((fst f, esp E, ebp E) # fs)"
proof -
  have push: "i < 7" "proc_stack k1 ((i, kernel_bp (of_nat i), kernel_bp (of_nat i)) # (fst f, esp E, ebp E) # fs)"
    using execute_push [OF assms(1,2)] by (simp_all add: i_def)
  obtain ys s b where st: "proc_stack k2 (ys @ (i, s, b) # (fst f, esp E, ebp E) # fs)"
    using run_above [of k1 "[]"] push(2) assms(4) by fastforce
  have "ys = []"
  proof (cases ys)
    case (Cons y zs)
    have "distinct (map fst (ys @ (i, s, b) # (fst f, esp E, ebp E) # fs))" using st by (simp add: proc_stack_def)
    then have "fst y \<noteq> i" using Cons by simp
    moreover have "fst y < 7" using proc_stack_less [OF st] Cons by simp
    moreover have "curr_process k2 = pcb_addr (of_nat (fst y))" using st Cons by (simp add: proc_stack_def)
    ultimately show ?thesis using assms(6) push(1) by simp
  qed
  then have "proc_stack k2 ((i, s, b) # (fst f, esp E, ebp E) # fs)" using st by simp
  note popped = halt_pop [OF this assms(5)]
  then have "proc_stack k3 ((fst f, esp E, ebp E) # fs)" by simp
  then show ?thesis using popped push(1) assms(1) by (simp add: proc_stack_def)
qed

theorem halt_returns_witness:
  "\<exists>k1 k3. execute sample_env 0x300 (prog_kernel 2) = Some (k1, Userspace 0x08048000)
     \<and> halt sample_env 7 k1 = Some (k3, Ret_halt 0x7FE000 0x7FE020) \<and> retval k3 = 7 \<and> curr_process k3 = 0x7FE000"
proof -
  obtain k1 where k1: "execute sample_env 0x300 (prog_kernel 2) = Some (k1, Userspace 0x08048000)"
    using execute_found [OF prog_commands(1) [of 2], of 0 "copy_dentry (prog_mem 2) (dir_entry sample_fs 0)"
      "file_content (prog_mem 2) sample_fs 0"] prog_inode_wf prog_content
    by (auto simp: prog_kernel_slot prog_kernel_view prog_kernel_fields prog_names prog_index prog_dentry prog_header prog_file_size
      disj_ranges_def sample_boot)
  have st: "proc_stack k1 [(1, kernel_bp 1, kernel_bp 1), (0, esp sample_env, ebp sample_env)]"
    using execute_push [OF prog_kernel_stack [of 2] k1] by (simp add: prog_kernel_slot prog_kernel_fields)
  obtain k3 c where k3: "halt sample_env 7 k1 = Some (k3, c)" using halt_defined [OF st] by blast
  have "bs = [0x61, 0x20, 0x78]" if "cstr (view (prog_kernel 2)) 0x300 bs" for bs
    using cstr_unique [OF that, of "[0x61, 0x20, 0x78]"] prog_commands(1) [of 2] by (simp add: command_ok_def)
  then have "command_fits (prog_kernel 2) 0x300" by (fastforce simp: command_fits_def)
  moreover have "curr_process k1 = pcb_addr (of_nat 1)" using st by (simp add: proc_stack_def)
  ultimately show ?thesis
    using halt_returns [OF prog_kernel_stack [of 2] k1 rtranclp.rtrancl_refl k3] k1 k3
    by (simp add: prog_kernel_slot prog_kernel_fields sample_env_def)
qed

text \<open>
  C21. A command that names no file makes \<open>execute\<close> return -1 and leaves the stack of processes, the
  pages and the file system alone, but keeps the process number it took: every such failure uses up
  one of the seven, and when none is left every \<open>execute\<close> fails with 1.
\<close>

theorem execute_error:
  assumes "proc_stack k fs" and "command_ok E k command bs" and "free_slot (open_processes k) < 7"
    and "dir_index (view k) (fsys k) (take 31 (cmd_name bs)) = None"
  shows "\<exists>k'. execute E command k = Some (k', Return (- 1)) \<and> proc_stack k' fs \<and> upage k' = upage k
    \<and> same_image (fsys k) (view k) (view k')
    \<and> Suc (free_count (open_processes k')) = free_count (open_processes k)
    \<and> (free_count (open_processes k') = 0 \<longrightarrow> (\<forall>E command k2 c. execute E command k' = Some (k2, c) \<longrightarrow> c = Return 1))"
proof -
  obtain k' where k': "execute E command k = Some (k', Return (- 1))" "core k' = core k" "open_processes k' = taken (open_processes k)"
    "upage k' = upage k" "same_image (fsys k) (view k) (view k')"
    using execute_not_found [OF assms(2-4)] by blast
  have "proc_stack k' fs" using k'(2,3) assms(3) by (intro proc_stack_leak [OF assms(1)]) (simp_all add: core_def)
  moreover have "free_count (open_processes k') = 0 \<longrightarrow> (\<forall>E command k2 c. execute E command k' = Some (k2, c) \<longrightarrow> c = Return 1)"
    using full_table free_count_zero by blast
  ultimately show ?thesis using k' failed_takes [OF k'(1)] by (intro exI [of _ k'] conjI) simp_all
qed

theorem execute_error_witness:
  "\<exists>k'. execute sample_env 0x310 (prog_kernel 2) = Some (k', Return (- 1)) \<and> free_count (open_processes k') = 5"
proof -
  have "slot_used 0x80 i \<longleftrightarrow> i = 0" if "i < 7" for i
    using less_7_cases [OF that] by (auto simp: slot_used_def)
  then have "{i. i < 7 \<and> \<not> slot_used 0x80 i} = {1..6}" by auto
  then have "free_count (open_processes (prog_kernel 2)) = 6" by (simp add: free_count_def prog_kernel_fields)
  then show ?thesis
    using execute_error [OF prog_kernel_stack [of 2] prog_commands(2) [of 2]]
    by (auto simp: prog_kernel_slot prog_kernel_view prog_kernel_fields prog_names prog_index)
qed

text \<open>
  C22. \<open>execute\<close> does not look at the type of the file it checks, \<open>program_load\<close> does: for a directory
  or device entry whose inode number is that of a program, the check passes, the new process's page
  directory is installed, the load fails, and \<open>execute\<close> returns -1 to its caller, who goes on in the
  page directory of a process that does not exist.
\<close>

theorem execute_wrong_directory:
  assumes "command_ok E k command bs" and "free_slot (open_processes k) < 7"
    and "dir_index (view k) (fsys k) (take 31 (cmd_name bs)) = Some j"
    and "d = copy_dentry (view k) (dir_entry (fsys k) j)" and "file_type d \<noteq> 2" and "inode_wf (view k) (fsys k) (inode_num d)"
    and "c = file_content (view k) (fsys k) (inode_num d)" and "is_program c"
    and "disj_ranges PGRM_IMG (length c + 4096) (boot_block (fsys k)) (image_size (view k) (fsys k))"
  shows "\<exists>k'. execute E command k = Some (k', Return (- 1)) \<and> curr_process k' = curr_process k \<and> pcbs k' = pcbs k
    \<and> cr3 (pg k') = Some (free_slot (open_processes k))"
proof -
  have wf: "image_wf (view k) (fsys k)" "str1 E \<noteq> NULL"
    using assms(1) by (simp_all add: command_ok_def exec_layout_def)
  obtain kp where kp: "execute E command k = (case program_load (view kp) (fsys k) (stack_dentry E) (str1 E) PGRM_IMG of
        None \<Rightarrow> None
      | Some (m, r) \<Rightarrow> if r = - 1 then Some (set_view m kp, Return (- 1))
          else Some (execute_start E (curr_process k) (Some (free_slot (open_processes k))) (set_view m kp), Userspace (entry_of c)))"
    "pcbs kp = pcbs k" "curr_process kp = curr_process k" "cr3 (pg kp) = Some (free_slot (open_processes k))"
    "same_image (fsys k) (view k) (view kp)" "cstr (view kp) (str1 E) (cmd_name bs)"
    using execute_page [OF assms(1-4,6-8)] by blast
  show ?thesis
    using program_load_image [OF wf(1) kp(5,6) wf(2) assms(3,4,6,7,9), of "stack_dentry E"] assms(5) kp(1-4)
    by (intro exI [of _ "set_view (view kp) kp"]) simp
qed

theorem execute_wrong_directory_witness:
  "\<exists>k'. execute sample_env 0x300 (prog_kernel 1) = Some (k', Return (- 1)) \<and> curr_process k' = 0x7FE000 \<and> cr3 (pg k') = Some 1"
  using execute_wrong_directory [OF prog_commands(1) [of 1], of 0 "copy_dentry (prog_mem 1) (dir_entry sample_fs 0)"
      "file_content (prog_mem 1) sample_fs 0"] prog_inode_wf prog_content
  by (auto simp: prog_kernel_slot prog_kernel_view prog_kernel_fields prog_names prog_index prog_dentry prog_header prog_file_size
      disj_ranges_def sample_boot)

end
