(* ===== verification/Keyboard.thy ===== *)
theory Keyboard
  imports Syscalls
begin

text \<open>
  The keyboard, \<open>keyboard.c\<close>. \<open>kbd_logic\<close> turns a scan code into an operation on the buffer of the
  terminal on display, into a change of the modifier flags, or into a switch of terminals; the last
  may start a shell or continue another process, and then the handler does not come back: its result
  is the \<open>control\<close> of the switch. \<open>kbd_int_handler\<close> reads the scan code and shows the buffer.
\<close>

section \<open>State and scan codes\<close>

record keyboard =
  reset_flag :: int
  caps_count :: int
  shift :: int
  ctrl :: int
  alt :: int
  term2 :: int
  term3 :: int
  offset :: int
  line_flag :: int

text \<open>The tables; the C initialisers leave the rest of the 128 entries zero.\<close>

definition kbdus :: "u8 list" where
  "kbdus = [
    0x00, 0x1B, 0x31, 0x32, 0x33, 0x34, 0x35, 0x36, 0x37, 0x38, 0x39, 0x30, 0x2D, 0x3D, 0x08,
    0x09, 0x71, 0x77, 0x65, 0x72, 0x74, 0x79, 0x75, 0x69, 0x6F, 0x70, 0x5B, 0x5D, 0x0A, 0x00,
    0x61, 0x73, 0x64, 0x66, 0x67, 0x68, 0x6A, 0x6B, 0x6C, 0x3B, 0x27, 0x60, 0x00, 0x5C, 0x7A,
    0x78, 0x63, 0x76, 0x62, 0x6E, 0x6D, 0x2C, 0x2E, 0x2F, 0x00, 0x2A, 0x00, 0x20, 0x00, 0x00,
    0x00, 0x00, 0x00, 0x00, 0x00, 0x00, 0x00, 0x00, 0x00, 0x00, 0x00, 0x00, 0x00, 0x00, 0x2D,
    0x00, 0x00, 0x00, 0x2B, 0x00, 0x00, 0x00, 0x00, 0x00, 0x00, 0x00, 0x00, 0x00, 0x00, 0x00] @ replicate 38 0"

definition kbdus_shift :: "u8 list" where
  "kbdus_shift = [
    0x00, 0x1B, 0x21, 0x40, 0x23, 0x24, 0x25, 0x5E, 0x26, 0x2A, 0x28, 0x29, 0x5F, 0x2B, 0x08,
    0x09, 0x51, 0x57, 0x45, 0x52, 0x54, 0x59, 0x55, 0x49, 0x4F, 0x50, 0x7B, 0x7D, 0x0A, 0x00,
    0x41, 0x53, 0x44, 0x46, 0x47, 0x48, 0x4A, 0x4B, 0x4C, 0x3A, 0x22, 0x7E, 0x00, 0x7C, 0x5A,
    0x58, 0x43, 0x56, 0x42, 0x4E, 0x4D, 0x3C, 0x3E, 0x3F, 0x00, 0x2A, 0x00, 0x20, 0x00, 0x00,
    0x00, 0x00, 0x00, 0x00, 0x00, 0x00, 0x00, 0x00, 0x00, 0x00, 0x00, 0x00, 0x00, 0x00, 0x2D,
    0x00, 0x00, 0x00, 0x2B, 0x00, 0x00, 0x00, 0x00, 0x00, 0x00, 0x00, 0x00, 0x00, 0x00, 0x00] @ replicate 38 0"

text \<open>A scan code is what \<open>inb\<close> returns, a value below 256.\<close>

definition is_press :: "u32 \<Rightarrow> bool" where
  "is_press to_print \<longleftrightarrow> to_print \<noteq> 0x0E \<and> to_print \<noteq> 0x1C \<and> to_print AND 0x80 = 0 \<and> to_print \<noteq> 0x2A
     \<and> to_print \<noteq> 0x36 \<and> to_print \<noteq> 0x3A \<and> to_print \<noteq> 0x1D"

text \<open>The modifier keys.\<close>

definition modifiers :: "u32 \<Rightarrow> keyboard \<Rightarrow> keyboard" where
  "modifiers to_print g =
     (let g = (if to_print = 0x2A \<or> to_print = 0x36 then g\<lparr>shift := 1\<rparr> else g);
          g = (if to_print = 0xAA \<or> to_print = 0xB6 then g\<lparr>shift := 0\<rparr> else g);
          g = (if to_print = 0x3A
               then (let g = g\<lparr>caps_count := caps_count g + 1\<rparr>
                     in if caps_count g smod 2 = 1 then g\<lparr>offset := 32\<rparr> else g\<lparr>offset := 0\<rparr>)
               else g);
          g = (if to_print = 0x1D then g\<lparr>ctrl := 1\<rparr> else g);
          g = (if to_print = 0x9D then g\<lparr>ctrl := 0\<rparr> else g);
          g = (if to_print = 0x38 then g\<lparr>alt := 1\<rparr> else g)
      in if to_print = 0xB8 then g\<lparr>alt := 0\<rparr> else g)"

section \<open>Typing\<close>

definition enter_line :: "nat \<Rightarrow> terminal \<Rightarrow> terminal option" where
  "enter_line b s =
     map_option (\<lambda>s. s\<lparr>limit := 0, line_count := 0\<rparr>)
       (Option.bind (on_buffer (new_line b) s) (on_buffer (clear_buf_line b)))"

text \<open>
  The first two cases of the typing code, without and with shift, have the same text but for the
  table and the letters caps lock changes.
\<close>

definition type_key :: "u32 \<Rightarrow> bool \<Rightarrow> int \<Rightarrow> nat \<Rightarrow> terminal \<Rightarrow> terminal option" where
  "type_key to_print shifted off b s =
     (if is_press to_print
      then (let printchar = uint ((if shifted then kbdus_shift else kbdus) ! unat to_print);
                printchar =
                  (if shifted then (if printchar \<ge> 65 \<and> printchar \<le> 90 then printchar + off else printchar)
                   else (if printchar \<ge> 97 \<and> printchar \<le> 122 then printchar - off else printchar))
            in on_buffer (setb b (of_int printchar)) s)
      else if to_print = 0x0E
      then map_option
             (\<lambda>s. let s = (if limit s \<ge> 0 then s\<lparr>limit := limit s - 2\<rparr> else s\<lparr>limit := 78\<rparr>)
                  in if line_count s \<ge> 0 then s\<lparr>line_count := line_count s - 2\<rparr> else s\<lparr>limit := - 1\<rparr>)
             (on_buffer (backspace b (line_count s)) s)
      else if to_print = 0x1C then enter_line b s
      else (let s = (if limit s \<ge> 0 then s\<lparr>limit := limit s - 1\<rparr> else s\<lparr>limit := 78\<rparr>)
            in Some (if line_count s \<ge> 0 then s\<lparr>line_count := line_count s - 1\<rparr> else s\<lparr>limit := - 1\<rparr>)))"

text \<open>The third case: the line is full.\<close>

definition full_line_key :: "u32 \<Rightarrow> nat \<Rightarrow> terminal \<Rightarrow> terminal option" where
  "full_line_key to_print b s =
     (if to_print = 0x0E
      then map_option
             (\<lambda>s. let s = (if limit s \<ge> 0 then s\<lparr>limit := limit s - 1\<rparr> else s)
                  in if line_count s \<ge> 0 then s\<lparr>line_count := line_count s - 1\<rparr> else s)
             (on_buffer (backspace b (line_count s)) s)
      else if to_print = 0x1C then enter_line b s
      else Some s)"

text \<open>From \<open>if(line_count == 127)\<close> to the end of \<open>kbd_logic\<close>.\<close>

definition typing :: "u32 \<Rightarrow> nat \<Rightarrow> keyboard \<times> terminal \<Rightarrow> (keyboard \<times> terminal) option" where
  "typing to_print b = (\<lambda>(g, s).
     let g = (if line_count s = 127 then g\<lparr>line_flag := 0\<rparr> else g\<lparr>line_flag := 1\<rparr>)
     in case (if shift g = 0 \<and> line_flag g \<noteq> 0 then type_key to_print False (offset g) b s
              else if shift g \<noteq> 0 \<and> line_flag g \<noteq> 0 then type_key to_print True (offset g) b s
              else full_line_key to_print b s) of
          None \<Rightarrow> None
        | Some s \<Rightarrow>
            (let s = (if line_flag g \<noteq> 0 then s\<lparr>limit := limit s + 1, line_count := line_count s + 1\<rparr> else s)
             in map_option (Pair g)
                  (if limit s = 80
                   then map_option (\<lambda>s. s\<lparr>limit := 0\<rparr>)
                          (Option.bind (on_buffer (new_line b) s) (on_buffer (clear_buf_line b)))
                   else Some s)))"

section \<open>Switching terminals\<close>

text \<open>
  One of the three branches for Alt and a function key. \<open>start\<close> says whether the terminal's shell
  is still to be started, \<open>clear_start\<close> clears that flag, and \<open>fname\<close> is the address of the local
  array with the name. The interrupt gate of the call turns interrupts off and \<open>syscall_handler\<close>
  turns them on.
\<close>

definition switch_to ::
  "env \<Rightarrow> u32 \<Rightarrow> int \<Rightarrow> bool \<Rightarrow> (keyboard \<Rightarrow> keyboard) \<Rightarrow> keyboard \<times> kernel \<Rightarrow> (keyboard \<times> kernel \<times> control) option" where
  "switch_to E fname n start clear_start = (\<lambda>(g, k).
     let prev_screen_num = screen_num (tty k);
         k = k\<lparr>tty := (tty k)\<lparr>screen_num := n\<rparr>\<rparr>;
         k = kernel_send_eoi 1 k
     in case terminal_switch (conv_buf E) n prev_screen_num (view k, tty k) of
          None \<Rightarrow> None
        | Some (m, s) \<Rightarrow>
            (let k = set_view m (k\<lparr>tty := s\<rparr>);
                 started =
                   (if start
                    then (let g = clear_start g;
                              k = k\<lparr>initial_shell := 1\<rparr>;
                              k = set_view (store_bytes (view k) fname (ascii ''shell'' @ replicate 28 0)) k;
                              k = k\<lparr>clock := (clock k)\<lparr>ports := sti (ports (clock k))\<rparr>\<rparr>
                          in map_option (\<lambda>(k, c). (g, k, c)) (execute E fname k))
                    else Some (g, k, Return 0))
             in case started of
                  None \<Rightarrow> None
                | Some (g, k, Return r) \<Rightarrow>
                    if screen_num (tty k) \<noteq> prev_screen_num
                    then (let temp = of_int (screen_num (tty k));
                              cur = pcb_addr temp;
                              temp = (if child_flag (pcbs k cur) \<noteq> 0 then child (pcbs k cur) else temp)
                          in Some (g, context_switch E temp k))
                    else Some (g, k, Return 0)
                | Some (g, k, c) \<Rightarrow> Some (g, k, c)))"

section \<open>The handler\<close>

definition kbd_logic ::
  "env \<Rightarrow> u32 \<Rightarrow> u32 \<Rightarrow> nat option \<Rightarrow> keyboard \<times> kernel \<Rightarrow> (keyboard \<times> kernel \<times> control) option" where
  "kbd_logic E fname to_print buffer = (\<lambda>(g, k).
     let g = modifiers to_print g
     in if ctrl g \<noteq> 0 \<and> to_print = 0x26
        then (case buffer of
                None \<Rightarrow> None
              | Some b \<Rightarrow>
                  map_option (\<lambda>s. (g, k\<lparr>tty := s\<lparr>limit := 0, line_count := 0\<rparr>\<rparr>, Return 0))
                    (on_buffer (reset_buf b) (tty k)))
        else if alt g \<noteq> 0 \<and> to_print = 0x3E then Some (g, context_switch E 0 k)
        else if alt g \<noteq> 0 \<and> to_print = 0x3F then Some (g, context_switch E 1 k)
        else if alt g \<noteq> 0 \<and> (to_print = 0x3B \<or> to_print = 0x3C \<or> to_print = 0x3D)
        then (if to_print = 0x3C then switch_to E fname 1 (term2 g \<noteq> 0) (\<lambda>g. g\<lparr>term2 := 0\<rparr>) (g, k)
              else if to_print = 0x3D then switch_to E fname 2 (term3 g \<noteq> 0) (\<lambda>g. g\<lparr>term3 := 0\<rparr>) (g, k)
              else switch_to E fname 0 False id (g, k))
        else (case buffer of
                None \<Rightarrow> None
              | Some b \<Rightarrow> map_option (\<lambda>(g, s). (g, k\<lparr>tty := s\<rparr>, Return 0)) (typing to_print b (g, tty k))))"

text \<open>\<open>lit\<close> is the address of the status line. \<open>disable_rtc_test\<close> clears a flag nothing reads.\<close>

definition kbd_int_handler ::
  "env \<Rightarrow> u32 \<Rightarrow> u32 \<Rightarrow> keyboard \<times> kernel \<Rightarrow> (keyboard \<times> kernel \<times> control) option" where
  "kbd_int_handler E fname lit = (\<lambda>(g, k).
     let buffer = pass_buff (tty k);
         g = g\<lparr>reset_flag := 1\<rparr>;
         (to_print, p) = inb (dev E) 0x60 (ports (clock k));
         k = k\<lparr>clock := (clock k)\<lparr>ports := p\<rparr>\<rparr>
     in case kbd_logic E fname to_print buffer (g, k) of
          None \<Rightarrow> None
        | Some (g, k, Return r) \<Rightarrow>
            (let buffer = pass_buff (tty k);
                 (m, s) = status_bar lit (view k, tty k);
                 s = (if to_print = 0x1C then s\<lparr>enter_press := 1\<rparr> else s\<lparr>enter_press := 0\<rparr>)
             in case show_buffer (conv_buf E) buffer (m, s) of
                  None \<Rightarrow> None
                | Some (m, s) \<Rightarrow> Some (g, kernel_send_eoi 1 (set_view m (k\<lparr>tty := s\<rparr>)), Return 0))
        | Some (g, k, c) \<Rightarrow> Some (g, k, c))"

definition pass_count :: "terminal \<Rightarrow> int" where
  "pass_count s = line_count s"

definition dummy_int_handler :: "env \<Rightarrow> kernel \<Rightarrow> kernel option" where
  "dummy_int_handler E k = kernel_printf E (ascii ''DUMMY INTERRUPT HANDLER'') k"

end
