(* ===== verification/Timer.thy ===== *)
theory Timer
  imports TerminalSpec FileCalls Pic
begin

text \<open>
  The programmable interval timer, \<open>pit.c\<close>, and the speaker, the used part of \<open>music.c\<close>: programming
  the channels of the 8253, the timer interrupt that drives the clock of the status bar, and tones.
\<close>

section \<open>Programming the timer\<close>

abbreviation (input) HIGHEST_FREQ :: int where "HIGHEST_FREQ \<equiv> 1193180"

text \<open>\<open>None\<close> is the division by zero; the quotient is cut to the 16 bits of \<open>data\<close>.\<close>

definition init_pit :: "device \<Rightarrow> u32 \<Rightarrow> u32 \<Rightarrow> io \<Rightarrow> io option" where
  "init_pit hw channel freq s =
     (let s = enable_irq hw 0 s
      in if freq = 0 then None
         else (let data = (of_int (HIGHEST_FREQ sdiv sint freq) :: u16)
               in if channel = 0
                  then (let s = outb 0x36 0x43 s;
                            s = outb (ucast (data AND 0xFF)) 0x40 s
                        in Some (outb (ucast (drop_bit 8 data AND 0xFF)) 0x40 s))
                  else if channel = 2
                  then (let s = outb 0x36 0x43 s;
                            s = outb (ucast (data AND 0xFF)) 0x42 s
                        in Some (outb (ucast (drop_bit 8 data AND 0xFF)) 0x42 s))
                  else Some s))"

text \<open>\<open>play_sound\<close> and \<open>nosound\<close>. \<open>Div\<close> is written a byte at a time, so it is cut to 16 bits.\<close>

definition play_sound :: "device \<Rightarrow> u32 \<Rightarrow> io \<Rightarrow> io" where
  "play_sound hw sound_freq s =
     (let s = cli s;
          Div = (if sound_freq \<noteq> 0 then 1193180 div sound_freq else 1193180 div 30000);
          s = outb 0xB6 0x43 s;
          s = outb (ucast (ucast Div :: u8)) 0x42 s;
          s = outb (ucast (ucast (drop_bit 8 Div) :: u8)) 0x42 s;
          (tmp, s) = inb hw 0x61 s;
          s = (if tmp \<noteq> tmp OR 3 then outb (tmp OR 3) 0x61 s else s)
      in sti s)"

definition nosound :: "device \<Rightarrow> io \<Rightarrow> io" where
  "nosound hw s =
     (let (tmp, s) = inb hw 0x61 s; tmp = tmp AND 0xFC
      in outb tmp 0x61 s)"

text \<open>The branches of \<open>music\<close> differ in the key only.\<close>

definition music :: "device \<Rightarrow> u32 \<Rightarrow> io \<Rightarrow> io \<times> u32" where
  "music hw to_print s =
     (if to_print \<in> {62, 63, 64, 65, 66, 67, 68, 87, 88}
      then (nosound hw ((play_sound hw 1000 ^^ 10000) s), 1)
      else (s, 3))"

text \<open>
  The notes of \<open>music.c\<close> in hundredths of a Hertz, and the tune \<open>imperial\<close>. A note is a \<open>double\<close> and the
  parameter of \<open>play_sound\<close> an integer, so the fraction is cut off. A block of the tune plays a note for
  10000 rounds and stops it, or plays it twice in each round.
\<close>

definition note_table :: "(string \<times> nat) list" where
  "note_table =
    [(''C0'', 1635), (''Db0'', 1732), (''D0'', 1835), (''Eb0'', 1945), (''E0'', 2060), (''F0'', 2183),
     (''Gb0'', 2312), (''G0'', 2450), (''Ab0'', 2596), (''LA0'', 2750), (''Bb0'', 2914), (''B0'', 3087),
     (''C1'', 3270), (''Db1'', 3465), (''D1'', 3671), (''Eb1'', 3889), (''E1'', 4120), (''F1'', 4365),
     (''Gb1'', 4625), (''G1'', 4900), (''Ab1'', 5191), (''LA1'', 5500), (''Bb1'', 5827), (''B1'', 6174),
     (''C2'', 6541), (''Db2'', 6930), (''D2'', 7342), (''Eb2'', 7778), (''E2'', 8241), (''F2'', 8731),
     (''Gb2'', 9250), (''G2'', 9800), (''Ab2'', 10383), (''LA2'', 11000), (''Bb2'', 11654), (''B2'', 12347),
     (''C3'', 13081), (''Db3'', 13859), (''D3'', 14683), (''Eb3'', 15556), (''E3'', 16481), (''F3'', 17461),
     (''Gb3'', 18500), (''G3'', 19600), (''Ab3'', 20765), (''LA3'', 22000), (''Bb3'', 23308), (''B3'', 24694),
     (''C4'', 26163), (''Db4'', 27718), (''D4'', 29366), (''Eb4'', 31113), (''E4'', 32963), (''F4'', 34923),
     (''Gb4'', 36999), (''G4'', 39200), (''Ab4'', 41530), (''LA4'', 44000), (''Bb4'', 46616), (''B4'', 49388),
     (''C5'', 52325), (''Db5'', 55437), (''D5'', 58733), (''Eb5'', 62225), (''E5'', 65926), (''F5'', 69846),
     (''Gb5'', 73999), (''G5'', 78399), (''Ab5'', 83061), (''LA5'', 88000), (''Bb5'', 93233), (''B5'', 98777),
     (''C6'', 104650), (''Db6'', 110873), (''D6'', 117466), (''Eb6'', 124451), (''E6'', 131851),
     (''F6'', 139691), (''Gb6'', 147998), (''G6'', 156798), (''Ab6'', 166122), (''LA6'', 176000),
     (''Bb6'', 186466), (''B6'', 197553), (''C7'', 209300), (''Db7'', 221746), (''D7'', 234932),
     (''Eb7'', 248902), (''E7'', 263702), (''F7'', 279383), (''Gb7'', 295996), (''G7'', 313596),
     (''Ab7'', 332244), (''LA7'', 352001), (''Bb7'', 372931), (''B7'', 395107), (''C8'', 418601),
     (''Db8'', 443492), (''D8'', 469864), (''Eb8'', 497803)]"

definition note_freq :: "string \<Rightarrow> u32" where
  "note_freq n = (case map_of note_table n of None \<Rightarrow> 0 | Some f \<Rightarrow> of_nat (f div 100))"

datatype block = Tone string | Twice string

fun play_block :: "device \<Rightarrow> block \<Rightarrow> io \<Rightarrow> io" where
  "play_block hw (Tone n) s = nosound hw ((play_sound hw (note_freq n) ^^ 10000) s)"
| "play_block hw (Twice n) s =
     ((\<lambda>s. nosound hw (play_sound hw (note_freq n) (nosound hw (play_sound hw (note_freq n) s)))) ^^ 10000) s"

definition imperial_theme :: "block list" where
  "imperial_theme =
    [Tone ''LA3'', Tone ''LA3'', Tone ''LA3'', Tone ''F3'', Tone ''C4'', Tone ''LA3'', Tone ''F3'',
     Tone ''C4'', Tone ''LA3'', Tone ''E4'', Tone ''E4'', Tone ''E4'', Tone ''F4'', Tone ''C4'', Tone ''Ab3'',
     Tone ''F3'', Tone ''C4'', Tone ''LA3'', Tone ''LA4'', Tone ''LA3'', Tone ''LA3'', Tone ''LA4'',
     Tone ''Ab4'', Tone ''G4'', Tone ''Gb4'', Tone ''E4'', Twice ''F4'', Tone ''Bb3'', Tone ''Eb4'',
     Tone ''D4'', Tone ''Db4'', Tone ''C4'', Tone ''B3'', Twice ''C4'']"

definition imperial_reprise :: "block list" where
  "imperial_reprise =
    [Tone ''F3'', Tone ''Ab3'', Tone ''F3'', Tone ''LA3'', Tone ''C4'', Tone ''LA3'', Tone ''C4'', Tone ''E4'',
     Tone ''LA4'', Tone ''LA3'', Tone ''LA3'', Tone ''LA4'', Tone ''Ab4'', Tone ''G4'', Tone ''Gb4'',
     Tone ''E4'', Twice ''F4'', Tone ''Bb3'', Tone ''Eb4'', Tone ''D4'', Tone ''Db4'', Tone ''C4'',
     Tone ''B3'', Twice ''C4'', Tone ''F3'', Tone ''Ab3'', Tone ''F3'', Tone ''C4'', Tone ''LA3'', Tone ''F3'',
     Tone ''C4'', Tone ''LA3'']"

definition imperial :: "device \<Rightarrow> io \<Rightarrow> io" where
  "imperial hw s = fold (play_block hw) (imperial_theme @ imperial_reprise) s"

section \<open>The timer interrupt\<close>

text \<open>
  \<open>pit_int_num\<close> is kept next to the kernel; \<open>lit\<close> is the address of the status line, a string literal.
\<close>

definition pit_int_handler :: "u32 \<Rightarrow> u32 \<times> kernel \<Rightarrow> (u32 \<times> kernel) option" where
  "pit_int_handler lit = (\<lambda>(pit_int_num, k).
     let k = k\<lparr>clock := (clock k)\<lparr>ports := cli (ports (clock k))\<rparr>\<rparr>;
         pit_int_num = pit_int_num + 1;
         (m, s) = status_bar lit (view k, tty k);
         k = set_view m (k\<lparr>tty := s\<rparr>);
         k' = (if sint pit_int_num smod 100 = 0
               then map_option (\<lambda>(st, m, s). set_view m (k\<lparr>tty := s\<lparr>status := st\<rparr>\<rparr>))
                      (embed_time (status (tty k)) (view k, tty k))
               else Some k)
     in map_option
          (\<lambda>k. let k = k\<lparr>clock := (clock k)\<lparr>ports := sti (ports (clock k))\<rparr>\<rparr>
               in (pit_int_num, kernel_send_eoi 0 k)) k')"

section \<open>The 8253\<close>

text \<open>
  The timer chip: for each channel the mode, the access mode (1 low byte, 2 high byte, 3 low then
  high), whether the next write is the high byte, and the reload value, of which 0 stands for 65536.
\<close>

record pit_channel =
  pit_mode :: nat
  access :: nat
  high_next :: bool
  reload :: u16

type_synonym pit = "nat \<Rightarrow> pit_channel"

definition pit_control :: "u8 \<Rightarrow> pit \<Rightarrow> pit" where
  "pit_control v c =
     (let n = unat (drop_bit 6 v); a = unat (drop_bit 4 v AND 3)
      in if n = 3 \<or> a = 0 then c
         else c(n := (c n)\<lparr>pit_mode := unat (drop_bit 1 v AND 7), access := a, high_next := False\<rparr>))"

definition low_byte_set :: "u8 \<Rightarrow> u16 \<Rightarrow> u16" where
  "low_byte_set v x = push_bit 8 (drop_bit 8 x) OR ucast v"

definition high_byte_set :: "u8 \<Rightarrow> u16 \<Rightarrow> u16" where
  "high_byte_set v x = take_bit 8 x OR push_bit 8 (ucast v)"

definition pit_data :: "nat \<Rightarrow> u8 \<Rightarrow> pit \<Rightarrow> pit" where
  "pit_data n v c =
     (let ch = c n;
          ch' = (if access ch = 1 then ch\<lparr>reload := ucast v\<rparr>
                 else if access ch = 2 then ch\<lparr>reload := push_bit 8 (ucast v)\<rparr>
                 else if high_next ch then ch\<lparr>reload := high_byte_set v (reload ch), high_next := False\<rparr>
                 else ch\<lparr>reload := low_byte_set v (reload ch), high_next := True\<rparr>)
      in c(n := ch'))"

fun pit_event :: "io_event \<Rightarrow> pit \<Rightarrow> pit" where
  "pit_event (InB p) c = c"
| "pit_event (OutB p v) c =
     (if p = 0x43 then pit_control v c else if p = 0x40 then pit_data 0 v c else if p = 0x41 then pit_data 1 v c
      else if p = 0x42 then pit_data 2 v c else c)"

definition pit_run :: "pit \<Rightarrow> io_event list \<Rightarrow> pit" where
  "pit_run c log = foldr pit_event log c"

lemma pit_run_simps [simp]:
  "pit_run c [] = c"
  "pit_run c (e # log) = pit_event e (pit_run c log)"
  by (simp_all add: pit_run_def)

text \<open>The number of input clocks in a period of a channel.\<close>

definition period :: "pit_channel \<Rightarrow> nat" where
  "period ch = (if reload ch = 0 then 65536 else unat (reload ch))"

lemma bytes_set: "high_byte_set (ucast (drop_bit 8 x)) (low_byte_set (ucast x) y) = (x :: u16)"
  unfolding high_byte_set_def low_byte_set_def
  by (rule bit_word_eqI) (auto simp: bit_simps)

section \<open>Programming a channel\<close>

lemma square_wave: "pit_control 0x36 c = c(0 := (c 0)\<lparr>pit_mode := 3, access := 3, high_next := False\<rparr>)"
  and speaker_wave: "pit_control 0xB6 c = c(2 := (c 2)\<lparr>pit_mode := 3, access := 3, high_next := False\<rparr>)"
  by (simp_all add: pit_control_def Let_def)

lemma byte_out: "(ucast (ucast (x AND 0xFF :: u16) :: u32) :: u8) = ucast x"
proof -
  have "x AND 0xFF = take_bit 8 x" by (simp add: take_bit_eq_mask mask_eq_exp_minus_1)
  then show ?thesis by (simp only:) (rule bit_word_eqI, simp add: bit_simps)
qed

lemma two_bytes:
  assumes "access (c n) = 3" and "\<not> high_next (c n)"
  shows "pit_data n (ucast (drop_bit 8 (x :: u16))) (pit_data n (ucast x) c) = c(n := (c n)\<lparr>reload := x, high_next := False\<rparr>)"
  using assms by (simp add: pit_data_def Let_def bytes_set)

lemma program_channel:
  assumes "n = 0 \<and> v = 0x36 \<or> n = 2 \<and> v = 0xB6"
  shows "pit_data n (ucast (drop_bit 8 (x :: u16))) (pit_data n (ucast x) (pit_control v c)) =
    c(n := \<lparr>pit_mode = 3, access = 3, high_next = False, reload = x\<rparr>)"
  using assms by (auto simp: square_wave speaker_wave two_bytes)

lemma divisor_16:
  assumes "19 \<le> f" and "f \<le> 1193180"
  shows "0 < 1193180 div f" "1193180 div f < (65536 :: nat)"
proof -
  show "0 < 1193180 div f" using assms by (simp add: div_greater_zero_iff)
  have "1193180 div f \<le> 1193180 div 19" using assms(1) by (intro div_le_mono2) simp_all
  then show "1193180 div f < 65536" by simp
qed


lemma sdiv_of_nat: "f < 2147483648 \<Longrightarrow> (of_int (HIGHEST_FREQ sdiv sint (of_nat f :: u32)) :: u16) = of_nat (1193180 div f)"
proof -
  assume "f < 2147483648"
  then have "HIGHEST_FREQ sdiv sint (of_nat f :: u32) = int (1193180 div f)"
    by (cases "f = 0") (simp_all add: sint_of_nat32 signed_divide_int_def zdiv_int)
  then show ?thesis by (simp only: of_int_of_nat_eq)
qed

lemma init_pit_trace:
  assumes "0 < f" and "f < 2147483648" and "channel = 0 \<or> channel = 2"
  defines "x \<equiv> (of_nat (1193180 div f) :: u16)"
  defines "port \<equiv> (if channel = 0 then 0x40 else 0x42 :: u16)"
  shows "\<exists>s'. init_pit hw channel (of_nat f) s = Some s' \<and> trace s' =
    [OutB port (ucast (drop_bit 8 x)), OutB port (ucast x), OutB 0x43 0x36] @ trace (enable_irq hw 0 s)"
proof -
  have "(of_nat f :: u32) \<noteq> 0" using assms(1,2) of_nat_eq32 [of f 0] by simp
  then show ?thesis
    using assms(3) sdiv_of_nat [OF assms(2)] by (auto simp: init_pit_def Let_def port_defs byte_out x_def port_def)
qed

section \<open>The speaker\<close>

text \<open>Port \<open>0x61\<close>: bits 0 and 1 connect channel 2 to the speaker; both can be read back.\<close>

fun gate_event :: "io_event \<Rightarrow> u8 \<Rightarrow> u8" where
  "gate_event (InB p) g = g"
| "gate_event (OutB p v) g = (if p = 0x61 then v AND 3 else g)"

definition gate :: "u8 \<Rightarrow> io_event list \<Rightarrow> u8" where
  "gate g log = foldr gate_event log g"

lemma gate_simps [simp]:
  "gate g [] = g"
  "gate g (e # log) = gate_event e (gate g log)"
  by (simp_all add: gate_def)

definition reads_gate :: "u8 \<Rightarrow> device \<Rightarrow> bool" where
  "reads_gate g hw \<longleftrightarrow> (\<forall>log. hw log 0x61 AND 3 = gate g log)"

lemma gate_bits: "(ucast (ucast (v :: u8) OR 3 :: u32) :: u8) AND 3 = 3" "(ucast (ucast (v :: u8) AND 0xFC :: u32) :: u8) AND 3 = 0"
  by (simp_all add: unsigned_or_eq unsigned_and_eq and.assoc bit.conj_disj_distrib2)

lemma gate_on: "(ucast v :: u32) = ucast v OR 3 \<Longrightarrow> (v :: u8) AND 3 = 3"
  using gate_bits(1) [of v] by simp

lemma enable_0: "(\<exists>v. trace (enable_irq hw 0 s) = OutB 0x21 v # InB 0x21 # trace s) \<and> intr_on (enable_irq hw 0 s) = intr_on s"
  by (simp add: enable_irq_def port_defs Let_def)

text \<open>A tone, whatever the speaker's state, sets channel 2 and connects it.\<close>

lemma play_sound_ports:
  assumes "reads_gate g hw" and "x = (if f \<noteq> 0 then 1193180 div f else 1193180 div 30000)"
  defines "ch \<equiv> \<lparr>pit_mode = 3, access = 3, high_next = False, reload = ucast x\<rparr>"
  shows "pit_run c (trace (play_sound hw f s)) = (pit_run c (trace s))(2 := ch) \<and> gate g (trace (play_sound hw f s)) = 3
    \<and> intr_on (play_sound hw f s)"
proof -
  have b: "(ucast (ucast (x :: u32) :: u8) :: u8) = ucast (ucast x :: u16)"
    "(ucast (drop_bit 8 x) :: u8) = ucast (drop_bit 8 (ucast x :: u16))"
    by (rule bit_word_eqI; simp add: bit_simps)+
  define log where "log = [OutB 0x42 (ucast (drop_bit 8 (ucast x :: u16))), OutB 0x42 (ucast (ucast x :: u16)), OutB 0x43 0xB6] @ trace s"
  have run: "pit_run c log = (pit_run c (trace s))(2 := ch)"
    using program_channel [of 2 "0xB6" "ucast x" "pit_run c (trace s)"] by (simp add: log_def ch_def)
  have g: "gate g log = gate g (trace s)" "hw log 0x61 AND 3 = gate g log" using assms(1) by (simp_all add: log_def reads_gate_def)
  have s: "trace (play_sound hw f s) = (if (ucast (hw log 0x61) :: u32) \<noteq> ucast (hw log 0x61) OR 3
      then [OutB 0x61 (ucast (ucast (hw log 0x61) OR 3 :: u32)), InB 0x61] @ log else InB 0x61 # log)" "intr_on (play_sound hw f s)"
    using b by (simp_all add: play_sound_def Let_def port_defs log_def assms(2) [symmetric])
  show ?thesis using s run g gate_on [of "hw log 0x61"] gate_bits(1) [of "hw log 0x61"] by auto
qed

lemma nosound_ports:
  "pit_run c (trace (nosound hw s)) = pit_run c (trace s) \<and> gate g (trace (nosound hw s)) = 0 \<and> intr_on (nosound hw s) = intr_on s"
  using gate_bits(2) [of "hw (trace s) 0x61"] by (simp add: nosound_def Let_def port_defs)

text \<open>Only channel 2 differs.\<close>

definition only_speaker :: "pit \<Rightarrow> io \<Rightarrow> io \<Rightarrow> bool" where
  "only_speaker c s s' \<longleftrightarrow> (\<forall>n. n \<noteq> 2 \<longrightarrow> pit_run c (trace s') n = pit_run c (trace s) n)"

lemma only_speaker_refl: "only_speaker c s s"
  by (simp add: only_speaker_def)

lemma only_speaker_trans: "only_speaker c s s' \<Longrightarrow> only_speaker c s' s'' \<Longrightarrow> only_speaker c s s''"
  by (simp add: only_speaker_def)

lemma only_speaker_power: "(\<And>s. only_speaker c s (f s)) \<Longrightarrow> only_speaker c s ((f ^^ n) s)"
  by (induction n) (auto intro: only_speaker_refl only_speaker_trans)

lemma play_block_ports:
  assumes "reads_gate g hw"
  shows "only_speaker c s (play_block hw b s) \<and> gate g (trace (play_block hw b s)) = 0"
proof -
  have p: "only_speaker c s (play_sound hw f s)" for f s
    using play_sound_ports [OF assms refl, of c f s] by (simp add: only_speaker_def)
  have n: "only_speaker c s (nosound hw s)" "gate g (trace (nosound hw s)) = 0" for s
    using nosound_ports [of c hw s g] by (simp_all add: only_speaker_def)
  show ?thesis
  proof (cases b)
    case (Tone x)
    moreover have "only_speaker c s ((play_sound hw (note_freq x) ^^ 10000) s)" by (rule only_speaker_power) (rule p)
    ultimately show ?thesis using n only_speaker_trans by (simp only: play_block.simps)
  next
    case (Twice x)
    define f where "f = (\<lambda>s. nosound hw (play_sound hw (note_freq x) (nosound hw (play_sound hw (note_freq x) s))))"
    have "only_speaker c s (f s)" for s unfolding f_def using n p by (blast intro: only_speaker_trans)
    then have "only_speaker c s ((f ^^ 10000) s)" by (rule only_speaker_power)
    moreover have "gate g (trace ((f ^^ Suc 9999) s)) = 0" by (simp only: funpow.simps comp_apply) (simp add: f_def n)
    ultimately show ?thesis by (simp add: Twice f_def del: funpow.simps)
  qed
qed

section \<open>The status bar\<close>

lemma row_24:
  assumes "i < 2000"
  shows "in_range VIDEO 4000 (cell (int i))" and "in_range VIDEO 4000 (cell (int i) + 1)"
proof -
  have c: "cell (int i) = VIDEO + of_nat (2 * i)" "cell (int i) + 1 = VIDEO + of_nat (2 * i + 1)"
    by (simp_all add: cell_offset)
  have "2 * i < 4294967296" "2 * i + 1 < 4294967296" "2 * i < 4000" "2 * i + 1 < 4000" using assms by simp_all
  then show "in_range VIDEO 4000 (cell (int i))" "in_range VIDEO 4000 (cell (int i) + 1)"
    by (simp_all only: c(1) in_range_offset) (simp only: c(1) [symmetric] c(2) in_range_offset)
qed

text \<open>Row 24 has 160 bytes, from offset 3840 of the video memory.\<close>

abbreviation status_area :: "u32 \<Rightarrow> bool" where
  "status_area \<equiv> in_range (VIDEO + 3840) 160"

lemma status_area_screen: "status_area x \<Longrightarrow> in_range VIDEO 4000 x"
  by (rule in_range_sub) simp_all

lemma status_cell:
  assumes "1920 \<le> i" and "i < 2000"
  shows "status_area (cell (int i))" and "status_area (cell (int i) + 1)"
proof -
  obtain j where j: "i = 1920 + j" using assms(1) le_Suc_ex by blast
  have c: "cell (int i) = VIDEO + 3840 + of_nat (2 * j)" "cell (int i) + 1 = VIDEO + 3840 + of_nat (2 * j + 1)"
    by (simp_all add: cell_offset j algebra_simps)
  have lt: "2 * j < 160" "2 * j + 1 < 160" using assms(2) j by simp_all
  show "status_area (cell (int i))" unfolding c(1) using lt(1) by (subst in_range_offset) simp_all
  show "status_area (cell (int i) + 1)" unfolding c(2) using lt(2) by (subst in_range_offset) simp_all
qed

lemma status_area_cell:
  assumes "i < 1920"
  shows "\<not> status_area (cell (int i))" and "\<not> status_area (cell (int i) + 1)"
proof -
  have *: "\<not> status_area (VIDEO + of_nat n)" if "n < 3840" for n
  proof
    assume "status_area (VIDEO + of_nat n)"
    then obtain j where "j < 160" "VIDEO + of_nat n = VIDEO + 3840 + of_nat j" using in_range_D by blast
    then have "(of_nat n :: u32) = of_nat (3840 + j)" by (simp add: algebra_simps)
    then show False using that \<open>j < 160\<close> of_nat_eq32 [of n "3840 + j"] by simp
  qed
  have "2 * i < 3840" "2 * i + 1 < 3840" using assms by simp_all
  then show "\<not> status_area (cell (int i))" "\<not> status_area (cell (int i) + 1)"
    using * [of "2 * i"] * [of "2 * i + 1"] by (simp_all add: cell_offset add.assoc)
qed

text \<open>Writes of attributes in row 24: characters and the memory outside of that row stay.\<close>

definition keeps_text :: "mem \<Rightarrow> mem \<Rightarrow> bool" where
  "keeps_text m m' \<longleftrightarrow> (\<forall>i < 2000. m' (cell (int i)) = m (cell (int i))) \<and> (\<forall>x. \<not> status_area x \<longrightarrow> m' x = m x)"

lemma keeps_text_refl: "keeps_text m m"
  by (simp add: keeps_text_def)

lemma keeps_text_attr: "keeps_text m m' \<Longrightarrow> 1920 \<le> i \<Longrightarrow> i < 2000 \<Longrightarrow> keeps_text m (m'(cell i + 1 := a))"
proof -
  assume k: "keeps_text m m'" and i: "1920 \<le> i" "i < 2000"
  have "cell (int j) \<noteq> cell i + 1" if "j < 2000" for j using that i by (intro cell_eq_iff) simp_all
  moreover have "status_area (cell i + 1)" using status_cell(2) [of "nat i"] i by simp
  ultimately show ?thesis using k by (auto simp: keeps_text_def)
qed

lemma switch_status_keeps: "\<exists>m'. switch_status (m, s) = (m', s) \<and> keeps_text m m'"
  by (auto simp: switch_status_def intro!: keeps_text_attr keeps_text_refl)

lemma set_colour_keeps: "0 \<le> x \<Longrightarrow> x < 80 \<Longrightarrow> y = 24 \<Longrightarrow> keeps_text m m' \<Longrightarrow> keeps_text m (set_colour x y c m')"
  by (simp add: set_colour_def keeps_text_attr)

definition paint_status :: "u32 \<Rightarrow> nat \<Rightarrow> mem \<Rightarrow> mem" where
  "paint_status lit j m = (let i = int (1920 + j); m = m(cell i + 1 := 0x90) in m(cell i := m (lit + of_nat j)))"

lemma status_row:
  assumes "disj_ranges VIDEO 4000 lit 80" and "n \<le> 80"
  shows "(\<forall>j < n. fold (paint_status lit) [0..<n] m (cell (int (1920 + j))) = m (lit + of_nat j))
    \<and> (\<forall>x. \<not> status_area x \<longrightarrow> fold (paint_status lit) [0..<n] m x = m x)"
  using assms(2)
proof (induction n)
  case (Suc n)
  define m1 where "m1 = fold (paint_status lit) [0..<n] m"
  define i where "i = int (1920 + n)"
  have IH: "\<forall>j < n. m1 (cell (int (1920 + j))) = m (lit + of_nat j)" "\<forall>x. \<not> status_area x \<longrightarrow> m1 x = m x"
    using Suc by (simp_all add: m1_def)
  have lit: "\<not> status_area (lit + of_nat n)"
    using disj_rangesD2 [OF assms(1), of "lit + of_nat n"] Suc.prems status_area_screen by (auto simp: in_range_offset)
  have at: "status_area (cell i)" "status_area (cell i + 1)" using status_cell [of "1920 + n"] Suc.prems by (simp_all add: i_def)
  have "fold (paint_status lit) [0..<Suc n] m = paint_status lit n m1" by (simp add: m1_def)
  also have "\<dots> = m1(cell i + 1 := 0x90, cell i := m (lit + of_nat n))"
    using IH(2) lit at(2) by (auto simp: paint_status_def i_def Let_def)
  finally have eq: "fold (paint_status lit) [0..<Suc n] m = m1(cell i + 1 := 0x90, cell i := m (lit + of_nat n))" .
  have "cell (int (1920 + j)) \<noteq> cell i" "cell (int (1920 + j)) \<noteq> cell i + 1" if "j < n" for j
    using that Suc.prems cell_eq_iff(1) [of "int (1920 + j)" i] cell_eq_iff(3) [of "int (1920 + j)" i] by (simp_all add: i_def)
  then show ?case
    unfolding eq using IH at by (auto simp: less_Suc_eq i_def)
qed simp

lemma status_bar_row:
  assumes "disj_ranges VIDEO 4000 lit 80"
  shows "\<exists>m'. status_bar lit (m, s) = (m', s\<lparr>status := lit\<rparr>) \<and> (\<forall>j < 80. m' (cell (int (1920 + j))) = m (lit + of_nat j))
    \<and> (\<forall>x. \<not> status_area x \<longrightarrow> m' x = m x)"
proof -
  define m1 where "m1 = fold (paint_status lit) [0..<80] m"
  note m1 = status_row [OF assms, of 80 m, folded m1_def]
  obtain m2 where m2: "switch_status (m1, s\<lparr>status := lit\<rparr>) = (m2, s\<lparr>status := lit\<rparr>)" "keeps_text m1 m2"
    using switch_status_keeps by blast
  define m3 where "m3 = (if (mouse_x s > - 1 \<and> mouse_x s < 80) \<and> mouse_y s = 24 then set_colour (mouse_x s) (mouse_y s) 0x64 m2 else m2)"
  have "status_bar lit (m, s) = (m3, s\<lparr>status := lit\<rparr>)"
    using m2(1) by (simp add: status_bar_def m3_def m1_def paint_status_def [abs_def] Let_def del: upt_rec_numeral
      cong del: prod.case_cong_weak if_weak_cong)
  moreover have k3: "keeps_text m1 m3" using m2(2) by (auto simp: m3_def intro: set_colour_keeps)
  have "m3 (cell (int (1920 + j))) = m1 (cell (int (1920 + j)))" if "j < 80" for j
    using that k3 by (auto simp: keeps_text_def dest: spec [of _ "1920 + j"])
  ultimately show ?thesis using m1 k3 by (auto simp: keeps_text_def simp del: of_nat_add)
qed

section \<open>The clock\<close>

text \<open>The status line after \<open>n\<close> timer interrupts, from the line \<open>bs\<close> and the time of \<open>v\<close>.\<close>

definition clock_text :: "u8 list \<Rightarrow> nat \<Rightarrow> nat \<Rightarrow> u8 list" where
  "clock_text bs v n =
     (if n < 100 then bs
      else take 61 bs @ ascii ''Time Elapsed'' @ [bs ! 73] @ time_text ((v + n div 100) mod 3600) @ [bs ! 79])"

lemma clock_text_length: "length bs = 80 \<Longrightarrow> length (clock_text bs v n) = 80"
  by (simp add: clock_text_def ascii_def time_text_def)

lemma clock_text_parts:
  assumes "length bs = 80"
  shows "take 61 (clock_text bs v n) = take 61 bs" "clock_text bs v n ! 73 = bs ! 73" "clock_text bs v n ! 79 = bs ! 79"
  using assms by (simp_all add: clock_text_def nth_append ascii_def time_text_def)

lemma view_tty [simp]: "view (k\<lparr>tty := s\<rparr>) = view k"
  by (auto simp: view_def fun_eq_iff split: option.splits)

lemma tick_count: "n < 2147483647 \<Longrightarrow> sint (of_nat n + 1 :: u32) smod 100 = int (Suc n mod 100)"
proof -
  assume n: "n < 2147483647"
  have "(of_nat n + 1 :: u32) = of_nat (Suc n)" by simp
  then have "sint (of_nat n + 1 :: u32) = int (Suc n)" using n by (simp only: sint_of_nat32)
  then show ?thesis by (simp only: smod_small) (simp add: zmod_int smod_small)
qed

lemma clock_text_next:
  assumes "length bs = 80" and "Suc n mod 100 = 0"
  shows "take 61 (clock_text bs v n) @ ascii ''Time Elapsed'' @ [clock_text bs v n ! 73]
      @ time_text (Suc ((v + n div 100) mod 3600) mod 3600) @ [clock_text bs v n ! 79] = clock_text bs v (Suc n)"
proof -
  have "Suc n div 100 = Suc (n div 100)" "100 \<le> Suc n" using assms(2) by (simp_all add: div_Suc) (cases "n < 99"; simp)
  then show ?thesis by (simp add: clock_text_parts [OF assms(1)] clock_text_def [of bs v "Suc n"] mod_Suc_eq)
qed

lemma clock_text_same: "Suc n mod 100 \<noteq> 0 \<Longrightarrow> clock_text bs v (Suc n) = clock_text bs v n"
  by (cases "Suc n = 100") (auto simp: clock_text_def div_Suc)

lemma one_tick:
  assumes "cstr (view k) lit bs'" and "bs' = clock_text bs v n" and "length bs = 80" and "disj_ranges VIDEO 4000 lit 81"
    and "sys_time (tty k) = time_text ((v + n div 100) mod 3600)" and "n < 2147483647"
  shows "\<exists>k'. pit_int_handler lit (of_nat n, k) = Some (of_nat (Suc n), k')
    \<and> tty k' = (tty k)\<lparr>status := lit, sys_time := time_text ((v + Suc n div 100) mod 3600)\<rparr>
    \<and> cstr (view k') lit (clock_text bs v (Suc n)) \<and> (\<forall>j < 80. view k' (cell (int (1920 + j))) = bs' ! j)
    \<and> intr_on (ports (clock k')) \<and> trace (ports (clock k')) = OutB 0x20 0x60 # trace (ports (clock k))
    \<and> (\<forall>x. \<not> status_area x \<longrightarrow> \<not> in_range lit 80 x \<longrightarrow> view k' x = view k x)"
proof -
  define k0 where "k0 = k\<lparr>clock := (clock k)\<lparr>ports := cli (ports (clock k))\<rparr>\<rparr>"
  have len: "length bs' = 80" using clock_text_length [OF assms(3)] assms(2) by simp
  have "disj_ranges VIDEO 4000 lit 80" by (rule disj_ranges_sub [OF assms(4)]) simp_all
  from status_bar_row [OF this, of "view k" "tty k"] obtain m1 where m1: "status_bar lit (view k, tty k) = (m1, (tty k)\<lparr>status := lit\<rparr>)"
    "\<forall>j < 80. m1 (cell (int (1920 + j))) = view k (lit + of_nat j)" "\<forall>x. \<not> status_area x \<longrightarrow> m1 x = view k x" by blast
  have row: "m1 (cell (int (1920 + j))) = bs' ! j" if "j < 80" for j
    using m1(2) that cstr_nth [OF assms(1), of j] len by simp
  have str: "cstr m1 lit bs'"
    by (rule cstr_cong [OF assms(1)]) (use m1(3) disj_rangesD2 [OF assms(4)] status_area_screen len in force)
  define k1 where "k1 = set_view m1 (k0\<lparr>tty := (tty k)\<lparr>status := lit\<rparr>\<rparr>)"
  have k1: "view k1 = m1" "tty k1 = (tty k)\<lparr>status := lit\<rparr>" "clock k1 = (clock k)\<lparr>ports := cli (ports (clock k))\<rparr>"
    by (simp_all add: k1_def k0_def)
  define w where "w = (v + n div 100) mod 3600"
  define fin where "fin = (\<lambda>k. kernel_send_eoi 0 (k\<lparr>clock := (clock k)\<lparr>ports := sti (ports (clock k))\<rparr>\<rparr>))"
  have fin: "view (fin q) = view q" "tty (fin q) = tty q" "ports (clock (fin q)) = send_eoi 0 (sti (ports (clock q)))" for q
    by (simp_all add: fin_def kernel_send_eoi_def)
  have eoi: "trace (send_eoi 0 p) = OutB 0x20 0x60 # trace p" "intr_on (send_eoi 0 p) = intr_on p" for p
    by (simp_all add: send_eoi_def port_defs Let_def)
  show ?thesis
  proof (cases "Suc n mod 100 = 0")
    case True
    have w: "w < 3600" "sys_time (tty k1) = time_text w" using assms(5) by (simp_all add: w_def k1)
    have next_w: "Suc w mod 3600 = (v + Suc n div 100) mod 3600" using True by (simp add: w_def mod_Suc_eq div_Suc)
    obtain m2 where m2: "embed_time lit (m1, tty k1) = Some (lit, m2, (tty k1)\<lparr>sys_time := time_text (Suc w mod 3600)\<rparr>)"
      "cstr m2 lit (clock_text bs v (Suc n))" "\<forall>x. \<not> in_range lit 80 x \<longrightarrow> m2 x = m1 x"
      using embed_time_spec [OF w str] clock_text_next [OF assms(3) True, of v] len assms(2) by (auto simp: w_def)
    define k2 where "k2 = fin (set_view m2 (k1\<lparr>tty := (tty k1)\<lparr>sys_time := time_text (Suc w mod 3600), status := lit\<rparr>\<rparr>))"
    have "pit_int_handler lit (of_nat n, k) = Some (of_nat (Suc n), k2)"
      using m1(1) m2(1) k1(1) tick_count [OF assms(6)] True
      by (simp add: pit_int_handler_def Let_def k0_def [symmetric] k1_def [symmetric] k2_def fin_def k1(2))
    moreover have "m2 (cell (int (1920 + j))) = bs' ! j" if "j < 80" for j
    proof -
      have "\<not> in_range lit 81 (cell (int (1920 + j)))" by (rule disj_rangesD [OF assms(4) status_area_screen [OF status_cell(1)]]) (use that in simp_all)
      then have "\<not> in_range lit 80 (cell (int (1920 + j)))" using in_range_mono [of lit 80 _ 81] by fastforce
      then show ?thesis using row [OF that] m2(3) by simp
    qed
    ultimately show ?thesis using m2(2,3) m1(3) k1(2,3)
      by (intro exI [of _ k2]) (simp add: k2_def fin eoi next_w sti_def cli_def)
  next
    case False
    have "(v + Suc n div 100) mod 3600 = w" using False by (simp add: w_def div_Suc)
    moreover have "pit_int_handler lit (of_nat n, k) = Some (of_nat (Suc n), fin k1)"
      using m1(1) tick_count [OF assms(6)] False
      by (simp add: pit_int_handler_def Let_def k0_def [symmetric] fin_def) (simp add: k0_def k1_def)
    ultimately show ?thesis using assms(2,5) str m1(3) k1(2,3) row clock_text_same [OF False]
      by (intro exI [of _ "fin k1"]) (simp add: fin eoi k1(1) w_def sti_def cli_def)
  qed
qed

section \<open>Properties\<close>

text \<open>
  \<open>init_pit\<close> of channel 0 at any frequency from 19 to 1193180 Hz makes the 8253 divide its clock by
  \<open>1193180 / freq\<close> in the square wave mode, whatever it was doing, leaves the other channels alone and
  unmasks interrupt line 0; for a channel that is neither 0 nor 2 it only unmasks the line.
\<close>

lemma init_pit_spec:
  assumes "reads_mask p hw" and "pics_ready p (trace s)" and "19 \<le> f" and "f \<le> 1193180"
  shows "\<exists>s'. init_pit hw 0 (of_nat f) s = Some s'
    \<and> pit_run c (trace s') = (pit_run c (trace s))
        (0 := \<lparr>pit_mode = 3, access = 3, high_next = False, reload = of_nat (1193180 div f)\<rparr>)
    \<and> period (pit_run c (trace s') 0) = 1193180 div f \<and> \<not> masked p (trace s') 0
    \<and> init_pit hw 1 (of_nat f) s = Some (enable_irq hw 0 s)"
proof -
  obtain v where v: "trace (enable_irq hw 0 s) = OutB 0x21 v # InB 0x21 # trace s" "\<not> bit v 0"
    using enable_irq_trace [of 0 hw s] by fastforce
  define x :: u16 where "x = of_nat (1193180 div f)"
  have d: "unat x = 1193180 div f" "x \<noteq> 0"
    using divisor_16 [OF assms(3,4)] unfolding x_def
    by (simp_all add: unat_of_nat take_bit_nat_eq_self_iff word_unat_eq_iff)
  obtain s' where s': "init_pit hw 0 (of_nat f) s = Some s'"
    "trace s' = [OutB 0x40 (ucast (drop_bit 8 x)), OutB 0x40 (ucast x), OutB 0x43 0x36] @ trace (enable_irq hw 0 s)"
    using init_pit_trace [of f 0, where hw = hw and s = s] assms(3,4) by (auto simp: x_def)
  have "\<not> masked p (trace s') 0"
    using run_mask_write [OF assms(2), of "0x20" "0x20" v] v by (simp add: masked_def pic_of_def s'(2) del: pic_run_simps) (simp)
  moreover have "(of_nat f :: u32) \<noteq> 0" using assms(3,4) of_nat_eq32 [of f 0] by simp
  ultimately show ?thesis
    using s' v(1) d program_channel [of 0 "0x36" x "pit_run c (trace s)"]
    by (simp add: period_def x_def [symmetric]) (simp add: init_pit_def Let_def)
qed

text \<open>
  A tone of 19 Hz or more runs channel 2 at that frequency as a square wave, connects it to the
  speaker and leaves the timer's channel alone; \<open>nosound\<close> disconnects the speaker; and the tune
  \<open>imperial\<close> leaves the speaker disconnected and the channels other than 2 as they were.
\<close>

lemma sound_spec:
  assumes "reads_gate g hw" and "19 \<le> f" and "f \<le> 1193180"
    and s1_def: "s1 = play_sound hw (of_nat f) s"
  shows "pit_run c (trace s1) = (pit_run c (trace s))
        (2 := \<lparr>pit_mode = 3, access = 3, high_next = False, reload = of_nat (1193180 div f)\<rparr>)
    \<and> period (pit_run c (trace s1) 2) = 1193180 div f \<and> gate g (trace s1) = 3 \<and> intr_on s1
    \<and> pit_run c (trace (nosound hw s1)) = pit_run c (trace s1) \<and> gate g (trace (nosound hw s1)) = 0
    \<and> only_speaker c s (imperial hw s) \<and> gate g (trace (imperial hw s)) = 0"
proof -
  define x :: u16 where "x = of_nat (1193180 div f)"
  have d: "unat x = 1193180 div f" "x \<noteq> 0"
    using divisor_16 [OF assms(2,3)] unfolding x_def
    by (simp_all add: unat_of_nat take_bit_nat_eq_self_iff word_unat_eq_iff)
  have f: "(of_nat f :: u32) \<noteq> 0" "(1193180 :: u32) div of_nat f = of_nat (1193180 div f)"
    using assms(2,3) of_nat_eq32 [of f 0] divisor_16 [OF assms(2,3)]
    by (simp_all add: word_unat_eq_iff unat_div unat_of_nat32)
  have "(ucast (of_nat (1193180 div f) :: u32) :: u16) = x"
    using divisor_16 [OF assms(2,3)] by (simp add: x_def unsigned_of_nat take_bit_nat_eq_self_iff take_bit_nat_eq_self)
  then have p: "pit_run c (trace s1) = (pit_run c (trace s))(2 := \<lparr>pit_mode = 3, access = 3, high_next = False, reload = x\<rparr>)
    \<and> gate g (trace s1) = 3 \<and> intr_on s1"
    using play_sound_ports [OF assms(1) refl, of c "of_nat f" s] f by (simp add: s1_def)
  have im: "only_speaker c s (fold (play_block hw) bs s) \<and> (bs \<noteq> [] \<longrightarrow> gate g (trace (fold (play_block hw) bs s)) = 0)" for bs
  proof (induction bs rule: rev_induct)
    case (snoc b bs)
    then show ?case using play_block_ports [OF assms(1), of c "fold (play_block hw) bs s" b]
      by (auto intro: only_speaker_trans)
  qed (simp add: only_speaker_refl)
  have "imperial_theme @ imperial_reprise \<noteq> []" by (simp add: imperial_theme_def)
  then show ?thesis
    using p d nosound_ports [of c hw s1 g] im [of "imperial_theme @ imperial_reprise"] by (simp add: period_def x_def [symmetric] imperial_def del: fold_append)
qed

text \<open>
  C17. The clock of the status bar. After \<open>n + 1\<close> timer interrupts the time has gone on by one for
  every hundred of them; row 24 of the screen shows the status line as it was before the last one and
  the status line itself has the label and the new time at its end; interrupts are on, each interrupt
  has been acknowledged; outside of row 24 and the 80 bytes of the status line no byte of memory has changed,
  so the other 24 rows of the screen are as before, and nothing else of the terminals has changed.
\<close>

theorem clock_spec:
  assumes "cstr (view k) lit bs" and "length bs = 80" and "disj_ranges VIDEO 4000 lit 81"
    and "sys_time (tty k) = time_text v" and "v < 3600" and "n < 2147483647"
  shows "\<exists>k'. for_loop 0 (Suc n) (\<lambda>_. pit_int_handler lit) (0, k) = Some (of_nat (Suc n), k')
    \<and> tty k' = (tty k)\<lparr>status := lit, sys_time := time_text ((v + Suc n div 100) mod 3600)\<rparr>
    \<and> cstr (view k') lit (clock_text bs v (Suc n))
    \<and> map (\<lambda>j. view k' (cell (int (1920 + j)))) [0..<80] = clock_text bs v n
    \<and> intr_on (ports (clock k')) \<and> trace (ports (clock k')) = replicate (Suc n) (OutB 0x20 0x60) @ trace (ports (clock k))
    \<and> {x. view k' x \<noteq> view k x} \<subseteq> {x. in_range (VIDEO + 3840) 160 x} \<union> {x. in_range lit 80 x}"
proof -
  define f where "f = (\<lambda>_ :: nat. pit_int_handler lit)"
  let ?I = "\<lambda>i (c :: u32, q). c = of_nat i \<and> tty q = (tty k)\<lparr>status := status (tty q), sys_time := time_text ((v + i div 100) mod 3600)\<rparr>
    \<and> (0 < i \<longrightarrow> status (tty q) = lit \<and> intr_on (ports (clock q))
        \<and> (\<forall>j < 80. view q (cell (int (1920 + j))) = clock_text bs v (i - 1) ! j))
    \<and> cstr (view q) lit (clock_text bs v i) \<and> trace (ports (clock q)) = replicate i (OutB 0x20 0x60) @ trace (ports (clock k))
    \<and> (\<forall>x. \<not> status_area x \<longrightarrow> \<not> in_range lit 80 x \<longrightarrow> view q x = view k x)"
  have "\<exists>s. for_loop 0 (Suc n) f (0, k) = Some s \<and> ?I (0 + Suc n) s"
  proof (rule for_loop_invariant [where I = ?I])
    show "?I 0 (0, k)" using assms(1,4,5) by (simp add: clock_text_def)
  next
    fix i s
    assume i: "0 \<le> i" "i < 0 + Suc n" and I: "?I i s"
    obtain c q where s: "s = (c, q)" by (cases s)
    have q: "cstr (view q) lit (clock_text bs v i)" "tty q = (tty k)\<lparr>status := status (tty q), sys_time := time_text ((v + i div 100) mod 3600)\<rparr>"
      "c = of_nat i" using I s by simp_all
    have "sys_time (tty q) = time_text ((v + i div 100) mod 3600)" by (subst q(2)) simp
    with one_tick [OF q(1) refl assms(2,3)] i assms(6) obtain q' where q': "f i (c, q) = Some (of_nat (Suc i), q')"
      "tty q' = (tty q)\<lparr>status := lit, sys_time := time_text ((v + Suc i div 100) mod 3600)\<rparr>"
      "cstr (view q') lit (clock_text bs v (Suc i))" "\<forall>j < 80. view q' (cell (int (1920 + j))) = clock_text bs v i ! j"
      "intr_on (ports (clock q'))" "trace (ports (clock q')) = OutB 0x20 0x60 # trace (ports (clock q))"
      "\<forall>x. \<not> status_area x \<longrightarrow> \<not> in_range lit 80 x \<longrightarrow> view q' x = view q x"
      unfolding f_def q(3) by force
    have "tty q' = (tty k)\<lparr>status := status (tty q'), sys_time := time_text ((v + Suc i div 100) mod 3600)\<rparr>"
      unfolding q'(2) by (subst q(2)) simp
    then have "?I (Suc i) (of_nat (Suc i), q')"
      using I s q' by (auto simp del: of_nat_Suc of_nat_add)
    then show "\<exists>s'. f i s = Some s' \<and> ?I (Suc i) s'" using q'(1) s by blast
  qed
  then obtain s where s: "for_loop 0 (Suc n) f (0, k) = Some s" "?I (0 + Suc n) s" by (rule exE) (erule conjE)
  obtain c k' where p: "s = (c, k')" by (cases s)
  have loop: "for_loop 0 (Suc n) f (0, k) = Some (c, k')" and "?I (Suc n) (c, k')"
    using s unfolding p add_0 .
  then have I: "c = of_nat (Suc n)" "tty k' = (tty k)\<lparr>status := status (tty k'), sys_time := time_text ((v + Suc n div 100) mod 3600)\<rparr>"
    "status (tty k') = lit" "intr_on (ports (clock k'))" "\<forall>j < 80. view k' (cell (int (1920 + j))) = clock_text bs v n ! j"
    "cstr (view k') lit (clock_text bs v (Suc n))" "trace (ports (clock k')) = replicate (Suc n) (OutB 0x20 0x60) @ trace (ports (clock k))"
    "\<forall>x. \<not> status_area x \<longrightarrow> \<not> in_range lit 80 x \<longrightarrow> view k' x = view k x"
    unfolding split_conv diff_Suc_1 using zero_less_Suc [of n] by blast+
  have "map (\<lambda>j. view k' (cell (int (1920 + j)))) [0..<80] = clock_text bs v n"
    using I(5) clock_text_length [OF assms(2), of v n] by (intro nth_equalityI) (simp_all del: of_nat_add upt_rec_numeral)
  moreover have "tty k' = (tty k)\<lparr>status := lit, sys_time := time_text ((v + Suc n div 100) mod 3600)\<rparr>"
    using I(2) unfolding I(3) .
  moreover have "{x. view k' x \<noteq> view k x} \<subseteq> {x. in_range (VIDEO + 3840) 160 x} \<union> {x. in_range lit 80 x}" using I(8) by auto
  ultimately show ?thesis using loop I(4,6,7) unfolding f_def I(1) by blast
qed

text \<open>The status line at address 0 of an otherwise empty memory, and a minute after 100 interrupts.\<close>

theorem clock_spec_witness:
  "\<exists>k'. for_loop 0 (Suc 99) (\<lambda>_. pit_int_handler 0x100)
       (0, set_view (store_bytes (\<lambda>_. 0) 0x100 (replicate 80 0x20 @ [0])) sample_kernel) = Some (100, k')
     \<and> sys_time (tty k') = ascii ''01:00''"
proof -
  define k where "k = set_view (store_bytes (\<lambda>_. 0) 0x100 (replicate 80 0x20 @ [0])) sample_kernel"
  have "cstr (view k) 0x100 (replicate 80 0x20)"
    by (simp add: k_def cstr_store_bytes)
  moreover have "sys_time (tty k) = time_text 59" "time_text 60 = ascii ''01:00''"
    by (simp_all add: k_def sample_kernel_def sample_terminal_def time_text_def ascii_def)
  moreover have "disj_ranges VIDEO 4000 0x100 81" by (simp add: disj_ranges_def)
  ultimately show ?thesis using clock_spec [of k "0x100" "replicate 80 0x20" 59 99] unfolding k_def [symmetric] by fastforce
qed

end
