(* ===== verification/KeyboardSpec.thy ===== *)
theory KeyboardSpec
  imports Keyboard Timer
begin

text \<open>
  What the keyboard does to a terminal. A key that is not Enter, Backspace, Control or Alt types at most
  one character, as if it were written to the buffer on display; together with \<open>terminal_read\<close> this
  gives the line a program reads. For any key that does not switch terminals the invariant is kept.
\<close>

section \<open>The characters of the keys\<close>

definition key_char :: "keyboard \<Rightarrow> u32 \<Rightarrow> u8" where
  "key_char g k =
     (let c = uint ((if shift g \<noteq> 0 then kbdus_shift else kbdus) ! unat k)
      in of_int (if shift g \<noteq> 0 then (if 65 \<le> c \<and> c \<le> 90 then c + offset g else c)
                 else (if 97 \<le> c \<and> c \<le> 122 then c - offset g else c)))"

definition key_text :: "keyboard \<Rightarrow> u32 \<Rightarrow> u8 list" where
  "key_text g k = (if is_press k then [key_char g k] else [])"

text \<open>The text of a sequence of keys, each press or release changing the modifiers.\<close>

primrec typed_text :: "keyboard \<Rightarrow> u32 list \<Rightarrow> u8 list" where
  "typed_text g [] = []"
| "typed_text g (k # ks) = key_text (modifiers k g) k @ typed_text (modifiers k g) ks"

definition plain_key :: "u32 \<Rightarrow> bool" where
  "plain_key k \<longleftrightarrow> k < 0x100 \<and> k \<noteq> 0x0E \<and> k \<noteq> 0x1C \<and> k \<noteq> 0x1D \<and> k \<noteq> 0x38"

definition no_modes :: "keyboard \<Rightarrow> bool" where
  "no_modes g \<longleftrightarrow> ctrl g = 0 \<and> alt g = 0 \<and> (offset g = 0 \<or> offset g = 32)"

text \<open>A scan code is at most one of the modifier events.\<close>

lemma modifiers_eq:
  "modifiers c g =
     (if c = 0x2A \<or> c = 0x36 then g\<lparr>shift := 1\<rparr> else if c = 0xAA \<or> c = 0xB6 then g\<lparr>shift := 0\<rparr>
      else if c = 0x3A then g\<lparr>caps_count := caps_count g + 1, offset := (if (caps_count g + 1) smod 2 = 1 then 32 else 0)\<rparr>
      else if c = 0x1D then g\<lparr>ctrl := 1\<rparr> else if c = 0x9D then g\<lparr>ctrl := 0\<rparr>
      else if c = 0x38 then g\<lparr>alt := 1\<rparr> else if c = 0xB8 then g\<lparr>alt := 0\<rparr> else g)"
proof -
  consider "c = 0x2A" | "c = 0x36" | "c = 0xAA" | "c = 0xB6" | "c = 0x3A" | "c = 0x1D" | "c = 0x9D" | "c = 0x38" | "c = 0xB8"
    | "c \<noteq> 0x2A" "c \<noteq> 0x36" "c \<noteq> 0xAA" "c \<noteq> 0xB6" "c \<noteq> 0x3A" "c \<noteq> 0x1D" "c \<noteq> 0x9D" "c \<noteq> 0x38" "c \<noteq> 0xB8"
    by blast
  then show ?thesis by cases (simp_all add: modifiers_def Let_def)
qed

lemma modifiers_plain: "plain_key k \<or> k = 0x1C \<Longrightarrow> no_modes g \<Longrightarrow> no_modes (modifiers k g)"
  by (auto simp: modifiers_eq plain_key_def no_modes_def)

lemma press_code: "is_press k \<Longrightarrow> k < 0x100 \<Longrightarrow> unat k < 128"
proof -
  assume k: "is_press k" "k < 0x100"
  have "\<not> bit k 7" using k(1) by (auto simp: is_press_def bit_iff_and_push_bit_not_eq_0 push_bit_eq_mult)
  then have "\<not> bit (unat k) 7" by (simp add: bit_unsigned_iff)
  then have "even (unat k div 128)" by (simp add: bit_iff_odd)
  moreover have "unat k div 128 \<le> 1" using k(2) by (simp add: word_less_nat_alt)
  ultimately show ?thesis by (cases "unat k div 128") auto
qed

lemma table_newline: "n < 128 \<Longrightarrow> n \<noteq> 28 \<Longrightarrow> kbdus ! n \<noteq> 0x0A \<and> kbdus ! n \<noteq> 0x0D \<and> kbdus_shift ! n \<noteq> 0x0A \<and> kbdus_shift ! n \<noteq> 0x0D"
proof -
  have "list_all (\<lambda>n. n = 28 \<or> kbdus ! n \<noteq> 0x0A \<and> kbdus ! n \<noteq> 0x0D \<and> kbdus_shift ! n \<noteq> 0x0A \<and> kbdus_shift ! n \<noteq> 0x0D) [0..<128]"
    by code_simp
  then show "n < 128 \<Longrightarrow> n \<noteq> 28 \<Longrightarrow> kbdus ! n \<noteq> 0x0A \<and> kbdus ! n \<noteq> 0x0D \<and> kbdus_shift ! n \<noteq> 0x0A \<and> kbdus_shift ! n \<noteq> 0x0D"
    by (auto simp: list_all_iff)
qed

lemma key_char_plain:
  assumes "is_press k" and "plain_key k" and "no_modes g"
  shows "\<not> (key_char g k = 0x0A \<or> key_char g k = 0x0D)"
proof -
  define c where "c = (if shift g \<noteq> 0 then kbdus_shift else kbdus) ! unat k"
  define v where "v = (if shift g \<noteq> 0 then (if 65 \<le> uint c \<and> uint c \<le> 90 then uint c + offset g else uint c)
    else (if 97 \<le> uint c \<and> uint c \<le> 122 then uint c - offset g else uint c))"
  have "unat k < 128" using press_code [OF assms(1)] assms(2) by (simp add: plain_key_def)
  moreover have "unat k \<noteq> 28"
  proof
    assume "unat k = 28"
    then have "k = 28" by (simp add: word_unat_eq_iff)
    then show False using assms(2) by (simp add: plain_key_def)
  qed
  ultimately have "c \<noteq> 0x0A" "c \<noteq> 0x0D" using table_newline by (simp_all add: c_def)
  then have c: "uint c \<noteq> 10" "uint c \<noteq> 13" by (simp_all add: word_uint_eq_iff)
  have range: "0 \<le> uint c" "uint c < 256" using uint_lt2p [of c] by simp_all
  have v: "v \<noteq> 10" "v \<noteq> 13" "0 \<le> v" "v < 256"
    using c range assms(3) by (auto simp: v_def no_modes_def)
  have "key_char g k = of_int v" by (simp add: key_char_def c_def v_def Let_def)
  moreover have "uint (of_int v :: u8) = v" using v(3,4) by (simp add: uint_word_of_int_eq take_bit_int_eq_self)
  ultimately show ?thesis using v(1,2) by auto
qed

section \<open>Typing\<close>

lemma typing_plain:
  assumes s: "terminal_ok s" and b: "b < 3" and k: "plain_key k" and g: "no_modes g"
    and c: "0 \<le> limit s" "limit s < 79" "0 \<le> line_count s" "line_count s \<noteq> 127"
  shows "\<exists>u. typing k b (g, s) = Some (g\<lparr>line_flag := 1\<rparr>, s\<lparr>bf := u, limit := limit s + int (length (key_text g k)),
        line_count := line_count s + int (length (key_text g k))\<rparr>)
    \<and> all_buffers_ok u \<and> (chars b u, buf_x u, buf_y u) = fold put_text (key_text g k) (text_of b s)"
proof -
  have all: "all_buffers_ok (bf s)" using s by (simp add: terminal_ok_def)
  note ok = all_buffers_okD [OF all b]
  have neq: "k \<noteq> 0x0E" "k \<noteq> 0x1C" using k by (simp_all add: plain_key_def)
  show ?thesis
  proof (cases "is_press k")
    case True
    obtain u where u: "setb b (key_char g k) (bf s) = Some u" "buffer_ok b u"
      "chars b u = (chars b (bf s))[nat (80 * buf_y (bf s) + buf_x (bf s)) := key_char g k]"
      "buf_x u = (if buf_x (bf s) = 79 then 0 else buf_x (bf s) + 1)" "buf_y u = buf_y (bf s)"
      using setb_chars [OF ok] by blast
    have "all_buffers_ok u" using all_buffers_ok_frame [OF all u(2) b] setb_frame [OF u(1)] by blast
    moreover have "type_key k sh (offset g) b s = Some (s\<lparr>bf := u\<rparr>)" if "sh \<longleftrightarrow> shift g \<noteq> 0" for sh
      using True u(1) that by (auto simp: type_key_def on_buffer_def key_char_def Let_def)
    ultimately show ?thesis
      using True u(3-5) c key_char_plain [OF True k g] by (auto simp: typing_def Let_def key_text_def text_of_def)
  next
    case False
    then have "type_key k sh (offset g) b s = Some (s\<lparr>limit := limit s - 1, line_count := line_count s - 1\<rparr>)" for sh
      using neq c by (simp add: type_key_def Let_def)
    then show ?thesis
      using False c all by (intro exI [of _ "bf s"]) (auto simp: typing_def Let_def key_text_def text_of_def)
  qed
qed

section \<open>The interrupt\<close>

lemma code_unat: "unat (ucast (c :: u8) :: u32) = unat c"
  using unsigned_less [of c, where 'a = nat] by (simp add: unsigned_ucast_eq take_bit_nat_eq_self_iff)

lemma pass_buff_ok: "terminal_ok s \<Longrightarrow> pass_buff s = Some (nat (screen_num s)) \<and> nat (screen_num s) < 3"
  using screen_at_ok [of s "screen_num s"] by (auto simp: pass_buff_def terminal_ok_def)

lemma in_video_screen: "in_range VIDEO 3840 x \<Longrightarrow> in_range VIDEO 4000 x"
  by (erule in_range_mono) simp

text \<open>When the key switches no terminal, the handler draws the status line and the buffer on display.\<close>

text \<open>
  The characters of the terminal on display are on the screen, in the current colour, apart from the cells of
  newline marks, which drawing leaves as they are.
\<close>

definition on_display :: "terminal \<Rightarrow> mem \<Rightarrow> bool" where
  "on_display s m \<longleftrightarrow> list_all (shows_cell_at (chars (nat (screen_num s)) (bf s)) (colour (scr s)) m m) [0..<1920]"

lemma on_display_cong: "on_display s m \<Longrightarrow> \<forall>x. in_range VIDEO 3840 x \<longrightarrow> m' x = m x \<Longrightarrow> on_display s m'"
  using cell_in_video by (auto simp: on_display_def list_all_iff shows_cell_at_def shows_cell_def)

lemma shows_cells_now: "list_all (shows_cell_at cs attr m m') is \<Longrightarrow> list_all (shows_cell_at cs attr m' m') is"
  by (simp add: list_all_iff shows_cell_at_def shows_cell_def split: if_split_asm)

lemma handler_draws:
  assumes logic: "kbd_logic E fname (ucast c) (pass_buff (tty k)) (g\<lparr>reset_flag := 1\<rparr>,
        k\<lparr>clock := (clock k)\<lparr>ports := p1\<rparr>\<rparr>) = Some (g', k1, Return r)"
    and in_eq: "inb (dev E) 0x60 (ports (clock k)) = (ucast (c :: u8), p1)" and s: "terminal_ok (tty k1)" and lit: "disj_ranges VIDEO 4000 lit 80"
  shows "\<exists>m w. kbd_int_handler E fname lit (g, k) = Some (g', kernel_send_eoi 1 (set_view m (k1\<lparr>tty :=
        (tty k1)\<lparr>status := lit, enter_press := (if c = 0x1C then 1 else 0), scr := w\<rparr>\<rparr>)), Return 0)
    \<and> (\<forall>x. \<not> in_range VIDEO 4000 x \<longrightarrow> m x = view k1 x) \<and> colour w = colour (scr (tty k1))
    \<and> on_display (tty k1) m"
proof -
  define b where "b = nat (screen_num (tty k1))"
  define s1 where "s1 = (tty k1)\<lparr>status := lit, enter_press := (if c = 0x1C then 1 else 0)\<rparr>"
  have b: "pass_buff (tty k1) = Some b" "b < 3" using pass_buff_ok [OF s] by (simp_all add: b_def)
  obtain m1 where m1: "status_bar lit (view k1, tty k1) = (m1, (tty k1)\<lparr>status := lit\<rparr>)"
    "\<forall>x. \<not> in_range VIDEO 4000 x \<longrightarrow> m1 x = view k1 x"
    using status_bar_row [OF lit, of "view k1" "tty k1"] status_area_screen by blast
  have s1: "terminal_ok s1" using s by (simp add: s1_def terminal_ok_def)
  obtain m2 w where m2: "show_buffer (conv_buf E) (Some b) (m1, s1) = Some (m2, s1\<lparr>scr := w\<rparr>)" "colour w = colour (scr s1)"
    "{x. m2 x \<noteq> m1 x} \<subseteq> {x. in_range VIDEO 3840 x}" "list_all (shows_cell_at (chars b (bf s1)) (colour (scr s1)) m1 m2) [0..<1920]"
    using show_buffer_ok [OF s1 b(2)] by blast
  have enter: "(ucast c :: u32) = 0x1C \<longleftrightarrow> c = 0x1C"
    using code_unat [of c] by (simp add: word_unat_eq_iff)
  have "kbd_int_handler E fname lit (g, k) = Some (g', kernel_send_eoi 1 (set_view m2 (k1\<lparr>tty := s1\<lparr>scr := w\<rparr>\<rparr>)), Return 0)"
    using m2(1) unfolding kbd_int_handler_def Let_def case_prod_conv in_eq logic
    by (cases "c = 0x1C") (simp_all add: m1(1) b(1) enter s1_def)
  moreover have "m2 x = view k1 x" if "\<not> in_range VIDEO 4000 x" for x
  proof -
    have "m2 x = m1 x" using that m2(3) in_video_screen by blast
    then show ?thesis using that m1(2) by simp
  qed
  moreover have "on_display (tty k1) m2"
    using shows_cells_now [OF m2(4)] by (simp add: on_display_def s1_def b_def)
  ultimately show ?thesis using m2(2) by (auto simp: s1_def)
qed

lemma modifiers_reset: "modifiers c (g\<lparr>reset_flag := r\<rparr>) = (modifiers c g)\<lparr>reset_flag := r\<rparr>"
  by (simp add: modifiers_eq)

lemma key_text_reset: "key_text (g\<lparr>reset_flag := r\<rparr>) c = key_text g c"
  by (simp add: key_text_def key_char_def Let_def)

lemma logic_types:
  assumes "plain_key c \<or> c = 0x1C" and "no_modes g"
  shows "kbd_logic E fname c (Some b) (g, k) =
    map_option (\<lambda>(g, s). (g, k\<lparr>tty := s\<rparr>, Return 0)) (typing c b (modifiers c g, tty k))"
proof -
  have "no_modes (modifiers c g)" by (rule modifiers_plain [OF assms])
  then show ?thesis by (simp add: kbd_logic_def no_modes_def Let_def)
qed

text \<open>What an interrupt with scan code \<open>c\<close> does to memory, the terminals and the ports.\<close>

definition key_interrupt :: "env \<Rightarrow> u32 \<Rightarrow> u32 \<Rightarrow> kernel \<Rightarrow> keyboard \<Rightarrow> u8 \<Rightarrow> line_world \<Rightarrow> line_world" where
  "key_interrupt E fname lit k g c = (\<lambda>(m, s, p).
     case kbd_int_handler (E\<lparr>dev := \<lambda>_ _. c\<rparr>) fname lit (g, set_view m (k\<lparr>tty := s, clock := (clock k)\<lparr>ports := p\<rparr>\<rparr>)) of
       None \<Rightarrow> (m, s, p)
     | Some (g, k, ctl) \<Rightarrow> (view k, tty k, ports (clock k)))"

lemma key_interrupt_draws:
  assumes logic: "typing (ucast c) (nat (screen_num s)) ((modifiers (ucast c) g)\<lparr>reset_flag := 1\<rparr>, s) = Some (g', s1)"
    and c: "plain_key (ucast c) \<or> ucast c = (0x1C :: u32)" "no_modes g"
    and s: "terminal_ok s" "terminal_ok s1" and lit: "disj_ranges VIDEO 4000 lit 80"
  shows "\<exists>m' w p'. key_interrupt E fname lit k g c (m, s, p) =
      (m', s1\<lparr>status := lit, enter_press := (if c = 0x1C then 1 else 0), scr := w\<rparr>, p')
    \<and> (\<forall>x. \<not> in_range VIDEO 4000 x \<longrightarrow> m' x = m x) \<and> colour w = colour (scr s1) \<and> on_display s1 m'"
proof -
  define k0 where "k0 = set_view m (k\<lparr>tty := s, clock := (clock k)\<lparr>ports := p\<rparr>\<rparr>)"
  define p1 where "p1 = snd (inb (\<lambda>_ _. c) 0x60 (ports (clock k0)))"
  define k1 where "k1 = k0\<lparr>clock := (clock k0)\<lparr>ports := p1\<rparr>\<rparr>"
  have in_eq: "inb (dev (E\<lparr>dev := \<lambda>_ _. c\<rparr>)) 0x60 (ports (clock k0)) = (ucast c, p1)"
    by (simp add: inb_def p1_def)
  have k0: "tty k0 = s" "view k0 = m" by (simp_all add: k0_def)
  have k1: "tty k1 = s" "view k1 = m" by (simp_all add: k1_def k0)
  have g1: "no_modes (g\<lparr>reset_flag := 1\<rparr>)" using c(2) by (simp add: no_modes_def)
  have pb: "pass_buff s = Some (nat (screen_num s))" using pass_buff_ok [OF s(1)] by simp
  have "kbd_logic (E\<lparr>dev := \<lambda>_ _. c\<rparr>) fname (ucast c) (pass_buff (tty k0)) (g\<lparr>reset_flag := 1\<rparr>, k1) = Some (g', k1\<lparr>tty := s1\<rparr>, Return 0)"
    using logic by (simp add: k0 k1 pb logic_types [OF c(1) g1] modifiers_reset)
  from handler_draws [OF this [unfolded k1_def] in_eq _ lit] obtain m' w where
    h: "kbd_int_handler (E\<lparr>dev := \<lambda>_ _. c\<rparr>) fname lit (g, k0) = Some (g', kernel_send_eoi 1 (set_view m' (k1\<lparr>tty :=
        s1\<lparr>status := lit, enter_press := (if c = 0x1C then 1 else 0), scr := w\<rparr>\<rparr>)), Return 0)"
      "\<forall>x. \<not> in_range VIDEO 4000 x \<longrightarrow> m' x = view (k1\<lparr>tty := s1\<rparr>) x"
      "colour w = colour (scr s1)" "on_display s1 m'"
    using s(2) unfolding k1_def [symmetric] by auto
  show ?thesis
    unfolding key_interrupt_def k0_def [symmetric] case_prod_conv h(1)
    using h(2-4) k1(2) by (auto simp: kernel_send_eoi_def)
qed

lemma enter_code: "ucast (c :: u8) = (0x1C :: u32) \<longleftrightarrow> c = 0x1C"
  using code_unat [of c] by (simp add: word_unat_eq_iff)

lemma key_types:
  assumes s: "terminal_ok s" and c: "plain_key (ucast c)" and g: "no_modes g"
    and lim: "0 \<le> limit s" "limit s < 79" "0 \<le> line_count s" "line_count s \<noteq> 127" and lit: "disj_ranges VIDEO 4000 lit 80"
    and ts: "ts = key_text (modifiers (ucast c) g) (ucast c)"
  shows "\<exists>m' s' p'. key_interrupt E fname lit k g c (m, s, p) = (m', s', p') \<and> terminal_ok s'
    \<and> (\<forall>x. \<not> in_range VIDEO 4000 x \<longrightarrow> m' x = m x)
    \<and> text_of (nat (screen_num s)) s' = fold put_text ts (text_of (nat (screen_num s)) s)
    \<and> limit s' = limit s + int (length ts) \<and> line_count s' = line_count s + int (length ts)
    \<and> typed_length s' = typed_length s \<and> enter_press s' = 0 \<and> screen_num s' = screen_num s
    \<and> colour (scr s') = colour (scr s)"
proof -
  define b where "b = nat (screen_num s)"
  define g1 where "g1 = (modifiers (ucast c) g)\<lparr>reset_flag := 1\<rparr>"
  have b: "b < 3" using pass_buff_ok [OF s] by (simp add: b_def)
  have g1: "no_modes g1" "key_text g1 (ucast c) = ts"
    using modifiers_plain [OF disjI1 [OF c] g] by (simp_all add: g1_def no_modes_def key_text_reset ts)
  obtain u where u: "typing (ucast c) b (g1, s) = Some (g1\<lparr>line_flag := 1\<rparr>, s\<lparr>bf := u, limit := limit s + int (length ts),
        line_count := line_count s + int (length ts)\<rparr>)" "all_buffers_ok u"
      "(chars b u, buf_x u, buf_y u) = fold put_text ts (text_of b s)"
    using typing_plain [OF s b c g1(1) lim] unfolding g1(2) by blast
  have s1: "terminal_ok (s\<lparr>bf := u, limit := limit s + int (length ts), line_count := line_count s + int (length ts)\<rparr>)"
    using s u(2) by (simp add: terminal_ok_def)
  have "c \<noteq> 0x1C" using c enter_code [of c] by (auto simp: plain_key_def)
  with key_interrupt_draws [OF u(1) [unfolded g1_def b_def] disjI1 [OF c] g s s1 lit, of E fname k m p]
  show ?thesis using s1 u(3) unfolding b_def by (fastforce simp: terminal_ok_def text_of_def)
qed

text \<open>Enter: a newline mark behind the position, the next row, and the mark the wait looks for.\<close>

fun enter_text :: "text_state \<Rightarrow> text_state" where
  "enter_text (cs, x, y) =
     (let cs = cs[nat (80 * y + x + 1) := 0x0A];
          cs = (if y = 23 then scrolled cs else cs);
          y = min 23 (y + 1)
      in (take (80 * nat y) cs @ replicate 80 0x20 @ drop (80 * nat y + 80) cs, 0, y))"

lemma enter_line_ok:
  assumes s: "terminal_ok s" and b: "b < 3"
  shows "\<exists>u. enter_line b s = Some (s\<lparr>bf := u, limit := 0, line_count := 0\<rparr>) \<and> all_buffers_ok u
    \<and> (chars b u, buf_x u, buf_y u) = enter_text (text_of b s)"
proof -
  have all: "all_buffers_ok (bf s)" using s by (simp add: terminal_ok_def)
  note ok = all_buffers_okD [OF all b]
  obtain v where v: "new_line b (bf s) = Some v" "buffer_ok b v" "buf_x v = 0" "buf_y v = min 23 (buf_y (bf s) + 1)"
    "chars b v = (let cs = (chars b (bf s))[nat (80 * buf_y (bf s) + buf_x (bf s) + 1) := 0x0A]
                  in if buf_y (bf s) = 23 then scrolled cs else cs)"
    using new_line_ok [OF ok] by blast
  obtain u where u: "clear_buf_line b v = Some u" "buffer_ok b u" "buf_x u = buf_x v" "buf_y u = buf_y v"
    "chars b u = take (80 * nat (buf_y v)) (chars b v) @ replicate 80 0x20 @ drop (80 * nat (buf_y v) + 80) (chars b v)"
    using clear_buf_line_ok [OF v(2)] by blast
  have "all_buffers_ok v" using all_buffers_ok_frame [OF all v(2) b] new_line_frame [OF v(1)] by blast
  then have "all_buffers_ok u" using all_buffers_ok_frame [OF _ u(2) b] clear_buf_line_frame [OF u(1)] by blast
  moreover have "enter_line b s = Some (s\<lparr>bf := u, limit := 0, line_count := 0\<rparr>)"
    using v(1) u(1) by (simp add: enter_line_def on_buffer_def)
  moreover have "(chars b u, buf_x u, buf_y u) = enter_text (text_of b s)"
    by (simp only: u(3-5) v(3-5) text_of_def enter_text.simps Let_def)
  ultimately show ?thesis by blast
qed

lemma enter_ends:
  assumes s: "terminal_ok s" and g: "no_modes g" and lim: "line_count s \<noteq> 127" and lit: "disj_ranges VIDEO 4000 lit 80"
  shows "\<exists>m' s' p'. key_interrupt E fname lit k g 0x1C (m, s, p) = (m', s', p') \<and> terminal_ok s'
    \<and> (\<forall>x. \<not> in_range VIDEO 4000 x \<longrightarrow> m' x = m x)
    \<and> text_of (nat (screen_num s)) s' = enter_text (text_of (nat (screen_num s)) s)
    \<and> limit s' = 1 \<and> line_count s' = 1 \<and> typed_length s' = typed_length s \<and> enter_press s' = 1 \<and> screen_num s' = screen_num s
    \<and> colour (scr s') = colour (scr s) \<and> on_display s' m'"
proof -
  define b where "b = nat (screen_num s)"
  define g1 where "g1 = (modifiers 0x1C g)\<lparr>reset_flag := 1\<rparr>"
  have b: "b < 3" using pass_buff_ok [OF s] by (simp add: b_def)
  obtain u where u: "enter_line b s = Some (s\<lparr>bf := u, limit := 0, line_count := 0\<rparr>)" "all_buffers_ok u"
    "(chars b u, buf_x u, buf_y u) = enter_text (text_of b s)"
    using enter_line_ok [OF s b] by blast
  have np: "\<not> is_press 0x1C" by (simp add: is_press_def)
  have type: "type_key 0x1C sh off b s = enter_line b s" for sh off using np by (simp add: type_key_def)
  define s1 where "s1 = s\<lparr>bf := u, limit := 1, line_count := 1\<rparr>"
  have ty: "typing (ucast (0x1C :: u8)) b (g1, s) = Some (g1\<lparr>line_flag := 1\<rparr>, s1)"
    using lim u(1) by (auto simp: typing_def Let_def type s1_def)
  have s1: "terminal_ok s1" using s u(2) by (simp add: s1_def terminal_ok_def)
  have c: "plain_key (ucast (0x1C :: u8)) \<or> ucast (0x1C :: u8) = (0x1C :: u32)" by simp
  have "(modifiers (ucast (0x1C :: u8)) g)\<lparr>reset_flag := 1\<rparr> = g1" by (simp add: g1_def)
  with key_interrupt_draws [where c = "0x1C", OF _ c g s s1 lit] ty
  obtain m' w p' where "key_interrupt E fname lit k g 0x1C (m, s, p) = (m', s1\<lparr>status := lit, enter_press := 1, scr := w\<rparr>, p')"
    "\<forall>x. \<not> in_range VIDEO 4000 x \<longrightarrow> m' x = m x" "colour w = colour (scr s1)" "on_display s1 m'"
    unfolding b_def by fastforce
  moreover have "text_of b (s1\<lparr>status := lit, enter_press := 1, scr := w\<rparr>) = enter_text (text_of b s)"
    using u(3) by (simp add: s1_def text_of_def)
  ultimately show ?thesis using s1 unfolding b_def by (simp add: s1_def terminal_ok_def on_display_def)
qed

section \<open>Typing a line\<close>

text \<open>Characters put in one row.\<close>

lemma put_row:
  "list_all (\<lambda>c. \<not> (c = 0x0A \<or> c = 0x0D)) ts \<Longrightarrow> 0 \<le> x \<Longrightarrow> 0 \<le> y \<Longrightarrow> x + int (length ts) < 80 \<Longrightarrow>
    nat (80 * y + x) + length ts \<le> length cs \<Longrightarrow>
    fold put_text ts (cs, x, y) =
      (take (nat (80 * y + x)) cs @ ts @ drop (nat (80 * y + x) + length ts) cs, x + int (length ts), y)"
proof (induction ts arbitrary: cs x)
  case (Cons c ts)
  define i where "i = nat (80 * y + x)"
  have i: "nat (80 * y + (x + 1)) = Suc i" "i < length cs" using Cons.prems by (simp_all add: i_def)
  have "put_text c (cs, x, y) = (cs[i := c], x + 1, y)" using Cons.prems by (simp add: i_def)
  moreover have "fold put_text ts (cs[i := c], x + 1, y) =
      (take (Suc i) (cs[i := c]) @ ts @ drop (Suc i + length ts) (cs[i := c]), x + 1 + int (length ts), y)"
    using Cons.IH [of "x + 1" "cs[i := c]"] Cons.prems i by simp
  moreover have "take (Suc i) (cs[i := c]) = take i cs @ [c]"
    using i(2) by (simp add: take_Suc_conv_app_nth)
  ultimately have "fold put_text (c # ts) (cs, x, y) = (take i cs @ (c # ts) @ drop (i + length (c # ts)) cs, x + int (length (c # ts)), y)"
    by (simp del: put_text.simps)
  then show ?case unfolding i_def .
qed simp

lemma typed_text_snoc: "typed_text g (ks @ [k]) = typed_text g ks @ key_text (modifiers k (fold modifiers ks g)) k"
  by (induction ks arbitrary: g) simp_all

lemma fold_modifiers_plain: "list_all plain_key ks \<Longrightarrow> no_modes g \<Longrightarrow> no_modes (fold modifiers ks g)"
  by (induction ks arbitrary: g) (simp_all add: modifiers_plain)

lemma typed_text_plain:
  "list_all plain_key ks \<Longrightarrow> no_modes g \<Longrightarrow> list_all (\<lambda>c. \<not> (c = 0x0A \<or> c = 0x0D)) (typed_text g ks)"
proof (induction ks arbitrary: g)
  case (Cons k ks)
  then have k: "plain_key k" "no_modes (modifiers k g)" using modifiers_plain by simp_all
  have "list_all (\<lambda>c. \<not> (c = 0x0A \<or> c = 0x0D)) (key_text (modifiers k g) k)"
    using key_char_plain [OF _ k] by (simp add: key_text_def)
  then show ?case using Cons.IH [OF _ k(2)] Cons.prems(1) by simp
qed simp

text \<open>
  The keys that arrive while \<open>terminal_read\<close> waits: before each test of its condition one key event, or
  none, and at last Enter.
\<close>

definition scan_codes :: "u8 option list \<Rightarrow> u32 list" where
  "scan_codes keys = concat (List.map (case_option [] (\<lambda>c. [ucast c])) keys)"

definition typist :: "env \<Rightarrow> u32 \<Rightarrow> u32 \<Rightarrow> kernel \<Rightarrow> keyboard \<Rightarrow> u8 option list \<Rightarrow> nat \<Rightarrow> line_world \<Rightarrow> line_world" where
  "typist E fname lit k g keys i =
     (let g = fold modifiers (scan_codes (take i keys)) g
      in if i < length keys
         then (case keys ! i of None \<Rightarrow> id | Some c \<Rightarrow> key_interrupt E fname lit k g c)
         else key_interrupt E fname lit k g 0x1C)"

lemma scan_codes_take: "i < length keys \<Longrightarrow>
    scan_codes (take (Suc i) keys) = scan_codes (take i keys) @ (case keys ! i of None \<Rightarrow> [] | Some c \<Rightarrow> [ucast c])"
  by (simp add: scan_codes_def take_Suc_conv_app_nth)

lemma scan_codes_split: "scan_codes keys = scan_codes (take i keys) @ scan_codes (drop i keys)"
  by (simp add: scan_codes_def concat_append [symmetric] map_append [symmetric] del: concat_append map_append)

lemma typed_text_append: "typed_text g (ks @ ls) = typed_text g ks @ typed_text (fold modifiers ks g) ls"
  by (induction ks arbitrary: g) simp_all

text \<open>The state after the keys before the \<open>i\<close>th test.\<close>

definition typed_state :: "mem \<Rightarrow> terminal \<Rightarrow> u8 list \<Rightarrow> line_world \<Rightarrow> bool" where
  "typed_state m s ts = (\<lambda>(m', s', p').
     terminal_ok s' \<and> (\<forall>x. \<not> in_range VIDEO 4000 x \<longrightarrow> m' x = m x)
     \<and> text_of (nat (screen_num s)) s' = fold put_text ts (text_of (nat (screen_num s)) s)
     \<and> limit s' = limit s + int (length ts) \<and> line_count s' = line_count s + int (length ts)
     \<and> typed_length s' = typed_length s \<and> enter_press s' = 0 \<and> screen_num s' = screen_num s
     \<and> colour (scr s') = colour (scr s))"

lemma typist_types:
  assumes i: "i < length keys" and keys: "list_all plain_key (scan_codes keys)" and g: "no_modes g"
    and n: "n = int (length (typed_text g (scan_codes keys)))"
    and lim: "0 \<le> limit s" "limit s + n < 79" "0 \<le> line_count s" "line_count s + n < 127" and lit: "disj_ranges VIDEO 4000 lit 80"
    and w: "typed_state m s (typed_text g (scan_codes (take i keys))) w"
  shows "typed_state m s (typed_text g (scan_codes (take (Suc i) keys))) (typist E fname lit k g keys i w)"
proof -
  define ts where "ts = typed_text g (scan_codes (take i keys))"
  define g1 where "g1 = fold modifiers (scan_codes (take i keys)) g"
  obtain m1 s1 p1 where w1: "w = (m1, s1, p1)" by (cases w)
  show ?thesis
  proof (cases "keys ! i")
    case None
    then show ?thesis using i w by (simp add: typist_def scan_codes_take)
  next
    case (Some c)
    have pl: "list_all plain_key (scan_codes (take i keys))" "plain_key (ucast c)"
    proof -
      have "list_all plain_key (scan_codes (take (Suc i) keys))"
        using keys scan_codes_split [of keys "Suc i"] by (metis list_all_append)
      then show "list_all plain_key (scan_codes (take i keys))" "plain_key (ucast c)"
        using i Some by (simp_all add: scan_codes_take)
    qed
    have g1: "no_modes g1" unfolding g1_def by (rule fold_modifiers_plain [OF pl(1) g])
    have "int (length ts) \<le> n"
      unfolding ts_def n using scan_codes_split [of keys i] by (metis typed_text_append length_append le_add1 of_nat_le_iff)
    then have "0 \<le> limit s1" "limit s1 < 79" "0 \<le> line_count s1" "line_count s1 \<noteq> 127"
      using w lim by (auto simp: w1 typed_state_def ts_def)
    moreover have "terminal_ok s1" using w by (simp add: w1 typed_state_def)
    ultimately obtain m2 s2 p2 where step: "key_interrupt E fname lit k g1 c (m1, s1, p1) = (m2, s2, p2)"
      "terminal_ok s2" "\<forall>x. \<not> in_range VIDEO 4000 x \<longrightarrow> m2 x = m1 x"
      "text_of (nat (screen_num s1)) s2 = fold put_text (key_text (modifiers (ucast c) g1) (ucast c)) (text_of (nat (screen_num s1)) s1)"
      "limit s2 = limit s1 + int (length (key_text (modifiers (ucast c) g1) (ucast c)))"
      "line_count s2 = line_count s1 + int (length (key_text (modifiers (ucast c) g1) (ucast c)))"
      "typed_length s2 = typed_length s1" "enter_press s2 = 0" "screen_num s2 = screen_num s1" "colour (scr s2) = colour (scr s1)"
      using key_types [OF _ pl(2) g1 _ _ _ _ lit refl] by blast
    have "typist E fname lit k g keys i w = (m2, s2, p2)"
      using i Some step(1) by (simp add: typist_def w1 g1_def)
    moreover have "typed_text g (scan_codes (take (Suc i) keys)) = ts @ key_text (modifiers (ucast c) g1) (ucast c)"
      using i Some by (simp add: scan_codes_take typed_text_snoc ts_def g1_def)
    ultimately show ?thesis using w step by (simp add: typed_state_def w1 ts_def)
  qed
qed

text \<open>The wait ends with Enter, and the column it returns is the one behind the last character.\<close>

lemma typist_wait_step:
  assumes "typed_state m s ts (typist E fname lit k g keys i w)" and "typed_length s \<noteq> 127"
  shows "\<exists>m' s' p'. enter_wait (typist E fname lit k g keys) i e w =
      enter_wait (typist E fname lit k g keys) (Suc i) (buf_x (bf s')) (m', s', p') \<and> typed_state m s ts (m', s', p')"
proof -
  obtain m' s' p' where w: "typist E fname lit k g keys i w = (m', s', p')"
    by (cases "typist E fname lit k g keys i w")
  have "enter_wait (typist E fname lit k g keys) i e w =
      enter_wait (typist E fname lit k g keys) (Suc i) (buf_x (bf s')) (m', s', sti (cli p'))"
    using assms unfolding enter_wait.simps [of _ i] w by (simp add: typed_state_def)
  then show ?thesis using assms(1) by (intro exI) (auto simp: w typed_state_def)
qed

lemma typist_wait:
  assumes keys: "list_all plain_key (scan_codes keys)" and g: "no_modes g" and ts: "ts = typed_text g (scan_codes keys)"
    and lim: "0 \<le> limit s" "limit s + int (length ts) < 79" "0 \<le> line_count s" "line_count s + int (length ts) < 127"
    and lit: "disj_ranges VIDEO 4000 lit 80" and len: "typed_length s \<noteq> 127"
  shows "i \<le> length keys \<Longrightarrow> typed_state m s (typed_text g (scan_codes (take i keys))) (m', s', p') \<Longrightarrow>
    \<exists>m1 s1 p1. enter_wait (typist E fname lit k g keys) i (buf_x (bf s')) (m', s', p')
        = Some (fst (snd (fold put_text ts (text_of (nat (screen_num s)) s))), m1, s1, p1)
      \<and> terminal_ok s1 \<and> (\<forall>x. \<not> in_range VIDEO 4000 x \<longrightarrow> m1 x = m x)
      \<and> text_of (nat (screen_num s)) s1 = enter_text (fold put_text ts (text_of (nat (screen_num s)) s))
      \<and> line_count s1 = 1 \<and> typed_length s1 = typed_length s
      \<and> screen_num s1 = screen_num s \<and> colour (scr s1) = colour (scr s) \<and> on_display s1 m1"
proof (induction "length keys - i" arbitrary: i m' s' p')
  case 0
  then have i: "i = length keys" by simp
  have t: "typed_state m s ts (m', s', p')" using "0.prems" by (simp add: i ts)
  define g1 where "g1 = fold modifiers (scan_codes keys) g"
  have "no_modes g1" unfolding g1_def by (rule fold_modifiers_plain [OF keys g])
  moreover have "terminal_ok s'" "line_count s' \<noteq> 127" using t lim by (auto simp: typed_state_def)
  ultimately obtain m1 s1 p1 where e: "key_interrupt E fname lit k g1 0x1C (m', s', p') = (m1, s1, p1)" "terminal_ok s1"
    "\<forall>x. \<not> in_range VIDEO 4000 x \<longrightarrow> m1 x = m' x"
    "text_of (nat (screen_num s')) s1 = enter_text (text_of (nat (screen_num s')) s')"
    "line_count s1 = 1" "typed_length s1 = typed_length s'" "enter_press s1 = 1" "screen_num s1 = screen_num s'"
    "colour (scr s1) = colour (scr s')" "on_display s1 m1"
    using enter_ends [OF _ _ _ lit] by blast
  have "typist E fname lit k g keys i (m', s', p') = (m1, s1, p1)" using e(1) by (simp add: typist_def i g1_def)
  then have "enter_wait (typist E fname lit k g keys) i (buf_x (bf s')) (m', s', p') = Some (buf_x (bf s'), m1, s1, cli p1)"
    unfolding enter_wait.simps [of _ i] using e(7) by simp
  moreover have "buf_x (bf s') = fst (snd (fold put_text ts (text_of (nat (screen_num s)) s)))"
    using t by (auto simp: typed_state_def text_of_def dest: sym)
  ultimately show ?case using e t by (auto simp: typed_state_def)
next
  case (Suc d)
  have i: "i < length keys" using Suc.hyps(2) by simp
  obtain m2 s2 p2 where n: "enter_wait (typist E fname lit k g keys) i (buf_x (bf s')) (m', s', p') =
      enter_wait (typist E fname lit k g keys) (Suc i) (buf_x (bf s2)) (m2, s2, p2)"
      "typed_state m s (typed_text g (scan_codes (take (Suc i) keys))) (m2, s2, p2)"
    using typist_wait_step [OF typist_types [OF i keys g refl lim(1) lim(2) [unfolded ts] lim(3) lim(4) [unfolded ts] lit Suc.prems(2)] len]
    by blast
  show ?case unfolding n(1) by (rule Suc.hyps(1)) (use Suc.hyps(2) n(2) i in auto)
qed

text \<open>The row Enter finishes stands above the new position.\<close>

lemma scrolled_nth: "length cs = 2000 \<Longrightarrow> k < 1840 \<Longrightarrow> scrolled cs ! k = blank (cs ! (k + 80))"
  by (simp add: scrolled_def nth_append ac_simps)

lemma finished_row:
  assumes "enter_text (cs, x, y) = (cs', 0, y')" and "length cs = 2000" and "0 \<le> y" "y < 24"
    and "0 \<le> z" "z \<le> x" "x < 80" and "cs ! nat (80 * y + z) \<noteq> 0x0A"
  shows "cs' ! nat (80 * (y' - 1) + z) = cs ! nat (80 * y + z)" and "1 \<le> y'"
proof -
  define ds where "ds = cs[nat (80 * y + x + 1) := 0x0A]"
  have ds: "length ds = 2000" "ds ! nat (80 * y + z) = cs ! nat (80 * y + z)" using assms by (simp_all add: ds_def)
  have y': "y' = min 23 (y + 1)" using assms(1) by (simp add: Let_def)
  then show "1 \<le> y'" using assms(3) by simp
  have z: "0 \<le> z" "z < 80" using assms(5-7) by simp_all
  show "cs' ! nat (80 * (y' - 1) + z) = cs ! nat (80 * y + z)"
  proof (cases "y = 23")
    case True
    then have "cs' = take 1840 (scrolled ds) @ replicate 80 0x20 @ drop 1920 (scrolled ds)" "y' = 23"
      using assms(1) by (simp_all add: Let_def ds_def)
    moreover have "nat (80 * 22 + z) < 1840" "nat (80 * 22 + z) + 80 = nat (80 * y + z)" using True z by auto
    ultimately show ?thesis
      using scrolled_nth [OF ds(1)] ds assms(8) by (simp add: nth_append blank_def scrolled_def)
  next
    case False
    then have "cs' = take (80 * nat (y + 1)) ds @ replicate 80 0x20 @ drop (80 * nat (y + 1) + 80) ds" "y' = y + 1"
      using assms(1,4) by (auto simp add: Let_def ds_def)
    moreover have "nat (80 * y + z) < 80 * nat (y + 1)" using assms(3) z by auto
    ultimately show ?thesis using ds assms(4) by (simp add: nth_append)
  qed
qed

lemma line_on_row:
  assumes plain: "list_all (\<lambda>c. \<not> (c = 0x0A \<or> c = 0x0D)) ts" and len: "length cs = 2000"
    and x: "0 \<le> x" "x + int (length ts) < 80" and y: "0 \<le> y" "y < 24"
    and mark: "cs ! nat (80 * y + x + int (length ts)) \<noteq> 0x0A"
    and et: "enter_text (fold put_text ts (cs, x, y)) = (cs', 0, y')" and len': "length cs' = 2000" "y' < 24"
  shows "1 \<le> y'" and "ts = take (length ts) (drop (nat (80 * (y' - 1) + x)) cs')"
    and "0x0A \<notin> set (take (length ts) (drop (Suc (nat (80 * (y' - 1) + x))) cs'))"
proof -
  define n i where d: "n = length ts" "i = nat (80 * y + x)"
  define cs1 where "cs1 = take i cs @ ts @ drop (i + n) cs"
  have i: "i + n < 2000" "nat (80 * y + (x + int q)) = i + q" for q using x y by (auto simp: d)
  have row: "fold put_text ts (cs, x, y) = (cs1, x + int n, y)"
    using put_row [OF plain x(1) y(1) x(2), of cs] i len by (simp add: cs1_def d)
  have cs1: "length cs1 = 2000" "q < n \<Longrightarrow> cs1 ! (i + q) = ts ! q" "cs1 ! (i + n) = cs ! (i + n)" for q
    using i len by (simp_all add: cs1_def nth_append d(1))
  have mark': "cs ! (i + n) \<noteq> 0x0A" using mark i(2) [of n] by (simp add: d ac_simps)
  have x': "x + int n < 80" using x(2) by (simp add: d)
  have col: "cs' ! nat (80 * (y' - 1) + (x + int q)) = cs1 ! (i + q)" "cs1 ! (i + q) \<noteq> 0x0A" if "q \<le> n" for q
  proof -
    show nl: "cs1 ! (i + q) \<noteq> 0x0A"
      using that cs1(2,3) mark' plain by (cases "q = n") (auto simp: list_all_length d(1))
    show "cs' ! nat (80 * (y' - 1) + (x + int q)) = cs1 ! (i + q)"
      using finished_row(1) [OF et [unfolded row] cs1(1) y, of "x + int q"] x(1) x' that nl unfolding i(2) by simp
  qed
  show y': "1 \<le> y'" using finished_row(2) [OF et [unfolded row] cs1(1) y, of x] x(1) x' col(2) [of 0] i(2) [of 0] by simp
  define j where "j = nat (80 * (y' - 1) + x)"
  have j: "nat (80 * (y' - 1) + (x + int q)) = j + q" for q using y' x(1) by (simp add: j_def)
  have jn: "j + n < 2000" using x(1) x' y' len'(2) by (simp add: j_def)
  show "ts = take (length ts) (drop (nat (80 * (y' - 1) + x)) cs')"
    unfolding j_def [symmetric] d(1) [symmetric]
    using jn len' col(1) [unfolded j] cs1(2) by (intro nth_equalityI) (simp_all add: d(1))
  have "cs' ! (j + Suc q) \<noteq> 0x0A" if "q < n" for q using col [of "Suc q"] that unfolding j by simp
  then show "0x0A \<notin> set (take (length ts) (drop (Suc (nat (80 * (y' - 1) + x))) cs'))"
    unfolding j_def [symmetric] d(1) [symmetric] using jn len'(1) by (auto simp: in_set_conv_nth)
qed

lemma typist_line:
  assumes s: "terminal_ok s" "enter_press s = 0" and keys: "list_all plain_key (scan_codes keys)" "keys \<noteq> []"
    and g: "no_modes g" and ts: "ts = typed_text g (scan_codes keys)"
    and lim: "0 \<le> limit s" "limit s + int (length ts) < 79" "0 \<le> line_count s" "line_count s + int (length ts) < 127"
    and lit: "disj_ranges VIDEO 4000 lit 80" and len: "typed_length s \<noteq> 127"
  shows "\<exists>m1 s1 p1. enter_wait (typist E fname lit k g keys) 0 e (m, s, p)
        = Some (fst (snd (fold put_text ts (text_of (nat (screen_num s)) s))), m1, s1, p1)
      \<and> terminal_ok s1 \<and> (\<forall>x. \<not> in_range VIDEO 4000 x \<longrightarrow> m1 x = m x)
      \<and> text_of (nat (screen_num s)) s1 = enter_text (fold put_text ts (text_of (nat (screen_num s)) s))
      \<and> line_count s1 = 1 \<and> typed_length s1 = typed_length s
      \<and> screen_num s1 = screen_num s \<and> colour (scr s1) = colour (scr s) \<and> on_display s1 m1"
proof -
  have t0: "typed_state m s (typed_text g (scan_codes (take 0 keys))) (m, s, p)"
    using s by (simp add: typed_state_def scan_codes_def)
  have k0: "0 < length keys" "Suc 0 \<le> length keys" using keys(2) by (simp_all add: Suc_le_eq)
  note args = keys(1) g refl lim(1) lim(2) [unfolded ts] lim(3) lim(4) [unfolded ts] lit
  obtain m2 s2 p2 where step: "enter_wait (typist E fname lit k g keys) 0 e (m, s, p) =
      enter_wait (typist E fname lit k g keys) (Suc 0) (buf_x (bf s2)) (m2, s2, p2)"
      "typed_state m s (typed_text g (scan_codes (take (Suc 0) keys))) (m2, s2, p2)"
    using typist_wait_step [OF typist_types [OF k0(1) args t0] len] by blast
  show ?thesis unfolding step(1) by (rule typist_wait [OF keys(1) g ts lim lit len k0(2) step(2)])
qed

text \<open>
  C12. What is typed is what is read. While \<open>terminal_read\<close> waits, key events arrive, at last
  Enter; no key is Backspace, Control or Alt, and each other than Shift and Caps Lock has a character (one
  without puts a NUL in the line, which cuts it). The line stored is the sequence of the characters of the keys pressed, by the
  table for the modifiers at that time, then a NUL; the terminal has it in its row, with the position on
  the next row; and the video memory shows the terminal's 24 rows in its colour, apart from the cells
  of newline and return marks. The line fits its row, the line counters and the count, no newline mark stands
  behind it in the row, no Enter is pending, and the buffer and the status text are apart from the video memory; Enter is not among the
  handlers that run before the first test, for then the column of the end is not known; and the number of
  characters of all earlier reads is not 127, for then a read does not wait for Enter.
\<close>

theorem typed_line_spec:
  assumes "terminal_ok s" and "no_modes g" and "keys \<noteq> []" and "list_all plain_key (scan_codes keys)"
    and "ts = typed_text g (scan_codes keys)" and "0 \<notin> set ts"
    and "0 \<le> limit s" "limit s + int (length ts) < 79" and "0 \<le> line_count s" "line_count s + int (length ts) < 127"
    and "typed_length s \<noteq> 127" and "enter_press s = 0" and "buf_x (bf s) + int (length ts) < 80"
    and "chars (nat (screen_num s)) (bf s) ! nat (80 * buf_y (bf s) + buf_x (bf s) + int (length ts)) \<noteq> 0x0A"
    and "length ts < unat counter" and "unat counter < 2147483648" and "disj_ranges VIDEO 4000 lit 80"
    and "disj_ranges VIDEO 4000 buf (length ts + 1)"
  shows "\<exists>m' s' p'. terminal_read device (typist E fname lit k g keys) f buf counter (m, s, p) =
      Some (if 128 <s counter then 128 else counter, m', s', p')
    \<and> load_bytes m' buf (length ts + 1) = ts @ [0] \<and> terminal_ok s'
    \<and> text_of (nat (screen_num s)) s' = enter_text (fold put_text ts (text_of (nat (screen_num s)) s))
    \<and> screen_num s' = screen_num s \<and> colour (scr s') = colour (scr s) \<and> on_display s' m'
    \<and> {x. m' x \<noteq> m x} \<subseteq> {x. in_range VIDEO 4000 x \<or> in_range buf (max 20 (length ts + 1)) x}"
proof -
  define b where "b = nat (screen_num s)"
  define m0 where "m0 = store_bytes m buf (replicate 20 (0 :: u8))"
  have b: "b < 3" using pass_buff_ok [OF assms(1)] by (simp add: b_def)
  have all: "all_buffers_ok (bf s)" using assms(1) by (simp add: terminal_ok_def)
  note ok = all_buffers_okD [OF all b]
  have xy: "0 \<le> buf_x (bf s)" "0 \<le> buf_y (bf s)" "buf_y (bf s) < 24" "length (chars b (bf s)) = 2000"
    using ok length_chars by (simp_all add: buffer_ok_def)
  have plain: "list_all (\<lambda>c. \<not> (c = 0x0A \<or> c = 0x0D)) ts" unfolding assms(5) by (rule typed_text_plain [OF assms(4,2)])
  obtain m1 s1 p1 where w: "enter_wait (typist E fname lit k g keys) 0 (line_count s) (m0, s, snd (inb device 0x60 (sti p)))
      = Some (fst (snd (fold put_text ts (text_of b s))), m1, s1, p1)"
    "terminal_ok s1" "\<forall>x. \<not> in_range VIDEO 4000 x \<longrightarrow> m1 x = m0 x" "text_of b s1 = enter_text (fold put_text ts (text_of b s))"
    "line_count s1 = 1" "screen_num s1 = screen_num s" "colour (scr s1) = colour (scr s)" "on_display s1 m1"
    using typist_line [where E = E and fname = fname and k = k, OF assms(1,12,4,3,2,5,7-10,17,11)] unfolding b_def by blast
  have et: "enter_text (fold put_text ts (chars b (bf s), buf_x (bf s), buf_y (bf s))) = (chars b (bf s1), 0, buf_y (bf s1))"
  proof -
    have "\<exists>cs y. enter_text v = (cs, 0, y)" for v by (cases v) (simp add: Let_def)
    then show ?thesis using w(4) unfolding text_of_def by (metis prod.inject)
  qed
  have all1: "all_buffers_ok (bf s1)" using w(2) by (simp add: terminal_ok_def)
  have len': "length (chars b (bf s1)) = 2000" "buf_y (bf s1) < 24"
    using all_buffers_okD [OF all1 b] length_chars by (simp_all add: buffer_ok_def)
  note row = line_on_row [OF plain xy(4,1) assms(13) xy(2,3) assms(14) [folded b_def] et len']
  have e: "fst (snd (fold put_text ts (text_of b s))) = buf_x (bf s) + int (length ts)"
    using put_row [OF plain xy(1,2) assms(13), of "chars b (bf s)"] xy assms(13) by (simp add: text_of_def)
  have "terminal_read device (typist E fname lit k g keys) f buf counter (m, s, p) =
    Some (if 128 <s counter then 128 else counter, store_bytes m1 buf (ts @ [0]),
      s1\<lparr>enter_press := 0, typed_length := typed_length s1 + int (length ts)\<rparr>, p1)"
    by (rule terminal_read_spec [OF assms(1) w(2) w(1) [unfolded m0_def e] _ row(1)])
      (use w(5) xy row(2,3) assms(6,13,15,16) in \<open>simp_all add: b_def [symmetric]\<close>)
  moreover have "load_bytes (store_bytes m1 buf (ts @ [0])) buf (length (ts @ [0])) = ts @ [0]"
    by (rule load_store_bytes) (use assms(15,16) in simp)
  moreover have "store_bytes m1 buf (ts @ [0]) x = m x"
    if "\<not> in_range VIDEO 4000 x" "\<not> in_range buf (max 20 (length ts + 1)) x" for x
  proof -
    have r: "\<not> in_range buf 20 x" "\<not> in_range buf (length ts + 1) x"
      using that(2) in_range_mono [of buf _ x "max 20 (length ts + 1)"] by (meson max.cobounded1 max.cobounded2)+
    have "length (ts @ [0]) \<le> 2 ^ 32" using assms(15,16) by simp
    then have "store_bytes m1 buf (ts @ [0]) x = m1 x" using r(2) store_bytes_apply [of "ts @ [0]" m1 buf x] by simp
    then show ?thesis using w(3) that(1) r(1) by (simp add: m0_def store_bytes_apply)
  qed
  moreover have "on_display s1 (store_bytes m1 buf (ts @ [0]))"
  proof (rule on_display_cong [OF w(8)], intro allI impI)
    fix x assume "in_range VIDEO 3840 x"
    then have "\<not> in_range buf (length ts + 1) x" by (rule disj_rangesD [OF assms(18) in_video_screen])
    then show "store_bytes m1 buf (ts @ [0]) x = m1 x"
      using assms(15,16) store_bytes_apply [of "ts @ [0]" m1 buf x] by simp
  qed
  moreover have "terminal_ok (s1\<lparr>enter_press := 0, typed_length := typed_length s1 + int (length ts)\<rparr>)"
    using w(2) by (simp add: terminal_ok_def)
  ultimately show ?thesis using w(4,6,7) unfolding b_def [symmetric] by (auto simp: text_of_def on_display_def)
qed

text \<open>Shift, \<open>a\<close>, nothing, the release of both and \<open>1\<close>, then Enter.\<close>

definition sample_keyboard :: keyboard where
  "sample_keyboard = \<lparr>reset_flag = 1, caps_count = 0, shift = 0, ctrl = 0, alt = 0, term2 = 1, term3 = 1, offset = 0, line_flag = 1\<rparr>"

definition sample_keys :: "u8 option list" where
  "sample_keys = [Some 0x2A, Some 0x1E, None, Some 0x9E, Some 0xAA, Some 0x02]"

lemma sample_keys_text:
  "list_all plain_key (scan_codes sample_keys)" "typed_text sample_keyboard (scan_codes sample_keys) = ascii ''A1''"
  by (simp add: scan_codes_def sample_keys_def plain_key_def, code_simp)

theorem typed_line_spec_witness:
  "\<exists>m' s' p'. terminal_read (\<lambda>_ _. 0) (typist sample_env 0x7000 0x400000 sample_kernel sample_keyboard sample_keys) closed_file 0x6000 64
      ((\<lambda>_. 0xFF), sample_terminal, \<lparr>trace = [], intr_on = False\<rparr>) = Some (64, m', s', p')
    \<and> load_bytes m' 0x6000 3 = ascii ''A1'' @ [0]"
proof -
  have d: "disj_ranges VIDEO 4000 0x400000 80" by (simp add: disj_ranges_def)
  have b: "disj_ranges VIDEO 4000 0x6000 (length (ascii ''A1'') + 1)" by (simp add: disj_ranges_def ascii_def)
  have g: "no_modes sample_keyboard" "sample_keys \<noteq> []" by (simp_all add: sample_keyboard_def no_modes_def sample_keys_def)
  have n: "0 \<notin> set (ascii ''A1'')" by (simp add: ascii_def)
  have t: "0 \<le> limit sample_terminal" "limit sample_terminal + int (length (ascii ''A1'')) < 79"
    "0 \<le> line_count sample_terminal" "line_count sample_terminal + int (length (ascii ''A1'')) < 127"
    "typed_length sample_terminal \<noteq> 127" "enter_press sample_terminal = 0"
    "buf_x (bf sample_terminal) + int (length (ascii ''A1'')) < 80"
    by (simp_all add: sample_terminal_def ascii_def)
  have c: "chars (nat (screen_num sample_terminal)) (bf sample_terminal)
      ! nat (80 * buf_y (bf sample_terminal) + buf_x (bf sample_terminal) + int (length (ascii ''A1''))) \<noteq> 0x0A"
    by (simp add: sample_chars sample_terminal_pos ascii_def)
  have u: "length (ascii ''A1'') < unat (64 :: u32)" "unat (64 :: u32) < 2147483648" by (simp_all add: ascii_def)
  show ?thesis
    using typed_line_spec [OF sample_terminal_ok g sample_keys_text(1) sample_keys_text(2) [symmetric] n t c u d b,
        of "\<lambda>_ _. 0" sample_env "0x7000" sample_kernel closed_file "\<lambda>_. 0xFF" "\<lparr>trace = [], intr_on = False\<rparr>"]
    by (auto simp: ascii_def numeral_3_eq_3)
qed

section \<open>Every key keeps the invariant\<close>

text \<open>What an operation on buffer \<open>b\<close> keeps of the terminals.\<close>

definition keeps_screens :: "nat \<Rightarrow> terminal \<Rightarrow> terminal \<Rightarrow> bool" where
  "keeps_screens b s s' \<longleftrightarrow> terminal_ok s' \<and> screen_num s' = screen_num s
     \<and> (\<forall>c. c \<noteq> b \<longrightarrow> bufs (bf s') c = bufs (bf s) c)"

lemma keeps_screens_counters [simp]:
  "keeps_screens b s (s'\<lparr>limit := n\<rparr>) = keeps_screens b s s'"
  "keeps_screens b s (s'\<lparr>line_count := n\<rparr>) = keeps_screens b s s'"
  by (simp_all add: keeps_screens_def terminal_ok_def)

lemma keeps_screens_refl: "terminal_ok s \<Longrightarrow> keeps_screens b s s"
  by (simp add: keeps_screens_def)

lemma keeps_screens_trans: "keeps_screens b s s' \<Longrightarrow> keeps_screens b s' s'' \<Longrightarrow> keeps_screens b s s''"
  by (simp add: keeps_screens_def)

context screen_op
begin

lemma on_buffer_keeps:
  assumes "terminal_ok s" and "b < 3"
  shows "\<exists>s'. on_buffer (op b) s = Some s' \<and> keeps_screens b s s'"
proof -
  obtain s' where s': "on_buffer (op b) s = Some s'" "terminal_ok s'" "s' = s\<lparr>bf := bf s'\<rparr>"
    using on_buffer_ok [OF assms] by blast
  then have "op b (bf s) = Some (bf s')" by (auto simp: on_buffer_def)
  then have "bufs (bf s') c = bufs (bf s) c" if "c \<noteq> b" for c using op_frame that by blast
  moreover have "screen_num s' = screen_num s" by (subst s'(3)) simp
  ultimately show ?thesis using s'(1,2) by (auto simp: keeps_screens_def)
qed

end

lemma backspace_keeps:
  assumes "terminal_ok s" and "b < 3" and "n > 0 \<Longrightarrow> 0 < buf_x (bf s) \<or> 0 < buf_y (bf s)"
  shows "\<exists>s'. on_buffer (backspace b n) s = Some s' \<and> keeps_screens b s s'"
proof -
  have all: "all_buffers_ok (bf s)" using assms(1) by (simp add: terminal_ok_def)
  obtain u where u: "backspace b n (bf s) = Some u" "buffer_ok b u"
    using backspace_ok [OF all_buffers_okD [OF all assms(2)] assms(3)] by blast
  have "all_buffers_ok u" using all_buffers_ok_frame [OF all u(2) assms(2)] backspace_frame [OF u(1)] by blast
  then show ?thesis
    using u(1) assms(1) backspace_frame [OF u(1)] by (auto simp: on_buffer_def keeps_screens_def terminal_ok_def)
qed

lemma fresh_line_keeps:
  assumes "terminal_ok s" and "b < 3"
  shows "\<exists>s'. Option.bind (on_buffer (new_line b) s) (on_buffer (clear_buf_line b)) = Some s' \<and> keeps_screens b s s'"
proof -
  obtain s1 where s1: "on_buffer (new_line b) s = Some s1" "keeps_screens b s s1"
    using line_break.on_buffer_keeps [OF assms] by blast
  then obtain s2 where s2: "on_buffer (clear_buf_line b) s1 = Some s2" "keeps_screens b s1 s2"
    using line_clear.on_buffer_keeps [of s1 b] assms(2) by (auto simp: keeps_screens_def)
  show ?thesis using s1(1) s2(1) keeps_screens_trans [OF s1(2) s2(2)] by simp
qed

text \<open>Backspace at the first position of the buffer would read the entry before the array.\<close>

definition can_go_back :: "u32 \<Rightarrow> terminal \<Rightarrow> bool" where
  "can_go_back c s \<longleftrightarrow> c \<noteq> 0x0E \<or> line_count s \<le> 0 \<or> 0 < buf_x (bf s) \<or> 0 < buf_y (bf s)"

lemma keys_keep:
  assumes "terminal_ok s" and "b < 3" and "can_go_back c s"
  shows "\<exists>s'. type_key c sh off b s = Some s' \<and> keeps_screens b s s'"
    and "\<exists>s'. full_line_key c b s = Some s' \<and> keeps_screens b s s'"
proof -
  obtain s1 where enter: "enter_line b s = Some s1" "keeps_screens b s s1"
    using fresh_line_keeps [OF assms(1,2)] unfolding enter_line_def by fastforce
  obtain s2 where erase: "c = 0x0E \<Longrightarrow> on_buffer (backspace b (line_count s)) s = Some s2" "keeps_screens b s s2"
    using backspace_keeps [OF assms(1,2), of "line_count s"] keeps_screens_refl [OF assms(1), of b] assms(3)
    by (cases "c = 0x0E") (auto simp: can_go_back_def)
  have char: "\<exists>s'. on_buffer (setb b ch) s = Some s' \<and> keeps_screens b s s'" for ch
    by (rule set_char.on_buffer_keeps [OF assms(1,2)])
  show "\<exists>s'. type_key c sh off b s = Some s' \<and> keeps_screens b s s'"
    using enter erase char keeps_screens_refl [OF assms(1), of b] by (auto simp: type_key_def Let_def)
  show "\<exists>s'. full_line_key c b s = Some s' \<and> keeps_screens b s s'"
    using enter erase keeps_screens_refl [OF assms(1), of b] by (auto simp: full_line_key_def Let_def)
qed

lemma typing_keeps:
  assumes "terminal_ok s" and "b < 3" and "can_go_back c s"
  shows "\<exists>g' s'. typing c b (g, s) = Some (g', s') \<and> keeps_screens b s s'"
proof -
  define g1 where "g1 = (if line_count s = 127 then g\<lparr>line_flag := 0\<rparr> else g\<lparr>line_flag := 1\<rparr>)"
  obtain s1 where s1: "(if shift g1 = 0 \<and> line_flag g1 \<noteq> 0 then type_key c False (offset g1) b s
      else if shift g1 \<noteq> 0 \<and> line_flag g1 \<noteq> 0 then type_key c True (offset g1) b s
      else full_line_key c b s) = Some s1" "keeps_screens b s s1"
    using keys_keep(1) [OF assms, of False "offset g1"] keys_keep(1) [OF assms, of True "offset g1"] keys_keep(2) [OF assms]
    by (cases "line_flag g1 = 0"; cases "shift g1 = 0") auto
  define s2 where "s2 = (if line_flag g1 \<noteq> 0 then s1\<lparr>limit := limit s1 + 1, line_count := line_count s1 + 1\<rparr> else s1)"
  have s2: "keeps_screens b s s2" using s1(2) by (simp add: s2_def keeps_screens_def terminal_ok_def)
  then have "terminal_ok s2" by (simp add: keeps_screens_def)
  then obtain s3 where s3: "Option.bind (on_buffer (new_line b) s2) (on_buffer (clear_buf_line b)) = Some s3" "keeps_screens b s s3"
    using fresh_line_keeps [OF _ assms(2), of s2] keeps_screens_trans [OF s2] by blast
  have "typing c b (g, s) = map_option (Pair g1)
      (if limit s2 = 80 then map_option (\<lambda>s. s\<lparr>limit := 0\<rparr>) (Some s3) else Some s2)"
    unfolding typing_def case_prod_conv g1_def [symmetric] Let_def s1(1) by (simp add: s2_def [symmetric] s3(1))
  then show ?thesis using s2 s3(2) by (cases "limit s2 = 80") auto
qed

text \<open>
  C19. No key breaks a terminal. For every scan code that does not switch terminals, with any modifiers
  and in any state of the line, the handler returns; it keeps the invariant of the terminals, the
  buffers of the terminals not on display and the number of the one on display, and changes no memory
  but the screen. The one exception is Backspace at the first position while the line count is positive.
\<close>

theorem keyboard_safe:
  assumes "terminal_ok (tty k)" and "inb (dev E) 0x60 (ports (clock k)) = (ucast (c :: u8), p)"
    and "alt (modifiers (ucast c) g) = 0 \<or> c \<notin> {0x3B, 0x3C, 0x3D, 0x3E, 0x3F}"
    and "can_go_back (ucast c) (tty k)" and "disj_ranges VIDEO 4000 lit 80"
  shows "\<exists>g' m' s' p'. kbd_int_handler E fname lit (g, k) =
      Some (g', set_view m' (k\<lparr>tty := s', clock := (clock k)\<lparr>ports := p'\<rparr>\<rparr>), Return 0)
    \<and> keeps_screens (nat (screen_num (tty k))) (tty k) s' \<and> enter_press s' = (if c = 0x1C then 1 else 0)
    \<and> {x. m' x \<noteq> view k x} \<subseteq> {x. in_range VIDEO 4000 x}"
proof -
  define b where "b = nat (screen_num (tty k))"
  define k0 where "k0 = k\<lparr>clock := (clock k)\<lparr>ports := p\<rparr>\<rparr>"
  define g1 where "g1 = (modifiers (ucast c) g)\<lparr>reset_flag := 1\<rparr>"
  have b: "pass_buff (tty k) = Some b" "b < 3" using pass_buff_ok [OF assms(1)] by (simp_all add: b_def)
  have codes: "c = ucast n" if "ucast c = (n :: u32)" for n :: u32
  proof -
    have "(ucast (ucast c :: u32) :: u8) = c" by (rule bit_word_eqI) (auto simp: bit_simps)
    then show ?thesis using that by simp
  qed
  have noswitch: "\<not> (alt g1 \<noteq> 0 \<and> (ucast c :: u32) = n)" if "n \<in> {0x3B, 0x3C, 0x3D, 0x3E, 0x3F}" for n
    using assms(3) that codes [of n] by (auto simp: g1_def)
  have tty0: "tty k0 = tty k" by (simp add: k0_def)
  obtain s0 where reset: "on_buffer (reset_buf b) (tty k) = Some s0" "keeps_screens b (tty k) s0"
    using reset.on_buffer_keeps [OF assms(1) b(2)] by blast
  obtain g2 s2 where type: "typing (ucast c) b (g1, tty k) = Some (g2, s2)" "keeps_screens b (tty k) s2"
    using typing_keeps [OF assms(1) b(2) assms(4)] by blast
  have "\<exists>g' s'. kbd_logic E fname (ucast c) (Some b) (g\<lparr>reset_flag := 1\<rparr>, k0) = Some (g', k0\<lparr>tty := s'\<rparr>, Return 0)
      \<and> keeps_screens b (tty k) s'"
  proof (cases "ctrl g1 \<noteq> 0 \<and> (ucast c :: u32) = 0x26")
    case True
    then show ?thesis
      using reset unfolding kbd_logic_def Let_def modifiers_reset case_prod_conv g1_def [symmetric] tty0 by auto
  next
    case False
    then show ?thesis
      using type noswitch unfolding kbd_logic_def Let_def modifiers_reset case_prod_conv g1_def [symmetric] tty0 by auto
  qed
  then obtain g' s' where logic: "kbd_logic E fname (ucast c) (pass_buff (tty k)) (g\<lparr>reset_flag := 1\<rparr>, k0) = Some (g', k0\<lparr>tty := s'\<rparr>, Return 0)"
    "keeps_screens b (tty k) s'" using b(1) by auto
  then have s': "terminal_ok (tty (k0\<lparr>tty := s'\<rparr>))" by (simp add: keeps_screens_def)
  have view0: "view (k0\<lparr>tty := s'\<rparr>) = view k" by (simp add: view_def k0_def cong del: if_weak_cong option.case_cong_weak)
  obtain m' w where h: "kbd_int_handler E fname lit (g, k) = Some (g', kernel_send_eoi 1 (set_view m' (k0\<lparr>tty :=
        s'\<lparr>status := lit, enter_press := (if c = 0x1C then 1 else 0), scr := w\<rparr>\<rparr>)), Return 0)"
      "\<forall>x. \<not> in_range VIDEO 4000 x \<longrightarrow> m' x = view k x"
    using handler_draws [OF logic(1) [unfolded k0_def] assms(2) s' [unfolded k0_def] assms(5), folded k0_def] view0
    by auto
  define s1 where "s1 = s'\<lparr>status := lit, enter_press := (if c = 0x1C then 1 else 0), scr := w\<rparr>"
  have "kernel_send_eoi 1 (set_view m' (k0\<lparr>tty := s1\<rparr>)) =
      set_view m' (k\<lparr>tty := s1, clock := (clock k)\<lparr>ports := send_eoi 1 p\<rparr>\<rparr>)"
    by (simp add: kernel_send_eoi_def set_view_def k0_def split: option.split cong del: if_weak_cong)
  with h(1) have "kbd_int_handler E fname lit (g, k) =
      Some (g', set_view m' (k\<lparr>tty := s1, clock := (clock k)\<lparr>ports := send_eoi 1 p\<rparr>\<rparr>), Return 0)"
    unfolding s1_def [symmetric] by simp
  moreover have "keeps_screens b (tty k) s1" using logic(2) by (simp add: s1_def keeps_screens_def terminal_ok_def)
  moreover have "enter_press s1 = (if c = 0x1C then 1 else 0)" by (simp add: s1_def)
  moreover have "{x. m' x \<noteq> view k x} \<subseteq> {x. in_range VIDEO 4000 x}" using h(2) by blast
  ultimately show ?thesis unfolding b_def by blast
qed

theorem keyboard_safe_witness:
  "\<exists>g' m' s' p'. kbd_int_handler (sample_env\<lparr>dev := \<lambda>_ _. 0x0E\<rparr>) 0x7000 0x400000 (sample_keyboard, sample_kernel\<lparr>tty := sample_terminal\<rparr>) =
      Some (g', set_view m' (sample_kernel\<lparr>tty := s', clock := (clock sample_kernel)\<lparr>ports := p'\<rparr>\<rparr>), Return 0)
    \<and> terminal_ok s' \<and> enter_press s' = 0"
proof -
  define k where "k = sample_kernel\<lparr>tty := sample_terminal\<rparr>"
  define p where "p = snd (inb (\<lambda>_ _. 0x0E) 0x60 (ports (clock k)))"
  have k: "tty k = sample_terminal" "k\<lparr>tty := s\<rparr> = sample_kernel\<lparr>tty := s\<rparr>" "clock k = clock sample_kernel" for s
    by (simp_all add: k_def)
  have t: "terminal_ok (tty k)" by (simp add: k(1) sample_terminal_ok)
  have i: "inb (dev (sample_env\<lparr>dev := \<lambda>_ _. 0x0E\<rparr>)) 0x60 (ports (clock k)) = (ucast (0x0E :: u8), p)"
    by (simp add: p_def inb_def)
  have a: "alt (modifiers (ucast (0x0E :: u8)) sample_keyboard) = 0 \<or> (0x0E :: u8) \<notin> {0x3B, 0x3C, 0x3D, 0x3E, 0x3F}" by simp
  have b: "can_go_back (ucast (0x0E :: u8)) (tty k)" by (simp add: can_go_back_def k(1) sample_terminal_pos)
  have d: "disj_ranges VIDEO 4000 0x400000 80" by (simp add: disj_ranges_def)
  show ?thesis
    using keyboard_safe [OF t i a b d, of "0x7000"] unfolding k(3) k_def by (auto simp: keeps_screens_def)
qed

end
