(* ===== verification/SwitchSpec.thy ===== *)
theory SwitchSpec
  imports KeyboardSpec
begin

text \<open>
  Switching between the terminals with Alt and a function key: the composition of the keyboard, the
  terminals and the processes. Each terminal has a process in front; the key saves the running one
  where it is and continues the other.
\<close>

section \<open>Switching processes\<close>

lemma context_switch_saves:
  assumes "pid \<noteq> - 1"
  shows "\<exists>k'. context_switch E pid k = (k', Switched (k_sp (pcbs k (pcb_addr pid))) (pcb_k_bp (pcbs k (pcb_addr pid))))
    \<and> curr_process k' = pcb_addr pid \<and> process_id k' = pid \<and> cr3 (pg k') = PD_ptr (pcbs k (pcb_addr pid))
    \<and> pcbs k' = (pcbs k)(curr_process k := (pcbs k (curr_process k))\<lparr>k_sp := esp E, pcb_k_bp := ebp E\<rparr>)
    \<and> tss_esp0 k' = k_sp (pcbs k (pcb_addr pid))
    \<and> tty k' = (tty k)\<lparr>process_buf := sint (file_pos (file_fds (pcbs k (pcb_addr pid)) ! 1))\<rparr>
    \<and> (\<forall>x. \<not> user_page x \<longrightarrow> view k' x = view k x)"
  using assms by (simp add: context_switch_def Let_def kernel_send_eoi_def update_pcb_def set_PDBR_def view_def split: option.splits)

text \<open>The video memory is the same in every page directory, so a switch keeps what the screen shows.\<close>

lemma video_not_user: "in_range VIDEO 3840 x \<Longrightarrow> \<not> user_page x"
proof -
  assume "in_range VIDEO 3840 x"
  then obtain i where i: "i < 3840" "x = VIDEO + of_nat i" using in_range_D by blast
  have "VIDEO + of_nat i = (of_nat (753664 + i) :: u32)" by simp
  then have "unat x = 753664 + i" using i by (simp only: unat_of_nat32)
  then show ?thesis using i(1) by (simp add: user_page_def word_le_nat_alt)
qed

lemma shows_cells_kept:
  assumes "list_all (shows_cell_at cs attr m m1) [0..<1920]" and "\<forall>x. in_range VIDEO 3840 x \<longrightarrow> m2 x = m1 x"
  shows "list_all (shows_cell_at cs attr m m2) [0..<1920]"
  using assms cell_in_video by (auto simp: list_all_iff shows_cell_at_def shows_cell_def)

section \<open>The keys\<close>

text \<open>The process in front of a terminal, as the code finds it.\<close>

definition front :: "kernel \<Rightarrow> nat \<Rightarrow> u32" where
  "front k n = (let p = pcbs k (pcb_addr (of_nat n)) in if child_flag p \<noteq> 0 then child p else of_nat n)"

definition shells_started :: "keyboard \<Rightarrow> bool" where
  "shells_started g \<longleftrightarrow> term2 g = 0 \<and> term3 g = 0"

text \<open>The state of a terminal's line: its characters, the position and the counters.\<close>

definition line_state :: "nat \<Rightarrow> terminal \<Rightarrow> text_state \<times> int \<times> int" where
  "line_state i s = (text_of i s, line_count s, limit s)"

definition saved_line :: "nat \<Rightarrow> terminal \<Rightarrow> text_state \<times> int \<times> int" where
  "saved_line i s = (let a = components s ! i in ((chars i (bf s), curr_x a, curr_y a), curr_line a, curr_limit a))"

lemma switch_to_resumes:
  assumes s: "terminal_ok (tty k)" and i: "screen_num (tty k) = int i" "i < 3" "j < 3" "i \<noteq> j" and q: "front k j \<noteq> - 1"
  shows "\<exists>k'. switch_to E fname (int j) False clr (g, k) =
      Some (g, k', Switched (k_sp (pcbs k (pcb_addr (front k j)))) (pcb_k_bp (pcbs k (pcb_addr (front k j)))))
    \<and> terminal_ok (tty k') \<and> screen_num (tty k') = int j \<and> curr_process k' = pcb_addr (front k j) \<and> process_id k' = front k j
    \<and> cr3 (pg k') = PD_ptr (pcbs k (pcb_addr (front k j)))
    \<and> pcbs k' = (pcbs k)(curr_process k := (pcbs k (curr_process k))\<lparr>k_sp := esp E, pcb_k_bp := ebp E\<rparr>)
    \<and> saved_line i (tty k') = line_state i (tty k) \<and> line_state j (tty k') = saved_line j (tty k)
    \<and> list_all (shows_cell_at (chars j (bf (tty k'))) (colour (scr (tty k))) (clear (view k)) (view k')) [0..<1920]"
proof -
  define k0 where "k0 = kernel_send_eoi 1 (k\<lparr>tty := (tty k)\<lparr>screen_num := int j\<rparr>\<rparr>)"
  have s0: "terminal_ok (tty k0)" using s i(3) by (simp add: k0_def kernel_send_eoi_def terminal_ok_def)
  have len: "length (components (tty k)) = 3" using s by (simp add: terminal_ok_def)
  define c where "c = (components (tty k))[i := \<lparr>curr_line = line_count (tty k), curr_limit = limit (tty k),
      curr_x = buf_x (bf (tty k)), curr_y = buf_y (bf (tty k))\<rparr>]"
  have tty0: "tty k0 = (tty k)\<lparr>screen_num := int j\<rparr>" by (simp add: k0_def kernel_send_eoi_def)
  obtain m w where sw: "terminal_switch (conv_buf E) (int j) (int i) (view k0, tty k0) =
      Some (m, (tty k0)\<lparr>components := c, line_count := curr_line (c ! j), limit := curr_limit (c ! j),
        bf := (bf (tty k0))\<lparr>buf_x := curr_x (c ! j), buf_y := curr_y (c ! j)\<rparr>, scr := w, screen_num := int j\<rparr>)"
    "terminal_ok ((tty k0)\<lparr>components := c, line_count := curr_line (c ! j), limit := curr_limit (c ! j),
        bf := (bf (tty k0))\<lparr>buf_x := curr_x (c ! j), buf_y := curr_y (c ! j)\<rparr>, scr := w, screen_num := int j\<rparr>)"
    "list_all (shows_cell_at (chars j (bf (tty k))) (colour (scr (tty k))) (clear (view k0)) m) [0..<1920]"
    using terminal_switch_ok [OF s0, of "int j" "int i" "conv_buf E" "view k0"] i(2,3) by (auto simp: tty0 c_def)
  define s1 where "s1 = (tty k0)\<lparr>components := c, line_count := curr_line (c ! j), limit := curr_limit (c ! j),
        bf := (bf (tty k0))\<lparr>buf_x := curr_x (c ! j), buf_y := curr_y (c ! j)\<rparr>, scr := w, screen_num := int j\<rparr>"
  define k1 where "k1 = set_view m (k0\<lparr>tty := s1\<rparr>)"
  have k1: "tty k1 = s1" "pcbs k1 = pcbs k" "curr_process k1 = curr_process k" "screen_num s1 = int j"
    by (simp_all add: k1_def k0_def kernel_send_eoi_def s1_def)
  have run: "switch_to E fname (int j) False clr (g, k) =
      Some (g, context_switch E (front k j) k1)"
    using i(1,4) sw(1)
    unfolding switch_to_def case_prod_conv Let_def k0_def [symmetric] s1_def [symmetric]
    by (simp add: k1_def [symmetric] k1 front_def Let_def)
  have cj: "c ! j = components (tty k) ! j" "c ! i = \<lparr>curr_line = line_count (tty k), curr_limit = limit (tty k),
      curr_x = buf_x (bf (tty k)), curr_y = buf_y (bf (tty k))\<rparr>" using i len by (simp_all add: c_def)
  obtain k' where k': "context_switch E (front k j) k1 = (k', Switched (k_sp (pcbs k1 (pcb_addr (front k j)))) (pcb_k_bp (pcbs k1 (pcb_addr (front k j)))))"
    "curr_process k' = pcb_addr (front k j)" "process_id k' = front k j" "cr3 (pg k') = PD_ptr (pcbs k1 (pcb_addr (front k j)))"
    "pcbs k' = (pcbs k1)(curr_process k1 := (pcbs k1 (curr_process k1))\<lparr>k_sp := esp E, pcb_k_bp := ebp E\<rparr>)"
    "tty k' = s1\<lparr>process_buf := sint (file_pos (file_fds (pcbs k1 (pcb_addr (front k j))) ! 1))\<rparr>"
    "\<forall>x. \<not> user_page x \<longrightarrow> view k' x = m x"
    using context_switch_saves [OF q, of E k1] k1(1) by (auto simp: k1_def)
  have "view k0 = view k" by (simp add: k0_def kernel_send_eoi_def)
  moreover have "chars j (bf (tty k')) = chars j (bf (tty k))" by (simp add: k'(6) s1_def tty0 chars_def)
  ultimately have shown: "list_all (shows_cell_at (chars j (bf (tty k'))) (colour (scr (tty k))) (clear (view k)) (view k')) [0..<1920]"
    using shows_cells_kept [OF sw(3), of "view k'"] k'(7) video_not_user by simp
  have "terminal_ok (tty k')" using sw(2) unfolding k'(6) s1_def [symmetric] by (simp add: terminal_ok_def)
  moreover have "saved_line i (tty k') = line_state i (tty k)" "line_state j (tty k') = saved_line j (tty k)"
    by (simp_all add: k'(6) s1_def saved_line_def line_state_def text_of_def cj tty0 chars_def Let_def)
  ultimately show ?thesis using run k' k1 shown by simp
qed


text \<open>The handler on the scan code of the function key of terminal \<open>j\<close>.\<close>

lemma switch_to_started: "switch_to E fname n False clr = switch_to E fname n False id"
  unfolding switch_to_def if_False ..

lemma function_key_logic:
  assumes a: "alt g \<noteq> 0" "shells_started g" and j: "j < 3"
  shows "kbd_logic E fname (0x3B + of_nat j) b (g, k) = switch_to E fname (int j) False id (g, k)"
proof -
  have m: "modifiers c g = g" if "c = 0x3B \<or> c = 0x3C \<or> c = 0x3D" for c using that by (elim disjE) (simp_all add: modifiers_def)
  have t: "term2 g = 0" "term3 g = 0" using a(2) by (simp_all add: shells_started_def)
  consider "j = 0" | "j = 1" | "j = 2" using j by fastforce
  then show ?thesis
  proof cases
    case 1
    then show ?thesis using a(1) by (simp add: kbd_logic_def m Let_def)
  next
    case 2
    then show ?thesis using a(1) by (simp add: kbd_logic_def m Let_def t switch_to_started [of _ _ _ "\<lambda>g. g\<lparr>term2 := 0\<rparr>"])
  next
    case 3
    then show ?thesis using a(1) by (simp add: kbd_logic_def m Let_def t switch_to_started [of _ _ _ "\<lambda>g. g\<lparr>term3 := 0\<rparr>"])
  qed
qed

lemma function_key_resumes:
  assumes "terminal_ok (tty k)" "screen_num (tty k) = int i" "i < 3" "j < 3" "i \<noteq> j" "front k j \<noteq> - 1"
    and g: "alt g \<noteq> 0" "shells_started g"
    and c: "inb (dev E) 0x60 (ports (clock k)) = (0x3B + of_nat j, p)"
  shows "\<exists>k'. kbd_int_handler E fname lit (g, k) =
      Some (g\<lparr>reset_flag := 1\<rparr>, k', Switched (k_sp (pcbs k (pcb_addr (front k j)))) (pcb_k_bp (pcbs k (pcb_addr (front k j)))))
    \<and> terminal_ok (tty k') \<and> screen_num (tty k') = int j \<and> curr_process k' = pcb_addr (front k j) \<and> process_id k' = front k j
    \<and> cr3 (pg k') = PD_ptr (pcbs k (pcb_addr (front k j)))
    \<and> pcbs k' = (pcbs k)(curr_process k := (pcbs k (curr_process k))\<lparr>k_sp := esp E, pcb_k_bp := ebp E\<rparr>)
    \<and> saved_line i (tty k') = line_state i (tty k) \<and> line_state j (tty k') = saved_line j (tty k)
    \<and> list_all (shows_cell_at (chars j (bf (tty k'))) (colour (scr (tty k))) (clear (view k)) (view k')) [0..<1920]"
proof -
  define k0 where "k0 = k\<lparr>clock := (clock k)\<lparr>ports := p\<rparr>\<rparr>"
  have k0: "tty k0 = tty k" "pcbs k0 = pcbs k" "curr_process k0 = curr_process k" "front k0 j = front k j" "view k0 = view k"
    by (simp_all add: k0_def front_def)
  have g': "alt (g\<lparr>reset_flag := 1\<rparr>) \<noteq> 0" "shells_started (g\<lparr>reset_flag := 1\<rparr>)"
    using g by (simp_all add: shells_started_def)
  have "kbd_int_handler E fname lit (g, k) = switch_to E fname (int j) False id (g\<lparr>reset_flag := 1\<rparr>, k0)"
    if "switch_to E fname (int j) False id (g\<lparr>reset_flag := 1\<rparr>, k0) = Some (h, k', Switched a b)" for h k' a b
    using that by (simp add: kbd_int_handler_def c k0_def [symmetric] function_key_logic [OF g' assms(4)] del: id_apply)
  with switch_to_resumes [of k0 i j E fname id "g\<lparr>reset_flag := 1\<rparr>"] assms(1-6) show ?thesis
    unfolding k0 by auto
qed

section \<open>The property\<close>

text \<open>
  C18. The function keys suspend and resume. When Alt and the key of another terminal \<open>j\<close> are pressed
  while the process in front of terminal \<open>i\<close> runs, that process is suspended and the one in front of
  \<open>j\<close> continues at its saved stack, with its page directory; the video memory is cleared and shows the buffer of \<open>j\<close>
  (newline marks are blanks). When later, in any state that has kept the saved line of \<open>i\<close> and the two control
  blocks, the key of \<open>i\<close> is pressed, the first process continues exactly where it was interrupted, the
  characters, the position and the counters of its line are what they were, and the video memory shows them again. The
  shells of terminals 2 and 3 have been started (the first press of a key starts one instead), and the process in
  front is found one level deep: the shell of the terminal or its child.
\<close>

theorem terminal_keys_roundtrip:
  assumes t: "terminal_ok (tty k)" "screen_num (tty k) = int i" "i < 3" "j < 3" "i \<noteq> j"
    and f: "front k i \<noteq> - 1" "front k j \<noteq> - 1" "curr_process k = pcb_addr (front k i)"
    and g: "alt g \<noteq> 0" "shells_started g"
    and c: "inb (dev E) 0x60 (ports (clock k)) = (0x3B + of_nat j, p)"
  shows "\<exists>k1. kbd_int_handler E fname lit (g, k) = Some (g\<lparr>reset_flag := 1\<rparr>, k1,
        Switched (k_sp (pcbs k (pcb_addr (front k j)))) (pcb_k_bp (pcbs k (pcb_addr (front k j)))))
    \<and> terminal_ok (tty k1) \<and> screen_num (tty k1) = int j \<and> line_state j (tty k1) = saved_line j (tty k)
    \<and> curr_process k1 = pcb_addr (front k j) \<and> cr3 (pg k1) = PD_ptr (pcbs k (pcb_addr (front k j)))
    \<and> list_all (shows_cell_at (chars j (bf (tty k1))) (colour (scr (tty k))) (clear (view k)) (view k1)) [0..<1920]
    \<and> (\<forall>E' g' k2 p'.
         terminal_ok (tty k2) \<and> screen_num (tty k2) = int j \<and> saved_line i (tty k2) = saved_line i (tty k1)
         \<and> pcbs k2 (pcb_addr (of_nat i)) = pcbs k1 (pcb_addr (of_nat i)) \<and> pcbs k2 (curr_process k) = pcbs k1 (curr_process k)
         \<and> alt g' \<noteq> 0 \<and> shells_started g' \<and> inb (dev E') 0x60 (ports (clock k2)) = (0x3B + of_nat i, p')
         \<longrightarrow> (\<exists>k3. kbd_int_handler E' fname lit (g', k2) = Some (g'\<lparr>reset_flag := 1\<rparr>, k3, Switched (esp E) (ebp E))
               \<and> terminal_ok (tty k3) \<and> screen_num (tty k3) = int i \<and> line_state i (tty k3) = line_state i (tty k)
               \<and> curr_process k3 = curr_process k \<and> process_id k3 = front k i
               \<and> cr3 (pg k3) = PD_ptr (pcbs k (curr_process k))
               \<and> list_all (shows_cell_at (chars i (bf (tty k))) (colour (scr (tty k2))) (clear (view k2)) (view k3)) [0..<1920]))"
proof -
  from function_key_resumes [OF t f(2) g c, of fname lit] obtain k1 where
    h: "kbd_int_handler E fname lit (g, k) = Some (g\<lparr>reset_flag := 1\<rparr>, k1,
        Switched (k_sp (pcbs k (pcb_addr (front k j)))) (pcb_k_bp (pcbs k (pcb_addr (front k j)))))"
    and k1: "terminal_ok (tty k1)" "screen_num (tty k1) = int j" "curr_process k1 = pcb_addr (front k j)"
      "cr3 (pg k1) = PD_ptr (pcbs k (pcb_addr (front k j)))"
      "pcbs k1 = (pcbs k)(curr_process k := (pcbs k (curr_process k))\<lparr>k_sp := esp E, pcb_k_bp := ebp E\<rparr>)"
      "saved_line i (tty k1) = line_state i (tty k)" "line_state j (tty k1) = saved_line j (tty k)"
      "list_all (shows_cell_at (chars j (bf (tty k1))) (colour (scr (tty k))) (clear (view k)) (view k1)) [0..<1920]"
    by blast
  have "\<exists>k3. kbd_int_handler E' fname lit (g', k2) = Some (g'\<lparr>reset_flag := 1\<rparr>, k3, Switched (esp E) (ebp E))
      \<and> terminal_ok (tty k3) \<and> screen_num (tty k3) = int i \<and> line_state i (tty k3) = line_state i (tty k)
      \<and> curr_process k3 = curr_process k \<and> process_id k3 = front k i \<and> cr3 (pg k3) = PD_ptr (pcbs k (curr_process k))
      \<and> list_all (shows_cell_at (chars i (bf (tty k))) (colour (scr (tty k2))) (clear (view k2)) (view k3)) [0..<1920]"
    if k2: "terminal_ok (tty k2)" "screen_num (tty k2) = int j" "saved_line i (tty k2) = saved_line i (tty k1)"
        "pcbs k2 (pcb_addr (of_nat i)) = pcbs k1 (pcb_addr (of_nat i))" "pcbs k2 (curr_process k) = pcbs k1 (curr_process k)"
      and g': "alt g' \<noteq> 0" "shells_started g'" and c': "inb (dev E') 0x60 (ports (clock k2)) = (0x3B + of_nat i, p')"
    for E' g' k2 p'
  proof -
    have fr: "front k2 i = front k i" by (simp add: front_def Let_def k2(4) k1(5))
    have pcb: "pcbs k2 (pcb_addr (front k i)) = (pcbs k (curr_process k))\<lparr>k_sp := esp E, pcb_k_bp := ebp E\<rparr>"
      using k2(5) by (simp add: k1(5) f(3))
    from function_key_resumes [OF k2(1,2) t(4,3) t(5) [symmetric] _ g' c', of fname lit]
    obtain k3 where k3: "kbd_int_handler E' fname lit (g', k2) = Some (g'\<lparr>reset_flag := 1\<rparr>, k3, Switched (esp E) (ebp E))"
      "terminal_ok (tty k3)" "screen_num (tty k3) = int i" "line_state i (tty k3) = line_state i (tty k)"
      "curr_process k3 = curr_process k" "process_id k3 = front k i" "cr3 (pg k3) = PD_ptr (pcbs k (curr_process k))"
      "list_all (shows_cell_at (chars i (bf (tty k3))) (colour (scr (tty k2))) (clear (view k2)) (view k3)) [0..<1920]"
      unfolding fr pcb using f(1) by (auto simp: k2(3) k1(6) f(3))
    moreover have "chars i (bf (tty k3)) = chars i (bf (tty k))" using k3(4) by (simp add: line_state_def text_of_def)
    ultimately show ?thesis by auto
  qed
  with h k1 show ?thesis by blast
qed

theorem terminal_keys_roundtrip_witness:
  "\<exists>g k1 k3. kbd_int_handler (sample_env\<lparr>dev := \<lambda>_ _. 0x3C\<rparr>) 0x7000 0x400000
       (sample_keyboard\<lparr>alt := 1, term2 := 0, term3 := 0\<rparr>, sample_kernel) = Some (g, k1, Switched 0x7FFFFC 0x7FFFFC)
    \<and> curr_process k1 = 0x7FC000
    \<and> kbd_int_handler (sample_env\<lparr>dev := \<lambda>_ _. 0x3B\<rparr>) 0x7000 0x400000 (g, k1) = Some (g, k3, Switched 0x7FE000 0x7FE020)
    \<and> curr_process k3 = 0x7FE000 \<and> process_id k3 = 0 \<and> line_state 0 (tty k3) = line_state 0 sample_terminal"
proof -
  define g where "g = sample_keyboard\<lparr>alt := 1, term2 := 0, term3 := 0\<rparr>"
  have g: "alt (g\<lparr>reset_flag := r\<rparr>) \<noteq> 0" "shells_started (g\<lparr>reset_flag := r\<rparr>)" "alt g \<noteq> 0" "shells_started g" for r
    by (simp_all add: g_def sample_keyboard_def shells_started_def)
  have k: "tty sample_kernel = sample_terminal" "terminal_ok (tty sample_kernel)" "screen_num (tty sample_kernel) = int 0"
    "front sample_kernel 0 = 0" "front sample_kernel 1 = 1" "curr_process sample_kernel = pcb_addr 0"
    "pcbs sample_kernel a = shell_pcb a" for a
    using sample_terminal_ok by (simp_all add: sample_kernel_def front_def shell_pcb_def sample_terminal_def pcb_addr_def kernel_bp_def)
  have i: "inb (dev (sample_env\<lparr>dev := \<lambda>_ _. 0x3C\<rparr>)) 0x60 io = (0x3B + of_nat 1, snd (inb (\<lambda>_ _. 0x3C) 0x60 io))"
    "inb (dev (sample_env\<lparr>dev := \<lambda>_ _. 0x3B\<rparr>)) 0x60 io = (0x3B + of_nat 0, snd (inb (\<lambda>_ _. 0x3B) 0x60 io))" for io
    by (simp_all add: inb_def)
  have a: "pcb_addr 0 = 0x7FE000" "pcb_addr 1 = 0x7FC000" by (simp_all add: pcb_addr_def kernel_bp_def)
  have "(0 :: nat) < 3" "(1 :: nat) < 3" "(0 :: nat) \<noteq> 1" "front sample_kernel 0 \<noteq> - 1" "front sample_kernel 1 \<noteq> - 1"
    "curr_process sample_kernel = pcb_addr (front sample_kernel 0)" by (simp_all only: k) simp_all
  from terminal_keys_roundtrip [OF k(2,3) this g(3,4) i(1), of "0x7000" "0x400000"]
  obtain k1 where h: "kbd_int_handler (sample_env\<lparr>dev := \<lambda>_ _. 0x3C\<rparr>) 0x7000 0x400000 (g, sample_kernel) =
      Some (g\<lparr>reset_flag := 1\<rparr>, k1, Switched 0x7FFFFC 0x7FFFFC)" "terminal_ok (tty k1)" "screen_num (tty k1) = int 1"
    "curr_process k1 = pcb_addr 1"
    and again: "\<And>E' g' k2 p'. terminal_ok (tty k2) \<and> screen_num (tty k2) = int 1 \<and> saved_line 0 (tty k2) = saved_line 0 (tty k1)
         \<and> pcbs k2 (pcb_addr (of_nat 0)) = pcbs k1 (pcb_addr (of_nat 0)) \<and> pcbs k2 (pcb_addr 0) = pcbs k1 (pcb_addr 0)
         \<and> alt g' \<noteq> 0 \<and> shells_started g' \<and> inb (dev E') 0x60 (ports (clock k2)) = (0x3B + of_nat 0, p')
         \<Longrightarrow> \<exists>k3. kbd_int_handler E' 0x7000 0x400000 (g', k2) = Some (g'\<lparr>reset_flag := 1\<rparr>, k3, Switched 0x7FE000 0x7FE020)
               \<and> screen_num (tty k3) = int 0 \<and> line_state 0 (tty k3) = line_state 0 sample_terminal
               \<and> curr_process k3 = pcb_addr 0 \<and> process_id k3 = 0"
    unfolding k by (fastforce simp: shell_pcb_def sample_env_def)
  have "\<exists>k3. kbd_int_handler (sample_env\<lparr>dev := \<lambda>_ _. 0x3B\<rparr>) 0x7000 0x400000 (g\<lparr>reset_flag := 1\<rparr>, k1) =
        Some (g\<lparr>reset_flag := 1\<rparr>\<lparr>reset_flag := 1\<rparr>, k3, Switched 0x7FE000 0x7FE020)
      \<and> screen_num (tty k3) = int 0 \<and> line_state 0 (tty k3) = line_state 0 sample_terminal
      \<and> curr_process k3 = pcb_addr 0 \<and> process_id k3 = 0"
    by (rule again, intro conjI refl h(2,3) g(1,2), rule i(2))
  then show ?thesis using h(1,4) unfolding g_def [symmetric] by (auto simp: a)
qed

end
