(* ===== verification/Mouse.thy ===== *)
theory Mouse
  imports Timer
begin

text \<open>
  The mouse, \<open>mouse.c\<close>: start-up, the interrupt that takes a packet of three bytes, the pointer and the
  buttons. The position is in the state of the terminals, whose status bar draws the pointer; the
  last packet byte and the flag are kept next to the kernel. Packet bytes are \<open>int8_t\<close>, widened with
  their sign in every test.
\<close>

section \<open>State and start-up\<close>

record mouse =
  read_flag :: int
  input_packet :: u8

definition init_mouse :: "device \<Rightarrow> terminal \<times> io \<Rightarrow> terminal \<times> io" where
  "init_mouse hw = (\<lambda>(s, p).
     let s = s\<lparr>mouse_x := 79, mouse_y := 24\<rparr>;
         p = enable_irq hw 12 p;
         (v, p) = inb hw 0x60 p;
         st = (ucast v :: u8);
         st = st OR 0x2;
         p = outb 0xA8 0x64 p;
         p = outb 0x20 0x64 p;
         p = outb 0x60 0x64 p;
         p = outb (ucast st) 0x60 p;
         p = outb 0x60 0x64 p;
         p = outb 0x47 0x60 p;
         p = outb 0xD4 0x64 p
     in (s, outb 0xF4 0x60 p))"

section \<open>The pointer\<close>

definition attempt_read :: "device \<Rightarrow> mouse \<times> io \<Rightarrow> u8 \<times> mouse \<times> io" where
  "attempt_read hw = (\<lambda>(g, p).
     let (v, p) = inb hw 0x64 p
     in if v AND 1 = 0 then (0, g\<lparr>read_flag := 0\<rparr>, p)
        else (let (v, p) = inb hw 0x60 p in (ucast v, g\<lparr>read_flag := 1\<rparr>, p)))"

definition show_cursor :: "mem \<times> terminal \<Rightarrow> mem \<times> terminal" where
  "show_cursor = (\<lambda>(m, s). (set_colour (mouse_x s) (mouse_y s) 0x64 m, s))"

text \<open>The conditions use \<open>&&\<close>, so \<open>packet\<close> is 0 or 1 and the shifted value is 0.\<close>

definition move_mouse :: "mouse \<Rightarrow> int \<Rightarrow> int \<Rightarrow> mem \<times> terminal \<Rightarrow> mem \<times> terminal" where
  "move_mouse g x_change y_change = (\<lambda>(m, s).
     let m = set_colour (mouse_x s) (mouse_y s) (colour (scr s)) m;
         packet = (if input_packet g \<noteq> 0 then 1 else 0 :: int);
         s = (if drop_bit 4 packet > 0 then s\<lparr>mouse_x := mouse_x s + x_change\<rparr>
              else if drop_bit 4 packet < 0 then s\<lparr>mouse_x := mouse_x s + x_change\<rparr>
              else s\<lparr>mouse_x := mouse_x s + x_change\<rparr>);
         s = (if mouse_x s < 0 then s\<lparr>mouse_x := 0\<rparr> else if mouse_x s > 79 then s\<lparr>mouse_x := 79\<rparr> else s);
         s = (if drop_bit 5 packet > 0 then s\<lparr>mouse_y := mouse_y s + y_change\<rparr>
              else if drop_bit 5 packet < 0 then s\<lparr>mouse_y := mouse_y s - y_change\<rparr>
              else s\<lparr>mouse_y := mouse_y s - y_change\<rparr>);
         s = (if mouse_y s < 0 then s\<lparr>mouse_y := 0\<rparr> else if mouse_y s > 24 then s\<lparr>mouse_y := 24\<rparr> else s)
     in show_cursor (m, s))"

section \<open>The buttons\<close>

text \<open>A click on the status bar, for one of its three regions.\<close>

definition click_region :: "env \<Rightarrow> int \<Rightarrow> int \<Rightarrow> int \<Rightarrow> int \<Rightarrow> kernel \<Rightarrow> kernel option" where
  "click_region E lo hi screen new k =
     (if (mouse_x (tty k) > lo \<and> mouse_x (tty k) \<le> hi) \<and> mouse_y (tty k) = 24
      then (let s = (tty k)\<lparr>screen_num := screen\<rparr>
            in map_option (\<lambda>(m, s). kernel_send_eoi 12 (set_view m (k\<lparr>tty := s\<rparr>)))
                 (terminal_switch (conv_buf E) new (screen_num s) (view k, s)))
      else Some k)"

definition left_click :: "env \<Rightarrow> kernel \<Rightarrow> kernel option" where
  "left_click E k =
     Option.bind (click_region E (- 1) 10 1 0 k)
       (\<lambda>k. Option.bind (click_region E 10 20 2 1 k) (click_region E 20 31 3 2))"

definition right_click :: "env \<Rightarrow> kernel \<Rightarrow> kernel option" where
  "right_click E k =
     (let s = tty k;
          s = s\<lparr>scr := (scr s)\<lparr>color_pick := (color_pick (scr s) + 1) smod 5\<rparr>\<rparr>;
          m = set_palette (scr s) (view k)
      in map_option (\<lambda>(m, s). set_view m (k\<lparr>tty := s\<rparr>))
           (show_buffer (conv_buf E) (screen_at (screen_num s) s) (m, s)))"

section \<open>The interrupt\<close>

text \<open>\<open>x_change_packet\<close> and \<open>y_change_packet\<close>: the byte with its sign, less the sign bit of the first byte.\<close>

definition packet_change :: "u8 \<Rightarrow> nat \<Rightarrow> u8 \<Rightarrow> int" where
  "packet_change packet sh b = sint b - sint ((push_bit sh (scast packet) AND 0x100) :: u32)"

definition mouse_int_handler :: "env \<Rightarrow> mouse \<times> kernel \<Rightarrow> (mouse \<times> kernel) option" where
  "mouse_int_handler E = (\<lambda>(g, k).
     let (v, g, p) = attempt_read (dev E) (g, ports (clock k));
         k = k\<lparr>clock := (clock k)\<lparr>ports := p\<rparr>\<rparr>;
         g = g\<lparr>input_packet := v\<rparr>;
         packet = (scast v :: u32);
         handled =
           (if drop_bit 3 (packet AND 0x08) = 1 \<and> drop_bit 6 (packet AND 0x40) = 0 \<and> drop_bit 7 (packet AND 0x80) = 0
            then (let (xm, p) = inb (dev E) 0x60 (ports (clock k));
                      (ym, p) = inb (dev E) 0x60 p;
                      k = k\<lparr>clock := (clock k)\<lparr>ports := p\<rparr>\<rparr>;
                      x_change_packet = packet_change v 4 (ucast xm) smod 3;
                      y_change_packet = packet_change v 3 (ucast ym) smod 2;
                      (m, s) = move_mouse g x_change_packet y_change_packet (view k, tty k);
                      k = set_view m (k\<lparr>tty := s\<rparr>)
                  in Option.bind (if packet AND 0x01 = 1 then left_click E k else Some k)
                       (\<lambda>k. if drop_bit 1 (packet AND 0x02) = 1 then right_click E k else Some k))
            else Some k)
     in map_option (\<lambda>k. (g, kernel_send_eoi 12 k)) handled)"

section \<open>Packets\<close>

text \<open>A packet is taken when bit 3 is set and no overflow is reported.\<close>

definition packet_ok :: "u8 \<Rightarrow> bool" where
  "packet_ok v \<longleftrightarrow> bit v 3 \<and> \<not> bit v 6 \<and> \<not> bit v 7"

definition moved :: "u8 \<Rightarrow> u8 \<Rightarrow> u8 \<Rightarrow> terminal \<Rightarrow> int \<times> int" where
  "moved v xm ym s =
     (max 0 (min 79 (mouse_x s + (sint xm - (if bit v 4 then 256 else 0)) smod 3)),
      max 0 (min 24 (mouse_y s - (sint ym - (if bit v 5 then 256 else 0)) smod 2)))"

definition pointer_ok :: "terminal \<Rightarrow> bool" where
  "pointer_ok s \<longleftrightarrow> 0 \<le> mouse_x s \<and> mouse_x s < 80 \<and> 0 \<le> mouse_y s \<and> mouse_y s < 25
     \<and> 0 \<le> color_pick (scr s) \<and> color_pick (scr s) < 5"

lemma one_bit: "(x :: u32) AND push_bit n 1 = (if bit x n then push_bit n 1 else 0)" if "n < 32"
  by (rule bit_word_eqI) (auto simp: bit_simps)

lemma packet_bits:
  "(scast (v :: u8) :: u32) AND 1 = 1 \<longleftrightarrow> bit v 0"
  "drop_bit 1 ((scast (v :: u8) :: u32) AND 0x02) = 1 \<longleftrightarrow> bit v 1"
  "drop_bit 3 ((scast (v :: u8) :: u32) AND 0x08) = 1 \<longleftrightarrow> bit v 3"
  "drop_bit 6 ((scast (v :: u8) :: u32) AND 0x40) = 0 \<longleftrightarrow> \<not> bit v 6"
  "drop_bit 7 ((scast (v :: u8) :: u32) AND 0x80) = 0 \<longleftrightarrow> \<not> bit v 7"
proof -
  have b: "bit (scast v :: u32) n \<longleftrightarrow> bit v n" if "n < 8" for n
    using that by (cases "n = 7") (auto simp: bit_simps min_def)
  show "(scast v :: u32) AND 1 = 1 \<longleftrightarrow> bit v 0"
    "drop_bit 1 ((scast v :: u32) AND 0x02) = 1 \<longleftrightarrow> bit v 1"
    "drop_bit 3 ((scast v :: u32) AND 0x08) = 1 \<longleftrightarrow> bit v 3"
    "drop_bit 6 ((scast v :: u32) AND 0x40) = 0 \<longleftrightarrow> \<not> bit v 6"
    "drop_bit 7 ((scast v :: u32) AND 0x80) = 0 \<longleftrightarrow> \<not> bit v 7"
    using one_bit [of 0 "scast v"] one_bit [of 1 "scast v"] one_bit [of 3 "scast v"] one_bit [of 6 "scast v"] one_bit [of 7 "scast v"]
      b [of 0] b [of 1] b [of 3] b [of 6] b [of 7]
    by (simp_all add: push_bit_eq_mult)
qed

lemma packet_change_bits:
  "packet_change v 4 b = sint b - (if bit v 4 then 256 else 0)"
  "packet_change v 3 b = sint b - (if bit v 5 then 256 else 0)"
proof -
  have "bit (push_bit 4 (scast v) :: u32) 8 \<longleftrightarrow> bit v 4" "bit (push_bit 3 (scast v) :: u32) 8 \<longleftrightarrow> bit v 5"
    by (auto simp: bit_simps min_def)
  then show "packet_change v 4 b = sint b - (if bit v 4 then 256 else 0)"
    "packet_change v 3 b = sint b - (if bit v 5 then 256 else 0)"
    using one_bit [of 8 "push_bit 4 (scast v)"] one_bit [of 8 "push_bit 3 (scast v)"]
    by (simp_all add: packet_change_def push_bit_eq_mult)
qed

lemma move_mouse_by:
  "move_mouse g dx dy (m, s) =
    (let x = max 0 (min 79 (mouse_x s + dx)); y = max 0 (min 24 (mouse_y s - dy))
     in (set_colour x y 0x64 (set_colour (mouse_x s) (mouse_y s) (colour (scr s)) m), s\<lparr>mouse_x := x, mouse_y := y\<rparr>))"
proof -
  define packet :: int where "packet = (if input_packet g \<noteq> 0 then 1 else 0)"
  have z: "drop_bit 4 packet = 0" "drop_bit 5 packet = 0" by (simp_all add: packet_def drop_bit_eq_div)
  define step_x where "step_x = (\<lambda>s :: terminal. if drop_bit 4 packet > 0 then s\<lparr>mouse_x := mouse_x s + dx\<rparr>
    else if drop_bit 4 packet < 0 then s\<lparr>mouse_x := mouse_x s + dx\<rparr> else s\<lparr>mouse_x := mouse_x s + dx\<rparr>)"
  define clamp_x where "clamp_x = (\<lambda>s :: terminal. if mouse_x s < 0 then s\<lparr>mouse_x := 0\<rparr> else if mouse_x s > 79 then s\<lparr>mouse_x := 79\<rparr> else s)"
  define step_y where "step_y = (\<lambda>s :: terminal. if drop_bit 5 packet > 0 then s\<lparr>mouse_y := mouse_y s + dy\<rparr>
    else if drop_bit 5 packet < 0 then s\<lparr>mouse_y := mouse_y s - dy\<rparr> else s\<lparr>mouse_y := mouse_y s - dy\<rparr>)"
  define clamp_y where "clamp_y = (\<lambda>s :: terminal. if mouse_y s < 0 then s\<lparr>mouse_y := 0\<rparr> else if mouse_y s > 24 then s\<lparr>mouse_y := 24\<rparr> else s)"
  have "move_mouse g dx dy (m, s) =
      show_cursor (set_colour (mouse_x s) (mouse_y s) (colour (scr s)) m, clamp_y (step_y (clamp_x (step_x s))))"
    unfolding move_mouse_def Let_def split_conv packet_def [symmetric] step_x_def clamp_x_def step_y_def clamp_y_def by (rule refl)
  moreover have "clamp_x (step_x s) = s\<lparr>mouse_x := max 0 (min 79 (mouse_x s + dx))\<rparr>"
    by (simp add: clamp_x_def step_x_def max_def min_def)
  moreover have "clamp_y (step_y r) = r\<lparr>mouse_y := max 0 (min 24 (mouse_y r - dy))\<rparr>" for r
    unfolding clamp_y_def step_y_def z by (simp add: max_def min_def)
  ultimately show ?thesis by (simp add: show_cursor_def Let_def)
qed

lemma move_mouse_eq:
  assumes "(x, y) = moved v xm ym s"
  shows "move_mouse g (packet_change v 4 xm smod 3) (packet_change v 3 ym smod 2) (m, s) =
    (set_colour x y 0x64 (set_colour (mouse_x s) (mouse_y s) (colour (scr s)) m), s\<lparr>mouse_x := x, mouse_y := y\<rparr>)"
proof -
  have "x = max 0 (min 79 (mouse_x s + packet_change v 4 xm smod 3))" "y = max 0 (min 24 (mouse_y s - packet_change v 3 ym smod 2))"
    using assms by (simp_all only: moved_def packet_change_bits prod.inject)
  then show ?thesis by (simp only: move_mouse_by Let_def)
qed

section \<open>The interrupt handler\<close>

text \<open>The state in which the buttons are looked at.\<close>

definition after_move :: "u8 \<Rightarrow> u8 \<Rightarrow> u8 \<Rightarrow> io_event list \<Rightarrow> kernel \<Rightarrow> kernel" where
  "after_move v xm ym log k =
     (let (x, y) = moved v xm ym (tty k)
      in set_view (set_colour x y 0x64 (set_colour (mouse_x (tty k)) (mouse_y (tty k)) (colour (scr (tty k))) (view k)))
           (k\<lparr>clock := (clock k)\<lparr>ports := (ports (clock k))\<lparr>trace := log\<rparr>\<rparr>,
              tty := (tty k)\<lparr>mouse_x := x, mouse_y := y\<rparr>\<rparr>))"

definition buttons :: "env \<Rightarrow> u8 \<Rightarrow> kernel \<Rightarrow> kernel option" where
  "buttons E v k =
     Option.bind (if bit v 0 then left_click E k else Some k) (\<lambda>k. if bit v 1 then right_click E k else Some k)"

lemma low_byte_in [simp]: "(ucast (ucast (v :: u8) :: u32) :: u8) = v"
  by (rule bit_word_eqI) (simp add: bit_simps)

lemma byte_flag: "(ucast (v :: u8) :: u32) AND 1 = 0 \<longleftrightarrow> \<not> bit v 0"
  using one_bit [of 0 "ucast v"] by (simp add: bit_simps)

lemma mouse_handler_cases:
  assumes "t = trace (ports (clock k))" and "bit (dev E t 0x64) 0"
    and "v = dev E (InB 0x64 # t) 0x60" and "t' = InB 0x60 # InB 0x64 # t"
    and "xm = dev E t' 0x60" and "ym = dev E (InB 0x60 # t') 0x60"
  shows "mouse_int_handler E (g, k) =
    (if packet_ok v
     then map_option (\<lambda>k. (\<lparr>read_flag = 1, input_packet = v\<rparr>, kernel_send_eoi 12 k))
            (buttons E v (after_move v xm ym (InB 0x60 # InB 0x60 # t') k))
     else Some (\<lparr>read_flag = 1, input_packet = v\<rparr>,
            kernel_send_eoi 12 (k\<lparr>clock := (clock k)\<lparr>ports := (ports (clock k))\<lparr>trace := t'\<rparr>\<rparr>\<rparr>)))"
proof -
  define g' where "g' = \<lparr>read_flag = 1, input_packet = v\<rparr>"
  have r: "attempt_read (dev E) (g, ports (clock k)) = (v, g\<lparr>read_flag := 1\<rparr>, (ports (clock k))\<lparr>trace := t'\<rparr>)"
    using assms(1-4) by (simp add: attempt_read_def port_defs byte_flag)
  have g: "g\<lparr>read_flag := 1, input_packet := v\<rparr> = g'" by (cases g) (simp add: g'_def)
  obtain x y where xy: "moved v xm ym (tty k) = (x, y)" by fastforce
  show ?thesis
    using move_mouse_eq [OF xy [symmetric], of g' "view k"]
    unfolding mouse_int_handler_def split_conv Let_def r packet_bits g
    by (simp add: packet_ok_def port_defs buttons_def after_move_def xy g'_def [symmetric] assms(5,6) [symmetric] Let_def
        cong del: prod.case_cong_weak if_weak_cong option.case_cong_weak)
qed

section \<open>The buttons keep the invariants\<close>

lemma put_cell_outside: "0 \<le> i \<Longrightarrow> i < 2000 \<Longrightarrow> \<not> in_range VIDEO 4000 x \<Longrightarrow> put_cell i c a m x = m x"
  using row_24 [of "nat i"] by (auto simp: put_cell_def)

lemma fill_outside:
  assumes "\<not> in_range VIDEO 4000 x" and "n \<le> 2000"
  shows "fold (\<lambda>i m. put_cell (int i) c a m) [0..<n] m x = m x"
  using assms(2) by (induction n) (simp_all add: put_cell_outside assms(1))

lemma clear_outside: "\<not> in_range VIDEO 4000 x \<Longrightarrow> clear m x = m x"
  and set_palette_outside: "\<not> in_range VIDEO 4000 x \<Longrightarrow> set_palette w m x = m x"
  using fill_outside [of x 2000] fill_outside [of x 1920] by (simp_all add: clear_def set_palette_def del: upt_rec_numeral)

text \<open>What an interrupt of the mouse keeps.\<close>

definition mouse_inv :: "kernel \<Rightarrow> bool" where
  "mouse_inv k \<longleftrightarrow> terminal_ok (tty k) \<and> pointer_ok (tty k)"

definition screen_only :: "kernel \<Rightarrow> kernel \<Rightarrow> bool" where
  "screen_only k k' \<longleftrightarrow> (\<forall>x. \<not> in_range VIDEO 4000 x \<longrightarrow> view k' x = view k x)"

lemma screen_only_refl: "screen_only k k"
  and screen_only_trans: "screen_only k k1 \<Longrightarrow> screen_only k1 k2 \<Longrightarrow> screen_only k k2"
  by (simp_all add: screen_only_def)

lemma eoi_fields [simp]: "view (kernel_send_eoi n k) = view k" "tty (kernel_send_eoi n k) = tty k"
  by (simp_all add: kernel_send_eoi_def)

definition in_region :: "terminal \<Rightarrow> int \<Rightarrow> int \<Rightarrow> bool" where
  "in_region s lo hi \<longleftrightarrow> lo < mouse_x s \<and> mouse_x s \<le> hi \<and> mouse_y s = 24"

lemma click_region_ok:
  assumes "mouse_inv k" and "new = 0 \<or> new = 1" and "in_region (tty k) lo hi"
  defines "saved \<equiv> (components (tty k))[nat (new + 1) := \<lparr>curr_line = line_count (tty k), curr_limit = limit (tty k),
    curr_x = buf_x (bf (tty k)), curr_y = buf_y (bf (tty k))\<rparr>]"
  shows "\<exists>k'. click_region E lo hi (new + 1) new k = Some k' \<and> mouse_inv k' \<and> screen_only k k'
    \<and> screen_num (tty k') = new \<and> components (tty k') = saved \<and> mouse_x (tty k') = mouse_x (tty k) \<and> mouse_y (tty k') = mouse_y (tty k)
    \<and> buf_x (bf (tty k')) = curr_x (components (tty k) ! nat new) \<and> buf_y (bf (tty k')) = curr_y (components (tty k) ! nat new)"
proof -
  define s where "s = (tty k)\<lparr>screen_num := new + 1\<rparr>"
  have ok: "terminal_ok s" using assms(1,2) by (auto simp: s_def mouse_inv_def terminal_ok_def)
  have n: "0 \<le> new" "new < 3" "0 \<le> new + 1" "new + 1 < 3" "nat new \<noteq> nat (new + 1)" using assms(2) by auto
  obtain m' w where sw: "terminal_switch (conv_buf E) new (new + 1) (view k, s) = Some (m', s\<lparr>components := saved,
      line_count := curr_line (saved ! nat new), limit := curr_limit (saved ! nat new),
      bf := (bf s)\<lparr>buf_x := curr_x (saved ! nat new), buf_y := curr_y (saved ! nat new)\<rparr>, scr := w, screen_num := new\<rparr>)"
    "terminal_ok (s\<lparr>components := saved,
      line_count := curr_line (saved ! nat new), limit := curr_limit (saved ! nat new),
      bf := (bf s)\<lparr>buf_x := curr_x (saved ! nat new), buf_y := curr_y (saved ! nat new)\<rparr>, scr := w, screen_num := new\<rparr>)"
    "{x. m' x \<noteq> clear (view k) x} \<subseteq> {x. in_range VIDEO 3840 x}" "color_pick w = color_pick (scr s)"
    using terminal_switch_ok [OF ok n(1-4), of "conv_buf E" "view k"] by (auto simp: s_def saved_def)
  have "m' x = view k x" if "\<not> in_range VIDEO 4000 x" for x
  proof -
    have "\<not> in_range VIDEO 3840 x" using that in_range_mono [of VIDEO 3840 x 4000] by auto
    then have "m' x = clear (view k) x" using sw(3) by blast
    then show ?thesis by (simp only: clear_outside [OF that])
  qed
  then show ?thesis
    using assms(1,3) sw(1,2,4) n(5)
    by (auto simp: click_region_def in_region_def Let_def s_def mouse_inv_def pointer_ok_def screen_only_def saved_def)
qed

lemma click_region_other: "\<not> in_region (tty k) lo hi \<Longrightarrow> click_region E lo hi screen new k = Some k"
  by (auto simp: click_region_def in_region_def)

lemma click_third: "mouse_inv k \<Longrightarrow> in_region (tty k) lo hi \<Longrightarrow> click_region E lo hi 3 new k = None"
  by (auto simp: click_region_def in_region_def Let_def terminal_switch_def set_component_def mouse_inv_def terminal_ok_def)

lemma left_click_ok:
  assumes "mouse_inv k"
  shows "(left_click E k = None \<longleftrightarrow> in_region (tty k) 20 31)
    \<and> (\<forall>k'. left_click E k = Some k' \<longrightarrow> mouse_inv k' \<and> screen_only k k')"
proof -
  consider (1) "in_region (tty k) (- 1) 10" | (2) "in_region (tty k) 10 20" | (3) "in_region (tty k) 20 31"
    | (4) "\<not> in_region (tty k) (- 1) 10" "\<not> in_region (tty k) 10 20" "\<not> in_region (tty k) 20 31" by blast
  then show ?thesis
  proof cases
    case 1
    from click_region_ok [OF assms _ 1, of 0 E] obtain k1 where "click_region E (- 1) 10 1 0 k = Some k1"
      "mouse_inv k1" "screen_only k k1" "mouse_x (tty k1) = mouse_x (tty k)" "mouse_y (tty k1) = mouse_y (tty k)" by auto
    then show ?thesis using 1 click_region_other [of k1] by (simp add: left_click_def in_region_def)
  next
    case 2
    from click_region_ok [OF assms _ 2, of 1 E] obtain k1 where "click_region E 10 20 2 1 k = Some k1"
      "mouse_inv k1" "screen_only k k1" "mouse_x (tty k1) = mouse_x (tty k)" "mouse_y (tty k1) = mouse_y (tty k)" by auto
    then show ?thesis using 2 click_region_other [of k] click_region_other [of k1] by (simp add: left_click_def in_region_def)
  next
    case 3
    then show ?thesis using click_third [OF assms 3] click_region_other [of k] by (simp add: left_click_def in_region_def)
  next
    case 4
    then show ?thesis using assms click_region_other [of k] screen_only_refl by (simp add: left_click_def)
  qed
qed

lemma right_click_ok:
  assumes "mouse_inv k"
  defines "pick \<equiv> (color_pick (scr (tty k)) + 1) mod 5"
  shows "\<exists>k'. right_click E k = Some k' \<and> mouse_inv k' \<and> screen_only k k' \<and> color_pick (scr (tty k')) = pick
    \<and> bf (tty k') = bf (tty k) \<and> screen_num (tty k') = screen_num (tty k)
    \<and> list_all (shows_cell_at (chars (nat (screen_num (tty k))) (bf (tty k))) (colour_palette ! nat pick)
        (set_palette (scr (tty k')) (view k)) (view k')) [0..<1920]"
proof -
  define s where "s = (tty k)\<lparr>scr := (scr (tty k))\<lparr>color_pick := pick\<rparr>\<rparr>"
  have inv: "terminal_ok (tty k)" "pointer_ok (tty k)" using assms(1) by (simp_all add: mouse_inv_def)
  have pick: "0 \<le> pick" "pick < 5" "(color_pick (scr (tty k)) + 1) smod 5 = pick"
    using inv(2) by (simp_all add: pick_def pointer_ok_def smod_small)
  have ok: "terminal_ok s" "0 \<le> screen_num s" "screen_num s < 3" using inv(1) by (simp_all add: s_def terminal_ok_def)
  define b where "b = nat (screen_num s)"
  have b: "b < 3" "screen_at (screen_num s) s = Some b" using ok screen_at_ok [OF ok] by (auto simp: b_def)
  obtain m' w where w: "show_buffer (conv_buf E) (Some b) (set_palette (scr s) (view k), s) = Some (m', s\<lparr>scr := w\<rparr>)"
    "list_all (shows_cell_at (chars b (bf s)) (colour (scr s)) (set_palette (scr s) (view k)) m') [0..<1920]"
    "{x. m' x \<noteq> set_palette (scr s) (view k) x} \<subseteq> {x. in_range VIDEO 3840 x}"
    using show_buffer_ok [OF ok(1) b(1)] by blast
  have cp: "color_pick w = pick" using show_buffer_pick [OF w(1)] by (simp add: s_def)
  have eq: "right_click E k = Some (set_view m' (k\<lparr>tty := s\<lparr>scr := w\<rparr>\<rparr>))"
    unfolding right_click_def Let_def pick(3) s_def [symmetric] by (simp add: w(1) b(2))
  have "m' x = view k x" if "\<not> in_range VIDEO 4000 x" for x
  proof -
    have "\<not> in_range VIDEO 3840 x" using that in_range_mono [of VIDEO 3840 x 4000] by auto
    then have "m' x = set_palette (scr s) (view k) x" using w(3) by blast
    then show ?thesis by (simp only: set_palette_outside [OF that])
  qed
  moreover have "set_palette w = set_palette (scr s)" using cp by (simp add: set_palette_def colour_def s_def fun_eq_iff)
  moreover have "mouse_inv (set_view m' (k\<lparr>tty := s\<lparr>scr := w\<rparr>\<rparr>))"
    using ok(1) inv(2) pick cp by (simp add: mouse_inv_def terminal_ok_def pointer_ok_def s_def)
  moreover have "colour (scr s) = colour_palette ! nat pick" by (simp add: colour_def s_def)
  moreover have "bf s = bf (tty k)" "screen_num s = screen_num (tty k)" by (simp_all add: s_def)
  ultimately show ?thesis using w(2) cp eq b_def by (auto simp: screen_only_def)
qed

lemma moved_range: "moved v xm ym s = (x, y) \<Longrightarrow> 0 \<le> x \<and> x < 80 \<and> 0 \<le> y \<and> y < 25"
  by (auto simp: moved_def)

lemma after_move_ok:
  assumes "mouse_inv k" and "moved v xm ym (tty k) = (x, y)"
  shows "mouse_inv (after_move v xm ym log k) \<and> screen_only k (after_move v xm ym log k)
    \<and> mouse_x (tty (after_move v xm ym log k)) = x \<and> mouse_y (tty (after_move v xm ym log k)) = y"
proof -
  have outside: "set_colour a b c m z = m z" if "\<not> in_range VIDEO 4000 z" "0 \<le> a" "a < 80" "0 \<le> b" "b < 25" for a b c m z
    using that row_24(2) [of "nat (b * 80 + a)"] by (auto simp: set_colour_def)
  have p: "0 \<le> mouse_x (tty k)" "mouse_x (tty k) < 80" "0 \<le> mouse_y (tty k)" "mouse_y (tty k) < 25"
    using assms(1) by (simp_all add: mouse_inv_def pointer_ok_def)
  show ?thesis
    using assms moved_range [OF assms(2)] p
    by (auto simp: after_move_def Let_def screen_only_def outside mouse_inv_def terminal_ok_def pointer_ok_def)
qed

lemma buttons_ok:
  assumes "mouse_inv k"
  shows "(buttons E v k = None \<longleftrightarrow> bit v 0 \<and> in_region (tty k) 20 31)
    \<and> (\<forall>k'. buttons E v k = Some k' \<longrightarrow> mouse_inv k' \<and> screen_only k k')"
proof -
  have r: "\<exists>k'. right_click E q = Some k' \<and> mouse_inv k' \<and> screen_only q k'" if "mouse_inv q" for q
    using right_click_ok [OF that] by blast
  have r': "right_click E q \<noteq> None" "right_click E q = Some k' \<Longrightarrow> mouse_inv k' \<and> screen_only q k'" if "mouse_inv q" for q k'
    using r [OF that] by auto
  show ?thesis
    using left_click_ok [OF assms, of E] r' assms
    by (cases "left_click E k") (auto simp: buttons_def screen_only_refl intro: screen_only_trans)
qed

text \<open>The bytes an interrupt takes from the port, after the accesses \<open>t\<close>.\<close>

definition packet_bytes :: "device \<Rightarrow> io_event list \<Rightarrow> u8 \<times> u8 \<times> u8" where
  "packet_bytes hw t =
     (let t' = InB 0x60 # InB 0x64 # t in (hw (InB 0x64 # t) 0x60, hw t' 0x60, hw (InB 0x60 # t') 0x60))"

lemma mouse_handler_packet:
  assumes "t = trace (ports (clock k))" and "bit (dev E t 0x64) 0" and "packet_bytes (dev E) t = (v, xm, ym)"
  shows "\<exists>k0. mouse_int_handler E (g, k) =
    (if packet_ok v
     then map_option (\<lambda>k. (\<lparr>read_flag = 1, input_packet = v\<rparr>, kernel_send_eoi 12 k))
            (buttons E v (after_move v xm ym ([InB 0x60, InB 0x60, InB 0x60, InB 0x64] @ t) k))
     else Some (\<lparr>read_flag = 1, input_packet = v\<rparr>, kernel_send_eoi 12 k0)) \<and> view k0 = view k \<and> tty k0 = tty k"
  using mouse_handler_cases [OF assms(1,2) refl refl refl refl, of g] assms(1,3) by (auto simp: packet_bytes_def Let_def)

lemma mouse_handler_none:
  assumes "\<not> bit (dev E (trace (ports (clock k))) 0x64) 0"
  shows "\<exists>k0. mouse_int_handler E (g, k) = Some (\<lparr>read_flag = 0, input_packet = 0\<rparr>, kernel_send_eoi 12 k0)
    \<and> view k0 = view k \<and> tty k0 = tty k"
proof -
  have r: "attempt_read (dev E) (g, ports (clock k)) =
      (0, g\<lparr>read_flag := 0\<rparr>, (ports (clock k))\<lparr>trace := InB 0x64 # trace (ports (clock k))\<rparr>)"
    using assms by (simp add: attempt_read_def port_defs byte_flag)
  have g: "g\<lparr>read_flag := 0, input_packet := 0\<rparr> = \<lparr>read_flag = 0, input_packet = 0\<rparr>" by (cases g) simp
  show ?thesis
    unfolding mouse_int_handler_def split_conv Let_def r packet_bits g
    by (intro exI [of _ "k\<lparr>clock := (clock k)\<lparr>ports := (ports (clock k))\<lparr>trace := InB 0x64 # trace (ports (clock k))\<rparr>\<rparr>\<rparr>"]) simp
qed

lemma mouse_eoi: "take 2 (trace (ports (clock (kernel_send_eoi 12 k)))) = [OutB 0x20 0x62, OutB 0xA0 0x64]"
  by (simp add: kernel_send_eoi_def send_eoi_def port_defs Let_def)

text \<open>A mouse that always has a byte and always the same, and the pointer at \<open>x\<close>, \<open>y\<close>.\<close>

definition steady_mouse :: "u8 \<Rightarrow> env" where
  "steady_mouse v = sample_env\<lparr>dev := \<lambda>_ port. if port = 0x64 then 1 else v\<rparr>"

definition pointer_at :: "int \<Rightarrow> int \<Rightarrow> kernel" where
  "pointer_at x y = sample_kernel\<lparr>tty := sample_terminal\<lparr>mouse_x := x, mouse_y := y\<rparr>\<rparr>"

lemma pointer_at_inv: "0 \<le> x \<Longrightarrow> x < 80 \<Longrightarrow> 0 \<le> y \<Longrightarrow> y < 25 \<Longrightarrow> mouse_inv (pointer_at x y)"
  using sample_terminal_ok by (simp add: mouse_inv_def pointer_at_def terminal_ok_def pointer_ok_def) (simp add: sample_terminal_def)

lemma steady_packet: "packet_bytes (dev (steady_mouse v)) t = (v, v, v)"
  by (simp add: packet_bytes_def steady_mouse_def Let_def)

section \<open>Properties\<close>

text \<open>
  C20. The interrupt of the mouse is safe: for any bytes from the mouse, the pointer stays on the screen, the
  terminals keep their invariant, only video memory changes and the interrupt is acknowledged at both
  controllers; with one exception: a click on the third terminal in the status bar uses
  \<open>components[3]\<close>, past the end of the array.
\<close>

theorem mouse_safe:
  assumes "mouse_inv k" and t_def: "t = trace (ports (clock k))"
    and "packet_bytes (dev E) t = (v, xm, ym)" and "moved v xm ym (tty k) = (x, y)"
  shows "(mouse_int_handler E (g, k) = None \<longleftrightarrow>
      bit (dev E t 0x64) 0 \<and> packet_ok v \<and> bit v 0 \<and> 20 < x \<and> x \<le> 31 \<and> y = 24)
    \<and> (\<forall>g' k'. mouse_int_handler E (g, k) = Some (g', k') \<longrightarrow> mouse_inv k'
        \<and> {a. view k' a \<noteq> view k a} \<subseteq> {a. in_range VIDEO 4000 a}
        \<and> take 2 (trace (ports (clock k'))) = [OutB 0x20 0x62, OutB 0xA0 0x64])"
proof (cases "bit (dev E t 0x64) 0")
  case True
  define q where "q = after_move v xm ym ([InB 0x60, InB 0x60, InB 0x60, InB 0x64] @ t) k"
  have q: "mouse_inv q" "screen_only k q" "mouse_x (tty q) = x" "mouse_y (tty q) = y"
    using after_move_ok [OF assms(1,4)] by (simp_all add: q_def)
  note b = buttons_ok [OF q(1), of E v]
  from mouse_handler_packet [OF t_def True assms(3), of g] obtain k0 where h: "mouse_int_handler E (g, k) =
    (if packet_ok v then map_option (\<lambda>k. (\<lparr>read_flag = 1, input_packet = v\<rparr>, kernel_send_eoi 12 k)) (buttons E v q)
     else Some (\<lparr>read_flag = 1, input_packet = v\<rparr>, kernel_send_eoi 12 k0))" "view k0 = view k" "tty k0 = tty k"
    unfolding q_def [symmetric] by blast
  show ?thesis
  proof (cases "packet_ok v")
    case ok: True
    have n: "buttons E v q = None \<longleftrightarrow> bit v 0 \<and> 20 < x \<and> x \<le> 31 \<and> y = 24" using b q(3,4) by (simp add: in_region_def)
    have "mouse_inv k' \<and> screen_only k k'" if "buttons E v q = Some k'" for k'
      using b that screen_only_trans [OF q(2)] by blast
    then show ?thesis using h(1) True ok n mouse_eoi by (auto simp: screen_only_def mouse_inv_def)
  next
    case False
    then show ?thesis using h assms(1) mouse_eoi by (auto simp: mouse_inv_def)
  qed
next
  case False
  then show ?thesis
    using mouse_handler_none [of E k g] assms(1) mouse_eoi unfolding t_def by (auto simp: mouse_inv_def)
qed

theorem mouse_safe_witness:
  "\<exists>g' k'. mouse_int_handler (steady_mouse 9) (\<lparr>read_flag = 0, input_packet = 0\<rparr>, pointer_at 79 24) = Some (g', k') \<and> mouse_inv k'"
proof -
  have m: "moved 9 9 9 (tty (pointer_at 79 24)) = (79, 23)"
    by (simp add: moved_def pointer_at_def smod_small)
  show ?thesis
    using mouse_safe [OF pointer_at_inv refl steady_packet m, of "\<lparr>read_flag = 0, input_packet = 0\<rparr>"]
    by (cases "mouse_int_handler (steady_mouse 9) (\<lparr>read_flag = 0, input_packet = 0\<rparr>, pointer_at 79 24)") auto
qed

text \<open>
  C33. A packet without buttons moves the pointer by the two changes, of which only the remainders modulo
  3 and 2 count, up for a positive change, and stops it at the edges. The old cell gets the current
  colour and the new one the pointer's; no character changes, nor does anything of the terminals but
  the position.
\<close>

theorem mouse_move_spec:
  assumes "bit (dev E t 0x64) 0" and t_def: "t = trace (ports (clock k))"
    and "packet_bytes (dev E) t = (v, xm, ym)" and "packet_ok v" and "\<not> bit v 0" and "\<not> bit v 1"
  shows "\<exists>k' x y. mouse_int_handler E (g, k) = Some (\<lparr>read_flag = 1, input_packet = v\<rparr>, k')
    \<and> x = max 0 (min 79 (mouse_x (tty k) + (sint xm - (if bit v 4 then 256 else 0)) smod 3))
    \<and> y = max 0 (min 24 (mouse_y (tty k) - (sint ym - (if bit v 5 then 256 else 0)) smod 2))
    \<and> tty k' = (tty k)\<lparr>mouse_x := x, mouse_y := y\<rparr>
    \<and> view k' = (view k)(cell (80 * mouse_y (tty k) + mouse_x (tty k)) + 1 := colour (scr (tty k)), cell (80 * y + x) + 1 := 0x64)"
proof -
  obtain x y where xy: "moved v xm ym (tty k) = (x, y)" by fastforce
  have e: "y * 80 + x = 80 * y + x" "mouse_y (tty k) * 80 + mouse_x (tty k) = 80 * mouse_y (tty k) + mouse_x (tty k)" by simp_all
  have "mouse_int_handler E (g, k) = Some (\<lparr>read_flag = 1, input_packet = v\<rparr>,
      kernel_send_eoi 12 (after_move v xm ym ([InB 0x60, InB 0x60, InB 0x60, InB 0x64] @ t) k))"
    using mouse_handler_packet [OF t_def assms(1,3), of g] assms(4-6) by (auto simp: buttons_def)
  moreover have "tty (after_move v xm ym log k) = (tty k)\<lparr>mouse_x := x, mouse_y := y\<rparr>"
    "view (after_move v xm ym log k) =
      (view k)(cell (80 * mouse_y (tty k) + mouse_x (tty k)) + 1 := colour (scr (tty k)), cell (80 * y + x) + 1 := 0x64)" for log
    by (simp_all add: after_move_def xy set_colour_def Let_def e)
  ultimately show ?thesis using xy by (auto simp: moved_def)
qed

theorem mouse_move_spec_witness:
  "\<exists>k'. mouse_int_handler (steady_mouse 8) (\<lparr>read_flag = 0, input_packet = 0\<rparr>, pointer_at 40 10) =
      Some (\<lparr>read_flag = 1, input_packet = 8\<rparr>, k') \<and> mouse_x (tty k') = 42 \<and> mouse_y (tty k') = 10"
proof -
  have "bit (dev (steady_mouse 8) t 0x64) 0" "packet_ok 8" "\<not> bit (8 :: u8) 0" "\<not> bit (8 :: u8) 1" for t
    by (simp_all add: steady_mouse_def packet_ok_def)
  from mouse_move_spec [OF this(1) refl steady_packet this(2-4), of "\<lparr>read_flag = 0, input_packet = 0\<rparr>"] obtain k' x y where
    "mouse_int_handler (steady_mouse 8) (\<lparr>read_flag = 0, input_packet = 0\<rparr>, pointer_at 40 10) =
      Some (\<lparr>read_flag = 1, input_packet = 8\<rparr>, k')" "tty k' = (tty (pointer_at 40 10))\<lparr>mouse_x := x, mouse_y := y\<rparr>"
    "x = max 0 (min 79 (40 + 8 smod 3))" "y = max 0 (min 24 (10 - 8 smod 2))"
    by (fastforce simp: pointer_at_def)
  then show ?thesis by (simp add: smod_small)
qed

text \<open>
  A click on the region of terminal 0 or 1 shows that terminal, but \<open>screen_num\<close> is changed before
  \<open>terminal_switch\<close> is told what to save: the position of the terminal on display is stored as that of
  the terminal after the one clicked on, whichever is on display, and a click on the terminal on
  display itself moves its position to the one stored for it last.
\<close>

lemma mouse_click_spec:
  assumes "mouse_inv k" and "new = 0 \<or> new = 1"
    and "in_region (tty k) (if new = 0 then - 1 else 10) (if new = 0 then 10 else 20)"
  shows "\<exists>k'. left_click E k = Some k' \<and> mouse_inv k' \<and> screen_num (tty k') = new
    \<and> components (tty k') = (components (tty k))[nat (new + 1) := \<lparr>curr_line = line_count (tty k), curr_limit = limit (tty k),
        curr_x = buf_x (bf (tty k)), curr_y = buf_y (bf (tty k))\<rparr>]
    \<and> buf_x (bf (tty k')) = curr_x (components (tty k) ! nat new) \<and> buf_y (bf (tty k')) = curr_y (components (tty k) ! nat new)"
  using assms(2)
proof
  assume new: "new = 0"
  from click_region_ok [OF assms(1), of 0 "- 1" 10 E] assms(3) new obtain k1 where k1: "click_region E (- 1) 10 1 0 k = Some k1"
    "mouse_inv k1" "screen_num (tty k1) = 0" "mouse_x (tty k1) = mouse_x (tty k)" "mouse_y (tty k1) = mouse_y (tty k)"
    "components (tty k1) = (components (tty k))[1 := \<lparr>curr_line = line_count (tty k), curr_limit = limit (tty k),
        curr_x = buf_x (bf (tty k)), curr_y = buf_y (bf (tty k))\<rparr>]"
    "buf_x (bf (tty k1)) = curr_x (components (tty k) ! 0)" "buf_y (bf (tty k1)) = curr_y (components (tty k) ! 0)" by auto
  then show ?thesis using new assms(3) click_region_other [of k1] by (simp add: left_click_def in_region_def)
next
  assume new: "new = 1"
  from click_region_ok [OF assms(1), of 1 10 20 E] assms(3) new obtain k1 where k1: "click_region E 10 20 2 1 k = Some k1"
    "mouse_inv k1" "screen_num (tty k1) = 1" "mouse_x (tty k1) = mouse_x (tty k)" "mouse_y (tty k1) = mouse_y (tty k)"
    "components (tty k1) = (components (tty k))[2 := \<lparr>curr_line = line_count (tty k), curr_limit = limit (tty k),
        curr_x = buf_x (bf (tty k)), curr_y = buf_y (bf (tty k))\<rparr>]"
    "buf_x (bf (tty k1)) = curr_x (components (tty k) ! 1)" "buf_y (bf (tty k1)) = curr_y (components (tty k) ! 1)" by auto
  then show ?thesis using new assms(3) click_region_other [of k] click_region_other [of k1]
    by (simp add: left_click_def in_region_def)
qed

end
