(* ===== verification/Interrupts.thy ===== *)
theory Interrupts
  imports ProcessSpec
begin

text \<open>
  How the kernel is entered: the interrupt descriptor table of \<open>x86_desc.h\<close> and \<open>int_handler.c\<close>, the
  exception handlers, and the dispatch of system calls in \<open>wrapper.S\<close>. Handlers are named; their
  addresses, decided at link time, are the parameter \<open>addr\<close>. \<open>soft_int\<close> is what the processor does
  with the table when a program executes \<open>INT\<close>.
\<close>

section \<open>The table\<close>

record idt_desc_t =
  offset_15_00 :: u16
  seg_selector :: u16
  reserved4 :: u8
  reserved3 :: "1 word"
  reserved2 :: "1 word"
  reserved1 :: "1 word"
  size_32 :: "1 word"
  reserved0 :: "1 word"
  dpl :: "2 word"
  present :: "1 word"
  offset_31_16 :: u16

type_synonym idt = "nat \<Rightarrow> idt_desc_t"

abbreviation (input) KERNEL_CS :: u16 where "KERNEL_CS \<equiv> 0x0010"

datatype handler = Divide_error | NMI_Interrupt | Breakpoint | Overflow | BOUND_range_exceeded | Invalid_opcode
  | Device_not_available | Double_fault | Coprocessor_segment_overrun | Invalid_TSS | Segment_not_present
  | Stack_segment_fault | General_protection | Page_fault | Floating_point_error | Alignment_check
  | Machine_check | Floating_point_exception | Rtc_wrapper | Kbd_wrapper | Pit_wrapper | Mouse_wrapper | Syscall_handler

definition SET_IDT_ENTRY :: "u32 \<Rightarrow> idt_desc_t \<Rightarrow> idt_desc_t" where
  "SET_IDT_ENTRY handler e =
     e\<lparr>offset_31_16 := ucast (drop_bit 16 (handler AND 0xFFFF0000)), offset_15_00 := ucast (handler AND 0xFFFF)\<rparr>"

text \<open>The eight assignments to the local \<open>idt_entry\<close>; its other fields keep what the stack holds.\<close>

definition idt_entry :: "2 word \<Rightarrow> 1 word \<Rightarrow> idt_desc_t \<Rightarrow> idt_desc_t" where
  "idt_entry d r3 e =
     e\<lparr>seg_selector := KERNEL_CS, dpl := d, present := 1, size_32 := 1, reserved0 := 0, reserved1 := 1,
       reserved2 := 1, reserved3 := r3\<rparr>"

definition exception_vectors :: "(nat \<times> handler) list" where
  "exception_vectors = [(0, Divide_error), (2, NMI_Interrupt), (3, Breakpoint), (4, Overflow), (5, BOUND_range_exceeded),
     (6, Invalid_opcode), (7, Device_not_available), (8, Double_fault), (9, Coprocessor_segment_overrun), (10, Invalid_TSS),
     (11, Segment_not_present), (12, Stack_segment_fault), (13, General_protection), (14, Page_fault),
     (16, Floating_point_error), (17, Alignment_check), (18, Machine_check), (19, Floating_point_exception)]"

definition set_handlers :: "(handler \<Rightarrow> u32) \<Rightarrow> (nat \<times> handler) list \<Rightarrow> idt \<Rightarrow> idt" where
  "set_handlers addr hs idt = fold (\<lambda>(i, h) idt. idt(i := SET_IDT_ENTRY (addr h) (idt i))) hs idt"

definition set_exception :: "(handler \<Rightarrow> u32) \<Rightarrow> idt_desc_t \<Rightarrow> idt \<Rightarrow> idt" where
  "set_exception addr stack idt =
     (let e = idt_entry 0 1 stack;
          idt = fold (\<lambda>i idt. if i \<noteq> 1 \<and> i \<noteq> 15 then idt(i := e) else idt) [0..<20] idt
      in set_handlers addr exception_vectors idt)"

definition set_interrupt :: "(handler \<Rightarrow> u32) \<Rightarrow> idt_desc_t \<Rightarrow> idt \<Rightarrow> idt" where
  "set_interrupt addr stack idt =
     (let e = idt_entry 0 0 stack;
          idt = idt(33 := e, 40 := e, 32 := e, 44 := e)
      in set_handlers addr [(40, Rtc_wrapper), (33, Kbd_wrapper), (32, Pit_wrapper), (44, Mouse_wrapper)] idt)"

definition set_systemcall :: "(handler \<Rightarrow> u32) \<Rightarrow> idt_desc_t \<Rightarrow> idt \<Rightarrow> idt" where
  "set_systemcall addr stack idt =
     (let e = idt_entry 3 0 stack; idt = idt(128 := e)
      in set_handlers addr [(128, Syscall_handler)] idt)"

definition set_idt :: "(handler \<Rightarrow> u32) \<Rightarrow> idt_desc_t \<Rightarrow> idt_desc_t \<Rightarrow> idt_desc_t \<Rightarrow> idt \<Rightarrow> idt" where
  "set_idt addr s1 s2 s3 idt = set_systemcall addr s3 (set_interrupt addr s2 (set_exception addr s1 idt))"

section \<open>Exceptions\<close>

text \<open>
  Every handler masks the keyboard, prints its message and loops. All but two clear the screen; those
  two mask the timer as well.
\<close>

definition exception_loop :: "env \<Rightarrow> bool \<Rightarrow> string \<Rightarrow> kernel \<Rightarrow> (kernel \<times> control) option" where
  "exception_loop E clears text k =
     (let k = k\<lparr>clock := (clock k)\<lparr>ports := disable_irq (dev E) 1 (ports (clock k))\<rparr>\<rparr>;
          k = (if clears then set_view (clear_blue (view k)) k
               else k\<lparr>clock := (clock k)\<lparr>ports := disable_irq (dev E) 0 (ports (clock k))\<rparr>\<rparr>)
      in map_option (\<lambda>k. (k, Spin)) (kernel_printf E (ascii text) k))"

text \<open>The other entries of \<open>handler\<close> are no exceptions.\<close>

fun exception_handler :: "env \<Rightarrow> handler \<Rightarrow> kernel \<Rightarrow> (kernel \<times> control) option" where
  "exception_handler E Divide_error k = exception_loop E True ''Divide error!'' k"
| "exception_handler E NMI_Interrupt k = exception_loop E True ''NMI Interrupt!'' k"
| "exception_handler E Breakpoint k = exception_loop E True ''breakpoint!'' k"
| "exception_handler E Overflow k = exception_loop E True ''overflow!'' k"
| "exception_handler E BOUND_range_exceeded k = exception_loop E True ''BOUND range exceeded!'' k"
| "exception_handler E Invalid_opcode k = exception_loop E True ''Invalid Opcode!'' k"
| "exception_handler E Device_not_available k = exception_loop E True ''Device Not available'' k"
| "exception_handler E Double_fault k = exception_loop E True ''Double Fault!'' k"
| "exception_handler E Coprocessor_segment_overrun k = exception_loop E True ''coprocessor_segment_overrun!'' k"
| "exception_handler E Invalid_TSS k = exception_loop E True ''Invalid TSS!'' k"
| "exception_handler E Segment_not_present k = exception_loop E True ''Segment not present!'' k"
| "exception_handler E Stack_segment_fault k = exception_loop E True ''Stack Segment Fault!'' k"
| "exception_handler E General_protection k = exception_loop E False ''General Protection'' k"
| "exception_handler E Page_fault k = exception_loop E False ''Page Fault!'' k"
| "exception_handler E Floating_point_error k = exception_loop E True ''Floating Point Error!'' k"
| "exception_handler E Alignment_check k = exception_loop E True ''Alignment Check!'' k"
| "exception_handler E Machine_check k = exception_loop E True ''Machine Check'' k"
| "exception_handler E Floating_point_exception k = exception_loop E True ''Floating Point Exception'' k"
| "exception_handler E _ k = None"

section \<open>System calls\<close>

text \<open>
  \<open>syscall_handler\<close>: the number is compared as a signed value with 1 and 10, but the table ends at 8.
  \<open>None\<close> for 9 and 10 is the jump through whatever follows the table.
\<close>

definition returning :: "(kernel \<times> u32) option \<Rightarrow> (kernel \<times> control) option" where
  "returning r = map_option (\<lambda>(k, v). (k, Return v)) r"

definition syscall_handler :: "env \<Rightarrow> u32 \<Rightarrow> u32 \<Rightarrow> u32 \<Rightarrow> u32 \<Rightarrow> kernel \<Rightarrow> (kernel \<times> control) option" where
  "syscall_handler E eax ebx ecx edx k =
     (let k = k\<lparr>clock := (clock k)\<lparr>ports := sti (ports (clock k))\<rparr>\<rparr>
      in if eax <s 1 \<or> 10 <s eax then Some (k, Return (- 1))
         else if eax = 1 then halt E (ucast ebx) k
         else if eax = 2 then execute E ebx k
         else if eax = 3 then returning (sys_read E ebx ecx edx k)
         else if eax = 4 then returning (sys_write E ebx ecx edx k)
         else if eax = 5 then returning (sys_open E ebx k)
         else if eax = 6 then returning (Some (sys_close ebx k))
         else if eax = 7 then returning (getargs ebx ecx k)
         else if eax = 8 then returning (Some (vidmap E ebx k))
         else None)"

section \<open>What the processor does with the table\<close>

datatype gate = Interrupt_gate | Trap_gate

definition gate_kind :: "idt_desc_t \<Rightarrow> gate option" where
  "gate_kind e = (if reserved0 e = 0 \<and> size_32 e = 1 \<and> reserved1 e = 1 \<and> reserved2 e = 1
     then Some (if reserved3 e = 1 then Trap_gate else Interrupt_gate) else None)"

definition gate_offset :: "idt_desc_t \<Rightarrow> u32" where
  "gate_offset e = push_bit 16 (ucast (offset_31_16 e)) OR ucast (offset_15_00 e)"

text \<open>
  The gate through which an exception or a device interrupt with vector \<open>v\<close> is delivered, and the one
  \<open>INT v\<close> goes through at privilege level \<open>cpl\<close>; \<open>None\<close> is a fault.
\<close>

definition gate_of :: "idt \<Rightarrow> nat \<Rightarrow> (gate \<times> u16 \<times> u32) option" where
  "gate_of idt v = (if present (idt v) = 1
     then map_option (\<lambda>g. (g, seg_selector (idt v), gate_offset (idt v))) (gate_kind (idt v)) else None)"

definition soft_int :: "idt \<Rightarrow> 2 word \<Rightarrow> nat \<Rightarrow> (gate \<times> u16 \<times> u32) option" where
  "soft_int idt cpl v = (if cpl \<le> dpl (idt v) then gate_of idt v else None)"

lemma bit_low_half: "bit (65535 :: u32) n \<longleftrightarrow> n < 16"
proof -
  have "(65535 :: u32) = mask 16" by (simp add: mask_eq_exp_minus_1)
  then show ?thesis by (simp only: bit_mask_iff) auto
qed

lemma bit_low_half_int: "bit (65535 :: int) n \<longleftrightarrow> n < 16"
proof -
  have "(65535 :: int) = mask 16" by (simp add: mask_eq_exp_minus_1)
  then show ?thesis by (simp only: bit_mask_iff) auto
qed

lemma gate_offset_set: "gate_offset (SET_IDT_ENTRY a e) = a"
  unfolding gate_offset_def SET_IDT_ENTRY_def
  by (rule bit_word_eqI) (auto simp: bit_simps bit_low_half bit_low_half_int)

lemma set_idt_entry_fields [simp]:
  "present (SET_IDT_ENTRY a e) = present e" "seg_selector (SET_IDT_ENTRY a e) = seg_selector e" "dpl (SET_IDT_ENTRY a e) = dpl e"
  "gate_kind (SET_IDT_ENTRY a e) = gate_kind e"
  by (simp_all add: SET_IDT_ENTRY_def gate_kind_def)

lemma idt_entry_fields [simp]:
  "present (idt_entry d r e) = 1" "seg_selector (idt_entry d r e) = KERNEL_CS" "dpl (idt_entry d r e) = d"
  "gate_kind (idt_entry d r e) = Some (if r = 1 then Trap_gate else Interrupt_gate)"
  by (simp_all add: idt_entry_def gate_kind_def)

lemma set_handlers_at:
  "distinct (map fst hs) \<Longrightarrow> set_handlers addr hs idt v =
     (case map_of hs v of None \<Rightarrow> idt v | Some h \<Rightarrow> SET_IDT_ENTRY (addr h) (idt v))"
proof (induction hs arbitrary: idt)
  case (Cons p hs)
  obtain i h where p: "p = (i, h)" by fastforce
  have "map_of hs i = None" using Cons.prems by (simp add: p map_of_eq_None_iff)
  then show ?case using Cons by (auto simp: p set_handlers_def split: option.splits)
qed (simp add: set_handlers_def)

lemma fold_entries:
  "fold (\<lambda>i idt. if P i then idt(i := e) else idt) is idt v = (if v \<in> set is \<and> P v then e else idt v)"
  by (induction "is" arbitrary: idt) auto

section \<open>Every system call keeps the stack of processes\<close>

text \<open>The pointers a system call is given, by number: those of \<open>execute\<close>, \<open>read\<close> and \<open>getargs\<close> matter.\<close>

definition pointers_ok :: "u32 \<Rightarrow> u32 \<Rightarrow> u32 \<Rightarrow> u32 \<Rightarrow> kernel \<Rightarrow> bool" where
  "pointers_ok eax ebx ecx edx k \<longleftrightarrow> (eax = 2 \<longrightarrow> command_fits k ebx) \<and> (eax = 3 \<longrightarrow> read_allowed ebx ecx edx)
     \<and> (eax = 7 \<longrightarrow> args_allowed ebx ecx k)"

lemma syscall_step:
  assumes "syscall_handler E eax ebx ecx edx k = Some (k', c)" and "c \<noteq> Spin"
    and "\<And>r. c = Return r \<Longrightarrow> cr3 (pg k') = cr3 (pg k)" and "pointers_ok eax ebx ecx edx k"
  shows "k' = k\<lparr>clock := (clock k)\<lparr>ports := sti (ports (clock k))\<rparr>\<rparr> \<or>
    proc_step (k\<lparr>clock := (clock k)\<lparr>ports := sti (ports (clock k))\<rparr>\<rparr>) k'"
proof -
  define k0 where "k0 = k\<lparr>clock := (clock k)\<lparr>ports := sti (ports (clock k))\<rparr>\<rparr>"
  have keep: "\<And>r. c = Return r \<Longrightarrow> cr3 (pg k') = cr3 (pg k0)" using assms(3) by (simp add: k0_def)
  have h: "proc_step k0 k'" if "halt E st k0 = Some (k', c)" for st
    using that assms(2) by (auto simp: halt_def Let_def split: if_split_asm intro: proc_step.halt)
  have "view k0 = view k" "args k0 = args k" by (simp_all add: k0_def)
  then have ptrs: "pointers_ok eax ebx ecx edx k0"
    using assms(4) by (simp add: pointers_ok_def command_fits_def args_allowed_def)
  have e: "proc_step k0 k'" if "execute E command k0 = Some (k', c)" "command_fits k0 command" for command
  proof (cases c)
    case (Return r)
    then show ?thesis using that keep proc_step.exec_fail by blast
  next
    case (Userspace entry)
    then show ?thesis using that proc_step.exec by blast
  qed (use that in \<open>auto simp: execute_def Let_def split: option.split_asm sum.split_asm prod.split_asm if_split_asm\<close>)
  have s: "sys_read E fd buf n k0 = Some (k', v) \<Longrightarrow> read_allowed fd buf n \<Longrightarrow> proc_step k0 k'" "sys_write E fd buf n k0 = Some (k', v) \<Longrightarrow> proc_step k0 k'"
    "sys_open E fd k0 = Some (k', v) \<Longrightarrow> proc_step k0 k'" "sys_close fd k0 = (k', v) \<Longrightarrow> proc_step k0 k'"
    "getargs fd buf k0 = Some (k', v) \<Longrightarrow> args_allowed fd buf k0 \<Longrightarrow> proc_step k0 k'" "vidmap E fd k0 = (k', v) \<Longrightarrow> proc_step k0 k'"
    for fd buf n v
    using proc_step.fd [of E] proc_step.args proc_step.video by (auto intro: fd_step.intros)
  show ?thesis
    using assms(1) ptrs unfolding syscall_handler_def Let_def k0_def [symmetric]
    by (auto simp: returning_def pointers_ok_def split: if_split_asm prod.split_asm intro: h e s)
qed

lemma proc_stack_clock: "proc_stack (k\<lparr>clock := c\<rparr>) fs \<longleftrightarrow> proc_stack k fs"
proof -
  have "frame_pcb (k\<lparr>clock := c\<rparr>) = frame_pcb k" by (simp add: frame_pcb_def fun_eq_iff)
  then show ?thesis using linked_cong [of fs "k\<lparr>clock := c\<rparr>" k] by (simp add: proc_stack_def)
qed

text \<open>
  A system call that comes back to user space, to the same program or another. A failed call comes
  back in the page directory it was made in, and no pointer makes the kernel write over its own structures.
\<close>

inductive user_call :: "kernel \<Rightarrow> kernel \<Rightarrow> bool" where
  "syscall_handler E eax ebx ecx edx k = Some (k', c) \<Longrightarrow> c \<noteq> Spin \<Longrightarrow>
   (\<And>r. c = Return r \<Longrightarrow> cr3 (pg k') = cr3 (pg k)) \<Longrightarrow> pointers_ok eax ebx ecx edx k \<Longrightarrow> user_call k k'"

lemma user_call_simulates:
  assumes "proc_stack k fs" and "user_call k k'"
  shows "\<exists>fs'. proc_stack k' fs' \<and> (fs' = fs \<or> stack_step fs fs')"
  using assms(2)
proof cases
  case (1 E eax ebx ecx edx c)
  define k0 where "k0 = k\<lparr>clock := (clock k)\<lparr>ports := sti (ports (clock k))\<rparr>\<rparr>"
  have st: "proc_stack k0 fs" using assms(1) by (simp add: k0_def proc_stack_clock)
  have "k' = k0 \<or> proc_step k0 k'" using syscall_step [OF 1] by (simp only: k0_def)
  then show ?thesis using proc_step_simulates [OF st] st by blast
qed

section \<open>Properties\<close>

text \<open>
  C2. Processes form a stack of at most seven: starting from a shell, whatever system calls that come back to
  user space the running programs make, the process control blocks, the parent links, the bitmap, the page
  directory and the task state segment keep describing a stack of processes, and each call leaves that stack alone,
  pushes the process \<open>execute\<close> starts or pops the one that halts. A call is a step only if the buffers of \<open>read\<close>
  and \<open>getargs\<close> lie in the program's page (the kernel does not check, and over a process control block they would
  change it; from the keyboard at most 1024 bytes), name and arguments of a command have at most 11 characters each
  (the literals they overwrite), and a failing \<open>execute\<close> leaves the page directory alone (not the case of C22). No steps
  are calls without return (waiting for ever, \<open>halt\<close> of the first shell, numbers 9 and 10, which jump behind the
  table) and interrupts that switch terminals; kernel stacks are assumed not to overflow.
\<close>

theorem syscalls_refine:
  assumes "proc_stack k fs" and "user_call\<^sup>*\<^sup>* k k'"
  shows "\<exists>fs'. proc_stack k' fs' \<and> stack_step\<^sup>*\<^sup>* fs fs' \<and> length fs' \<le> 7"
  using assms(2)
proof (induction rule: rtranclp_induct)
  case base
  then show ?case using assms(1) proc_stack_bound by blast
next
  case (step k1 k2)
  obtain fs1 where fs1: "proc_stack k1 fs1" "stack_step\<^sup>*\<^sup>* fs fs1" using step.IH by blast
  obtain fs2 where fs2: "proc_stack k2 fs2" "fs2 = fs1 \<or> stack_step fs1 fs2"
    using user_call_simulates [OF fs1(1) step.hyps(2)] by blast
  have "stack_step\<^sup>*\<^sup>* fs fs2" using fs1(2) fs2(2) by (auto intro: rtranclp.rtrancl_into_rtrancl)
  then show ?case using fs2(1) proc_stack_bound by blast
qed

theorem syscalls_refine_witness:
  "\<exists>k' fs'. syscall_handler sample_env 6 5 0 0 shell_kernel = Some (k', Return (- 1)) \<and> proc_stack k' fs' \<and> length fs' \<le> 7"
proof -
  define k' where "k' = shell_kernel\<lparr>clock := (clock shell_kernel)\<lparr>ports := sti (ports (clock shell_kernel))\<rparr>\<rparr>"
  have "sys_close 5 k' = (k', - 1)"
    by (simp add: sys_close_def k'_def shell_kernel_def sample_kernel_def shell_pcb_def closed_file_def)
  then have call: "syscall_handler sample_env 6 5 0 0 shell_kernel = Some (k', Return (- 1))"
    by (simp add: syscall_handler_def k'_def [symmetric] returning_def word_sless_alt)
  then have "user_call shell_kernel k'" by (rule user_call.intros) (simp_all add: k'_def pointers_ok_def)
  then show ?thesis using syscalls_refine [OF shell_stack, of k'] call by blast
qed

text \<open>
  C16. With the table \<open>set_idt\<close> builds from an empty one, whatever the addresses of the handlers and
  whatever the stack held, each exception and each device interrupt is delivered to its handler in the
  kernel's code segment, exceptions through trap gates and devices through interrupt gates; and of all
  256 vectors a user program's \<open>INT\<close> enters the kernel through \<open>0x80\<close> only, at \<open>syscall_handler\<close> with
  interrupts off: any other faults.
\<close>

theorem idt_spec:
  assumes "\<And>v. present (idt v) = 0"
    and t_def: "t = set_idt addr s1 s2 s3 idt"
  shows "(\<forall>(v, h) \<in> set exception_vectors. gate_of t v = Some (Trap_gate, KERNEL_CS, addr h))
    \<and> gate_of t 32 = Some (Interrupt_gate, KERNEL_CS, addr Pit_wrapper) \<and> gate_of t 33 = Some (Interrupt_gate, KERNEL_CS, addr Kbd_wrapper)
    \<and> gate_of t 40 = Some (Interrupt_gate, KERNEL_CS, addr Rtc_wrapper) \<and> gate_of t 44 = Some (Interrupt_gate, KERNEL_CS, addr Mouse_wrapper)
    \<and> (\<forall>v. soft_int t 3 v = (if v = 128 then Some (Interrupt_gate, KERNEL_CS, addr Syscall_handler) else None))"
proof -
  have t: "t v =
    (if v = 128 then SET_IDT_ENTRY (addr Syscall_handler) (idt_entry 3 0 s3)
     else if v = 40 then SET_IDT_ENTRY (addr Rtc_wrapper) (idt_entry 0 0 s2)
     else if v = 33 then SET_IDT_ENTRY (addr Kbd_wrapper) (idt_entry 0 0 s2)
     else if v = 32 then SET_IDT_ENTRY (addr Pit_wrapper) (idt_entry 0 0 s2)
     else if v = 44 then SET_IDT_ENTRY (addr Mouse_wrapper) (idt_entry 0 0 s2)
     else case map_of exception_vectors v of Some h \<Rightarrow> SET_IDT_ENTRY (addr h) (idt_entry 0 1 s1)
       | None \<Rightarrow> idt v)" for v
  proof -
    have d: "distinct (map fst exception_vectors)" by (simp add: exception_vectors_def)
    have m: "map_of exception_vectors v \<noteq> None \<longleftrightarrow> v < 20 \<and> v \<noteq> 1 \<and> v \<noteq> 15"
    proof
      assume "v < 20 \<and> v \<noteq> 1 \<and> v \<noteq> 15"
      then have "v \<in> set [0..<20]" "v \<noteq> 1" "v \<noteq> 15" by simp_all
      then show "map_of exception_vectors v \<noteq> None" by (simp add: upt_rec exception_vectors_def) auto
    qed (auto simp: exception_vectors_def split: if_split_asm)
    have "set_exception addr s1 idt v = (case map_of exception_vectors v of Some h \<Rightarrow> SET_IDT_ENTRY (addr h) (idt_entry 0 1 s1)
       | None \<Rightarrow> idt v)"
      using m by (auto simp: set_exception_def Let_def set_handlers_at [OF d] fold_entries split: option.splits)
    then show ?thesis
      by (simp add: t_def set_idt_def set_systemcall_def set_interrupt_def set_handlers_at Let_def)
  qed
  have "gate_of t v = Some (Trap_gate, KERNEL_CS, addr h)" if "(v, h) \<in> set exception_vectors" for v h
    using that unfolding gate_of_def t by (auto simp: exception_vectors_def gate_offset_set)
  moreover have "soft_int t 3 v = (if v = 128 then Some (Interrupt_gate, KERNEL_CS, addr Syscall_handler) else None)" for v
    using assms(1) [of v] unfolding soft_int_def gate_of_def t
    by (auto simp: gate_offset_set split: option.split)
  ultimately show ?thesis
    by (auto simp: gate_of_def t gate_offset_set)
qed

definition empty_gate :: idt_desc_t where
  "empty_gate = \<lparr>offset_15_00 = 0, seg_selector = 0, reserved4 = 0, reserved3 = 0, reserved2 = 0, reserved1 = 0, size_32 = 0,
     reserved0 = 0, dpl = 0, present = 0, offset_31_16 = 0\<rparr>"

theorem idt_spec_witness:
  "soft_int (set_idt (\<lambda>h. if h = Syscall_handler then 0x401234 else 0x400000) empty_gate empty_gate empty_gate (\<lambda>_. empty_gate)) 3 128
     = Some (Interrupt_gate, KERNEL_CS, 0x401234)"
  by (subst idt_spec [OF _ refl]) (simp_all add: empty_gate_def)

end
