(* ===== verification/Boot.thy ===== *)
theory Boot
  imports Mouse Interrupts
begin

text \<open>
  The start of the kernel, \<open>entry\<close> of \<open>kernel.c\<close>: the boot information, the two system descriptors, the
  initialization of every component in the order of the code, the boot picture and tune, and the
  first program. What the code calls before paging is on uses the memory directly, as \<open>view\<close> does
  without a page directory.
\<close>

section \<open>Segment descriptors\<close>

record seg_desc_t =
  seg_lim_15_00 :: u16
  base_15_00 :: u16
  base_23_16 :: u8
  seg_type :: "4 word"
  sys :: "1 word"
  seg_dpl :: "2 word"
  seg_present :: "1 word"
  seg_lim_19_16 :: "4 word"
  avail :: "1 word"
  seg_reserved :: "1 word"
  opsize :: "1 word"
  granularity :: "1 word"
  base_31_24 :: u8

text \<open>\<open>SET_LDT_PARAMS\<close> and \<open>SET_TSS_PARAMS\<close> have the same text.\<close>

definition SET_LDT_PARAMS :: "u32 \<Rightarrow> u32 \<Rightarrow> seg_desc_t \<Rightarrow> seg_desc_t" where
  "SET_LDT_PARAMS addr lim d =
     d\<lparr>base_31_24 := ucast (drop_bit 24 (addr AND 0xFF000000)), base_23_16 := ucast (drop_bit 16 (addr AND 0x00FF0000)),
       base_15_00 := ucast (addr AND 0x0000FFFF), seg_lim_19_16 := ucast (drop_bit 16 (lim AND 0x000F0000)),
       seg_lim_15_00 := ucast (lim AND 0x0000FFFF)\<rparr>"

definition SET_TSS_PARAMS :: "u32 \<Rightarrow> u32 \<Rightarrow> seg_desc_t \<Rightarrow> seg_desc_t" where
  "SET_TSS_PARAMS addr lim d = SET_LDT_PARAMS addr lim d"

text \<open>The blocks for the LDT and the TSS; \<open>d\<close> is what the stack holds.\<close>

definition make_ldt_desc :: "u32 \<Rightarrow> u32 \<Rightarrow> seg_desc_t \<Rightarrow> seg_desc_t" where
  "make_ldt_desc ldt ldt_size d =
     SET_LDT_PARAMS ldt ldt_size
       (d\<lparr>granularity := 0, opsize := 1, seg_reserved := 0, avail := 0, seg_present := 1, seg_dpl := 0, sys := 0, seg_type := 2\<rparr>)"

definition make_tss_desc :: "u32 \<Rightarrow> u32 \<Rightarrow> seg_desc_t \<Rightarrow> seg_desc_t" where
  "make_tss_desc tss tss_size d =
     SET_TSS_PARAMS tss tss_size
       (d\<lparr>granularity := 0, opsize := 0, seg_reserved := 0, avail := 0, seg_lim_19_16 := ucast ((104 :: u32) AND 0x000F0000),
          seg_present := 1, seg_dpl := 0, sys := 0, seg_type := 9, seg_lim_15_00 := ucast ((104 :: u32) AND 0x0000FFFF)\<rparr>)"

text \<open>
  The state of the boot: the kernel, the interrupt table and the registers that point to it and to the
  two descriptors. The addresses of the tables are parameters: \<open>boot_env\<close>.
\<close>

record boot_state =
  kern :: kernel
  itab :: idt
  idtr :: bool
  ldt_desc :: seg_desc_t
  tss_desc :: seg_desc_t
  ldt_selector :: u16
  ldtr :: u16
  tr :: u16

record boot_env =
  ldt_at :: u32
  ldt_size :: u32
  tss_at :: u32
  tss_size :: u32
  stack_seg :: seg_desc_t
  stack_idt :: "idt_desc_t \<times> idt_desc_t \<times> idt_desc_t"
  handlers :: "handler \<Rightarrow> u32"
  pt_area :: u32
  status_lit :: u32
  picture :: u32
  shell_name :: u32
  stack_fs :: u32

abbreviation (input) KERNEL_TSS :: u16 where "KERNEL_TSS \<equiv> 0x0030"
abbreviation (input) KERNEL_LDT :: u16 where "KERNEL_LDT \<equiv> 0x0038"

definition boot_descriptors :: "boot_env \<Rightarrow> boot_state \<Rightarrow> boot_state" where
  "boot_descriptors B b =
     (let b = b\<lparr>ldt_desc := make_ldt_desc (ldt_at B) (ldt_size B) (stack_seg B)\<rparr>;
          b = b\<lparr>ldtr := KERNEL_LDT\<rparr>;
          b = b\<lparr>tss_desc := make_tss_desc (tss_at B) (tss_size B) (stack_seg B)\<rparr>;
          b = b\<lparr>ldt_selector := KERNEL_LDT\<rparr>;
          b = b\<lparr>kern := (kern b)\<lparr>tss_ss0 := KERNEL_DS, tss_esp0 := 0x800000\<rparr>\<rparr>
      in b\<lparr>tr := KERNEL_TSS\<rparr>)"

section \<open>The boot information\<close>

definition boot_printf :: "env \<Rightarrow> u8 list \<Rightarrow> u32 list \<Rightarrow> kernel \<Rightarrow> kernel option" where
  "boot_printf E text arguments k =
     map_option (\<lambda>(_, m, w). set_view m (k\<lparr>tty := (tty k)\<lparr>scr := w\<rparr>\<rparr>))
       (printf (conv_buf E) text arguments (view k, scr (tty k)))"

definition CHECK_FLAG :: "u32 \<Rightarrow> nat \<Rightarrow> bool" where
  "CHECK_FLAG v b \<longleftrightarrow> v AND push_bit b 1 \<noteq> 0"

text \<open>The first bytes of a module; a \<open>char\<close> is signed.\<close>

definition print_bytes :: "env \<Rightarrow> u32 \<Rightarrow> kernel \<Rightarrow> kernel option" where
  "print_bytes E start = for_loop 0 16 (\<lambda>i k. boot_printf E (ascii ''0x%x '') [scast (view k (start + of_nat i))] k)"

lemma count_up: "(i :: u32) < n \<Longrightarrow> 4294967295 - unat (i + 1) < 4294967295 - unat i"
proof -
  assume "i < n"
  then have "unat (i + 1) = Suc (unat i)" "unat i < unat n" by (simp_all add: unat_succ_less word_less_nat_alt)
  moreover have "unat n \<le> 4294967295" by (rule unat_le32)
  ultimately show ?thesis by linarith
qed

text \<open>\<open>mods_count\<close> is read again for each test, and compared as unsigned.\<close>

function boot_modules :: "env \<Rightarrow> u32 \<Rightarrow> u32 \<Rightarrow> u32 \<Rightarrow> u32 \<Rightarrow> kernel \<Rightarrow> (kernel \<times> u32) option" where
  "boot_modules E mbi mod_count md fs_addr k =
     (if mod_count < load32 (view k) (mbi + 20)
      then (let fs_addr = load32 (view k) md
            in case Option.bind (boot_printf E (ascii ''Module %d loaded at address: 0x%#x'' @ [0x0A]) [mod_count, load32 (view k) md] k)
                 (\<lambda>k. Option.bind (boot_printf E (ascii ''Module %d ends at address: 0x%#x'' @ [0x0A]) [mod_count, load32 (view k) (md + 4)] k)
                   (\<lambda>k. Option.bind (boot_printf E (ascii ''First few bytes of module:'' @ [0x0A]) [] k)
                     (\<lambda>k. Option.bind (print_bytes E (load32 (view k) md) k) (boot_printf E [0x0A] [])))) of
                 None \<Rightarrow> None
               | Some k \<Rightarrow> boot_modules E mbi (mod_count + 1) (md + 16) fs_addr k)
      else Some (k, fs_addr))"
  by pat_completeness auto
termination
  by (relation "measure (\<lambda>(E, mbi, mod_count, md, f, k). 4294967295 - unat mod_count)")
    (simp_all add: count_up)

text \<open>
  The memory map. An entry of size \<open>- 4\<close> makes the loop run forever: \<open>None\<close>.
\<close>

partial_function (option) boot_mmap :: "env \<Rightarrow> u32 \<Rightarrow> u32 \<Rightarrow> kernel \<Rightarrow> kernel option" where
  "boot_mmap E mbi mmap k =
     (let m = view k
      in if mmap < load32 m (mbi + 48) + load32 m (mbi + 44)
         then (case boot_printf E (ascii '' size = 0x%x,     base_addr = 0x%#x%#x'' @ [0x0A] @ ascii ''     type = 0x%x,  length    = 0x%#x%#x'' @ [0x0A])
                      [load32 m mmap, load32 m (mmap + 8), load32 m (mmap + 4), load32 m (mmap + 20), load32 m (mmap + 16), load32 m (mmap + 12)] k of
                 None \<Rightarrow> None
               | Some k \<Rightarrow> boot_mmap E mbi (mmap + load32 (view k) mmap + 4) k)
         else Some k)"

definition print_if :: "bool \<Rightarrow> (kernel \<Rightarrow> kernel option) \<Rightarrow> kernel \<Rightarrow> kernel option" where
  "print_if c f k = (if c then f k else Some k)"

text \<open>
  Up to the memory map. \<open>Inl\<close> is an early return of \<open>entry\<close>; \<open>Inr\<close> has the address of the file system,
  what the stack holds if there is no module.
\<close>

definition boot_info :: "env \<Rightarrow> u32 \<Rightarrow> u32 \<Rightarrow> u32 \<Rightarrow> kernel \<Rightarrow> (kernel + kernel \<times> u32) option" where
  "boot_info E garbage magic addr k =
     (let k = set_view (clear (view k)) k
      in if magic \<noteq> 0x2BADB002
         then map_option Inl (boot_printf E (ascii ''Invalid magic number: 0x%#x'' @ [0x0A]) [magic] k)
         else
           (let fl = (\<lambda>k. load32 (view k) addr); word = (\<lambda>k i. load32 (view k) (addr + i))
            in Option.bind (boot_printf E (ascii ''flags = 0x%#x'' @ [0x0A]) [fl k] k)
                (\<lambda>k. Option.bind (print_if (CHECK_FLAG (fl k) 0)
                        (boot_printf E (ascii ''mem_lower = %uKB, mem_upper = %uKB'' @ [0x0A]) [word k 4, word k 8]) k)
                 (\<lambda>k. Option.bind (print_if (CHECK_FLAG (fl k) 1) (boot_printf E (ascii ''boot_device = 0x%#x'' @ [0x0A]) [word k 12]) k)
                  (\<lambda>k. Option.bind (print_if (CHECK_FLAG (fl k) 2) (boot_printf E (ascii ''cmdline = %s'' @ [0x0A]) [word k 16]) k)
                   (\<lambda>k. Option.bind (if CHECK_FLAG (fl k) 3 then boot_modules E addr 0 (word k 24) garbage k else Some (k, garbage))
                    (\<lambda>(k, fs_addr).
                       if CHECK_FLAG (fl k) 4 \<and> CHECK_FLAG (fl k) 5
                       then map_option Inl (boot_printf E (ascii ''Both bits 4 and 5 are set.'' @ [0x0A]) [] k)
                       else Option.bind (print_if (CHECK_FLAG (fl k) 5)
                               (boot_printf E (ascii ''elf_sec: num = %u, size = 0x%#x, addr = 0x%#x, shndx = 0x%#x'' @ [0x0A])
                                  [word k 28, word k 32, word k 36, word k 40]) k)
                            (\<lambda>k. map_option (\<lambda>k. Inr (k, fs_addr))
                               (if CHECK_FLAG (fl k) 6
                                then Option.bind (boot_printf E (ascii ''mmap_addr = 0x%#x, mmap_length = 0x%x'' @ [0x0A]) [word k 48, word k 44] k)
                                       (\<lambda>k. boot_mmap E addr (word k 48) k)
                                else Some k)))))))))"

section \<open>The boot picture\<close>

text \<open>The loop of \<open>boot_screen\<close>; \<open>i\<close> is compared with \<open>strlen\<close> as an unsigned number.\<close>

partial_function (option) boot_screen_loop :: "u32 \<Rightarrow> nat \<Rightarrow> mem \<times> screen \<Rightarrow> (mem \<times> screen) option" where
  "boot_screen_loop bit_map i w =
     (case w of (m, s) \<Rightarrow>
        case strlen m bit_map of
          None \<Rightarrow> None
        | Some n \<Rightarrow>
            if of_nat i < n
            then (let s = (if i mod 80 = 0 then s\<lparr>screen_y := screen_y s + 1, screen_x := 0\<rparr> else s);
                      attr = (if m (bit_map + of_nat i) = 0x7C then 0xE4 else 0x44)
                  in boot_screen_loop bit_map (i + 1) (m(cell (int i) + 1 := attr), s))
            else Some (m, s))"

definition boot_screen :: "u32 \<Rightarrow> mem \<times> screen \<Rightarrow> (mem \<times> screen) option" where
  "boot_screen bit_map w = boot_screen_loop bit_map 0 w"

section \<open>Initialization\<close>

text \<open>The tune of \<open>entry\<close>: how often, and the frequency.\<close>

definition mario :: "(nat \<times> u32) list" where
  "mario = [(500000, 1000), (500000, 100), (500000, 900), (50000, 200), (500000, 800), (500000, 300), (500000, 700),
     (500000, 400), (500000, 600), (500000, 500), (500000, 500), (500000, 1000), (500000, 400), (500000, 300),
     (500000, 300), (500000, 200)]"

definition play_tune :: "device \<Rightarrow> (nat \<times> u32) list \<Rightarrow> io \<Rightarrow> io" where
  "play_tune hw tune s = nosound hw (fold (\<lambda>(n, f) s. (play_sound hw f ^^ n) s) tune s)"

definition on_ports :: "(io \<Rightarrow> io) \<Rightarrow> kernel \<Rightarrow> kernel" where
  "on_ports f k = k\<lparr>clock := (clock k)\<lparr>ports := f (ports (clock k))\<rparr>\<rparr>"

definition kernel_reset_scr :: "kernel \<Rightarrow> kernel" where
  "kernel_reset_scr k =
     (let (w, m) = reset_scr (scr (tty k)) (view k) in set_view m (k\<lparr>tty := (tty k)\<lparr>scr := w\<rparr>\<rparr>))"

definition on_tty :: "(terminal \<Rightarrow> terminal option) \<Rightarrow> kernel \<Rightarrow> kernel option" where
  "on_tty f k = map_option (\<lambda>s. k\<lparr>tty := s\<rparr>) (f (tty k))"

text \<open>From the first \<open>reset_scr\<close> to the end of the tune and \<open>init_pit\<close>, in the order of the code.\<close>

definition boot_devices :: "env \<Rightarrow> boot_env \<Rightarrow> u32 \<Rightarrow> boot_state \<Rightarrow> boot_state option" where
  "boot_devices E B fs_addr b =
     (let b = b\<lparr>kern := kernel_reset_scr (kern b)\<rparr>;
          (s1, s2, s3) = stack_idt B;
          b = b\<lparr>itab := set_idt (handlers B) s1 s2 s3 (itab b)\<rparr>;
          b = b\<lparr>idtr := True\<rparr>;
          k = kern b;
          k = on_ports (i8259_init (dev E)) k;
          k = k\<lparr>pg := init_paging (pt_area B) (pg k)\<rparr>;
          k = k\<lparr>fsys := init_filesys (view k) fs_addr\<rparr>;
          k = on_ports (init_keyboard (dev E)) k;
          k = k\<lparr>clock := init_rtc (dev E) (clock k)\<rparr>;
          (s, p) = init_mouse (dev E) (tty k, ports (clock k));
          k = on_ports (\<lambda>_. p) (k\<lparr>tty := s\<rparr>);
          k = kernel_reset_scr k
      in Option.bind (for_loop 0 3 (\<lambda>_. on_tty terminal_init) k)
           (\<lambda>k. Option.bind (on_tty (\<lambda>s. Option.bind (screen_at 0 s) (\<lambda>buffer. on_buffer (reset_buf buffer) s)) k)
             (\<lambda>k. let k = on_ports sti k
                  in Option.bind (boot_screen (picture B) (view k, scr (tty k)))
                       (\<lambda>(m, w). let k = set_view m (k\<lparr>tty := (tty k)\<lparr>scr := w\<rparr>\<rparr>);
                                     k = on_ports (play_tune (dev E) mario) k;
                                     k = kernel_reset_scr k
                                 in map_option (\<lambda>p. b\<lparr>kern := on_ports (\<lambda>_. p) k\<rparr>) (init_pit (dev E) 0 100 (ports (clock k)))))))"

text \<open>\<open>entry\<close>; \<open>Spin\<close> is the \<open>hlt\<close> loop: of \<open>boot.S\<close> after an early return, of \<open>entry\<close> when \<open>execute\<close> comes back.\<close>

definition entry :: "env \<Rightarrow> boot_env \<Rightarrow> u32 \<Rightarrow> u32 \<Rightarrow> boot_state \<Rightarrow> (boot_state \<times> control) option" where
  "entry E B magic addr b =
     (case boot_info E (stack_fs B) magic addr (kern b) of
        None \<Rightarrow> None
      | Some (Inl k) \<Rightarrow> Some (b\<lparr>kern := k\<rparr>, Spin)
      | Some (Inr (k, fs_addr)) \<Rightarrow>
          Option.bind (boot_devices E B fs_addr (boot_descriptors B (b\<lparr>kern := k\<rparr>)))
            (\<lambda>b. let (m, s) = status_bar (status_lit B) (view (kern b), tty (kern b));
                     k = set_view m ((kern b)\<lparr>tty := s\<rparr>);
                     k = set_view (store_bytes (view k) (shell_name B) (ascii ''shell'' @ replicate 28 0)) k
                 in map_option (\<lambda>(k, c). (b\<lparr>kern := k\<rparr>, case c of Return v \<Rightarrow> Spin | _ \<Rightarrow> c)) (execute E (shell_name B) k)))"

section \<open>The interrupt lines\<close>

text \<open>The controllers after their initialization, with masks \<open>m\<close> and \<open>s\<close>.\<close>

definition pics_at :: "pic \<Rightarrow> io_event list \<Rightarrow> u8 \<Rightarrow> u8 \<Rightarrow> bool" where
  "pics_at c log m s \<longleftrightarrow>
     pic_run c 0x20 log = \<lparr>phase = Ready, icw1 = 0x11, vector = 0x20, cascade = 4, mode = 1, imr = m, isr = 0\<rparr>
   \<and> pic_run c 0xA0 log = \<lparr>phase = Ready, icw1 = 0x11, vector = 0x28, cascade = 2, mode = 1, imr = s, isr = 0\<rparr>"

lemma pics_at_other [simp]:
  "pics_at c (InB p # log) m s = pics_at c log m s"
  "p \<notin> {0x20, 0x21, 0xA0, 0xA1} \<Longrightarrow> pics_at c (OutB p v # log) m s = pics_at c log m s"
  by (auto simp: pics_at_def)

lemma pics_at_mask:
  "pics_at c log m s \<Longrightarrow> pics_at c (OutB 0x21 v # log) v s" "pics_at c log m s \<Longrightarrow> pics_at c (OutB 0xA1 v # log) m v"
  by (simp_all add: pics_at_def pic_data_def Let_def)

lemma reads_pics:
  "reads_mask c hw \<Longrightarrow> pics_at c log m s \<Longrightarrow> hw log 0x21 = m" "reads_mask c hw \<Longrightarrow> pics_at c log m s \<Longrightarrow> hw log 0xA1 = s"
proof -
  assume r: "reads_mask c hw" and p: "pics_at c log m s"
  have "hw log (b + 1) = imr (pic_run c b log)" if "b \<in> {0x20, 0xA0}" for b
    using r that p unfolding reads_mask_def pics_at_def by auto
  from this [of "0x20"] this [of "0xA0"] show "hw log 0x21 = m" "hw log 0xA1 = s" using p by (simp_all add: pics_at_def)
qed

lemma enable_lines:
  assumes "reads_mask c hw" and "pics_at c (trace p) m s"
  shows "pics_at c (trace (enable_irq hw 0 p)) (m AND 0xFE) s" "pics_at c (trace (enable_irq hw 1 p)) (m AND 0xFD) s"
    "pics_at c (trace (enable_irq hw 8 p)) m (s AND 0xFE)" "pics_at c (trace (enable_irq hw 12 p)) m (s AND 0xEF)"
proof -
  have b: "(ucast (ucast (x :: u8) AND NOT (irq_bit n) :: u32) :: u8) = x AND ucast (NOT (irq_bit n))" for x n
    by (rule bit_word_eqI) (simp add: bit_simps)
  have v: "(ucast (NOT (irq_bit 0)) :: u8) = 0xFE" "(ucast (NOT (irq_bit 1)) :: u8) = 0xFD" "(ucast (NOT (irq_bit 4)) :: u8) = 0xEF"
    by (simp_all add: irq_bit_def)
  show "pics_at c (trace (enable_irq hw 0 p)) (m AND 0xFE) s" "pics_at c (trace (enable_irq hw 1 p)) (m AND 0xFD) s"
    "pics_at c (trace (enable_irq hw 8 p)) m (s AND 0xFE)" "pics_at c (trace (enable_irq hw 12 p)) m (s AND 0xEF)"
    using reads_pics [OF assms] assms(2) by (simp_all add: enable_irq_def Let_def port_defs b v pics_at_mask)
qed

lemma play_pics: "pics_at c (trace (play_sound hw f p)) m s = pics_at c (trace p) m s"
  and nosound_pics: "pics_at c (trace (nosound hw p)) m s = pics_at c (trace p) m s"
  by (simp_all add: play_sound_def nosound_def Let_def port_defs)

lemma tune_pics: "pics_at c (trace (play_tune hw tune p)) m s = pics_at c (trace p) m s"
proof -
  have n: "pics_at c (trace ((play_sound hw f ^^ n) p)) m s = pics_at c (trace p) m s" for f n p
    by (induction n) (simp_all add: play_pics)
  have "pics_at c (trace (fold (\<lambda>(n, f) s. (play_sound hw f ^^ n) s) tune p)) m s = pics_at c (trace p) m s"
    by (induction tune arbitrary: p) (simp_all add: n split: prod.split)
  then show ?thesis by (simp add: play_tune_def nosound_pics)
qed

lemma rtc_pics: "pics_at c (trace (program_rate hw r p)) m s = pics_at c (trace p) m s"
  by (simp add: program_rate_def Let_def port_defs)

section \<open>Memory and the terminals during the boot\<close>

text \<open>The 4 MB of the kernel are the same in both states.\<close>

abbreviation (input) in_kernel :: "u32 \<Rightarrow> bool" where "in_kernel \<equiv> in_range 0x400000 0x400000"

definition same_kernel :: "kernel \<Rightarrow> kernel \<Rightarrow> bool" where
  "same_kernel k k' \<longleftrightarrow> (\<forall>x. in_kernel x \<longrightarrow> view k' x = view k x)"

lemma same_kernel_refl: "same_kernel k k"
  and same_kernel_trans: "same_kernel k k1 \<Longrightarrow> same_kernel k1 k2 \<Longrightarrow> same_kernel k k2"
  by (simp_all add: same_kernel_def)

lemma kernel_not_video: "in_kernel x \<Longrightarrow> \<not> in_range VIDEO 4000 x"
  by (rule disj_rangesD [of "0x400000" "0x400000"]) (simp_all add: disj_ranges_def)

lemma kernel_not_user: "in_kernel x \<Longrightarrow> \<not> user_page x"
proof -
  assume "in_kernel x"
  moreover have "disj_ranges 0x400000 0x400000 0x08000000 0x400000" by (simp add: disj_ranges_def)
  ultimately have "\<not> in_range 0x08000000 0x400000 x" by (metis disj_rangesD)
  moreover have "unat (x - 0x08000000) < 0x400000" if "0x08000000 \<le> x" "x < 0x08400000"
    using that by (simp add: unat_sub word_le_nat_alt word_less_nat_alt)
  ultimately show ?thesis by (auto simp: user_page_def in_range_def)
qed

text \<open>The layout of the file system depends on the image only.\<close>

lemma init_filesys_image:
  assumes "same_image (init_filesys m a) m m'"
  shows "init_filesys m' a = init_filesys m a"
proof -
  have block: "boot_block (init_filesys m a) = a" by (simp add: init_filesys_def Let_def)
  have "load32 m' (a + 4) = load32 m (a + 4)"
  proof (rule same_image_load32 [OF assms])
    fix i :: nat assume "i < 4"
    then have "in_range a (image_size m (init_filesys m a)) (a + of_nat (4 + i))"
      by (subst in_range_offset) (simp_all add: image_size_def)
    then show "in_image m (init_filesys m a) (a + 4 + of_nat i)" by (simp add: block ac_simps)
  qed
  then show ?thesis by (simp add: init_filesys_def Let_def)
qed

lemma screen_only_kernel: "screen_only k k' \<Longrightarrow> same_kernel k k'"
  by (auto simp: screen_only_def same_kernel_def dest: kernel_not_video)

lemma same_kernel_ports: "same_kernel k (on_ports f k)" "same_kernel k (k\<lparr>clock := r\<rparr>)" "same_kernel k (k\<lparr>tty := s\<rparr>)"
  "same_kernel k (k\<lparr>fsys := g\<rparr>)"
  by (simp_all add: same_kernel_def on_ports_def view_def split: option.split)

lemma same_kernel_pg: "same_kernel k (k\<lparr>pg := p\<rparr>)"
  by (auto simp: same_kernel_def view_def dest: kernel_not_user split: option.split)

lemma reset_scr_kernel:
  "screen_only k (kernel_reset_scr k)" "tty (kernel_reset_scr k) = (tty k)\<lparr>scr := (scr (tty k))\<lparr>screen_x := 0, screen_y := 0\<rparr>\<rparr>"
  "clock (kernel_reset_scr k) = clock k" "pg (kernel_reset_scr k) = pg k" "fsys (kernel_reset_scr k) = fsys k"
  "view (kernel_reset_scr k) = clear (view k)"
  by (simp_all add: kernel_reset_scr_def reset_scr_def screen_only_def clear_outside)

lemma picture_kept:
  assumes "cstr m pic bs" and "length bs \<le> 2000" and "\<And>x. in_range pic 2001 x \<Longrightarrow> \<not> in_range VIDEO 4000 x"
    and "\<And>x. \<not> in_range VIDEO 4000 x \<Longrightarrow> m' x = m x"
  shows "cstr m' pic bs"
proof (rule cstr_cong [OF assms(1)])
  fix x assume "in_range pic (Suc (length bs)) x"
  then have "in_range pic 2001 x" by (rule in_range_mono) (use assms(2) in simp)
  then show "m' x = m x" using assms(3,4) by blast
qed

lemma boot_screen_ok:
  assumes "cstr m pic bs" and "length bs \<le> 2000" and "\<And>x. in_range pic 2001 x \<Longrightarrow> \<not> in_range VIDEO 4000 x"
  shows "i \<le> length bs \<Longrightarrow> (\<And>x. \<not> in_range VIDEO 4000 x \<Longrightarrow> m' x = m x) \<Longrightarrow>
    \<exists>m'' w'. boot_screen_loop pic i (m', w) = Some (m'', w') \<and> color_pick w' = color_pick w
      \<and> (\<forall>x. \<not> in_range VIDEO 4000 x \<longrightarrow> m'' x = m x)"
proof (induction "length bs - i" arbitrary: i m' w)
  case 0
  have "cstr m' pic bs" using picture_kept [OF assms] 0 by blast
  then have "boot_screen_loop pic i (m', w) = Some (m', w)"
    using 0 strlen_cstr by (subst boot_screen_loop.simps) simp
  then show ?case using 0 by blast
next
  case (Suc n)
  then have i: "i < length bs" by simp
  have str: "cstr m' pic bs" using picture_kept [OF assms] Suc.prems by blast
  have lt: "(of_nat i :: u32) < of_nat (length bs)" using i assms(2) by (simp add: word_less_nat_alt unat_of_nat32)
  define attr :: u8 where "attr = (if m' (pic + of_nat i) = 0x7C then 0xE4 else 0x44)"
  define w1 where "w1 = (if i mod 80 = 0 then w\<lparr>screen_y := screen_y w + 1, screen_x := 0\<rparr> else w)"
  define m1 where "m1 = m'(cell (int i) + 1 := attr)"
  have step: "boot_screen_loop pic i (m', w) = boot_screen_loop pic (i + 1) (m1, w1)"
    using lt strlen_cstr [OF str] by (subst boot_screen_loop.simps) (simp add: attr_def w1_def m1_def)
  have "m1 x = m x" if "\<not> in_range VIDEO 4000 x" for x
    using that Suc.prems(2) row_24(2) [of i] i assms(2) by (auto simp: m1_def)
  from Suc.hyps(1) [OF _ _ this, of "i + 1" w1] Suc.hyps(2) i show ?case
    by (auto simp: step w1_def)
qed

lemma terminals_start:
  assumes "boot_sizes (tty k)" and "screen_num (tty k) = 0"
  shows "\<exists>s'. for_loop 0 3 (\<lambda>_. on_tty terminal_init) k = Some (k\<lparr>tty := s'\<rparr>)
    \<and> terminal_ok s' \<and> screen_num s' = 0 \<and> mouse_x s' = mouse_x (tty k) \<and> mouse_y s' = mouse_y (tty k) \<and> scr s' = scr (tty k)
    \<and> map (\<lambda>b. text_of b s') [0, 1, 2] = replicate 3 (replicate 2000 0x20, 0, 0)"
proof -
  obtain s1 s2 s3 where s: "terminal_init (tty k) = Some s1" "terminal_init s1 = Some s2" "terminal_init s2 = Some s3"
    "terminal_ok s3 \<and> screen_num s3 = 0 \<and> mouse_x s3 = mouse_x (tty k) \<and> mouse_y s3 = mouse_y (tty k) \<and> scr s3 = scr (tty k)
    \<and> map (\<lambda>b. text_of b s3) [0, 1, 2] = replicate 3 (replicate 2000 0x20, 0, 0)"
    using terminal_init_spec [OF assms] by blast
  have "for_loop 0 3 (\<lambda>_. on_tty terminal_init) k = Some (k\<lparr>tty := s3\<rparr>)"
    by (simp add: numeral_3_eq_3 on_tty_def s)
  then show ?thesis using s(4) by blast
qed

lemma first_buffer:
  assumes "terminal_ok s" and "screen_num s = 0" and "map (\<lambda>b. text_of b s) [0, 1, 2] = replicate 3 (replicate 2000 0x20, 0, 0)"
  shows "\<exists>u. Option.bind (screen_at 0 s) (\<lambda>buffer. on_buffer (reset_buf buffer) s) = Some (s\<lparr>bf := u\<rparr>)
    \<and> terminal_ok (s\<lparr>bf := u\<rparr>) \<and> map (\<lambda>b. text_of b (s\<lparr>bf := u\<rparr>)) [0, 1, 2] = replicate 3 (replicate 2000 0x20, 0, 0)"
proof -
  have all: "all_buffers_ok (bf s)" using assms(1) by (simp add: terminal_ok_def)
  have "length (bufs (bf s) 0) = 2000" using all by (simp add: all_buffers_ok_def buffer_ok_def nodes_ok_def)
  then obtain u where u: "reset_buf 0 (bf s) = Some u" "buffer_ok 0 u" "chars 0 u = replicate 2000 0x20" "buf_x u = 0" "buf_y u = 0"
    using reset_buf_ok by blast
  have "all_buffers_ok u" by (rule all_buffers_ok_frame [OF all u(2)]) (use reset_buf_frame [OF u(1)] in auto)
  moreover have "chars c u = chars c (bf s)" if "c \<noteq> 0" for c
    using reset_buf_frame [OF u(1), of c] that by (simp add: chars_def)
  ultimately show ?thesis
    using u assms screen_at_ok [OF assms(1), of 0]
    by (auto simp: on_buffer_def terminal_ok_def text_of_def numeral_3_eq_3)
qed

lemma boot_ports:
  assumes "reads_mask c hw"
    and p1_def: "p1 = init_keyboard hw (i8259_init hw p)"
    and p2_def: "p2 = enable_irq hw 8 (program_rate hw 0x0E p1)"
    and p3_def: "p3 = snd (init_mouse hw (s, p2))"
    and p4_def: "p4 = play_tune hw mario (sti p3)"
  shows "\<exists>p5. init_pit hw 0 100 p4 = Some p5 \<and> pics_at c (trace p5) 0xF8 0xEE \<and> intr_on p5
    \<and> pit_run ch (trace p5) 0 = \<lparr>pit_mode = 3, access = 3, high_next = False, reload = 11931\<rparr>"
proof -
  note en = enable_lines [OF assms(1)]
  have "pics_at c (trace (i8259_init hw p)) 0xFB 0xFF" using i8259_init_spec [of c hw p] by (simp add: pics_at_def)
  then have "pics_at c (trace p1) 0xF9 0xFF" using en(2) by (fastforce simp: p1_def init_keyboard_def)
  then have "pics_at c (trace p2) 0xF9 0xFE" using en(3) [of "program_rate hw 0x0E p1" "0xF9" "0xFF"] by (simp add: p2_def rtc_pics)
  then have "pics_at c (trace (enable_irq hw 12 p2)) 0xF9 0xEE" using en(4) by fastforce
  then have "pics_at c (trace p3) 0xF9 0xEE" by (simp add: p3_def init_mouse_def Let_def port_defs)
  then have p4: "pics_at c (trace p4) 0xF9 0xEE" by (simp add: p4_def tune_pics sti_def)
  then have p5: "pics_at c (trace (enable_irq hw 0 p4)) 0xF8 0xEE" using en(1) by fastforce
  have on: "intr_on p4"
  proof -
    have "intr_on (fold (\<lambda>(n, f) s. (play_sound hw f ^^ n) s) tune s)" if "intr_on s" for tune s
    proof -
      have "intr_on ((play_sound hw f ^^ n) s)" if "intr_on s" for f n s
        using that by (cases n) (simp_all add: play_sound_def Let_def sti_def split_def)
      then show ?thesis using that by (induction tune arbitrary: s) auto
    qed
    then show ?thesis by (simp add: p4_def play_tune_def nosound_def Let_def port_defs sti_def)
  qed
  obtain p6 where p6: "init_pit hw 0 100 p4 = Some p6" "trace p6 =
      [OutB 0x40 (ucast (drop_bit 8 (of_nat (1193180 div 100) :: u16))), OutB 0x40 (ucast (of_nat (1193180 div 100) :: u16)), OutB 0x43 0x36]
      @ trace (enable_irq hw 0 p4)"
    using init_pit_trace [of 100 0, where hw = hw and s = p4] by auto
  have "intr_on p6" using p6(1) on enable_0 [of hw p4] by (auto simp: init_pit_def Let_def port_defs)
  moreover have "pics_at c (trace p6) 0xF8 0xEE" using p5 by (simp add: p6(2))
  moreover have "pit_run ch (trace p6) 0 = \<lparr>pit_mode = 3, access = 3, high_next = False, reload = 11931\<rparr>"
    using program_channel [of 0 "0x36" "of_nat (1193180 div 100)" "pit_run ch (trace (enable_irq hw 0 p4))"] by (simp add: p6(2))
  ultimately show ?thesis using p6(1) by blast
qed

lemma open_lines:
  assumes "pics_at c log 0xF8 0xEE"
  shows "{n. n < 16 \<and> \<not> masked c log n} = {0, 1, 2, 8, 12}"
proof -
  define f :: "nat \<Rightarrow> bool" where "f = (\<lambda>n. if n < 8 then bit (0xF8 :: u8) n else bit (0xEE :: u8) (n - 8))"
  have "masked c log n = f n" if "n < 16" for n
    using assms that by (auto simp: masked_def pic_of_def pics_at_def mod_if f_def)
  then have "{n. n < 16 \<and> \<not> masked c log n} = set (filter (\<lambda>n. \<not> f n) [0..<16])" by auto
  also have "filter (\<lambda>n. \<not> f n) [0..<16] = [0, 1, 2, 8, 12]" by (simp add: f_def upt_rec)
  finally show ?thesis by simp
qed

section \<open>What the processor reads from a descriptor\<close>

definition seg_base :: "seg_desc_t \<Rightarrow> u32" where
  "seg_base d = push_bit 24 (ucast (base_31_24 d)) OR push_bit 16 (ucast (base_23_16 d)) OR ucast (base_15_00 d)"

definition seg_limit :: "seg_desc_t \<Rightarrow> u32" where
  "seg_limit d = push_bit 16 (ucast (seg_lim_19_16 d)) OR ucast (seg_lim_15_00 d)"

lemma field_bits: "drop_bit k ((x :: u32) AND push_bit k (mask n)) = take_bit n (drop_bit k x)"
  by (rule bit_word_eqI) (auto simp: bit_simps dest: bit_imp_le_length)

lemma field_masks:
  "(0xFF000000 :: u32) = push_bit 24 (mask 8)" "(0x00FF0000 :: u32) = push_bit 16 (mask 8)" "(0x000F0000 :: u32) = push_bit 16 (mask 4)"
  "(0x0000FFFF :: u32) = push_bit 0 (mask 16)"
  by (simp_all add: mask_eq_exp_minus_1 push_bit_eq_mult)

lemma descriptor_fields:
  assumes "lim < 0x100000"
  shows "seg_base (SET_LDT_PARAMS a lim d) = a" and "seg_limit (SET_LDT_PARAMS a lim d) = lim"
proof -
  have low: "x AND 0xFFFF = take_bit 16 x" for x :: u32 using field_bits [of 0 x 16] by (simp add: field_masks)
  show "seg_base (SET_LDT_PARAMS a lim d) = a"
    unfolding seg_base_def SET_LDT_PARAMS_def seg_desc_t.simps low field_masks(1,2) field_bits
    by (rule bit_word_eqI, case_tac "n < 24") (auto simp: bit_simps not_less)
  have "take_bit 20 (unat lim) = unat lim" using assms by (intro take_bit_nat_eq_self) (simp add: word_less_nat_alt)
  then have "\<not> bit (unat lim) n" if "20 \<le> n" for n using that by (metis bit_take_bit_iff not_le)
  then have "\<not> bit lim n" if "20 \<le> n" for n using that bit_imp_le_length [of lim n] by (auto simp: bit_unsigned_iff)
  then show "seg_limit (SET_LDT_PARAMS a lim d) = lim"
    unfolding seg_limit_def SET_LDT_PARAMS_def seg_desc_t.simps low field_masks(3) field_bits
    by (intro bit_word_eqI) (auto simp: bit_simps not_le [symmetric])
qed

section \<open>Properties\<close>

text \<open>
  C8. The initialization of the kernel, on controllers and a timer in any state and whatever the
  screen shows, ends well: the three terminals are empty and well-formed, with terminal 0 on display
  and the pointer in the last corner; paging has its invariant; the file system is the one of the image at the
  given address; of the sixteen interrupt lines exactly those of timer, keyboard, cascade, clock and
  mouse are open; interrupts are on and the timer runs at 1193180/11931 Hz; and the file system image, which the boot
  loader puts into the kernel's 4 MB, apart from the kernel's own data (the tables, the buffers of the terminals and
  the variables the initialization writes, which are not in the byte memory here), is unchanged.
\<close>

theorem boot_spec:
  assumes "reads_mask c (dev E)" and "boot_sizes (tty (kern b))" and "screen_num (tty (kern b)) = 0"
    and "color_pick (scr (tty (kern b))) = 0"
    and "cstr (view (kern b)) (picture B) bs" and "length bs = 2000" and "unat (picture B - 0x400000) + 2001 \<le> 0x400000"
    and "unat (fs_addr - 0x400000) + image_size (view (kern b)) (init_filesys (view (kern b)) fs_addr) \<le> 0x400000"
  shows "\<exists>b' k'. boot_devices E B fs_addr b = Some b' \<and> k' = kern b'
    \<and> mouse_inv k' \<and> screen_num (tty k') = 0 \<and> mouse_x (tty k') = 79 \<and> mouse_y (tty k') = 24
    \<and> map (\<lambda>i. text_of i (tty k')) [0, 1, 2] = replicate 3 (replicate 2000 0x20, 0, 0)
    \<and> paging_inv (pt_area B) (pg k') \<and> fsys k' = init_filesys (view (kern b)) fs_addr
    \<and> {n. n < 16 \<and> \<not> masked c (trace (ports (clock k'))) n} = {0, 1, 2, 8, 12} \<and> intr_on (ports (clock k'))
    \<and> period (pit_run ch (trace (ports (clock k'))) 0) = 11931
    \<and> same_image (fsys k') (view (kern b)) (view k')"
proof -
  define hw where "hw = dev E"
  define k1 where "k1 = kernel_reset_scr (kern b)"
  define k2 where "k2 = on_ports (i8259_init hw) k1"
  define k3 where "k3 = k2\<lparr>pg := init_paging (pt_area B) (pg k2)\<rparr>"
  define k4 where "k4 = k3\<lparr>fsys := init_filesys (view k3) fs_addr\<rparr>"
  define k5 where "k5 = on_ports (init_keyboard hw) k4"
  define k6 where "k6 = k5\<lparr>clock := init_rtc hw (clock k5)\<rparr>"
  define p3 where "p3 = snd (init_mouse hw (tty k6, ports (clock k6)))"
  define k7 where "k7 = on_ports (\<lambda>_. p3) (k6\<lparr>tty := (tty k6)\<lparr>mouse_x := 79, mouse_y := 24\<rparr>\<rparr>)"
  define k8 where "k8 = kernel_reset_scr k7"
  have m: "init_mouse hw (tty k6, ports (clock k6)) = ((tty k6)\<lparr>mouse_x := 79, mouse_y := 24\<rparr>, p3)"
    by (simp add: p3_def init_mouse_def Let_def port_defs)
  have same8: "same_kernel (kern b) k8"
    unfolding k8_def k7_def k6_def k5_def k4_def k3_def k2_def k1_def
    by (intro same_kernel_trans [OF _ screen_only_kernel [OF reset_scr_kernel(1)]] same_kernel_trans [OF _ same_kernel_ports(1)]
        same_kernel_trans [OF _ same_kernel_ports(2)] same_kernel_trans [OF _ same_kernel_ports(3)]
        same_kernel_trans [OF _ same_kernel_ports(4)] same_kernel_trans [OF _ same_kernel_pg] same_kernel_refl)
  have t8: "tty k8 = (tty (kern b))\<lparr>mouse_x := 79, mouse_y := 24, scr := (scr (tty (kern b)))\<lparr>screen_x := 0, screen_y := 0\<rparr>\<rparr>"
    by (simp add: k8_def k7_def k6_def k5_def k4_def k3_def k2_def k1_def reset_scr_kernel on_ports_def)
  have "boot_sizes (tty k8)" "screen_num (tty k8) = 0" using assms(2,3) by (simp_all add: t8 boot_sizes_def)
  from terminals_start [OF this] obtain s1 where s1: "for_loop 0 3 (\<lambda>_. on_tty terminal_init) k8 = Some (k8\<lparr>tty := s1\<rparr>)"
    "terminal_ok s1" "screen_num s1 = 0" "mouse_x s1 = 79" "mouse_y s1 = 24" "color_pick (scr s1) = 0"
    "map (\<lambda>b. text_of b s1) [0, 1, 2] = replicate 3 (replicate 2000 0x20, 0, 0)"
    using assms(4) t8 by auto
  from first_buffer [OF s1(2,3,7)] obtain u where u:
    "Option.bind (screen_at 0 s1) (\<lambda>buffer. on_buffer (reset_buf buffer) s1) = Some (s1\<lparr>bf := u\<rparr>)"
    "terminal_ok (s1\<lparr>bf := u\<rparr>)" "map (\<lambda>b. text_of b (s1\<lparr>bf := u\<rparr>)) [0, 1, 2] = replicate 3 (replicate 2000 0x20, 0, 0)" by blast
  define k10 where "k10 = on_ports sti (k8\<lparr>tty := s1\<lparr>bf := u\<rparr>\<rparr>)"
  have same10: "same_kernel (kern b) k10"
    unfolding k10_def by (intro same_kernel_trans [OF same8] same_kernel_trans [OF _ same_kernel_ports(1)] same_kernel_ports(3))
  have pk: "in_kernel x" if "in_range (picture B) 2001 x" for x by (rule in_range_sub [OF assms(7) that])
  have pic: "cstr (view k10) (picture B) bs"
    by (rule cstr_cong [OF assms(5)]) (use same10 pk assms(6) in \<open>simp add: same_kernel_def\<close>)
  have "\<exists>m w. boot_screen_loop (picture B) 0 (view k10, scr (tty k10)) = Some (m, w) \<and> color_pick w = color_pick (scr (tty k10))
      \<and> (\<forall>x. \<not> in_range VIDEO 4000 x \<longrightarrow> m x = view k10 x)"
    by (rule boot_screen_ok [OF pic]) (use assms(6) pk kernel_not_video in auto)
  then obtain m w where bs: "boot_screen (picture B) (view k10, scr (tty k10)) = Some (m, w)" "color_pick w = 0"
    "\<forall>x. \<not> in_range VIDEO 4000 x \<longrightarrow> m x = view k10 x"
    using s1(6) by (auto simp: boot_screen_def k10_def on_ports_def)
  define k11 where "k11 = set_view m (k10\<lparr>tty := (tty k10)\<lparr>scr := w\<rparr>\<rparr>)"
  define k13 where "k13 = kernel_reset_scr (on_ports (play_tune hw mario) k11)"
  have p: "ports (clock k13) = play_tune hw mario (sti p3)"
    by (simp add: k13_def k11_def reset_scr_kernel on_ports_def k10_def k8_def k7_def)
  have c6: "ports (clock k6) = enable_irq hw 8 (program_rate hw 0x0E (init_keyboard hw (i8259_init hw (ports (clock (kern b))))))"
    by (simp add: k6_def k5_def k4_def k3_def k2_def k1_def reset_scr_kernel on_ports_def init_rtc_def)
  obtain p5 where p5: "init_pit hw 0 100 (ports (clock k13)) = Some p5" "pics_at c (trace p5) 0xF8 0xEE" "intr_on p5"
    "pit_run ch (trace p5) 0 = \<lparr>pit_mode = 3, access = 3, high_next = False, reload = 11931\<rparr>"
    using boot_ports [OF _ refl refl refl refl, of c hw] assms(1) unfolding hw_def [symmetric] p p3_def c6 by blast
  define k' where "k' = on_ports (\<lambda>_. p5) k13"
  have tty: "tty k' = (s1\<lparr>bf := u, scr := w\<lparr>screen_x := 0, screen_y := 0\<rparr>\<rparr>)"
    by (simp add: k'_def k13_def k11_def reset_scr_kernel on_ports_def k10_def)
  have same: "same_kernel (kern b) k'"
  proof -
    have "same_kernel k10 k11" using bs(3) by (simp add: k11_def same_kernel_def kernel_not_video)
    then show ?thesis
      unfolding k'_def k13_def
      by (intro same_kernel_trans [OF _ same_kernel_ports(1)] same_kernel_trans [OF _ screen_only_kernel [OF reset_scr_kernel(1)]]
          same_kernel_trans [OF same10])
  qed
  obtain e1 e2 e3 where e: "stack_idt B = (e1, e2, e3)" by (cases "stack_idt B") auto
  have ex: "\<exists>b'. boot_devices E B fs_addr b = Some b' \<and> kern b' = k'"
    using s1(1) u(1) bs(1) p5(1)
    unfolding boot_devices_def Let_def e split_conv hw_def [symmetric]
    by (simp add: k1_def [symmetric] k2_def [symmetric] k3_def [symmetric] k4_def [symmetric] k5_def [symmetric] k6_def [symmetric] m
        k7_def [symmetric] k8_def [symmetric] on_tty_def k10_def [symmetric] k11_def [symmetric] k13_def [symmetric] k'_def)
  have inv: "mouse_inv k'" "screen_num (tty k') = 0" "mouse_x (tty k') = 79" "mouse_y (tty k') = 24"
    "map (\<lambda>i. text_of i (tty k')) [0, 1, 2] = replicate 3 (replicate 2000 0x20, 0, 0)"
    using u(2,3) s1(3-5) bs(2) by (simp_all add: tty mouse_inv_def pointer_ok_def terminal_ok_def text_of_def)
  have pgk: "pg k' = init_paging (pt_area B) (pg (kern b))"
  proof -
    have "pg k3 = init_paging (pt_area B) (pg (kern b))" by (simp add: k3_def k2_def k1_def reset_scr_kernel on_ports_def)
    then have "pg k8 = init_paging (pt_area B) (pg (kern b))" by (simp add: k8_def k7_def k6_def k5_def k4_def reset_scr_kernel on_ports_def)
    then show ?thesis by (simp add: k'_def k13_def k11_def k10_def reset_scr_kernel on_ports_def)
  qed
  define img where "img = init_filesys (view (kern b)) fs_addr"
  have block: "boot_block img = fs_addr" by (simp add: img_def init_filesys_def Let_def)
  have in_img: "in_kernel x" if "in_image (view (kern b)) img x" for x
    by (rule in_range_sub [OF assms(8)]) (use that in \<open>simp add: img_def [symmetric] block\<close>)
  have fsk: "fsys k' = img"
  proof -
    have "same_kernel (kern b) k3"
      unfolding k3_def k2_def k1_def
      by (intro same_kernel_trans [OF _ same_kernel_pg] same_kernel_trans [OF _ same_kernel_ports(1)] screen_only_kernel reset_scr_kernel(1))
    then have "same_image img (view (kern b)) (view k3)" using in_img by (simp add: same_image_def same_kernel_def)
    then have "init_filesys (view k3) fs_addr = img" unfolding img_def by (rule init_filesys_image)
    moreover have "fsys k' = fsys k4"
      by (simp add: k'_def k13_def k11_def k10_def k8_def k7_def k6_def k5_def reset_scr_kernel on_ports_def)
    ultimately show ?thesis by (simp add: k4_def)
  qed
  have keep: "same_image (fsys k') (view (kern b)) (view k')"
    using same in_img by (simp add: same_image_def same_kernel_def fsk)
  have ck: "ports (clock k') = p5" by (simp add: k'_def on_ports_def)
  have "paging_inv (pt_area B) (pg k')" by (simp only: pgk init_paging_inv)
  moreover have "{n. n < 16 \<and> \<not> masked c (trace (ports (clock k'))) n} = {0, 1, 2, 8, 12}" "intr_on (ports (clock k'))"
    by (simp_all only: ck open_lines [OF p5(2)] p5(3))
  moreover have "period (pit_run ch (trace (ports (clock k'))) 0) = 11931" by (simp add: ck p5(4) period_def)
  ultimately show ?thesis using ex inv fsk [unfolded img_def] keep by blast
qed

text \<open>A kernel as the boot loader leaves it, with the picture at \<open>0x410000\<close>.\<close>

definition sample_boot :: boot_state where
  "sample_boot = \<lparr>kern = set_view (store_bytes (\<lambda>_. 0) 0x410000 (replicate 2000 0x20 @ [0]))
       (sample_kernel\<lparr>tty := sample_terminal\<lparr>screens := [None, None, None]\<rparr>\<rparr>),
     itab = undefined, idtr = False, ldt_desc = undefined, tss_desc = undefined, ldt_selector = 0, ldtr = 0, tr = 0\<rparr>"

definition sample_boot_env :: boot_env where
  "sample_boot_env = \<lparr>ldt_at = 0x403000, ldt_size = 31, tss_at = 0x403100, tss_size = 104, stack_seg = undefined,
     stack_idt = undefined, handlers = (\<lambda>_. 0x400000), pt_area = 0x10000, status_lit = 0x411000, picture = 0x410000,
     shell_name = 0x7FFF00, stack_fs = 0\<rparr>"

theorem boot_spec_witness:
  "\<exists>b'. boot_devices (sample_env\<lparr>dev := sample_dev\<rparr>) sample_boot_env 0x420000 sample_boot = Some b'
     \<and> mouse_inv (kern b') \<and> \<not> masked sample_pic (trace (ports (clock (kern b')))) 12"
proof -
  have sizes: "boot_sizes (tty (kern sample_boot))"
    by (simp add: sample_boot_def boot_sizes_def sample_terminal_nodes) (simp add: sample_terminal_def sample_nodes_def)
  have pic: "cstr (view (kern sample_boot)) (picture sample_boot_env) (replicate 2000 0x20)"
    by (simp add: sample_boot_def sample_boot_env_def cstr_store_bytes)
  have "reads_mask sample_pic (dev (sample_env\<lparr>dev := sample_dev\<rparr>))" using sample_reads_mask by simp
  moreover have "view (kern sample_boot) x = 0" if "\<not> in_range 0x410000 2001 x" for x
    using that by (simp add: sample_boot_def store_bytes_apply)
  then have size: "image_size (view (kern sample_boot)) (init_filesys (view (kern sample_boot)) 0x420000) = 4096"
    by (simp add: image_size_def num_inodes_def num_data_blocks_def init_filesys_def load32_def in_range_def Let_def)
  ultimately obtain b' where
    "boot_devices (sample_env\<lparr>dev := sample_dev\<rparr>) sample_boot_env 0x420000 sample_boot = Some b'" "mouse_inv (kern b')"
    "{n. n < 16 \<and> \<not> masked sample_pic (trace (ports (clock (kern b')))) n} = {0, 1, 2, 8, 12}"
    using boot_spec [OF _ sizes _ _ pic, of sample_pic "sample_env\<lparr>dev := sample_dev\<rparr>" "0x420000"] size
    by (auto simp: sample_boot_def sample_boot_env_def sample_terminal_def)
  moreover from this(3) have "12 \<in> {n. n < 16 \<and> \<not> masked sample_pic (trace (ports (clock (kern b')))) n}" by simp
  ultimately show ?thesis by auto
qed

text \<open>
  C35. The descriptors of the local descriptor table and of the task state segment say what they should,
  whatever the stack held: base address, limit in bytes, privilege 0, present, system segments of the
  types 2 and 9; and the registers, the stack segment and the stack pointer for entering the kernel are
  loaded with the right selectors.
\<close>

theorem descriptors_spec:
  assumes "ldt_size B < 0x100000" and "tss_size B < 0x100000" and b_def: "b' = boot_descriptors B b"
  shows "seg_base (ldt_desc b') = ldt_at B \<and> seg_limit (ldt_desc b') = ldt_size B \<and> seg_type (ldt_desc b') = 2
    \<and> seg_base (tss_desc b') = tss_at B \<and> seg_limit (tss_desc b') = tss_size B \<and> seg_type (tss_desc b') = 9
    \<and> (\<forall>d \<in> {ldt_desc b', tss_desc b'}. seg_present d = 1 \<and> seg_dpl d = 0 \<and> sys d = 0 \<and> granularity d = 0)
    \<and> ldtr b' = 0x38 \<and> tr b' = 0x30 \<and> ldt_selector b' = 0x38 \<and> tss_ss0 (kern b') = 0x18 \<and> tss_esp0 (kern b') = 0x800000"
  using descriptor_fields [OF assms(1)] descriptor_fields [OF assms(2)]
  by (simp add: b_def boot_descriptors_def make_ldt_desc_def make_tss_desc_def SET_TSS_PARAMS_def) (simp add: SET_LDT_PARAMS_def)

theorem descriptors_spec_witness:
  "seg_base (tss_desc (boot_descriptors sample_boot_env sample_boot)) = 0x403100
   \<and> seg_limit (tss_desc (boot_descriptors sample_boot_env sample_boot)) = 104"
  using descriptors_spec [OF _ _ refl, of sample_boot_env sample_boot] by (simp add: sample_boot_env_def)

end
