(* ===== verification/UserSupport.thy ===== *)
theory UserSupport
  imports LibString "HOL-Library.Monad_Syntax"
begin

text \<open>
  The run-time library of the user programs, \<open>ece391support.c\<close> (the copy in \<open>fish/\<close> has the same
  string routines), and the system-call wrappers of \<open>ece391syscall.S\<close>. The string routines work on
  the flat memory of \<open>LibMem\<close>; the lemmas relate them to the kernel's own routines and to the
  strings they read.

  A program runs on an operating system \<open>os\<close>: what \<open>INT 0x80\<close> does to the state for the four
  registers, and the program's memory inside that state. \<open>None\<close> is a call that does not come back.
\<close>

section \<open>Strings\<close>

partial_function (option) ece391_strlen_loop :: "mem \<Rightarrow> u32 \<Rightarrow> u32 \<Rightarrow> u32 option" where
  "ece391_strlen_loop m s len = (if m s \<noteq> 0 then ece391_strlen_loop m (s + 1) (len + 1) else Some len)"

definition ece391_strlen :: "mem \<Rightarrow> u32 \<Rightarrow> u32 option" where
  "ece391_strlen m s = ece391_strlen_loop m s 0"

partial_function (option) ece391_strcpy :: "mem \<Rightarrow> u32 \<Rightarrow> u32 \<Rightarrow> mem option" where
  "ece391_strcpy m dst src =
     (let c = m src; m = m(dst := c) in if c \<noteq> 0 then ece391_strcpy m (dst + 1) (src + 1) else Some m)"

text \<open>The bytes are \<open>uint8_t\<close>: the difference is taken after zero extension.\<close>

partial_function (option) ece391_strcmp :: "mem \<Rightarrow> u32 \<Rightarrow> u32 \<Rightarrow> u32 option" where
  "ece391_strcmp m s1 s2 =
     (if m s1 = m s2 then (if m s1 = 0 then Some 0 else ece391_strcmp m (s1 + 1) (s2 + 1))
      else Some (ucast (m s1) - ucast (m s2)))"

function ece391_strncmp_loop :: "mem \<Rightarrow> u32 \<Rightarrow> u32 \<Rightarrow> u32 \<Rightarrow> u32" where
  "ece391_strncmp_loop m s1 s2 n =
     (if m s1 = m s2
      then (if m s1 = 0 then 0
            else (let n = n - 1 in if n = 0 then 0 else ece391_strncmp_loop m (s1 + 1) (s2 + 1) n))
      else ucast (m s1) - ucast (m s2))"
  by pat_completeness auto
termination
proof (relation "measure (\<lambda>(m, s1, s2, n). unat (n - 1))")
  fix m :: mem and s1 s2 n x :: u32
  assume "x = n - 1" and "x \<noteq> 0"
  then show "((m, s1 + 1, s2 + 1, x), m, s1, s2, n) \<in> measure (\<lambda>(m, s1, s2, n). unat (n - 1))"
    using measure_unat [of "n - 1"] by simp
qed simp

declare ece391_strncmp_loop.simps [simp del]

definition ece391_strncmp :: "mem \<Rightarrow> u32 \<Rightarrow> u32 \<Rightarrow> u32 \<Rightarrow> u32" where
  "ece391_strncmp m s1 s2 n = (if n = 0 then 0 else ece391_strncmp_loop m s1 s2 n)"

partial_function (option) ece391_strrev_loop :: "mem \<Rightarrow> u32 \<Rightarrow> u32 \<Rightarrow> u32 \<Rightarrow> mem option" where
  "ece391_strrev_loop m s b e =
     (if b <s e
      then (let tmp = m (s + e); m = m(s + e := m (s + b)); m = m(s + b := tmp)
            in ece391_strrev_loop m s (b + 1) (e - 1))
      else Some m)"

definition ece391_strrev :: "mem \<Rightarrow> u32 \<Rightarrow> mem option" where
  "ece391_strrev m s = do {
     n \<leftarrow> ece391_strlen m s;
     let e = n - 1;
     if e \<le>s 0 then Some m else ece391_strrev_loop m s 0 e
   }"

text \<open>The digit table is the kernel's; \<open>None\<close> is a divide error or a digit outside of the table.\<close>

partial_function (option) ece391_itoa_loop :: "mem \<Rightarrow> u32 \<Rightarrow> u32 \<Rightarrow> u32 \<Rightarrow> (mem \<times> u32) option" where
  "ece391_itoa_loop m newbuf newval radix =
     (if newval > 0
      then if radix = 0 then None
           else (case lookup_digit (newval mod radix) of
                   None \<Rightarrow> None
                 | Some ch \<Rightarrow> ece391_itoa_loop (m(newbuf := ch)) (newbuf + 1) (newval div radix) radix)
      else Some (m, newbuf))"

definition ece391_itoa :: "mem \<Rightarrow> u32 \<Rightarrow> u32 \<Rightarrow> u32 \<Rightarrow> mem option" where
  "ece391_itoa m value buf radix =
     (if value = 0 then Some (m(buf := 0x30, buf + 1 := 0))
      else do {
        (m, newbuf) \<leftarrow> ece391_itoa_loop m buf value radix;
        ece391_strrev (m(newbuf := 0)) buf
      })"

section \<open>The routines against the kernel's\<close>

lemma option_eqI: "(\<And>r. a = Some r \<Longrightarrow> b = Some r) \<Longrightarrow> (\<And>r. b = Some r \<Longrightarrow> a = Some r) \<Longrightarrow> a = b"
  by (cases a; cases b) auto

lemma ece391_strlen_loop_eq: "ece391_strlen_loop m p len = strlen_loop m (p - len) len"
proof (rule option_eqI)
  fix r
  show "strlen_loop m (p - len) len = Some r" if "ece391_strlen_loop m p len = Some r"
    using that
  proof (induction rule: ece391_strlen_loop.raw_induct [rotated, consumes 1, case_names step])
    case (step f m p len r)
    then show ?case using step(1) [of m "p + 1" "len + 1" r]
      by (subst strlen_loop.simps) (auto split: if_splits)
  qed
  have "strlen_loop m s len = Some r \<Longrightarrow> ece391_strlen_loop m (s + len) len = Some r" for s
  proof (induction rule: strlen_loop.raw_induct [rotated, consumes 1, case_names step])
    case (step f m s len r)
    then show ?case using step(1) [of m s "len + 1" r]
      by (subst ece391_strlen_loop.simps) (auto simp: add.assoc split: if_splits)
  qed
  from this [of "p - len"]
  show "ece391_strlen_loop m p len = Some r" if "strlen_loop m (p - len) len = Some r"
    using that by simp
qed

lemma ece391_strlen_eq: "ece391_strlen m s = strlen m s"
  using ece391_strlen_loop_eq [of m s 0] by (simp add: ece391_strlen_def strlen_def)

lemma ece391_strrev_loop_eq: "ece391_strrev_loop m s b e = strrev_loop m s b e"
proof (rule option_eqI)
  fix r
  show "strrev_loop m s b e = Some r" if "ece391_strrev_loop m s b e = Some r"
    using that
  proof (induction rule: ece391_strrev_loop.raw_induct [rotated, consumes 1, case_names step])
    case (step f m s b e r)
    then show ?case by (subst strrev_loop.simps) (auto simp: Let_def split: if_splits)
  qed
  show "ece391_strrev_loop m s b e = Some r" if "strrev_loop m s b e = Some r"
    using that
  proof (induction rule: strrev_loop.raw_induct [rotated, consumes 1, case_names step])
    case (step f m s b e r)
    then show ?case by (subst ece391_strrev_loop.simps) (auto simp: Let_def split: if_splits)
  qed
qed

lemma ece391_strrev_eq: "ece391_strrev m s = strrev m s"
proof -
  have "strrev_loop m s 0 (n - 1) = Some m" if "n - 1 \<le>s 0" for n
    using that by (subst strrev_loop.simps) (auto simp: word_sless_alt word_sle_eq)
  then show ?thesis
    by (auto simp: ece391_strrev_def strrev_def ece391_strlen_eq ece391_strrev_loop_eq Let_def split: option.split)
qed

lemma ece391_itoa_loop_eq: "ece391_itoa_loop m newbuf newval radix = itoa_loop m newbuf newval radix"
proof (rule option_eqI)
  fix r
  show "itoa_loop m newbuf newval radix = Some r" if "ece391_itoa_loop m newbuf newval radix = Some r"
    using that
  proof (induction rule: ece391_itoa_loop.raw_induct [rotated, consumes 1, case_names step])
    case (step f m newbuf newval radix r)
    then show ?case by (subst itoa_loop.simps) (auto split: if_splits option.splits)
  qed
  show "ece391_itoa_loop m newbuf newval radix = Some r" if "itoa_loop m newbuf newval radix = Some r"
    using that
  proof (induction rule: itoa_loop.raw_induct [rotated, consumes 1, case_names step])
    case (step f m newbuf newval radix r)
    then show ?case by (subst ece391_itoa_loop.simps) (auto split: if_splits option.splits)
  qed
qed

lemma ece391_itoa_eq: "ece391_itoa m v buf r = itoa m v buf r"
  by (simp add: ece391_itoa_def itoa_def ece391_itoa_loop_eq ece391_strrev_eq split: option.split prod.split)

lemma ece391_strcpy_loop_eq: "ece391_strcpy m p q = strcpy_loop m (p - i) (q - i) i"
proof (rule option_eqI)
  fix r
  show "strcpy_loop m (p - i) (q - i) i = Some r" if "ece391_strcpy m p q = Some r"
    using that
  proof (induction arbitrary: i rule: ece391_strcpy.raw_induct [rotated, consumes 1, case_names step])
    case (step f m p q r)
    then show ?case using step(1) [of "m(p := m q)" "p + 1" "q + 1" r "i + 1"]
      by (subst strcpy_loop.simps) (auto simp: Let_def fun_upd_def split: if_splits)
  qed
  have "strcpy_loop m d s i = Some r \<Longrightarrow> ece391_strcpy m (d + i) (s + i) = Some r" for d s
  proof (induction rule: strcpy_loop.raw_induct [rotated, consumes 1, case_names step])
    case (step f m d s i r)
    then show ?case using step(1) [of "m(d + i := m (s + i))" d s "i + 1" r]
      by (subst ece391_strcpy.simps) (auto simp: Let_def add.assoc fun_upd_def split: if_splits)
  qed
  from this [of "p - i" "q - i"]
  show "ece391_strcpy m p q = Some r" if "strcpy_loop m (p - i) (q - i) i = Some r"
    using that by simp
qed

lemma ece391_itoa_numeral:
  "2 \<le> unat r \<Longrightarrow> unat r \<le> 36 \<Longrightarrow>
   ece391_itoa m v buf r = Some (store_bytes m buf (numeral_bytes (unat r) (unat v) @ [0]))"
  unfolding ece391_itoa_eq by (rule itoa_numeral)

section \<open>Comparing strings\<close>

text \<open>What \<open>ece391_strcmp\<close> computes, on the characters.\<close>

fun ucmp :: "u8 list \<Rightarrow> u8 list \<Rightarrow> u32" where
  "ucmp [] [] = 0"
| "ucmp [] (b # bs) = - ucast b"
| "ucmp (a # as) [] = ucast a"
| "ucmp (a # as) (b # bs) = (if a = b then ucmp as bs else ucast a - ucast b)"

lemma cstr_Nil: "cstr m s [] \<longleftrightarrow> m s = 0"
  by (simp add: cstr_def)

lemma cstr_Cons: "cstr m s (a # as) \<Longrightarrow> m s = a \<and> a \<noteq> 0 \<and> cstr m (s + 1) as"
  by (auto simp: cstr_def load_bytes_Suc add.assoc)

lemma ece391_strcmp_ucmp: "cstr m s1 as \<Longrightarrow> cstr m s2 bs \<Longrightarrow> ece391_strcmp m s1 s2 = Some (ucmp as bs)"
proof (induction as bs arbitrary: s1 s2 rule: ucmp.induct)
  case (1 s1 s2)
  then show ?case by (subst ece391_strcmp.simps) (simp add: cstr_Nil)
next
  case (2 b bs s1 s2)
  then have "m s1 = 0" "m s2 = b" "b \<noteq> 0" using cstr_Cons [of m s2 b bs] by (simp_all add: cstr_Nil)
  then show ?case by (subst ece391_strcmp.simps) auto
next
  case (3 a as s1 s2)
  then have "m s2 = 0" "m s1 = a" "a \<noteq> 0" using cstr_Cons [of m s1 a as] by (simp_all add: cstr_Nil)
  then show ?case by (subst ece391_strcmp.simps) auto
next
  case (4 a as b bs s1 s2)
  then show ?case using cstr_Cons [of m s1 a as] cstr_Cons [of m s2 b bs]
    by (subst ece391_strcmp.simps) auto
qed

lemma sint_byte_diff: "sint (ucast (a :: u8) - ucast (b :: u8) :: u32) = int (unat a) - int (unat b)"
proof -
  have "(ucast a - ucast b :: u32) = of_int (int (unat a) - int (unat b))"
    by (simp add: of_nat_unat unsigned_of_nat)
  moreover have "unat a < 256" "unat b < 256" using unsigned_less [of a, where 'a = nat] unsigned_less [of b, where 'a = nat] by simp_all
  ultimately show ?thesis by (simp only: sint_of_int32)
qed

lemma byte_diff_zero: "(ucast (a :: u8) - ucast (b :: u8) :: u32) = 0 \<longleftrightarrow> a = b"
proof
  assume "(ucast a - ucast b :: u32) = 0"
  then have "int (unat a) - int (unat b) = 0" by (simp only: sint_byte_diff [symmetric] signed_0)
  then have "unat a = unat b" by linarith
  then show "a = b" by (simp only: word_unat_eq_iff)
qed simp

lemma byte_ucast_eq [simp]: "(ucast (a :: u8) :: u32) = ucast (b :: u8) \<longleftrightarrow> a = b"
  using byte_diff_zero [of a b] by simp

lemma byte_diff_neg: "(ucast (a :: u8) - ucast (b :: u8) :: u32) <s 0 \<longleftrightarrow> a < b"
proof -
  have "(ucast a - ucast b :: u32) <s 0 \<longleftrightarrow> int (unat a) - int (unat b) < 0"
    by (simp only: word_sless_alt sint_byte_diff signed_0)
  then show ?thesis by (simp only: word_less_nat_alt) linarith
qed

lemma ucmp_sign:
  "0 \<notin> set as \<Longrightarrow> 0 \<notin> set bs \<Longrightarrow>
   (ucmp as bs = 0 \<longleftrightarrow> as = bs) \<and> (ucmp as bs <s 0 \<longleftrightarrow> ord_class.lexordp as bs)"
proof (induction as bs rule: ucmp.induct)
  case (2 b bs)
  then show ?case using byte_diff_zero [of 0 b] byte_diff_neg [of 0 b] by (auto simp: word_gt_0)
next
  case (3 a as)
  then show ?case using byte_diff_zero [of a 0] byte_diff_neg [of a 0] by auto
next
  case (4 a as b bs)
  then show ?case by (auto simp: byte_diff_zero byte_diff_neg)
qed simp

lemma ece391_strncmp_prefix:
  assumes "cstr m s ps" and "ps \<noteq> []"
  shows "ece391_strncmp m p s (of_nat (length ps)) = 0 \<longleftrightarrow> load_bytes m p (length ps) = ps"
proof -
  have "cstr m s ps \<Longrightarrow> ps \<noteq> [] \<Longrightarrow>
    ece391_strncmp_loop m p s (of_nat (length ps)) = 0 \<longleftrightarrow> load_bytes m p (length ps) = ps" for p s ps
  proof (induction ps arbitrary: p s)
    case (Cons c cs)
    have c: "m s = c" "c \<noteq> 0" "cstr m (s + 1) cs" using cstr_Cons [OF Cons.prems(1)] by auto
    have len: "length cs < 4294967295" using cstr_length [OF Cons.prems(1)] by simp
    have n: "(of_nat (length cs) :: u32) = 0 \<longleftrightarrow> cs = []"
      using len of_nat_eq32 [of "length cs" 0] by simp
    show ?case
    proof (cases "m p = c")
      case True
      then show ?thesis using c n Cons.IH [OF c(3), of "p + 1"]
        by (subst ece391_strncmp_loop.simps) (auto simp: load_bytes_Suc Let_def)
    next
      case False
      then show ?thesis using c
        by (subst ece391_strncmp_loop.simps) (auto simp: load_bytes_Suc byte_diff_zero)
    qed
  qed simp
  moreover have "(of_nat (length ps) :: u32) \<noteq> 0"
    using assms cstr_length [OF assms(1)] of_nat_eq32 [of "length ps" 0] by simp
  ultimately show ?thesis using assms by (simp add: ece391_strncmp_def)
qed

section \<open>Properties\<close>

text \<open>
  C38. The user programs' library is the kernel's: \<open>ece391_strlen\<close>, \<open>ece391_strcpy\<close>, \<open>ece391_strrev\<close> and
  \<open>ece391_itoa\<close> have the same result and effect as \<open>strlen\<close>, \<open>strcpy\<close>, \<open>strrev\<close> and \<open>itoa\<close> of
  \<open>lib.c\<close> for all arguments, overlapping buffers, missing terminators and bad radices included, although they are written with
  pointers where the kernel uses indices.
\<close>

theorem user_library_equiv:
  "ece391_strlen m s = strlen m s \<and> ece391_strcpy m d s = strcpy m d s \<and> ece391_strrev m s = strrev m s
   \<and> ece391_itoa m v buf r = itoa m v buf r"
  using ece391_strcpy_loop_eq [of m d s 0]
  by (simp add: ece391_strlen_eq ece391_strrev_eq ece391_itoa_eq strcpy_def)

text \<open>
  \<open>ece391_strcmp\<close> of two strings returns, and the sign of its result is their order: zero when
  they are the same, negative when the first comes before the second in the order of unsigned bytes.
\<close>

lemma strcmp_order:
  assumes "cstr m s1 as" and "cstr m s2 bs"
  shows "\<exists>r. ece391_strcmp m s1 s2 = Some r \<and> (r = 0 \<longleftrightarrow> as = bs) \<and> (r <s 0 \<longleftrightarrow> ord_class.lexordp as bs)"
  using ece391_strcmp_ucmp [OF assms] ucmp_sign [of as bs] assms by (simp add: cstr_def)

end
