(* ===== verification/UserPrograms.thy ===== *)
theory UserPrograms
  imports UserSupport
begin

text \<open>
  The user programs of \<open>syscalls/\<close>: \<open>cat\<close>, \<open>ls\<close>, \<open>grep\<close>, \<open>shell\<close>, \<open>hello\<close>, \<open>counter\<close>, \<open>testprint\<close>,
  \<open>pingpong\<close> and the error tests \<open>syserr\<close>. A program is a function of the operating system it runs on,
  the addresses of its string literals and local arrays, and the state; its value is the state in
  which \<open>main\<close> returns and the value returned.
\<close>

section \<open>The operating system as a program sees it\<close>

text \<open>
  The wrappers load \<open>ECX\<close> and \<open>EDX\<close> from the stack whether or not the caller passed arguments for
  them: \<open>stale_ecx\<close> and \<open>stale_edx\<close> are what is there otherwise.
\<close>

record 's os =
  int_80 :: "u32 \<Rightarrow> u32 \<Rightarrow> u32 \<Rightarrow> u32 \<Rightarrow> 's \<Rightarrow> ('s \<times> u32) option"
  memory :: "'s \<Rightarrow> mem"
  set_memory :: "mem \<Rightarrow> 's \<Rightarrow> 's"
  stale_ecx :: u32
  stale_edx :: u32

definition ece391_halt :: "'s os \<Rightarrow> u32 \<Rightarrow> 's \<Rightarrow> ('s \<times> u32) option" where
  "ece391_halt os st s = int_80 os 1 st (stale_ecx os) (stale_edx os) s"

definition ece391_execute :: "'s os \<Rightarrow> u32 \<Rightarrow> 's \<Rightarrow> ('s \<times> u32) option" where
  "ece391_execute os command s = int_80 os 2 command (stale_ecx os) (stale_edx os) s"

definition ece391_read :: "'s os \<Rightarrow> u32 \<Rightarrow> u32 \<Rightarrow> u32 \<Rightarrow> 's \<Rightarrow> ('s \<times> u32) option" where
  "ece391_read os fd buf nbytes s = int_80 os 3 fd buf nbytes s"

definition ece391_write :: "'s os \<Rightarrow> u32 \<Rightarrow> u32 \<Rightarrow> u32 \<Rightarrow> 's \<Rightarrow> ('s \<times> u32) option" where
  "ece391_write os fd buf nbytes s = int_80 os 4 fd buf nbytes s"

definition ece391_open :: "'s os \<Rightarrow> u32 \<Rightarrow> 's \<Rightarrow> ('s \<times> u32) option" where
  "ece391_open os filename s = int_80 os 5 filename (stale_ecx os) (stale_edx os) s"

definition ece391_close :: "'s os \<Rightarrow> u32 \<Rightarrow> 's \<Rightarrow> ('s \<times> u32) option" where
  "ece391_close os fd s = int_80 os 6 fd (stale_ecx os) (stale_edx os) s"

definition ece391_getargs :: "'s os \<Rightarrow> u32 \<Rightarrow> u32 \<Rightarrow> 's \<Rightarrow> ('s \<times> u32) option" where
  "ece391_getargs os buf nbytes s = int_80 os 7 buf nbytes (stale_edx os) s"

definition ece391_vidmap :: "'s os \<Rightarrow> u32 \<Rightarrow> 's \<Rightarrow> ('s \<times> u32) option" where
  "ece391_vidmap os screen_start s = int_80 os 8 screen_start (stale_ecx os) (stale_edx os) s"

text \<open>\<open>_start\<close>: \<open>main\<close>, then \<open>halt\<close> with its value; the two words pushed before it are zero.\<close>

definition start_program :: "'s os \<Rightarrow> ('s \<Rightarrow> ('s \<times> u32) option) \<Rightarrow> 's \<Rightarrow> ('s \<times> u32) option" where
  "start_program os main s = do { (s, eax) \<leftarrow> main s; int_80 os 1 eax 0 0 s }"

definition poke :: "'s os \<Rightarrow> u32 \<Rightarrow> u8 \<Rightarrow> 's \<Rightarrow> 's" where
  "poke os a b s = set_memory os ((memory os s)(a := b)) s"

definition fdputs :: "'s os \<Rightarrow> u32 \<Rightarrow> u32 \<Rightarrow> 's \<Rightarrow> 's option" where
  "fdputs os fd p s = do { n \<leftarrow> ece391_strlen (memory os s) p; (s, _) \<leftarrow> ece391_write os fd p n s; Some s }"

text \<open>The address of a literal is that of its characters: \<open>lit\<close>. \<open>line t\<close> ends in a newline.\<close>

type_synonym literals = "u8 list \<Rightarrow> u32"

definition line :: "string \<Rightarrow> u8 list" where
  "line t = ascii t @ [0x0A]"

abbreviation (input) puts_lit :: "'s os \<Rightarrow> literals \<Rightarrow> u8 list \<Rightarrow> 's \<Rightarrow> 's option" where
  "puts_lit os lit t \<equiv> fdputs os 1 (lit t)"

section \<open>hello, testprint and counter\<close>

definition hello :: "'s os \<Rightarrow> literals \<Rightarrow> u32 \<Rightarrow> 's \<Rightarrow> ('s \<times> u32) option" where
  "hello os lit buf s = do {
     s \<leftarrow> puts_lit os lit (ascii ''Hi, what's your name? '') s;
     (s, cnt) \<leftarrow> ece391_read os 0 buf 1023 s;
     if cnt = - 1 then do { s \<leftarrow> puts_lit os lit (line ''Can't read name from keyboard.'') s; Some (s, 3) }
     else do {
       let s = poke os (buf + cnt) 0 s;
       s \<leftarrow> puts_lit os lit (ascii ''Hello, '') s;
       s \<leftarrow> fdputs os 1 buf s;
       Some (s, 0)
     }
   }"

definition testprint :: "'s os \<Rightarrow> literals \<Rightarrow> 's \<Rightarrow> ('s \<times> u32) option" where
  "testprint os lit s = do {
     s \<leftarrow> puts_lit os lit (line ''Hello, if this ran, the program was correct. Yay!'') s;
     Some (s, 0)
   }"

definition counter_max :: "u8 \<Rightarrow> u32" where
  "counter_max c = (if c = 0x30 then 100 else if c = 0x31 then 10000 else if c = 0x32 then 100000 else 0)"

definition count_line :: "'s os \<Rightarrow> literals \<Rightarrow> u32 \<Rightarrow> nat \<Rightarrow> 's \<Rightarrow> 's option" where
  "count_line os lit buf i s = do {
     m \<leftarrow> ece391_itoa (memory os s) (of_nat i + 1) buf 10;
     s \<leftarrow> fdputs os 1 buf (set_memory os m s);
     puts_lit os lit [0x0A] s
   }"

definition counter :: "'s os \<Rightarrow> literals \<Rightarrow> u32 \<Rightarrow> 's \<Rightarrow> ('s \<times> u32) option" where
  "counter os lit buf s = do {
     s \<leftarrow> puts_lit os lit (line ''Enter the Test Number: (0): 100, (1): 10000, (2): 100000'') s;
     (s, cnt) \<leftarrow> ece391_read os 0 buf 1023 s;
     if cnt = - 1 then do { s \<leftarrow> puts_lit os lit (line ''Can't read the number from keyboard.'') s; Some (s, 3) }
     else do {
       let s = poke os (buf + cnt) 0 s;
       n \<leftarrow> ece391_strlen (memory os s) buf;
       let c = memory os s buf;
       if n > 1 \<or> n = 1 \<and> (c < 0x30 \<or> c > 0x32)
       then do { s \<leftarrow> puts_lit os lit (line ''Wrong Choice!'') s; Some (s, 0) }
       else do {
         s \<leftarrow> for_loop 0 (unat (counter_max c)) (count_line os lit buf) s;
         Some (s, 0)
       }
     }
   }"

section \<open>cat and ls\<close>

partial_function (option) cat_loop :: "'s os \<Rightarrow> literals \<Rightarrow> u32 \<Rightarrow> u32 \<Rightarrow> 's \<Rightarrow> ('s \<times> u32) option" where
  "cat_loop os lit buf fd s = do {
     (s, cnt) \<leftarrow> ece391_read os fd buf 1024 s;
     if cnt = 0 then Some (s, 0)
     else if cnt = - 1 then do { s \<leftarrow> puts_lit os lit (line ''file read failed'') s; Some (s, 3) }
     else do {
       (s, r) \<leftarrow> ece391_write os 1 buf cnt s;
       if r = - 1 then Some (s, 3) else cat_loop os lit buf fd s
     }
   }"

definition cat :: "'s os \<Rightarrow> literals \<Rightarrow> u32 \<Rightarrow> 's \<Rightarrow> ('s \<times> u32) option" where
  "cat os lit buf s = do {
     (s, r) \<leftarrow> ece391_getargs os buf 1024 s;
     if r \<noteq> 0 then do { s \<leftarrow> puts_lit os lit (line ''could not read arguments'') s; Some (s, 3) }
     else do {
       (s, fd) \<leftarrow> ece391_open os buf s;
       if fd = - 1 then do { s \<leftarrow> puts_lit os lit (line ''file not found'') s; Some (s, 2) }
       else cat_loop os lit buf fd s
     }
   }"

partial_function (option) ls_loop :: "'s os \<Rightarrow> literals \<Rightarrow> u32 \<Rightarrow> u32 \<Rightarrow> 's \<Rightarrow> ('s \<times> u32) option" where
  "ls_loop os lit buf fd s = do {
     (s, cnt) \<leftarrow> ece391_read os fd buf 32 s;
     if cnt = 0 then Some (s, 0)
     else if cnt = - 1 then do { s \<leftarrow> puts_lit os lit (line ''directory entry read failed'') s; Some (s, 3) }
     else do {
       let s = poke os (buf + cnt) 0x0A s;
       (s, r) \<leftarrow> ece391_write os 1 buf (cnt + 1) s;
       if r = - 1 then Some (s, 3) else ls_loop os lit buf fd s
     }
   }"

definition ls :: "'s os \<Rightarrow> literals \<Rightarrow> u32 \<Rightarrow> 's \<Rightarrow> ('s \<times> u32) option" where
  "ls os lit buf s = do {
     (s, fd) \<leftarrow> ece391_open os (lit (ascii ''.'')) s;
     if fd = - 1 then do { s \<leftarrow> puts_lit os lit (line ''directory open failed'') s; Some (s, 2) }
     else ls_loop os lit buf fd s
   }"

section \<open>grep\<close>

text \<open>The end of the line that starts at \<open>e\<close>, or \<open>lst\<close>, the variable \<open>last\<close> of the code.\<close>

function line_end_from :: "mem \<Rightarrow> u32 \<Rightarrow> u32 \<Rightarrow> u32 \<Rightarrow> u32" where
  "line_end_from m data lst e =
     (if e <s lst \<and> m (data + e) \<noteq> 0x0A then line_end_from m data lst (e + 1) else e)"
  by pat_completeness auto
termination
  by (relation "measure (\<lambda>(m, data, lst, e). nat (sint lst - sint e))") (auto dest: sint_Suc_sless)

text \<open>
  The \<open>for\<close> over \<open>check\<close>: whether a position before \<open>line_end\<close> matches. In \<open>s[0] == data[check]\<close> both
  sides are promoted to \<open>int\<close>: \<open>s\<close> points to \<open>char\<close>, which is signed, \<open>data\<close> has unsigned bytes.
\<close>

function line_matches :: "mem \<Rightarrow> u32 \<Rightarrow> u32 \<Rightarrow> u32 \<Rightarrow> u32 \<Rightarrow> u32 \<Rightarrow> bool" where
  "line_matches m data s s_len line_end check =
     (if check <s line_end
      then (if scast (m s) = (ucast (m (data + check)) :: u32) \<and> ece391_strncmp m (data + check) s s_len = 0 then True
            else line_matches m data s s_len line_end (check + 1))
      else False)"
  by pat_completeness auto
termination
  by (relation "measure (\<lambda>(m, data, s, s_len, line_end, check). nat (sint line_end - sint check))")
    (simp_all add: sint_Suc_sless)

declare line_end_from.simps [simp del] line_matches.simps [simp del]

definition print_match :: "'s os \<Rightarrow> literals \<Rightarrow> u32 \<Rightarrow> u32 \<Rightarrow> 's \<Rightarrow> 's option" where
  "print_match os lit fname at w = do {
     w \<leftarrow> fdputs os 1 fname w;
     w \<leftarrow> puts_lit os lit (ascii '':'') w;
     w \<leftarrow> fdputs os 1 at w;
     puts_lit os lit [0x0A] w
   }"

text \<open>The inner \<open>while (1)\<close>; the result has the new \<open>last\<close>, \<open>lst\<close> here.\<close>

partial_function (option) grep_lines ::
  "'s os \<Rightarrow> literals \<Rightarrow> u32 \<Rightarrow> u32 \<Rightarrow> u32 \<Rightarrow> u32 \<Rightarrow> u32 \<Rightarrow> u32 \<Rightarrow> u32 \<Rightarrow> 's \<Rightarrow> ('s \<times> u32) option" where
  "grep_lines os lit s fname data s_len cnt lst line_start w =
     (let line_end = line_end_from (memory os w) data lst line_start
      in if memory os w (data + line_end) \<noteq> 0x0A \<and> cnt \<noteq> 0 \<and> line_start \<noteq> 0
         then do {
           let w = poke os (data + line_end) 0 w;
           m \<leftarrow> ece391_strcpy (memory os w) data (data + line_start);
           Some (set_memory os m w, lst - line_start)
         }
         else do {
           let w = poke os (data + line_end) 0 w;
           w \<leftarrow> (if line_matches (memory os w) data s s_len line_end line_start
                then print_match os lit fname (data + line_start) w else Some w);
           let line_start = line_end + 1;
           if lst \<le>s line_start then Some (w, 0)
           else grep_lines os lit s fname data s_len cnt lst line_start w
         })"

text \<open>The outer \<open>while (1)\<close>; \<open>- 1\<close> is the return from inside it, \<open>0\<close> its \<open>break\<close>.\<close>

partial_function (option) grep_blocks ::
  "'s os \<Rightarrow> literals \<Rightarrow> u32 \<Rightarrow> u32 \<Rightarrow> u32 \<Rightarrow> u32 \<Rightarrow> u32 \<Rightarrow> u32 \<Rightarrow> 's \<Rightarrow> ('s \<times> u32) option" where
  "grep_blocks os lit s fname data s_len fd lst w = do {
     (w, cnt) \<leftarrow> ece391_read os fd (data + lst) (1024 - lst) w;
     if cnt = - 1 then do { w \<leftarrow> puts_lit os lit (line ''file read failed'') w; Some (w, - 1) }
     else do {
       let lst = lst + cnt;
       (w, lst) \<leftarrow> grep_lines os lit s fname data s_len cnt lst 0 w;
       if cnt = 0 then Some (w, 0) else grep_blocks os lit s fname data s_len fd lst w
     }
   }"

definition do_one_file :: "'s os \<Rightarrow> literals \<Rightarrow> u32 \<Rightarrow> u32 \<Rightarrow> u32 \<Rightarrow> 's \<Rightarrow> ('s \<times> u32) option" where
  "do_one_file os lit data s fname w = do {
     s_len \<leftarrow> ece391_strlen (memory os w) s;
     (w, fd) \<leftarrow> ece391_open os fname w;
     if fd = - 1 then do { w \<leftarrow> puts_lit os lit (line ''file open failed'') w; Some (w, - 1) }
     else do {
       (w, r) \<leftarrow> grep_blocks os lit s fname data s_len fd 0 w;
       if r = - 1 then Some (w, - 1)
       else do {
         (w, c) \<leftarrow> ece391_close os fd w;
         if c = - 1 then do { w \<leftarrow> puts_lit os lit (line ''file close failed'') w; Some (w, - 1) }
         else Some (w, 0)
       }
     }
   }"

partial_function (option) grep_loop :: "'s os \<Rightarrow> literals \<Rightarrow> u32 \<Rightarrow> u32 \<Rightarrow> u32 \<Rightarrow> u32 \<Rightarrow> 's \<Rightarrow> ('s \<times> u32) option" where
  "grep_loop os lit data search buf fd w = do {
     (w, cnt) \<leftarrow> ece391_read os fd buf 32 w;
     if cnt = 0 then Some (w, 0)
     else if cnt = - 1 then do { w \<leftarrow> puts_lit os lit (line ''directory entry read failed'') w; Some (w, 3) }
     else if memory os w buf = 0x2E then grep_loop os lit data search buf fd w
     else do {
       let w = poke os (buf + cnt) 0 w;
       (w, r) \<leftarrow> do_one_file os lit data search buf w;
       if r \<noteq> 0 then Some (w, 3) else grep_loop os lit data search buf fd w
     }
   }"

definition grep :: "'s os \<Rightarrow> literals \<Rightarrow> u32 \<Rightarrow> u32 \<Rightarrow> u32 \<Rightarrow> 's \<Rightarrow> ('s \<times> u32) option" where
  "grep os lit data search buf w = do {
     (w, r) \<leftarrow> ece391_getargs os search 1024 w;
     if r \<noteq> 0 then do { w \<leftarrow> puts_lit os lit (line ''could not read argument'') w; Some (w, 3) }
     else do {
       (w, fd) \<leftarrow> ece391_open os (lit (ascii ''.'')) w;
       if fd = - 1 then do { w \<leftarrow> puts_lit os lit (line ''directory open failed'') w; Some (w, 2) }
       else grep_loop os lit data search buf fd w
     }
   }"

section \<open>The shell\<close>

partial_function (option) shell_loop :: "'s os \<Rightarrow> literals \<Rightarrow> u32 \<Rightarrow> 's \<Rightarrow> ('s \<times> u32) option" where
  "shell_loop os lit buf s = do {
     s \<leftarrow> puts_lit os lit (ascii ''391OS> '') s;
     (s, cnt) \<leftarrow> ece391_read os 0 buf 1023 s;
     if cnt = - 1 then do { s \<leftarrow> puts_lit os lit (line ''read from keyboard failed'') s; Some (s, 3) }
     else do {
       let cnt = (if 0 <s cnt \<and> memory os s (buf + (cnt - 1)) = 0x0A then cnt - 1 else cnt);
       let s = poke os (buf + cnt) 0 s;
       c \<leftarrow> ece391_strcmp (memory os s) buf (lit (ascii ''exit''));
       if c = 0 then Some (s, 0)
       else if memory os s buf = 0 then shell_loop os lit buf s
       else do {
         (s, rval) \<leftarrow> ece391_execute os buf s;
         s \<leftarrow> (if rval = - 1 then puts_lit os lit (line ''no such command'') s
              else if rval = 256 then puts_lit os lit (line ''program terminated by exception'') s
              else if rval \<noteq> 0 then puts_lit os lit (line ''program terminated abnormally'') s
              else Some s);
         shell_loop os lit buf s
       }
     }
   }"

definition shell :: "'s os \<Rightarrow> literals \<Rightarrow> u32 \<Rightarrow> 's \<Rightarrow> ('s \<times> u32) option" where
  "shell os lit buf s = do {
     s \<leftarrow> puts_lit os lit (line ''Starting 391 Shell'') s;
     shell_loop os lit buf s
   }"

section \<open>pingpong\<close>

text \<open>
  \<open>BUFMAX\<close> is 81; \<open>LOOPMAX\<close> expands without parentheses to \<open>79 + 2 - 2 - 1\<close>, which is 78. \<open>j\<close> and
  \<open>i\<close> run over the columns between the walls.
\<close>

definition pingpong_init :: "'s os \<Rightarrow> u32 \<Rightarrow> 's \<Rightarrow> 's" where
  "pingpong_init os buf s =
     (let s = fold (\<lambda>i. poke os (buf + of_nat i) 0x20) [0..<81] s;
          s = poke os (buf + 80) 0 s;
          s = poke os (buf + 79) 0x0A s;
          s = poke os (buf + 78) 0x7C s
      in poke os (buf + 1) 0x7C s)"

definition pingpong_draw :: "'s os \<Rightarrow> u32 \<Rightarrow> u32 \<Rightarrow> u32 \<Rightarrow> u8 \<Rightarrow> nat \<Rightarrow> 's \<Rightarrow> 's option" where
  "pingpong_draw os buf garbage rtc_fd curchar j s = do {
     let s = fold (\<lambda>i. poke os (buf + of_nat i) 0x20) [2..<78] s;
     let s = poke os (buf + of_nat j) curchar s;
     s \<leftarrow> fdputs os 1 buf s;
     (s, _) \<leftarrow> ece391_read os rtc_fd garbage 4 s;
     Some s
   }"

text \<open>One round of the \<open>while (1)\<close>: out, back, and the next letter.\<close>

definition pingpong_round :: "'s os \<Rightarrow> u32 \<Rightarrow> u32 \<Rightarrow> u32 \<Rightarrow> u8 \<Rightarrow> 's \<Rightarrow> ('s \<times> u8) option" where
  "pingpong_round os buf garbage rtc_fd curchar s = do {
     s \<leftarrow> for_loop 2 76 (pingpong_draw os buf garbage rtc_fd curchar) s;
     s \<leftarrow> for_loop 0 76 (\<lambda>k. pingpong_draw os buf garbage rtc_fd curchar (77 - k)) s;
     Some (s, if curchar = 0x5A then 0x41 else curchar + 1)
   }"

partial_function (option) pingpong_loop :: "'s os \<Rightarrow> u32 \<Rightarrow> u32 \<Rightarrow> u32 \<Rightarrow> u8 \<Rightarrow> 's \<Rightarrow> ('s \<times> u32) option" where
  "pingpong_loop os buf garbage rtc_fd curchar s = do {
     (s, curchar) \<leftarrow> pingpong_round os buf garbage rtc_fd curchar s;
     pingpong_loop os buf garbage rtc_fd curchar s
   }"

definition pingpong :: "'s os \<Rightarrow> literals \<Rightarrow> u32 \<Rightarrow> u32 \<Rightarrow> u32 \<Rightarrow> 's \<Rightarrow> ('s \<times> u32) option" where
  "pingpong os lit buf ret_val garbage s = do {
     let s = pingpong_init os buf s;
     (s, rtc_fd) \<leftarrow> ece391_open os (lit (ascii ''rtc'')) s;
     let s = set_memory os (store32 (memory os s) ret_val 32) s;
     (s, r) \<leftarrow> ece391_write os rtc_fd ret_val 4 s;
     let s = set_memory os (store32 (memory os s) ret_val r) s;
     pingpong_loop os buf garbage rtc_fd 0x41 s
   }"

section \<open>syserr: the tests of the error returns\<close>

text \<open>
  Each test makes calls that have to fail; a call that does not fail prints a message and makes the
  test fail. \<open>fail\<close> is 0 or 2.
\<close>

definition must_fail :: "'s os \<Rightarrow> literals \<Rightarrow> u8 list \<Rightarrow> ('s \<Rightarrow> ('s \<times> u32) option) \<Rightarrow> 's \<times> u32 \<Rightarrow> ('s \<times> u32) option" where
  "must_fail os lit text call = (\<lambda>(s, fail). do {
     (s, r) \<leftarrow> call s;
     if r \<noteq> - 1 then do { s \<leftarrow> puts_lit os lit text s; Some (s, 2) } else Some (s, fail)
   })"

definition verdict :: "'s os \<Rightarrow> literals \<Rightarrow> string \<Rightarrow> 's \<times> u32 \<Rightarrow> ('s \<times> u32) option" where
  "verdict os lit name = (\<lambda>(s, fail). do {
     s \<leftarrow> puts_lit os lit (line (name @ (if fail \<noteq> 0 then '': FAIL'' else '': PASS''))) s;
     Some (s, fail)
   })"

definition bad_fd_test :: "'s os \<Rightarrow> literals \<Rightarrow> string \<Rightarrow> u32 \<Rightarrow> u32 \<Rightarrow> 's \<Rightarrow> ('s \<times> u32) option" where
  "bad_fd_test os lit name fd buf s = do {
     w \<leftarrow> must_fail os lit (line ''read fail'') (ece391_read os fd buf 31) (s, 0);
     w \<leftarrow> must_fail os lit (line ''write fail'') (ece391_write os fd buf 31) w;
     w \<leftarrow> must_fail os lit (line ''close fail'') (ece391_close os fd) w;
     verdict os lit name w
   }"

definition err_neg_fd :: "'s os \<Rightarrow> literals \<Rightarrow> u32 \<Rightarrow> 's \<Rightarrow> ('s \<times> u32) option" where
  "err_neg_fd os lit buf s = bad_fd_test os lit ''err_neg_fd'' (- 1073741823) buf s"

definition err_big_fd :: "'s os \<Rightarrow> literals \<Rightarrow> u32 \<Rightarrow> 's \<Rightarrow> ('s \<times> u32) option" where
  "err_big_fd os lit buf s = bad_fd_test os lit ''err_big_fd'' 1073741823 buf s"

definition err_open_lots :: "'s os \<Rightarrow> literals \<Rightarrow> 's \<Rightarrow> ('s \<times> u32) option" where
  "err_open_lots os lit s = do {
     (s, cnt :: u32) \<leftarrow> for_loop 0 7 (\<lambda>i (s, cnt). do {
         (s, r) \<leftarrow> ece391_open os (lit (ascii ''.'')) s;
         Some (s, if r = - 1 then cnt + 1 else cnt)
       }) (s, 0);
     s \<leftarrow> for_loop 2 6 (\<lambda>i s. map_option fst (ece391_close os (of_nat i) s)) s;
     if cnt = 1 then do { s \<leftarrow> puts_lit os lit (line ''err_open_lots: PASS'') s; Some (s, 0) }
     else do { s \<leftarrow> puts_lit os lit (line ''err_open_lots: FAIL'') s; Some (s, 2) }
   }"

definition err_open :: "'s os \<Rightarrow> literals \<Rightarrow> 's \<Rightarrow> ('s \<times> u32) option" where
  "err_open os lit s = do {
     w \<leftarrow> must_fail os lit (line (CHR 0x27 # ''helloo'' @ CHR 0x27 # '' fail''))
            (ece391_open os (lit (ascii ''helloo''))) (s, 0);
     w \<leftarrow> must_fail os lit (line (CHR 0x27 # ''shel'' @ CHR 0x27 # '' fail''))
            (ece391_open os (lit (ascii ''shel''))) w;
     w \<leftarrow> must_fail os lit (line ''empty string fail'') (ece391_open os (lit [])) w;
     verdict os lit ''err_open'' w
   }"

definition err_unopened :: "'s os \<Rightarrow> literals \<Rightarrow> u32 \<Rightarrow> 's \<Rightarrow> ('s \<times> u32) option" where
  "err_unopened os lit buf s = do {
     w \<leftarrow> for_loop 0 8 (\<lambda>i. must_fail os lit (line ''close unopened or invalid fd fail'') (ece391_close os (of_nat i))) (s, 0);
     w \<leftarrow> for_loop 2 6 (\<lambda>i. must_fail os lit (line ''read from unopened fd fail'') (ece391_read os (of_nat i) buf 31)) w;
     w \<leftarrow> for_loop 2 6 (\<lambda>i. must_fail os lit (line ''write to unopened fd fail'') (ece391_write os (of_nat i) buf 31)) w;
     verdict os lit ''err_unopened'' w
   }"

definition err_vidmap :: "'s os \<Rightarrow> literals \<Rightarrow> 's \<Rightarrow> ('s \<times> u32) option" where
  "err_vidmap os lit s = do {
     w \<leftarrow> must_fail os lit (line ''Null pointer fail'') (ece391_vidmap os 0) (s, 0);
     w \<leftarrow> must_fail os lit (line ''Kernel pointer fail fail'') (ece391_vidmap os 0x400000) w;
     verdict os lit ''err_vidmap'' w
   }"

definition err_stdin_out :: "'s os \<Rightarrow> literals \<Rightarrow> u32 \<Rightarrow> 's \<Rightarrow> ('s \<times> u32) option" where
  "err_stdin_out os lit buf s = do {
     w \<leftarrow> must_fail os lit (line ''write to stdin fail'') (ece391_write os 0 buf 31) (s, 0);
     w \<leftarrow> must_fail os lit (line ''read from stdout fail'') (ece391_read os 1 buf 31) w;
     verdict os lit ''err_stdin_out'' w
   }"

text \<open>\<open>call_sys\<close> loads \<open>EAX\<close> only; \<open>ebx\<close> is what \<open>EBX\<close> holds.\<close>

definition call_sys :: "'s os \<Rightarrow> u32 \<Rightarrow> u32 \<Rightarrow> 's \<Rightarrow> ('s \<times> u32) option" where
  "call_sys os ebx n s = int_80 os n ebx (stale_ecx os) (stale_edx os) s"

definition err_syscall_num :: "'s os \<Rightarrow> literals \<Rightarrow> u32 \<Rightarrow> 's \<Rightarrow> ('s \<times> u32) option" where
  "err_syscall_num os lit ebx s = do {
     w \<leftarrow> must_fail os lit (line ''syscall 0 fail'') (call_sys os ebx 1073741823) (s, 0);
     w \<leftarrow> must_fail os lit (line ''big num syscall fail'') (call_sys os ebx (- 1073741823)) w;
     w \<leftarrow> must_fail os lit (line ''neg num syscall fail'') (call_sys os ebx 0) w;
     verdict os lit ''err_syscall_num'' w
   }"

text \<open>The tests in order, numbered from 1, and \<open>case 0\<close> of the switch, which adds up their values.\<close>

definition err_tests :: "'s os \<Rightarrow> literals \<Rightarrow> u32 \<Rightarrow> u32 \<Rightarrow> ('s \<Rightarrow> ('s \<times> u32) option) list" where
  "err_tests os lit buf ebx = [err_neg_fd os lit buf, err_big_fd os lit buf, err_open_lots os lit, err_open os lit,
     err_unopened os lit buf, err_vidmap os lit, err_stdin_out os lit buf, err_syscall_num os lit ebx]"

definition all_tests :: "'s os \<Rightarrow> literals \<Rightarrow> u32 \<Rightarrow> u32 \<Rightarrow> 's \<Rightarrow> ('s \<times> u32) option" where
  "all_tests os lit buf ebx s = do {
     (s, fail) \<leftarrow> for_loop 0 8 (\<lambda>i (s, fail). do {
         (s, r) \<leftarrow> (err_tests os lit buf ebx ! i) s;
         Some (s, fail + r)
       }) (s, 0);
     s \<leftarrow> puts_lit os lit (0x0A # line (if fail \<noteq> 0 then ''Overall Tests: FAIL'' else ''Overall Tests: PASS'')) s;
     Some (s, fail)
   }"

definition syserr :: "'s os \<Rightarrow> literals \<Rightarrow> u32 \<Rightarrow> u32 \<Rightarrow> u32 \<Rightarrow> 's \<Rightarrow> ('s \<times> u32) option" where
  "syserr os lit main_buf buf ebx s = do {
     s \<leftarrow> puts_lit os lit (ascii ''Choose from tests 1-8. 0 to run all: '') s;
     (s, cnt) \<leftarrow> ece391_read os 0 main_buf 127 s;
     if cnt = - 1 then do { s \<leftarrow> puts_lit os lit (line (''Can'' @ CHR 0x27 # ''t read test #'')) s; Some (s, 2) }
     else do {
       let select = (ucast (memory os s main_buf) - 0x30 :: u32);
       if select = 0 then all_tests os lit buf ebx s
       else if unat select \<in> {1..8} then (err_tests os lit buf ebx ! (unat select - 1)) s
       else do {
         s \<leftarrow> puts_lit os lit (ascii ''Invalid test number. Choose from tests 1-8 or 0'') s;
         Some (s, 0)
       }
     }
   }"

end
