(* ===== verification/ProgramSpec.thy ===== *)
theory ProgramSpec
  imports UserPrograms
begin

text \<open>
  What the user programs do on any operating system that keeps two contracts. \<open>console\<close> is what they
  rely on for output: \<open>says s bs s'\<close> means that between the states \<open>s\<close> and \<open>s'\<close> the screen got the
  characters \<open>bs\<close>, and a \<open>write\<close> of a string to descriptor 1 says the string and leaves the memory
  the program owns alone. \<open>strict_os\<close> adds the calls that are refused. \<open>UserKernel\<close> discharges both
  contracts for the kernel.
\<close>

section \<open>Programs that end\<close>

definition ends :: "'a option \<Rightarrow> ('a \<Rightarrow> bool) \<Rightarrow> bool" where
  "ends r Q \<longleftrightarrow> (\<exists>x. r = Some x \<and> Q x)"

lemma ends_Some [simp]: "ends (Some x) Q \<longleftrightarrow> Q x"
  by (simp add: ends_def)

lemma ends_bind [simp]: "ends (Option.bind r f) Q \<longleftrightarrow> ends r (\<lambda>x. ends (f x) Q)"
  by (cases r) (simp_all add: ends_def)

lemma ends_map [simp]: "ends (map_option f r) Q \<longleftrightarrow> ends r (\<lambda>x. Q (f x))"
  by (cases r) (simp_all add: ends_def)

lemma ends_mono: "ends r P \<Longrightarrow> (\<And>x. P x \<Longrightarrow> Q x) \<Longrightarrow> ends r Q"
  by (auto simp: ends_def)

lemma ends_for_loop:
  "I a s \<Longrightarrow> (\<And>i s. a \<le> i \<Longrightarrow> i < a + n \<Longrightarrow> I i s \<Longrightarrow> ends (f i s) (I (Suc i))) \<Longrightarrow>
   ends (for_loop a n f s) (I (a + n))"
  unfolding ends_def by (rule for_loop_invariant)

section \<open>Memory and literals\<close>

definition keeps :: "'s os \<Rightarrow> (u32 \<Rightarrow> bool) \<Rightarrow> 's \<Rightarrow> 's \<Rightarrow> bool" where
  "keeps os own s s' \<longleftrightarrow> (\<forall>x. own x \<longrightarrow> memory os s' x = memory os s x)"

lemma keeps_refl [simp]: "keeps os own s s"
  by (simp add: keeps_def)

lemma keeps_trans: "keeps os own s s' \<Longrightarrow> keeps os own s' s'' \<Longrightarrow> keeps os own s s''"
  by (simp add: keeps_def)

definition owns_string :: "'s os \<Rightarrow> (u32 \<Rightarrow> bool) \<Rightarrow> 's \<Rightarrow> u32 \<Rightarrow> u8 list \<Rightarrow> bool" where
  "owns_string os own s p bs \<longleftrightarrow> p \<noteq> 0 \<and> length bs < 2147483648 \<and> cstr (memory os s) p bs
     \<and> (\<forall>x. in_range p (Suc (length bs)) x \<longrightarrow> own x)"

lemma owns_string_keeps: "owns_string os own s p bs \<Longrightarrow> keeps os own s s' \<Longrightarrow> owns_string os own s' p bs"
  by (auto simp: owns_string_def keeps_def elim: cstr_cong)

definition has_literals :: "'s os \<Rightarrow> (u32 \<Rightarrow> bool) \<Rightarrow> literals \<Rightarrow> u8 list set \<Rightarrow> 's \<Rightarrow> bool" where
  "has_literals os own lit L s \<longleftrightarrow> (\<forall>t \<in> L. owns_string os own s (lit t) t)"

lemma has_literalsD: "has_literals os own lit L s \<Longrightarrow> t \<in> L \<Longrightarrow> owns_string os own s (lit t) t"
  by (simp add: has_literals_def)

lemma has_literals_keeps: "has_literals os own lit L s \<Longrightarrow> keeps os own s s' \<Longrightarrow> has_literals os own lit L s'"
  using owns_string_keeps by (fastforce simp: has_literals_def)

text \<open>The lines \<open>counter\<close> prints.\<close>

definition count_text :: "nat \<Rightarrow> u8 list" where
  "count_text n = concat (map (\<lambda>i. numeral_bytes 10 (Suc i) @ [0x0A]) [0..<n])"

section \<open>Output\<close>

locale console =
  fixes os :: "'s os" and own :: "u32 \<Rightarrow> bool" and says :: "'s \<Rightarrow> u8 list \<Rightarrow> 's \<Rightarrow> bool"
  assumes says_trans: "says s as s' \<Longrightarrow> says s' bs s'' \<Longrightarrow> says s (as @ bs) s''"
    and says_after: "says s bs s' \<Longrightarrow> says s' [] s'"
    and write_string: "says s [] s \<Longrightarrow> cstr (memory os s) p bs \<Longrightarrow> p \<noteq> 0 \<Longrightarrow> \<not> n <s 0 \<Longrightarrow>
      ends (int_80 os 4 1 p n s) (\<lambda>(s', r). r = n \<and> says s bs s' \<and> keeps os own s s')"
    and memory_set: "memory os (set_memory os m s) = m"
    and says_set: "says s [] s \<Longrightarrow> says s [] (set_memory os m s)"
begin

lemma says_more:
  "says s as s' \<and> keeps os own s s' \<Longrightarrow> says s' bs s'' \<and> keeps os own s' s'' \<Longrightarrow>
   says s (as @ bs) s'' \<and> keeps os own s s''"
  using says_trans keeps_trans by metis

lemma length_signed: "length bs < 2147483648 \<Longrightarrow> \<not> (of_nat (length bs) :: u32) <s 0"
  using sless_of_nat32 [of "length bs" 0] by simp

lemma fdputs_says:
  assumes "says s [] s" and "owns_string os own s p bs"
  shows "ends (fdputs os 1 p s) (\<lambda>s'. says s bs s' \<and> keeps os own s s')"
proof -
  have p: "cstr (memory os s) p bs" "p \<noteq> 0" "length bs < 2147483648"
    using assms(2) by (simp_all add: owns_string_def)
  show ?thesis
    using write_string [OF assms(1) p(1,2) length_signed [OF p(3)]]
    by (auto simp: fdputs_def ece391_write_def ece391_strlen_eq strlen_cstr [OF p(1)] elim!: ends_mono)
qed

lemma puts_lit_says:
  "says s [] s \<Longrightarrow> has_literals os own lit L s \<Longrightarrow> t \<in> L \<Longrightarrow>
   ends (fdputs os 1 (lit t) s) (\<lambda>s'. says s t s' \<and> keeps os own s s')"
  by (rule fdputs_says) (auto dest: has_literalsD)

lemma testprint_says:
  assumes "says s [] s" and "has_literals os own lit {line ''Hello, if this ran, the program was correct. Yay!''} s"
  shows "ends (testprint os lit s)
    (\<lambda>(s', r). r = 0 \<and> says s (line ''Hello, if this ran, the program was correct. Yay!'') s' \<and> keeps os own s s')"
  using puts_lit_says [OF assms] unfolding testprint_def by (auto elim: ends_mono)

lemma count_line_says:
  assumes s: "says s [] s" and nl: "has_literals os own lit {[0x0A]} s" and i: "i < 4294967295"
    and buf: "buf \<noteq> 0" "\<forall>x. in_range buf 33 x \<longrightarrow> own x" "disj_ranges buf 33 (lit [0x0A]) 2"
  shows "ends (count_line os lit buf i s) (\<lambda>s'. says s (numeral_bytes 10 (Suc i) @ [0x0A]) s' \<and> has_literals os own lit {[0x0A]} s')"
proof -
  define ds where "ds = numeral_bytes 10 (Suc i)"
  define s1 where "s1 = set_memory os (store_bytes (memory os s) buf (ds @ [0])) s"
  have ten: "unat (10 :: u32) = 10" by simp
  have u: "unat (1 + of_nat i :: u32) = Suc i" using i unat_of_nat32 [of "Suc i"] by simp
  have len: "length ds \<le> 32" using i length_numeral_bytes [of "Suc i" 10] by (simp add: ds_def)
  have nz: "0 \<notin> set ds" using numeral_bytes_digits [of 10 0 "Suc i"] unfolding ds_def by auto
  have it: "ece391_itoa (memory os s) (of_nat i + 1) buf 10 = Some (store_bytes (memory os s) buf (ds @ [0]))"
    using ece391_itoa_numeral [of 10 "memory os s" "of_nat i + 1" buf] unfolding ten u [unfolded add.commute [of 1]] ds_def by simp
  have ok: "says s [] s1" unfolding s1_def by (rule says_set [OF s])
  have own: "owns_string os own s1 buf ds"
    using buf(1,2) len nz in_range_mono [of buf "Suc (length ds)" _ 33]
    by (auto simp: owns_string_def s1_def memory_set intro!: cstr_store_bytes)
  have lit: "owns_string os own s (lit [0x0A]) [0x0A]" using has_literalsD [OF nl] by simp
  have "store_bytes (memory os s) buf (ds @ [0]) x = memory os s x" if "in_range (lit [0x0A]) 2 x" for x
    using disj_rangesD2 [OF buf(3) that] len in_range_mono [of buf "length (ds @ [0])" x 33]
    by (auto simp: store_bytes_apply)
  then have lit1: "has_literals os own lit {[0x0A]} s1"
    using lit by (auto simp: has_literals_def owns_string_def s1_def memory_set numeral_2_eq_2 elim!: cstr_cong)
  have fin: "says s (ds @ [0x0A]) s3 \<and> has_literals os own lit {[0x0A]} s3"
    if "says s1 ds s2" "keeps os own s1 s2" "says s2 [0x0A] s3" "keeps os own s2 s3" for s2 s3
    using says_trans [OF ok says_trans [OF that(1,3)]]
      has_literals_keeps [OF lit1 keeps_trans [OF that(2,4)]] by simp
  have second: "ends (fdputs os 1 (lit [0x0A]) s2) (\<lambda>s3. says s (ds @ [0x0A]) s3 \<and> has_literals os own lit {[0x0A]} s3)"
    if "says s1 ds s2" "keeps os own s1 s2" for s2
    using puts_lit_says [OF says_after [OF that(1)] has_literals_keeps [OF lit1 that(2)], of "[0x0A]"] fin [OF that]
    by (auto elim: ends_mono)
  show ?thesis
    using fdputs_says [OF says_after [OF ok] own] second
    unfolding count_line_def ds_def [symmetric] by (auto simp: it s1_def [symmetric] elim!: ends_mono)
qed

lemma count_loop_says:
  assumes s: "says s [] s" and nl: "has_literals os own lit {[0x0A]} s" and n: "n < 4294967296"
    and buf: "buf \<noteq> 0" "\<forall>x. in_range buf 33 x \<longrightarrow> own x" "disj_ranges buf 33 (lit [0x0A]) 2"
  shows "ends (for_loop 0 n (count_line os lit buf) s) (\<lambda>s'. says s (count_text n) s')"
proof -
  let ?I = "\<lambda>i s'. says s (count_text i) s' \<and> has_literals os own lit {[0x0A]} s'"
  have "ends (for_loop 0 n (count_line os lit buf) s) (?I (0 + n))"
  proof (rule ends_for_loop [where I = ?I])
    show "?I 0 s" using s nl by (simp add: count_text_def)
    fix i s1 assume "i < 0 + n" and I: "?I i s1"
    then have i: "i < 4294967295" using n by simp
    show "ends (count_line os lit buf i s1) (?I (Suc i))"
      using count_line_says [OF says_after [OF conjunct1 [OF I]] conjunct2 [OF I] i buf] I
        says_trans [of s "count_text i" s1]
      by (auto simp: count_text_def elim!: ends_mono)
  qed
  then show ?thesis by (auto elim: ends_mono)
qed

end

section \<open>Calls that are refused\<close>

text \<open>The report of a run of all tests in which none fails.\<close>

definition test_names :: "string list" where
  "test_names = [''err_neg_fd'', ''err_big_fd'', ''err_open_lots'', ''err_open'', ''err_unopened'', ''err_vidmap'',
     ''err_stdin_out'', ''err_syscall_num'']"

definition pass_line :: "string \<Rightarrow> u8 list" where
  "pass_line name = line (name @ '': PASS'')"

definition pass_report :: "u8 list" where
  "pass_report = concat (map pass_line test_names) @ 0x0A # line ''Overall Tests: PASS''"

definition pass_literals :: "u8 list set" where
  "pass_literals = insert (0x0A # line ''Overall Tests: PASS'') (pass_line ` set test_names)"

locale strict_os = console os own says
  for os :: "'s os" and own and says +
  fixes refused :: "u32 \<Rightarrow> u32 \<Rightarrow> u32 \<Rightarrow> u32 \<Rightarrow> 's \<Rightarrow> bool"
  assumes refuse: "says s [] s \<Longrightarrow> refused a b c d s \<Longrightarrow>
      ends (int_80 os a b c d s) (\<lambda>(s', r). r = - 1 \<and> says s [] s' \<and> keeps os own s s')"
    and refused_later: "refused a b c d s \<Longrightarrow> says s bs s' \<Longrightarrow> keeps os own s s' \<Longrightarrow> refused a b c d s'"
begin

text \<open>A state in which the calls \<open>R\<close> are refused and the literals \<open>L\<close> are in place; it lasts.\<close>

definition testing :: "(u32 \<times> u32 \<times> u32 \<times> u32) set \<Rightarrow> literals \<Rightarrow> u8 list set \<Rightarrow> 's \<Rightarrow> bool" where
  "testing R lit L s \<longleftrightarrow> says s [] s \<and> has_literals os own lit L s \<and> (\<forall>(a, b, c, d) \<in> R. refused a b c d s)"

lemma testing_later: "testing R lit L s \<Longrightarrow> says s bs s' \<and> keeps os own s s' \<Longrightarrow> testing R lit L s'"
  using says_after has_literals_keeps refused_later by (fastforce simp: testing_def)

lemma must_fail_refused:
  assumes "testing R lit L s" and "(a, b, c, d) \<in> R"
  shows "ends (must_fail os lit t (int_80 os a b c d) (s, fail)) (\<lambda>(s', f). f = fail \<and> says s [] s' \<and> keeps os own s s')"
proof -
  have "says s [] s" "refused a b c d s" using assms by (auto simp: testing_def)
  from refuse [OF this] show ?thesis by (auto simp: must_fail_def elim!: ends_mono)
qed

text \<open>A test that returns 0 after printing one line.\<close>

definition passed :: "u8 list \<Rightarrow> 's \<Rightarrow> 's \<times> u32 \<Rightarrow> bool" where
  "passed msg s x \<longleftrightarrow> snd x = 0 \<and> says s msg (fst x) \<and> keeps os own s (fst x)"

lemma passed_after: "says s [] s' \<and> keeps os own s s' \<Longrightarrow> passed msg s' x \<Longrightarrow> passed msg s x"
  using says_trans [of s "[]" s' msg "fst x"] keeps_trans [of os own s s' "fst x"] by (simp add: passed_def)

lemma must_fail_then:
  assumes "testing R lit L s" and "(a, b, c, d) \<in> R"
    and "\<And>s'. testing R lit L s' \<Longrightarrow> ends (F (s', fail)) (passed msg s')"
  shows "ends (Option.bind (must_fail os lit t (int_80 os a b c d) (s, fail)) F) (passed msg s)"
proof -
  have "ends (F x) (passed msg s)"
    if w: "case x of (s', f) \<Rightarrow> f = fail \<and> says s [] s' \<and> keeps os own s s'" for x
  proof -
    obtain s' where x: "x = (s', fail)" and s': "says s [] s' \<and> keeps os own s s'" using w by (cases x) auto
    show ?thesis unfolding x
      by (rule ends_mono [OF assms(3) [OF testing_later [OF assms(1) s']]]) (rule passed_after [OF s'])
  qed
  then show ?thesis unfolding ends_bind by (rule ends_mono [OF must_fail_refused [OF assms(1,2)]])
qed

lemma must_fail_loop_then:
  assumes s: "testing R lit L s" and R: "\<And>i. i < i0 + n \<Longrightarrow> i0 \<le> i \<Longrightarrow> (a, of_nat i, c, d) \<in> R"
    and F: "\<And>s'. testing R lit L s' \<Longrightarrow> ends (F (s', fail)) (passed msg s')"
  shows "ends (Option.bind (for_loop i0 n (\<lambda>i. must_fail os lit t (int_80 os a (of_nat i) c d)) (s, fail)) F) (passed msg s)"
proof -
  let ?I = "\<lambda>i :: nat. \<lambda>(s', f). f = fail \<and> says s [] s' \<and> keeps os own s s'"
  have "ends (for_loop i0 n (\<lambda>i. must_fail os lit t (int_80 os a (of_nat i) c d)) (s, fail)) (?I (i0 + n))"
  proof (rule ends_for_loop [where I = ?I])
    show "?I i0 (s, fail)" using s by (simp add: testing_def)
    fix i x assume i: "i0 \<le> i" "i < i0 + n" and I: "?I i x"
    then obtain s1 where x: "x = (s1, fail)" "says s [] s1 \<and> keeps os own s s1" by (cases x) auto
    show "ends (must_fail os lit t (int_80 os a (of_nat i) c d) x) (?I (Suc i))" unfolding x(1)
      by (rule ends_mono [OF must_fail_refused [OF testing_later [OF s x(2)] R [OF i(2,1)]]])
        (use says_more [OF x(2), of "[]"] in auto)
  qed
  moreover have "ends (F x) (passed msg s)" if w: "?I (i0 + n) x" for x
  proof -
    obtain s' where x: "x = (s', fail)" and s': "says s [] s' \<and> keeps os own s s'" using w by (cases x) auto
    show ?thesis unfolding x by (rule ends_mono [OF F [OF testing_later [OF s s']]]) (rule passed_after [OF s'])
  qed
  ultimately show ?thesis unfolding ends_bind by (rule ends_mono)
qed

lemma verdict_passed:
  assumes "testing R lit L s" and "line (name @ '': PASS'') \<in> L"
  shows "ends (verdict os lit name (s, 0)) (passed (line (name @ '': PASS'')) s)"
proof -
  have "says s [] s" "has_literals os own lit L s" using assms(1) by (auto simp: testing_def)
  from puts_lit_says [OF this assms(2)] show ?thesis by (auto simp: verdict_def passed_def elim: ends_mono)
qed

lemmas call_defs = ece391_read_def ece391_write_def ece391_open_def ece391_close_def ece391_vidmap_def call_sys_def

lemma bad_fd_test_passed:
  assumes "testing R lit L s" and "{(3, fd, buf, 31), (4, fd, buf, 31), (6, fd, stale_ecx os, stale_edx os)} \<subseteq> R"
    and "line (name @ '': PASS'') \<in> L"
  shows "ends (bad_fd_test os lit name fd buf s) (passed (line (name @ '': PASS'')) s)"
  using assms(2) unfolding bad_fd_test_def call_defs [abs_def]
  by (intro must_fail_then [OF assms(1)] must_fail_then verdict_passed) (use assms(3) in \<open>auto simp: insert_subset\<close>)

text \<open>The calls the tests other than \<open>err_open_lots\<close> expect to fail.\<close>

definition bad_calls :: "literals \<Rightarrow> u32 \<Rightarrow> u32 \<Rightarrow> (u32 \<times> u32 \<times> u32 \<times> u32) set" where
  "bad_calls lit buf ebx =
     (\<Union>fd \<in> {- 1073741823, 1073741823}. {(3, fd, buf, 31), (4, fd, buf, 31), (6, fd, stale_ecx os, stale_edx os)})
     \<union> (\<lambda>name. (5, lit name, stale_ecx os, stale_edx os)) ` {ascii ''helloo'', ascii ''shel'', []}
     \<union> (\<lambda>i. (6, of_nat i, stale_ecx os, stale_edx os)) ` {i. i < 8}
     \<union> (\<lambda>i. (3, of_nat i, buf, 31)) ` {i. 2 \<le> i \<and> i < 8} \<union> (\<lambda>i. (4, of_nat i, buf, 31)) ` {i. 2 \<le> i \<and> i < 8}
     \<union> {(8, 0, stale_ecx os, stale_edx os), (8, 0x400000, stale_ecx os, stale_edx os), (4, 0, buf, 31), (3, 1, buf, 31)}
     \<union> (\<lambda>n. (n, ebx, stale_ecx os, stale_edx os)) ` {1073741823, - 1073741823, 0}"

lemma single_tests_passed:
  assumes s: "testing (bad_calls lit buf ebx) lit L s"
    and L: "(\<lambda>name. line (name @ '': PASS'')) ` {''err_neg_fd'', ''err_big_fd'', ''err_open'', ''err_unopened'',
      ''err_vidmap'', ''err_stdin_out'', ''err_syscall_num''} \<subseteq> L"
  shows "ends (err_neg_fd os lit buf s) (passed (line (''err_neg_fd'' @ '': PASS'')) s)"
    and "ends (err_big_fd os lit buf s) (passed (line (''err_big_fd'' @ '': PASS'')) s)"
    and "ends (err_open os lit s) (passed (line (''err_open'' @ '': PASS'')) s)"
    and "ends (err_unopened os lit buf s) (passed (line (''err_unopened'' @ '': PASS'')) s)"
    and "ends (err_vidmap os lit s) (passed (line (''err_vidmap'' @ '': PASS'')) s)"
    and "ends (err_stdin_out os lit buf s) (passed (line (''err_stdin_out'' @ '': PASS'')) s)"
    and "ends (err_syscall_num os lit ebx s) (passed (line (''err_syscall_num'' @ '': PASS'')) s)"
proof -
  define R where "R = bad_calls lit buf ebx"
  have R: "{(3, fd, buf, 31), (4, fd, buf, 31), (6, fd, stale_ecx os, stale_edx os)} \<subseteq> R"
    if "fd = - 1073741823 \<or> fd = 1073741823" for fd
    using that by (auto simp: R_def bad_calls_def)
  have calls: "(5, lit (ascii ''helloo''), stale_ecx os, stale_edx os) \<in> R" "(5, lit (ascii ''shel''), stale_ecx os, stale_edx os) \<in> R"
    "(5, lit [], stale_ecx os, stale_edx os) \<in> R" "(8, 0, stale_ecx os, stale_edx os) \<in> R"
    "(8, 0x400000, stale_ecx os, stale_edx os) \<in> R" "(4, 0, buf, 31) \<in> R" "(3, 1, buf, 31) \<in> R"
    "(1073741823, ebx, stale_ecx os, stale_edx os) \<in> R" "(- 1073741823, ebx, stale_ecx os, stale_edx os) \<in> R"
    "(0, ebx, stale_ecx os, stale_edx os) \<in> R"
    by (auto simp: R_def bad_calls_def)
  have all: "\<And>i. i < 0 + 8 \<Longrightarrow> 0 \<le> i \<Longrightarrow> (6, of_nat i, stale_ecx os, stale_edx os) \<in> R"
    "\<And>i. i < 2 + 6 \<Longrightarrow> 2 \<le> i \<Longrightarrow> (3, of_nat i, buf, 31) \<in> R" "\<And>i. i < 2 + 6 \<Longrightarrow> 2 \<le> i \<Longrightarrow> (4, of_nat i, buf, 31) \<in> R"
    by (auto simp: R_def bad_calls_def)
  have s: "testing R lit L s" using s by (simp only: R_def)
  have L: "line (''err_neg_fd'' @ '': PASS'') \<in> L" "line (''err_big_fd'' @ '': PASS'') \<in> L" "line (''err_open'' @ '': PASS'') \<in> L"
    "line (''err_unopened'' @ '': PASS'') \<in> L" "line (''err_vidmap'' @ '': PASS'') \<in> L"
    "line (''err_stdin_out'' @ '': PASS'') \<in> L" "line (''err_syscall_num'' @ '': PASS'') \<in> L"
    using L by (simp_all only: image_insert insert_subset)
  note rules = must_fail_then [where R = R and L = L] must_fail_loop_then [where R = R and L = L] verdict_passed [where R = R and L = L]
  show "ends (err_neg_fd os lit buf s) (passed (line (''err_neg_fd'' @ '': PASS'')) s)"
    "ends (err_big_fd os lit buf s) (passed (line (''err_big_fd'' @ '': PASS'')) s)"
    unfolding err_neg_fd_def err_big_fd_def by (rule bad_fd_test_passed [OF s R]; (rule L | simp))+
  show "ends (err_open os lit s) (passed (line (''err_open'' @ '': PASS'')) s)"
    "ends (err_vidmap os lit s) (passed (line (''err_vidmap'' @ '': PASS'')) s)"
    "ends (err_stdin_out os lit buf s) (passed (line (''err_stdin_out'' @ '': PASS'')) s)"
    "ends (err_syscall_num os lit ebx s) (passed (line (''err_syscall_num'' @ '': PASS'')) s)"
    "ends (err_unopened os lit buf s) (passed (line (''err_unopened'' @ '': PASS'')) s)"
    unfolding err_open_def err_unopened_def err_vidmap_def err_stdin_out_def err_syscall_num_def call_defs [abs_def]
    by (intro rules s calls all L; assumption)+
qed

lemma all_tests_passed:
  assumes P: "P s" and test: "\<And>s. P s \<Longrightarrow> testing (bad_calls lit buf ebx) lit pass_literals s"
    and later: "\<And>s bs s'. P s \<Longrightarrow> says s bs s' \<and> keeps os own s s' \<Longrightarrow> P s'"
    and lots: "\<And>s. P s \<Longrightarrow> ends (err_open_lots os lit s) (passed (pass_line ''err_open_lots'') s)"
  shows "ends (all_tests os lit buf ebx s) (passed pass_report s)"
proof -
  let ?T = "err_tests os lit buf ebx"
  have L: "(\<lambda>name. line (name @ '': PASS'')) ` {''err_neg_fd'', ''err_big_fd'', ''err_open'', ''err_unopened'',
      ''err_vidmap'', ''err_stdin_out'', ''err_syscall_num''} \<subseteq> pass_literals"
    by (auto simp: pass_literals_def pass_line_def test_names_def)
  have each: "list_all2 (\<lambda>T name. \<forall>s. P s \<longrightarrow> ends (T s) (passed (pass_line name) s)) ?T test_names"
    using single_tests_passed [OF test L] lots by (simp add: err_tests_def test_names_def pass_line_def)
  let ?I = "\<lambda>i (s', f). P s' \<and> passed (concat (map pass_line (take i test_names))) s (s', f)"
  have "ends (for_loop 0 8 (\<lambda>i (s, fail). Option.bind ((?T ! i) s) (\<lambda>(s, r). Some (s, fail + r))) (s, 0)) (?I (0 + 8))"
  proof (rule ends_for_loop [where I = ?I])
    show "?I 0 (s, 0)" using P test by (simp add: passed_def testing_def)
    fix i x assume "i < 0 + 8" and I: "?I i x"
    then have i: "i < 8" "i < length test_names" by (simp_all add: test_names_def)
    obtain s1 where x: "x = (s1, 0)" and s1: "P s1" "says s (concat (map pass_line (take i test_names))) s1 \<and> keeps os own s s1"
      using I by (cases x) (simp add: passed_def)
    have run: "ends ((?T ! i) s1) (passed (pass_line (test_names ! i)) s1)"
      using list_all2_nthD2 [OF each i(2)] s1(1) by simp
    have fin: "?I (Suc i) (fst y, snd y)" if "passed (pass_line (test_names ! i)) s1 y" for y
    proof -
      have y: "says s1 (pass_line (test_names ! i)) (fst y) \<and> keeps os own s1 (fst y)" "snd y = 0"
        using that by (simp_all add: passed_def)
      show ?thesis using says_more [OF s1(2) y(1)] later [OF s1(1) y(1)] i(2) y(2)
        by (simp add: passed_def take_Suc_conv_app_nth)
    qed
    show "ends ((\<lambda>(s, fail). Option.bind ((?T ! i) s) (\<lambda>(s, r). Some (s, fail + r))) x) (?I (Suc i))"
      unfolding x by simp (rule ends_mono [OF run], use fin in auto)
  qed
  moreover have "ends (case x of (s, f) \<Rightarrow> Option.bind
      (fdputs os 1 (lit (0x0A # line (if f \<noteq> 0 then ''Overall Tests: FAIL'' else ''Overall Tests: PASS''))) s)
      (\<lambda>s. Some (s, f))) (passed pass_report s)" if w: "?I (0 + 8) x" for x
  proof -
    obtain s1 where x: "x = (s1, 0)" and s1: "P s1" "says s (concat (map pass_line test_names)) s1 \<and> keeps os own s s1"
      using w by (cases x) (simp add: passed_def test_names_def)
    have "testing (bad_calls lit buf ebx) lit pass_literals s1" by (rule test [OF s1(1)])
    then have "ends (fdputs os 1 (lit (0x0A # line ''Overall Tests: PASS'')) s1)
      (\<lambda>s'. says s1 (0x0A # line ''Overall Tests: PASS'') s' \<and> keeps os own s1 s')"
      by (intro puts_lit_says) (auto simp: testing_def pass_literals_def)
    then show ?thesis using says_more [OF s1(2)] by (auto simp: x passed_def pass_report_def elim!: ends_mono)
  qed
  ultimately show ?thesis unfolding all_tests_def ends_bind by (rule ends_mono)
qed

end

end
