(* ===== verification/UserKernel.thy ===== *)
theory UserKernel
  imports Interrupts ExecuteSpec ProgramSpec
begin

text \<open>
  The user programs on the kernel. \<open>kernel_os\<close> is the operating system they see: \<open>INT 0x80\<close> through
  \<open>syscall_handler\<close> and the memory of the current page directory; when the kernel switches to another
  program, \<open>run\<close> says how the caller gets control back. The contracts of \<open>ProgramSpec\<close> are discharged
  here, and the programs' properties are stated for this kernel.
\<close>

section \<open>The kernel as an operating system\<close>

definition kernel_os :: "env \<Rightarrow> (kernel \<times> control \<Rightarrow> (kernel \<times> u32) option) \<Rightarrow> u32 \<Rightarrow> u32 \<Rightarrow> kernel os" where
  "kernel_os E run ecx edx = \<lparr>
     int_80 = (\<lambda>a b c d k. case syscall_handler E a b c d k of
         None \<Rightarrow> None
       | Some (k', Return v) \<Rightarrow> Some (k', v)
       | Some (k', ctl) \<Rightarrow> run (k', ctl)),
     memory = view, set_memory = set_view, stale_ecx = ecx, stale_edx = edx\<rparr>"

lemma kernel_os_simps [simp]:
  "memory (kernel_os E run ecx edx) = view" "set_memory (kernel_os E run ecx edx) = set_view"
  "stale_ecx (kernel_os E run ecx edx) = ecx" "stale_edx (kernel_os E run ecx edx) = edx"
  by (simp_all add: kernel_os_def)

text \<open>The process that runs, the state a system call starts in, and the memory output leaves alone.\<close>

abbreviation (input) current :: "kernel \<Rightarrow> pcb_t" where
  "current k \<equiv> pcbs k (curr_process k)"

definition enabled :: "kernel \<Rightarrow> kernel" where
  "enabled k = k\<lparr>clock := (clock k)\<lparr>ports := sti (ports (clock k))\<rparr>\<rparr>"

definition off_screen :: "u32 \<Rightarrow> bool" where
  "off_screen x \<longleftrightarrow> \<not> in_range VIDEO 3840 x"

definition console_ok :: "kernel \<Rightarrow> bool" where
  "console_ok k \<longleftrightarrow> terminal_ok (tty k) \<and> std_ok (current k) \<and> file_pos (file_fds (current k) ! 1) < 3"

definition screen_text :: "kernel \<Rightarrow> text_state" where
  "screen_text k = text_of (unat (file_pos (file_fds (current k) ! 1))) (tty k)"

lemma enabled_simps [simp]:
  "view (enabled k) = view k" "pcbs (enabled k) = pcbs k" "curr_process (enabled k) = curr_process k"
  "tty (enabled k) = tty k" "fsys (enabled k) = fsys k" "pg (enabled k) = pg k" "args (enabled k) = args k"
  "proc_state (enabled k) = proc_state k" "console_ok (enabled k) = console_ok k" "screen_text (enabled k) = screen_text k"
  by (simp_all add: enabled_def console_ok_def screen_text_def)

lemma int_80_read: "int_80 (kernel_os E run ecx edx) 3 b c d k = sys_read E b c d (enabled k)"
  and int_80_write: "int_80 (kernel_os E run ecx edx) 4 b c d k = sys_write E b c d (enabled k)"
  and int_80_open: "int_80 (kernel_os E run ecx edx) 5 b c d k = sys_open E b (enabled k)"
  and int_80_close: "int_80 (kernel_os E run ecx edx) 6 b c d k = Some (sys_close b (enabled k))"
  and int_80_getargs: "int_80 (kernel_os E run ecx edx) 7 b c d k = getargs b c (enabled k)"
  and int_80_vidmap: "int_80 (kernel_os E run ecx edx) 8 b c d k = Some (vidmap E b (enabled k))"
  by (simp_all add: kernel_os_def syscall_handler_def returning_def enabled_def Let_def word_sless_alt split: option.split prod.split)

lemma int_80_other: "a <s 1 \<or> 10 <s a \<Longrightarrow> int_80 (kernel_os E run ecx edx) a b c d k = Some (enabled k, - 1)"
  by (simp add: kernel_os_def syscall_handler_def enabled_def)

text \<open>A string written to the screen.\<close>

lemma kernel_write_string:
  assumes "console_ok k" and "cstr (view k) p bs" and "p \<noteq> 0" and "\<not> n <s 0"
  shows "\<exists>k'. int_80 (kernel_os E run ecx edx) 4 1 p n k = Some (k', n) \<and> console_ok k'
    \<and> screen_text k' = fold put_text bs (screen_text k) \<and> (\<forall>x. off_screen x \<longrightarrow> view k' x = view k x)
    \<and> proc_state k' = proc_state k \<and> pcbs k' = pcbs k \<and> curr_process k' = curr_process k \<and> args k' = args k"
proof -
  define f where "f = file_fds (current k) ! 1"
  have ok: "terminal_ok (tty k)" "file_pos f < 3" "std_ok (current k)" using assms(1) by (simp_all add: console_ok_def f_def)
  have f: "flags f = 1" "file_op f = StdoutJt" using ok(3) by (simp_all add: std_ok_def f_def)
  obtain m' s' where w: "terminal_write (conv_buf E) f p n (view k, tty k) = Some (n, m', s')" "terminal_ok s'"
    "text_of (unat (file_pos f)) s' = fold put_text bs (text_of (unat (file_pos f)) (tty k))"
    "{x. m' x \<noteq> view k x} \<subseteq> {x. in_range VIDEO 3840 x}"
    using terminal_write_string [OF ok(1) assms(2) ok(2), of "conv_buf E" n] by blast
  define k' where "k' = set_view m' ((enabled k)\<lparr>tty := s'\<rparr>)"
  have same: "pcbs k' = pcbs k" "curr_process k' = curr_process k" "tty k' = s'" "view k' = m'" "proc_state k' = proc_state k" "args k' = args k"
    by (simp_all add: k'_def)
  have f1: "file_fds (current k) ! Suc 0 = f" "unat (1 :: u32) = Suc 0" by (simp_all add: f_def)
  have "int_80 (kernel_os E run ecx edx) 4 1 p n k = Some (k', n)"
    using assms(3,4) w(1) f update_pcb_same [of "curr_process k" 1 "set_view m' ((enabled k)\<lparr>tty := s'\<rparr>)"] f1
    by (simp add: int_80_write sys_write_def call_driver_def Let_def k'_def word_sless_alt)
  moreover have "console_ok k'" using assms(1) w(2) same by (simp add: console_ok_def)
  moreover have "screen_text k' = fold put_text bs (screen_text k)" using w(3) same by (simp add: screen_text_def f_def)
  moreover have "\<forall>x. off_screen x \<longrightarrow> view k' x = view k x" using w(4) same by (auto simp: off_screen_def)
  ultimately show ?thesis using same by blast
qed

section \<open>Output and refused calls\<close>

text \<open>
  What stays when a program prints and tries calls that fail, besides its memory: the descriptors in
  use, the entries of the keyboard and the screen, and everything the kernel knows of processes.
\<close>

definition same_use :: "pcb_t \<Rightarrow> pcb_t \<Rightarrow> bool" where
  "same_use p p' \<longleftrightarrow> map flags (file_fds p') = map flags (file_fds p) \<and> file_fds p' ! 0 = file_fds p ! 0
     \<and> file_fds p' ! 1 = file_fds p ! 1 \<and> parent_process p' = parent_process p"

definition talks :: "kernel \<Rightarrow> u8 list \<Rightarrow> kernel \<Rightarrow> bool" where
  "talks k bs k' \<longleftrightarrow> console_ok k \<and> console_ok k' \<and> screen_text k' = fold put_text bs (screen_text k)
     \<and> proc_state k' = proc_state k \<and> curr_process k' = curr_process k \<and> same_use (current k) (current k')"

definition image_safe :: "kernel \<Rightarrow> bool" where
  "image_safe k \<longleftrightarrow> image_wf (view k) (fsys k) \<and> (\<forall>x. in_image (view k) (fsys k) x \<longrightarrow> off_screen x)"

text \<open>A name that \<open>open\<close> does not find.\<close>

definition missing :: "kernel \<Rightarrow> u32 \<Rightarrow> bool" where
  "missing k p \<longleftrightarrow> p \<noteq> 0 \<and> parent_process (current k) \<noteq> 1 \<and> image_safe k
     \<and> (\<exists>bs. cstr (view k) p bs \<and> (\<forall>x. in_range p (Suc (length bs)) x \<longrightarrow> off_screen x)
          \<and> dir_index (view k) (fsys k) (take 31 bs) = None)"

definition closed_fd :: "kernel \<Rightarrow> u32 \<Rightarrow> bool" where
  "closed_fd k fd \<longleftrightarrow> fd <s 0 \<or> 7 <s fd \<or> flags (file_fds (current k) ! unat fd) = 0"

definition kernel_refused :: "u32 \<Rightarrow> u32 \<Rightarrow> u32 \<Rightarrow> u32 \<Rightarrow> kernel \<Rightarrow> bool" where
  "kernel_refused a b c d k \<longleftrightarrow>
     a = 3 \<and> (closed_fd k b \<or> b = 1) \<or> a = 4 \<and> (closed_fd k b \<or> b = 0) \<or> a = 5 \<and> missing k b
     \<or> a = 6 \<and> (b <s 2 \<or> closed_fd k b) \<or> a = 8 \<and> \<not> user_page b \<or> a <s 1 \<or> 10 <s a"

lemma talks_flags:
  assumes "same_use p p'" and "i < length (file_fds p)"
  shows "flags (file_fds p' ! i) = flags (file_fds p ! i)"
  using assms unfolding same_use_def by (metis length_map nth_map)

lemma closed_fd_later: "talks k bs k' \<Longrightarrow> closed_fd k fd \<Longrightarrow> closed_fd k' fd"
proof -
  assume t: "talks k bs k'" and c: "closed_fd k fd"
  have "length (file_fds (current k)) = 8" using t by (simp add: talks_def console_ok_def std_ok_def fds_ok_def)
  moreover have "same_use (current k) (current k')" using t unfolding talks_def by blast
  ultimately have "flags (file_fds (current k') ! unat fd) = flags (file_fds (current k) ! unat fd)" if "unat fd < 8"
    using that talks_flags by simp
  then show "closed_fd k' fd" using c fd_bounds [of fd] unfolding closed_fd_def by metis
qed

lemma image_later:
  assumes "image_safe k" and "\<forall>x. off_screen x \<longrightarrow> view k' x = view k x" and "fsys k' = fsys k"
  shows "image_safe k' \<and> same_image (fsys k) (view k) (view k')"
proof -
  have wf: "image_wf (view k) (fsys k)" and same: "same_image (fsys k) (view k) (view k')"
    using assms by (auto simp: image_safe_def same_image_def)
  have "in_image (view k') (fsys k) x = in_image (view k) (fsys k) x" for x
    using same_image_size [OF wf same] assms(3) by simp
  then show ?thesis using assms same same_image_wf [OF wf same] by (simp add: image_safe_def)
qed

lemma talks_fsys: "talks k bs k' \<Longrightarrow> fsys k' = fsys k"
  by (simp add: talks_def proc_state_def)

lemma missing_later:
  assumes t: "talks k bs k'" and v: "\<forall>x. off_screen x \<longrightarrow> view k' x = view k x" and m: "missing k p"
  shows "missing k' p"
proof -
  obtain cs where cs: "cstr (view k) p cs" "\<forall>x. in_range p (Suc (length cs)) x \<longrightarrow> off_screen x"
    "dir_index (view k) (fsys k) (take 31 cs) = None"
    using m by (auto simp: missing_def)
  have fs: "fsys k' = fsys k" by (rule talks_fsys [OF t])
  have img: "image_wf (view k) (fsys k)" "image_safe k'" "same_image (fsys k) (view k) (view k')"
    using m image_later [OF _ v fs] by (auto simp: missing_def image_safe_def)
  have "cstr (view k') p cs" using cs(2) v by (intro cstr_cong [OF cs(1)]) simp
  moreover have "dir_index (view k') (fsys k') (take 31 cs) = None"
    unfolding fs same_image_dir_index [OF img(1,3)] by (rule cs(3))
  moreover have "parent_process (current k') \<noteq> 1" using t m unfolding missing_def talks_def same_use_def by metis
  ultimately show ?thesis using m cs(2) img(2) unfolding missing_def by blast
qed

lemma open_missing:
  assumes "fds_inv k" and "missing k p"
  shows "sys_open E p k = Some (k, - 1)"
proof (cases "lowest_free (current k) = 8")
  case True
  then show ?thesis
    using free_fd_full [of "current k" 0 E] assms by (auto simp: sys_open_def fds_inv_def missing_def)
next
  case False
  then have "lowest_free (current k) < 8" using lowest_free_le [of "current k"] assms(1) by (simp add: fds_inv_def)
  then show ?thesis using assms(2) sys_open_free [OF assms(1), of p] by (auto simp: missing_def)
qed

lemma refused_call:
  assumes "console_ok k" and "kernel_refused a b c d k"
  shows "int_80 (kernel_os E run ecx edx) a b c d k = Some (enabled k, - 1)"
proof -
  have std: "std_ok (current k)" using assms(1) by (simp add: console_ok_def)
  have e: "std_ok (current (enabled k))" "fds_inv (enabled k)" using std by (simp_all add: fds_inv_def std_ok_def)
  have rd: "sys_read E b c d (enabled k) = Some (enabled k, - 1)" if "closed_fd k b \<or> b = 1"
    using that std by (auto simp: closed_fd_def sys_read_def call_driver_def Let_def std_ok_def)
  have wr: "sys_write E b c d (enabled k) = Some (enabled k, - 1)" if "closed_fd k b \<or> b = 0"
    using that std by (auto simp: closed_fd_def sys_write_def call_driver_def Let_def std_ok_def)
  have op: "sys_open E b (enabled k) = Some (enabled k, - 1)" if "missing k b"
    using that by (intro open_missing [OF e(2)]) (auto simp: missing_def image_safe_def)
  have cl: "sys_close b (enabled k) = (enabled k, - 1)" if "b <s 2 \<or> closed_fd k b"
    using that by (auto simp: closed_fd_def sys_close_def Let_def word_sless_alt)
  have vm: "vidmap E b (enabled k) = (enabled k, - 1)" if "\<not> user_page b"
    using that by (auto simp: vidmap_def user_page_def not_less not_le)
  show ?thesis
    using assms(2) rd wr op cl vm int_80_other [of a E run ecx edx b c d k] unfolding kernel_refused_def
    by (elim disjE conjE) (simp_all add: int_80_read int_80_write int_80_open int_80_close int_80_vidmap)
qed

lemma same_use_refl [simp]: "same_use p p"
  by (simp add: same_use_def)

lemma talks_trans: "talks k as k' \<Longrightarrow> talks k' bs k'' \<Longrightarrow> talks k (as @ bs) k''"
  by (auto simp: talks_def same_use_def)

lemma set_view_talks: "talks k [] k \<Longrightarrow> talks k [] (set_view m k)"
  by (simp add: talks_def console_ok_def screen_text_def)

text \<open>Both contracts hold on the kernel.\<close>

interpretation kernel_console: console "kernel_os E run ecx edx" off_screen talks
  for E run ecx edx
proof
  fix k p bs and n :: u32
  assume a: "talks k [] k" "cstr (memory (kernel_os E run ecx edx) k) p bs" "p \<noteq> 0" "\<not> n <s 0"
  have k: "console_ok k" using a(1) by (simp add: talks_def)
  obtain k' where k': "int_80 (kernel_os E run ecx edx) 4 1 p n k = Some (k', n)" "console_ok k'"
    "screen_text k' = fold put_text bs (screen_text k)" "\<forall>x. off_screen x \<longrightarrow> view k' x = view k x"
    "proc_state k' = proc_state k" "pcbs k' = pcbs k" "curr_process k' = curr_process k"
    using kernel_write_string [OF k a(2) [unfolded kernel_os_simps] a(3,4)] by metis
  then show "ends (int_80 (kernel_os E run ecx edx) 4 1 p n k)
    (\<lambda>(s', r). r = n \<and> talks k bs s' \<and> keeps (kernel_os E run ecx edx) off_screen k s')"
    using k by (simp add: talks_def keeps_def)
qed (simp_all add: talks_trans set_view_talks, simp add: talks_def)

interpretation kernel_strict: strict_os "kernel_os E run ecx edx" off_screen talks kernel_refused
  for E run ecx edx
proof
  fix a b c d k
  assume "talks k [] k" and r: "kernel_refused a b c d k"
  then have k: "console_ok k" by (simp add: talks_def)
  then have "talks k [] (enabled k)" by (simp add: talks_def)
  then show "ends (int_80 (kernel_os E run ecx edx) a b c d k)
    (\<lambda>(s', r). r = - 1 \<and> talks k [] s' \<and> keeps (kernel_os E run ecx edx) off_screen k s')"
    using refused_call [OF k r] by (simp add: keeps_def)
next
  fix a b c d k bs k'
  assume r: "kernel_refused a b c d k" and t: "talks k bs k'" and "keeps (kernel_os E run ecx edx) off_screen k k'"
  then have v: "\<forall>x. off_screen x \<longrightarrow> view k' x = view k x" by (simp add: keeps_def)
  show "kernel_refused a b c d k'"
    using r closed_fd_later [OF t] missing_later [OF t v] unfolding kernel_refused_def by blast
qed

section \<open>Opening all descriptors and closing them again\<close>

text \<open>The state between the calls of \<open>err_open_lots\<close>: \<open>fl\<close> are the flags of the descriptors.\<close>

definition lots :: "u32 list \<Rightarrow> kernel \<Rightarrow> kernel \<Rightarrow> bool" where
  "lots fl k k' \<longleftrightarrow> console_ok k' \<and> screen_text k' = screen_text k \<and> view k' = view k \<and> proc_state k' = proc_state k
     \<and> curr_process k' = curr_process k \<and> file_fds (current k') ! 0 = file_fds (current k) ! 0
     \<and> file_fds (current k') ! 1 = file_fds (current k) ! 1
     \<and> parent_process (current k') = parent_process (current k) \<and> map flags (file_fds (current k')) = fl"

lemma lots_fsys: "lots fl k k' \<Longrightarrow> fsys k' = fsys k"
  by (simp add: lots_def proc_state_def)

lemma lots_enabled: "lots fl k k' \<Longrightarrow> lots fl k (enabled k')"
  by (auto simp: lots_def)

lemma lowest_free_flags: "lowest_free p = length (takeWhile (\<lambda>x. x = 1) (map flags (file_fds p)))"
  by (simp add: lowest_free_def takeWhile_map comp_def)

lemma used_prefix: "takeWhile (\<lambda>x. x = 1) (replicate n (1 :: u32) @ replicate j 0) = replicate n 1"
  by (induction n) (simp_all add: takeWhile_replicate)

lemma lots_set:
  assumes "lots fl k k1" and "2 \<le> n" "n < 8" and "file_wf f"
  shows "lots (fl[n := flags f]) k (update_pcb (curr_process k1) (set_fd n (\<lambda>_. f)) k1)"
proof -
  define k2 where "k2 = update_pcb (curr_process k1) (set_fd n (\<lambda>_. f)) k1"
  have p: "file_fds (current k2) = (file_fds (current k1))[n := f]" "parent_process (current k2) = parent_process (current k1)"
    by (simp_all add: k2_def set_fd_def)
  have std: "std_ok (current k1)" using assms(1) by (auto simp: lots_def console_ok_def)
  have "std_ok (current k2)"
    using std assms(2-4) unfolding std_ok_def fds_ok_def p by (simp add: list_all_update)
  moreover have "terminal_ok (tty k1)" "file_pos (file_fds (current k1) ! 1) < 3"
    using assms(1) unfolding lots_def console_ok_def by blast+
  moreover have keep: "tty k2 = tty k1" "file_fds (current k2) ! 1 = file_fds (current k1) ! 1"
    using assms(2) p by (simp_all add: k2_def)
  ultimately have "console_ok k2" by (simp add: console_ok_def)
  have "screen_text k2 = screen_text k1" unfolding screen_text_def keep ..
  then show ?thesis
    using assms(1,2) p \<open>console_ok k2\<close> \<open>screen_text k2 = screen_text k1\<close> unfolding k2_def [symmetric]
    by (auto simp: lots_def map_update k2_def)
qed

lemma open_dot:
  assumes k1: "lots fl k k1" and fl: "fl = replicate n 1 @ replicate (8 - n) 0" and n: "2 \<le> n" "n < 8"
    and dot: "cstr (view k) p (ascii ''.'')" "p \<noteq> 0" "dir_index (view k) (fsys k) (ascii ''.'') = Some j"
      "file_type (copy_dentry (view k) (dir_entry (fsys k) j)) = 1"
  shows "ends (int_80 (kernel_os E run ecx edx) 5 p c d k1)
    (\<lambda>(k2, r). r = of_nat n \<and> lots (replicate (Suc n) 1 @ replicate (8 - Suc n) 0) k k2)"
proof -
  have inv: "fds_inv (enabled k1)" using k1 by (auto simp: lots_def console_ok_def fds_inv_def std_ok_def)
  have m: "map flags (file_fds (current k1)) = fl" using k1 unfolding lots_def by blast
  have lf: "lowest_free (current (enabled k1)) = n"
    using n by (simp add: lowest_free_flags m fl used_prefix)
  define f where "f = (file_fds (current k1) ! n)\<lparr>file_op := DirectoryJt, inode_ptr := NULL, file_pos := 0, flags := 1\<rparr>"
  have v: "view (enabled k1) = view k" "fsys (enabled k1) = fsys k"
    using k1 lots_fsys [OF k1] by (simp_all add: lots_def)
  have "take 31 (ascii ''.'') = ascii ''.''" by (simp add: ascii_def)
  then have "sys_open E p (enabled k1) = Some (update_pcb (curr_process (enabled k1)) (set_fd n (\<lambda>_. f)) (enabled k1), of_nat n)"
    using sys_open_free [OF inv, of p "ascii ''.''" E] dot n lf v by (simp add: Let_def f_def)
  moreover have "lots (fl[n := flags f]) k (update_pcb (curr_process (enabled k1)) (set_fd n (\<lambda>_. f)) (enabled k1))"
    by (rule lots_set [OF lots_enabled [OF k1] n]) (simp add: file_wf_def f_def)
  moreover have "fl[n := flags f] = replicate (Suc n) 1 @ replicate (8 - Suc n) 0"
    using n unfolding fl by (intro nth_equalityI) (auto simp: f_def nth_list_update nth_append nth_Cons' less_Suc_eq)
  ultimately show ?thesis by (simp add: int_80_open)
qed

lemma open_full:
  assumes "lots (replicate 8 1) k k1" and "parent_process (current k) \<noteq> 1"
  shows "int_80 (kernel_os E run ecx edx) 5 p c d k1 = Some (enabled k1, - 1)"
proof -
  have "fds_ok (current (enabled k1))" "lowest_free (current (enabled k1)) = 8" "parent_process (current (enabled k1)) \<noteq> 1"
    using assms by (auto simp: lots_def console_ok_def std_ok_def lowest_free_flags takeWhile_replicate)
  then have "sys_open E p (enabled k1) = Some (enabled k1, - 1)"
    using free_fd_full [of "current (enabled k1)" 0 E] by (auto simp: sys_open_def)
  then show ?thesis by (simp add: int_80_open)
qed

lemma close_used:
  assumes k1: "lots fl k k1" and n: "2 \<le> n" "n < 8" and fl: "fl ! n = 1"
  shows "ends (int_80 (kernel_os E run ecx edx) 6 (of_nat n) c d k1) (\<lambda>(k2, r). r = 0 \<and> lots (fl[n := 0]) k k2)"
proof -
  have len: "length (file_fds (current k1)) = 8" and m: "map flags (file_fds (current k1)) = fl"
    using k1 by (auto simp: lots_def console_ok_def std_ok_def fds_ok_def)
  then have fn: "flags (file_fds (current k1) ! n) = 1" using fl n by (metis nth_map)
  define f where "f = (file_fds (current k1) ! n)\<lparr>flags := 0\<rparr>"
  have w: "unat (of_nat n :: u32) = n" "sint (of_nat n :: u32) = int n"
    using n by (simp_all add: unat_of_nat32 sint_of_nat32)
  have "sys_close (of_nat n) (enabled k1) = (update_pcb (curr_process (enabled k1)) (set_fd n (\<lambda>_. f)) (enabled k1), 0)"
    using fn n w by (simp add: sys_close_def Let_def word_sless_alt f_def set_fd_def update_pcb_def)
  moreover have "lots (fl[n := flags f]) k (update_pcb (curr_process (enabled k1)) (set_fd n (\<lambda>_. f)) (enabled k1))"
    by (rule lots_set [OF lots_enabled [OF k1] n]) (simp add: file_wf_def f_def)
  ultimately show ?thesis by (simp add: int_80_close f_def)
qed

lemma err_open_lots_passed:
  assumes k: "console_ok k" and fl: "map flags (file_fds (current k)) = [1, 1, 0, 0, 0, 0, 0, 0]"
    and parent: "parent_process (current k) \<noteq> 1"
    and dot: "cstr (view k) (lit (ascii ''.'')) (ascii ''.'')" "lit (ascii ''.'') \<noteq> 0"
      "dir_index (view k) (fsys k) (ascii ''.'') = Some j" "file_type (copy_dentry (view k) (dir_entry (fsys k) j)) = 1"
    and pass: "owns_string (kernel_os E run ecx edx) off_screen k (lit (pass_line ''err_open_lots'')) (pass_line ''err_open_lots'')"
  shows "ends (err_open_lots (kernel_os E run ecx edx) lit k)
    (kernel_strict.passed E run ecx edx (pass_line ''err_open_lots'') k)"
proof -
  let ?os = "kernel_os E run ecx edx"
  let ?open = "\<lambda>i (s, cnt). Option.bind (ece391_open ?os (lit (ascii ''.'')) s)
      (\<lambda>(s, r). Some (s, if r = - 1 then cnt + 1 else cnt :: u32))"
  let ?I = "\<lambda>i :: nat. \<lambda>(s, cnt :: u32). if i < 7 then cnt = 0 \<and> lots (replicate (2 + i) 1 @ replicate (6 - i) 0) k s
      else cnt = 1 \<and> lots (replicate 8 1) k s"
  have opens: "ends (for_loop 0 7 ?open (k, 0)) (?I (0 + 7))"
  proof (rule ends_for_loop [where I = ?I])
    show "?I 0 (k, 0)" using k fl by (simp add: lots_def numeral_eq_Suc)
    fix i x assume "i < 0 + 7" and I: "?I i x"
    then obtain s where x: "x = (s, 0)" and i: "i < 7" and s: "lots (replicate (2 + i) 1 @ replicate (6 - i) 0) k s"
      by (cases x) auto
    show "ends (?open i x) (?I (Suc i))"
    proof (cases "i = 6")
      case True
      have s6: "lots (replicate 8 1) k s" using s True by (simp add: numeral_eq_Suc)
      then show ?thesis using True open_full [OF s6 parent] lots_enabled [OF s6] by (simp add: x ece391_open_def)
    next
      case False
      then have n: "2 \<le> 2 + i" "2 + i < 8" using i by simp_all
      have "lots (replicate (2 + i) 1 @ replicate (8 - (2 + i)) 0) k s" using s by simp
      from open_dot [OF this refl n dot, of E run ecx edx ecx edx] show ?thesis
        using n i of_nat_eq32 [of "3 + i" 0] by (auto simp: x ece391_open_def elim!: ends_mono)
    qed
  qed
  let ?J = "\<lambda>i s. lots (replicate 2 1 @ replicate (i - 2) 0 @ replicate (8 - i) 1) k s"
  have closes: "ends (for_loop 2 6 (\<lambda>i s. map_option fst (ece391_close ?os (of_nat i) s)) s) (?J (2 + 6))" if "lots (replicate 8 1) k s" for s
  proof (rule ends_for_loop [where I = ?J])
    show "?J 2 s" using that by (simp add: numeral_eq_Suc)
    fix i s1 assume "2 \<le> i" "i < 2 + 6" and s1: "?J i s1"
    then have i: "2 \<le> i" "i < 8" by simp_all
    have upd: "(replicate 2 1 @ replicate (i - 2) 0 @ replicate (8 - i) 1)[i := 0 :: u32]
        = replicate 2 1 @ replicate (Suc i - 2) 0 @ replicate (8 - Suc i) 1"
      using i by (intro nth_equalityI) (auto simp: nth_list_update nth_append)
    show "ends (map_option fst (ece391_close ?os (of_nat i) s1)) (?J (Suc i))"
      using close_used [OF s1 i, of E run ecx edx ecx edx] i unfolding upd
      by (auto simp: ece391_close_def nth_append elim!: ends_mono)
  qed
  have closed: "lots [1, 1, 0, 0, 0, 0, 0, 0] k s" if "?J (2 + 6) s" for s
    using that by (simp add: numeral_eq_Suc)
  have report: "ends (fdputs ?os 1 (lit (pass_line ''err_open_lots'')) s)
      (\<lambda>s'. talks k (pass_line ''err_open_lots'') s' \<and> keeps ?os off_screen k s')" if "?J (2 + 6) s" for s
  proof -
    note l = closed [OF that]
    have "same_use (current k) (current s)" using l fl unfolding lots_def same_use_def by auto
    then have t: "talks k [] s" using l k unfolding lots_def talks_def by auto
    have v: "keeps ?os off_screen k s" using l by (simp add: lots_def keeps_def)
    show ?thesis
      using kernel_console.fdputs_says [OF kernel_console.says_after [OF t] owns_string_keeps [OF pass v]]
        kernel_console.says_more [of k "[]" s E run ecx edx] t v
      by (auto elim!: ends_mono)
  qed
  have "ends (Option.bind (for_loop 2 6 (\<lambda>i s. map_option fst (ece391_close ?os (of_nat i) s)) s)
      (\<lambda>s. if cnt = 1 then Option.bind (fdputs ?os 1 (lit (line ''err_open_lots: PASS'')) s) (\<lambda>s. Some (s, 0))
            else Option.bind (fdputs ?os 1 (lit (line ''err_open_lots: FAIL'')) s) (\<lambda>s. Some (s, 2))))
    (kernel_strict.passed E run ecx edx (pass_line ''err_open_lots'') k)" if I: "?I (0 + 7) (s, cnt)" for s cnt
  proof -
    have s: "lots (replicate 8 1) k s" "cnt = 1" using I by simp_all
    have "ends (fdputs ?os 1 (lit (line ''err_open_lots: PASS'')) s')
      (\<lambda>s''. kernel_strict.passed E run ecx edx (pass_line ''err_open_lots'') k (s'', 0))" if "?J (2 + 6) s'" for s'
      using report [OF that] by (auto simp: pass_line_def kernel_strict.passed_def elim!: ends_mono)
    then show ?thesis using closes [OF s(1)] s(2) by (auto elim!: ends_mono)
  qed
  then show ?thesis
    unfolding err_open_lots_def by (auto intro!: ends_mono [OF opens])
qed

section \<open>The tests of the error returns\<close>

text \<open>
  What the tests need: only the keyboard and the screen are open, the file system has a directory
  entry \<open>.\<close> but none of the three names, and the program's literals are in memory.
\<close>

definition test_names_used :: "u8 list set" where
  "test_names_used = {ascii ''helloo'', ascii ''shel'', [], ascii ''.''}"

definition tests_ready :: "literals \<Rightarrow> kernel \<Rightarrow> bool" where
  "tests_ready lit k \<longleftrightarrow> console_ok k \<and> map flags (file_fds (current k)) = [1, 1, 0, 0, 0, 0, 0, 0]
     \<and> parent_process (current k) \<noteq> 1 \<and> image_safe k
     \<and> (\<forall>t \<in> pass_literals \<union> test_names_used. lit t \<noteq> 0 \<and> cstr (view k) (lit t) t
          \<and> (\<forall>x. in_range (lit t) (Suc (length t)) x \<longrightarrow> off_screen x))
     \<and> (\<forall>t \<in> {ascii ''helloo'', ascii ''shel'', []}. dir_index (view k) (fsys k) t = None)
     \<and> (\<exists>j. dir_index (view k) (fsys k) (ascii ''.'') = Some j
            \<and> file_type (copy_dentry (view k) (dir_entry (fsys k) j)) = 1)"

lemma test_literal_length: "t \<in> pass_literals \<union> test_names_used \<Longrightarrow> length t < 31"
  by (auto simp: pass_literals_def test_names_used_def pass_line_def test_names_def line_def ascii_def)

lemma tests_ready_owns:
  "tests_ready lit k \<Longrightarrow> t \<in> pass_literals \<union> test_names_used \<Longrightarrow>
   owns_string (kernel_os E run ecx edx) off_screen k (lit t) t"
  using test_literal_length [of t] by (auto simp: owns_string_def tests_ready_def)

lemma tests_ready_testing:
  assumes "tests_ready lit k"
  shows "kernel_strict.testing E run ecx edx
    (kernel_strict.bad_calls E run ecx edx lit buf ebx) lit pass_literals k"
proof -
  have k: "console_ok k" "map flags (file_fds (current k)) = [1, 1, 0, 0, 0, 0, 0, 0]" using assms by (auto simp: tests_ready_def)
  have closed: "closed_fd k (of_nat i)" if "2 \<le> i" "i < 8" for i
  proof -
    have "length (file_fds (current k)) = 8" using arg_cong [OF k(2), of length] by simp
    then have "flags (file_fds (current k) ! i) = [1, 1, 0, 0, 0, 0, 0, 0] ! i" using k(2) that by (metis nth_map)
    also have "\<dots> = 0" using that by (auto simp: less_Suc_eq numeral_eq_Suc)
    finally show ?thesis using that by (simp add: closed_fd_def unat_of_nat32)
  qed
  have miss: "missing k (lit t)" if "t \<in> {ascii ''helloo'', ascii ''shel'', []}" for t
  proof -
    have t: "t \<in> pass_literals \<union> test_names_used" using that by (auto simp: test_names_used_def)
    have "length t < 31" by (rule test_literal_length [OF t])
    then have "take 31 t = t" by simp
    then show ?thesis using assms t that unfolding missing_def tests_ready_def by metis
  qed
  have far: "closed_fd k (- 1073741823)" "closed_fd k 1073741823" "\<not> user_page 0" "\<not> user_page 0x400000"
    by (simp_all add: closed_fd_def word_sless_alt user_page_def)
  have small: "of_nat i <s (2 :: u32) \<or> closed_fd k (of_nat i)" if "i < 8" for i
    using closed [of i] that sless_of_nat32 [of i 2] by (cases "2 \<le> i") auto
  have lits: "has_literals (kernel_os E run ecx edx) off_screen lit pass_literals k"
    using tests_ready_owns [OF assms] by (simp add: has_literals_def)
  have "kernel_refused a b c d k" if "(a, b, c, d) \<in> kernel_strict.bad_calls E run ecx edx lit buf ebx" for a b c d
    using that far small closed miss unfolding kernel_strict.bad_calls_def kernel_refused_def
    by (elim UnE UN_E imageE insertE) (auto simp: word_sless_alt)
  then show ?thesis using k(1) lits by (auto simp: kernel_strict.testing_def talks_def)
qed

lemma talks_screen: "talks k bs k' \<Longrightarrow> screen_text k' = fold put_text bs (screen_text k) \<and> proc_state k' = proc_state k"
  by (simp add: talks_def)

lemma tests_ready_later:
  assumes r: "tests_ready lit k" and t: "talks k bs k'" and s: "keeps (kernel_os E run ecx edx) off_screen k k'"
  shows "tests_ready lit k'"
proof -
  have v: "\<forall>x. off_screen x \<longrightarrow> view k' x = view k x" using s by (simp add: keeps_def)
  note fs = talks_fsys [OF t]
  have img: "image_wf (view k) (fsys k)" "image_safe k'" "same_image (fsys k) (view k) (view k')"
    using r image_later [OF _ v fs] by (auto simp: tests_ready_def image_safe_def)
  note dir = same_image_dir_index [OF img(1,3)]
  have entry: "copy_dentry (view k') (dir_entry (fsys k) j) = copy_dentry (view k) (dir_entry (fsys k) j)"
    if "dir_index (view k) (fsys k) name = Some j" for name j
  proof -
    have "j \<in> set (map of_nat [0..<unat (num_dir_entries (view k) (fsys k))])"
      using that unfolding dir_index_def by (auto simp: find_Some_iff in_set_conv_nth)
    then have "unat j < unat (num_dir_entries (view k) (fsys k))"
      by (auto simp: unat_of_nat32 less_trans [OF _ unat_lt32])
    then show ?thesis by (rule same_image_dentry [OF img(1,3)])
  qed
  have lits: "cstr (view k') (lit u) u" if "u \<in> pass_literals \<union> test_names_used" for u
  proof -
    have "cstr (view k) (lit u) u" "\<forall>x. in_range (lit u) (Suc (length u)) x \<longrightarrow> off_screen x"
      using r that by (simp_all add: tests_ready_def)
    then show ?thesis using v by (auto elim!: cstr_cong)
  qed
  have p: "console_ok k'" "same_use (current k) (current k')" using t unfolding talks_def by blast+
  show ?thesis
    using r p img(2) lits entry unfolding tests_ready_def fs dir same_use_def by metis
qed

section \<open>A sample kernel\<close>

text \<open>
  The image of \<open>FilesysSpec\<close> with its one entry renamed to \<open>.\<close> and made a directory, and the literals in
  slots of 64 bytes from \<open>0x100000\<close>.
\<close>

definition slot_list :: "u8 list list" where
  "slot_list = (0x0A # line ''Overall Tests: PASS'') # map pass_line test_names @ [ascii ''helloo'', ascii ''shel'', [], ascii ''.'']"

definition slot :: "u8 list \<Rightarrow> nat" where
  "slot t = length (takeWhile (\<lambda>u. u \<noteq> t) slot_list)"

definition slot_lit :: literals where
  "slot_lit t = 0x100000 + of_nat (64 * slot t)"

definition tests_mem :: mem where
  "tests_mem x = (let d = unat (x - 0x100000)
     in if d < 64 * length slot_list
        then (let t = slot_list ! (d div 64) in if d mod 64 < length t then t ! (d mod 64) else 0)
        else (sample_mem(0x8040 := 0x2E, 0x8060 := 1)) x)"

definition tests_kernel :: kernel where
  "tests_kernel = sample_kernel\<lparr>kmem := tests_mem\<rparr>"

lemma slot_set: "set slot_list = pass_literals \<union> test_names_used"
  by (auto simp: slot_list_def pass_literals_def test_names_used_def)

lemma slot_nth: "t \<in> pass_literals \<union> test_names_used \<Longrightarrow> slot t < length slot_list \<and> slot_list ! slot t = t"
proof -
  assume "t \<in> pass_literals \<union> test_names_used"
  then obtain xs ys where split: "slot_list = xs @ t # ys" "t \<notin> set xs"
    using split_list_first [of t slot_list] unfolding slot_set by blast
  then have "takeWhile (\<lambda>u. u \<noteq> t) slot_list = xs"
    by (subst split(1), subst takeWhile_append2) auto
  then show ?thesis by (simp add: slot_def split(1))
qed

lemma length_slot_list: "length slot_list = 13"
  by (simp add: slot_list_def test_names_def)

lemma literal_nonzero: "t \<in> pass_literals \<union> test_names_used \<Longrightarrow> 0 \<notin> set t"
  unfolding slot_set [symmetric] slot_list_def test_names_def pass_line_def line_def ascii_def by auto

lemma tests_mem_cstr:
  assumes "t \<in> pass_literals \<union> test_names_used"
  shows "cstr tests_mem (slot_lit t) t"
proof -
  note t = slot_nth [OF assms] length_slot_list test_literal_length [OF assms]
  have at: "tests_mem (slot_lit t + of_nat i) = (if i < length t then t ! i else 0)" if "i < 64" for i
  proof -
    have e: "slot_lit t + of_nat i - 0x100000 = of_nat (64 * slot t + i)" by (simp add: slot_lit_def)
    have "unat (slot_lit t + of_nat i - 0x100000) = 64 * slot t + i"
      unfolding e using t that by (intro unat_of_nat32) simp
    then show ?thesis using t that by (simp add: tests_mem_def Let_def)
  qed
  then show ?thesis using t literal_nonzero [OF assms] by (simp add: cstr_iff)
qed

lemma tests_low: "unat x < 0x100000 \<Longrightarrow> tests_mem x = (sample_mem(0x8040 := 0x2E, 0x8060 := 1)) x"
  by (simp add: tests_mem_def Let_def length_slot_list unat_sub_if')

lemma tests_header:
  "num_dir_entries tests_mem sample_fs = 1" "num_inodes tests_mem sample_fs = 1"
  "num_data_blocks tests_mem sample_fs = 2" "image_size tests_mem sample_fs = 16384"
  by (simp_all add: num_dir_entries_def num_inodes_def num_data_blocks_def image_size_def sample_fs_eq
      tests_low sample_mem_def load32_def)

lemma tests_image: "image_wf tests_mem sample_fs"
  unfolding image_wf_def tests_header by (simp add: sample_fs_eq init_filesys_def tests_low sample_mem_def load32_def)

lemma tests_entry: "key_name tests_mem (dir_entry sample_fs 0) = ascii ''.''"
  "file_type (copy_dentry tests_mem (dir_entry sample_fs 0)) = 1"
  by (simp_all add: key_name_def cprefix_def load_bytes_numeral dir_entry_def sample_fs_eq tests_low sample_mem_def
      ascii_def copy_dentry_def load32_def)

lemma tests_view: "view tests_kernel = tests_mem"
proof -
  have "tests_mem x = 0" if "user_page x" for x
  proof -
    have x: "0x8000000 \<le> unat x" "unat x < 0x8400000" using that by (simp_all add: user_page_def word_le_nat_alt word_less_nat_alt)
    then have "unat (x - 0x100000) = unat x - 0x100000" by (simp add: unat_sub_if')
    then have "\<not> unat (x - 0x100000) < 64 * length slot_list" using x length_slot_list by simp
    moreover have "x \<noteq> of_nat n" if "n < 0x100000" for n using x unat_of_nat32 [of n] that by auto
    then have "x \<noteq> 0x100" "x \<noteq> 0x8000" "x \<noteq> 0x8004" "x \<noteq> 0x8008" "x \<noteq> 0x8040" "x \<noteq> 0x8060" "x \<noteq> 0x9000"
      "x \<noteq> 0x9001" "x \<noteq> 0x9008" "x \<noteq> 0xAFFF" "x \<noteq> 0xB000" using x by auto
    ultimately show ?thesis by (simp add: tests_mem_def Let_def sample_mem_def)
  qed
  then show ?thesis
    by (auto simp: view_def tests_kernel_def sample_kernel_def fun_eq_iff split: option.splits)
qed

lemma low_off_screen: "unat x < 0xB8000 \<Longrightarrow> off_screen x"
  by (simp add: off_screen_def in_range_def unat_sub_if')

lemma high_off_screen: "0xB8F00 \<le> unat x \<Longrightarrow> off_screen x"
  by (simp add: off_screen_def in_range_def unat_sub_if')

lemma in_range_bound: "in_range a n x \<Longrightarrow> unat a + n \<le> 4294967296 \<Longrightarrow> unat x < unat a + n"
  using unat_lt32 [of x] by (simp add: in_range_def unat_sub_if' split: if_splits)

lemma in_range_low: "in_range 0x8000 0x4000 x \<Longrightarrow> unat x < 0xB8000"
  using in_range_bound [of "0x8000" "0x4000" x] by simp

lemma tests_kernel_ready: "tests_ready slot_lit tests_kernel"
proof -
  have f: "fsys tests_kernel = sample_fs" "curr_process tests_kernel = 0x7FE000" "pcbs tests_kernel = shell_pcb"
    "tty tests_kernel = sample_terminal"
    by (simp_all add: tests_kernel_def sample_kernel_def)
  have "std_ok (current tests_kernel)" using sample_kernel_std by (simp add: f sample_kernel_fields)
  then have c: "console_ok tests_kernel"
    using sample_terminal_ok by (simp add: console_ok_def f shell_pcb_def closed_file_def)
  have img: "image_safe tests_kernel"
    unfolding image_safe_def tests_view f tests_header
    using tests_image by (auto simp: sample_boot intro!: low_off_screen in_range_low)
  have lits: "slot_lit t \<noteq> 0 \<and> cstr tests_mem (slot_lit t) t \<and> (\<forall>x. in_range (slot_lit t) (Suc (length t)) x \<longrightarrow> off_screen x)"
    if t: "t \<in> pass_literals \<union> test_names_used" for t
  proof -
    have s: "slot t < 13" "length t < 31" using slot_nth [OF t] length_slot_list test_literal_length [OF t] by simp_all
    have u: "unat (slot_lit t + of_nat i) = 0x100000 + 64 * slot t + i" if "i < 64" for i
      using unat_of_nat32 [of "0x100000 + 64 * slot t + i"] s that by (simp add: slot_lit_def add.assoc)
    have "off_screen x" if x: "in_range (slot_lit t) (Suc (length t)) x" for x
    proof -
      obtain i where i: "i < Suc (length t)" "x = slot_lit t + of_nat i" using in_range_D [OF x] by blast
      then show ?thesis using u [of i] s by (intro high_off_screen) simp
    qed
    moreover have "slot_lit t \<noteq> 0" using u [of 0] by auto
    ultimately show ?thesis using tests_mem_cstr [OF t] by blast
  qed
  have dir: "dir_index tests_mem sample_fs name = (if name = ascii ''.'' then Some 0 else None)" for name
    unfolding dir_index_def tests_header by (simp add: tests_entry)
  have "map flags (file_fds (shell_pcb a)) = [1, 1, 0, 0, 0, 0, 0, 0]" "parent_process (shell_pcb a) = a" for a
    by (simp_all add: shell_pcb_def closed_file_def numeral_eq_Suc)
  then show ?thesis
    using c img lits unfolding tests_ready_def tests_view f dir
    by (simp add: tests_entry ascii_def)
qed

section \<open>Properties\<close>

text \<open>
  C24. The kernel passes the repository's own tests of its error returns: run as a user program, all
  eight tests of \<open>syserr\<close> return 0 and the screen shows their eight \<open>PASS\<close> lines and the overall
  verdict, nothing else. Afterwards the process and its descriptors are as before.
\<close>

theorem syserr_passes:
  assumes "tests_ready lit k"
  shows "\<exists>k'. all_tests (kernel_os E run ecx edx) lit buf ebx k = Some (k', 0)
    \<and> screen_text k' = fold put_text pass_report (screen_text k)
    \<and> proc_state k' = proc_state k \<and> tests_ready lit k'"
proof -
  have "ends (all_tests (kernel_os E run ecx edx) lit buf ebx k) (kernel_strict.passed E run ecx edx pass_report k)"
  proof (rule kernel_strict.all_tests_passed [where P = "tests_ready lit"])
    fix s assume r: "tests_ready lit s"
    obtain j where j: "dir_index (view s) (fsys s) (ascii ''.'') = Some j" "file_type (copy_dentry (view s) (dir_entry (fsys s) j)) = 1"
      using r by (auto simp: tests_ready_def)
    have dot: "ascii ''.'' \<in> pass_literals \<union> test_names_used" "pass_line ''err_open_lots'' \<in> pass_literals \<union> test_names_used"
      by (auto simp: test_names_used_def pass_literals_def test_names_def)
    show "ends (err_open_lots (kernel_os E run ecx edx) lit s) (kernel_strict.passed E run ecx edx (pass_line ''err_open_lots'') s)"
      using r dot(1) by (intro err_open_lots_passed [where lit = lit and k = s and j = j] j tests_ready_owns [OF r dot(2)])
        (simp_all add: tests_ready_def)
  qed (use assms tests_ready_testing tests_ready_later in blast)+
  then obtain k' where k': "all_tests (kernel_os E run ecx edx) lit buf ebx k = Some (k', 0)"
    "talks k pass_report k'" "keeps (kernel_os E run ecx edx) off_screen k k'"
    unfolding ends_def kernel_strict.passed_def by (metis prod.collapse)
  then show ?thesis using talks_screen [OF k'(2)] tests_ready_later [OF assms k'(2,3)] by blast
qed

theorem syserr_passes_witness:
  "\<exists>k'. all_tests (kernel_os sample_env (\<lambda>_. None) 0 0) slot_lit 0x8000000 0 tests_kernel = Some (k', 0)
    \<and> screen_text k' = fold put_text pass_report (screen_text tests_kernel)"
  using syserr_passes [OF tests_kernel_ready, of sample_env "\<lambda>_. None" 0 0 "0x8000000" 0] by blast

text \<open>
  C29. \<open>counter\<close> counts: on the kernel its loop prints the decimal numerals of 1 up to \<open>n\<close>, each on a
  line of its own and each denoting its number, and returns.
\<close>

theorem counter_spec:
  assumes "console_ok k" and "n < 4294967296" and "cstr (view k) (lit [0x0A]) [0x0A]" and "lit [0x0A] \<noteq> 0" and "buf \<noteq> 0"
    and "\<forall>x. in_range (lit [0x0A]) 2 x \<or> in_range buf 33 x \<longrightarrow> off_screen x" and "disj_ranges buf 33 (lit [0x0A]) 2"
  shows "\<exists>k' numerals. for_loop 0 n (count_line (kernel_os E run ecx edx) lit buf) k = Some k'
    \<and> screen_text k' = fold put_text (concat (map (\<lambda>ds. ds @ [0x0A]) numerals)) (screen_text k)
    \<and> map (parse_numeral 10) numerals = [1..<Suc n]"
proof -
  have t: "talks k [] k" using assms(1) by (simp add: talks_def)
  have l: "has_literals (kernel_os E run ecx edx) off_screen lit {[0x0A]} k"
    using assms(3,4,6) by (simp add: has_literals_def owns_string_def numeral_2_eq_2)
  have "ends (for_loop 0 n (count_line (kernel_os E run ecx edx) lit buf) k) (\<lambda>k'. talks k (count_text n) k')"
    by (rule kernel_console.count_loop_says [OF t l assms(2,5) _ assms(7)]) (use assms(6) in blast)
  then obtain k' where k': "for_loop 0 n (count_line (kernel_os E run ecx edx) lit buf) k = Some k'" "talks k (count_text n) k'"
    by (auto simp: ends_def)
  define numerals where "numerals = map (\<lambda>i. numeral_bytes 10 (Suc i)) [0..<n]"
  have "map (parse_numeral 10) numerals = map Suc [0..<n]" by (simp add: numerals_def parse_numeral_bytes)
  moreover have "count_text n = concat (map (\<lambda>ds. ds @ [0x0A]) numerals)" by (simp add: count_text_def numerals_def comp_def)
  ultimately show ?thesis using k'(1) talks_screen [OF k'(2)] by (auto simp: map_Suc_upt)
qed

definition count_kernel :: kernel where
  "count_kernel = sample_kernel\<lparr>kmem := sample_mem(0x300 := 0x0A)\<rparr>"

theorem counter_spec_witness:
  "\<exists>k' numerals. for_loop 0 3 (count_line (kernel_os sample_env (\<lambda>_. None) 0 0) (\<lambda>_. 0x300) 0x1000) count_kernel = Some k'
    \<and> map (parse_numeral 10) numerals = [1, 2, 3]"
proof -
  have f: "current count_kernel = current sample_kernel" "tty count_kernel = sample_terminal"
    by (simp_all add: count_kernel_def sample_kernel_def)
  have ok: "console_ok count_kernel"
    using sample_kernel_std sample_terminal_ok unfolding console_ok_def f by (simp add: sample_kernel_fields shell_pcb_def closed_file_def)
  have v: "view count_kernel x = (sample_mem(0x300 := 0x0A)) x" if "unat x < 0x100000" for x
    using that by (auto simp: view_def count_kernel_def sample_kernel_def user_page_def word_le_nat_alt split: option.splits)
  have c: "cstr (view count_kernel) 0x300 [0x0A]"
    using v [of "0x300"] v [of "0x301"] by (simp add: cstr_def load_bytes_Suc sample_mem_def)
  have far: "\<forall>x. in_range 0x300 2 x \<or> in_range 0x1000 33 x \<longrightarrow> off_screen x"
    using in_range_bound [of "0x300" 2] in_range_bound [of "0x1000" 33] by (fastforce intro!: low_off_screen)
  have up: "[1..<Suc 3] = [1, 2, 3::nat]"
    by (simp add: upt_rec)
  have "\<exists>k' numerals. for_loop 0 3 (count_line (kernel_os sample_env (\<lambda>_. None) 0 0) (\<lambda>_. 0x300) 0x1000) count_kernel = Some k'
      \<and> map (parse_numeral 10) numerals = [1..<Suc 3]"
    using counter_spec [where lit = "\<lambda>_. 0x300" and n = 3 and buf = "0x1000" and E = sample_env and run = "\<lambda>_. None" and ecx = 0 and edx = 0,
        OF ok _ c _ _ far]
    by (fastforce simp add: disj_ranges_def)
  then show ?thesis
    unfolding up by blast
qed

end
