(* ===== verification/CatSpec.thy ===== *)
theory CatSpec
  imports UserKernel
begin

text \<open>
  \<open>cat\<close> on the kernel, from the command line to the characters on the screen. The locale \<open>file_reader\<close>
  states what \<open>cat\<close> relies on in a descriptor it reads from: each \<open>read\<close> stores the next bytes of the
  file in the buffer and moves on, and output does not move it. The kernel's \<open>read\<close> of a regular file
  keeps that contract.

  The kernel's \<open>write\<close> ignores the count it is given and prints the string at the buffer, so what the
  screen shows is not the file but \<open>cat_output\<close>.
\<close>

section \<open>What cat prints\<close>

text \<open>The string at the start of a buffer \<open>b\<close> behind which memory holds the string \<open>ts\<close>.\<close>

definition string_in :: "u8 list \<Rightarrow> u8 list \<Rightarrow> u8 list" where
  "string_in b ts = (if 0 \<in> set b then takeWhile (\<lambda>c. c \<noteq> 0) b else b @ ts)"

text \<open>Each chunk overwrites the start of the buffer; what was behind it stays.\<close>

function cat_output :: "u8 list \<Rightarrow> u8 list \<Rightarrow> u8 list \<Rightarrow> u8 list" where
  "cat_output b rest ts =
     (if rest = [] then []
      else (let chunk = take 1024 rest; b = chunk @ drop (length chunk) b
            in string_in b ts @ cat_output b (drop 1024 rest) ts))"
  by pat_completeness auto
termination
  by (relation "measure (\<lambda>(b, rest, ts). length rest)") auto

declare cat_output.simps [simp del]

lemma string_in_cstr:
  assumes b: "load_bytes m p (length b) = b" and ts: "cstr m (p + of_nat (length b)) ts" and len: "length b + length ts < 4294967296"
  shows "cstr m p (string_in b ts)"
proof (cases "0 \<in> set b")
  case True
  define t where "t = takeWhile (\<lambda>c. c \<noteq> 0) b"
  have l: "length t < length b" using True unfolding t_def
    by (metis (mono_tags, lifting) le_neq_implies_less length_takeWhile_le take_all takeWhile_eq_all_conv takeWhile_eq_take order_refl)
  have nth: "m (p + of_nat i) = b ! i" if "i < length b" for i using b that by (metis load_bytes_nth)
  have "b ! length t = 0" using l nth_length_takeWhile [of "\<lambda>c. c \<noteq> 0" b] by (simp add: t_def)
  moreover have "t ! i = b ! i" if "i < length t" for i using that by (simp add: t_def takeWhile_nth)
  moreover have "0 \<notin> set t" by (auto simp: t_def dest: set_takeWhileD)
  ultimately show ?thesis using True l len nth by (simp add: string_in_def t_def [symmetric] cstr_iff)
next
  case False
  have "load_bytes m p (length b + length ts) = b @ ts"
    using b ts by (simp add: load_bytes_add cstr_def)
  moreover have "m (p + of_nat (length b + length ts)) = 0" using cstr_end [OF ts] by (simp add: add.assoc)
  ultimately show ?thesis using False ts len by (simp add: string_in_def cstr_def)
qed

lemma cstr_behind:
  assumes "cstr m (buf + 1024) ts" and "length c \<le> 1024" and "1024 + length ts < 2147483648"
  shows "cstr (store_bytes m buf c) (buf + 1024) ts"
proof (rule cstr_cong [OF assms(1)])
  fix x assume "in_range (buf + 1024) (Suc (length ts)) x"
  then obtain i where i: "i < Suc (length ts)" "x = buf + of_nat (1024 + i)" using in_range_D by fastforce
  then have "\<not> in_range buf (length c) x"
    using in_range_offset [of "1024 + i" buf "length c"] assms(2,3) by simp
  then show "store_bytes m buf c x = m x" using assms(2) by (simp add: store_bytes_apply)
qed

section \<open>Reading a file piece by piece\<close>

locale file_reader = console os own says
  for os :: "'s os" and own and says +
  fixes fd :: u32 and buf :: u32 and size :: nat and rest :: "'s \<Rightarrow> u8 list \<Rightarrow> bool"
  assumes read_next: "says s [] s \<Longrightarrow> rest s bs \<Longrightarrow> l + n \<le> size \<Longrightarrow> buf + of_nat l \<noteq> 0 \<Longrightarrow>
      ends (int_80 os 3 fd (buf + of_nat l) (of_nat n) s) (\<lambda>(s', r). r = of_nat (length (take n bs)) \<and> says s [] s'
        \<and> rest s' (drop n bs) \<and> memory os s' = store_bytes (memory os s) (buf + of_nat l) (take n bs))"
    and set_rest: "rest s bs \<Longrightarrow> (\<forall>x. \<not> in_range buf size x \<longrightarrow> m x = memory os s x) \<Longrightarrow> rest (set_memory os m s) bs"
    and write_rest: "says s [] s \<Longrightarrow> rest s bs \<Longrightarrow> cstr (memory os s) p t \<Longrightarrow> p \<noteq> 0 \<Longrightarrow> \<not> c <s 0 \<Longrightarrow>
      ends (int_80 os 4 1 p c s) (\<lambda>(s', r). rest s' bs)"
begin

lemma write_both:
  assumes "says s [] s" "rest s bs" "cstr (memory os s) p t" "p \<noteq> 0" "\<not> n <s 0"
  shows "ends (int_80 os 4 1 p n s) (\<lambda>(s', r). r = n \<and> says s t s' \<and> keeps os own s s' \<and> rest s' bs)"
  using write_string [OF assms(1,3,4,5)] write_rest [OF assms] by (auto simp: ends_def)

lemma cat_loop_says:
  assumes "size = 1024" and "buf \<noteq> 0" and "1024 + length ts < 2147483648"
    and own: "\<forall>x. in_range buf (1024 + Suc (length ts)) x \<longrightarrow> own x"
  shows "says s [] s \<Longrightarrow> rest s bs \<Longrightarrow> load_bytes (memory os s) buf 1024 = b \<Longrightarrow>
    cstr (memory os s) (buf + 1024) ts \<Longrightarrow>
    ends (cat_loop os lit buf fd s) (\<lambda>(s', r). r = 0 \<and> says s (cat_output b bs ts) s')"
proof (induction "length bs" arbitrary: bs b s rule: less_induct)
  case less
  have owned: "own x" if "in_range buf 1024 x" for x
    using own in_range_mono [OF that, of "1024 + Suc (length ts)"] by simp
  have owned2: "own x" if "in_range (buf + 1024) (Suc (length ts)) x" for x
    using own in_range_sub [OF _ that, of buf "1024 + Suc (length ts)"] by simp
  have read: "ends (int_80 os 3 fd buf 1024 s) (\<lambda>(s', r). r = of_nat (length (take 1024 bs)) \<and> says s [] s'
      \<and> rest s' (drop 1024 bs) \<and> memory os s' = store_bytes (memory os s) buf (take 1024 bs))"
    using read_next [OF less.prems(1,2), of 0 1024] assms(1,2) by simp
  show ?case
  proof (cases "bs = []")
    case True
    then show ?thesis using read
      by (subst cat_loop.simps) (auto simp: ece391_read_def cat_output.simps [of b "[]"] elim!: ends_mono)
  next
    case False
    define chunk where "chunk = take 1024 bs"
    define b' where "b' = chunk @ drop (length chunk) b"
    have lb: "length b = 1024" using less.prems(3) by auto
    have lc: "length chunk \<le> 1024" "chunk \<noteq> []" "length b' = 1024" using False lb by (auto simp: chunk_def b'_def)
    have n: "(of_nat (length chunk) :: u32) \<noteq> 0" "(of_nat (length chunk) :: u32) \<noteq> - 1" "\<not> (of_nat (length chunk) :: u32) <s 0"
      using lc of_nat_eq32 [of "length chunk" 0] of_nat_eq32 [of "length chunk" 4294967295] length_signed [of chunk] by auto
    have step: "ends (Option.bind (int_80 os 4 1 buf (of_nat (length chunk)) s1)
        (\<lambda>(s, r). if r = - 1 then Some (s, 3) else cat_loop os lit buf fd s))
        (\<lambda>(s', r). r = 0 \<and> says s (cat_output b bs ts) s')"
      if s1: "says s [] s1" "rest s1 (drop 1024 bs)" "memory os s1 = store_bytes (memory os s) buf chunk" for s1
    proof -
      have b1: "load_bytes (memory os s1) buf 1024 = b'" unfolding s1(3) using lc lb less.prems(3)
        by (intro nth_equalityI) (auto simp: b'_def store_bytes_apply in_range_offset nth_append unat_of_nat32)
      have ts1: "cstr (memory os s1) (buf + 1024) ts" unfolding s1(3) by (rule cstr_behind [OF less.prems(4) lc(1) assms(3)])
      have str: "cstr (memory os s1) buf (string_in b' ts)"
        using b1 ts1 lc(3) assms(3) by (intro string_in_cstr) simp_all
      have next_: "ends (if r = - 1 then Some (s2, 3) else cat_loop os lit buf fd s2)
          (\<lambda>(s', r). r = 0 \<and> says s (cat_output b bs ts) s')"
        if s2: "r = of_nat (length chunk)" "says s1 (string_in b' ts) s2" "keeps os own s1 s2" "rest s2 (drop 1024 bs)" for s2 and r :: u32
      proof -
        have b2: "load_bytes (memory os s2) buf 1024 = b'" proof -
          have "load_bytes (memory os s2) buf 1024 = load_bytes (memory os s1) buf 1024"
            using s2(3) owned by (intro load_bytes_cong) (simp_all add: keeps_def)
          then show ?thesis using b1 by simp
        qed
        have ts2: "cstr (memory os s2) (buf + 1024) ts" using s2(3) owned2 by (intro cstr_cong [OF ts1]) (simp add: keeps_def)
        have "ends (cat_loop os lit buf fd s2) (\<lambda>(s', r). r = 0 \<and> says s2 (cat_output b' (drop 1024 bs) ts) s')"
          using False by (intro less.hyps [OF _ says_after [OF s2(2)] s2(4) b2 ts2]) simp
        moreover have "cat_output b bs ts = [] @ string_in b' ts @ cat_output b' (drop 1024 bs) ts"
          using False by (subst cat_output.simps) (simp add: Let_def chunk_def b'_def)
        ultimately show ?thesis
          using n(2) s2(1) says_trans [OF s1(1) says_trans [OF s2(2)]] by (auto elim!: ends_mono)
      qed
      show ?thesis
        using write_both [OF says_after [OF s1(1)] s1(2) str assms(2) n(3)] next_ by (auto elim!: ends_mono)
    qed
    show ?thesis
      using read step n by (subst cat_loop.simps)
        (auto simp: ece391_read_def ece391_write_def chunk_def [symmetric] elim!: ends_mono)
  qed
qed

end

section \<open>The kernel's files\<close>

text \<open>Descriptor \<open>fd\<close> is a regular file with the bytes \<open>bs\<close> left to read; \<open>buf\<close> is not in the image.\<close>

definition reading :: "u32 \<Rightarrow> u32 \<Rightarrow> nat \<Rightarrow> kernel \<Rightarrow> u8 list \<Rightarrow> bool" where
  "reading fd buf n k bs \<longleftrightarrow> (let f = file_fds (current k) ! unat fd
     in 2 \<le> unat fd \<and> unat fd < 8 \<and> flags f = 1 \<and> file_op f = FileJt \<and> n < 2147483648 \<and> image_safe k
        \<and> disj_ranges buf n (boot_block (fsys k)) (image_size (view k) (fsys k))
        \<and> (\<exists>ino. inode_ptr f = inode_addr (fsys k) ino \<and> inode_wf (view k) (fsys k) ino
             \<and> unat (file_pos f) \<le> file_size (view k) (fsys k) ino
             \<and> bs = drop (unat (file_pos f)) (file_content (view k) (fsys k) ino)))"

lemma image_safe_same:
  assumes "image_safe k" and "same_image (fsys k) (view k) (view k')" and "fsys k' = fsys k"
  shows "image_safe k'"
proof -
  have wf: "image_wf (view k) (fsys k)" using assms(1) by (simp add: image_safe_def)
  show ?thesis
    using assms same_image_wf [OF wf assms(2)] same_image_size [OF wf assms(2)] by (simp add: image_safe_def)
qed

text \<open>\<open>reading\<close> depends on the descriptor and the image only.\<close>

lemma reading_same:
  assumes r: "reading fd buf n k bs" and same: "same_image (fsys k) (view k) (view k')" and fs: "fsys k' = fsys k"
    and f: "file_fds (current k') ! unat fd = (file_fds (current k) ! unat fd)\<lparr>file_pos := pos\<rparr>"
    and pos: "unat pos = unat (file_pos (file_fds (current k) ! unat fd)) + d" and d: "d \<le> length bs"
  shows "reading fd buf n k' (drop d bs)"
proof -
  define g where "g = file_fds (current k) ! unat fd"
  obtain ino where ino: "inode_ptr g = inode_addr (fsys k) ino" "inode_wf (view k) (fsys k) ino"
    "unat (file_pos g) \<le> file_size (view k) (fsys k) ino" "bs = drop (unat (file_pos g)) (file_content (view k) (fsys k) ino)"
    using r by (auto simp: reading_def Let_def g_def)
  have wf: "image_wf (view k) (fsys k)" and safe: "image_safe k" using r by (auto simp: reading_def Let_def image_safe_def)
  have i: "inode_wf (view k') (fsys k) ino" "file_content (view k') (fsys k) ino = file_content (view k) (fsys k) ino"
    "file_size (view k') (fsys k) ino = file_size (view k) (fsys k) ino"
    using same_image_inode_wf [OF wf same ino(2)] same_image_content [OF wf same ino(2)]
      same_image_file_size [OF wf same] ino(2) by (auto simp: inode_wf_def)
  have "drop d bs = drop (unat pos) (file_content (view k) (fsys k) ino)"
    using pos by (simp add: ino(4) g_def add.commute)
  moreover have "unat pos \<le> file_size (view k) (fsys k) ino" using pos d ino(3,4) by (simp add: g_def)
  ultimately have "\<exists>ino. inode_ptr g = inode_addr (fsys k) ino \<and> inode_wf (view k') (fsys k) ino
      \<and> unat pos \<le> file_size (view k') (fsys k) ino \<and> drop d bs = drop (unat pos) (file_content (view k') (fsys k) ino)"
    using i ino(1) by metis
  then show ?thesis
    using r image_safe_same [OF safe same fs] same_image_size [OF wf same]
    unfolding reading_def Let_def f fs g_def [symmetric] by simp
qed

text \<open>What a driver's \<open>read\<close> does to the state: bytes in memory and a new position.\<close>

definition moved :: "u32 \<Rightarrow> u32 \<Rightarrow> mem \<Rightarrow> kernel \<Rightarrow> kernel" where
  "moved fd pos m k = update_pcb (curr_process k)
     (set_fd (unat fd) (\<lambda>_. (file_fds (current k) ! unat fd)\<lparr>file_pos := pos\<rparr>)) (set_view m (enabled k))"

lemma moved_simps:
  "view (moved fd pos m k) = m" "fsys (moved fd pos m k) = fsys k" "tty (moved fd pos m k) = tty k"
  "curr_process (moved fd pos m k) = curr_process k" "proc_state (moved fd pos m k) = proc_state k"
  "file_fds (current (moved fd pos m k)) =
     (file_fds (current k))[unat fd := (file_fds (current k) ! unat fd)\<lparr>file_pos := pos\<rparr>]"
  "parent_process (current (moved fd pos m k)) = parent_process (current k)"
  by (simp_all add: moved_def set_fd_def)

lemma moved_talks:
  assumes "talks k [] k" and fd: "2 \<le> unat fd" "unat fd < 8"
  shows "talks k [] (moved fd pos m k)"
proof -
  define k' where "k' = moved fd pos m k"
  note k'1 = moved_simps [of fd pos m k, folded k'_def]
  have std: "std_ok (current k)" "console_ok k" "length (file_fds (current k)) = 8"
    using assms(1) by (simp_all add: talks_def console_ok_def std_ok_def fds_ok_def)
  have "file_wf (file_fds (current k) ! unat fd)" using std(1) fd(2) fds_ok_nth by (simp add: std_ok_def)
  then have "std_ok (current k')"
    using std(1) fd unfolding std_ok_def fds_ok_def k'1(6) by (simp add: list_all_update file_wf_def)
  then have ok: "console_ok k'" using std(2) fd(1) unfolding console_ok_def k'1(3,6) by simp
  have "map flags (file_fds (current k')) = map flags (file_fds (current k))"
    unfolding k'1(6) using fd(2) std(3) by (intro nth_equalityI) (auto simp: nth_list_update)
  then have "same_use (current k) (current k')" using fd(1) unfolding same_use_def k'1(6,7) by simp
  moreover have "screen_text k' = screen_text k" using fd(1) unfolding screen_text_def k'1(3,6) by simp
  ultimately show ?thesis unfolding k'_def [symmetric] using std(2) ok k'1(4,5) by (simp add: talks_def)
qed

text \<open>A \<open>read\<close> on a descriptor whose driver succeeds.\<close>

lemma kernel_read_moved:
  assumes fd: "2 \<le> unat fd" "unat fd < 8" and flags: "flags (file_fds (current k) ! unat fd) = 1"
    and buf: "buf \<noteq> 0" "\<not> n <s 0"
    and drv: "read_fp E (file_op (file_fds (current k) ! unat fd)) = Some drv" "file_op (file_fds (current k) ! unat fd) \<noteq> NoOps"
      "drv (enabled k) (file_fds (current k) ! unat fd) buf n =
         Some (set_view m (enabled k), (file_fds (current k) ! unat fd)\<lparr>file_pos := pos\<rparr>, v)"
  shows "int_80 (kernel_os E run ecx edx) 3 fd buf n k = Some (moved fd pos m k, v)"
proof -
  define i where "i = unat fd"
  have "sint fd = int i" "i < 8" using sint_unat32 [of fd] fd(2) by (simp_all only: i_def)
  then have "\<not> fd <s 0" "\<not> 7 <s fd" by (simp_all add: word_sless_alt)
  then show ?thesis
    using flags buf drv by (simp add: int_80_read sys_read_def call_driver_def Let_def moved_def)
qed

lemma kernel_read_next:
  assumes k: "talks k [] k" and r: "reading fd start cap k bs" and l: "l + n \<le> cap" and nz: "start + of_nat l \<noteq> 0"
  shows "ends (int_80 (kernel_os E run ecx edx) 3 fd (start + of_nat l) (of_nat n) k)
    (\<lambda>(k', v). v = of_nat (length (take n bs)) \<and> talks k [] k' \<and> reading fd start cap k' (drop n bs)
       \<and> view k' = store_bytes (view k) (start + of_nat l) (take n bs))"
proof -
  define buf where "buf = start + of_nat l"
  define f where "f = file_fds (current k) ! unat fd"
  obtain ino where ino: "inode_ptr f = inode_addr (fsys k) ino" "inode_wf (view k) (fsys k) ino"
    "unat (file_pos f) \<le> file_size (view k) (fsys k) ino" "bs = drop (unat (file_pos f)) (file_content (view k) (fsys k) ino)"
    using r by (auto simp: reading_def Let_def f_def)
  have fd: "2 \<le> unat fd" "unat fd < 8" "flags f = 1" "file_op f = FileJt" "buf \<noteq> 0" "n < 2147483648"
    and safe: "image_safe k" and all: "disj_ranges start cap (boot_block (fsys k)) (image_size (view k) (fsys k))" "cap < 2147483648"
    using r l nz by (simp_all add: reading_def Let_def f_def buf_def)
  have disj: "disj_ranges buf n (boot_block (fsys k)) (image_size (view k) (fsys k))"
    using l all(2) by (intro disj_ranges_sub [OF all(1)]) (simp_all add: buf_def unat_of_nat32)
  have wf: "image_wf (view k) (fsys k)" using safe by (simp add: image_safe_def)
  have n: "unat (of_nat n :: u32) = n" "\<not> (of_nat n :: u32) <s 0" using fd(6) sless_of_nat32 [of n 0] by (simp_all add: unat_of_nat32)
  have size: "file_size (view k) (fsys k) ino \<le> 4190208" by (rule file_size_le [OF ino(2)])
  define c where "c = take n bs"
  have slice: "c = file_slice (view k) (fsys k) ino (unat (file_pos f)) (unat (of_nat n :: u32))"
    by (simp add: c_def ino(4) file_slice_def n)
  have rd: "file_read (view k) (fsys k) f buf (of_nat n) = Some (store_bytes (view k) buf c,
    f\<lparr>file_pos := file_pos f + of_nat (length c)\<rparr>, of_nat (length c))"
    using ino size fd(6) disj n by (intro file_read_slice [OF wf ino(2,1) _ _ slice]) simp_all
  have lc: "length c \<le> n" "length c \<le> length bs" by (simp_all add: c_def)
  have lb: "length bs = file_size (view k) (fsys k) ino - unat (file_pos f)" by (simp add: ino(4))
  have "unat (file_pos f) + length c < 4294967296" using lc lb size ino(3) by linarith
  then have pos: "unat (file_pos f + of_nat (length c)) = unat (file_pos f) + length c"
    using unat_of_nat32 [of "length c"] by (simp add: unat_plus_if')
  define k' where "k' = moved fd (file_pos f + of_nat (length c)) (store_bytes (view k) buf c) k"
  note k'1 = moved_simps [of fd "file_pos f + of_nat (length c)" "store_bytes (view k) buf c" k, folded k'_def]
  have same: "same_image (fsys k) (view k) (view k')" unfolding k'1(1)
    using lc fd(6) by (intro same_image_store disj_ranges_sub [OF disj]) simp_all
  have len: "length (file_fds (current k)) = 8" using k by (simp add: talks_def console_ok_def std_ok_def fds_ok_def)
  have "talks k [] k'" unfolding k'_def by (rule moved_talks [OF k fd(1,2)])
  moreover have "reading fd start cap k' (drop (length c) bs)"
    by (rule reading_same [OF r same k'1(2) _ pos [unfolded f_def] lc(2)]) (use fd(2) len in \<open>simp add: k'1(6) f_def\<close>)
  moreover have "drop (length c) bs = drop n bs" by (cases "length bs \<le> n") (simp_all add: c_def)
  moreover have "int_80 (kernel_os E run ecx edx) 3 fd buf (of_nat n) k = Some (k', of_nat (length c))"
    unfolding k'_def using fd n(2) rd
    by (intro kernel_read_moved [OF fd(1,2) _ fd(5) n(2), of k E "\<lambda>k f buf n. map_option (\<lambda>(m, f, r). (set_view m k, f, r)) (file_read (view k) (fsys k) f buf n)"])
      (simp_all add: f_def)
  ultimately show ?thesis using k'1(1) by (simp add: c_def buf_def)
qed

interpretation regular_file: file_reader "kernel_os E run ecx edx" off_screen talks fd buf cap "reading fd buf cap"
  for E run ecx edx fd buf cap
proof
  fix k bs and l n :: nat
  assume "talks k [] k" and "reading fd buf cap k bs" and "l + n \<le> cap" and "buf + of_nat l \<noteq> 0"
  from kernel_read_next [OF this, of E run ecx edx]
  show "ends (int_80 (kernel_os E run ecx edx) 3 fd (buf + of_nat l) (of_nat n) k)
    (\<lambda>(k', v). v = of_nat (length (take n bs)) \<and> talks k [] k' \<and> reading fd buf cap k' (drop n bs)
       \<and> memory (kernel_os E run ecx edx) k' = store_bytes (memory (kernel_os E run ecx edx) k) (buf + of_nat l) (take n bs))"
    by simp
next
  fix k bs m
  assume r: "reading fd buf cap k bs" and m: "\<forall>x. \<not> in_range buf cap x \<longrightarrow> m x = memory (kernel_os E run ecx edx) k x"
  have "same_image (fsys k) (view k) (view (set_view m k))"
    using r m disj_rangesD by (fastforce simp: reading_def Let_def same_image_def)
  from reading_same [OF r this, of "file_pos (file_fds (current k) ! unat fd)" 0]
  show "reading fd buf cap (set_memory (kernel_os E run ecx edx) m k) bs" by simp
next
  fix k bs p t and c :: u32
  assume k: "talks k [] k" and r: "reading fd buf cap k bs" and s: "cstr (memory (kernel_os E run ecx edx) k) p t" "p \<noteq> 0" "\<not> c <s 0"
  have ok: "console_ok k" using k by (simp add: talks_def)
  obtain k' where k': "int_80 (kernel_os E run ecx edx) 4 1 p c k = Some (k', c)" "\<forall>x. off_screen x \<longrightarrow> view k' x = view k x"
    "proc_state k' = proc_state k" "pcbs k' = pcbs k" "curr_process k' = curr_process k"
    using kernel_write_string [OF ok s(1) [unfolded kernel_os_simps] s(2,3)] by metis
  have safe: "image_safe k" using r by (simp add: reading_def Let_def)
  have fs: "fsys k' = fsys k" using k'(3) by (simp add: proc_state_def)
  have "same_image (fsys k) (view k) (view k')" using image_later [OF safe k'(2) fs] by simp
  from reading_same [OF r this fs, of "file_pos (file_fds (current k) ! unat fd)" 0] k'
  show "ends (int_80 (kernel_os E run ecx edx) 4 1 p c k) (\<lambda>(k', v). reading fd buf cap k' bs)" by simp
qed

lemma lowest_free_std: "std_ok p \<Longrightarrow> 2 \<le> lowest_free p"
proof -
  assume p: "std_ok p"
  then obtain a b fs where "file_fds p = a # b # fs"
    by (auto simp: std_ok_def fds_ok_def numeral_eq_Suc length_Suc_conv)
  then show ?thesis using p by (simp add: lowest_free_def std_ok_def)
qed

lemma dir_entry_same:
  assumes "image_wf m fs" and "same_image fs m m'" and "dir_index m fs name = Some j"
  shows "copy_dentry m' (dir_entry fs j) = copy_dentry m (dir_entry fs j)"
proof -
  have "j \<in> set (map of_nat [0..<unat (num_dir_entries m fs)])"
    using assms(3) unfolding dir_index_def by (auto simp: find_Some_iff in_set_conv_nth)
  then have "unat j < unat (num_dir_entries m fs)" by (auto simp: unat_of_nat32 less_trans [OF _ unat_lt32])
  then show ?thesis by (rule same_image_dentry [OF assms(1,2)])
qed

section \<open>Getting the argument and opening the file\<close>

lemma kernel_open_file:
  assumes "console_ok k" and "image_safe k" and "lowest_free (current k) < 8"
    and name: "cstr (view k) p name" "p \<noteq> 0" "dir_index (view k) (fsys k) (take 31 name) = Some j"
    and entry: "d = copy_dentry (view k) (dir_entry (fsys k) j)" "file_type d = 2" "inode_wf (view k) (fsys k) (inode_num d)"
    and buf: "n < 2147483648" "disj_ranges buf n (boot_block (fsys k)) (image_size (view k) (fsys k))"
  shows "\<exists>k' fd. ece391_open (kernel_os E run ecx edx) p k = Some (k', of_nat fd) \<and> fd < 8 \<and> talks k' [] k'
    \<and> screen_text k' = screen_text k \<and> view k' = view k \<and> curr_process k' = curr_process k
    \<and> map flags (file_fds (current k')) = (map flags (file_fds (current k)))[fd := 1] \<and> flags (file_fds (current k) ! fd) \<noteq> 1
    \<and> reading (of_nat fd) buf n k' (file_content (view k) (fsys k) (inode_num d))"
proof -
  define fd where "fd = lowest_free (current k)"
  define f where "f = (file_fds (current k) ! fd)\<lparr>file_op := FileJt, inode_ptr := inode_addr (fsys k) (inode_num d), file_pos := 0, flags := 1\<rparr>"
  define k' where "k' = update_pcb (curr_process k) (set_fd fd (\<lambda>_. f)) (enabled k)"
  have std: "std_ok (current k)" "length (file_fds (current k)) = 8" using assms(1) by (simp_all add: console_ok_def std_ok_def fds_ok_def)
  have fd: "2 \<le> fd" "fd < 8" using lowest_free_std [OF std(1)] assms(3) by (simp_all add: fd_def)
  have "fds_inv (enabled k)" using std(1) by (simp add: fds_inv_def std_ok_def)
  moreover have "\<not> num_inodes (view k) (fsys k) \<le> inode_num d" using entry(3) by (simp add: inode_wf_def not_le)
  ultimately have op: "ece391_open (kernel_os E run ecx edx) p k = Some (k', of_nat fd)"
    using sys_open_free [of "enabled k" p name E] name entry(1,2) fd(2)
    by (simp add: ece391_open_def int_80_open Let_def fd_def [symmetric] k'_def f_def)
  have k': "view k' = view k" "fsys k' = fsys k" "file_fds (current k') = (file_fds (current k))[fd := f]" "tty k' = tty k"
    "curr_process k' = curr_process k" "parent_process (current k') = parent_process (current k)"
    by (simp_all add: k'_def set_fd_def)
  have "std_ok (current k')"
    using std fd unfolding std_ok_def fds_ok_def k'(3) by (simp add: list_all_update file_wf_def f_def)
  then have "console_ok k'" using assms(1) fd unfolding console_ok_def k'(3,4) by simp
  then have t: "talks k' [] k'" by (simp add: talks_def)
  have shows_same: "screen_text k' = screen_text k" using fd unfolding screen_text_def k'(3,4) by simp
  have "image_safe k'" using assms(2) by (simp add: image_safe_def k')
  then have "reading (of_nat fd) buf n k' (file_content (view k) (fsys k) (inode_num d))"
    using fd std(2) buf entry(3) unfolding reading_def Let_def k'(1-3)
    by (auto simp: unat_of_nat32 f_def intro!: exI [of _ "inode_num d"])
  moreover have "map flags (file_fds (current k')) = (map flags (file_fds (current k)))[fd := 1]"
    unfolding k'(3) by (simp add: map_update f_def)
  moreover have "flags (file_fds (current k) ! fd) \<noteq> 1"
    using fd std(2) nth_length_takeWhile [of "\<lambda>f. flags f = 1" "file_fds (current k)"] by (simp add: fd_def lowest_free_def)
  ultimately show ?thesis using op fd(2) t shows_same k'(1,5) by blast
qed

lemma cat_opens:
  assumes "console_ok k" and "image_safe k" and "lowest_free (current k) < 8"
    and arg: "cstr (view k) (args k) name" "length name < 1024"
    and entry: "dir_index (view k) (fsys k) (take 31 name) = Some j"
      "d = copy_dentry (view k) (dir_entry (fsys k) j)" "file_type d = 2" "inode_wf (view k) (fsys k) (inode_num d)"
    and buf: "buf \<noteq> 0" "disj_ranges buf 1024 (boot_block (fsys k)) (image_size (view k) (fsys k))"
      "disj_ranges buf 1024 (args k) (Suc (length name))"
  shows "\<exists>k1 k2 fd. ece391_getargs (kernel_os E run ecx edx) buf 1024 k = Some (k1, 0)
    \<and> ece391_open (kernel_os E run ecx edx) buf k1 = Some (k2, of_nat fd) \<and> fd < 8 \<and> talks k2 [] k2
    \<and> screen_text k2 = screen_text k \<and> reading (of_nat fd) buf 1024 k2 (file_content (view k) (fsys k) (inode_num d))
    \<and> view k2 = store_bytes (view k) buf (name @ replicate (1024 - length name) 0)"
proof -
  let ?os = "kernel_os E run ecx edx"
  define b where "b = name @ replicate (1024 - length name) 0"
  define k1 where "k1 = set_view (store_bytes (view k) buf b) (enabled k)"
  have lb: "length b = 1024" using arg(2) by (simp add: b_def)
  have v1: "view k1 = store_bytes (view k) buf b" "fsys k1 = fsys k" "pcbs k1 = pcbs k" "curr_process k1 = curr_process k"
    "tty k1 = tty k" by (simp_all add: k1_def)
  have ga: "ece391_getargs ?os buf 1024 k = Some (k1, 0)"
    using getargs_eq [of "enabled k" name buf 1024] arg buf(3)
    by (simp add: ece391_getargs_def int_80_getargs k1_def b_def)
  have wf: "image_wf (view k) (fsys k)" using assms(2) by (simp add: image_safe_def)
  have same: "same_image (fsys k) (view k) (view k1)"
    unfolding v1(1) using lb buf(2) by (intro same_image_store) simp_all
  have safe1: "image_safe k1" by (rule image_safe_same [OF assms(2) same v1(2)])
  have nul: "cstr (view k1) buf name"
    using arg lb cstr_nonzero [OF arg(1)]
    by (auto simp: cstr_iff v1(1) store_bytes_apply in_range_offset unat_of_nat32 b_def nth_append)
  have d1: "dir_index (view k1) (fsys k1) (take 31 name) = Some j" "copy_dentry (view k1) (dir_entry (fsys k1) j) = d"
    unfolding v1(2) entry(2) by (simp_all only: same_image_dir_index [OF wf same] entry(1) dir_entry_same [OF wf same entry(1)])
  have ok1: "console_ok k1" using assms(1) by (simp add: console_ok_def v1)
  have ino: "inode_wf (view k1) (fsys k1) (inode_num d)"
    "file_content (view k1) (fsys k1) (inode_num d) = file_content (view k) (fsys k) (inode_num d)"
    unfolding v1(2) by (rule same_image_inode_wf [OF wf same entry(4)], rule same_image_content [OF wf same entry(4)])
  have far: "disj_ranges buf 1024 (boot_block (fsys k1)) (image_size (view k1) (fsys k1))"
    using buf(2) same_image_size [OF wf same] by (simp add: v1(2))
  have text_same: "screen_text k1 = screen_text k" by (simp add: screen_text_def v1)
  obtain k2 fd where "ece391_open ?os buf k1 = Some (k2, of_nat fd)" "fd < 8" "talks k2 [] k2" "screen_text k2 = screen_text k1"
    "view k2 = view k1" "reading (of_nat fd) buf 1024 k2 (file_content (view k1) (fsys k1) (inode_num d))"
    using kernel_open_file [OF ok1 safe1 _ nul buf(1) d1(1) d1(2) [symmetric] entry(3) ino(1) _ far, of E run ecx edx]
      assms(3) v1(3,4) by auto
  then show ?thesis using ga text_same ino(2) v1(1) unfolding b_def by metis
qed

text \<open>A text file that fits in the buffer, with more than nothing in it.\<close>

lemma cat_output_short:
  assumes "0 \<notin> set c" and "c \<noteq> []" and "length c < 1024" and "0 \<notin> set name" and "length name < 1024"
  shows "cat_output (name @ replicate (1024 - length name) 0) c ts = c @ drop (length c) name"
proof -
  define n where "n = 1024 - length name - (length c - length name)"
  have n: "0 < n" using assms(3,5) by (simp add: n_def)
  have b: "c @ drop (length c) (name @ replicate (1024 - length name) 0) = (c @ drop (length c) name) @ replicate n 0"
    by (simp add: n_def)
  have "0 \<notin> set (c @ drop (length c) name)" using assms(1,4) by (auto dest: in_set_dropD)
  then have "takeWhile (\<lambda>c. c \<noteq> 0) ((c @ drop (length c) name) @ replicate n 0) = c @ drop (length c) name"
    by (subst takeWhile_append2) (auto simp: takeWhile_replicate)
  then have "string_in ((c @ drop (length c) name) @ replicate n 0) ts = c @ drop (length c) name"
    using n by (simp add: string_in_def)
  then show ?thesis
    using assms(2,3) b by (subst cat_output.simps) (simp add: Let_def cat_output.simps [of _ "[]"])
qed

section \<open>A sample kernel\<close>

definition cat_kernel :: kernel where
  "cat_kernel = sample_kernel\<lparr>args := 0x100\<rparr>"

lemma cat_kernel_fields:
  "view cat_kernel = sample_mem" "fsys cat_kernel = sample_fs" "args cat_kernel = 0x100"
  "current cat_kernel = current sample_kernel" "tty cat_kernel = sample_terminal"
proof -
  have "view (k\<lparr>args := a\<rparr>) = view k" for k a by (auto simp: view_def fun_eq_iff split: option.splits)
  then show "view cat_kernel = sample_mem" by (simp add: cat_kernel_def sample_kernel_view)
qed (simp_all add: cat_kernel_def sample_kernel_def)

lemma cat_kernel_ok: "console_ok cat_kernel" "image_safe cat_kernel" "lowest_free (current cat_kernel) < 8"
  using sample_kernel_std sample_terminal_ok sample_image_wf
  by (auto simp: console_ok_def image_safe_def cat_kernel_fields sample_kernel_fields shell_pcb_def closed_file_def
      sample_header sample_boot lowest_free_def intro!: low_off_screen in_range_low)

section \<open>Properties\<close>

text \<open>
  C25. \<open>cat\<close> of a regular file, from the command line to the screen: the program gets its argument, opens
  the file, prints it and ends with 0. What it prints is \<open>cat_output\<close>: each chunk of at most 1024 bytes
  up to its first NUL, followed, when the chunk does not fill the buffer, by what the buffer held behind
  it, because the kernel's \<open>write\<close> ignores the count. A text file shorter than the buffer,
  if it is not empty, is shown as it is when it is not shorter than its own name; otherwise the end of the name follows it.
\<close>

theorem cat_spec:
  assumes "console_ok k" and "image_safe k" and "lowest_free (current k) < 8"
    and arg: "cstr (view k) (args k) name" "length name < 1024"
    and entry: "dir_index (view k) (fsys k) (take 31 name) = Some j"
      "d = copy_dentry (view k) (dir_entry (fsys k) j)" "file_type d = 2" "inode_wf (view k) (fsys k) (inode_num d)"
    and buf: "buf \<noteq> 0" "disj_ranges buf 1024 (boot_block (fsys k)) (image_size (view k) (fsys k))"
      "disj_ranges buf 1024 (args k) (Suc (length name))"
    and tail: "\<forall>x. in_range buf (1024 + Suc (length ts)) x \<longrightarrow> off_screen x" "1024 + length ts < 2147483648"
      "cstr (view k) (buf + 1024) ts"
  defines "content \<equiv> file_content (view k) (fsys k) (inode_num d)"
  shows "\<exists>k' out. cat (kernel_os E run ecx edx) lit buf k = Some (k', 0)
    \<and> screen_text k' = fold put_text out (screen_text k)
    \<and> out = cat_output (name @ replicate (1024 - length name) 0) content ts
    \<and> (0 \<notin> set content \<and> content \<noteq> [] \<and> length content < 1024 \<longrightarrow> out = content @ drop (length content) name)"
proof -
  let ?os = "kernel_os E run ecx edx"
  define b where "b = name @ replicate (1024 - length name) 0"
  have lb: "length b = 1024" using arg(2) by (simp add: b_def)
  obtain k1 k2 fd where go: "ece391_getargs ?os buf 1024 k = Some (k1, 0)" "ece391_open ?os buf k1 = Some (k2, of_nat fd)"
    "fd < 8" "talks k2 [] k2" "screen_text k2 = screen_text k" "reading (of_nat fd) buf 1024 k2 content"
    "view k2 = store_bytes (view k) buf b"
    using cat_opens [OF assms(1-3) arg entry buf, of E run ecx edx] unfolding content_def b_def by blast
  have l2: "load_bytes (view k2) buf 1024 = b" using load_store_bytes [of b "view k" buf] lb by (simp add: go(7))
  have ts2: "cstr (view k2) (buf + 1024) ts"
    unfolding go(7) using lb by (intro cstr_behind [OF tail(3) _ tail(2)]) simp
  have "ends (cat_loop ?os lit buf (of_nat fd) k2) (\<lambda>(k', r). r = 0 \<and> talks k2 (cat_output b content ts) k')"
    using go(4,6) l2 ts2 by (intro regular_file.cat_loop_says [OF refl buf(1) tail(2,1)]) simp_all
  then obtain k' where k': "cat_loop ?os lit buf (of_nat fd) k2 = Some (k', 0)" "talks k2 (cat_output b content ts) k'"
    by (auto simp: ends_def)
  have "(of_nat fd :: u32) \<noteq> - 1" using go(3) unat_of_nat32 [of fd] unat_minus_1_32 by fastforce
  then have "cat ?os lit buf k = Some (k', 0)" using go(1,2) k'(1) by (simp add: cat_def)
  moreover have "0 \<notin> set name" using arg(1) by (simp add: cstr_def)
  ultimately show ?thesis
    using talks_screen [OF k'(2)] go(5) cat_output_short [OF _ _ _ _ arg(2)] by (auto simp: b_def)
qed

theorem cat_spec_witness:
  "\<exists>k'. cat (kernel_os sample_env (\<lambda>_. None) 0 0) (\<lambda>_. 0x200) 0x1000 cat_kernel = Some (k', 0)"
proof -
  have far: "\<forall>x. in_range 0x1000 (1024 + Suc (length [])) x \<longrightarrow> off_screen x"
    using in_range_bound [of "0x1000" 1025] by (fastforce intro!: low_off_screen)
  have nul: "cstr (view cat_kernel) (0x1000 + 1024) []" by (simp add: cat_kernel_fields cstr_def sample_mem_def)
  show ?thesis
    using cat_spec [OF cat_kernel_ok _ _ _ refl _ _ _ _ _ far _ nul, of "[0x61]" 0 sample_env "\<lambda>_. None" 0 0 "\<lambda>_. 0x200"]
      sample_name sample_dir_index sample_dentry sample_inode_wf sample_disj [of 1024]
    by (auto simp: cat_kernel_fields sample_keys sample_header disj_ranges_def)
qed

end
