(* ===== verification/LsSpec.thy ===== *)
theory LsSpec
  imports CatSpec
begin

text \<open>
  \<open>ls\<close> on the kernel: it prints the names in the directory, one a line. The locale \<open>name_reader\<close> is its
  contract with a directory descriptor, discharged for the kernel's \<open>read\<close>. A name of at most 30
  characters leaves a NUL behind the newline \<open>ls\<close> appends to it; the kernel's \<open>write\<close>, which ignores the
  count, depends on it.
\<close>

section \<open>Reading names\<close>

locale name_reader = console os own says
  for os :: "'s os" and own and says +
  fixes fd :: u32 and buf :: u32 and rest :: "'s \<Rightarrow> u8 list list \<Rightarrow> bool"
  assumes read_name: "says s [] s \<Longrightarrow> rest s (n # ns) \<Longrightarrow>
      ends (int_80 os 3 fd buf 32 s) (\<lambda>(s', r). r = of_nat (length n) \<and> says s [] s' \<and> rest s' ns
        \<and> memory os s' = store_bytes (memory os s) buf (padded_name n))"
    and read_end: "says s [] s \<Longrightarrow> rest s [] \<Longrightarrow> ends (int_80 os 3 fd buf 32 s) (\<lambda>(s', r). r = 0 \<and> says s [] s')"
    and write_rest: "says s [] s \<Longrightarrow> rest s ns \<Longrightarrow> cstr (memory os s) p t \<Longrightarrow> p \<noteq> 0 \<Longrightarrow> \<not> c <s 0 \<Longrightarrow>
      ends (int_80 os 4 1 p c s) (\<lambda>(s', r). rest s' ns)"
    and poke_rest: "rest s ns \<Longrightarrow> i < 32 \<Longrightarrow> rest (poke os (buf + of_nat i) b s) ns"
begin

lemma newline_cstr:
  assumes "0 \<notin> set n" and "length n \<le> 30"
  shows "cstr ((store_bytes m buf (padded_name n))(buf + of_nat (length n) := 0x0A)) buf (n @ [0x0A])"
proof -
  have at: "store_bytes m buf (padded_name n) (buf + of_nat i) = (padded_name n) ! i" if "i < 32" for i
    using that assms(2) by (simp add: store_bytes_apply in_range_offset unat_of_nat32)
  moreover have "store_bytes m buf (padded_name n) (buf + (1 + of_nat (length n))) = 0"
    using at [of "Suc (length n)"] assms(2) by (simp add: padded_name_def nth_append)
  moreover have "buf + of_nat i = buf + of_nat (length n) \<longleftrightarrow> i = length n" if "i < 32" for i
    using that assms(2) of_nat_eq32 [of i "length n"] by simp
  ultimately show ?thesis
    using assms by (auto simp: cstr_iff padded_name_def nth_append less_Suc_eq)
qed

lemma ls_loop_says:
  assumes "buf \<noteq> 0"
  shows "says s [] s \<Longrightarrow> rest s ns \<Longrightarrow> list_all (\<lambda>n. n \<noteq> [] \<and> 0 \<notin> set n \<and> length n \<le> 30) ns \<Longrightarrow>
    ends (ls_loop os lit buf fd s) (\<lambda>(s', r). r = 0 \<and> says s (concat (map (\<lambda>n. n @ [0x0A]) ns)) s')"
proof (induction ns arbitrary: s)
  case Nil
  from read_end [OF Nil(1,2)] show ?case
    by (subst ls_loop.simps) (auto simp: ece391_read_def elim!: ends_mono)
next
  case (Cons n ns)
  have n: "n \<noteq> []" "0 \<notin> set n" "length n \<le> 30" and ns: "list_all (\<lambda>n. n \<noteq> [] \<and> 0 \<notin> set n \<and> length n \<le> 30) ns"
    using Cons.prems(3) by simp_all
  define l :: u32 where "l = of_nat (length n)"
  have u: "unat l = length n" "unat (l + 1) = length n + 1"
    using n(3) unat_of_nat32 [of "length n"] unat_of_nat32 [of "length n + 1"] by (simp_all add: l_def add.commute)
  have l: "l \<noteq> 0" "l \<noteq> - 1" "\<not> l + 1 <s 0"
    using n u sless_of_nat32 [of "length n + 1" 0] by (auto simp: l_def add.commute)
  have l1: "l + 1 \<noteq> - 1"
  proof
    assume "l + 1 = - 1"
    then have "unat (l + 1) = 4294967295" by (simp only: unat_minus_1_32)
    then show False using u(2) n(3) by linarith
  qed
  have step: "ends (Option.bind (int_80 os 4 1 buf (l + 1) s2) (\<lambda>(s, r). if r = - 1 then Some (s, 3) else ls_loop os lit buf fd s))
      (\<lambda>(s', r). r = 0 \<and> says s (concat (map (\<lambda>n. n @ [0x0A]) (n # ns))) s')"
    if s1: "says s [] s1" "rest s1 ns" "memory os s1 = store_bytes (memory os s) buf (padded_name n)"
      and s2: "s2 = poke os (buf + l) 0x0A s1" for s1 s2
  proof -
    have "says s1 [] s2" unfolding s2 poke_def by (rule says_set [OF says_after [OF s1(1)]])
    then have ok: "says s [] s2" using says_trans [OF s1(1)] by fastforce
    have r2: "rest s2 ns" unfolding s2 l_def using n(3) by (intro poke_rest [OF s1(2)]) simp
    have c2: "cstr (memory os s2) buf (n @ [0x0A])"
      unfolding s2 poke_def memory_set s1(3) l_def by (rule newline_cstr [OF n(2,3)])
    have "ends (if r = - 1 then Some (s3, 3) else ls_loop os lit buf fd s3)
        (\<lambda>(s', r). r = 0 \<and> says s (concat (map (\<lambda>n. n @ [0x0A]) (n # ns))) s')"
      if "r = l + 1" "says s2 (n @ [0x0A]) s3" "rest s3 ns" for s3 and r :: u32
      using Cons.IH [OF says_after [OF that(2)] that(3) ns] l1 that(1) says_trans [OF ok says_trans [OF that(2)]]
      by (auto elim!: ends_mono)
    then show ?thesis
      using write_string [OF says_after [OF ok] c2 assms l(3)] write_rest [OF says_after [OF ok] r2 c2 assms l(3)]
      by (auto simp: ends_def)
  qed
  show ?case
    using read_name [OF Cons.prems(1,2)] step l(1,2)
    by (subst ls_loop.simps) (auto simp: ece391_read_def ece391_write_def l_def [symmetric] elim!: ends_mono)
qed

end

section \<open>The kernel's directory\<close>

text \<open>Descriptor \<open>fd\<close> is the directory with the names \<open>ns\<close> left to read.\<close>

definition names_from :: "kernel \<Rightarrow> nat \<Rightarrow> u8 list list" where
  "names_from k i = map (\<lambda>i. entry_name (view k) (fsys k) (of_nat i)) [i..<unat (num_dir_entries (view k) (fsys k))]"

definition listing :: "u32 \<Rightarrow> u32 \<Rightarrow> kernel \<Rightarrow> u8 list list \<Rightarrow> bool" where
  "listing fd buf k ns \<longleftrightarrow> (let f = file_fds (current k) ! unat fd
     in 2 \<le> unat fd \<and> unat fd < 8 \<and> flags f = 1 \<and> file_op f = DirectoryJt \<and> buf \<noteq> 0 \<and> image_safe k
        \<and> disj_ranges buf 32 (boot_block (fsys k)) (image_size (view k) (fsys k))
        \<and> list_all (\<lambda>n. length n < 32) ns \<and> ns = names_from k (unat (file_pos f)))"

lemma names_from_same:
  assumes "image_wf (view k) (fsys k)" and "same_image (fsys k) (view k) (view k')" and "fsys k' = fsys k"
  shows "names_from k' i = names_from k i"
proof -
  have "entry_name (view k') (fsys k) (of_nat j) = entry_name (view k) (fsys k) (of_nat j)"
    if "j < unat (num_dir_entries (view k) (fsys k))" for j
    using that less_trans [OF that unat_lt32]
    by (intro same_image_entry_name [OF assms(1,2)]) (simp add: word_less_nat_alt unat_of_nat32)
  then show ?thesis by (simp add: names_from_def assms(3) same_image_header(1) [OF assms(1,2)])
qed

lemma listing_same:
  assumes r: "listing fd buf k ns" and same: "same_image (fsys k) (view k) (view k')" and fs: "fsys k' = fsys k"
    and f: "file_fds (current k') ! unat fd = (file_fds (current k) ! unat fd)\<lparr>file_pos := pos\<rparr>"
    and pos: "names_from k (unat pos) = ns'" "list_all (\<lambda>n. length n < 32) ns'"
  shows "listing fd buf k' ns'"
proof -
  have safe: "image_safe k" using r by (simp add: listing_def Let_def)
  then have wf: "image_wf (view k) (fsys k)" by (simp add: image_safe_def)
  show ?thesis
    using r image_safe_same [OF safe same fs] same_image_size [OF wf same] names_from_same [OF wf same fs] pos
    unfolding listing_def Let_def f fs by simp
qed

lemma listing_still:
  assumes r: "listing fd buf k ns" and "same_image (fsys k) (view k) (view k')" and "fsys k' = fsys k"
    and "file_fds (current k') = file_fds (current k)"
  shows "listing fd buf k' ns"
proof -
  have "names_from k (unat (file_pos (file_fds (current k) ! unat fd))) = ns" "list_all (\<lambda>n. length n < 32) ns"
    using r by (auto simp: listing_def Let_def)
  then show ?thesis by (intro listing_same [OF assms(1-3)]) (simp_all add: assms(4))
qed

lemma dir_read_short:
  assumes "file_pos f < num_dir_entries m fs" and "length (entry_name m fs (file_pos f)) < 32"
  shows "dir_read m fs d f buf 32 =
    Some (store_bytes m buf (padded_name (entry_name m fs (file_pos f))), f\<lparr>file_pos := file_pos f + 1\<rparr>,
      of_nat (length (entry_name m fs (file_pos f))))"
proof -
  define t where "t = entry_name m fs (file_pos f)"
  have t: "0 \<notin> set t" "length t < 32" unfolding t_def by (rule entry_name_chars, rule assms(2))
  have "cstr (store_bytes m buf (padded_name t)) buf t"
    using t by (auto simp: cstr_iff store_bytes_apply in_range_offset unat_of_nat32 padded_name_def nth_append)
  then have "strlen (store_bytes m buf (padded_name t)) buf = Some (of_nat (length t))" by (rule strlen_cstr)
  then show ?thesis
    using assms(1)
    by (simp add: dir_read_def read_dentry_by_index_def not_le [symmetric] strncpy_list_entry
        word_sless_alt Let_def t_def)
qed

lemma kernel_read_name:
  assumes k: "talks k [] k" and r: "listing fd buf k (n # ns)"
  shows "ends (int_80 (kernel_os E run ecx edx) 3 fd buf 32 k)
    (\<lambda>(k', v). v = of_nat (length n) \<and> talks k [] k' \<and> listing fd buf k' ns \<and> view k' = store_bytes (view k) buf (padded_name n))"
proof -
  define f where "f = file_fds (current k) ! unat fd"
  have fd: "2 \<le> unat fd" "unat fd < 8" "flags f = 1" "file_op f = DirectoryJt" "buf \<noteq> 0"
    and disj: "disj_ranges buf 32 (boot_block (fsys k)) (image_size (view k) (fsys k))"
    and names: "names_from k (unat (file_pos f)) = n # ns" and short: "length n < 32" "list_all (\<lambda>n. length n < 32) ns"
    using r by (simp_all add: listing_def Let_def f_def)
  have pos: "file_pos f < num_dir_entries (view k) (fsys k)"
  proof (rule ccontr)
    assume "\<not> file_pos f < num_dir_entries (view k) (fsys k)"
    then show False using names by (simp add: names_from_def word_less_nat_alt)
  qed
  then have n: "n = entry_name (view k) (fsys k) (file_pos f)" "ns = names_from k (unat (file_pos f + 1))"
    using names by (simp_all add: names_from_def word_less_nat_alt upt_conv_Cons unat_succ_less)
  define k' where "k' = moved fd (file_pos f + 1) (store_bytes (view k) buf (padded_name n)) k"
  note k'1 = moved_simps [of fd "file_pos f + 1" "store_bytes (view k) buf (padded_name n)" k, folded k'_def]
  have same: "same_image (fsys k) (view k) (view k')"
    unfolding k'1(1) using short(1) disj by (intro same_image_store) simp_all
  have len: "length (file_fds (current k)) = 8" using k by (simp add: talks_def console_ok_def std_ok_def fds_ok_def)
  have "talks k [] k'" unfolding k'_def by (rule moved_talks [OF k fd(1,2)])
  moreover have "listing fd buf k' ns"
    by (rule listing_same [OF r same k'1(2) _ n(2) [symmetric] short(2)]) (use fd(2) len in \<open>simp add: k'1(6) f_def\<close>)
  moreover have "int_80 (kernel_os E run ecx edx) 3 fd buf 32 k = Some (k', of_nat (length n))"
    unfolding k'_def using fd pos short(1) dir_read_short [of f "view k" "fsys k" "stack_dentry E" buf] n(1)
    by (intro kernel_read_moved [OF fd(1,2) _ fd(5) _, of k 32 E
          "\<lambda>k f buf n. map_option (\<lambda>(m, f, r). (set_view m k, f, r)) (dir_read (view k) (fsys k) (stack_dentry E) f buf n)"])
      (simp_all add: f_def word_sless_alt)
  ultimately show ?thesis using k'1(1) by simp
qed

lemma kernel_read_end:
  assumes k: "talks k [] k" and r: "listing fd buf k []"
  shows "ends (int_80 (kernel_os E run ecx edx) 3 fd buf 32 k) (\<lambda>(k', v). v = 0 \<and> talks k [] k')"
proof -
  define f where "f = file_fds (current k) ! unat fd"
  have fd: "2 \<le> unat fd" "unat fd < 8" "flags f = 1" "file_op f = DirectoryJt" "buf \<noteq> 0"
    and names: "names_from k (unat (file_pos f)) = []"
    using r by (simp_all add: listing_def Let_def f_def)
  have "\<not> file_pos f < num_dir_entries (view k) (fsys k)" using names by (auto simp: names_from_def word_less_nat_alt)
  then have "int_80 (kernel_os E run ecx edx) 3 fd buf 32 k = Some (moved fd (file_pos f) (view k) k, 0)"
    using fd
    by (intro kernel_read_moved [OF fd(1,2) _ fd(5) _, of k 32 E
          "\<lambda>k f buf n. map_option (\<lambda>(m, f, r). (set_view m k, f, r)) (dir_read (view k) (fsys k) (stack_dentry E) f buf n)"])
      (simp_all add: f_def word_sless_alt dir_read_def not_less)
  then show ?thesis using moved_talks [OF k fd(1,2)] by simp
qed

interpretation directory_names: name_reader "kernel_os E run ecx edx" off_screen talks fd buf "listing fd buf"
  for E run ecx edx fd buf
proof
  fix k n ns
  assume "talks k [] k" and "listing fd buf k (n # ns)"
  from kernel_read_name [OF this, of E run ecx edx]
  show "ends (int_80 (kernel_os E run ecx edx) 3 fd buf 32 k) (\<lambda>(k', v). v = of_nat (length n) \<and> talks k [] k'
      \<and> listing fd buf k' ns \<and> memory (kernel_os E run ecx edx) k' = store_bytes (memory (kernel_os E run ecx edx) k) buf (padded_name n))"
    by simp
next
  fix k
  assume "talks k [] k" and "listing fd buf k []"
  then show "ends (int_80 (kernel_os E run ecx edx) 3 fd buf 32 k) (\<lambda>(k', v). v = 0 \<and> talks k [] k')"
    by (rule kernel_read_end)
next
  fix k ns p t and c :: u32
  assume k: "talks k [] k" and r: "listing fd buf k ns" and s: "cstr (memory (kernel_os E run ecx edx) k) p t" "p \<noteq> 0" "\<not> c <s 0"
  have ok: "console_ok k" using k by (simp add: talks_def)
  obtain k' where k': "int_80 (kernel_os E run ecx edx) 4 1 p c k = Some (k', c)" "\<forall>x. off_screen x \<longrightarrow> view k' x = view k x"
    "proc_state k' = proc_state k" "pcbs k' = pcbs k" "curr_process k' = curr_process k"
    using kernel_write_string [OF ok s(1) [unfolded kernel_os_simps] s(2,3)] by metis
  have fs: "fsys k' = fsys k" using k'(3) by (simp add: proc_state_def)
  have "same_image (fsys k) (view k) (view k')" using image_later [OF _ k'(2) fs] r by (simp add: listing_def Let_def)
  then have "listing fd buf k' ns"
    by (rule listing_still [OF r _ fs]) (simp add: k'(4,5))
  then show "ends (int_80 (kernel_os E run ecx edx) 4 1 p c k) (\<lambda>(k', v). listing fd buf k' ns)" using k'(1) by simp
next
  fix k ns b and i :: nat
  assume r: "listing fd buf k ns" and i: "i < 32"
  have "in_range buf 32 (buf + of_nat i)" using i by (simp add: in_range_offset)
  then have "same_image (fsys k) (view k) ((view k)(buf + of_nat i := b))"
    using r disj_rangesD by (fastforce simp: listing_def Let_def same_image_def)
  then show "listing fd buf (poke (kernel_os E run ecx edx) (buf + of_nat i) b k) ns"
    by (intro listing_still [OF r]) (simp_all add: poke_def)
qed

section \<open>Opening the directory\<close>

lemma ls_opens:
  assumes "console_ok k" and "image_safe k" and "lowest_free (current k) < 8"
    and dot: "cstr (view k) p (ascii ''.'')" "p \<noteq> 0" "dir_index (view k) (fsys k) (ascii ''.'') = Some j"
      "file_type (copy_dentry (view k) (dir_entry (fsys k) j)) = 1"
    and buf: "buf \<noteq> 0" "disj_ranges buf 32 (boot_block (fsys k)) (image_size (view k) (fsys k))"
    and short: "list_all (\<lambda>n. length n < 32) (names_from k 0)"
  shows "\<exists>k2 fd. ece391_open (kernel_os E run ecx edx) p k = Some (k2, of_nat fd) \<and> fd < 8 \<and> talks k2 [] k2
    \<and> screen_text k2 = screen_text k \<and> listing (of_nat fd) buf k2 (names_from k 0)"
proof -
  define fd where "fd = lowest_free (current k)"
  define f where "f = (file_fds (current k) ! fd)\<lparr>file_op := DirectoryJt, inode_ptr := NULL, file_pos := 0, flags := 1\<rparr>"
  define k2 where "k2 = update_pcb (curr_process k) (set_fd fd (\<lambda>_. f)) (enabled k)"
  have std: "std_ok (current k)" "length (file_fds (current k)) = 8" using assms(1) by (simp_all add: console_ok_def std_ok_def fds_ok_def)
  have fd: "2 \<le> fd" "fd < 8" using lowest_free_std [OF std(1)] assms(3) by (simp_all add: fd_def)
  have "fds_inv (enabled k)" using std(1) by (simp add: fds_inv_def std_ok_def)
  moreover have "take 31 (ascii ''.'') = ascii ''.''" by (simp add: ascii_def)
  ultimately have op: "ece391_open (kernel_os E run ecx edx) p k = Some (k2, of_nat fd)"
    using sys_open_free [of "enabled k" p "ascii ''.''" E] dot fd(2)
    by (simp add: ece391_open_def int_80_open Let_def fd_def [symmetric] k2_def f_def)
  have k2: "view k2 = view k" "fsys k2 = fsys k" "file_fds (current k2) = (file_fds (current k))[fd := f]" "tty k2 = tty k"
    by (simp_all add: k2_def set_fd_def)
  have "std_ok (current k2)"
    using std fd unfolding std_ok_def fds_ok_def k2(3) by (simp add: list_all_update file_wf_def f_def)
  then have "console_ok k2" using assms(1) fd unfolding console_ok_def k2(3,4) by simp
  then have t2: "talks k2 [] k2" by (simp add: talks_def)
  have same_text: "screen_text k2 = screen_text k" using fd unfolding screen_text_def k2(3,4) by simp
  have "image_safe k2" "names_from k2 0 = names_from k 0" using assms(2) by (simp_all add: image_safe_def names_from_def k2)
  then have "listing (of_nat fd) buf k2 (names_from k 0)"
    using fd std(2) buf short unfolding listing_def Let_def k2(1-3) by (simp add: unat_of_nat32 f_def)
  then show ?thesis using op fd(2) t2 same_text by blast
qed

section \<open>Properties\<close>

text \<open>
  C28. \<open>ls\<close> shows the directory: it ends with 0 and the screen gets the name of every directory entry, in
  order, each on a line of its own, when the names are not empty and have at most 30 characters.
\<close>

theorem ls_spec:
  assumes "console_ok k" and "image_safe k" and "lowest_free (current k) < 8"
    and dot: "cstr (view k) (lit (ascii ''.'')) (ascii ''.'')" "lit (ascii ''.'') \<noteq> 0"
      "dir_index (view k) (fsys k) (ascii ''.'') = Some j" "file_type (copy_dentry (view k) (dir_entry (fsys k) j)) = 1"
    and buf: "buf \<noteq> 0" "disj_ranges buf 32 (boot_block (fsys k)) (image_size (view k) (fsys k))"
    and names: "\<And>i. i < num_dir_entries (view k) (fsys k) \<Longrightarrow>
      entry_name (view k) (fsys k) i \<noteq> [] \<and> length (entry_name (view k) (fsys k) i) \<le> 30"
  shows "\<exists>k'. ls (kernel_os E run ecx edx) lit buf k = Some (k', 0)
    \<and> screen_text k' = fold put_text (concat (map (\<lambda>i. entry_name (view k) (fsys k) (of_nat i) @ [0x0A])
         [0..<unat (num_dir_entries (view k) (fsys k))])) (screen_text k)"
proof -
  have "(of_nat i :: u32) < num_dir_entries (view k) (fsys k)" if "i < unat (num_dir_entries (view k) (fsys k))" for i
    using that less_trans [OF that unat_lt32] by (simp add: word_less_nat_alt unat_of_nat32)
  then have ns: "list_all (\<lambda>n. n \<noteq> [] \<and> 0 \<notin> set n \<and> length n \<le> 30) (names_from k 0)"
    using names entry_name_chars by (auto simp: names_from_def list_all_iff)
  then have "list_all (\<lambda>n. length n < 32) (names_from k 0)" by (auto simp: list_all_iff)
  from ls_opens [OF assms(1-3) dot(1,2,3,4) buf this] obtain k2 fd
    where go: "ece391_open (kernel_os E run ecx edx) (lit (ascii ''.'')) k = Some (k2, of_nat fd)" "fd < 8" "talks k2 [] k2"
      "screen_text k2 = screen_text k" "listing (of_nat fd) buf k2 (names_from k 0)" by blast
  have "ends (ls_loop (kernel_os E run ecx edx) lit buf (of_nat fd) k2)
    (\<lambda>(k', r). r = 0 \<and> talks k2 (concat (map (\<lambda>n. n @ [0x0A]) (names_from k 0))) k')"
    by (rule directory_names.ls_loop_says [OF buf(1) go(3,5) ns])
  then obtain k' where k': "ls_loop (kernel_os E run ecx edx) lit buf (of_nat fd) k2 = Some (k', 0)"
    "talks k2 (concat (map (\<lambda>n. n @ [0x0A]) (names_from k 0))) k'"
    by (auto simp: ends_def)
  have "(of_nat fd :: u32) \<noteq> - 1" using go(2) unat_of_nat32 [of fd] unat_minus_1_32 by fastforce
  then have "ls (kernel_os E run ecx edx) lit buf k = Some (k', 0)" using go(1) k'(1) by (simp add: ls_def)
  then show ?thesis using talks_screen [OF k'(2)] go(4) by (simp add: names_from_def comp_def)
qed

theorem ls_spec_witness:
  "\<exists>k'. ls (kernel_os sample_env (\<lambda>_. None) 0 0) slot_lit 0x1000 tests_kernel = Some (k', 0)
    \<and> screen_text k' = fold put_text [0x2E, 0x0A] (screen_text tests_kernel)"
proof -
  have f: "fsys tests_kernel = sample_fs" "current tests_kernel = current sample_kernel"
    by (simp_all add: tests_kernel_def sample_kernel_def)
  have name: "entry_name tests_mem sample_fs 0 = [0x2E]"
    by (simp add: entry_name_def cprefix_def load_bytes_numeral dir_entry_def sample_fs_eq tests_low sample_mem_def)
  obtain k: "console_ok tests_kernel" "image_safe tests_kernel" "lowest_free (current tests_kernel) < 8"
    using tests_kernel_ready by (simp add: tests_ready_def f sample_kernel_fields shell_pcb_def closed_file_def lowest_free_def)
  have dot: "ascii ''.'' \<in> pass_literals \<union> test_names_used" by (simp add: test_names_used_def)
  have lit: "cstr (view tests_kernel) (slot_lit (ascii ''.'')) (ascii ''.'')" "slot_lit (ascii ''.'') \<noteq> 0"
    using tests_kernel_ready dot unfolding tests_ready_def by blast+
  have dir: "dir_index tests_mem sample_fs (ascii ''.'') = Some 0"
    unfolding dir_index_def tests_header by (simp add: tests_entry)
  have all: "i = 0" if "i < num_dir_entries tests_mem sample_fs" for i
    using that by (simp add: tests_header word_less_nat_alt unat_eq_0)
  show ?thesis
    using ls_spec [where lit = slot_lit and k = tests_kernel and j = 0 and buf = "0x1000" and E = sample_env and run = "\<lambda>_. None" and ecx = 0 and edx = 0, OF k lit]
      all name dir
    by (fastforce simp: tests_view f tests_entry tests_header sample_boot disj_ranges_def)
qed

end
