(* ===== verification/GrepSpec.thy ===== *)
theory GrepSpec
  imports CatSpec "HOL-Library.Sublist"
begin

text \<open>
  \<open>grep\<close> reads a file in blocks of 1024 bytes into one buffer, keeps an unfinished last line for the next
  block, and searches line by line. Here that is shown to be the search of the whole file: every line
  that contains the pattern is printed, behind the name of the file, and no other.
\<close>

section \<open>The lines of a file\<close>

primrec text_lines :: "u8 list \<Rightarrow> u8 list list" where
  "text_lines [] = []"
| "text_lines (b # bs) = (if b = 0x0A then [] # text_lines bs
     else case text_lines bs of [] \<Rightarrow> [[b]] | l # rest \<Rightarrow> (b # l) # rest)"

text \<open>
  What is printed for one line and for a file. No line contains the empty pattern, and none contains
  one whose first byte is not ASCII: the code compares that byte as a signed \<open>char\<close> with unsigned ones.
\<close>

lemma signed_char_eq: "scast (c :: u8) = (ucast (d :: u8) :: u32) \<longleftrightarrow> c = d \<and> c < 0x80"
proof -
  have up: "sint (scast c :: u32) = sint c" by (simp add: sint_up_scast is_up)
  have ud: "sint (ucast d :: u32) = uint d"
    using uint_bounded [of d] by (simp add: sint_uint unsigned_ucast_eq signed_take_bit_eq_if_positive take_bit_int_eq_self bit_iff_odd)
  have "(uint c + 128) mod 256 = (if uint c < 128 then uint c + 128 else uint c - 128)"
    using uint_bounded [of c] minus_mod_self2 [of "uint c + 128" 256]
      mod_pos_pos_trivial [of "uint c - 128" 256] mod_pos_pos_trivial [of "uint c + 128" 256] by simp
  then have sc: "sint c = (if uint c < 128 then uint c else uint c - 256)"
    by (simp add: sint_uint signed_take_bit_eq_take_bit_shift take_bit_eq_mod)
  have "scast c = (ucast d :: u32) \<longleftrightarrow> sint c = uint d"
    by (simp only: up [symmetric] ud [symmetric]) (auto intro: signed_word_eqI)
  also have "\<dots> \<longleftrightarrow> uint c = uint d \<and> uint c < 128"
  proof -
    have "uint c < 256" "0 \<le> uint d" using uint_bounded [of c] by simp_all
    then have "uint c - 256 \<noteq> uint d" by linarith
    then show ?thesis by (auto simp: sc)
  qed
  finally show ?thesis by (simp add: word_less_def word_uint_eq_iff)
qed

definition searchable :: "u8 list \<Rightarrow> bool" where
  "searchable pat \<longleftrightarrow> pat \<noteq> [] \<and> hd pat < 0x80"

definition match_text :: "u8 list \<Rightarrow> u8 list \<Rightarrow> u8 list \<Rightarrow> u8 list" where
  "match_text name pat l = (if searchable pat \<and> sublist pat l then name @ [0x3A] @ l @ [0x0A] else [])"

definition shown :: "u8 list \<Rightarrow> u8 list \<Rightarrow> u8 list \<Rightarrow> u8 list" where
  "shown name pat bs = concat (map (match_text name pat) (text_lines bs))"

lemma match_text_Nil [simp]: "match_text name pat [] = []"
  by (simp add: match_text_def searchable_def)

lemma text_lines_last: "0x0A \<notin> set l \<Longrightarrow> text_lines l = (if l = [] then [] else [l])"
  by (induction l) auto

lemma text_lines_line: "0x0A \<notin> set l \<Longrightarrow> text_lines (l @ 0x0A # bs) = l # text_lines bs"
  by (induction l) auto

lemma shown_line: "0x0A \<notin> set l \<Longrightarrow> shown name pat (l @ 0x0A # bs) = match_text name pat l @ shown name pat bs"
  by (simp add: shown_def text_lines_line)

text \<open>A line that fills the buffer is printed before its newline is read.\<close>

lemma shown_full:
  assumes "0x0A \<notin> set l" and "bs \<noteq> [] \<longrightarrow> hd bs = 0x0A"
  shows "shown name pat (l @ bs) = match_text name pat l @ shown name pat bs"
proof (cases bs)
  case Nil
  then show ?thesis using assms(1) by (simp add: shown_def text_lines_last)
next
  case (Cons b cs)
  then have "bs = 0x0A # cs" using assms(2) by simp
  then show ?thesis using shown_line [OF assms(1), of name pat cs] shown_line [of "[]" name pat cs] by simp
qed

definition short_lines :: "u8 list \<Rightarrow> bool" where
  "short_lines bs \<longleftrightarrow> (\<forall>l. sublist l bs \<and> 0x0A \<notin> set l \<longrightarrow> length l \<le> 1024)"

lemma short_lines_suffix: "short_lines bs \<Longrightarrow> suffix cs bs \<Longrightarrow> short_lines cs"
  unfolding short_lines_def using sublist_order.order.trans suffix_imp_sublist by blast

lemma short_lines_full:
  assumes "short_lines (l @ bs)" and "0x0A \<notin> set l" and "length l = 1024" and "bs \<noteq> []"
  shows "hd bs = 0x0A"
proof (rule ccontr)
  assume "hd bs \<noteq> 0x0A"
  then have "0x0A \<notin> set (l @ [hd bs])" using assms(2) by auto
  moreover have "sublist (l @ [hd bs]) (l @ bs)"
    using assms(4) by (cases bs) (auto intro: prefix_imp_sublist)
  ultimately show False using assms(1,3) by (fastforce simp: short_lines_def)
qed

section \<open>The searches in the buffer\<close>

lemma line_end_from_eq:
  assumes "load_bytes m (data + of_nat j) (length u) = u" and "j + length u < 2147483648"
  shows "line_end_from m data (of_nat (j + length u)) (of_nat j) = of_nat (j + length (takeWhile (\<lambda>b. b \<noteq> 0x0A) u))"
  using assms
proof (induction u arbitrary: j)
  case Nil
  then show ?case by (subst line_end_from.simps) (simp add: sless_of_nat32)
next
  case (Cons b u)
  have b: "m (data + of_nat j) = b" "load_bytes m (data + of_nat (Suc j)) (length u) = u"
    using Cons.prems(1) by (simp_all add: load_bytes_Suc algebra_simps)
  have less: "(of_nat j :: u32) <s of_nat (j + length (b # u))" using Cons.prems(2) by (subst sless_of_nat32) simp_all
  show ?case
    using Cons.IH [OF b(2)] Cons.prems(2) b(1) less
    by (subst line_end_from.simps) (simp add: algebra_simps)
qed

lemma cstr_prefix:
  assumes "cstr m a l" and "0 \<notin> set ps"
  shows "load_bytes m a (length ps) = ps \<longleftrightarrow> prefix ps l"
  using assms
proof (induction ps arbitrary: a l)
  case (Cons c cs)
  show ?case
  proof (cases l)
    case Nil
    then show ?thesis using Cons.prems by (auto simp: load_bytes_Suc cstr_Nil)
  next
    case (Cons d ds)
    then have "m a = d" "cstr m (a + 1) ds" using Cons.prems(1) cstr_Cons by blast+
    then show ?thesis using Cons.IH [of "a + 1" ds] Cons.prems(2) Cons by (auto simp: load_bytes_Suc)
  qed
qed simp

lemma line_matches_eq:
  assumes "cstr m (data + of_nat j) l" and "cstr m s pat" and "j + length l < 2147483648"
  shows "line_matches m data s (of_nat (length pat)) (of_nat (j + length l)) (of_nat j) \<longleftrightarrow> searchable pat \<and> sublist pat l"
  using assms
proof (induction l arbitrary: j)
  case Nil
  then show ?case by (subst line_matches.simps) (auto simp: sless_of_nat32 searchable_def)
next
  case (Cons b l)
  have b: "m (data + of_nat j) = b" "b \<noteq> 0" "cstr m (data + of_nat (Suc j)) l"
    using cstr_Cons [OF Cons.prems(1)] by (simp_all add: algebra_simps)
  have less: "(of_nat j :: u32) <s of_nat (j + length (b # l))" using Cons.prems(3) by (subst sless_of_nat32) simp_all
  have nul: "0 \<notin> set pat" using Cons.prems(2) by (simp add: cstr_def)
  have here: "scast (m s) = (ucast b :: u32) \<and> ece391_strncmp m (data + of_nat j) s (of_nat (length pat)) = 0 \<longleftrightarrow> searchable pat \<and> prefix pat (b # l)"
  proof (cases pat)
    case Nil
    then show ?thesis using Cons.prems(2) b(2) signed_char_eq [of "m s" b] by (auto simp: cstr_Nil searchable_def)
  next
    case (Cons c cs)
    then have "m s = c" using cstr_Cons [of m s c cs] \<open>cstr m s pat\<close> by simp
    then show ?thesis
      using ece391_strncmp_prefix [OF \<open>cstr m s pat\<close>, of "data + of_nat j"] cstr_prefix [OF \<open>cstr m (data + of_nat j) (b # l)\<close> nul] Cons
      by (auto simp: searchable_def signed_char_eq)
  qed
  have next_: "line_matches m data s (of_nat (length pat)) (of_nat (j + length (b # l))) (of_nat j + 1) \<longleftrightarrow> searchable pat \<and> sublist pat l"
    using Cons.IH [OF b(3) Cons.prems(2)] Cons.prems(3) by (simp add: algebra_simps)
  have "line_matches m data s (of_nat (length pat)) (of_nat (j + length (b # l))) (of_nat j) \<longleftrightarrow>
      (scast (m s) = (ucast b :: u32) \<and> ece391_strncmp m (data + of_nat j) s (of_nat (length pat)) = 0)
      \<or> line_matches m data s (of_nat (length pat)) (of_nat (j + length (b # l))) (of_nat j + 1)"
    by (subst line_matches.simps) (use less b(1) in auto)
  then show ?case unfolding here next_ by (auto simp: sublist_Cons_right)
qed

text \<open>The first line of a text in memory, once a NUL stands behind it.\<close>

abbreviation (input) first_line :: "u8 list \<Rightarrow> u8 list" where
  "first_line u \<equiv> takeWhile (\<lambda>b. b \<noteq> 0x0A) u"

lemma first_line_plain: "0x0A \<notin> set (first_line u)"
  by (metis (mono_tags) set_takeWhileD)

lemma first_line_whole: "\<not> length (first_line u) < length u \<Longrightarrow> first_line u = u"
  using takeWhile_eq_take [of "\<lambda>b. b \<noteq> 0x0A" u] by simp

lemma first_line_split:
  assumes "length (first_line u) < length u"
  shows "u ! length (first_line u) = 0x0A" "u = first_line u @ 0x0A # drop (Suc (length (first_line u))) u"
  using nth_length_takeWhile [OF assms] id_take_nth_drop [OF assms] by (simp_all add: takeWhile_eq_take [symmetric])

lemma load_bytes_at: "load_bytes m (a + of_nat j) (length u) = u \<Longrightarrow> i < length u \<Longrightarrow> m (a + of_nat (j + i)) = u ! i"
  using load_bytes_nth [of i "length u" m "a + of_nat j"] by (simp add: add.assoc)

lemma first_line_cstr:
  assumes u: "load_bytes m (a + of_nat j) (length u) = u" "0 \<notin> set u" "j + length u \<le> 1024"
  defines "l \<equiv> first_line u"
  shows "cstr (m(a + of_nat (j + length l) := 0)) (a + of_nat j) l"
proof -
  have le: "length l \<le> length u" by (simp add: l_def length_takeWhile_le)
  have "(m(a + of_nat (j + length l) := 0)) (a + of_nat j + of_nat i) = l ! i" if "i < length l" for i
    using load_bytes_at [OF u(1), of i] that le u(3) of_nat_eq32 [of "j + i" "j + length l"] by (simp add: l_def takeWhile_nth algebra_simps)
  then show ?thesis
    using le u(2,3) by (auto simp: cstr_iff l_def algebra_simps dest: set_takeWhileD)
qed

text \<open>One round of the inner loop, with the offsets as numbers.\<close>

lemma grep_lines_step:
  assumes u: "load_bytes (memory os w) (buf + of_nat j) (length u) = u" "j + length u \<le> 1024"
  defines "e \<equiv> j + length (first_line u)"
  defines "w1 \<equiv> poke os (buf + of_nat e) 0 w"
  shows "grep_lines os lit s fname buf n cnt (of_nat (j + length u)) (of_nat j) w =
    (if memory os w (buf + of_nat e) \<noteq> 0x0A \<and> cnt \<noteq> 0 \<and> j \<noteq> 0
     then Option.bind (ece391_strcpy (memory os w1) buf (buf + of_nat j)) (\<lambda>m. Some (set_memory os m w1, of_nat (length u)))
     else Option.bind (if line_matches (memory os w1) buf s n (of_nat e) (of_nat j)
         then print_match os lit fname (buf + of_nat j) w1 else Some w1)
       (\<lambda>w. if j + length u \<le> Suc e then Some (w, 0)
         else grep_lines os lit s fname buf n cnt (of_nat (j + length u)) (of_nat (Suc e)) w))"
proof -
  have e: "e \<le> 1024" using u(2) length_takeWhile_le [of "\<lambda>b. b \<noteq> 0x0A" u] unfolding e_def by linarith
  have line_end: "line_end_from (memory os w) buf (of_nat (j + length u)) (of_nat j) = of_nat e"
    using line_end_from_eq [OF u(1)] u(2) by (simp add: e_def)
  have suc: "of_nat e + 1 = (of_nat (Suc e) :: u32)" by simp
  have end_: "of_nat (j + length u) \<le>s (of_nat (Suc e) :: u32) \<longleftrightarrow> j + length u \<le> Suc e"
    using e u(2) by (simp only: word_sle_eq sint_of_nat32) arith
  have zero: "(of_nat j :: u32) \<noteq> 0 \<longleftrightarrow> j \<noteq> 0" using u(2) of_nat_eq32 [of j 0] by simp
  have diff: "of_nat (j + length u) - of_nat j = (of_nat (length u) :: u32)" by simp
  show ?thesis
    unfolding w1_def by (subst grep_lines.simps) (simp only: line_end Let_def suc end_ zero diff)
qed

text \<open>Moving a string down to the start of the buffer that holds it.\<close>

lemma ece391_strcpy_down:
  "cstr m (d + of_nat j) bs \<Longrightarrow> 0 < j \<Longrightarrow> j + length bs < 4294967296 \<Longrightarrow>
   ece391_strcpy m d (d + of_nat j) = Some (store_bytes m d (bs @ [0]))"
proof (induction bs arbitrary: m d)
  case Nil
  then show ?case by (subst ece391_strcpy.simps) (simp add: cstr_Nil Let_def)
next
  case (Cons c cs)
  have c: "m (d + of_nat j) = c" "c \<noteq> 0" "cstr m (d + of_nat j + 1) cs"
    using cstr_Cons [OF Cons.prems(1)] by simp_all
  have "cstr (m(d := c)) (d + of_nat j + 1) cs"
  proof (rule cstr_cong [OF c(3)])
    fix x assume "in_range (d + of_nat j + 1) (Suc (length cs)) x"
    then obtain i where i: "i < Suc (length cs)" "x = d + of_nat (j + 1 + i)"
      using in_range_D by (fastforce simp: algebra_simps)
    then have "x \<noteq> d" using Cons.prems(2,3) of_nat_eq32 [of "j + 1 + i" 0] by simp
    then show "(m(d := c)) x = m x" by simp
  qed
  then have "ece391_strcpy (m(d := c)) (d + 1) (d + of_nat j + 1) = Some (store_bytes (m(d := c)) (d + 1) (cs @ [0]))"
    using Cons.IH [of "m(d := c)" "d + 1"] Cons.prems(2,3) by (simp add: algebra_simps del: fun_upd_apply)
  then show ?case using c(1,2) by (subst ece391_strcpy.simps) (simp add: Let_def)
qed

section \<open>Searching a file block by block\<close>

text \<open>The pattern, the name and the two literals lie outside of the buffer.\<close>

abbreviation outside :: "(u32 \<Rightarrow> bool) \<Rightarrow> u32 \<Rightarrow> u32 \<Rightarrow> bool" where
  "outside own data x \<equiv> own x \<and> \<not> in_range data 1025 x"

definition search_ready ::
    "'s os \<Rightarrow> (u32 \<Rightarrow> bool) \<Rightarrow> literals \<Rightarrow> u32 \<Rightarrow> u8 list \<Rightarrow> u32 \<Rightarrow> u8 list \<Rightarrow> 's \<Rightarrow> bool" where
  "search_ready os own lit s pat fname name w \<longleftrightarrow> owns_string os own w s pat \<and> owns_string os own w fname name
     \<and> has_literals os own lit {[0x3A], [0x0A]} w"

lemma search_ready_keeps:
  "search_ready os own lit s pat fname name w \<Longrightarrow> keeps os own w w' \<Longrightarrow> search_ready os own lit s pat fname name w'"
  using owns_string_keeps has_literals_keeps by (fastforce simp: search_ready_def)

lemma owns_string_outside: "owns_string os (outside own data) w p bs \<Longrightarrow> owns_string os own w p bs"
  by (simp add: owns_string_def)

lemma keeps_outside: "keeps os own w w' \<Longrightarrow> keeps os (outside own data) w w'"
  by (simp add: keeps_def)

context file_reader
begin

lemma fdputs_rest:
  assumes "says s [] s" and "rest s bs" and "owns_string os own s p t"
  shows "ends (fdputs os 1 p s) (\<lambda>s'. says s t s' \<and> keeps os own s s' \<and> rest s' bs)"
proof -
  have p: "cstr (memory os s) p t" "p \<noteq> 0" "length t < 2147483648"
    using assms(3) by (simp_all add: owns_string_def)
  show ?thesis
    using write_both [OF assms(1,2) p(1,2) length_signed [OF p(3)]]
    by (auto simp: fdputs_def ece391_write_def ece391_strlen_eq strlen_cstr [OF p(1)] elim!: ends_mono)
qed

lemma print_match_says:
  assumes "says w [] w" and "rest w bs" and "search_ready os own lit s pat fname name w" and "owns_string os own w at l"
  shows "ends (print_match os lit fname at w)
    (\<lambda>w'. says w (name @ [0x3A] @ l @ [0x0A]) w' \<and> keeps os own w w' \<and> rest w' bs)"
proof -
  let ?Q = "\<lambda>t w'. says w t w' \<and> keeps os own w w' \<and> rest w' bs"
  have step: "ends (fdputs os 1 p w1) Q"
    if "?Q t w1" "owns_string os own w p u" "\<And>w2. ?Q (t @ u) w2 \<Longrightarrow> Q w2" for p t u w1 Q
    using fdputs_rest [OF says_after, of w t w1 bs p u] owns_string_keeps [OF that(2)] that(1) says_trans keeps_trans
    by (fastforce elim!: ends_mono intro!: that(3))
  have o: "owns_string os own w fname name" "owns_string os own w (lit [0x3A]) [0x3A]" "owns_string os own w (lit [0x0A]) [0x0A]"
    using assms(3) by (simp_all add: search_ready_def has_literals_def)
  have colon: "ascii '':'' = [0x3A]" by (simp add: ascii_def)
  have start: "?Q [] w" using assms(1,2) by simp
  show ?thesis
    unfolding print_match_def colon ends_bind
    by (rule step [OF start o(1)], rule step [OF _ o(2)], assumption, rule step [OF _ assms(4)], assumption,
        rule step [OF _ o(3)], assumption) simp
qed

lemma poke_in_buffer:
  assumes "says w [] w" and "rest w bs" and "size = 1025" and "i < 1025"
  shows "says w [] (poke os (buf + of_nat i) b w)" "rest (poke os (buf + of_nat i) b w) bs"
    "keeps os (outside own buf) w (poke os (buf + of_nat i) b w)"
    "memory os (poke os (buf + of_nat i) b w) = (memory os w)(buf + of_nat i := b)"
  unfolding poke_def using assms says_set set_rest [OF assms(2)]
  by (auto simp: memory_set keeps_def in_range_offset)

lemma search_line:
  assumes "says w [] w" and "rest w bs" and "search_ready os (outside own buf) lit s pat fname name w"
    and "size = 1025" and own: "\<forall>x. in_range buf 1025 x \<longrightarrow> own x \<and> x \<noteq> 0"
    and l: "cstr (memory os w) (buf + of_nat j) l" "j + length l \<le> 1024"
  shows "ends (if line_matches (memory os w) buf s (of_nat (length pat)) (of_nat (j + length l)) (of_nat j)
        then print_match os lit fname (buf + of_nat j) w else Some w)
    (\<lambda>w'. says w (match_text name pat l) w' \<and> keeps os own w w' \<and> rest w' bs)"
proof -
  have ready: "search_ready os own lit s pat fname name w"
    using assms(3) owns_string_outside by (fastforce simp: search_ready_def has_literals_def)
  have pat: "cstr (memory os w) s pat" using ready by (simp add: search_ready_def owns_string_def)
  have "in_range buf 1025 x" if "in_range (buf + of_nat j) (Suc (length l)) x" for x
    using in_range_sub [OF _ that, of buf 1025] l(2) by (simp add: unat_of_nat32)
  moreover have "in_range buf 1025 (buf + of_nat j)" using l(2) by (simp add: in_range_offset)
  ultimately have "owns_string os own w (buf + of_nat j) l"
    using own l by (simp add: owns_string_def)
  from print_match_says [OF assms(1,2) ready this]
  show ?thesis
    using line_matches_eq [OF l(1) pat] l(2) assms(1,2) by (auto simp: match_text_def)
qed

text \<open>What the inner loop leaves for the next block: \<open>p\<close> is the unfinished line.\<close>

definition left_over :: "u32 \<Rightarrow> u8 list \<Rightarrow> u8 list \<Rightarrow> u8 list \<Rightarrow> u8 list \<Rightarrow> 's \<Rightarrow> 's \<times> u32 \<Rightarrow> bool" where
  "left_over cnt name pat u bs w = (\<lambda>(w', l). \<exists>p out. l = of_nat (length p) \<and> length p < 1024 \<and> suffix p u
     \<and> 0x0A \<notin> set p \<and> (cnt = 0 \<longrightarrow> p = []) \<and> load_bytes (memory os w') buf (length p) = p
     \<and> memory os w' (buf + 1024) \<noteq> 0x0A \<and> says w out w' \<and> keeps os (outside own buf) w w' \<and> rest w' bs
     \<and> out @ shown name pat (p @ bs) = shown name pat (u @ bs))"

lemma left_overI:
  "length p < 1024 \<Longrightarrow> suffix p u \<Longrightarrow> 0x0A \<notin> set p \<Longrightarrow> (cnt = 0 \<longrightarrow> p = []) \<Longrightarrow> load_bytes (memory os w') buf (length p) = p \<Longrightarrow>
   memory os w' (buf + 1024) \<noteq> 0x0A \<Longrightarrow> says w out w' \<Longrightarrow> keeps os (outside own buf) w w' \<Longrightarrow> rest w' bs \<Longrightarrow>
   out @ shown name pat (p @ bs) = shown name pat (u @ bs) \<Longrightarrow> left_over cnt name pat u bs w (w', of_nat (length p))"
  unfolding left_over_def by blast

lemma left_over_line:
  assumes "says w (match_text name pat l) w2" and "keeps os (outside own buf) w w2" and "0x0A \<notin> set l"
    and "left_over cnt name pat u bs w2 r"
  shows "left_over cnt name pat (l @ 0x0A # u) bs w r"
proof -
  obtain w' l' p out where r: "r = (w', l')" "l' = of_nat (length p)" "length p < 1024" "suffix p u" "0x0A \<notin> set p"
    "cnt = 0 \<longrightarrow> p = []" "load_bytes (memory os w') buf (length p) = p" "memory os w' (buf + 1024) \<noteq> 0x0A" "says w2 out w'"
    "keeps os (outside own buf) w2 w'" "rest w' bs" "out @ shown name pat (p @ bs) = shown name pat (u @ bs)"
    using assms(4) by (auto simp: left_over_def)
  have "suffix p ((l @ [0x0A]) @ u)" by (rule suffix_appendI [OF r(4)])
  then show ?thesis
    unfolding r(1,2) using r says_trans [OF assms(1) r(9)] keeps_trans [OF assms(2) r(10)] shown_line [OF assms(3)]
    by (intro left_overI [where out = "match_text name pat l @ out"]) simp_all
qed

text \<open>The state at the start of a line at offset \<open>j\<close>; the text \<open>u\<close> is in the buffer, \<open>bs\<close> still in the file.\<close>

definition scanning :: "literals \<Rightarrow> u32 \<Rightarrow> u8 list \<Rightarrow> u32 \<Rightarrow> u8 list \<Rightarrow> nat \<Rightarrow> u8 list \<Rightarrow> u8 list \<Rightarrow> 's \<Rightarrow> bool" where
  "scanning lit s pat fname name j u bs w \<longleftrightarrow> says w [] w \<and> rest w bs \<and> search_ready os (outside own buf) lit s pat fname name w
     \<and> load_bytes (memory os w) (buf + of_nat j) (length u) = u \<and> 0 \<notin> set u \<and> memory os w (buf + 1024) \<noteq> 0x0A
     \<and> j + length u \<le> 1024"

lemma keep_unfinished:
  assumes st: "scanning lit s pat fname name j u bs w" and size: "size = 1025" and "0 < j" "0x0A \<notin> set u" "cnt \<noteq> 0"
  defines "w1 \<equiv> poke os (buf + of_nat (j + length u)) 0 w"
  shows "\<exists>m. ece391_strcpy (memory os w1) buf (buf + of_nat j) = Some m
    \<and> left_over cnt name pat u bs w (set_memory os m w1, of_nat (length u))"
proof -
  have len: "length u < 1024" "j + length u < 1025" and past: "memory os w (buf + 1024) \<noteq> 0x0A"
    and u: "load_bytes (memory os w) (buf + of_nat j) (length u) = u" "0 \<notin> set u" "j + length u \<le> 1024"
    and s: "says w [] w" "rest w bs"
    using st assms(3) by (simp_all add: scanning_def)
  note w1 = poke_in_buffer [OF s size len(2), of 0, folded w1_def]
  define m where "m = store_bytes (memory os w1) buf (u @ [0])"
  define w2 where "w2 = set_memory os m w1"
  have m: "m x = memory os w1 x" if "\<not> in_range buf 1024 x" for x
    using that len(1) in_range_mono [of buf "length (u @ [0])" x 1024] by (auto simp: m_def store_bytes_apply)
  have m': "m x = memory os w1 x" if "\<not> in_range buf 1025 x" for x
    using m [of x] that in_range_mono [of buf 1024 x 1025] by auto
  have "first_line u = u" using assms(4) by (auto simp: takeWhile_eq_all_conv)
  from first_line_cstr [OF u, unfolded this] have "cstr (memory os w1) (buf + of_nat j) u" unfolding w1(4) .
  then have copy: "ece391_strcpy (memory os w1) buf (buf + of_nat j) = Some m"
    unfolding m_def using assms(3) len by (intro ece391_strcpy_down) simp_all
  have w2: "memory os w2 = m" "rest w2 bs" "says w [] w2" "keeps os (outside own buf) w w2"
    using set_rest [OF w1(2), of m] m' says_set [OF says_after [OF w1(1)]] says_trans [OF w1(1), of "[]"] w1(3) size
    by (auto simp: w2_def memory_set keeps_def)
  have "load_bytes m buf (length u) = u"
    using len by (intro nth_equalityI) (auto simp: m_def store_bytes_apply in_range_offset unat_of_nat32 nth_append)
  moreover have "memory os w2 (buf + 1024) \<noteq> 0x0A"
    using m [of "buf + 1024"] in_range_offset [of 1024 buf 1024] past by (simp add: w2(1) w1(4))
  ultimately have "left_over cnt name pat u bs w (w2, of_nat (length u))"
    using w2 assms(4,5) len(1) by (intro left_overI [where out = "[]"]) simp_all
  then show ?thesis using copy by (simp add: w2_def)
qed

lemma print_first_line:
  assumes st: "scanning lit s pat fname name j u bs w" and size: "size = 1025" and own: "\<forall>x. in_range buf 1025 x \<longrightarrow> own x \<and> x \<noteq> 0"
  defines "e \<equiv> j + length (first_line u)"
  defines "w1 \<equiv> poke os (buf + of_nat e) 0 w"
  shows "ends (if line_matches (memory os w1) buf s (of_nat (length pat)) (of_nat e) (of_nat j)
        then print_match os lit fname (buf + of_nat j) w1 else Some w1)
    (\<lambda>w2. says w (match_text name pat (first_line u)) w2 \<and> keeps os (outside own buf) w w2 \<and> rest w2 bs
       \<and> (\<forall>x. in_range buf 1025 x \<longrightarrow> memory os w2 x = ((memory os w)(buf + of_nat e := 0)) x))"
proof -
  have u: "load_bytes (memory os w) (buf + of_nat j) (length u) = u" "0 \<notin> set u" "j + length u \<le> 1024"
    and s: "says w [] w" "rest w bs" "search_ready os (outside own buf) lit s pat fname name w"
    using st by (simp_all add: scanning_def)
  have e: "e < 1025" "j + length (first_line u) \<le> 1024"
    using u(3) length_takeWhile_le [of "\<lambda>b. b \<noteq> 0x0A" u] unfolding e_def by linarith+
  note w1 = poke_in_buffer [OF s(1,2) size e(1), of 0, folded w1_def]
  have "cstr (memory os w1) (buf + of_nat j) (first_line u)" using first_line_cstr [OF u] by (simp add: w1(4) e_def)
  from search_line [OF says_after [OF w1(1)] w1(2) search_ready_keeps [OF s(3) w1(3)] size own this e(2)]
  show ?thesis
    unfolding e_def [symmetric]
  proof (rule ends_mono)
    fix w2 assume q: "says w1 (match_text name pat (first_line u)) w2 \<and> keeps os own w1 w2 \<and> rest w2 bs"
    then show "says w (match_text name pat (first_line u)) w2 \<and> keeps os (outside own buf) w w2 \<and> rest w2 bs
       \<and> (\<forall>x. in_range buf 1025 x \<longrightarrow> memory os w2 x = ((memory os w)(buf + of_nat e := 0)) x)"
      using says_trans [OF w1(1), of "match_text name pat (first_line u)" w2] keeps_trans [OF w1(3) keeps_outside, of w2] own
      unfolding w1(4) [symmetric] by (simp add: keeps_def)
  qed
qed

lemma after_line:
  assumes st: "scanning lit s pat fname name j (l @ 0x0A # u) bs w" and size: "size = 1025"
    and own: "\<forall>x. in_range buf 1025 x \<longrightarrow> own x \<and> x \<noteq> 0"
    and w2: "says w out w2" "keeps os (outside own buf) w w2" "rest w2 bs"
      "\<forall>x. in_range buf 1025 x \<longrightarrow> memory os w2 x = ((memory os w)(buf + of_nat (j + length l) := 0)) x"
  shows "scanning lit s pat fname name (Suc (j + length l)) u bs w2"
proof -
  have u: "load_bytes (memory os w) (buf + of_nat j) (length (l @ 0x0A # u)) = l @ 0x0A # u" "j + length l + length u < 1024"
    "memory os w (buf + 1024) \<noteq> 0x0A" "0 \<notin> set u" "search_ready os (outside own buf) lit s pat fname name w"
    using st by (simp_all add: scanning_def)
  have "memory os w2 (buf + of_nat (Suc (j + length l)) + of_nat i) = u ! i" if "i < length u" for i
  proof -
    have "memory os w (buf + of_nat (j + Suc (length l + i))) = u ! i"
      using load_bytes_at [OF u(1), of "Suc (length l + i)"] that by (simp add: nth_append)
    then show ?thesis
      using w2(4) u(2) that in_range_offset [of "j + Suc (length l + i)" buf 1025] of_nat_eq32 [of "j + Suc (length l + i)" "j + length l"]
      by (simp add: algebra_simps)
  qed
  then have "load_bytes (memory os w2) (buf + of_nat (Suc (j + length l))) (length u) = u" by (intro nth_equalityI) simp_all
  moreover have "memory os w2 (buf + 1024) \<noteq> 0x0A" using w2(4) u(3) in_range_offset [of 1024 buf 1025] by simp
  ultimately show ?thesis
    using u says_after [OF w2(1)] w2(3) search_ready_keeps [OF u(5) w2(2)] unfolding scanning_def by simp
qed

lemma grep_lines_says:
  assumes size: "size = 1025" and own: "\<forall>x. in_range buf 1025 x \<longrightarrow> own x \<and> x \<noteq> 0" and cnt: "cnt = 0 \<longrightarrow> bs = []"
  shows "scanning lit s pat fname name j u bs w \<Longrightarrow> (j + length u < 1024 \<longrightarrow> bs = []) \<Longrightarrow>
    (j = 0 \<and> length u = 1024 \<and> 0x0A \<notin> set u \<and> bs \<noteq> [] \<longrightarrow> hd bs = 0x0A) \<Longrightarrow>
    ends (grep_lines os lit s fname buf (of_nat (length pat)) cnt (of_nat (j + length u)) (of_nat j) w)
      (left_over cnt name pat u bs w)"
proof (induction "length u" arbitrary: j u w rule: less_induct)
  case less
  define l where "l = first_line u"
  define e where "e = j + length l"
  define d where "d = memory os w (buf + of_nat e)"
  have u: "load_bytes (memory os w) (buf + of_nat j) (length u) = u" "j + length u \<le> 1024" and past: "memory os w (buf + 1024) \<noteq> 0x0A"
    using less.prems(1) by (simp_all add: scanning_def)
  note step = grep_lines_step [OF u, of lit s fname "of_nat (length pat)" cnt, folded l_def, folded e_def, folded d_def]
  note nl = first_line_plain [of u, folded l_def]
  have newline: "d = 0x0A" if "length l < length u"
    using load_bytes_at [OF u(1) that] first_line_split(1) [of u] that by (simp add: d_def e_def l_def)
  show ?case
  proof (cases "d \<noteq> 0x0A \<and> cnt \<noteq> 0 \<and> j \<noteq> 0")
    case True
    then have lu: "l = u" using newline first_line_whole [of u] by (auto simp: l_def)
    show ?thesis
      using keep_unfinished [OF less.prems(1) size, of cnt] True nl unfolding step by (auto simp: lu e_def)
  next
    case False
    have after: "ends (if j + length u \<le> Suc e then Some (w2, 0)
        else grep_lines os lit s fname buf (of_nat (length pat)) cnt (of_nat (j + length u)) (of_nat (Suc e)) w2)
        (left_over cnt name pat u bs w)"
      if q: "says w (match_text name pat l) w2" "keeps os (outside own buf) w w2" "rest w2 bs"
        "\<forall>x. in_range buf 1025 x \<longrightarrow> memory os w2 x = ((memory os w)(buf + of_nat e := 0)) x" for w2
    proof -
      have past2: "memory os w2 (buf + 1024) \<noteq> 0x0A" using q(4) past in_range_offset [of 1024 buf 1025] by simp
      have done_: "left_over cnt name pat u bs w (w2, 0)" if "shown name pat (u @ bs) = match_text name pat l @ shown name pat bs"
        using left_overI [of "[]" u cnt w2 w "match_text name pat l" bs name pat] q(1-3) past2 that by simp
      show ?thesis
      proof (cases "length l < length u")
        case no_newline: False
        then have lu: "l = u" using first_line_whole [of u] by (simp add: l_def)
        have "d \<noteq> 0x0A" if "j + length u = 1024" using that past lu by (simp add: d_def e_def)
        then have "bs \<noteq> [] \<longrightarrow> hd bs = 0x0A" using False cnt less.prems(2,3) u(2) nl lu by fastforce
        then show ?thesis using done_ shown_full [OF nl, of bs] lu e_def by simp
      next
        case True
        then obtain v where v: "u = l @ 0x0A # v" using first_line_split(2) [of u] by (auto simp: l_def)
        have len: "j + length u = Suc e + length v" by (simp add: v e_def)
        have "scanning lit s pat fname name (Suc e) v bs w2"
          unfolding e_def by (rule after_line [OF less.prems(1) [unfolded v] size own q(1-3)]) (use q(4) e_def in simp)
        then have "ends (grep_lines os lit s fname buf (of_nat (length pat)) cnt (of_nat (Suc e + length v)) (of_nat (Suc e)) w2)
            (left_over cnt name pat v bs w2)"
          using less.prems(2) len by (intro less.hyps) (simp_all add: v)
        then have "ends (grep_lines os lit s fname buf (of_nat (length pat)) cnt (of_nat (j + length u)) (of_nat (Suc e)) w2)
            (left_over cnt name pat u bs w)"
          unfolding len unfolding v by (rule ends_mono) (rule left_over_line [OF q(1,2) nl])
        moreover have "j + length u \<le> Suc e \<longleftrightarrow> v = []" using len by simp
        ultimately show ?thesis using done_ shown_line [OF nl, of name pat "v @ bs"] v by auto
      qed
    qed
    show ?thesis
      unfolding step if_not_P [OF False] ends_bind
      using print_first_line [OF less.prems(1) size own, folded l_def, folded e_def]
      by (rule ends_mono) (use after in blast)
  qed
qed

lemma grep_blocks_says:
  assumes size: "size = 1025" and own: "\<forall>x. in_range buf 1025 x \<longrightarrow> own x \<and> x \<noteq> 0"
  shows "says w [] w \<Longrightarrow> rest w bs \<Longrightarrow> search_ready os (outside own buf) lit s pat fname name w \<Longrightarrow>
    load_bytes (memory os w) buf (length p) = p \<Longrightarrow> length p < 1024 \<Longrightarrow> 0 \<notin> set (p @ bs) \<Longrightarrow>
    memory os w (buf + 1024) \<noteq> 0x0A \<Longrightarrow> short_lines (p @ bs) \<Longrightarrow>
    ends (grep_blocks os lit s fname buf (of_nat (length pat)) fd (of_nat (length p)) w)
      (\<lambda>(w', r). r = 0 \<and> says w (shown name pat (p @ bs)) w' \<and> keeps os (outside own buf) w w' \<and> rest w' [])"
proof (induction "length bs" arbitrary: bs p w rule: less_induct)
  case less
  define n where "n = 1024 - length p"
  define c where "c = take n bs"
  define cs where "cs = drop n bs"
  have n: "0 < n" "length p + n = 1024" "length c \<le> n" "c = [] \<longleftrightarrow> bs = []" using less.prems(5) by (auto simp: n_def c_def)
  have split: "bs = c @ cs" by (simp add: c_def cs_def)
  have of_n: "1024 - of_nat (length p) = (of_nat n :: u32)" using less.prems(5) by (simp add: n_def of_nat_diff)
  have here: "buf + of_nat (length p) \<noteq> 0" using own less.prems(5) by (simp add: in_range_offset)
  have cnt: "(of_nat (length c) :: u32) \<noteq> - 1" "(of_nat (length c) :: u32) = 0 \<longleftrightarrow> bs = []"
    using n of_nat_eq32 [of "length c" 4294967295] of_nat_eq32 [of "length c" 0] by auto
  have block: "ends (Option.bind (grep_lines os lit s fname buf (of_nat (length pat)) (of_nat (length c)) (of_nat (length p) + of_nat (length c)) 0 w1)
      (\<lambda>(w, lst). if (of_nat (length c) :: u32) = 0 then Some (w, 0)
        else grep_blocks os lit s fname buf (of_nat (length pat)) fd lst w))
      (\<lambda>(w', r). r = 0 \<and> says w (shown name pat (p @ bs)) w' \<and> keeps os (outside own buf) w w' \<and> rest w' [])"
    if w1: "says w [] w1" "rest w1 cs" "memory os w1 = store_bytes (memory os w) (buf + of_nat (length p)) c" for w1
  proof -
    have "load_bytes (memory os w1) buf (length p) = load_bytes (memory os w) buf (length p)"
    proof (rule load_bytes_cong)
      fix x assume "in_range buf (length p) x"
      then obtain i where i: "i < length p" "x = buf + of_nat i" using in_range_D by blast
      have "\<not> in_range (buf + of_nat (length p)) (length c) x"
      proof
        assume "in_range (buf + of_nat (length p)) (length c) x"
        then obtain k where "k < length c" "x = buf + of_nat (length p + k)" using in_range_D by (fastforce simp: algebra_simps)
        then show False using i n less.prems(5) of_nat_eq32 [of i "length p + k"] by simp
      qed
      then show "memory os w1 x = memory os w x" using n(3) by (simp add: w1(3) store_bytes_apply n_def)
    qed (use less.prems(5) in simp)
    then have load1: "load_bytes (memory os w1) (buf + of_nat 0) (length (p @ c)) = p @ c"
      using n(3) less.prems(4) by (simp add: load_bytes_add w1(3) n_def)
    have chunk: "in_range buf 1024 x" if "in_range (buf + of_nat (length p)) (length c) x" for x
      using in_range_sub [OF _ that, of buf 1024] n less.prems(5) by (simp add: unat_of_nat32)
    have past: "memory os w1 (buf + 1024) \<noteq> 0x0A"
      using chunk [of "buf + 1024"] in_range_offset [of 1024 buf 1024] less.prems(7) n(3) by (auto simp: w1(3) store_bytes_apply n_def)
    have keeps1: "keeps os (outside own buf) w w1"
      using chunk in_range_mono [of buf 1024 _ 1025] n(3) by (auto simp: keeps_def w1(3) store_bytes_apply n_def)
    have full: "0 = 0 \<and> length (p @ c) = 1024 \<and> 0x0A \<notin> set (p @ c) \<and> cs \<noteq> [] \<longrightarrow> hd cs = 0x0A"
      using short_lines_full [of "p @ c" cs] less.prems(8) split by simp
    have "ends (grep_lines os lit s fname buf (of_nat (length pat)) (of_nat (length c)) (of_nat (0 + length (p @ c))) (of_nat 0) w1)
        (left_over (of_nat (length c)) name pat (p @ c) cs w1)"
    proof (rule grep_lines_says [OF size own _ _ _ full])
      show "scanning lit s pat fname name 0 (p @ c) cs w1"
        using says_after [OF w1(1)] w1(2) search_ready_keeps [OF less.prems(3) keeps1] load1 past less.prems(6) n
        unfolding scanning_def split by simp
    qed (use n cnt(2) in \<open>auto simp: c_def cs_def\<close>)
    moreover have "ends (if (of_nat (length c) :: u32) = 0 then Some (w2, 0)
        else grep_blocks os lit s fname buf (of_nat (length pat)) fd l w2)
        (\<lambda>(w', r). r = 0 \<and> says w (shown name pat (p @ bs)) w' \<and> keeps os (outside own buf) w w' \<and> rest w' [])"
      if "left_over (of_nat (length c)) name pat (p @ c) cs w1 (w2, l)" for w2 l
    proof -
      obtain q out where q: "l = of_nat (length q)" "length q < 1024" "suffix q (p @ c)" "(of_nat (length c) :: u32) = 0 \<longrightarrow> q = []"
        "load_bytes (memory os w2) buf (length q) = q" "memory os w2 (buf + 1024) \<noteq> 0x0A" "says w1 out w2"
        "keeps os (outside own buf) w1 w2" "rest w2 cs" "out @ shown name pat (q @ cs) = shown name pat ((p @ c) @ cs)"
        using \<open>left_over _ _ _ _ _ _ _\<close> by (auto simp: left_over_def)
      have says2: "says w out w2" "says w2 [] w2" using says_trans [OF w1(1) q(7)] says_after [OF q(7)] by simp_all
      have keeps2: "keeps os (outside own buf) w w2" by (rule keeps_trans [OF keeps1 q(8)])
      show ?thesis
      proof (cases "bs = []")
        case True
        then show ?thesis using q(4,9,10) says2(1) keeps2 cnt(2) by (simp add: c_def cs_def shown_def)
      next
        case False
        have suf: "suffix (q @ cs) (p @ bs)" using q(3) by (auto simp: suffix_def split)
        have "ends (grep_blocks os lit s fname buf (of_nat (length pat)) fd (of_nat (length q)) w2)
          (\<lambda>(w', r). r = 0 \<and> says w2 (shown name pat (q @ cs)) w' \<and> keeps os (outside own buf) w2 w' \<and> rest w' [])"
        proof (rule less.hyps [OF _ says2(2) q(9) search_ready_keeps [OF less.prems(3) keeps2] q(5,2) _ q(6)])
          show "length cs < length bs" using False n(1) by (simp add: cs_def)
          show "0 \<notin> set (q @ cs)" using less.prems(6) set_mono_suffix [OF suf] by blast
          show "short_lines (q @ cs)" by (rule short_lines_suffix [OF less.prems(8) suf])
        qed
        moreover have "says w (shown name pat (p @ bs)) w'" if "says w2 (shown name pat (q @ cs)) w'" for w'
          using says_trans [OF says2(1) that] q(10) by (simp add: split)
        ultimately show ?thesis using False cnt(2) q(1) keeps_trans [OF keeps2] by (auto elim!: ends_mono)
      qed
    qed
    ultimately show ?thesis by (auto elim!: ends_mono)
  qed
  show ?case
    using read_next [OF less.prems(1,2), of "length p" n] n(2) size here block cnt(1)
    by (subst grep_blocks.simps)
      (auto simp: ece391_read_def of_n Let_def c_def [symmetric] cs_def [symmetric] elim!: ends_mono)
qed

end

section \<open>A sample kernel\<close>

text \<open>A file \<open>a\<close> with the two characters \<open>hi\<close>, the pattern \<open>i\<close> and the two literals.\<close>

definition grep_mem :: mem where
  "grep_mem = sample_mem(0x200 := 0x3A, 0x204 := 0x0A, 0x208 := 0x69, 0x9000 := 2, 0x9001 := 0, 0xA000 := 0x68, 0xA001 := 0x69)"

definition grep_kernel :: kernel where
  "grep_kernel = sample_kernel\<lparr>kmem := grep_mem\<rparr>"

lemma grep_kernel_fields:
  "view grep_kernel = grep_mem" "fsys grep_kernel = sample_fs" "current grep_kernel = current sample_kernel"
  "tty grep_kernel = sample_terminal"
  by (auto simp: view_def grep_kernel_def sample_kernel_def user_page_def grep_mem_def sample_mem_def fun_eq_iff split: option.splits)

lemma grep_image:
  "num_dir_entries grep_mem sample_fs = 1" "num_inodes grep_mem sample_fs = 1" "image_size grep_mem sample_fs = 16384"
  "image_wf grep_mem sample_fs" "file_size grep_mem sample_fs 0 = 2" "inode_wf grep_mem sample_fs 0"
  "file_type (copy_dentry grep_mem (dir_entry sample_fs 0)) = 2" "inode_num (copy_dentry grep_mem (dir_entry sample_fs 0)) = 0"
  "file_content grep_mem sample_fs 0 = [0x68, 0x69]" "dir_index grep_mem sample_fs [0x61] = Some 0"
proof -
  show h: "num_dir_entries grep_mem sample_fs = 1" "num_inodes grep_mem sample_fs = 1" "image_size grep_mem sample_fs = 16384"
    by (simp_all add: num_dir_entries_def num_inodes_def num_data_blocks_def image_size_def sample_fs_eq
        grep_mem_def sample_mem_def load32_def)
  have b: "num_data_blocks grep_mem sample_fs = 2" by (simp add: num_data_blocks_def sample_fs_eq grep_mem_def sample_mem_def load32_def)
  show "image_wf grep_mem sample_fs"
    unfolding image_wf_def h by (simp add: sample_fs_eq init_filesys_def grep_mem_def sample_mem_def load32_def)
  show s: "file_size grep_mem sample_fs 0 = 2"
    by (simp add: file_size_def inode_length_def inode_addr_def sample_fs_eq grep_mem_def sample_mem_def load32_def)
  have fb: "file_block grep_mem sample_fs 0 0 = 0"
    by (simp add: file_block_def data_block_num_def inode_addr_def sample_fs_eq grep_mem_def sample_mem_def load32_def)
  have byte: "file_byte grep_mem sample_fs 0 i = grep_mem (0xA000 + of_nat i)" if "i < 4096" for i
    using that by (simp add: file_byte_def fb data_block_addr_def) (simp add: sample_fs_eq)
  show "inode_wf grep_mem sample_fs 0"
    unfolding inode_wf_def h b s by (simp add: fb)
  show "file_type (copy_dentry grep_mem (dir_entry sample_fs 0)) = 2" "inode_num (copy_dentry grep_mem (dir_entry sample_fs 0)) = 0"
    by (simp_all add: copy_dentry_def dir_entry_def sample_fs_eq grep_mem_def sample_mem_def load32_def)
  show "file_content grep_mem sample_fs 0 = [0x68, 0x69]"
    unfolding file_content_def s by (simp add: upt_rec byte) (simp add: grep_mem_def)
  show "dir_index grep_mem sample_fs [0x61] = Some 0"
    unfolding dir_index_def h by (simp add: key_name_def cprefix_def load_bytes_numeral dir_entry_def sample_fs_eq grep_mem_def sample_mem_def)
qed

section \<open>Properties\<close>

text \<open>
  C26. \<open>grep\<close> searches a file: on the kernel, \<open>do_one_file\<close> prints every line of the file that contains
  the pattern, behind the name of the file and a colon, in order, and nothing else; it returns 0 and
  leaves the descriptors as they were. The file has no NUL and no line longer than 1024 characters; the empty
  pattern is found nowhere, nor is one that starts with a byte of at least 0x80: the code compares that byte
  as a signed \<open>char\<close> with the unsigned bytes of the file. The byte behind the last block is read before it
  is written: it must not be a newline.
\<close>

theorem grep_file_spec:
  fixes E :: env and run ecx edx
  defines "os \<equiv> kernel_os E run ecx edx"
  assumes "console_ok k" and "image_safe k" and "lowest_free (current k) < 8"
    and ready: "search_ready os (outside off_screen data) lit s pat fname name k"
    and entry: "dir_index (view k) (fsys k) (take 31 name) = Some j" "d = copy_dentry (view k) (dir_entry (fsys k) j)"
      "file_type d = 2" "inode_wf (view k) (fsys k) (inode_num d)"
    and buf: "\<forall>x. in_range data 1025 x \<longrightarrow> off_screen x \<and> x \<noteq> 0" "view k (data + 1024) \<noteq> 0x0A"
      "disj_ranges data 1025 (boot_block (fsys k)) (image_size (view k) (fsys k))"
    and content: "content = file_content (view k) (fsys k) (inode_num d)" "0 \<notin> set content" "short_lines content"
  shows "\<exists>k'. do_one_file os lit data s fname k = Some (k', 0)
    \<and> screen_text k' = fold put_text (shown name pat content) (screen_text k)
    \<and> map flags (file_fds (current k')) = map flags (file_fds (current k))"
proof -
  have strings: "owns_string os off_screen k s pat" "owns_string os off_screen k fname name"
    using ready owns_string_outside by (auto simp: search_ready_def)
  have len: "ece391_strlen (view k) s = Some (of_nat (length pat))"
    using strings(1) strlen_cstr by (simp add: owns_string_def os_def ece391_strlen_eq)
  have name: "cstr (view k) fname name" "fname \<noteq> 0" using strings(2) by (simp_all add: owns_string_def os_def)
  obtain k1 fd where k1: "ece391_open os fname k = Some (k1, of_nat fd)" "fd < 8" "talks k1 [] k1" "screen_text k1 = screen_text k"
    "view k1 = view k" "curr_process k1 = curr_process k" "flags (file_fds (current k) ! fd) \<noteq> 1"
    "map flags (file_fds (current k1)) = (map flags (file_fds (current k)))[fd := 1]" "reading (of_nat fd) data 1025 k1 content"
    using kernel_open_file [OF assms(2-4) name entry _ buf(3), of E run ecx edx] content(1) unfolding os_def by auto
  have "ends (grep_blocks os lit s fname data (of_nat (length pat)) (of_nat fd) (of_nat (length ([] :: u8 list))) k1)
    (\<lambda>(k', r). r = 0 \<and> talks k1 (shown name pat ([] @ content)) k' \<and> keeps os (outside off_screen data) k1 k'
       \<and> reading (of_nat fd) data 1025 k' [])"
    unfolding os_def
  proof (rule regular_file.grep_blocks_says [OF refl buf(1) k1(3,9)])
    show "search_ready (kernel_os E run ecx edx) (outside off_screen data) lit s pat fname name k1"
      using search_ready_keeps [OF ready, of k1] k1(5) by (simp add: keeps_def os_def)
  qed (use content buf(2) k1(5) in simp_all)
  then obtain k2 where k2: "grep_blocks os lit s fname data (of_nat (length pat)) (of_nat fd) 0 k1 = Some (k2, 0)"
    "talks k1 (shown name pat content) k2" "reading (of_nat fd) data 1025 k2 []"
    by (auto simp: ends_def)
  have fd: "2 \<le> fd" using k1(2) k2(3) by (simp add: reading_def Let_def unat_of_nat32)
  have l2: "lots (map flags (file_fds (current k2))) k2 k2" using k2(2) by (simp add: lots_def talks_def)
  have eight: "length (file_fds (current k)) = 8" "fds_ok (current k)" using assms(2) by (simp_all add: console_ok_def std_ok_def fds_ok_def)
  have fl: "map flags (file_fds (current k2)) = (map flags (file_fds (current k)))[fd := 1]"
    using k2(2) k1(8) unfolding talks_def same_use_def by metis
  then have "map flags (file_fds (current k2)) ! fd = 1" using eight(1) k1(2) by simp
  from close_used [OF l2 fd k1(2) this, of E run ecx edx ecx edx] fl
  obtain k3 where k3: "ece391_close os (of_nat fd) k2 = Some (k3, 0)" "lots ((map flags (file_fds (current k)))[fd := 0]) k2 k3"
    by (auto simp: ends_def ece391_close_def os_def)
  have "flags (file_fds (current k) ! fd) = 0" using fds_ok_nth [OF eight(2) k1(2)] k1(7) by (auto simp: file_wf_def)
  then have "(map flags (file_fds (current k)))[fd := 0] = map flags (file_fds (current k))"
    using eight(1) k1(2) list_update_id [of "map flags (file_fds (current k))" fd] by simp
  then have "map flags (file_fds (current k3)) = map flags (file_fds (current k))"
    using k3(2) unfolding lots_def by metis
  moreover have "screen_text k3 = fold put_text (shown name pat content) (screen_text k)"
    using k3(2) talks_screen [OF k2(2)] k1(4) by (simp add: lots_def)
  moreover have "(of_nat fd :: u32) \<noteq> - 1" using k1(2) unat_of_nat32 [of fd] unat_minus_1_32 by fastforce
  then have "do_one_file os lit data s fname k = Some (k3, 0)"
    using len k1(1) k2(1) k3(1) by (simp add: do_one_file_def os_def)
  ultimately show ?thesis by blast
qed

theorem grep_file_spec_witness:
  "\<exists>k'. do_one_file (kernel_os sample_env (\<lambda>_. None) 0 0) (\<lambda>t. if t = [0x3A] then 0x200 else 0x204) 0x1000 0x208 0x100 grep_kernel = Some (k', 0)
    \<and> screen_text k' = fold put_text [0x61, 0x3A, 0x68, 0x69, 0x0A] (screen_text grep_kernel)"
proof -
  let ?lit = "\<lambda>t. if t = [0x3A] then 0x200 else 0x204 :: u32"
  have ok: "console_ok grep_kernel" "image_safe grep_kernel" "lowest_free (current grep_kernel) < 8"
    using sample_kernel_std sample_terminal_ok grep_image(4)
    by (auto simp: console_ok_def image_safe_def grep_kernel_fields sample_kernel_fields shell_pcb_def closed_file_def
        grep_image sample_boot lowest_free_def intro!: low_off_screen in_range_low)
  have own: "owns_string (kernel_os E run ecx edx) (outside off_screen 0x1000) grep_kernel p [c]"
    if "grep_mem p = c" "grep_mem (p + 1) = 0" "c \<noteq> 0" "p \<noteq> 0" "unat p < 0x300" for p c and E :: env and run ecx edx
  proof -
    have "off_screen x \<and> \<not> in_range 0x1000 1025 x" if "in_range p 2 x" for x
    proof -
      have "unat x < 0x302" using in_range_bound [OF that] \<open>unat p < 0x300\<close> by simp
      then show ?thesis by (auto simp: in_range_def unat_sub_if' intro!: low_off_screen)
    qed
    then show ?thesis using that by (auto simp: owns_string_def cstr_iff grep_kernel_fields numeral_2_eq_2)
  qed
  have ready: "search_ready (kernel_os sample_env (\<lambda>_. None) 0 0) (outside off_screen 0x1000) ?lit 0x208 [0x69] 0x100 [0x61] grep_kernel"
    unfolding search_ready_def has_literals_def by (auto intro!: own simp: grep_mem_def sample_mem_def)
  have "x \<noteq> 0" if "in_range 0x1000 1025 x" for x :: u32 using that by (auto simp: in_range_def)
  then have far: "\<forall>x. in_range 0x1000 1025 x \<longrightarrow> off_screen x \<and> x \<noteq> 0"
    using in_range_bound [of "0x1000" 1025] by (fastforce intro!: low_off_screen)
  have short: "short_lines [0x68, 0x69]"
    unfolding short_lines_def using sublist_length_le by fastforce
  have "text_lines [0x68, 0x69] = [[0x68, 0x69]]" by simp
  then have shown: "shown [0x61] [0x69] [0x68, 0x69] = [0x61, 0x3A, 0x68, 0x69, 0x0A]"
    by (simp add: shown_def match_text_def searchable_def sublist_Cons_right)
  show ?thesis
    using grep_file_spec [OF ok ready _ refl _ _ far _ _ refl, of 0] sample_disj [of 1025] short shown
    by (simp add: grep_kernel_fields grep_image) (auto simp: grep_mem_def sample_mem_def)
qed

end
