(* ===== verification/Blink.thy ===== *)
theory Blink
  imports UserPrograms
begin

text \<open>
  The blinking characters of \<open>fish\<close>: \<open>blink.S\<close> with the allocation and copying routines of \<open>fish.c\<close>.
  The characters form a list in the program's memory, whose nodes are entries of \<open>blink_array\<close>; an
  entry with location 0 counts as free. What the assembly code pushes on the stack, arguments and
  saved registers, is not modelled; the copies it makes there are.
\<close>

section \<open>Layout\<close>

text \<open>The addresses of the variables and of the two copies on the stack.\<close>

record blink_env =
  mp1_list_head :: u32
  blink_array :: u32
  vmem_base_addr :: u32
  temp_struct :: u32
  temp_location :: u32

definition load16 :: "mem \<Rightarrow> u32 \<Rightarrow> u16" where
  "load16 m a = ucast (m a) OR push_bit 8 (ucast (m (a + 1)))"

text \<open>The members of \<open>struct mp1_blink_struct\<close>.\<close>

definition location :: "mem \<Rightarrow> u32 \<Rightarrow> u16" where
  "location m a = load16 m a"

definition on_char :: "mem \<Rightarrow> u32 \<Rightarrow> u8" where
  "on_char m a = m (a + 2)"

definition off_char :: "mem \<Rightarrow> u32 \<Rightarrow> u8" where
  "off_char m a = m (a + 3)"

definition on_length :: "mem \<Rightarrow> u32 \<Rightarrow> u16" where
  "on_length m a = load16 m (a + 4)"

definition off_length :: "mem \<Rightarrow> u32 \<Rightarrow> u16" where
  "off_length m a = load16 m (a + 6)"

definition countdown :: "mem \<Rightarrow> u32 \<Rightarrow> u16" where
  "countdown m a = load16 m (a + 8)"

definition blink_status :: "mem \<Rightarrow> u32 \<Rightarrow> u16" where
  "blink_status m a = load16 m (a + 10)"

definition nxt :: "mem \<Rightarrow> u32 \<Rightarrow> u32" where
  "nxt m a = load32 m (a + 12)"

abbreviation (input) STRUCT_SIZE :: u32 where "STRUCT_SIZE \<equiv> 16"

section \<open>Routines of fish.c\<close>

text \<open>\<open>ece391_memset\<close> and \<open>ece391_memcpy\<close>; a negative count does nothing.\<close>

definition fish_memset :: "mem \<Rightarrow> u32 \<Rightarrow> u8 \<Rightarrow> u32 \<Rightarrow> mem" where
  "fish_memset m dest c n = fold (\<lambda>i m. m(dest + of_nat i := c)) [0..<nat (sint n)] m"

definition fish_memcpy :: "mem \<Rightarrow> u32 \<Rightarrow> u32 \<Rightarrow> u32 \<Rightarrow> mem \<times> u32" where
  "fish_memcpy m dest src n = (fold (\<lambda>i m. m(dest + of_nat i := m (src + of_nat i))) [0..<nat (sint n)] m, 0)"

definition mp1_malloc :: "blink_env \<Rightarrow> mem \<Rightarrow> u32" where
  "mp1_malloc B m =
     (case find (\<lambda>i. location m (blink_array B + 16 * of_nat i) = 0) [0..<80 * 25] of
        Some i \<Rightarrow> blink_array B + 16 * of_nat i
      | None \<Rightarrow> NULL)"

definition mp1_free :: "mem \<Rightarrow> u32 \<Rightarrow> mem" where
  "mp1_free m a = fish_memset m a 0 STRUCT_SIZE"

section \<open>blink.S\<close>

definition mp1_poke :: "blink_env \<Rightarrow> u8 \<Rightarrow> u32 \<Rightarrow> mem \<Rightarrow> mem" where
  "mp1_poke B cl eax m = m(load32 m (vmem_base_addr B) + eax := cl)"

text \<open>\<open>jg\<close> after the comparison with 0 is a signed test of the halfword.\<close>

partial_function (option) tasklet_loop :: "blink_env \<Rightarrow> u32 \<Rightarrow> mem \<Rightarrow> mem option" where
  "tasklet_loop B ebx m =
     (if ebx = 0 then Some m
      else (let m = store16 m (ebx + 8) (countdown m ebx - 1)
            in if 0 <s countdown m ebx then tasklet_loop B (nxt m ebx) m
               else (let eax = push_bit 1 (ucast (location m ebx));
                         (m, dx) = (if blink_status m ebx AND 1 = 0
                                    then (let m = mp1_poke B (on_char m ebx) eax m in (m, on_length m ebx))
                                    else (let m = mp1_poke B (off_char m ebx) eax m in (m, off_length m ebx)));
                         m = store16 m (ebx + 8) dx;
                         m = store16 m (ebx + 10) (blink_status m ebx XOR 1)
                     in tasklet_loop B (nxt m ebx) m)))"

definition mp1_rtc_tasklet :: "blink_env \<Rightarrow> mem \<Rightarrow> mem option" where
  "mp1_rtc_tasklet B m = tasklet_loop B (load32 m (mp1_list_head B)) m"

partial_function (option) find_loop :: "u16 \<Rightarrow> u32 \<Rightarrow> mem \<Rightarrow> u32 option" where
  "find_loop ax ebx m =
     (if ebx = 0 then Some 0
      else if location m ebx = ax then Some ebx
      else find_loop ax (nxt m ebx) m)"

definition mp1_find_helper :: "blink_env \<Rightarrow> u32 \<Rightarrow> mem \<Rightarrow> u32 option" where
  "mp1_find_helper B arg m = find_loop (ucast arg) (load32 m (mp1_list_head B)) m"

definition mp1_ioctl_add :: "blink_env \<Rightarrow> u32 \<Rightarrow> mem \<Rightarrow> mem \<times> u32" where
  "mp1_ioctl_add B arg m =
     (let ebx = temp_struct B;
          (m, eax) = fish_memcpy m ebx arg STRUCT_SIZE
      in if eax \<noteq> 0 then (m, - 1)
         else if location m ebx \<ge> 80 * 25 then (m, - 1)
         else (let m = store16 m (ebx + 10) 1;
                   m = store16 m (ebx + 8) (on_length m ebx);
                   eax = mp1_malloc B m
               in if eax = 0 then (m, - 1)
                  else (let edx = eax;
                            (m, _) = fish_memcpy m eax ebx STRUCT_SIZE;
                            m = store32 m (edx + 12) (load32 m (mp1_list_head B));
                            m = store32 m (mp1_list_head B) edx;
                            m = mp1_poke B (on_char m edx) (push_bit 1 (ucast (location m edx))) m
                        in (m, 0))))"

text \<open>The search of \<open>mp1_ioctl_remove\<close> for the pointer that points to the element.\<close>

partial_function (option) find_prev :: "u32 \<Rightarrow> u32 \<Rightarrow> mem \<Rightarrow> u32 option" where
  "find_prev eax edx m =
     (if load32 m edx = eax then Some edx
      else (let edx = load32 m edx in find_prev eax (edx + 12) m))"

definition mp1_ioctl_remove :: "blink_env \<Rightarrow> u32 \<Rightarrow> mem \<Rightarrow> (mem \<times> u32) option" where
  "mp1_ioctl_remove B arg m = do {
     eax \<leftarrow> mp1_find_helper B arg m;
     if eax = 0 then Some (m, - 1)
     else do {
       edx \<leftarrow> find_prev eax (mp1_list_head B) m;
       let m = store32 m edx (nxt m eax);
       Some (mp1_free m eax, 0)
     }
   }"

text \<open>
  \<open>cmovl\<close> is taken when the sign flag differs from the overflow flag, which \<open>testb\<close> clears.
\<close>

definition mp1_ioctl_sync :: "blink_env \<Rightarrow> u32 \<Rightarrow> mem \<Rightarrow> (mem \<times> u32) option" where
  "mp1_ioctl_sync B arg m = do {
     esi \<leftarrow> mp1_find_helper B (drop_bit 16 arg) m;
     if esi = 0 then Some (m, - 1)
     else do {
       edi \<leftarrow> mp1_find_helper B (arg AND 0xFFFF) m;
       if edi = 0 then Some (m, - 1)
       else do {
         let m = store16 m (edi + 4) (on_length m esi);
         let m = store16 m (edi + 6) (off_length m esi);
         let m = store16 m (edi + 8) (countdown m esi);
         let m = store16 m (edi + 10) (blink_status m esi);
         let eax = push_bit 1 (ucast (location m edi));
         let cl = (if m (edi + 10) AND 1 <s 0 then on_char m edi else off_char m edi);
         Some (mp1_poke B cl eax m, 0)
       }
     }
   }"

definition mp1_ioctl_find :: "blink_env \<Rightarrow> u32 \<Rightarrow> mem \<Rightarrow> (mem \<times> u32) option" where
  "mp1_ioctl_find B arg m =
     (let (m, eax) = fish_memcpy m (temp_location B) arg 2
      in if eax \<noteq> 0 then Some (m, - 1)
         else do {
           eax \<leftarrow> mp1_find_helper B (ucast (load16 m (temp_location B))) m;
           if eax = 0 then Some (m, - 1)
           else (let (m, eax) = fish_memcpy m arg eax STRUCT_SIZE in Some (m, if eax = 0 then 0 else - 1))
         })"

text \<open>The jump through \<open>call_table\<close>; a command past its end is undefined.\<close>

definition mp1_ioctl :: "blink_env \<Rightarrow> u32 \<Rightarrow> u32 \<Rightarrow> mem \<Rightarrow> (mem \<times> u32) option" where
  "mp1_ioctl B arg cmd m =
     (if cmd = 0 then Some (mp1_ioctl_add B arg m)
      else if cmd = 1 then mp1_ioctl_remove B arg m
      else if cmd = 2 then mp1_ioctl_find B arg m
      else if cmd = 3 then mp1_ioctl_sync B arg m
      else None)"

section \<open>The program\<close>

text \<open>The addresses of the local variables, and those of the two file names.\<close>

record fish_env =
  blink :: blink_env
  file0 :: u32
  file1 :: u32
  rtc_name :: u32
  main_struct :: u32
  ret_val :: u32
  garbage :: u32
  frame_struct :: u32
  char0 :: u32
  char1 :: u32

definition fish_ioctl :: "'s os \<Rightarrow> blink_env \<Rightarrow> u32 \<Rightarrow> u32 \<Rightarrow> 's \<Rightarrow> 's option" where
  "fish_ioctl os B arg cmd s = map_option (\<lambda>(m, r). set_memory os m s) (mp1_ioctl B arg cmd (memory os s))"

text \<open>Reading the next character of a frame unless its line has ended.\<close>

definition next_char :: "'s os \<Rightarrow> u32 \<Rightarrow> u32 \<Rightarrow> u32 \<times> 's \<Rightarrow> (u32 \<times> 's) option" where
  "next_char os fd c = (\<lambda>(eof, s).
     if memory os s c \<noteq> 0x0A
     then do {
       (s, num_bytes) \<leftarrow> ece391_read os fd c 1 s;
       if num_bytes = 0 then Some (1, poke os c 0x0A s) else Some (eof, s)
     }
     else Some (eof, s))"

definition set_blink :: "'s os \<Rightarrow> u32 \<Rightarrow> u8 \<Rightarrow> u8 \<Rightarrow> u32 \<Rightarrow> 's \<Rightarrow> 's" where
  "set_blink os a c0 c1 loc s =
     (let s = poke os (a + 2) (if c0 = 0x0A then 0x20 else c0) s;
          s = poke os (a + 3) (if c1 = 0x0A then 0x20 else c1) s
      in set_memory os (store16 (memory os s) a (ucast loc)) s)"

partial_function (option) frame_line ::
  "'s os \<Rightarrow> fish_env \<Rightarrow> u32 \<Rightarrow> u32 \<Rightarrow> u32 \<Rightarrow> u32 \<Rightarrow> u32 \<times> u32 \<times> 's \<Rightarrow> (u32 \<times> u32 \<times> 's) option" where
  "frame_line os F fd0 fd1 row col w = (case w of (eof0, eof1, s) \<Rightarrow> do {
     (eof0, s) \<leftarrow> next_char os fd0 (char0 F) (eof0, s);
     (eof1, s) \<leftarrow> next_char os fd1 (char1 F) (eof1, s);
     let c0 = memory os s (char0 F);
     let c1 = memory os s (char1 F);
     if c0 = 0x0A \<and> c1 = 0x0A then Some (eof0, eof1, s)
     else do {
       s \<leftarrow> (if c0 \<noteq> 0x20 \<and> c0 \<noteq> 0x0A \<or> c1 \<noteq> 0x20 \<and> c1 \<noteq> 0x0A
             then fish_ioctl os (blink F) (frame_struct F) 0
                    (set_blink os (frame_struct F) c0 c1 (row * 80 + col + 40) s)
             else Some s);
       frame_line os F fd0 fd1 row (col + 1) (eof0, eof1, s)
     }
   })"

definition end_line :: "'s os \<Rightarrow> u32 \<Rightarrow> u32 \<Rightarrow> u32 \<Rightarrow> 's \<Rightarrow> 's option" where
  "end_line os fd c eof s =
     (if eof \<noteq> 0 then map_option fst (ece391_close os fd (poke os c 0x0A s)) else Some (poke os c 0x30 s))"

partial_function (option) frame_lines ::
  "'s os \<Rightarrow> fish_env \<Rightarrow> u32 \<Rightarrow> u32 \<Rightarrow> u32 \<Rightarrow> u32 \<times> u32 \<times> 's \<Rightarrow> 's option" where
  "frame_lines os F fd0 fd1 row w = (case w of (eof0, eof1, s) \<Rightarrow>
     if eof0 = 0 \<or> eof1 = 0
     then do {
       (eof0, eof1, s) \<leftarrow> frame_line os F fd0 fd1 row 0 (eof0, eof1, s);
       s \<leftarrow> end_line os fd0 (char0 F) eof0 s;
       s \<leftarrow> end_line os fd1 (char1 F) eof1 s;
       frame_lines os F fd0 fd1 (row + 1) (eof0, eof1, s)
     }
     else Some s)"

definition open_frame :: "'s os \<Rightarrow> u32 \<Rightarrow> 's \<Rightarrow> ('s \<times> u32) option" where
  "open_frame os f s = do {
     (s, fd) \<leftarrow> ece391_open os f s;
     if fd <s 0 then do { (s, _) \<leftarrow> ece391_halt os (- 1) s; Some (s, fd) } else Some (s, fd)
   }"

definition add_frames :: "'s os \<Rightarrow> fish_env \<Rightarrow> u32 \<Rightarrow> u32 \<Rightarrow> 's \<Rightarrow> 's option" where
  "add_frames os F f0 f1 s = do {
     let s = poke os (char0 F) 0x30 s;
     let s = poke os (char1 F) 0x30 s;
     let s = set_memory os (store16 (memory os s) (frame_struct F + 4) 15) s;
     let s = set_memory os (store16 (memory os s) (frame_struct F + 6) 15) s;
     (s, fd0) \<leftarrow> open_frame os f0 s;
     (s, fd1) \<leftarrow> open_frame os f1 s;
     frame_lines os F fd0 fd1 0 (0, 0, s)
   }"

definition mp1_set_video_mode :: "'s os \<Rightarrow> blink_env \<Rightarrow> 's \<Rightarrow> ('s \<times> u32) option" where
  "mp1_set_video_mode os B s = do {
     (s, r) \<leftarrow> ece391_vidmap os (vmem_base_addr B) s;
     Some (s, if r = - 1 then NULL else load32 (memory os s) (vmem_base_addr B))
   }"

definition wait_tick :: "'s os \<Rightarrow> fish_env \<Rightarrow> u32 \<Rightarrow> nat \<Rightarrow> 's \<Rightarrow> 's option" where
  "wait_tick os F rtc_fd i s = do {
     (s, _) \<leftarrow> ece391_read os rtc_fd (garbage F) 4 s;
     m \<leftarrow> mp1_rtc_tasklet (blink F) (memory os s);
     Some (set_memory os m s)
   }"

definition fish :: "'s os \<Rightarrow> fish_env \<Rightarrow> 's \<Rightarrow> ('s \<times> u32) option" where
  "fish os F s = do {
     let s = set_memory os (fish_memset (memory os s) (blink_array (blink F)) 0 (16 * 80 * 25)) s;
     (s, v) \<leftarrow> mp1_set_video_mode os (blink F) s;
     if v = NULL then Some (s, - 1)
     else do {
       (s, rtc_fd) \<leftarrow> ece391_open os (rtc_name F) s;
       s \<leftarrow> add_frames os F (file0 F) (file1 F) s;
       let s = set_memory os (store32 (memory os s) (ret_val F) 32) s;
       (s, r) \<leftarrow> ece391_write os rtc_fd (ret_val F) 4 s;
       let s = set_memory os (store32 (memory os s) (ret_val F) r) s;
       s \<leftarrow> for_loop 0 200 (wait_tick os F rtc_fd) s;
       let a = main_struct F;
       let s = poke os (a + 2) 0x49 s;
       let s = poke os (a + 3) 0x4D s;
       let m = store16 (memory os s) (a + 4) 7;
       let m = store16 m (a + 6) 6;
       let m = store16 m a (6 * 80 + 60);
       s \<leftarrow> fish_ioctl os (blink F) a 0 (set_memory os m s);
       s \<leftarrow> for_loop 0 200 (wait_tick os F rtc_fd) s;
       s \<leftarrow> fish_ioctl os (blink F) (push_bit 16 40 OR (6 * 80 + 60)) 3 s;
       s \<leftarrow> for_loop 0 200 (wait_tick os F rtc_fd) s;
       let s = set_memory os (store16 (memory os s) a 60) s;
       s \<leftarrow> fish_ioctl os (blink F) 200 1 s;
       s \<leftarrow> for_loop 0 (80 * 25) (wait_tick os F rtc_fd) s;
       (s, _) \<leftarrow> ece391_close os rtc_fd s;
       Some (s, 0)
     }
   }"

end
