(* ===== verification/BlinkSpec.thy ===== *)
theory BlinkSpec
  imports Blink
begin

text \<open>
  What the list of blinking characters does. A node is described by its \<open>blink\<close>, the list by the
  addresses of its nodes (\<open>chain\<close>), and every call of \<open>blink.S\<close> by its effect on the list of \<open>blink\<close>s and on
  the screen.
\<close>

section \<open>Nodes\<close>

record blink =
  loc :: u16
  char_on :: u8
  char_off :: u8
  time_on :: u16
  time_off :: u16
  left :: u16
  state :: u16

definition blink_at :: "mem \<Rightarrow> u32 \<Rightarrow> blink" where
  "blink_at m a = \<lparr>loc = location m a, char_on = on_char m a, char_off = off_char m a, time_on = on_length m a,
     time_off = off_length m a, left = countdown m a, state = blink_status m a\<rparr>"

lemmas blink_fields = blink_at_def location_def on_char_def off_char_def on_length_def off_length_def
  countdown_def blink_status_def

lemma load16_store16 [simp]: "load16 (store16 m a v) a = v"
  by (rule bit_word_eqI) (auto simp: load16_def store16_def bit_simps)

lemma load16_cong: "m' a = m a \<Longrightarrow> m' (a + 1) = m (a + 1) \<Longrightarrow> load16 m' a = load16 m a"
  by (simp add: load16_def)

lemma load32_four:
  "m' a = m a \<Longrightarrow> m' (a + 1) = m (a + 1) \<Longrightarrow> m' (a + 2) = m (a + 2) \<Longrightarrow> m' (a + 3) = m (a + 3) \<Longrightarrow> load32 m' a = load32 m a"
  by (simp add: load32_def)

lemma load32_store32 [simp]: "load32 (store32 m a v) a = v"
proof (rule bit_word_eqI)
  fix n assume "n < LENGTH(32)"
  then consider "n < 8" | "8 \<le> n" "n < 16" | "16 \<le> n" "n < 24" | "24 \<le> n" "n < 32" by fastforce
  then show "bit (load32 (store32 m a v) a) n = bit v n"
    by cases (auto simp: load32_def store32_def bit_simps)
qed

lemma store16_outside: "\<not> in_range a 2 x \<Longrightarrow> store16 m a v x = m x"
  by (auto simp: store16_def in_range_def)

lemma store32_outside: "\<not> in_range a 4 x \<Longrightarrow> store32 m a v x = m x"
  by (auto simp: store32_def in_range_def)

text \<open>Each store changes one member.\<close>

lemma store_countdown: "blink_at (store16 m (a + 8) v) a = (blink_at m a)\<lparr>left := v\<rparr>"
  and store_status: "blink_at (store16 m (a + 10) v) a = (blink_at m a)\<lparr>state := v\<rparr>"
  and store_on_length: "blink_at (store16 m (a + 4) v) a = (blink_at m a)\<lparr>time_on := v\<rparr>"
  and store_off_length: "blink_at (store16 m (a + 6) v) a = (blink_at m a)\<lparr>time_off := v\<rparr>"
  and store_next: "blink_at (store32 m (a + 12) q) a = blink_at m a"
  by (simp_all add: blink_fields, simp_all add: load16_def store16_def store32_def add.assoc)

text \<open>A node is its 16 bytes.\<close>

lemma in_range_at: "k < n \<Longrightarrow> n \<le> 4294967296 \<Longrightarrow> in_range a n (a + of_nat k)"
  by (simp add: in_range_offset)

lemma node_copy:
  assumes "\<And>k. k < 16 \<Longrightarrow> m' (d + of_nat k) = m (s + of_nat k)"
  shows "blink_at m' d = blink_at m s" and "nxt m' d = nxt m s"
proof -
  note eqs = assms [of 0, simplified] assms [of 1, simplified] assms [of 2, simplified] assms [of 3, simplified]
    assms [of 4, simplified] assms [of 5, simplified] assms [of 6, simplified] assms [of 7, simplified]
    assms [of 8, simplified] assms [of 9, simplified] assms [of 10, simplified] assms [of 11, simplified]
    assms [of 12, simplified] assms [of 13, simplified] assms [of 14, simplified] assms [of 15, simplified]
  show "blink_at m' d = blink_at m s" by (simp add: blink_fields load16_def add.assoc eqs)
  show "nxt m' d = nxt m s" by (simp add: nxt_def load32_def add.assoc eqs)
qed

lemma node_cong:
  assumes "\<And>x. in_range a 16 x \<Longrightarrow> m' x = m x"
  shows "blink_at m' a = blink_at m a" and "nxt m' a = nxt m a"
proof -
  have "m' (a + of_nat k) = m (a + of_nat k)" if "k < 16" for k
    by (rule assms) (use that in \<open>simp add: in_range_offset\<close>)
  then show "blink_at m' a = blink_at m a" and "nxt m' a = nxt m a" using node_copy by blast+
qed

section \<open>The list\<close>

primrec chain :: "mem \<Rightarrow> u32 \<Rightarrow> u32 list \<Rightarrow> bool" where
  "chain m p [] \<longleftrightarrow> p = 0"
| "chain m p (a # as) \<longleftrightarrow> p = a \<and> a \<noteq> 0 \<and> chain m (nxt m a) as"

lemma chain_cong: "(\<And>a. a \<in> set as \<Longrightarrow> nxt m' a = nxt m a) \<Longrightarrow> chain m' p as = chain m p as"
  by (induction as arbitrary: p) auto

lemma find_chain: "chain m p as \<Longrightarrow> find_loop ax p m = Some (case find (\<lambda>a. location m a = ax) as of None \<Rightarrow> 0 | Some a \<Rightarrow> a)"
proof (induction as arbitrary: p)
  case (Cons a as)
  then show ?case by (subst find_loop.simps) auto
qed (simp add: find_loop.simps)

lemma find_prev_chain:
  "chain m (load32 m q) (xs @ a # ys) \<Longrightarrow> a \<notin> set xs \<Longrightarrow>
   find_prev a q m = Some (if xs = [] then q else List.last xs + 12)"
proof (induction xs arbitrary: q)
  case (Cons x xs)
  have "find_prev a q m = find_prev a (x + 12) m" using Cons.prems by (subst find_prev.simps) auto
  also have "\<dots> = Some (if xs = [] then x + 12 else List.last xs + 12)"
    by (rule Cons.IH) (use Cons.prems in \<open>auto simp: nxt_def\<close>)
  finally show ?case by simp
qed (simp add: find_prev.simps)

text \<open>The memory of the list: the array, the head and the two copies on the stack, apart from each other and from the screen.\<close>

definition slot :: "blink_env \<Rightarrow> nat \<Rightarrow> u32" where
  "slot B i = blink_array B + 16 * of_nat i"

definition slots :: "blink_env \<Rightarrow> u32 set" where
  "slots B = slot B ` {..<2000}"

definition list_memory :: "blink_env \<Rightarrow> u32 \<Rightarrow> bool" where
  "list_memory B x \<longleftrightarrow> in_range (blink_array B) 32000 x \<or> in_range (mp1_list_head B) 4 x
     \<or> in_range (temp_struct B) 16 x \<or> in_range (temp_location B) 2 x"

definition blink_layout :: "blink_env \<Rightarrow> u32 \<Rightarrow> bool" where
  "blink_layout B v \<longleftrightarrow> blink_array B \<noteq> 0 \<and> unat (blink_array B) + 32000 \<le> 4294967296
     \<and> disj_ranges (blink_array B) 32000 (mp1_list_head B) 4 \<and> disj_ranges (blink_array B) 32000 (temp_struct B) 16
     \<and> disj_ranges (mp1_list_head B) 4 (temp_struct B) 16
     \<and> (\<forall>(a, n) \<in> {(blink_array B, 32000), (mp1_list_head B, 4), (temp_struct B, 16), (temp_location B, 2)}.
          disj_ranges (vmem_base_addr B) 4 a n \<and> disj_ranges v 4000 a n)
     \<and> disj_ranges v 4000 (vmem_base_addr B) 4"

lemma slot_offset: "i < 2000 \<Longrightarrow> k < 16 \<Longrightarrow> slot B i + of_nat k = blink_array B + of_nat (16 * i + k)"
  by (simp add: slot_def)

lemma slot_range: "a \<in> slots B \<Longrightarrow> in_range a 16 x \<Longrightarrow> in_range (blink_array B) 32000 x"
proof -
  assume "a \<in> slots B" "in_range a 16 x"
  then obtain i k where i: "i < 2000" "a = slot B i" "k < 16" "x = a + of_nat k"
    by (auto simp: slots_def dest: in_range_D)
  then have "x = blink_array B + of_nat (16 * i + k)" by (simp only: slot_offset)
  then show ?thesis using i(1,3) by (simp add: in_range_offset del: of_nat_add of_nat_mult)
qed

lemma slots_disjoint:
  assumes "a \<in> slots B" and "a' \<in> slots B" and "in_range a 16 x" and "in_range a' 16 x"
  shows "a = a'"
proof -
  obtain i k where i: "i < 2000" "a = slot B i" "k < 16" "x = a + of_nat k"
    using assms(1,3) by (auto simp: slots_def dest: in_range_D)
  obtain i' k' where i': "i' < 2000" "a' = slot B i'" "k' < 16" "x = a' + of_nat k'"
    using assms(2,4) by (auto simp: slots_def dest: in_range_D)
  have "(of_nat (16 * i + k) :: u32) = of_nat (16 * i' + k')"
    using i i' slot_offset [of i k B] slot_offset [of i' k' B] by simp
  moreover have "16 * i + k < 4294967296" "16 * i' + k' < 4294967296" using i(1,3) i'(1,3) by simp_all
  ultimately have "16 * i + k = 16 * i' + k'" using unat_of_nat32 by metis
  then have "i = i'" using i(3) i'(3) by simp
  then show ?thesis using i(2) i'(2) by simp
qed

lemma slot_not_in: "a \<in> slots B \<Longrightarrow> a \<notin> set as \<Longrightarrow> set as \<subseteq> slots B \<Longrightarrow> in_range a 16 x \<Longrightarrow> \<forall>a' \<in> set as. \<not> in_range a' 16 x"
  using slots_disjoint by blast

lemma slot_nonzero: "blink_layout B v \<Longrightarrow> a \<in> slots B \<Longrightarrow> a \<noteq> 0"
proof -
  assume l: "blink_layout B v" and a: "a \<in> slots B"
  obtain i where i: "i < 2000" "a = slot B i" using a by (auto simp: slots_def)
  have "16 * i < 32000" using i(1) by simp
  moreover have "a = blink_array B + of_nat (16 * i)" using i(2) by (simp add: slot_def)
  moreover have "unat (blink_array B) + 32000 \<le> 4294967296" "0 < unat (blink_array B)"
    using l by (simp_all add: blink_layout_def unat_gt_0)
  ultimately have "unat a = unat (blink_array B) + 16 * i"
    using unat_of_nat32 [of "16 * i"] by (simp add: unat_word_ariths(1) del: of_nat_mult)
  then show ?thesis using \<open>0 < unat (blink_array B)\<close> by auto
qed

text \<open>What is drawn: characters at locations of the screen at \<open>v\<close>.\<close>

definition paint :: "u32 \<Rightarrow> (u16 \<times> u8) list \<Rightarrow> mem \<Rightarrow> mem" where
  "paint v ps m = fold (\<lambda>(l, c) m. m(v + push_bit 1 (ucast l) := c)) ps m"

lemma paint_simps [simp]:
  "paint v [] m = m"
  "paint v ((l, c) # ps) m = paint v ps (m(v + push_bit 1 (ucast l) := c))"
  "paint v (ps @ qs) m = paint v qs (paint v ps m)"
  by (simp_all add: paint_def)

lemma paint_cong: "m' x = m x \<Longrightarrow> paint v ps m' x = paint v ps m x"
proof (induction ps arbitrary: m m')
  case (Cons p ps)
  obtain l c where p: "p = (l, c)" by (cases p)
  define a where "a = v + push_bit 1 (ucast l)"
  have "(m'(a := c)) x = (m(a := c)) x" using Cons.prems by simp
  then have "paint v ps (m'(a := c)) x = paint v ps (m(a := c)) x" by (rule Cons.IH)
  then show ?case by (simp only: p a_def paint_simps)
qed simp

lemma cell_in_screen: "l < 2000 \<Longrightarrow> in_range v 4000 (v + push_bit 1 (ucast (l :: u16)))"
proof -
  assume "l < 2000"
  then have l: "unat l < 2000" by (simp add: word_less_nat_alt)
  have "push_bit 1 (ucast l :: u32) = of_nat (2 * unat l)" by (simp add: push_bit_eq_mult)
  then show ?thesis using l by (simp add: in_range_offset del: of_nat_mult)
qed

lemma paint_outside: "list_all (\<lambda>p. fst p < 2000) ps \<Longrightarrow> \<not> in_range v 4000 x \<Longrightarrow> paint v ps m x = m x"
proof (induction ps arbitrary: m)
  case (Cons p ps)
  obtain l c where p: "p = (l, c)" by (cases p)
  have "x \<noteq> v + push_bit 1 (ucast l)" using Cons.prems cell_in_screen [of l v] by (auto simp: p)
  then have "(m(v + push_bit 1 (ucast l) := c)) x = m x" by simp
  moreover have "paint v ps (m(v + push_bit 1 (ucast l) := c)) x = (m(v + push_bit 1 (ucast l) := c)) x"
    by (rule Cons.IH) (use Cons.prems in simp_all)
  ultimately show ?case by (simp only: p paint_simps)
qed simp

text \<open>The invariant for the nodes \<open>as\<close> and the screen at \<open>v\<close>.\<close>

definition blinks_ok :: "blink_env \<Rightarrow> u32 \<Rightarrow> mem \<Rightarrow> u32 list \<Rightarrow> bool" where
  "blinks_ok B v m as \<longleftrightarrow> load32 m (vmem_base_addr B) = v \<and> chain m (load32 m (mp1_list_head B)) as
     \<and> distinct as \<and> set as \<subseteq> slots B \<and> (\<forall>a \<in> slots B. location m a = 0 \<longleftrightarrow> a \<notin> set as)
     \<and> (\<forall>a \<in> set as. location m a < 2000)"

definition blinks :: "mem \<Rightarrow> u32 list \<Rightarrow> blink list" where
  "blinks m as = List.map (blink_at m) as"

section \<open>The tick\<close>

definition tick :: "blink \<Rightarrow> blink \<times> (u16 \<times> u8) list" where
  "tick b = (let b = b\<lparr>left := left b - 1\<rparr>
             in if 0 <s left b then (b, [])
                else if state b AND 1 = 0 then (b\<lparr>left := time_on b, state := state b XOR 1\<rparr>, [(loc b, char_on b)])
                else (b\<lparr>left := time_off b, state := state b XOR 1\<rparr>, [(loc b, char_off b)]))"

lemma fields: "location m a = loc (blink_at m a)" "on_char m a = char_on (blink_at m a)" "off_char m a = char_off (blink_at m a)"
  "on_length m a = time_on (blink_at m a)" "off_length m a = time_off (blink_at m a)"
  "countdown m a = left (blink_at m a)" "blink_status m a = state (blink_at m a)"
  by (simp_all add: blink_at_def)

lemma node_frame:
  assumes "k + 2 \<le> 12" and "\<not> in_range a 16 x"
  shows "store16 m (a + of_nat k) w x = m x"
  by (rule store16_outside) (use assms in_range_sub [of "a + of_nat k" a 2 16 x] in \<open>auto simp: unat_of_nat32\<close>)

lemma nxt_store16 [simp]: "nxt (store16 m (a + 4) w) a = nxt m a" "nxt (store16 m (a + 6) w) a = nxt m a"
  "nxt (store16 m (a + 8) w) a = nxt m a" "nxt (store16 m (a + 10) w) a = nxt m a"
  by (simp_all add: nxt_def load32_def store16_def add.assoc)

lemmas node_outside = node_frame [of 4, simplified] node_frame [of 6, simplified] node_frame [of 8, simplified]
  node_frame [of 10, simplified]

text \<open>The parts are apart.\<close>

lemma layoutD:
  assumes "blink_layout B v"
  shows head_apart: "in_range (mp1_list_head B) 4 x \<Longrightarrow>
      \<not> in_range (blink_array B) 32000 x \<and> \<not> in_range (temp_struct B) 16 x \<and> \<not> in_range v 4000 x"
    and vmem_apart: "in_range (vmem_base_addr B) 4 x \<Longrightarrow> \<not> list_memory B x \<and> \<not> in_range v 4000 x"
    and temp_apart: "in_range (temp_struct B) 16 x \<Longrightarrow> \<not> in_range (blink_array B) 32000 x \<and> \<not> in_range v 4000 x"
    and screen_apart: "list_memory B x \<Longrightarrow> \<not> in_range v 4000 x"
proof -
  have d: "disj_ranges (blink_array B) 32000 (mp1_list_head B) 4" "disj_ranges (blink_array B) 32000 (temp_struct B) 16"
    "disj_ranges (mp1_list_head B) 4 (temp_struct B) 16" "disj_ranges v 4000 (vmem_base_addr B) 4"
    "disj_ranges v 4000 (blink_array B) 32000" "disj_ranges v 4000 (mp1_list_head B) 4" "disj_ranges v 4000 (temp_struct B) 16"
    "disj_ranges v 4000 (temp_location B) 2"
    "disj_ranges (vmem_base_addr B) 4 (blink_array B) 32000" "disj_ranges (vmem_base_addr B) 4 (mp1_list_head B) 4"
    "disj_ranges (vmem_base_addr B) 4 (temp_struct B) 16" "disj_ranges (vmem_base_addr B) 4 (temp_location B) 2"
    using assms by (simp_all add: blink_layout_def)
  show "in_range (mp1_list_head B) 4 x \<Longrightarrow>
      \<not> in_range (blink_array B) 32000 x \<and> \<not> in_range (temp_struct B) 16 x \<and> \<not> in_range v 4000 x"
    using disj_rangesD2 [OF d(1)] disj_rangesD [OF d(3)] disj_rangesD2 [OF d(6)] by blast
  show "in_range (vmem_base_addr B) 4 x \<Longrightarrow> \<not> list_memory B x \<and> \<not> in_range v 4000 x"
    unfolding list_memory_def
    using disj_rangesD [OF d(9)] disj_rangesD [OF d(10)] disj_rangesD [OF d(11)] disj_rangesD [OF d(12)] disj_rangesD2 [OF d(4)] by blast
  show "in_range (temp_struct B) 16 x \<Longrightarrow> \<not> in_range (blink_array B) 32000 x \<and> \<not> in_range v 4000 x"
    using disj_rangesD2 [OF d(2)] disj_rangesD2 [OF d(7)] by blast
  show "list_memory B x \<Longrightarrow> \<not> in_range v 4000 x"
    unfolding list_memory_def
    using disj_rangesD2 [OF d(5)] disj_rangesD2 [OF d(6)] disj_rangesD2 [OF d(7)] disj_rangesD2 [OF d(8)] by blast
qed

lemma screen_not_slot: "blink_layout B v \<Longrightarrow> a \<in> slots B \<Longrightarrow> in_range a 16 x \<Longrightarrow> \<not> in_range v 4000 x"
  using slot_range [of a B x] screen_apart [of B v x] by (auto simp: list_memory_def)

lemma vmem_not_slot: "blink_layout B v \<Longrightarrow> a \<in> slots B \<Longrightarrow> in_range (vmem_base_addr B) 4 x \<Longrightarrow> \<not> in_range a 16 x"
  using slot_range [of a B x] vmem_apart [of B v x] by (auto simp: list_memory_def)

lemma load32_frame: "(\<And>x. in_range a 4 x \<Longrightarrow> m' x = m x) \<Longrightarrow> load32 m' a = load32 m a"
proof (rule load32_four)
  assume eq: "\<And>x. in_range a 4 x \<Longrightarrow> m' x = m x"
  have "m' (a + of_nat k) = m (a + of_nat k)" if "k < 4" for k
    by (rule eq) (use that in \<open>simp add: in_range_offset\<close>)
  from this [of 0] this [of 1] this [of 2] this [of 3]
  show "m' a = m a" "m' (a + 1) = m (a + 1)" "m' (a + 2) = m (a + 2)" "m' (a + 3) = m (a + 3)" by simp_all
qed

text \<open>Drawing at the location of a node leaves all nodes alone.\<close>

lemma poke_node:
  assumes "blink_layout B v" and "a \<in> slots B" and "l < 2000" and "load32 m (vmem_base_addr B) = v"
  shows "blink_at (mp1_poke B c (push_bit 1 (ucast l)) m) a = blink_at m a"
    and "nxt (mp1_poke B c (push_bit 1 (ucast l)) m) a = nxt m a"
    and "mp1_poke B c (push_bit 1 (ucast l)) m = paint v [(l, c)] m"
proof -
  show eq: "mp1_poke B c (push_bit 1 (ucast l)) m = paint v [(l, c)] m" by (simp add: mp1_poke_def assms(4))
  have "mp1_poke B c (push_bit 1 (ucast l)) m x = m x" if "in_range a 16 x" for x
    unfolding eq by (rule paint_outside) (use assms(3) screen_not_slot [OF assms(1,2) that] in simp_all)
  then show "blink_at (mp1_poke B c (push_bit 1 (ucast l)) m) a = blink_at m a"
    and "nxt (mp1_poke B c (push_bit 1 (ucast l)) m) a = nxt m a"
    using node_cong by blast+
qed

text \<open>One round of the loop, whatever follows it.\<close>

definition tick_mem :: "blink_env \<Rightarrow> u32 \<Rightarrow> mem \<Rightarrow> mem" where
  "tick_mem B ebx m =
     (let m = store16 m (ebx + 8) (countdown m ebx - 1)
      in if 0 <s countdown m ebx then m
         else (let eax = push_bit 1 (ucast (location m ebx));
                   (m, dx) = (if blink_status m ebx AND 1 = 0
                              then (let m = mp1_poke B (on_char m ebx) eax m in (m, on_length m ebx))
                              else (let m = mp1_poke B (off_char m ebx) eax m in (m, off_length m ebx)));
                   m = store16 m (ebx + 8) dx
               in store16 m (ebx + 10) (blink_status m ebx XOR 1)))"

lemma tasklet_round:
  "(let m = store16 m (ebx + 8) (countdown m ebx - 1)
    in if 0 <s countdown m ebx then f (nxt m ebx) m
       else (let eax = push_bit 1 (ucast (location m ebx));
                 (m, dx) = (if blink_status m ebx AND 1 = 0
                            then (let m = mp1_poke B (on_char m ebx) eax m in (m, on_length m ebx))
                            else (let m = mp1_poke B (off_char m ebx) eax m in (m, off_length m ebx)));
                 m = store16 m (ebx + 8) dx;
                 m = store16 m (ebx + 10) (blink_status m ebx XOR 1)
             in f (nxt m ebx) m)) = f (nxt (tick_mem B ebx m) ebx) (tick_mem B ebx m)"
  by (simp add: tick_mem_def Let_def split: if_split)

lemma tasklet_step: "a \<noteq> 0 \<Longrightarrow> tasklet_loop B a m = tasklet_loop B (nxt (tick_mem B a m) a) (tick_mem B a m)"
  by (subst tasklet_loop.simps) (simp add: tasklet_round [of _ _ "tasklet_loop B"])

lemma tick_node:
  assumes lay: "blink_layout B v" and a: "a \<in> slots B" and l: "location m a < 2000" and v: "load32 m (vmem_base_addr B) = v"
  shows "blink_at (tick_mem B a m) a = fst (tick (blink_at m a)) \<and> nxt (tick_mem B a m) a = nxt m a
    \<and> (\<forall>x. \<not> in_range a 16 x \<longrightarrow> tick_mem B a m x = paint v (snd (tick (blink_at m a))) m x)"
proof -
  define m0 where "m0 = store16 m (a + 8) (countdown m a - 1)"
  define c where "c = (if blink_status m0 a AND 1 = 0 then on_char m0 a else off_char m0 a)"
  define t where "t = (if blink_status m0 a AND 1 = 0 then on_length m0 a else off_length m0 a)"
  define m1 where "m1 = mp1_poke B c (push_bit 1 (ucast (location m0 a))) m0"
  define m2 where "m2 = store16 (store16 m1 (a + 8) t) (a + 10) (blink_status m0 a XOR 1)"
  have m0: "blink_at m0 a = (blink_at m a)\<lparr>left := left (blink_at m a) - 1\<rparr>" "nxt m0 a = nxt m a"
    by (simp_all add: m0_def store_countdown fields)
  have out0: "m0 x = m x" if "\<not> in_range a 16 x" for x using node_outside(3) [OF that] by (simp add: m0_def)
  have v0: "load32 m0 (vmem_base_addr B) = v"
    using load32_frame [of "vmem_base_addr B" m0 m] out0 vmem_not_slot [OF lay a] v by simp
  have l0: "location m0 a = location m a" "location m0 a < 2000" using m0(1) l by (simp_all add: fields)
  have m1: "blink_at m1 a = blink_at m0 a" "nxt m1 a = nxt m0 a" "m1 = paint v [(location m0 a, c)] m0"
    using poke_node [OF lay a l0(2) v0, of c] by (simp_all only: m1_def)
  have m2: "blink_at m2 a = (blink_at m0 a)\<lparr>left := t, state := blink_status m0 a XOR 1\<rparr>" "nxt m2 a = nxt m a"
    by (simp_all add: m2_def store_countdown store_status m1(1,2) m0(2))
  have out2: "m2 x = m1 x" if "\<not> in_range a 16 x" for x
    using node_outside(3,4) [OF that] by (simp add: m2_def)
  show ?thesis
  proof (cases "0 <s countdown m0 a")
    case True
    then have "tick_mem B a m = m0" by (simp add: tick_mem_def m0_def [symmetric] Let_def)
    moreover have "tick (blink_at m a) = (blink_at m0 a, [])" using True by (simp add: tick_def m0(1) fields Let_def)
    ultimately show ?thesis using m0(2) out0 by auto
  next
    case False
    have "blink_status m1 a = blink_status m0 a" by (simp add: fields m1(1))
    moreover have "state (blink_at (store16 m1 (a + 8) t) a) = state (blink_at m1 a)" by (simp add: store_countdown)
    ultimately have m2': "m2 = store16 (store16 m1 (a + 8) t) (a + 10) (blink_status (store16 m1 (a + 8) t) a XOR 1)"
      by (simp add: m2_def fields)
    have len: "on_length m1 a = on_length m0 a" "off_length m1 a = off_length m0 a" by (simp_all add: fields m1(1))
    have "tick_mem B a m = m2"
      using False len unfolding tick_mem_def m0_def [symmetric] Let_def
      by (cases "blink_status m0 a AND 1 = 0") (simp_all add: m2' m1_def c_def t_def)
    moreover have "tick (blink_at m a) = (blink_at m2 a, [(location m0 a, c)])"
      using False by (simp add: tick_def m2(1) m0(1) fields Let_def c_def t_def)
    moreover have "m2 x = paint v [(location m0 a, c)] m x" if "\<not> in_range a 16 x" for x
      using out2 [OF that] out0 [OF that] m1(3) paint_cong [of m0 x m] by simp
    ultimately show ?thesis using m2(2) by auto
  qed
qed

lemma tick_keeps [simp]: "loc (fst (tick b)) = loc b" "list_all (\<lambda>p. fst p < 2000) (snd (tick b)) \<longleftrightarrow> snd (tick b) = [] \<or> loc b < 2000"
  by (auto simp: tick_def Let_def)

lemma tasklet_loop_ticks:
  assumes lay: "blink_layout B v"
  shows "chain m p as \<Longrightarrow> distinct as \<Longrightarrow> set as \<subseteq> slots B \<Longrightarrow> \<forall>a \<in> set as. location m a < 2000 \<Longrightarrow>
    load32 m (vmem_base_addr B) = v \<Longrightarrow>
    \<exists>m'. tasklet_loop B p m = Some m' \<and> (\<forall>a \<in> set as. blink_at m' a = fst (tick (blink_at m a)) \<and> nxt m' a = nxt m a)
      \<and> (\<forall>x. (\<forall>a \<in> set as. \<not> in_range a 16 x) \<longrightarrow> m' x = paint v (concat (map (\<lambda>b. snd (tick b)) (blinks m as))) m x)"
proof (induction as arbitrary: p m)
  case Nil
  then show ?case by (subst tasklet_loop.simps) (simp add: blinks_def)
next
  case (Cons a as)
  have a: "a \<in> slots B" "location m a < 2000" using Cons.prems by simp_all
  define m1 where "m1 = tick_mem B a m"
  have m1: "tasklet_loop B a m = tasklet_loop B (nxt m a) m1" "blink_at m1 a = fst (tick (blink_at m a))"
    "nxt m1 a = nxt m a" "\<forall>x. \<not> in_range a 16 x \<longrightarrow> m1 x = paint v (snd (tick (blink_at m a))) m x"
    using tick_node [OF lay a Cons.prems(5)] tasklet_step [OF slot_nonzero [OF lay a(1)]] by (simp_all add: m1_def)
  define ps where "ps = snd (tick (blink_at m a))"
  have ps: "list_all (\<lambda>p. fst p < 2000) ps" using a(2) by (simp add: ps_def fields)
  have out: "m1 x = m x" if "\<not> in_range a 16 x" "\<not> in_range v 4000 x" for x
    using m1(4) that paint_outside [OF ps that(2)] by (simp add: ps_def)
  have other: "blink_at m1 a' = blink_at m a'" "nxt m1 a' = nxt m a'" if "a' \<in> set as" for a'
  proof -
    have a': "a' \<in> slots B" "a' \<noteq> a" using that Cons.prems by auto
    have "m1 x = m x" if "in_range a' 16 x" for x
      using out slots_disjoint [OF a(1) a'(1) _ that] a'(2) screen_not_slot [OF lay a'(1) that] by blast
    then show "blink_at m1 a' = blink_at m a'" "nxt m1 a' = nxt m a'" using node_cong by blast+
  qed
  have "m1 x = m x" if "in_range (vmem_base_addr B) 4 x" for x
  proof (rule out)
    show "\<not> in_range a 16 x" by (rule vmem_not_slot [OF lay a(1) that])
    show "\<not> in_range v 4000 x" using vmem_apart [OF lay that] by simp
  qed
  then have v1: "load32 m1 (vmem_base_addr B) = v" using load32_frame Cons.prems(5) by metis
  have "chain m1 (nxt m a) as" using Cons.prems(1) chain_cong [of as m1 m] other(2) by simp
  moreover have "\<forall>a \<in> set as. location m1 a < 2000" using Cons.prems(4) other(1) by (simp add: fields)
  moreover have "distinct as" "set as \<subseteq> slots B" "a \<notin> set as" using Cons.prems by simp_all
  ultimately obtain m' where m': "tasklet_loop B (nxt m a) m1 = Some m'"
    "\<forall>a \<in> set as. blink_at m' a = fst (tick (blink_at m1 a)) \<and> nxt m' a = nxt m1 a"
    "\<forall>x. (\<forall>a \<in> set as. \<not> in_range a 16 x) \<longrightarrow> m' x = paint v (concat (map (\<lambda>b. snd (tick b)) (blinks m1 as))) m1 x"
    using Cons.IH [OF _ _ _ _ v1] by blast
  have same: "blinks m1 as = blinks m as" using other(1) by (simp add: blinks_def)
  define qs where "qs = concat (map (\<lambda>b. snd (tick b)) (blinks m as))"
  have qs: "list_all (\<lambda>p. fst p < 2000) qs"
    using Cons.prems(4) by (force simp: qs_def list_all_iff blinks_def fields tick_def Let_def split: if_splits)
  have "m' x = m1 x" if "in_range a 16 x" for x
  proof -
    have "\<forall>a' \<in> set as. \<not> in_range a' 16 x" by (rule slot_not_in [OF a(1) _ _ that]) (use Cons.prems(2,3) in simp_all)
    then show ?thesis
      using m'(3) paint_outside [OF qs screen_not_slot [OF lay a(1) that]] by (simp add: same qs_def)
  qed
  then have "blink_at m' a = blink_at m1 a" "nxt m' a = nxt m1 a" using node_cong by blast+
  moreover have "m' x = paint v (ps @ qs) m x" if "\<forall>a' \<in> set (a # as). \<not> in_range a' 16 x" for x
    using that m'(3) m1(4) paint_cong [of m1 x "paint v ps m" v qs] by (simp add: same ps_def qs_def)
  moreover have "tasklet_loop B p m = Some m'" using Cons.prems(1) m1(1) m'(1) by simp
  ultimately show ?case
    using m1(2,3) m'(2) other by (intro exI [of _ m']) (simp add: ps_def qs_def blinks_def)
qed

lemma not_list_memory: "\<not> list_memory B x \<Longrightarrow> a \<in> slots B \<Longrightarrow> \<not> in_range a 16 x"
  using slot_range by (auto simp: list_memory_def)

lemma tasklet_ok:
  assumes lay: "blink_layout B v" and ok: "blinks_ok B v m as"
  shows "\<exists>m'. mp1_rtc_tasklet B m = Some m' \<and> blinks_ok B v m' as \<and> blinks m' as = map (\<lambda>b. fst (tick b)) (blinks m as)
    \<and> (\<forall>x. \<not> list_memory B x \<longrightarrow> m' x = paint v (concat (map (\<lambda>b. snd (tick b)) (blinks m as))) m x)"
proof -
  define ps where "ps = concat (map (\<lambda>b. snd (tick b)) (blinks m as))"
  have sub: "set as \<subseteq> slots B" "distinct as" "\<forall>a \<in> set as. location m a < 2000" using ok by (simp_all add: blinks_ok_def)
  obtain m' where m': "mp1_rtc_tasklet B m = Some m'"
    "\<forall>a \<in> set as. blink_at m' a = fst (tick (blink_at m a)) \<and> nxt m' a = nxt m a"
    "\<forall>x. (\<forall>a \<in> set as. \<not> in_range a 16 x) \<longrightarrow> m' x = paint v ps m x"
    using tasklet_loop_ticks [OF lay, of m "load32 m (mp1_list_head B)" as] ok
    unfolding mp1_rtc_tasklet_def ps_def by (auto simp: blinks_ok_def)
  have ps: "list_all (\<lambda>p. fst p < 2000) ps"
    using sub(3) by (force simp: ps_def list_all_iff blinks_def fields tick_def Let_def split: if_splits)
  have out: "m' x = m x" if "\<forall>a \<in> set as. \<not> in_range a 16 x" "\<not> in_range v 4000 x" for x
    using m'(3) that paint_outside [OF ps] by simp
  have head: "load32 m' a = load32 m a" if "a = mp1_list_head B \<or> a = vmem_base_addr B" for a
  proof (rule load32_frame, rule out)
    fix x assume x: "in_range a 4 x"
    show "\<forall>a \<in> set as. \<not> in_range a 16 x"
      using that x head_apart [OF lay, of x] vmem_apart [OF lay, of x] sub(1) slot_range [of _ B x] by (auto simp: list_memory_def)
    show "\<not> in_range v 4000 x"
      using that x head_apart [OF lay, of x] vmem_apart [OF lay, of x] by auto
  qed
  have free: "location m' a = location m a" if f: "a \<in> slots B" "a \<notin> set as" for a
  proof -
    have "m' x = m x" if x: "in_range a 16 x" for x
      by (rule out [OF slot_not_in [OF f sub(1) x] screen_not_slot [OF lay f(1) x]])
    then have "blink_at m' a = blink_at m a" by (rule node_cong(1))
    then show ?thesis by (simp add: fields)
  qed
  have locs: "location m' a = location m a" if "a \<in> slots B" for a
    using free [OF that] m'(2) by (cases "a \<in> set as") (simp_all add: fields)
  have "chain m' (load32 m' (mp1_list_head B)) as"
    using ok m'(2) head chain_cong [of as m' m] by (simp add: blinks_ok_def)
  then have "blinks_ok B v m' as"
    using ok locs head sub(1) by (auto simp: blinks_ok_def)
  moreover have "\<forall>x. \<not> list_memory B x \<longrightarrow> m' x = paint v ps m x"
    using m'(3) not_list_memory sub(1) by blast
  ultimately show ?thesis using m'(1,2) unfolding ps_def by (auto simp: blinks_def)
qed

section \<open>Copying and allocating\<close>

lemma fold_copy: "fold (\<lambda>i m. m(d + of_nat i := m (s + of_nat i))) [k..<k + n] m = copy_fwd m (d + of_nat k) (s + of_nat k) n"
proof (induction n arbitrary: k m)
  case (Suc n)
  have "[k..<k + Suc n] = k # [Suc k..<Suc k + n]" by (simp add: upt_conv_Cons)
  moreover have "d + of_nat (Suc k) = d + of_nat k + 1" "s + of_nat (Suc k) = s + of_nat k + 1" by simp_all
  ultimately show ?case
    using Suc.IH [of "Suc k" "m(d + of_nat k := m (s + of_nat k))"] by (simp only: fold_simps copy_fwd.simps)
qed simp

lemma fish_memcpy_16: "fish_memcpy m d s 16 = (copy_fwd m d s 16, 0)"
  using fold_copy [of d s 0 16 m] by (simp add: fish_memcpy_def)

lemma fish_memset_16: "fish_memset m d c 16 x = (if in_range d 16 x then c else m x)"
proof -
  have "fold (\<lambda>i m. m(d + of_nat i := c)) [0..<n] m x = (if in_range d n x then c else m x)" for n
  proof (induction n)
    case (Suc n)
    have "in_range d (Suc n) x \<longleftrightarrow> in_range d n x \<or> x = d + of_nat n" if "\<not> 4294967296 \<le> n"
      using that by (auto simp: in_range_Suc_last unat_diff_eq)
    moreover have "in_range d n x" if "4294967296 \<le> n" using that by simp
    ultimately show ?case using Suc.IH by (cases "4294967296 \<le> n") (auto simp: fun_upd_apply in_range_Suc_last)
  qed simp
  from this [of 16] show ?thesis by (simp add: fish_memset_def)
qed

lemma copy_node:
  assumes "disj_ranges s 16 d 16"
  shows "blink_at (copy_fwd m d s 16) d = blink_at m s" and "\<not> in_range d 16 x \<Longrightarrow> copy_fwd m d s 16 x = m x"
proof -
  have "16 \<le> unat (d - s)" using assms by (simp add: disj_ranges_def)
  then have c: "copy_fwd m d s 16 x = (if in_range d 16 x then m (s + (x - d)) else m x)" for x
    by (intro copy_fwd_apply) auto
  show "blink_at (copy_fwd m d s 16) d = blink_at m s"
    by (rule node_copy) (simp add: c in_range_offset)
  show "\<not> in_range d 16 x \<Longrightarrow> copy_fwd m d s 16 x = m x" by (simp add: c)
qed

lemma slot_inj: "inj_on (slot B) {..<2000}"
proof (rule inj_onI)
  fix i j assume "i \<in> {..<2000}" "j \<in> {..<2000}" "slot B i = slot B j"
  then have "(of_nat (16 * i) :: u32) = of_nat (16 * j)" "16 * i < 4294967296" "16 * j < 4294967296" by (simp_all add: slot_def)
  then have "16 * i = 16 * j" using of_nat_eq32 by blast
  then show "i = j" by simp
qed

lemma card_slots: "card (slots B) = 2000" "finite (slots B)"
  by (simp_all add: slots_def card_image [OF slot_inj])

lemma malloc_free:
  assumes "distinct as" and "set as \<subseteq> slots B" and "\<And>a. a \<in> slots B \<Longrightarrow> location m a = 0 \<longleftrightarrow> a \<notin> set as"
  shows "length as < 2000 \<Longrightarrow> mp1_malloc B m \<in> slots B - set as" and "2000 \<le> length as \<Longrightarrow> mp1_malloc B m = 0"
proof -
  have card: "card (set as) = length as" using assms(1) by (rule distinct_card)
  show "mp1_malloc B m \<in> slots B - set as" if "length as < 2000"
  proof -
    have "set as \<noteq> slots B" using that card card_slots(1) [of B] by auto
    then obtain i where "i < 2000" "slot B i \<notin> set as" using assms(2) by (auto simp: slots_def)
    then have "\<exists>i \<in> set [0..<80 * 25]. location m (blink_array B + 16 * of_nat i) = 0"
      using assms(3) [of "slot B i"] by (auto simp: slots_def slot_def)
    then obtain j where j: "find (\<lambda>i. location m (blink_array B + 16 * of_nat i) = 0) [0..<80 * 25] = Some j"
      by (metis (mono_tags, lifting) find_None_iff not_Some_eq)
    then have "j < 2000" "location m (slot B j) = 0" by (auto simp: find_Some_iff slot_def)
    then have "slot B j \<in> slots B - set as" using assms(3) [of "slot B j"] by (simp add: slots_def)
    then show ?thesis using j by (simp add: mp1_malloc_def slot_def)
  qed
  show "mp1_malloc B m = 0" if "2000 \<le> length as"
  proof -
    have "set as = slots B"
      by (rule card_seteq [OF card_slots(2) assms(2)]) (use that card card_slots(1) [of B] in simp)
    then have "location m (slot B i) \<noteq> 0" if "i < 2000" for i using that assms(3) [of "slot B i"] by (auto simp: slots_def)
    then have "find (\<lambda>i. location m (blink_array B + 16 * of_nat i) = 0) [0..<80 * 25] = None"
      by (auto simp: find_None_iff slot_def)
    then show ?thesis by (simp add: mp1_malloc_def)
  qed
qed

section \<open>Adding\<close>

lemma blinks_ok_slots:
  assumes "blinks_ok B v m as"
  shows "set as \<subseteq> slots B" and "distinct as" and "\<And>a. a \<in> slots B \<Longrightarrow> location m a = 0 \<longleftrightarrow> a \<notin> set as"
    and "\<And>a. a \<in> set as \<Longrightarrow> location m a < 2000" and "load32 m (vmem_base_addr B) = v"
    and "chain m (load32 m (mp1_list_head B)) as"
  using assms by (simp_all add: blinks_ok_def)

lemma blinks_ok_frame:
  assumes ok: "blinks_ok B v m as"
    and eq: "\<And>x. in_range (blink_array B) 32000 x \<or> in_range (mp1_list_head B) 4 x \<or> in_range (vmem_base_addr B) 4 x \<Longrightarrow> m' x = m x"
  shows "blinks_ok B v m' as" and "blinks m' as = blinks m as" and "a \<in> slots B \<Longrightarrow> blink_at m' a = blink_at m a"
    and "load32 m' (mp1_list_head B) = load32 m (mp1_list_head B)" and "a \<in> slots B \<Longrightarrow> nxt m' a = nxt m a"
proof -
  note d = blinks_ok_slots [OF ok]
  have node: "blink_at m' a = blink_at m a" "nxt m' a = nxt m a" if "a \<in> slots B" for a
    using node_cong [of a m' m] eq slot_range [OF that] by blast+
  show head: "load32 m' (mp1_list_head B) = load32 m (mp1_list_head B)" using load32_frame eq by blast
  have v: "load32 m' (vmem_base_addr B) = v" using load32_frame [of "vmem_base_addr B" m' m] eq d(5) by metis
  have locs: "location m' a = location m a" if "a \<in> slots B" for a using node(1) [OF that] by (simp add: fields)
  have "chain m' (load32 m' (mp1_list_head B)) as" using d(1,6) chain_cong [of as m' m] node(2) head by auto
  then show "blinks_ok B v m' as" using d locs v by (auto simp: blinks_ok_def)
  show "blinks m' as = blinks m as" using d(1) node(1) by (auto simp: blinks_def)
  show "a \<in> slots B \<Longrightarrow> blink_at m' a = blink_at m a" "a \<in> slots B \<Longrightarrow> nxt m' a = nxt m a" using node by simp_all
qed

text \<open>The copy on the stack.\<close>

lemma temp_copy:
  fixes m :: mem
  assumes arg: "disj_ranges arg 16 (temp_struct B) 16"
  defines "m1 \<equiv> copy_fwd m (temp_struct B) arg 16"
  defines "m2 \<equiv> store16 m1 (temp_struct B + 10) 1"
  defines "m3 \<equiv> store16 m2 (temp_struct B + 8) (on_length m2 (temp_struct B))"
  shows "location m1 (temp_struct B) = loc (blink_at m arg)"
    and "blink_at m3 (temp_struct B) = (blink_at m arg)\<lparr>left := time_on (blink_at m arg), state := 1\<rparr>"
    and "\<And>x. \<not> in_range (temp_struct B) 16 x \<Longrightarrow> m1 x = m x"
    and "\<And>x. \<not> in_range (temp_struct B) 16 x \<Longrightarrow> m3 x = m x"
proof -
  have c: "blink_at m1 (temp_struct B) = blink_at m arg" "\<not> in_range (temp_struct B) 16 x \<Longrightarrow> m1 x = m x" for x
    using copy_node [where s = arg and d = "temp_struct B" and m = m, OF arg] by (auto simp: m1_def)
  show "location m1 (temp_struct B) = loc (blink_at m arg)" by (simp add: fields c(1))
  show "blink_at m3 (temp_struct B) = (blink_at m arg)\<lparr>left := time_on (blink_at m arg), state := 1\<rparr>"
    by (simp add: m3_def m2_def store_countdown store_status c(1) fields)
  show "\<And>x. \<not> in_range (temp_struct B) 16 x \<Longrightarrow> m1 x = m x" by (rule c(2))
  show "\<And>x. \<not> in_range (temp_struct B) 16 x \<Longrightarrow> m3 x = m x" using c(2) node_outside(3,4) by (simp add: m3_def m2_def)
qed

lemma blinks_ok_temp:
  assumes lay: "blink_layout B v" and ok: "blinks_ok B v m as" and eq: "\<And>x. \<not> in_range (temp_struct B) 16 x \<Longrightarrow> m' x = m x"
  shows "blinks_ok B v m' as" and "blinks m' as = blinks m as"
proof -
  have "m' x = m x"
    if "in_range (blink_array B) 32000 x \<or> in_range (mp1_list_head B) 4 x \<or> in_range (vmem_base_addr B) 4 x" for x
    by (rule eq) (use that temp_apart [OF lay, of x] head_apart [OF lay, of x] vmem_apart [OF lay, of x] in \<open>auto simp: list_memory_def\<close>)
  then show "blinks_ok B v m' as" "blinks m' as = blinks m as" using blinks_ok_frame(1,2) [OF ok] by blast+
qed

lemma add_fails:
  assumes lay: "blink_layout B v" and ok: "blinks_ok B v m as" and arg: "disj_ranges arg 16 (temp_struct B) 16"
    and full: "2000 \<le> loc (blink_at m arg) \<or> 2000 \<le> length as"
  shows "\<exists>m'. mp1_ioctl_add B arg m = (m', - 1) \<and> blinks_ok B v m' as \<and> blinks m' as = blinks m as
    \<and> (\<forall>x. \<not> list_memory B x \<longrightarrow> m' x = m x)"
proof -
  define m1 where "m1 = copy_fwd m (temp_struct B) arg 16"
  define m2 where "m2 = store16 m1 (temp_struct B + 10) 1"
  define m3 where "m3 = store16 m2 (temp_struct B + 8) (on_length m2 (temp_struct B))"
  note t = temp_copy [where m = m, OF arg, folded m1_def, folded m2_def, folded m3_def]
  have ok1: "blinks_ok B v m1 as" "blinks m1 as = blinks m as" using blinks_ok_temp [OF lay ok t(3)] by blast+
  have ok3: "blinks_ok B v m3 as" "blinks m3 as = blinks m as" using blinks_ok_temp [OF lay ok t(4)] by blast+
  have out: "m1 x = m x" "m3 x = m x" if "\<not> list_memory B x" for x using t(3,4) that by (simp_all add: list_memory_def)
  show ?thesis
  proof (cases "2000 \<le> loc (blink_at m arg)")
    case True
    then have "mp1_ioctl_add B arg m = (m1, - 1)" using t(1) by (simp add: mp1_ioctl_add_def fish_memcpy_16 Let_def m1_def [symmetric])
    then show ?thesis using ok1 out by blast
  next
    case False
    note s = blinks_ok_slots [OF ok3(1)]
    have "mp1_malloc B m3 = 0" using malloc_free(2) [OF s(2,1,3)] False full by simp
    then have "mp1_ioctl_add B arg m = (m3, - 1)"
      using t(1) False by (simp add: mp1_ioctl_add_def fish_memcpy_16 Let_def m1_def [symmetric] m2_def [symmetric] m3_def [symmetric])
    then show ?thesis using ok3 out by blast
  qed
qed

text \<open>Linking a copied node in front of the list and drawing it.\<close>

lemma link_memory:
  assumes lay: "blink_layout B v" and v: "load32 m (vmem_base_addr B) = v" and a: "a \<in> slots B"
    and b: "b = blink_at m (temp_struct B)" "loc b < 2000"
  defines "m1 \<equiv> copy_fwd m a (temp_struct B) 16"
  defines "m2 \<equiv> store32 m1 (a + 12) (load32 m1 (mp1_list_head B))"
  defines "m3 \<equiv> store32 m2 (mp1_list_head B) a"
  defines "m4 \<equiv> mp1_poke B (on_char m3 a) (push_bit 1 (ucast (location m3 a))) m3"
  shows "load32 m4 (mp1_list_head B) = a" and "load32 m4 (vmem_base_addr B) = v"
    and "\<And>x. x \<in> slots B \<Longrightarrow> blink_at m4 x = (if x = a then b else blink_at m x)"
    and "\<And>x. x \<in> slots B \<Longrightarrow> nxt m4 x = (if x = a then load32 m (mp1_list_head B) else nxt m x)"
    and "\<And>x. \<not> in_range a 16 x \<Longrightarrow> \<not> in_range (mp1_list_head B) 4 x \<Longrightarrow> m4 x = paint v [(loc b, char_on b)] m x"
proof -
  have sa: "disj_ranges (temp_struct B) 16 a 16"
    by (rule disj_rangesI) (use slot_range [OF a] temp_apart [OF lay] in blast)
  note c = copy_node [where s = "temp_struct B" and d = a and m = m, OF sa]
  have m1: "blink_at m1 a = b" "\<not> in_range a 16 x \<Longrightarrow> m1 x = m x" for x using c by (simp_all add: m1_def b(1))
  have a12: "in_range (a + 12) 4 x \<Longrightarrow> in_range a 16 x" for x
    by (rule in_range_sub [of "a + 12" a 4]) simp_all
  have m2: "blink_at m2 a = b" "nxt m2 a = load32 m1 (mp1_list_head B)" "\<not> in_range a 16 x \<Longrightarrow> m2 x = m x" for x
    using m1(2) [of x] a12 [of x] store32_outside [of "a + 12" x m1] by (auto simp: m2_def store_next m1(1) nxt_def)
  have head_out: "\<not> in_range a 16 x" if "in_range (mp1_list_head B) 4 x" for x
    using head_apart [OF lay that] slot_range [OF a] by blast
  have hd: "load32 m1 (mp1_list_head B) = load32 m (mp1_list_head B)"
    using load32_frame [of "mp1_list_head B" m1 m] m1(2) head_out by blast
  have "m3 x = m2 x" if "in_range a 16 x" for x
    unfolding m3_def by (rule store32_outside) (use that head_out in blast)
  then have m3: "blink_at m3 a = b" "nxt m3 a = load32 m (mp1_list_head B)" "load32 m3 (mp1_list_head B) = a"
    using node_cong [of a m3 m2] m2(1,2) hd by (simp_all add: m3_def)
  have out3: "\<not> in_range a 16 x \<Longrightarrow> \<not> in_range (mp1_list_head B) 4 x \<Longrightarrow> m3 x = m x" for x
    using m2(3) by (simp add: m3_def store32_outside)
  have "m3 x = m x" if "in_range (vmem_base_addr B) 4 x" for x
    by (rule out3) (use vmem_apart [OF lay that] slot_range [OF a, of x] in \<open>auto simp: list_memory_def\<close>)
  then have v3: "load32 m3 (vmem_base_addr B) = v" using load32_frame v by metis
  have poke: "m4 = paint v [(loc b, char_on b)] m3"
    using poke_node(3) [OF lay a b(2) v3] by (simp add: m4_def fields m3(1))
  have out4: "m4 x = m3 x" if "\<not> in_range v 4000 x" for x
    unfolding poke by (rule paint_outside) (use b(2) that in simp_all)
  show "load32 m4 (mp1_list_head B) = a" "load32 m4 (vmem_base_addr B) = v"
    using load32_frame [of _ m4 m3] out4 head_apart [OF lay] vmem_apart [OF lay] m3(3) v3 by metis+
  have node: "blink_at m4 x = blink_at m3 x" "nxt m4 x = nxt m3 x" if "x \<in> slots B" for x
    using node_cong [of x m4 m3] out4 screen_not_slot [OF lay that] by blast+
  have other: "blink_at m3 x = blink_at m x" "nxt m3 x = nxt m x" if "x \<in> slots B" "x \<noteq> a" for x
  proof -
    have "m3 y = m y" if "in_range x 16 y" for y
      by (rule out3) (use that slots_disjoint [OF a \<open>x \<in> slots B\<close>, of y] \<open>x \<noteq> a\<close> slot_range [OF \<open>x \<in> slots B\<close> that] head_apart [OF lay, of y] in auto)
    then show "blink_at m3 x = blink_at m x" "nxt m3 x = nxt m x" using node_cong by blast+
  qed
  show "\<And>x. x \<in> slots B \<Longrightarrow> blink_at m4 x = (if x = a then b else blink_at m x)"
    "\<And>x. x \<in> slots B \<Longrightarrow> nxt m4 x = (if x = a then load32 m (mp1_list_head B) else nxt m x)"
    using node other m3(1,2) by auto
  show "\<And>x. \<not> in_range a 16 x \<Longrightarrow> \<not> in_range (mp1_list_head B) 4 x \<Longrightarrow> m4 x = paint v [(loc b, char_on b)] m x"
    using out3 paint_cong [of m3 _ m] unfolding poke by blast
qed

text \<open>An addition is the copy on the stack and the linking of the slot \<open>mp1_malloc\<close> returns.\<close>

lemma add_links:
  assumes lay: "blink_layout B v" and v: "load32 m (vmem_base_addr B) = v"
    and arg: "disj_ranges arg 16 (temp_struct B) 16" and b: "loc (blink_at m arg) < 2000"
    and a: "a = mp1_malloc B m" "a \<in> slots B"
  defines "b' \<equiv> (blink_at m arg)\<lparr>left := time_on (blink_at m arg), state := 1\<rparr>"
  shows "\<exists>m'. mp1_ioctl_add B arg m = (m', 0) \<and> load32 m' (mp1_list_head B) = a \<and> load32 m' (vmem_base_addr B) = v
    \<and> (\<forall>x \<in> slots B. blink_at m' x = (if x = a then b' else blink_at m x)
         \<and> nxt m' x = (if x = a then load32 m (mp1_list_head B) else nxt m x))
    \<and> (\<forall>x. \<not> list_memory B x \<longrightarrow> m' x = paint v [(loc b', char_on b')] m x)"
proof -
  define m1 where "m1 = copy_fwd m (temp_struct B) arg 16"
  define m2 where "m2 = store16 m1 (temp_struct B + 10) 1"
  define m3 where "m3 = store16 m2 (temp_struct B + 8) (on_length m2 (temp_struct B))"
  note t = temp_copy [where m = m, OF arg, folded m1_def, folded m2_def, folded m3_def]
  have far: "m3 x = m x" if "in_range (blink_array B) 32000 x \<or> in_range (mp1_list_head B) 4 x \<or> in_range (vmem_base_addr B) 4 x" for x
    using t(4) that temp_apart [OF lay, of x] head_apart [OF lay, of x] vmem_apart [OF lay, of x] by (auto simp: list_memory_def)
  have slot: "blink_at m3 x = blink_at m x" "nxt m3 x = nxt m x" if "x \<in> slots B" for x
    using node_cong [of x m3 m] far slot_range [OF that] by blast+
  have "find (\<lambda>i. location m3 (blink_array B + 16 * of_nat i) = 0) [0..<80 * 25] =
      find (\<lambda>i. location m (blink_array B + 16 * of_nat i) = 0) [0..<80 * 25]"
    by (rule find_cong [OF refl]) (use slot(1) in \<open>auto simp: fields slots_def slot_def\<close>)
  then have a3: "mp1_malloc B m3 = a" by (simp add: mp1_malloc_def a(1))
  have b3: "b' = blink_at m3 (temp_struct B)" "loc b' < 2000" using t(2) b by (simp_all add: b'_def)
  have v3: "load32 m3 (vmem_base_addr B) = v" "load32 m3 (mp1_list_head B) = load32 m (mp1_list_head B)"
    using load32_frame [of _ m3 m] far v by metis+
  note l = link_memory [OF lay v3(1) a(2) b3]
  define m4 where "m4 = (let m = copy_fwd m3 a (temp_struct B) 16; m = store32 m (a + 12) (load32 m (mp1_list_head B));
           m = store32 m (mp1_list_head B) a
       in mp1_poke B (on_char m a) (push_bit 1 (ucast (location m a))) m)"
  have "loc (blink_at m arg) \<ge> 2000 \<longleftrightarrow> False" using b by simp
  then have "mp1_ioctl_add B arg m = (m4, 0)"
    using t(1) slot_nonzero [OF lay a(2)]
    by (simp add: mp1_ioctl_add_def fish_memcpy_16 Let_def m1_def [symmetric] m2_def [symmetric] m3_def [symmetric] a3 m4_def)
  moreover have "m4 x = paint v [(loc b', char_on b')] m x" if "\<not> list_memory B x" for x
  proof -
    have "m4 x = paint v [(loc b', char_on b')] m3 x"
      unfolding m4_def Let_def by (rule l(5)) (use that slot_range [OF a(2), of x] in \<open>auto simp: list_memory_def\<close>)
    also have "\<dots> = paint v [(loc b', char_on b')] m x" by (rule paint_cong) (use t(4) that in \<open>simp add: list_memory_def\<close>)
    finally show ?thesis .
  qed
  ultimately show ?thesis using l(1-4) slot v3(2) by (intro exI [of _ m4]) (auto simp: m4_def Let_def)
qed

lemma add_ok:
  assumes lay: "blink_layout B v" and ok: "blinks_ok B v m as" and arg: "disj_ranges arg 16 (temp_struct B) 16"
    and b: "loc (blink_at m arg) \<noteq> 0" "loc (blink_at m arg) < 2000" and len: "length as < 2000"
  shows "\<exists>m' a. mp1_ioctl_add B arg m = (m', 0) \<and> blinks_ok B v m' (a # as)
    \<and> blinks m' (a # as) = (blink_at m arg)\<lparr>left := time_on (blink_at m arg), state := 1\<rparr> # blinks m as
    \<and> (\<forall>x. \<not> list_memory B x \<longrightarrow> m' x = paint v [(loc (blink_at m arg), char_on (blink_at m arg))] m x)"
proof -
  note d = blinks_ok_slots [OF ok]
  define b' where "b' = (blink_at m arg)\<lparr>left := time_on (blink_at m arg), state := 1\<rparr>"
  define a where "a = mp1_malloc B m"
  have a: "a \<in> slots B" "a \<notin> set as" using malloc_free(1) [OF d(2,1,3) len] by (simp_all add: a_def)
  obtain m' where m': "mp1_ioctl_add B arg m = (m', 0)" "load32 m' (mp1_list_head B) = a" "load32 m' (vmem_base_addr B) = v"
    "\<forall>x \<in> slots B. blink_at m' x = (if x = a then b' else blink_at m x) \<and> nxt m' x = (if x = a then load32 m (mp1_list_head B) else nxt m x)"
    "\<forall>x. \<not> list_memory B x \<longrightarrow> m' x = paint v [(loc b', char_on b')] m x"
    using add_links [OF lay d(5) arg b(2) a_def a(1)] unfolding b'_def by blast
  have ne: "x \<in> slots B" "x \<noteq> a" if "x \<in> set as" for x using a(2) d(1) that by auto
  have "chain m' (nxt m' a) as"
    using d(6) m'(4) ne a(1) chain_cong [of as m' m] by simp
  moreover have "location m' x = (if x = a then loc b' else location m x)" if "x \<in> slots B" for x
    using m'(4) that by (simp add: fields)
  ultimately have "blinks_ok B v m' (a # as)"
    using d a b m'(2,3) slot_nonzero [OF lay a(1)] by (auto simp: blinks_ok_def subset_iff b'_def)
  moreover have "blinks m' (a # as) = b' # blinks m as" using m'(4) ne a(1) by (simp add: blinks_def)
  moreover have "loc b' = loc (blink_at m arg)" "char_on b' = char_on (blink_at m arg)" by (simp_all add: b'_def)
  ultimately show ?thesis using m'(1,5) unfolding b'_def [symmetric] by metis
qed

section \<open>Finding and removing\<close>

lemma find_split: "find P as = Some a \<Longrightarrow> \<exists>xs ys. as = xs @ a # ys \<and> P a \<and> (\<forall>x \<in> set xs. \<not> P x)"
  by (induction as) (auto split: if_splits intro: exI [of _ "[]"], metis append_Cons set_ConsD)

lemma helper_ok:
  assumes "blinks_ok B v m as"
  shows "find (\<lambda>b. loc b = ucast l) (blinks m as) = None \<Longrightarrow> mp1_find_helper B l m = Some 0"
    and "find (\<lambda>b. loc b = ucast l) (blinks m as) = Some b \<Longrightarrow>
      \<exists>xs a ys. mp1_find_helper B l m = Some a \<and> as = xs @ a # ys \<and> a \<noteq> 0 \<and> b = blink_at m a \<and> loc b = ucast l
        \<and> (\<forall>x \<in> set xs. loc (blink_at m x) \<noteq> ucast l)"
proof -
  have map: "find (\<lambda>b. loc b = k) (blinks m as) = map_option (blink_at m) (find (\<lambda>a. location m a = k) as)" for k
    by (induction as) (simp_all add: blinks_def fields)
  have f: "mp1_find_helper B l m = Some (case find (\<lambda>a. location m a = ucast l) as of None \<Rightarrow> 0 | Some a \<Rightarrow> a)"
    unfolding mp1_find_helper_def by (rule find_chain [OF blinks_ok_slots(6) [OF assms]])
  show "find (\<lambda>b. loc b = ucast l) (blinks m as) = None \<Longrightarrow> mp1_find_helper B l m = Some 0" by (simp add: map f)
  assume "find (\<lambda>b. loc b = ucast l) (blinks m as) = Some b"
  then obtain a where a: "find (\<lambda>a. location m a = ucast l) as = Some a" "b = blink_at m a" by (auto simp: map)
  obtain xs ys where s: "as = xs @ a # ys" "location m a = ucast l" "\<forall>x \<in> set xs. location m x \<noteq> ucast l"
    using find_split [OF a(1)] by blast
  have nz: "chain m p (xs @ a # ys) \<Longrightarrow> a \<noteq> 0" for p by (induction xs arbitrary: p) auto
  have "a \<noteq> 0" using nz blinks_ok_slots(6) [OF assms] s(1) by blast
  then show "\<exists>xs a ys. mp1_find_helper B l m = Some a \<and> as = xs @ a # ys \<and> a \<noteq> 0 \<and> b = blink_at m a \<and> loc b = ucast l
        \<and> (\<forall>x \<in> set xs. loc (blink_at m x) \<noteq> ucast l)"
    using f a s by (auto simp: fields)
qed

lemma chain_unlink:
  "chain m p (xs @ a # ys) \<Longrightarrow> distinct (xs @ a # ys) \<Longrightarrow> (\<And>x. x \<in> set (xs @ ys) \<Longrightarrow>
     nxt m' x = (if xs \<noteq> [] \<and> x = List.last xs then nxt m a else nxt m x)) \<Longrightarrow>
   chain m' (if xs = [] then nxt m a else p) (xs @ ys)"
proof (induction xs arbitrary: p)
  case Nil
  then show ?case using chain_cong [of ys m' m] by simp
next
  case (Cons x xs)
  have "nxt m' y = (if xs \<noteq> [] \<and> y = List.last xs then nxt m a else nxt m y)" if "y \<in> set (xs @ ys)" for y
    using Cons.prems(3) [of y] that Cons.prems(2) by (auto split: if_splits)
  then have "chain m' (if xs = [] then nxt m a else nxt m x) (xs @ ys)"
    by (intro Cons.IH) (use Cons.prems in auto)
  moreover have "nxt m' x = (if xs = [] then nxt m a else nxt m x)"
    using Cons.prems(2) Cons.prems(3) [of x] by (auto split: if_splits)
  ultimately show ?case using Cons.prems(1) by auto
qed

text \<open>The memory after the node \<open>a\<close> has been bypassed and cleared.\<close>

definition unlinked :: "blink_env \<Rightarrow> u32 list \<Rightarrow> u32 \<Rightarrow> mem \<Rightarrow> mem" where
  "unlinked B xs a m = mp1_free (store32 m (if xs = [] then mp1_list_head B else List.last xs + 12) (nxt m a)) a"

lemma unlinked_bytes:
  assumes lay: "blink_layout B v" and a: "a \<in> slots B" and xs: "xs \<noteq> [] \<longrightarrow> List.last xs \<in> slots B \<and> List.last xs \<noteq> a"
  defines "q \<equiv> (if xs = [] then mp1_list_head B else List.last xs + 12)"
  shows "in_range q 4 x \<Longrightarrow> xs = [] \<and> in_range (mp1_list_head B) 4 x \<or> xs \<noteq> [] \<and> in_range (List.last xs) 16 x"
    and "in_range q 4 x \<Longrightarrow> \<not> in_range a 16 x"
    and "unlinked B xs a m x = (if in_range a 16 x then 0 else store32 m q (nxt m a) x)"
    and "\<not> in_range a 16 x \<Longrightarrow> \<not> in_range q 4 x \<Longrightarrow> unlinked B xs a m x = m x"
    and "load32 (unlinked B xs a m) q = nxt m a"
proof -
  show q: "in_range q 4 x \<Longrightarrow> xs = [] \<and> in_range (mp1_list_head B) 4 x \<or> xs \<noteq> [] \<and> in_range (List.last xs) 16 x" for x
    using in_range_sub [of "List.last xs + 12" "List.last xs" 4 16 x] by (auto simp: q_def split: if_splits)
  show q_out: "in_range q 4 x \<Longrightarrow> \<not> in_range a 16 x" for x
    using q [of x] xs slots_disjoint [OF _ a, of "List.last xs" x] head_apart [OF lay, of x] slot_range [OF a, of x] by blast
  show m2: "unlinked B xs a m x = (if in_range a 16 x then 0 else store32 m q (nxt m a) x)" for x
    by (simp add: unlinked_def mp1_free_def fish_memset_16 q_def)
  show "\<not> in_range a 16 x \<Longrightarrow> \<not> in_range q 4 x \<Longrightarrow> unlinked B xs a m x = m x" by (simp add: m2 store32_outside)
  have "load32 (unlinked B xs a m) q = load32 (store32 m q (nxt m a)) q" by (rule load32_frame) (use m2 q_out in simp)
  then show "load32 (unlinked B xs a m) q = nxt m a" by simp
qed

lemma unlinked_node:
  assumes lay: "blink_layout B v" and a: "a \<in> slots B" and xs: "xs \<noteq> [] \<longrightarrow> List.last xs \<in> slots B \<and> List.last xs \<noteq> a"
    and x: "x \<in> slots B" "x \<noteq> a"
  shows "blink_at (unlinked B xs a m) x = blink_at m x
    \<and> nxt (unlinked B xs a m) x = (if xs \<noteq> [] \<and> x = List.last xs then nxt m a else nxt m x)"
proof -
  note m2 = unlinked_bytes [OF lay a xs]
  have far: "\<not> in_range a 16 y" if "in_range x 16 y" for y using slots_disjoint [OF x(1) a that] x(2) by blast
  show ?thesis
  proof (cases "xs \<noteq> [] \<and> x = List.last xs")
    case True
    define m1 where "m1 = store32 m (x + 12) (nxt m a)"
    have "blink_at m1 x = blink_at m x" "nxt m1 x = nxt m a" by (simp_all add: m1_def store_next nxt_def)
    moreover have "unlinked B xs a m y = m1 y" if "in_range x 16 y" for y
      using m2(3) [of m y] far [OF that] True by (simp add: m1_def)
    ultimately show ?thesis using node_cong [of x "unlinked B xs a m" m1] True by simp
  next
    case False
    have "unlinked B xs a m y = m y" if "in_range x 16 y" for y
    proof (rule m2(4) [OF far [OF that]])
      show "\<not> in_range (if xs = [] then mp1_list_head B else List.last xs + 12) 4 y"
        using m2(1) [of y] False xs slots_disjoint [OF x(1) _ that, of "List.last xs"] slot_range [OF x(1) that] head_apart [OF lay, of y]
        by blast
    qed
    then show ?thesis using node_cong [of x "unlinked B xs a m" m] False by auto
  qed
qed

lemma remove_ok:
  assumes lay: "blink_layout B v" and ok: "blinks_ok B v m (xs @ a # ys)" and a: "mp1_find_helper B l m = Some a" "a \<noteq> 0"
  shows "\<exists>m'. mp1_ioctl_remove B l m = Some (m', 0) \<and> blinks_ok B v m' (xs @ ys)
    \<and> blinks m' (xs @ ys) = blinks m xs @ blinks m ys \<and> (\<forall>x. \<not> list_memory B x \<longrightarrow> m' x = m x)"
proof -
  note d = blinks_ok_slots [OF ok]
  define q where "q = (if xs = [] then mp1_list_head B else List.last xs + 12)"
  define m' where "m' = unlinked B xs a m"
  have "find_prev a (mp1_list_head B) m = Some q"
    unfolding q_def by (rule find_prev_chain [OF d(6)]) (use d(2) in simp)
  then have run: "mp1_ioctl_remove B l m = Some (m', 0)"
    using a by (simp add: mp1_ioctl_remove_def m'_def unlinked_def q_def cong del: if_weak_cong)
  have sl: "a \<in> slots B" using d(1) by simp
  have xs: "xs \<noteq> [] \<longrightarrow> List.last xs \<in> slots B \<and> List.last xs \<noteq> a" using d(1,2) last_in_set [of xs] by auto
  note bq = unlinked_bytes(1) [OF lay sl xs, folded q_def]
  note b = unlinked_bytes(3-5) [where m = m, OF lay sl xs, folded q_def m'_def]
  note node = unlinked_node [where m = m, OF lay sl xs, folded m'_def]
  have head: "load32 m' (mp1_list_head B) = (if xs = [] then nxt m a else load32 m (mp1_list_head B))"
  proof (cases "xs = []")
    case True
    then show ?thesis using b(3) by (simp add: q_def)
  next
    case False
    have "load32 m' (mp1_list_head B) = load32 m (mp1_list_head B)"
      by (rule load32_frame, rule b(2))
        (use False bq xs slot_range [of _ B] sl head_apart [OF lay] in blast)+
    then show ?thesis using False by simp
  qed
  have "load32 m' (vmem_base_addr B) = load32 m (vmem_base_addr B)"
    by (rule load32_frame, rule b(2))
      (use bq xs slot_range [of _ B] sl vmem_apart [OF lay, unfolded list_memory_def] in blast)+
  then have vm: "load32 m' (vmem_base_addr B) = v" using d(5) by simp
  have in_slots: "x \<in> slots B" "x \<noteq> a" if "x \<in> set (xs @ ys)" for x using that d(1,2) by auto
  have "m' a = 0" "m' (a + 1) = 0" using b(1) [of a] b(1) [of "a + 1"] in_range_offset [of 1 a 16] by simp_all
  then have "location m' a = 0" by (simp add: location_def load16_def)
  moreover have "location m' x = location m x" if "x \<in> slots B" "x \<noteq> a" for x using node [OF that] by (simp add: fields)
  ultimately have locs: "location m' x = (if x = a then 0 else location m x)" if "x \<in> slots B" for x using that by auto
  have "chain m' (load32 m' (mp1_list_head B)) (xs @ ys)"
    unfolding head by (rule chain_unlink [OF d(6,2)]) (use node in_slots in blast)
  then have "blinks_ok B v m' (xs @ ys)"
    using d(1-4) locs vm by (auto simp: blinks_ok_def subset_iff)
  moreover have "blinks m' (xs @ ys) = blinks m xs @ blinks m ys" using node in_slots by (auto simp: blinks_def)
  moreover have "\<forall>x. \<not> list_memory B x \<longrightarrow> m' x = m x"
    using bq b(2) xs slot_range [of _ B] sl unfolding list_memory_def by blast
  ultimately show ?thesis using run by blast
qed

section \<open>Synchronizing\<close>

definition retimed :: "blink \<Rightarrow> blink \<Rightarrow> blink" where
  "retimed f b = b\<lparr>time_on := time_on f, time_off := time_off f, left := left f, state := state f\<rparr>"

lemma one_bit_not_negative: "\<not> (x :: u8) AND 1 <s 0"
  by (cases "even x") (simp_all add: and_one_eq mod_2_eq_odd word_sless_alt)

text \<open>The four copies, also from a node to itself.\<close>

lemma sync_stores:
  assumes a: "a \<in> slots B" and c: "c \<in> slots B"
  defines "m1 \<equiv> \<lambda>m. store16 m (c + 4) (on_length m a)" and "m2 \<equiv> \<lambda>m. store16 m (c + 6) (off_length m a)"
    and "m3 \<equiv> \<lambda>m. store16 m (c + 8) (countdown m a)" and "m4 \<equiv> \<lambda>m. store16 m (c + 10) (blink_status m a)"
  shows "blink_at (m4 (m3 (m2 (m1 m)))) c = retimed (blink_at m a) (blink_at m c)"
    and "\<not> in_range c 16 x \<Longrightarrow> m4 (m3 (m2 (m1 m))) x = m x" and "nxt (m4 (m3 (m2 (m1 m)))) c = nxt m c"
proof -
  have out: "m1 m x = m x \<and> m2 m x = m x \<and> m3 m x = m x \<and> m4 m x = m x" if "\<not> in_range c 16 x" for m x
    using node_outside [OF that] by (simp add: m1_def m2_def m3_def m4_def)
  then show "\<not> in_range c 16 x \<Longrightarrow> m4 (m3 (m2 (m1 m))) x = m x" by simp
  show "nxt (m4 (m3 (m2 (m1 m)))) c = nxt m c" by (simp add: m1_def m2_def m3_def m4_def)
  show "blink_at (m4 (m3 (m2 (m1 m)))) c = retimed (blink_at m a) (blink_at m c)"
  proof (cases "a = c")
    case True
    then show ?thesis
      by (simp add: m1_def m2_def m3_def m4_def store_countdown store_status store_on_length store_off_length fields retimed_def)
  next
    case False
    have "m1 m x = m x \<and> m2 m x = m x \<and> m3 m x = m x" if "in_range a 16 x" for m x
      using out slots_disjoint [OF a c that] False by blast
    then have "blink_at (m1 m) a = blink_at m a" "blink_at (m2 m) a = blink_at m a" "blink_at (m3 m) a = blink_at m a" for m
      using node_cong [of a] by blast+
    then have "on_length m a = time_on (blink_at m a)" "off_length (m1 m) a = time_off (blink_at m a)"
      "countdown (m2 (m1 m)) a = left (blink_at m a)" "blink_status (m3 (m2 (m1 m))) a = state (blink_at m a)"
      by (simp_all add: fields)
    then have "m4 (m3 (m2 (m1 m))) = store16 (store16 (store16 (store16 m (c + 4) (time_on (blink_at m a))) (c + 6) (time_off (blink_at m a)))
        (c + 8) (left (blink_at m a))) (c + 10) (state (blink_at m a))"
      by (simp add: m1_def m2_def m3_def m4_def)
    then show ?thesis by (simp add: store_countdown store_status store_on_length store_off_length retimed_def)
  qed
qed

lemma sync_ok:
  assumes lay: "blink_layout B v" and ok: "blinks_ok B v m (xs @ c # ys)" and a: "a \<in> set (xs @ c # ys)"
    and f: "mp1_find_helper B (drop_bit 16 arg) m = Some a" "mp1_find_helper B (arg AND 0xFFFF) m = Some c" "a \<noteq> 0" "c \<noteq> 0"
  shows "\<exists>m'. mp1_ioctl_sync B arg m = Some (m', 0) \<and> blinks_ok B v m' (xs @ c # ys)
    \<and> blinks m' (xs @ c # ys) = blinks m xs @ retimed (blink_at m a) (blink_at m c) # blinks m ys
    \<and> (\<forall>x. \<not> list_memory B x \<longrightarrow> m' x = paint v [(loc (blink_at m c), char_off (blink_at m c))] m x)"
proof -
  note d = blinks_ok_slots [OF ok]
  have sl: "a \<in> slots B" "c \<in> slots B" using d(1) a by auto
  define m4 where "m4 = (let m = store16 m (c + 4) (on_length m a); m = store16 m (c + 6) (off_length m a);
    m = store16 m (c + 8) (countdown m a) in store16 m (c + 10) (blink_status m a))"
  define m' where "m' = mp1_poke B (off_char m4 c) (push_bit 1 (ucast (location m4 c))) m4"
  have run: "mp1_ioctl_sync B arg m = Some (m', 0)"
    using f one_bit_not_negative by (simp add: mp1_ioctl_sync_def Let_def m'_def m4_def)
  note s = sync_stores [where m = m, OF sl]
  have m4: "blink_at m4 c = retimed (blink_at m a) (blink_at m c)" "nxt m4 c = nxt m c" "\<not> in_range c 16 x \<Longrightarrow> m4 x = m x" for x
    using s(1,3) s(2) by (simp_all add: m4_def Let_def)
  have l: "location m4 c = loc (blink_at m c)" "off_char m4 c = char_off (blink_at m c)" by (simp_all add: fields m4(1) retimed_def)
  have lim: "loc (blink_at m c) < 2000" using d(4) [of c] by (simp add: fields)
  have far: "m4 x = m x" if "in_range (mp1_list_head B) 4 x \<or> in_range (vmem_base_addr B) 4 x" for x
    by (rule m4(3)) (use that head_apart [OF lay, of x] vmem_apart [OF lay, of x] slot_range [OF sl(2), of x] in \<open>auto simp: list_memory_def\<close>)
  have v4: "load32 m4 (vmem_base_addr B) = v" using load32_frame [of "vmem_base_addr B" m4 m] far d(5) by metis
  have poke: "m' = paint v [(loc (blink_at m c), char_off (blink_at m c))] m4"
    using poke_node(3) [OF lay sl(2) lim v4] by (simp add: m'_def l)
  have out: "m' x = m4 x" if "\<not> in_range v 4000 x" for x unfolding poke by (rule paint_outside) (use lim that in simp_all)
  have node': "blink_at m' x = blink_at m4 x" "nxt m' x = nxt m4 x" if "x \<in> slots B" for x
    using node_cong [of x m' m4] out screen_not_slot [OF lay that] by blast+
  have node: "blink_at m' x = (if x = c then retimed (blink_at m a) (blink_at m c) else blink_at m x)" "nxt m' x = nxt m x"
    if x: "x \<in> slots B" for x
  proof -
    have "blink_at m4 x = blink_at m x \<and> nxt m4 x = nxt m x" if "x \<noteq> c"
      using node_cong [of x m4 m] m4(3) slots_disjoint [OF x sl(2)] that by blast
    then show "blink_at m' x = (if x = c then retimed (blink_at m a) (blink_at m c) else blink_at m x)" "nxt m' x = nxt m x"
      using node' [OF x] m4(1,2) by auto
  qed
  have heads: "load32 m' (mp1_list_head B) = load32 m (mp1_list_head B)" "load32 m' (vmem_base_addr B) = v"
    using load32_frame [of _ m' m] out far head_apart [OF lay] vmem_apart [OF lay] d(5) by metis+
  have locs: "location m' x = location m x" if "x \<in> slots B" for x
    using node(1) [OF that] by (simp add: fields retimed_def)
  have "chain m' (load32 m' (mp1_list_head B)) (xs @ c # ys)"
    unfolding heads(1) using d(6) chain_cong [of "xs @ c # ys" m' m] node(2) d(1) by blast
  then have "blinks_ok B v m' (xs @ c # ys)" using d(1-4) locs heads(2) by (auto simp: blinks_ok_def subset_iff)
  moreover have "blinks m' (xs @ c # ys) = blinks m xs @ retimed (blink_at m a) (blink_at m c) # blinks m ys"
    using node(1) d(1,2) by (auto simp: blinks_def subset_iff)
  moreover have "\<forall>x. \<not> list_memory B x \<longrightarrow> m' x = paint v [(loc (blink_at m c), char_off (blink_at m c))] m x"
    using m4(3) not_list_memory [OF _ sl(2)] paint_cong [of m4 _ m] unfolding poke by blast
  ultimately show ?thesis using run by blast
qed

section \<open>The calls on the list\<close>

primrec remove_first :: "u16 \<Rightarrow> blink list \<Rightarrow> blink list" where
  "remove_first l [] = []"
| "remove_first l (b # bs) = (if loc b = l then bs else b # remove_first l bs)"

primrec change_first :: "u16 \<Rightarrow> (blink \<Rightarrow> blink) \<Rightarrow> blink list \<Rightarrow> blink list" where
  "change_first l f [] = []"
| "change_first l f (b # bs) = (if loc b = l then f b # bs else b # change_first l f bs)"

datatype blink_call = Add blink | Remove u16 | Sync u16 u16 | Tick

text \<open>The new list, the value returned and what is drawn.\<close>

fun abs_call :: "blink_call \<Rightarrow> blink list \<Rightarrow> blink list \<times> u32 \<times> (u16 \<times> u8) list" where
  "abs_call (Add b) bs =
     (if 2000 \<le> loc b \<or> 2000 \<le> length bs then (bs, - 1, [])
      else (b\<lparr>left := time_on b, state := 1\<rparr> # bs, 0, [(loc b, char_on b)]))"
| "abs_call (Remove l) bs =
     (case find (\<lambda>b. loc b = l) bs of None \<Rightarrow> (bs, - 1, []) | Some _ \<Rightarrow> (remove_first l bs, 0, []))"
| "abs_call (Sync k l) bs =
     (case (find (\<lambda>b. loc b = k) bs, find (\<lambda>b. loc b = l) bs) of
        (Some f, Some g) \<Rightarrow> (change_first l (retimed f) bs, 0, [(l, char_off g)])
      | _ \<Rightarrow> (bs, - 1, []))"
| "abs_call Tick bs = (map (\<lambda>b. fst (tick b)) bs, 0, concat (map (\<lambda>b. snd (tick b)) bs))"

fun abs_calls :: "blink_call list \<Rightarrow> blink list \<Rightarrow> blink list \<times> u32 list \<times> (u16 \<times> u8) list" where
  "abs_calls [] bs = (bs, [], [])"
| "abs_calls (c # cs) bs =
     (case abs_call c bs of (bs, r, ps) \<Rightarrow> case abs_calls cs bs of (bs, rs, qs) \<Rightarrow> (bs, r # rs, ps @ qs))"

text \<open>The calls of the code: \<open>mp1_ioctl\<close> with an argument and a command, or the tasklet.\<close>

fun fish_call :: "blink_env \<Rightarrow> (u32 \<times> u32) option \<Rightarrow> mem \<Rightarrow> (mem \<times> u32) option" where
  "fish_call B (Some (arg, cmd)) m = mp1_ioctl B arg cmd m"
| "fish_call B None m = map_option (\<lambda>m. (m, 0)) (mp1_rtc_tasklet B m)"

fun fish_calls :: "blink_env \<Rightarrow> (u32 \<times> u32) option list \<Rightarrow> mem \<Rightarrow> (mem \<times> u32 list) option" where
  "fish_calls B [] m = Some (m, [])"
| "fish_calls B (e # es) m = do { (m, r) \<leftarrow> fish_call B e m; (m, rs) \<leftarrow> fish_calls B es m; Some (m, r # rs) }"

definition meaning :: "mem \<Rightarrow> (u32 \<times> u32) option \<Rightarrow> blink_call" where
  "meaning m e = (case e of
     None \<Rightarrow> Tick
   | Some (arg, cmd) \<Rightarrow> if cmd = 0 then Add (blink_at m arg) else if cmd = 1 then Remove (ucast arg)
                       else Sync (ucast (drop_bit 16 arg :: u32)) (ucast (arg AND 0xFFFF)))"

text \<open>The structure of an addition is not part of the list or the screen and has a location other than 0.\<close>

definition struct_apart :: "blink_env \<Rightarrow> u32 \<Rightarrow> u32 \<Rightarrow> bool" where
  "struct_apart B v arg \<longleftrightarrow> disj_ranges arg 16 (blink_array B) 32000 \<and> disj_ranges arg 16 (mp1_list_head B) 4
     \<and> disj_ranges arg 16 (temp_struct B) 16 \<and> disj_ranges arg 16 (temp_location B) 2 \<and> disj_ranges arg 16 v 4000"

lemma struct_apartD:
  assumes "struct_apart B v arg" and "in_range arg 16 x"
  shows "\<not> list_memory B x" and "\<not> in_range v 4000 x"
proof -
  have d: "disj_ranges arg 16 (blink_array B) 32000" "disj_ranges arg 16 (mp1_list_head B) 4" "disj_ranges arg 16 (temp_struct B) 16"
    "disj_ranges arg 16 (temp_location B) 2" "disj_ranges arg 16 v 4000" using assms(1) by (simp_all add: struct_apart_def)
  show "\<not> list_memory B x" "\<not> in_range v 4000 x" unfolding list_memory_def using d [THEN disj_rangesD, OF assms(2)] by simp_all
qed

definition call_ok :: "blink_env \<Rightarrow> u32 \<Rightarrow> mem \<Rightarrow> (u32 \<times> u32) option \<Rightarrow> bool" where
  "call_ok B v m e = (case e of
     None \<Rightarrow> True
   | Some (arg, cmd) \<Rightarrow> (cmd = 0 \<and> loc (blink_at m arg) \<noteq> 0 \<and> struct_apart B v arg) \<or> cmd = 1 \<or> cmd = 3)"

lemma remove_first_split: "(\<forall>x \<in> set bs. loc x \<noteq> l) \<Longrightarrow> loc b = l \<Longrightarrow> remove_first l (bs @ b # cs) = bs @ cs"
  by (induction bs) auto

lemma change_first_split: "(\<forall>x \<in> set bs. loc x \<noteq> l) \<Longrightarrow> loc b = l \<Longrightarrow> change_first l f (bs @ b # cs) = bs @ f b # cs"
  by (induction bs) auto

text \<open>One call.\<close>

definition simulates :: "blink_env \<Rightarrow> u32 \<Rightarrow> mem \<Rightarrow> mem \<Rightarrow> blink list \<Rightarrow> (u16 \<times> u8) list \<Rightarrow> bool" where
  "simulates B v m m' bs ps \<longleftrightarrow> (\<exists>as. blinks_ok B v m' as \<and> blinks m' as = bs)
     \<and> list_all (\<lambda>p. fst p < 2000) ps \<and> (\<forall>x. \<not> list_memory B x \<longrightarrow> m' x = paint v ps m x)"

lemma blinks_append [simp]: "blinks m (as @ bs) = blinks m as @ blinks m bs" "blinks m (a # bs) = blink_at m a # blinks m bs"
  by (simp_all add: blinks_def)

lemma simulatesI:
  "blinks_ok B v m' as \<Longrightarrow> blinks m' as = bs \<Longrightarrow> list_all (\<lambda>p. fst p < 2000) ps \<Longrightarrow>
   \<forall>x. \<not> list_memory B x \<longrightarrow> m' x = paint v ps m x \<Longrightarrow> simulates B v m m' bs ps"
  by (auto simp: simulates_def)

lemma simulates_same: "blinks_ok B v m as \<Longrightarrow> simulates B v m m (blinks m as) []"
  by (auto simp: simulates_def)

lemma length_blinks [simp]: "length (blinks m as) = length as"
  by (simp add: blinks_def)

lemma set_blinks [simp]: "set (blinks m as) = blink_at m ` set as"
  by (simp add: blinks_def)

lemma add_simulates:
  assumes lay: "blink_layout B v" and ok: "blinks_ok B v m as" and c: "call_ok B v m (Some (arg, 0))"
    and abs: "abs_call (Add (blink_at m arg)) (blinks m as) = (bs, r, ps)"
  shows "\<exists>m'. mp1_ioctl_add B arg m = (m', r) \<and> simulates B v m m' bs ps"
proof -
  have arg: "disj_ranges arg 16 (temp_struct B) 16" "loc (blink_at m arg) \<noteq> 0" using c by (simp_all add: call_ok_def struct_apart_def)
  show ?thesis
  proof (cases "2000 \<le> loc (blink_at m arg) \<or> 2000 \<le> length as")
    case True
    then show ?thesis using add_fails [OF lay ok arg(1) True] abs by (auto simp: simulates_def)
  next
    case False
    then have "loc (blink_at m arg) < 2000" "length as < 2000" by (simp_all add: not_le)
    note lim = this
    obtain m' a where m': "mp1_ioctl_add B arg m = (m', 0)" "blinks_ok B v m' (a # as)"
      "blinks m' (a # as) = (blink_at m arg)\<lparr>left := time_on (blink_at m arg), state := 1\<rparr> # blinks m as"
      "\<forall>x. \<not> list_memory B x \<longrightarrow> m' x = paint v [(loc (blink_at m arg), char_on (blink_at m arg))] m x"
      using add_ok [OF lay ok arg lim] by blast
    then show ?thesis using False abs lim(1) simulatesI [OF m'(2) _ _ m'(4)] by auto
  qed
qed

lemma remove_simulates:
  assumes lay: "blink_layout B v" and ok: "blinks_ok B v m as"
    and abs: "abs_call (Remove (ucast arg)) (blinks m as) = (bs, r, ps)"
  shows "\<exists>m'. mp1_ioctl_remove B arg m = Some (m', r) \<and> simulates B v m m' bs ps"
proof (cases "find (\<lambda>b. loc b = ucast arg) (blinks m as)")
  case None
  then show ?thesis using helper_ok(1) [OF ok None] abs simulates_same [OF ok] by (auto simp: mp1_ioctl_remove_def)
next
  case (Some b)
  obtain xs a ys where h: "mp1_find_helper B arg m = Some a" "as = xs @ a # ys" "a \<noteq> 0" "b = blink_at m a" "loc b = ucast arg"
    "\<forall>x \<in> set xs. loc (blink_at m x) \<noteq> ucast arg"
    using helper_ok(2) [OF ok Some] by blast
  have "bs = blinks m xs @ blinks m ys" "r = 0" "ps = []"
    using abs Some remove_first_split [of "blinks m xs" "ucast arg" "blink_at m a"] h by auto
  moreover obtain m' where "mp1_ioctl_remove B arg m = Some (m', 0)" "blinks_ok B v m' (xs @ ys)"
    "blinks m' (xs @ ys) = blinks m xs @ blinks m ys" "\<forall>x. \<not> list_memory B x \<longrightarrow> m' x = m x"
    using remove_ok [OF lay ok [unfolded h(2)] h(1,3)] by blast
  ultimately show ?thesis using simulatesI [of B v m' "xs @ ys" bs ps m] by simp
qed

lemma sync_simulates:
  assumes lay: "blink_layout B v" and ok: "blinks_ok B v m as"
    and abs: "abs_call (Sync (ucast (drop_bit 16 arg :: u32)) (ucast (arg AND 0xFFFF))) (blinks m as) = (bs, r, ps)"
  shows "\<exists>m'. mp1_ioctl_sync B arg m = Some (m', r) \<and> simulates B v m m' bs ps"
proof (cases "find (\<lambda>b. loc b = ucast (drop_bit 16 arg)) (blinks m as)")
  case None
  then show ?thesis using helper_ok(1) [OF ok None] abs simulates_same [OF ok] by (auto simp: mp1_ioctl_sync_def)
next
  case (Some f)
  obtain us a ws where f: "mp1_find_helper B (drop_bit 16 arg) m = Some a" "as = us @ a # ws" "a \<noteq> 0" "f = blink_at m a"
    using helper_ok(2) [OF ok Some] by blast
  show ?thesis
  proof (cases "find (\<lambda>b. loc b = ucast (arg AND 0xFFFF)) (blinks m as)")
    case None
    then show ?thesis using helper_ok(1) [OF ok None] f abs Some simulates_same [OF ok] by (auto simp: mp1_ioctl_sync_def)
  next
    case g: (Some g)
    obtain xs c ys where h: "mp1_find_helper B (arg AND 0xFFFF) m = Some c" "as = xs @ c # ys" "c \<noteq> 0" "g = blink_at m c"
      "loc g = ucast (arg AND 0xFFFF)" "\<forall>x \<in> set xs. loc (blink_at m x) \<noteq> ucast (arg AND 0xFFFF)"
      using helper_ok(2) [OF ok g] by blast
    have "a \<in> set (xs @ c # ys)" using f(2) h(2) by (metis in_set_conv_decomp)
    note s = sync_ok [OF lay ok [unfolded h(2)] this f(1) h(1) f(3) h(3)]
    have lim: "loc g < 2000" using blinks_ok_slots(4) [OF ok, of c] h(2,4) by (simp add: fields)
    have "bs = blinks m xs @ retimed f g # blinks m ys" "r = 0" "ps = [(loc g, char_off g)]"
      using abs Some g change_first_split [of "blinks m xs" "ucast (arg AND 0xFFFF)" g] h by auto
    moreover obtain m' where "mp1_ioctl_sync B arg m = Some (m', 0)" "blinks_ok B v m' (xs @ c # ys)"
      "blinks m' (xs @ c # ys) = blinks m xs @ retimed f g # blinks m ys"
      "\<forall>x. \<not> list_memory B x \<longrightarrow> m' x = paint v [(loc g, char_off g)] m x"
      using s unfolding f(4) [symmetric] h(4) [symmetric] by blast
    ultimately show ?thesis using simulatesI [of B v m' "xs @ c # ys" bs ps m] lim by simp
  qed
qed

lemma call_simulates:
  assumes lay: "blink_layout B v" and ok: "blinks_ok B v m as" and c: "call_ok B v m e"
    and abs: "abs_call (meaning m e) (blinks m as) = (bs, r, ps)"
  shows "\<exists>m'. fish_call B e m = Some (m', r) \<and> simulates B v m m' bs ps"
proof (cases e)
  case None
  obtain m' where m': "mp1_rtc_tasklet B m = Some m'" "blinks_ok B v m' as" "blinks m' as = map (\<lambda>b. fst (tick b)) (blinks m as)"
    "\<forall>x. \<not> list_memory B x \<longrightarrow> m' x = paint v (concat (map (\<lambda>b. snd (tick b)) (blinks m as))) m x"
    using tasklet_ok [OF lay ok] by blast
  have "list_all (\<lambda>p. fst p < 2000) (concat (map (\<lambda>b. snd (tick b)) (blinks m as)))"
    using blinks_ok_slots(4) [OF ok] by (force simp: list_all_iff fields tick_def Let_def split: if_splits)
  then show ?thesis using m' abs None simulatesI [OF m'(2,3)] by (auto simp: meaning_def)
next
  case (Some ac)
  obtain arg cmd where e: "e = Some (arg, cmd)" using Some by (cases ac) auto
  consider "cmd = 0" | "cmd = 1" | "cmd = 3" using c e by (auto simp: call_ok_def)
  then show ?thesis
  proof cases
    case 1
    then show ?thesis using add_simulates [OF lay ok c [unfolded e 1]] abs by (auto simp: e meaning_def mp1_ioctl_def)
  next
    case 2
    then show ?thesis using remove_simulates [OF lay ok, of arg] abs by (auto simp: e meaning_def mp1_ioctl_def)
  next
    case 3
    then show ?thesis using sync_simulates [OF lay ok, of arg] abs unfolding e by (auto simp: meaning_def mp1_ioctl_def)
  qed
qed

text \<open>What a call changes is neither a structure to be added nor its meaning.\<close>

lemma simulates_outside:
  "simulates B v m m' bs ps \<Longrightarrow> \<not> list_memory B x \<Longrightarrow> \<not> in_range v 4000 x \<Longrightarrow> m' x = m x"
  using paint_outside by (auto simp: simulates_def)

lemma call_kept:
  assumes "simulates B v m m' bs ps" and c: "call_ok B v m e"
  shows "meaning m' e = meaning m e" and "call_ok B v m' e"
proof -
  have "blink_at m' arg = blink_at m arg" if "e = Some (arg, 0)" for arg
  proof (rule node_cong(1), rule simulates_outside [OF assms(1)])
    have "struct_apart B v arg" using c that by (simp add: call_ok_def)
    then show "\<not> list_memory B x" "\<not> in_range v 4000 x" if "in_range arg 16 x" for x using struct_apartD that by blast+
  qed
  then show "meaning m' e = meaning m e" "call_ok B v m' e"
    using c by (auto simp: meaning_def call_ok_def split: option.split if_split)
qed

text \<open>
  C27. The blinking characters of \<open>fish\<close> are a list. Whatever additions, removals and synchronizations are
  made through \<open>mp1_ioctl\<close> and however many clock ticks go by in between, the linked list in memory goes on
  as the list of structures: each call returns what the call on the list returns, the screen gets the
  characters that are due, in order, and nothing but the list's own memory and the screen is written.
  This needs that no character is added at location 0.
\<close>

theorem blink_refines:
  assumes "blink_layout B v" and "blinks_ok B v m as" and "list_all (call_ok B v m) es"
    and "abs_calls (map (meaning m) es) (blinks m as) = (bs, rs, ps)"
  shows "\<exists>m' as'. fish_calls B es m = Some (m', rs) \<and> blinks_ok B v m' as' \<and> blinks m' as' = bs
    \<and> {x. m' x \<noteq> paint v ps m x} \<subseteq> {x. list_memory B x}"
proof -
  have "\<exists>m'. fish_calls B es m = Some (m', rs) \<and> simulates B v m m' bs ps"
    using assms(2-4)
  proof (induction es arbitrary: m as bs rs ps)
    case Nil
    then show ?case using simulates_same [OF Nil.prems(1)] by simp
  next
    case (Cons e es)
    obtain bs1 r ps1 where 1: "abs_call (meaning m e) (blinks m as) = (bs1, r, ps1)" by (metis prod_cases3)
    obtain m1 where m1: "fish_call B e m = Some (m1, r)" "simulates B v m m1 bs1 ps1"
      using call_simulates [OF assms(1) Cons.prems(1) _ 1] Cons.prems(2) by auto
    obtain as1 where as1: "blinks_ok B v m1 as1" "blinks m1 as1 = bs1" using m1(2) by (auto simp: simulates_def)
    have kept: "map (meaning m1) es = map (meaning m) es" "list_all (call_ok B v m1) es"
      using call_kept [OF m1(2)] Cons.prems(2) by (auto simp: list_all_iff)
    obtain bs2 rs2 ps2 where 2: "abs_calls (map (meaning m) es) bs1 = (bs2, rs2, ps2)" by (metis prod_cases3)
    obtain m2 where m2: "fish_calls B es m1 = Some (m2, rs2)" "simulates B v m1 m2 bs2 ps2"
      using Cons.IH [OF as1(1) kept(2)] 2 as1(2) kept(1) by auto
    have "simulates B v m m2 bs2 (ps1 @ ps2)"
      using m1(2) m2(2) paint_cong [of m1 _ "paint v ps1 m" v ps2] by (auto simp: simulates_def)
    then show ?case using m1(1) m2(1) Cons.prems(3) 1 2 by auto
  qed
  then show ?thesis by (auto simp: simulates_def)
qed

section \<open>Location 0\<close>

text \<open>A node that points to itself is visited for ever.\<close>

lemma tasklet_cycle:
  "tasklet_loop B a m = Some r \<Longrightarrow> \<not> (blink_layout B v \<and> a \<in> slots B \<and> nxt m a = a \<and> location m a < 2000
     \<and> load32 m (vmem_base_addr B) = v)"
proof (erule tasklet_loop.raw_induct [where P = "\<lambda>B a m r. \<not> (blink_layout B v \<and> a \<in> slots B \<and> nxt m a = a \<and> location m a < 2000
     \<and> load32 m (vmem_base_addr B) = v)", rotated])
  fix f :: "blink_env \<Rightarrow> u32 \<Rightarrow> mem \<Rightarrow> mem option" and B a m r
  let ?C = "\<lambda>B a m. blink_layout B v \<and> a \<in> slots B \<and> nxt m a = a \<and> location m a < 2000 \<and> load32 m (vmem_base_addr B) = v"
  assume IH: "\<And>B a m r. f B a m = Some r \<Longrightarrow> \<not> ?C B a m"
    and step: "(if a = 0 then Some m
      else (let m = store16 m (a + 8) (countdown m a - 1)
            in if 0 <s countdown m a then f B (nxt m a) m
               else (let eax = push_bit 1 (ucast (location m a));
                         (m, dx) = (if blink_status m a AND 1 = 0
                                    then (let m = mp1_poke B (on_char m a) eax m in (m, on_length m a))
                                    else (let m = mp1_poke B (off_char m a) eax m in (m, off_length m a)));
                         m = store16 m (a + 8) dx;
                         m = store16 m (a + 10) (blink_status m a XOR 1)
                     in f B (nxt m a) m))) = Some r"
  show "\<not> ?C B a m"
  proof
    assume C: "?C B a m"
    define m1 where "m1 = tick_mem B a m"
    have lay: "blink_layout B v" and a: "a \<in> slots B" "location m a < 2000" using C by simp_all
    have "f B (nxt m1 a) m1 = Some r"
      using step slot_nonzero [OF lay a(1)] unfolding tasklet_round [of m a "f B" B] m1_def by simp
    moreover have t: "blink_at m1 a = fst (tick (blink_at m a))" "nxt m1 a = nxt m a"
      "\<forall>x. \<not> in_range a 16 x \<longrightarrow> m1 x = paint v (snd (tick (blink_at m a))) m x"
      using tick_node [OF lay a] C by (simp_all add: m1_def)
    moreover have "load32 m1 (vmem_base_addr B) = v"
    proof -
      have "list_all (\<lambda>p. fst p < 2000) (snd (tick (blink_at m a)))" using a(2) by (simp add: fields)
      then have "m1 x = m x" if "in_range (vmem_base_addr B) 4 x" for x
        using t(3) vmem_not_slot [OF lay a(1) that] vmem_apart [OF lay that] paint_outside by simp
      then show ?thesis using load32_frame C by metis
    qed
    ultimately have "f B a m1 = Some r" "?C B a m1" using C by (simp_all add: fields)
    then show False using IH by blast
  qed
qed

lemma malloc_first: "location m (slot B 0) = 0 \<Longrightarrow> mp1_malloc B m = slot B 0"
proof -
  assume l: "location m (slot B 0) = 0"
  have "[0..<80 * 25] = 0 # [Suc 0..<80 * 25]" by (rule upt_conv_Cons) simp
  then have "find (\<lambda>i. location m (slot B i) = 0) [0..<80 * 25] = Some 0" using l by (simp only: find.simps simp_thms if_True)
  then show "mp1_malloc B m = slot B 0" by (simp add: mp1_malloc_def slot_def)
qed

text \<open>
  C34. A character at location 0 breaks \<open>fish\<close>: its entry still counts as free, so the next addition takes
  the same entry, which then points to itself. Both calls succeed, and the next clock tick never
  ends.
\<close>

theorem blink_location_0:
  assumes "blink_layout B v" and "blinks_ok B v m []" and "struct_apart B v arg" and "loc (blink_at m arg) = 0"
  shows "\<exists>m'. fish_calls B [Some (arg, 0), Some (arg, 0)] m = Some (m', [0, 0]) \<and> fish_call B None m' = None"
proof -
  define a where "a = slot B 0"
  have a: "a \<in> slots B" by (simp add: a_def slots_def)
  have temp: "disj_ranges arg 16 (temp_struct B) 16" using assms(3) by (simp add: struct_apart_def)
  note d = blinks_ok_slots [OF assms(2)]
  have "location m a = 0" using d(3) [OF a] by simp
  then have "a = mp1_malloc B m" using malloc_first by (simp add: a_def)
  then obtain m1 where m1: "mp1_ioctl_add B arg m = (m1, 0)" "load32 m1 (mp1_list_head B) = a" "load32 m1 (vmem_base_addr B) = v"
    "location m1 a = 0" "\<forall>x. \<not> list_memory B x \<longrightarrow> m1 x = paint v [(0, char_on (blink_at m arg))] m x"
    using add_links [OF assms(1) d(5) temp _ _ a] a assms(4) by (auto simp: fields)
  have "m1 x = m x" if "in_range arg 16 x" for x
    using m1(5) struct_apartD [OF assms(3) that] paint_outside [of "[(0, char_on (blink_at m arg))]" v x m] by simp
  then have arg1: "blink_at m1 arg = blink_at m arg" by (rule node_cong(1))
  have "a = mp1_malloc B m1" using malloc_first m1(4) by (simp add: a_def)
  then obtain m2 where m2: "mp1_ioctl_add B arg m1 = (m2, 0)" "load32 m2 (mp1_list_head B) = a" "load32 m2 (vmem_base_addr B) = v"
    "location m2 a = 0" "nxt m2 a = a"
    using add_links [OF assms(1) m1(3) temp _ _ a] a assms(4) m1(2) by (auto simp: fields arg1)
  have "tasklet_loop B a m2 = None"
    using tasklet_cycle [of B a m2 _ v] assms(1) a m2(3-5) by (cases "tasklet_loop B a m2") auto
  then have "fish_call B None m2 = None" using m2(2) by (simp add: mp1_rtc_tasklet_def)
  moreover have "fish_calls B [Some (arg, 0), Some (arg, 0)] m = Some (m2, [0, 0])"
    using m1(1) m2(1) by (simp add: mp1_ioctl_def)
  ultimately show ?thesis by blast
qed

section \<open>Examples\<close>

definition sample_blink :: blink_env where
  "sample_blink = \<lparr>mp1_list_head = 0x8060000, blink_array = 0x8050000, vmem_base_addr = 0x8060010,
     temp_struct = 0x83FFF00, temp_location = 0x83FFF20\<rparr>"

text \<open>An empty list, the screen at \<open>0x8400000\<close> and a structure for location \<open>l\<close>.\<close>

definition blink_mem :: "u8 \<Rightarrow> mem" where
  "blink_mem l = store_bytes (store_bytes (\<lambda>_. 0) 0x8060010 [0, 0, 0x40, 8]) 0x83FFFC0 [l, 0, 0x49, 0x4D, 7, 0, 6, 0]"

lemma sample_layout: "blink_layout sample_blink 0x8400000" "struct_apart sample_blink 0x8400000 0x83FFFC0"
  by (simp_all add: blink_layout_def struct_apart_def sample_blink_def disj_ranges_def)

lemma blink_mem_0: "\<not> in_range 0x8060010 4 x \<Longrightarrow> \<not> in_range 0x83FFFC0 8 x \<Longrightarrow> blink_mem l x = 0"
proof -
  define bs cs where bs: "bs = [0, 0, 0x40, 8 :: u8]" "cs = [l, 0, 0x49, 0x4D, 7, 0, 6, 0]"
  have "length bs = 4" "length cs = 8" by (simp_all add: bs)
  moreover have "blink_mem l = store_bytes (store_bytes (\<lambda>_. 0) 0x8060010 bs) 0x83FFFC0 cs" by (simp only: blink_mem_def bs)
  ultimately show "\<not> in_range 0x8060010 4 x \<Longrightarrow> \<not> in_range 0x83FFFC0 8 x \<Longrightarrow> blink_mem l x = 0"
    by (simp add: store_bytes_apply)
qed

lemma blink_mem_ok: "blinks_ok sample_blink 0x8400000 (blink_mem l) []"
proof -
  have "blink_mem l x = 0" if "in_range 0x8050000 32000 x" for x
  proof (rule blink_mem_0)
    have "disj_ranges 0x8050000 32000 0x8060010 4" "disj_ranges 0x8050000 32000 0x83FFFC0 8" by (simp_all add: disj_ranges_def)
    then show "\<not> in_range 0x8060010 4 x" "\<not> in_range 0x83FFFC0 8 x" using that disj_rangesD by blast+
  qed
  then have "blink_mem l x = 0" if "a \<in> slots sample_blink" "in_range a 16 x" for a x
    using slot_range [OF that] by (simp add: sample_blink_def)
  then have "blink_at (blink_mem l) a = blink_at (\<lambda>_. 0) a" if "a \<in> slots sample_blink" for a
    using node_cong(1) [of a "blink_mem l" "\<lambda>_. 0"] that by blast
  then have "location (blink_mem l) a = 0" if "a \<in> slots sample_blink" for a
    using that by (simp add: fields) (simp add: blink_at_def location_def load16_def)
  moreover have "load32 (blink_mem l) 0x8060010 = 0x8400000" "load32 (blink_mem l) 0x8060000 = 0"
    by (simp_all add: load32_def blink_mem_def)
  ultimately show ?thesis by (simp add: blinks_ok_def) (simp add: sample_blink_def)
qed

lemma sample_struct: "blink_at (blink_mem l) 0x83FFFC0 =
    \<lparr>loc = ucast l, char_on = 0x49, char_off = 0x4D, time_on = 7, time_off = 6, left = 0, state = 0\<rparr>"
  by (simp add: blink_at_def location_def on_char_def off_char_def on_length_def off_length_def countdown_def blink_status_def
    load16_def blink_mem_def)

definition sample_calls :: "(u32 \<times> u32) option list" where
  "sample_calls = [Some (0x83FFFC0, 0), None, Some (5, 1), Some (5, 1)]"

theorem blink_refines_witness:
  "\<exists>m'. fish_calls sample_blink sample_calls (blink_mem 5) = Some (m', [0, 0, 0, - 1]) \<and> m' 0x840000A = 0x49"
proof -
  have c: "list_all (call_ok sample_blink 0x8400000 (blink_mem 5)) sample_calls"
    using sample_layout(2) by (simp add: sample_calls_def call_ok_def sample_struct)
  have abs: "abs_calls (map (meaning (blink_mem 5)) sample_calls) (blinks (blink_mem 5) []) = ([], [0, 0, 0, - 1], [(5, 0x49)])"
    by (simp add: sample_calls_def meaning_def sample_struct blinks_def tick_def Let_def word_sless_alt)
  obtain m' where m': "fish_calls sample_blink sample_calls (blink_mem 5) = Some (m', [0, 0, 0, - 1])"
    "{x. m' x \<noteq> paint 0x8400000 [(5, 0x49)] (blink_mem 5) x} \<subseteq> {x. list_memory sample_blink x}"
    using blink_refines [OF sample_layout(1) blink_mem_ok c abs] by blast
  have "\<not> list_memory sample_blink 0x840000A" by (simp add: list_memory_def sample_blink_def in_range_def)
  then have "m' 0x840000A = paint 0x8400000 [(5, 0x49)] (blink_mem 5) 0x840000A" using m'(2) by blast
  then show ?thesis using m'(1) by simp
qed

theorem blink_location_0_witness:
  "\<exists>m'. fish_calls sample_blink [Some (0x83FFFC0, 0), Some (0x83FFFC0, 0)] (blink_mem 0) = Some (m', [0, 0])
    \<and> mp1_rtc_tasklet sample_blink m' = None"
proof -
  have "loc (blink_at (blink_mem 0) 0x83FFFC0) = 0" by (simp add: sample_struct)
  from blink_location_0 [OF sample_layout(1) blink_mem_ok sample_layout(2) this] show ?thesis by auto
qed

end
