(* ===== verification/SignalTest.thy ===== *)
theory SignalTest
  imports ProgramSpec
begin

text \<open>
  \<open>ece391sigtest.c\<close>: a program that writes through a NULL pointer on purpose, with handlers for the
  signals it expects. The kernel has no signals: \<open>set_handler\<close> fails and the handlers never run. The
  pointer \<open>badbuf\<close> and the byte \<open>charbuf\<close> are static variables; \<open>badbuf_at\<close> and \<open>charbuf_at\<close> are their addresses.
\<close>

section \<open>The handlers\<close>

definition ece391_set_handler :: "'s os \<Rightarrow> u32 \<Rightarrow> u32 \<Rightarrow> 's \<Rightarrow> ('s \<times> u32) option" where
  "ece391_set_handler os signum handler s = int_80 os 9 signum handler (stale_edx os) s"

definition signum_line :: "u32 \<Rightarrow> u8 list" where
  "signum_line signum =
     (if signum = 0 then line ''0'' else if signum = 1 then line ''1'' else if signum = 2 then line ''2''
      else if signum = 3 then line ''3'' else line ''invalid'')"

text \<open>
  The handler points \<open>badbuf\<close> to \<open>charbuf\<close>, and also the word 28 bytes above its argument, where the
  signal frame holds \<open>EAX\<close>, so that the write succeeds when it is repeated. \<open>arg\<close> is the address of the
  argument and \<open>buf\<close> that of the local byte.
\<close>

definition segfault_sighandler :: "'s os \<Rightarrow> literals \<Rightarrow> u32 \<Rightarrow> u32 \<Rightarrow> u32 \<Rightarrow> u32 \<Rightarrow> 's \<Rightarrow> 's option" where
  "segfault_sighandler os lit badbuf_at charbuf_at arg buf s = do {
     s \<leftarrow> puts_lit os lit (ascii ''Segfault signal handler called, signum: '') s;
     s \<leftarrow> puts_lit os lit (signum_line (load32 (memory os s) arg)) s;
     s \<leftarrow> puts_lit os lit (line ''Press enter to continue...'') s;
     (s, _) \<leftarrow> ece391_read os 0 buf 1 s;
     let s = set_memory os (store32 (memory os s) badbuf_at charbuf_at) s;
     let s = set_memory os (store32 (memory os s) (arg + 28) charbuf_at) s;
     puts_lit os lit (line ''Signal handler returning'') s
   }"

definition alarm_sighandler :: "'s os \<Rightarrow> literals \<Rightarrow> u32 \<Rightarrow> 's \<Rightarrow> 's option" where
  "alarm_sighandler os lit signum s = do {
     s \<leftarrow> puts_lit os lit (ascii ''Alarm signal handler called, signum: '') s;
     puts_lit os lit (signum_line signum) s
   }"

section \<open>main\<close>

text \<open>
  \<open>writable\<close> says where the program may write; the result \<open>Inl\<close> is a page fault at \<open>(*badbuf) = 1\<close>.
  \<open>SEGFAULT\<close> is 1 and \<open>ALARM\<close> 3; \<open>segv\<close> and \<open>alarm\<close> are the addresses of the handlers.
\<close>

definition sigtest ::
  "'s os \<Rightarrow> literals \<Rightarrow> ('s \<Rightarrow> u32 \<Rightarrow> bool) \<Rightarrow> u32 \<Rightarrow> u32 \<Rightarrow> u32 \<Rightarrow> u32 \<Rightarrow> u32 \<Rightarrow> 's \<Rightarrow> ('s + 's \<times> u32) option" where
  "sigtest os lit writable badbuf_at charbuf_at segv alarm buf s = do {
     (s, r) \<leftarrow> ece391_getargs os buf 1024 s;
     if 0 \<noteq> r then do { s \<leftarrow> puts_lit os lit (line ''could not read argument'') s; Some (Inr (s, 3)) }
     else do {
       s \<leftarrow> (if memory os s buf = 0x31
             then do {
               s \<leftarrow> puts_lit os lit (line ''Installing signal handlers'') s;
               (s, _) \<leftarrow> ece391_set_handler os 1 segv s;
               (s, _) \<leftarrow> ece391_set_handler os 3 alarm s;
               Some s
             }
             else Some s);
       s \<leftarrow> puts_lit os lit (ascii ''Hi, what's your name? '') s;
       (s, cnt) \<leftarrow> ece391_read os 0 buf 1023 s;
       if - 1 = cnt then do { s \<leftarrow> puts_lit os lit (line ''Can't read name from keyboard.'') s; Some (Inr (s, 3)) }
       else if \<not> writable s (load32 (memory os s) badbuf_at) then Some (Inl s)
       else do {
         let s = poke os (load32 (memory os s) badbuf_at) 1 s;
         let s = poke os (buf + cnt) 0 s;
         s \<leftarrow> puts_lit os lit (ascii ''Hello, '') s;
         s \<leftarrow> fdputs os 1 buf s;
         s \<leftarrow> (if memory os s charbuf_at = 1 then puts_lit os lit (line ''success'') s else puts_lit os lit (line ''failure'') s);
         Some (Inr (s, 0))
       }
     }
   }"

section \<open>On a kernel without signals\<close>

text \<open>
  The calls \<open>sigtest\<close> makes before the write: to the keyboard and the screen and with its own buffer.
  When they leave \<open>badbuf\<close> alone and address 0 may not be written, \<open>main\<close> does not come to its end, with
  handlers or without: it faults or it returns 3.
\<close>

definition leaves_alone :: "'s os \<Rightarrow> u32 \<Rightarrow> u32 \<Rightarrow> bool" where
  "leaves_alone os a buf \<longleftrightarrow> (\<forall>n b c d s s' r. int_80 os n b c d s = Some (s', r)
     \<and> (n = 4 \<and> b = 1 \<or> n = 3 \<and> b = 0 \<and> c = buf \<and> d = 1023 \<or> n = 7 \<and> b = buf \<and> c = 1024 \<or> n = 9)
     \<longrightarrow> load32 (memory os s') a = load32 (memory os s) a)"

lemma leaves_aloneD:
  "leaves_alone os a buf \<Longrightarrow> int_80 os n b c d s = Some (s', r) \<Longrightarrow>
    n = 4 \<and> b = 1 \<or> n = 3 \<and> b = 0 \<and> c = buf \<and> d = 1023 \<or> n = 7 \<and> b = buf \<and> c = 1024 \<or> n = 9 \<Longrightarrow>
    load32 (memory os s') a = load32 (memory os s) a"
  unfolding leaves_alone_def by blast

lemma fdputs_leaves: "leaves_alone os a buf \<Longrightarrow> fdputs os 1 p s = Some s' \<Longrightarrow> load32 (memory os s') a = load32 (memory os s) a"
  unfolding fdputs_def ece391_write_def by (auto split: Option.bind_splits dest: leaves_aloneD)

lemma sigtest_faults:
  assumes l: "leaves_alone os badbuf_at buf" and null: "load32 (memory os s) badbuf_at = 0" and w: "\<And>s. \<not> writable s 0"
    and r: "sigtest os lit writable badbuf_at charbuf_at segv alarm buf s = Some result"
  shows "(\<exists>s'. result = Inl s') \<or> (\<exists>s'. result = Inr (s', 3))"
proof -
  have calls:
    "ece391_getargs os buf 1024 s = Some (s', r) \<Longrightarrow> load32 (memory os s') badbuf_at = load32 (memory os s) badbuf_at"
    "ece391_set_handler os n h s = Some (s', r) \<Longrightarrow> load32 (memory os s') badbuf_at = load32 (memory os s) badbuf_at"
    "ece391_read os 0 buf 1023 s = Some (s', r) \<Longrightarrow> load32 (memory os s') badbuf_at = load32 (memory os s) badbuf_at" for s s' r n h
    unfolding ece391_getargs_def ece391_set_handler_def ece391_read_def by (auto dest: leaves_aloneD [OF l])
  show ?thesis
    using r null w unfolding sigtest_def
    by (auto simp: Let_def dest!: calls fdputs_leaves [OF l] split: Option.bind_splits if_splits)
qed

end
