(* ===== verification/Emulate.thy ===== *)
theory Emulate
  imports UserPrograms
begin

text \<open>
  \<open>ece391emulate.c\<close>: the system calls of the user programs on top of Linux, so that a program can be tried
  on the host. Linux and its C library are the record \<open>linux\<close>, an argument of every definition; what a
  call does to the process' memory and to the rest of the world \<open>'w\<close> is its business. The wrappers load
  \<open>ECX\<close> and \<open>EDX\<close> from the caller's stack, where a call with one argument leaves \<open>stale_ecx\<close> and \<open>stale_edx\<close>.
\<close>

section \<open>Linux\<close>

text \<open>What \<open>wait\<close> reports: the exit status, or the signal that ended the child.\<close>

datatype wait_status = Exited u8 | Signaled u32

text \<open>
  \<open>execv\<close> gives what the new program does to the world and how it ends, and \<open>None\<close> when it cannot be
  started. \<open>d_name\<close> is the offset of the name in a \<open>dirent\<close>. \<open>fork\<close> is taken to succeed; the child works on
  a copy of the memory.
\<close>

record 'w linux =
  trap :: "u32 \<Rightarrow> u32 \<Rightarrow> u32 \<Rightarrow> u32 \<Rightarrow> mem \<times> 'w \<Rightarrow> ((mem \<times> 'w) \<times> u32) option"
  opendir :: "u32 \<Rightarrow> mem \<times> 'w \<Rightarrow> (mem \<times> 'w) \<times> u32"
  readdir :: "u32 \<Rightarrow> mem \<times> 'w \<Rightarrow> (mem \<times> 'w) \<times> u32"
  closedir :: "u32 \<Rightarrow> mem \<times> 'w \<Rightarrow> (mem \<times> 'w) \<times> u32"
  d_name :: u32
  open_file :: "u32 \<Rightarrow> u32 \<Rightarrow> mem \<times> 'w \<Rightarrow> (mem \<times> 'w) \<times> u32"
  close_file :: "u32 \<Rightarrow> mem \<times> 'w \<Rightarrow> (mem \<times> 'w) \<times> u32"
  mmap :: "u32 \<Rightarrow> u32 \<Rightarrow> mem \<times> 'w \<Rightarrow> (mem \<times> 'w) \<times> u32"
  perror :: "u32 \<Rightarrow> mem \<times> 'w \<Rightarrow> mem \<times> 'w"
  execv :: "u32 \<Rightarrow> u32 list \<Rightarrow> mem \<times> 'w \<Rightarrow> ('w \<times> wait_status) option"
  stale_c :: u32
  stale_d :: u32

abbreviation (input) O_RDONLY :: u32 where "O_RDONLY \<equiv> 0"
abbreviation (input) O_RDWR :: u32 where "O_RDWR \<equiv> 2"
abbreviation (input) MAP_FAILED :: u32 where "MAP_FAILED \<equiv> - 1"

text \<open>The static variables. \<open>NULL\<close> is 0. \<open>mem_fd\<close> is the one of \<open>ece391_vidmap\<close>.\<close>

record 'w emulation =
  process :: "mem \<times> 'w"
  start_esp :: u32
  dir_fd :: u32
  dir_ptr :: u32
  mem_fd :: u32

definition emu_mem :: "'w emulation \<Rightarrow> mem" where
  "emu_mem s = fst (process s)"

definition set_emu_mem :: "mem \<Rightarrow> 'w emulation \<Rightarrow> 'w emulation" where
  "set_emu_mem m s = s\<lparr>process := (m, snd (process s))\<rparr>"

definition library :: "(mem \<times> 'w \<Rightarrow> (mem \<times> 'w) \<times> u32) \<Rightarrow> 'w emulation \<Rightarrow> 'w emulation \<times> u32" where
  "library f s = (let (p, r) = f (process s) in (s\<lparr>process := p\<rparr>, r))"

section \<open>The wrappers\<close>

definition do_call :: "'w linux \<Rightarrow> u32 \<Rightarrow> u32 \<Rightarrow> u32 \<Rightarrow> u32 \<Rightarrow> 'w emulation \<Rightarrow> ('w emulation \<times> u32) option" where
  "do_call L number ebx ecx edx s = do {
     (p, eax) \<leftarrow> trap L number ebx ecx edx (process s);
     Some (s\<lparr>process := p\<rparr>, if eax \<le> 0xFFFFC000 then eax else - 1)
   }"

definition linux_read :: "'w linux \<Rightarrow> u32 \<Rightarrow> u32 \<Rightarrow> u32 \<Rightarrow> 'w emulation \<Rightarrow> ('w emulation \<times> u32) option" where
  "linux_read L fd buf nbytes s = do_call L 3 fd buf nbytes s"

definition linux_write :: "'w linux \<Rightarrow> u32 \<Rightarrow> u32 \<Rightarrow> u32 \<Rightarrow> 'w emulation \<Rightarrow> ('w emulation \<times> u32) option" where
  "linux_write L fd buf nbytes s = do_call L 4 fd buf nbytes s"

definition linux_close :: "'w linux \<Rightarrow> u32 \<Rightarrow> 'w emulation \<Rightarrow> ('w emulation \<times> u32) option" where
  "linux_close L fd s = do_call L 6 fd (stale_c L) (stale_d L) s"

text \<open>\<open>_start\<close> halts with the value of \<open>main\<close>; behind that argument its stack holds what it started with.\<close>

definition emulated_start ::
  "'w linux \<Rightarrow> ('w emulation \<Rightarrow> ('w emulation \<times> u32) option) \<Rightarrow> u32 \<Rightarrow> 'w emulation \<Rightarrow> ('w emulation \<times> u32) option" where
  "emulated_start L main esp s = do {
     let s = s\<lparr>start_esp := esp\<rparr>;
     (s, eax) \<leftarrow> main s;
     do_call L 1 eax (load32 (emu_mem s) esp) (load32 (emu_mem s) (esp + 4)) s
   }"

section \<open>execute\<close>

partial_function (option) word_end :: "mem \<Rightarrow> u32 \<Rightarrow> u32 option" where
  "word_end m scan =
     (if m scan \<noteq> 0 \<and> m scan \<noteq> 0x20 \<and> m scan \<noteq> 0x0A then word_end m (scan + 1) else Some scan)"

partial_function (option) skip_spaces :: "mem \<Rightarrow> u32 \<Rightarrow> u32 option" where
  "skip_spaces m scan = (if 0x20 = m scan then skip_spaces m (scan + 1) else Some scan)"

text \<open>\<open>while (1)\<close>, which cuts the words in place; \<open>args\<close> are the entries below \<open>n_arg\<close>.\<close>

partial_function (option) parse_arguments :: "mem \<Rightarrow> u32 \<Rightarrow> u32 list \<Rightarrow> (mem \<times> u32 list) option" where
  "parse_arguments m scan args = do {
     scan \<leftarrow> skip_spaces m scan;
     if m scan = 0 \<or> m scan = 0x0A then Some (m(scan := 0), args)
     else if \<not> length args < 1024 then None
     else do {
       let args = args @ [scan];
       scan \<leftarrow> word_end m scan;
       if m scan \<noteq> 0 then parse_arguments (m(scan := 0)) (scan + 1) args
       else parse_arguments m scan args
     }
   }"

definition wait_value :: "wait_status \<Rightarrow> u32" where
  "wait_value st = (case st of Exited c \<Rightarrow> ucast c | Signaled n \<Rightarrow> if 9 = n then - 1 else 256)"

text \<open>The arrays \<open>buf\<close> and \<open>args\<close> are local; nothing but \<open>execv\<close> reads \<open>args\<close>.\<close>

definition emulated_execute :: "'w linux \<Rightarrow> u32 \<Rightarrow> u32 \<Rightarrow> 'w emulation \<Rightarrow> ('w emulation \<times> u32) option" where
  "emulated_execute L buf command s = do {
     n \<leftarrow> ece391_strlen (emu_mem s) command;
     if 1023 < n then Some (s, - 1)
     else do {
       let m = (emu_mem s)(buf := 0x2E, buf + 1 := 0x2F);
       m \<leftarrow> ece391_strcpy m (buf + 2) command;
       scan \<leftarrow> word_end m (buf + 2);
       (m, args) \<leftarrow> (if m scan \<noteq> 0 then parse_arguments (m(scan := 0)) (scan + 1) [buf] else Some (m, [buf]));
       if \<not> length args < 1024 then None
       else do {
         let s = set_emu_mem m s;
         let (w, status) = (case execv L buf (args @ [0]) (process s) of
                              Some ended \<Rightarrow> ended
                            | None \<Rightarrow> (snd (process s), Signaled 9));
         Some (s\<lparr>process := (m, w)\<rparr>, wait_value status)
       }
     }
   }"

section \<open>open, getargs and vidmap\<close>

text \<open>\<open>edx\<close> is what the register holds at the \<open>INT $0x80\<close> of \<open>ece391_open\<close>.\<close>

definition emulated_open :: "'w linux \<Rightarrow> literals \<Rightarrow> u32 \<Rightarrow> u32 \<Rightarrow> 'w emulation \<Rightarrow> ('w emulation \<times> u32) option" where
  "emulated_open L lit edx filename s = do {
     c \<leftarrow> ece391_strcmp (emu_mem s) filename (lit (ascii ''.''));
     if 0 = c
     then (let (s, d) = library (opendir L (lit (ascii ''.''))) s;
               s = s\<lparr>dir_ptr := d\<rparr>;
               (s, fd) = library (open_file L (lit (ascii ''/dev/null'')) O_RDONLY) s;
               s = s\<lparr>dir_fd := fd\<rparr>
           in Some (s, dir_fd s))
     else do {
       (p, rval) \<leftarrow> trap L 5 filename O_RDONLY edx (process s);
       let s = s\<lparr>process := p\<rparr>;
       if rval > 0xFFFFC000 then Some (s, - 1) else Some (s, rval)
     }
   }"

text \<open>The loop ends with \<open>Inl\<close> at \<open>return -1\<close>, else with \<open>buf\<close> and \<open>nbytes\<close>.\<close>

partial_function (option) join_args ::
  "u32 \<Rightarrow> u32 \<Rightarrow> u32 \<Rightarrow> mem \<Rightarrow> u32 \<Rightarrow> u32 \<Rightarrow> (mem \<times> (u32 + u32 \<times> u32)) option" where
  "join_args argc argv idx m buf nbytes =
     (if idx <s argc
      then do {
        len \<leftarrow> ece391_strlen m (load32 m (argv + 4 * idx));
        if nbytes <s len then Some (m, Inl (- 1))
        else do {
          m \<leftarrow> ece391_strcpy m buf (load32 m (argv + 4 * idx));
          let buf = buf + len;
          let nbytes = nbytes - len;
          let idx = idx + 1;
          if argc \<le>s idx then Some (m, Inr (buf, nbytes))
          else if nbytes <s 1 then Some (m, Inl (- 1))
          else join_args argc argv idx (m(buf := 0x20)) (buf + 1) (nbytes - 1)
        }
      }
      else Some (m, Inr (buf, nbytes)))"

definition emulated_getargs :: "u32 \<Rightarrow> u32 \<Rightarrow> 'w emulation \<Rightarrow> ('w emulation \<times> u32) option" where
  "emulated_getargs buf nbytes s = do {
     let argc = load32 (emu_mem s) (start_esp s);
     (m, r) \<leftarrow> join_args argc (start_esp s + 4) 1 (emu_mem s) buf nbytes;
     case r of
       Inl e \<Rightarrow> Some (set_emu_mem m s, e)
     | Inr (buf, nbytes) \<Rightarrow>
         if nbytes <s 1 then Some (set_emu_mem m s, - 1)
         else Some (set_emu_mem (m(buf := 0)) s, 0)
   }"

definition emulated_vidmap :: "'w linux \<Rightarrow> literals \<Rightarrow> u32 \<Rightarrow> 'w emulation \<Rightarrow> 'w emulation \<times> u32" where
  "emulated_vidmap L lit screen_start s =
     (let s = (if mem_fd s = - 1
               then (let (s, fd) = library (open_file L (lit (ascii ''/dev/mem'')) O_RDWR) s in s\<lparr>mem_fd := fd\<rparr>)
               else s);
          (s, mem_image) = library (mmap L (1024 * 1024) (mem_fd s)) s
      in if mem_image = MAP_FAILED
         then (s\<lparr>process := perror L (lit (ascii ''mmap low memory'')) (process s)\<rparr>, - 1)
         else (set_emu_mem (store32 (emu_mem s) screen_start (mem_image + 0xB8000)) s, 0))"

section \<open>read, write and close\<close>

text \<open>The loop over the name: \<open>Inl\<close> is the value it returns, \<open>Inr\<close> the number of bytes copied at its end.\<close>

partial_function (option) copy_name :: "u32 \<Rightarrow> mem \<Rightarrow> u32 \<Rightarrow> u32 \<Rightarrow> u32 \<Rightarrow> (mem \<times> (u32 + u32 \<times> u32)) option" where
  "copy_name nbytes m from_ptr to copied =
     (if m from_ptr \<noteq> 0
      then (let m = m(to := m from_ptr); to = to + 1; from_ptr = from_ptr + 1; copied = copied + 1
            in if copied = nbytes then Some (m, Inl nbytes)
               else if 32 = copied then Some (m, Inl 32)
               else copy_name nbytes m from_ptr to copied)
      else Some (m, Inr (to, copied)))"

partial_function (option) pad_name :: "u32 \<Rightarrow> mem \<Rightarrow> u32 \<Rightarrow> u32 \<Rightarrow> (mem \<times> u32) option" where
  "pad_name nbytes m to copied =
     (if copied <s nbytes \<and> copied <s 32 then pad_name nbytes (m(to := 0)) (to + 1) (copied + 1)
      else Some (m, copied))"

definition emulated_read :: "'w linux \<Rightarrow> u32 \<Rightarrow> u32 \<Rightarrow> u32 \<Rightarrow> 'w emulation \<Rightarrow> ('w emulation \<times> u32) option" where
  "emulated_read L fd buf nbytes s =
     (if dir_ptr s = 0 \<or> dir_fd s \<noteq> fd then linux_read L fd buf nbytes s
      else (let (s, de) = library (readdir L (dir_ptr s)) s
            in if de = 0 then Some (s, 0)
               else do {
                 (m, r) \<leftarrow> copy_name nbytes (emu_mem s) (de + d_name L) buf 0;
                 case r of
                   Inl n \<Rightarrow> Some (set_emu_mem m s, n)
                 | Inr (to, copied) \<Rightarrow> map_option (\<lambda>(m, copied). (set_emu_mem m s, copied)) (pad_name nbytes m to copied)
               }))"

definition emulated_write :: "'w linux \<Rightarrow> u32 \<Rightarrow> u32 \<Rightarrow> u32 \<Rightarrow> 'w emulation \<Rightarrow> ('w emulation \<times> u32) option" where
  "emulated_write L fd buf nbytes s =
     (if dir_ptr s = 0 \<or> dir_fd s \<noteq> fd then linux_write L fd buf nbytes s else Some (s, - 1))"

definition emulated_close :: "'w linux \<Rightarrow> u32 \<Rightarrow> 'w emulation \<Rightarrow> ('w emulation \<times> u32) option" where
  "emulated_close L fd s =
     (if dir_ptr s = 0 \<or> dir_fd s \<noteq> fd then linux_close L fd s
      else (let (s, _) = library (closedir L (dir_ptr s)) s;
                s = s\<lparr>dir_ptr := 0\<rparr>;
                (s, _) = library (close_file L (dir_fd s)) s
            in Some (s\<lparr>dir_fd := - 1\<rparr>, 0)))"

end
