(* ===== verification/EmulateSpec.thy ===== *)
theory EmulateSpec
  imports Emulate
begin

text \<open>
  What the emulation of \<open>Emulate\<close> does: the words a command is cut into and given to \<open>execv\<close>, the
  arguments joined again, and the names of the host's directory in the form of the kernel's.
\<close>

section \<open>Words of a command\<close>

definition word_char :: "u8 \<Rightarrow> bool" where
  "word_char c \<longleftrightarrow> c \<noteq> 0x20 \<and> c \<noteq> 0x0A"

text \<open>The arguments: spaces separate them, a newline behind a space ends the command.\<close>

function arg_words :: "u8 list \<Rightarrow> u8 list list" where
  "arg_words bs =
     (let cs = dropWhile (\<lambda>c. c = 0x20) bs
      in if cs = [] \<or> hd cs = 0x0A then []
         else takeWhile word_char cs # arg_words (drop 1 (dropWhile word_char cs)))"
  by pat_completeness auto
termination
proof (relation "measure length")
  fix bs cs :: "u8 list"
  assume cs: "cs = dropWhile (\<lambda>c. c = 0x20) bs" and "\<not> (cs = [] \<or> hd cs = 0x0A)"
  then have "length cs \<le> length bs" "0 < length cs" "length (dropWhile word_char cs) \<le> length cs"
    by (simp_all add: length_dropWhile_le)
  then have "length (dropWhile word_char cs) - 1 < length bs" by linarith
  then show "(drop 1 (dropWhile word_char cs), bs) \<in> measure length" by simp
qed simp

declare arg_words.simps [simp del]

definition command_words :: "u8 list \<Rightarrow> u8 list \<times> u8 list list" where
  "command_words bs = (takeWhile word_char bs, arg_words (drop 1 (dropWhile word_char bs)))"

lemma cstr_drop: "cstr m s bs \<Longrightarrow> n \<le> length bs \<Longrightarrow> cstr m (s + of_nat n) (drop n bs)"
proof (induction n arbitrary: s bs)
  case (Suc n)
  then obtain c cs where bs: "bs = c # cs" by (cases bs) auto
  then have "cstr m (s + 1) cs" "n \<le> length cs" using Suc.prems cstr_Cons [of m s c cs] by simp_all
  then show ?case using Suc.IH [of "s + 1" cs] by (simp add: bs add.assoc)
qed simp

lemma cstr_hd: "cstr m s bs \<Longrightarrow> m s = (case bs of [] \<Rightarrow> 0 | c # _ \<Rightarrow> c) \<and> (bs \<noteq> [] \<longrightarrow> m s \<noteq> 0)"
  using cstr_Cons [of m s "hd bs" "tl bs"] by (cases bs) (auto simp: cstr_Nil)

lemma word_end_cstr: "cstr m s bs \<Longrightarrow> word_end m s = Some (s + of_nat (length (takeWhile word_char bs)))"
proof (induction bs arbitrary: s)
  case Nil
  then show ?case by (subst word_end.simps) (simp add: cstr_Nil)
next
  case (Cons c cs)
  then have "m s = c" "c \<noteq> 0" "cstr m (s + 1) cs" using cstr_Cons by blast+
  then show ?case using Cons.IH [of "s + 1"] by (subst word_end.simps) (auto simp: word_char_def [abs_def] add.assoc)
qed

lemma skip_spaces_cstr: "cstr m s bs \<Longrightarrow> skip_spaces m s = Some (s + of_nat (length (takeWhile (\<lambda>c. c = 0x20) bs)))"
proof (induction bs arbitrary: s)
  case Nil
  then show ?case by (subst skip_spaces.simps) (simp add: cstr_Nil)
next
  case (Cons c cs)
  then have "m s = c" "cstr m (s + 1) cs" using cstr_Cons by blast+
  then show ?case using Cons.IH [of "s + 1"] by (subst skip_spaces.simps) (auto simp: add.assoc)
qed

text \<open>The word at the front of a string, once the character behind it is overwritten.\<close>

lemma cut_word:
  fixes bs :: "u8 list"
  defines "w \<equiv> takeWhile word_char bs" and "r \<equiv> dropWhile word_char bs"
  assumes c: "cstr m s bs" "length bs < 4294967295" and e: "e = s + of_nat (length w)"
  shows "cstr (m(e := 0)) s w" "m e = 0 \<longleftrightarrow> r = []" "r = [] \<Longrightarrow> m(e := 0) = m"
    "r \<noteq> [] \<Longrightarrow> cstr (m(e := 0)) (e + 1) (drop 1 r)"
proof -
  have bs: "bs = w @ r" by (simp add: w_def r_def)
  have r: "cstr m e r" using cstr_drop [OF c(1), of "length w"] by (simp add: e bs)
  show "cstr (m(e := 0)) s w"
    using c by (auto simp: cstr_iff bs e nth_append add_left_cancel of_nat_eq32)
  show z: "m e = 0 \<longleftrightarrow> r = []" using cstr_hd [OF r] by (cases r) auto
  show "m(e := 0) = m" if "r = []" using z that by auto
  show "cstr (m(e := 0)) (e + 1) (drop 1 r)" if ne: "r \<noteq> []"
  proof -
    obtain d ds where ds: "r = d # ds" using ne by (cases r) auto
    then have "cstr m (e + 1) ds" using cstr_Cons [of m e d ds] r by simp
    moreover have "\<not> in_range (e + 1) (Suc (length ds)) e"
      using c(2) in_range_Suc [of "length ds"] by (auto simp: bs ds in_range_def)
    ultimately show ?thesis unfolding ds by (auto elim!: cstr_cong)
  qed
qed

lemma in_range_after: "n + k \<le> 4294967296 \<Longrightarrow> in_range a n x \<Longrightarrow> \<not> in_range (a + of_nat n) k x"
proof
  assume n: "n + k \<le> 4294967296" and "in_range a n x" and "in_range (a + of_nat n) k x"
  then obtain i j where i: "i < n" "x = a + of_nat i" and j: "j < k" "x = a + of_nat n + of_nat j"
    using in_range_D by metis
  then have "(of_nat i :: u32) = of_nat (n + j)" by (simp add: add.assoc)
  then show False using n i(1) j(1) of_nat_eq32 [of i "n + j"] by simp
qed

lemma in_range_tail: "n + k \<le> l \<Longrightarrow> l \<le> 4294967296 \<Longrightarrow> in_range (a + of_nat n) k x \<Longrightarrow> in_range a l x"
  using in_range_sub [of "a + of_nat n" a k l x] unat_of_nat32 [of n] by (cases "k = 0") simp_all

text \<open>The words in place: \<open>ps\<close> are their addresses.\<close>

lemma parse_arguments_cstr:
  "cstr m s bs \<Longrightarrow> length bs < 4294967295 \<Longrightarrow> length args + length (arg_words bs) \<le> 1024 \<Longrightarrow>
   \<exists>m' ps. parse_arguments m s args = Some (m', args @ ps) \<and> list_all2 (cstr m') ps (arg_words bs)
     \<and> (\<forall>x. \<not> in_range s (Suc (length bs)) x \<longrightarrow> m' x = m x)"
proof (induction bs arbitrary: m s args rule: arg_words.induct)
  case (1 bs)
  define k where "k = length (takeWhile (\<lambda>c. c = 0x20) bs)"
  define cs where "cs = dropWhile (\<lambda>c. c = 0x20) bs"
  define s1 where "s1 = s + of_nat k"
  define w where "w = takeWhile word_char cs"
  define r where "r = dropWhile word_char cs"
  define e where "e = s1 + of_nat (length w)"
  have cs: "cs = drop k bs" "k + length cs = length bs"
    using arg_cong [OF takeWhile_dropWhile_id [of "\<lambda>c. c = 0x20" bs], of length]
    by (simp_all add: cs_def k_def dropWhile_eq_drop)
  have len: "length w + length r = length cs"
    by (simp add: w_def r_def length_append [symmetric] del: length_append)
  have c1: "cstr m s1 cs" using cstr_drop [OF 1(2), of k] cs by (simp add: s1_def)
  have skip: "skip_spaces m s = Some s1" using skip_spaces_cstr [OF 1(2)] by (simp add: s1_def k_def)
  have small: "length cs < 4294967295" using 1(3) cs(2) by simp
  show ?case
  proof (cases "cs = [] \<or> hd cs = 0x0A")
    case True
    then have "m s1 = 0 \<or> m s1 = 0x0A" using cstr_hd [OF c1] by (cases cs) auto
    moreover have "in_range s (Suc (length bs)) s1"
      unfolding s1_def using cs(2) 1(3) by (simp add: in_range_offset)
    moreover have "arg_words bs = []" using True by (subst arg_words.simps) (simp add: cs_def [symmetric])
    ultimately show ?thesis by (subst parse_arguments.simps) (auto simp: skip)
  next
    case False
    then have hd: "m s1 \<noteq> 0" "m s1 \<noteq> 0x0A" using cstr_hd [OF c1] by (cases cs; auto)+
    have words: "arg_words bs = w # arg_words (drop 1 r)"
      using False by (subst arg_words.simps) (simp add: cs_def [symmetric] w_def r_def)
    have n: "length args < 1024" "length (args @ [s1]) + length (arg_words (drop 1 r)) \<le> 1024"
      using 1(4) unfolding words by simp_all
    note cut = cut_word [OF c1 small e_def [unfolded w_def], folded w_def r_def]
    have we: "word_end m s1 = Some e" using word_end_cstr [OF c1] by (simp add: e_def w_def)
    show ?thesis
    proof (cases "r = []")
      case True
      have e0: "m e = 0" using cut(2) True by simp
      have "parse_arguments m e (args @ [s1]) = Some (m, args @ [s1])"
        using e0 cut(3) [OF True] by (subst parse_arguments.simps, subst skip_spaces.simps) simp
      then have "parse_arguments m s args = Some (m, args @ [s1])"
        using hd n(1) e0 by (subst parse_arguments.simps) (simp add: skip we)
      moreover have "arg_words (drop 1 r) = []" using True by (simp add: arg_words.simps)
      ultimately show ?thesis using cut(1,3) True by (auto simp: words)
    next
      case r: False
      have nz: "m e \<noteq> 0" using cut(2) r by simp
      have rl: "length (drop 1 r) < 4294967295" using small len by simp
      obtain m' ps where IH: "parse_arguments (m(e := 0)) (e + 1) (args @ [s1]) = Some (m', (args @ [s1]) @ ps)"
        "list_all2 (cstr m') ps (arg_words (drop 1 r))"
        "\<And>x. \<not> in_range (e + 1) (Suc (length (drop 1 r))) x \<Longrightarrow> m' x = (m(e := 0)) x"
        using 1(1) [OF cs_def, folded r_def, OF False cut(4) [OF r] rl n(2)] by blast
      have e1: "e + 1 = s1 + of_nat (Suc (length w))" "e + 1 = s + of_nat (k + Suc (length w))"
        by (simp_all add: e_def s1_def add.assoc)
      have tot: "k + Suc (length w) + Suc (length (drop 1 r)) \<le> Suc (length bs)"
        using r len cs(2) by (cases r) simp_all
      have "parse_arguments m s args = Some (m', args @ s1 # ps)"
        using hd n(1) nz IH(1) by (subst parse_arguments.simps) (simp add: skip we)
      moreover have "cstr m' s1 w"
        using cut(1)
      proof (rule cstr_cong)
        fix x assume "in_range s1 (Suc (length w)) x"
        then show "m' x = (m(e := 0)) x"
          using IH(3) in_range_after [of "Suc (length w)" "Suc (length (drop 1 r))" s1 x] tot 1(3) unfolding e1(1) by simp
      qed
      moreover have "m' x = m x" if x: "\<not> in_range s (Suc (length bs)) x" for x
      proof -
        have "\<not> in_range (e + 1) (Suc (length (drop 1 r))) x"
          using in_range_tail [OF tot, of s x] x 1(3) unfolding e1(2) by auto
        moreover have "e = s + of_nat (k + length w)" by (simp add: e_def s1_def add.assoc)
        then have "in_range s (Suc (length bs)) e" using len cs(2) 1(3) by (simp add: in_range_offset del: of_nat_add)
        then have "x \<noteq> e" using x by auto
        ultimately show ?thesis using IH(3) by simp
      qed
      ultimately show ?thesis using IH(2) by (auto simp: words)
    qed
  qed
qed

text \<open>A command of 1023 characters has at most 512 arguments, so \<open>args\<close> is large enough.\<close>

lemma length_arg_words: "2 * length (arg_words bs) \<le> Suc (length bs)"
proof (induction bs rule: arg_words.induct)
  case (1 bs)
  define cs where "cs = dropWhile (\<lambda>c. c = 0x20) bs"
  show ?case
  proof (cases "cs = [] \<or> hd cs = 0x0A")
    case True
    then show ?thesis by (subst arg_words.simps) (simp add: cs_def [symmetric])
  next
    case False
    have "hd cs \<noteq> 0x20" using False hd_dropWhile [of "\<lambda>c. c = 0x20" bs] by (auto simp: cs_def)
    then have "word_char (hd cs)" using False by (simp add: word_char_def)
    then have "length (dropWhile word_char cs) < length cs"
      using False length_dropWhile_le [of word_char "tl cs"] by (cases cs) auto
    moreover have "length cs \<le> length bs" by (simp add: cs_def length_dropWhile_le)
    moreover have "2 * length (arg_words (drop 1 (dropWhile word_char cs))) \<le> Suc (length (drop 1 (dropWhile word_char cs)))"
      using 1 [OF cs_def False] .
    ultimately have "2 * Suc (length (arg_words (drop 1 (dropWhile word_char cs)))) \<le> Suc (length bs)"
      unfolding length_drop by arith
    then show ?thesis using False by (subst arg_words.simps) (simp add: cs_def [symmetric])
  qed
qed

section \<open>execute\<close>

lemma cstr_ConsI: "cstr m (s + 1) bs \<Longrightarrow> m s = b \<Longrightarrow> b \<noteq> 0 \<Longrightarrow> length bs < 4294967295 \<Longrightarrow> cstr m s (b # bs)"
  by (simp add: cstr_def load_bytes_Suc add.assoc)

text \<open>The copy of the command and the words cut in it.\<close>

lemma command_copied:
  assumes c: "cstr m command bs" "length bs \<le> 1023" and d: "disj_ranges buf 1026 command (Suc (length bs))"
  shows "\<exists>m1. ece391_strcpy (m(buf := 0x2E, buf + 1 := 0x2F)) (buf + 2) command = Some m1 \<and> cstr m1 (buf + 2) bs
    \<and> m1 buf = 0x2E \<and> m1 (buf + 1) = 0x2F \<and> (\<forall>x. \<not> in_range buf 1026 x \<longrightarrow> m1 x = m x)"
proof -
  define m0 where "m0 = m(buf := 0x2E, buf + 1 := 0x2F)"
  have in0: "in_range buf 1026 buf" "in_range buf 1026 (buf + 1)" by (simp_all add: in_range_def)
  have sub: "in_range buf 1026 x" if "in_range (buf + 2) (Suc (length bs)) x" for x
    using in_range_sub [of "buf + 2" buf "Suc (length bs)" 1026 x] that c(2) by simp
  have c0: "cstr m0 command bs"
    using c(1)
  proof (rule cstr_cong)
    fix x assume "in_range command (Suc (length bs)) x"
    then have "\<not> in_range buf 1026 x" by (rule disj_rangesD2 [OF d])
    then show "m0 x = m x" using in0 by (auto simp: m0_def)
  qed
  have dd: "disj_ranges (buf + 2) (Suc (length bs)) command (Suc (length bs))"
    by (rule disj_ranges_sub [OF d]) (use c(2) in simp_all)
  define m1 where "m1 = store_bytes m0 (buf + 2) (bs @ [0])"
  have "ece391_strcpy m0 (buf + 2) command = Some m1"
    using ece391_strcpy_loop_eq [of m0 "buf + 2" command 0] strcpy_store_bytes [OF c0 dd] by (simp add: strcpy_def m1_def)
  moreover have "cstr m1 (buf + 2) bs" unfolding m1_def using c by (intro cstr_store_bytes) (simp_all add: cstr_def)
  moreover have out: "m1 x = m0 x" if "\<not> in_range (buf + 2) (Suc (length bs)) x" for x
    using that c(2) by (simp add: m1_def store_bytes_apply)
  moreover have "\<not> in_range (buf + 2) (Suc (length bs)) buf" "\<not> in_range (buf + 2) (Suc (length bs)) (buf + 1)"
    using c(2) by (simp_all add: in_range_def)
  moreover have "m1 x = m x" if "\<not> in_range buf 1026 x" for x
  proof -
    have "x \<noteq> buf" "x \<noteq> buf + 1" "\<not> in_range (buf + 2) (Suc (length bs)) x" using that in0 sub by auto
    then show ?thesis using out by (simp add: m0_def)
  qed
  ultimately show ?thesis by (auto simp: m0_def)
qed

lemma command_cut:
  assumes c: "cstr m (buf + 2) bs" "length bs \<le> 1023" and h: "m buf = 0x2E" "m (buf + 1) = 0x2F"
    and e: "e = buf + 2 + of_nat (length (takeWhile word_char bs))"
  shows "\<exists>m' ps. (if m e \<noteq> 0 then parse_arguments (m(e := 0)) (e + 1) [buf] else Some (m, [buf])) = Some (m', buf # ps)
    \<and> length ps \<le> 512 \<and> cstr m' buf (ascii ''./'' @ takeWhile word_char bs)
    \<and> list_all2 (cstr m') ps (arg_words (drop 1 (dropWhile word_char bs)))
    \<and> (\<forall>x. \<not> in_range buf 1026 x \<longrightarrow> m' x = m x)"
proof -
  define w where "w = takeWhile word_char bs"
  define r where "r = dropWhile word_char bs"
  have len: "length w + length r = length bs"
    by (simp add: w_def r_def length_append [symmetric] del: length_append)
  have small: "length bs < 4294967295" using c(2) by simp
  note cut = cut_word [OF c(1) small e, folded w_def r_def]
  have two: "buf + 2 = buf + of_nat 2" by simp
  have name: "cstr m' buf (ascii ''./'' @ w)" if "cstr m' (buf + 2) w" "m' buf = 0x2E" "m' (buf + 1) = 0x2F" for m'
    using that len c(2) by (auto simp: ascii_def add.assoc intro!: cstr_ConsI)
  have far: "\<not> in_range (buf + 2) k buf" "\<not> in_range (buf + 2) k (buf + 1)" if "k \<le> 1024" for k
    using that by (simp_all add: in_range_def)
  have args: "2 * length (arg_words (drop 1 r)) \<le> Suc (length (drop 1 r))" by (rule length_arg_words)
  show ?thesis
  proof (cases "r = []")
    case True
    then show ?thesis
      using cut(1-3) name [of m] h by (auto simp: arg_words.simps w_def [symmetric] r_def [symmetric])
  next
    case False
    have e': "e = buf + of_nat (2 + length w)" "e + 1 = buf + 2 + of_nat (Suc (length w))" "e + 1 = buf + of_nat (3 + length w)"
      by (simp_all add: e w_def add.assoc)
    have tot: "3 + length w + Suc (length (drop 1 r)) \<le> 1026" using len False c(2) by (cases r) simp_all
    obtain m' ps where p: "parse_arguments (m(e := 0)) (e + 1) [buf] = Some (m', [buf] @ ps)"
      "list_all2 (cstr m') ps (arg_words (drop 1 r))"
      "\<And>x. \<not> in_range (e + 1) (Suc (length (drop 1 r))) x \<Longrightarrow> m' x = (m(e := 0)) x"
      using parse_arguments_cstr [OF cut(4) [OF False], of "[buf]"] args len c(2) by fastforce
    have out: "m' x = m x" if "\<not> in_range (buf + 2) 1024 x" for x
    proof -
      have "x \<noteq> e" using that len c(2) in_range_offset [of "length w" "buf + 2" 1024] by (auto simp: e w_def)
      moreover have "\<not> in_range (e + 1) (Suc (length (drop 1 r))) x"
        using in_range_tail [of "Suc (length w)" "Suc (length (drop 1 r))" 1024 "buf + 2" x] tot that unfolding e'(2) by auto
      ultimately show ?thesis using p(3) by simp
    qed
    have "cstr m' (buf + 2) w"
      using cut(1)
    proof (rule cstr_cong)
      fix x assume "in_range (buf + 2) (Suc (length w)) x"
      then show "m' x = (m(e := 0)) x"
        using p(3) in_range_after [of "Suc (length w)" "Suc (length (drop 1 r))" "buf + 2" x] tot unfolding e'(2) by simp
    qed
    then have "cstr m' buf (ascii ''./'' @ w)" using name [of m'] out far [of 1024] h by simp
    moreover have "m' x = m x" if "\<not> in_range buf 1026 x" for x
      using that out in_range_sub [of "buf + 2" buf 1024 1026 x] by auto
    moreover have "length ps \<le> 512" using list_all2_lengthD [OF p(2)] args len c(2) by simp
    ultimately show ?thesis using p(1,2) cut(2) False by (auto simp: w_def [symmetric] r_def [symmetric])
  qed
qed

lemma emulated_execute_spec:
  assumes c: "cstr (emu_mem s) command bs" and d: "disj_ranges buf 1026 command (Suc (length bs))"
  shows "if length bs \<le> 1023
    then \<exists>m ps w st. emulated_execute L buf command s = Some (s\<lparr>process := (m, w)\<rparr>, wait_value st)
      \<and> (w, st) = (case execv L buf (buf # ps @ [0]) (m, snd (process s)) of
                     Some ended \<Rightarrow> ended | None \<Rightarrow> (snd (process s), Signaled 9))
      \<and> cstr m buf (ascii ''./'' @ fst (command_words bs)) \<and> list_all2 (cstr m) ps (snd (command_words bs))
      \<and> (\<forall>x. \<not> in_range buf 1026 x \<longrightarrow> m x = emu_mem s x)
    else emulated_execute L buf command s = Some (s, - 1)"
proof -
  have n: "ece391_strlen (emu_mem s) command = Some (of_nat (length bs))"
    using strlen_cstr [OF c] by (simp add: ece391_strlen_eq)
  have le: "1023 < (of_nat (length bs) :: u32) \<longleftrightarrow> 1023 < length bs"
    using cstr_length [OF c] by (simp add: word_less_nat_alt unat_of_nat32)
  show ?thesis
  proof (cases "length bs \<le> 1023")
    case True
    obtain m1 where m1: "ece391_strcpy ((emu_mem s)(buf := 0x2E, buf + 1 := 0x2F)) (buf + 2) command = Some m1"
      "cstr m1 (buf + 2) bs" "m1 buf = 0x2E" "m1 (buf + 1) = 0x2F" "\<And>x. \<not> in_range buf 1026 x \<Longrightarrow> m1 x = emu_mem s x"
      using command_copied [OF c True d] by blast
    define e where "e = buf + 2 + of_nat (length (takeWhile word_char bs))"
    have we: "word_end m1 (buf + 2) = Some e" using word_end_cstr [OF m1(2)] by (simp add: e_def)
    obtain m ps where m: "(if m1 e \<noteq> 0 then parse_arguments (m1(e := 0)) (e + 1) [buf] else Some (m1, [buf])) = Some (m, buf # ps)"
      "length ps \<le> 512" "cstr m buf (ascii ''./'' @ takeWhile word_char bs)"
      "list_all2 (cstr m) ps (arg_words (drop 1 (dropWhile word_char bs)))" "\<And>x. \<not> in_range buf 1026 x \<Longrightarrow> m x = m1 x"
      using command_cut [OF m1(2) True m1(3,4) e_def] by blast
    obtain w st where ws: "(w, st) = (case execv L buf (buf # ps @ [0]) (m, snd (process s)) of
                     Some ended \<Rightarrow> ended | None \<Rightarrow> (snd (process s), Signaled 9))" by (metis surj_pair)
    have pr: "process (set_emu_mem m s) = (m, snd (process s))" "(set_emu_mem m s)\<lparr>process := p\<rparr> = s\<lparr>process := p\<rparr>" for p
      by (simp_all add: set_emu_mem_def)
    have "emulated_execute L buf command s = Some (s\<lparr>process := (m, w)\<rparr>, wait_value st)"
      unfolding emulated_execute_def n Let_def
      using True m(2)
      by (simp add: le m1(1) we m(1) pr ws [symmetric] del: fun_upd_apply cong del: option.case_cong_weak)
    then show ?thesis using True ws m(3,4) m(5) m1(5) by (auto simp: command_words_def)
  next
    case False
    then show ?thesis by (simp add: emulated_execute_def n le)
  qed
qed

section \<open>Names of the directory\<close>

lemma sle_of_nat32: "i < 2147483648 \<Longrightarrow> j < 2147483648 \<Longrightarrow> (of_nat i :: u32) \<le>s of_nat j \<longleftrightarrow> i \<le> j"
  by (simp add: word_sle_eq sint_of_nat32)

lemma copy_name_from:
  assumes c: "cstr m from ns" and n: "0 < n" "n < 2147483648"
    and d: "disj_ranges to (min n 32) from (Suc (length ns))"
    and i: "i \<le> length ns" "i < min n 32"
  shows "copy_name (of_nat n) (store_bytes m to (take i ns)) (from + of_nat i) (to + of_nat i) (of_nat i) =
    (if min n 32 \<le> length ns then Some (store_bytes m to (take (min n 32) ns), Inl (of_nat (min n 32)))
     else Some (store_bytes m to ns, Inr (to + of_nat (length ns), of_nat (length ns))))"
  using i
proof (induction "min n 32 - i" arbitrary: i)
  case (Suc k)
  define mi where "mi = store_bytes m to (take i ns)"
  have at_to: "mi (from + of_nat i) = m (from + of_nat i)"
  proof -
    have "in_range from (Suc (length ns)) (from + of_nat i)" using Suc.prems cstr_length [OF c] by (simp add: in_range_offset)
    then have "\<not> in_range to (min n 32) (from + of_nat i)" by (rule disj_rangesD2 [OF d])
    then have "\<not> in_range to (length (take i ns)) (from + of_nat i)"
      using Suc.prems in_range_mono [of to "length (take i ns)" _ "min n 32"] by auto
    then show ?thesis using Suc.prems by (simp add: mi_def store_bytes_apply)
  qed
  show ?case
  proof (cases "i = length ns")
    case True
    then have "mi (from + of_nat i) = 0" using at_to cstr_end [OF c] by simp
    then show ?thesis using True Suc.prems
      by (subst copy_name.simps) (auto simp: mi_def)
  next
    case False
    then have lt: "i < length ns" using Suc.prems by simp
    have b: "mi (from + of_nat i) = ns ! i" "ns ! i \<noteq> 0"
      using at_to cstr_nth [OF c lt] cstr_nonzero [OF c lt] by simp_all
    have st: "mi(to + of_nat i := ns ! i) = store_bytes m to (take (Suc i) ns)"
      using store_bytes_snoc [of m to "take i ns" "ns ! i"] lt by (simp add: mi_def take_Suc_conv_app_nth)
    have sums: "x + of_nat i + 1 = x + (of_nat (Suc i) :: u32)" "of_nat i + 1 = (of_nat (Suc i) :: u32)" for x
      by (simp_all add: ac_simps)
    have eq: "of_nat (Suc i) = (of_nat n :: u32) \<longleftrightarrow> Suc i = n" "32 = (of_nat (Suc i) :: u32) \<longleftrightarrow> Suc i = 32"
      using of_nat_eq32 [of "Suc i" n] of_nat_eq32 [of 32 "Suc i"] Suc.prems n(2) by (simp_all del: of_nat_Suc)
    have step: "copy_name (of_nat n) mi (from + of_nat i) (to + of_nat i) (of_nat i) =
        (if Suc i = n then Some (store_bytes m to (take (Suc i) ns), Inl (of_nat n))
         else if Suc i = 32 then Some (store_bytes m to (take (Suc i) ns), Inl 32)
         else copy_name (of_nat n) (store_bytes m to (take (Suc i) ns)) (from + of_nat (Suc i)) (to + of_nat (Suc i)) (of_nat (Suc i)))"
      using b by (subst copy_name.simps) (simp add: st eq Let_def sums del: of_nat_Suc)
    show ?thesis
    proof (cases "Suc i < min n 32")
      case True
      then show ?thesis using Suc.hyps(1) [of "Suc i"] Suc.hyps(2) lt step unfolding mi_def by auto
    next
      case False
      then have "Suc i = min n 32" using Suc.prems by arith
      then show ?thesis using step lt unfolding mi_def by (auto simp: min_def split: if_splits)
    qed
  qed
qed simp

lemma pad_name_from:
  assumes n: "n < 2147483648" and j: "j \<le> min n 32"
  shows "pad_name (of_nat n) m (to + of_nat j) (of_nat j) =
    Some (store_bytes m (to + of_nat j) (replicate (min n 32 - j) 0), of_nat (min n 32))"
  using j
proof (induction "min n 32 - j" arbitrary: m j)
  case 0
  then have "j = min n 32" by simp
  then show ?case using n sless_of_nat32 [of j n] sless_of_nat32 [of j 32] by (subst pad_name.simps) auto
next
  case (Suc k)
  then have j: "j < n" "j < 32" by simp_all
  then have lt: "(of_nat j :: u32) <s of_nat n" "(of_nat j :: u32) <s 32"
    using n sless_of_nat32 [of j n] sless_of_nat32 [of j 32] by simp_all
  have "pad_name (of_nat n) (m(to + of_nat j := 0)) (to + of_nat (Suc j)) (of_nat (Suc j)) =
      Some (store_bytes (m(to + of_nat j := 0)) (to + of_nat (Suc j)) (replicate (min n 32 - Suc j) 0), of_nat (min n 32))"
    using Suc.hyps(2) j by (intro Suc.hyps(1)) simp_all
  moreover have "min n 32 - j = Suc (min n 32 - Suc j)" using j by simp
  ultimately show ?case using lt by (subst pad_name.simps) (simp add: ac_simps)
qed

text \<open>A read of the directory delivers a name of at most 32 characters, filled up with NULs.\<close>

lemma emulated_read_spec:
  assumes s: "dir_ptr s \<noteq> 0" "dir_fd s = fd" and rd: "readdir L (dir_ptr s) (process s) = ((m, w), de)" "de \<noteq> 0"
    and c: "cstr m (de + d_name L) ns" and n: "0 < n" "n < 2147483648"
    and d: "disj_ranges buf (min n 32) (de + d_name L) (Suc (length ns))"
  shows "emulated_read L fd buf (of_nat n) s =
    Some (s\<lparr>process := (store_bytes m buf (take (min n 32) (ns @ replicate 32 0)), w)\<rparr>, of_nat (min n 32))"
proof -
  have copy: "copy_name (of_nat n) m (de + d_name L) buf 0 =
    (if min n 32 \<le> length ns then Some (store_bytes m buf (take (min n 32) ns), Inl (of_nat (min n 32)))
     else Some (store_bytes m buf ns, Inr (buf + of_nat (length ns), of_nat (length ns))))"
    using copy_name_from [OF c n d, of 0] n by simp
  show ?thesis
  proof (cases "min n 32 \<le> length ns")
    case True
    then have "take (min n 32) (ns @ replicate 32 0) = take (min n 32) ns" by simp
    then show ?thesis using True
      by (simp add: emulated_read_def s library_def rd emu_mem_def copy set_emu_mem_def)
  next
    case False
    then have "take (min n 32) (ns @ replicate 32 0) = ns @ replicate (min n 32 - length ns) 0"
      by (cases "n \<le> 32") (simp_all add: min_def)
    then show ?thesis using False pad_name_from [OF n(2), of "length ns" "store_bytes m buf ns" buf]
      by (simp add: emulated_read_def s library_def rd emu_mem_def copy set_emu_mem_def store_bytes_append)
  qed
qed

section \<open>The arguments of a program\<close>

fun join_words :: "u8 list list \<Rightarrow> u8 list" where
  "join_words [] = []"
| "join_words [w] = w"
| "join_words (w # ws) = w @ 0x20 # join_words ws"

text \<open>Where Linux puts the arguments: the strings are behind the pointers of \<open>argv\<close>.\<close>

definition argv_at :: "mem \<Rightarrow> u32 \<Rightarrow> u8 list list \<Rightarrow> bool" where
  "argv_at m argv ws \<longleftrightarrow> (\<forall>i < length ws. cstr m (load32 m (argv + 4 * of_nat i)) (ws ! i))"

definition apart :: "mem \<Rightarrow> u32 \<Rightarrow> u8 list list \<Rightarrow> u32 \<Rightarrow> nat \<Rightarrow> bool" where
  "apart m argv ws buf n \<longleftrightarrow> (\<forall>i < length ws. disj_ranges buf n (argv + 4 * of_nat i) 4
     \<and> disj_ranges buf n (load32 m (argv + 4 * of_nat i)) (Suc (length (ws ! i))))"

lemma argv_kept:
  assumes "argv_at m argv ws" and "apart m argv ws buf n" and "\<And>x. \<not> in_range buf n x \<Longrightarrow> m' x = m x" and "i < length ws"
  shows "load32 m' (argv + 4 * of_nat i) = load32 m (argv + 4 * of_nat i)" "cstr m' (load32 m (argv + 4 * of_nat i)) (ws ! i)"
proof -
  have d: "disj_ranges buf n (argv + 4 * of_nat i) 4" "disj_ranges buf n (load32 m (argv + 4 * of_nat i)) (Suc (length (ws ! i)))"
    using assms(2,4) by (simp_all add: apart_def)
  have four: "in_range a 4 a" "in_range a 4 (a + 1)" "in_range a 4 (a + 2)" "in_range a 4 (a + 3)" for a :: u32
    by (simp_all add: in_range_def)
  show "load32 m' (argv + 4 * of_nat i) = load32 m (argv + 4 * of_nat i)"
    using assms(3) disj_rangesD2 [OF d(1)] four [of "argv + 4 * of_nat i"] by (simp add: load32_def)
  have "cstr m (load32 m (argv + 4 * of_nat i)) (ws ! i)" using assms(1,4) by (simp add: argv_at_def)
  then show "cstr m' (load32 m (argv + 4 * of_nat i)) (ws ! i)"
    by (rule cstr_cong) (use assms(3) disj_rangesD2 [OF d(2)] in blast)
qed

lemma join_args_from:
  assumes a: "argv_at m0 argv ws" "apart m0 argv ws b n" and size: "length ws < 2147483648" "n < 2147483648"
    and k: "0 < k" "k \<le> length ws" and off: "j + length (join_words (drop k ws)) < n"
    and m: "\<And>x. \<not> in_range b n x \<Longrightarrow> m x = m0 x"
  shows "\<exists>m'. join_args (of_nat (length ws)) argv (of_nat k) m (b + of_nat j) (of_nat (n - j)) =
      Some (m', Inr (b + of_nat (j + length (join_words (drop k ws))), of_nat (n - j - length (join_words (drop k ws)))))
    \<and> m'(b + of_nat (j + length (join_words (drop k ws))) := 0) = store_bytes m (b + of_nat j) (join_words (drop k ws) @ [0])"
  using k off m
proof (induction "length ws - k" arbitrary: k j m)
  case 0
  then have "k = length ws" by simp
  then show ?case by (subst join_args.simps) simp
next
  case (Suc l)
  define w where "w = ws ! k"
  define p where "p = load32 m0 (argv + 4 * of_nat k)"
  have kl: "k < length ws" using Suc.hyps(2) by simp
  have lt: "(of_nat k :: u32) <s of_nat (length ws)" using kl size(1) by (simp add: sless_of_nat32)
  have dr: "drop k ws = w # drop (Suc k) ws" using kl by (simp add: w_def Cons_nth_drop_Suc)
  have wl: "j + length w < n" "length w \<le> length (join_words (drop k ws))"
    using Suc.prems(3) by (cases "drop (Suc k) ws"; simp add: dr)+
  have c: "load32 m (argv + 4 * of_nat k) = p" "cstr m p w"
    using argv_kept [OF a Suc.prems(4) kl] by (simp_all add: p_def w_def)
  have len: "ece391_strlen m p = Some (of_nat (length w))" using strlen_cstr [OF c(2)] by (simp add: ece391_strlen_eq)
  have fits: "\<not> (of_nat (n - j) :: u32) <s of_nat (length w)"
    using wl(1) size(2) sless_of_nat32 [of "n - j" "length w"] by simp
  have "disj_ranges (b + of_nat j) (Suc (length w)) p (Suc (length w))"
  proof (rule disj_ranges_sub)
    show "disj_ranges b n p (Suc (length w))" using a(2) kl by (simp add: apart_def p_def w_def)
    show "unat (b + of_nat j - b) + Suc (length w) \<le> n" using wl(1) size(2) by (simp add: unat_of_nat32)
  qed simp
  then have cp: "ece391_strcpy m (b + of_nat j) p = Some (store_bytes m (b + of_nat j) (w @ [0]))"
    using ece391_strcpy_loop_eq [of m "b + of_nat j" p 0] strcpy_store_bytes [OF c(2)] by (simp add: strcpy_def)
  define m1 where "m1 = store_bytes m (b + of_nat j) (w @ [0])"
  have at: "b + of_nat j + of_nat (length w) = b + of_nat (j + length w)" by (simp add: add.assoc)
  have ge: "of_nat (length ws) \<le>s (of_nat (Suc k) :: u32) \<longleftrightarrow> length ws \<le> Suc k"
    using kl size(1) by (intro sle_of_nat32) simp_all
  have nums: "of_nat k + 1 = (of_nat (Suc k) :: u32)" "b + of_nat (j + length w) + 1 = b + of_nat (Suc (j + length w))"
    "of_nat (n - j) - of_nat (length w) = (of_nat (n - j - length w) :: u32)"
    using wl(1) by (simp_all add: of_nat_diff ac_simps)
  have step: "join_args (of_nat (length ws)) argv (of_nat k) m (b + of_nat j) (of_nat (n - j)) =
      (if length ws \<le> Suc k then Some (m1, Inr (b + of_nat (j + length w), of_nat (n - j - length w)))
       else if (of_nat (n - j - length w) :: u32) <s 1 then Some (m1, Inl (- 1))
       else join_args (of_nat (length ws)) argv (of_nat (Suc k)) (m1(b + of_nat (j + length w) := 0x20))
              (b + of_nat (Suc (j + length w))) (of_nat (n - j - length w) - 1))"
    using lt fits ge
    by (subst join_args.simps) (simp add: c(1) len cp m1_def [symmetric] Let_def at nums del: of_nat_Suc of_nat_add of_nat_diff)
  show ?case
  proof (cases "length ws \<le> Suc k")
    case True
    then have "join_words (drop k ws) = w" by (simp add: dr)
    moreover have "m1(b + of_nat (j + length w) := 0) = m1"
      using store_bytes_snoc [of m "b + of_nat j" w 0] unfolding m1_def at [symmetric] by (simp add: store_bytes_append)
    ultimately show ?thesis using step True m1_def by simp
  next
    case False
    then have "drop (Suc k) ws \<noteq> []" by simp
    then have jn: "join_words (drop k ws) = w @ 0x20 # join_words (drop (Suc k) ws)" by (cases "drop (Suc k) ws") (simp_all add: dr)
    define j' where "j' = Suc (j + length w)"
    define m2 where "m2 = m1(b + of_nat (j + length w) := 0x20)"
    have m2: "m2 = store_bytes m (b + of_nat j) (w @ [0x20])"
      unfolding m2_def m1_def at [symmetric] by (simp add: store_bytes_append)
    have off': "j' + length (join_words (drop (Suc k) ws)) < n" using Suc.prems(3) by (simp add: j'_def jn)
    have one: "\<not> (of_nat (n - j - length w) :: u32) <s 1"
      using off' size(2) sless_of_nat32 [of "n - j - length w" 1] by (simp add: j'_def)
    have "m2 x = m0 x" if x: "\<not> in_range b n x" for x
    proof -
      have "\<not> in_range (b + of_nat j) (length (w @ [0x20])) x"
        using x in_range_tail [of j "length (w @ [0x20])" n b x] off' size(2) by (auto simp: j'_def)
      then show ?thesis using Suc.prems(4) [OF x] off' size(2) by (simp add: m2 store_bytes_apply j'_def)
    qed
    then obtain m' where IH: "join_args (of_nat (length ws)) argv (of_nat (Suc k)) m2 (b + of_nat j') (of_nat (n - j')) =
        Some (m', Inr (b + of_nat (j' + length (join_words (drop (Suc k) ws))), of_nat (n - j' - length (join_words (drop (Suc k) ws)))))"
      "m'(b + of_nat (j' + length (join_words (drop (Suc k) ws))) := 0) = store_bytes m2 (b + of_nat j') (join_words (drop (Suc k) ws) @ [0])"
      using Suc.hyps(1) [of "Suc k" j' m2] Suc.hyps(2) kl off' by fastforce
    have "(of_nat (n - j - length w) - 1 :: u32) = of_nat (n - j')" using off' by (simp add: j'_def of_nat_diff)
    then have "join_args (of_nat (length ws)) argv (of_nat k) m (b + of_nat j) (of_nat (n - j)) =
        join_args (of_nat (length ws)) argv (of_nat (Suc k)) m2 (b + of_nat j') (of_nat (n - j'))"
      using step False one by (simp add: m2_def j'_def)
    moreover have "j' + length (join_words (drop (Suc k) ws)) = j + length (join_words (drop k ws))"
      "n - j' - length (join_words (drop (Suc k) ws)) = n - j - length (join_words (drop k ws))"
      by (simp_all add: jn j'_def)
    moreover have "store_bytes m2 (b + of_nat j') (join_words (drop (Suc k) ws) @ [0]) = store_bytes m (b + of_nat j) (join_words (drop k ws) @ [0])"
      unfolding jn m2 j'_def by (simp add: store_bytes_append ac_simps)
    ultimately show ?thesis using IH by simp
  qed
qed

text \<open>\<open>getargs\<close> gives the arguments with one space between them, when they fit with their NUL.\<close>

lemma emulated_getargs_spec:
  assumes argc: "load32 (emu_mem s) (start_esp s) = of_nat (length ws)" "0 < length ws" "length ws < 2147483648"
    and a: "argv_at (emu_mem s) (start_esp s + 4) ws" "apart (emu_mem s) (start_esp s + 4) ws buf n"
    and n: "length (join_words (drop 1 ws)) < n" "n < 2147483648"
  shows "emulated_getargs buf (of_nat n) s = Some (set_emu_mem (store_bytes (emu_mem s) buf (join_words (drop 1 ws) @ [0])) s, 0)"
proof -
  define t where "t = length (join_words (drop 1 ws))"
  obtain m' where m': "join_args (of_nat (length ws)) (start_esp s + 4) 1 (emu_mem s) buf (of_nat n) =
      Some (m', Inr (buf + of_nat t, of_nat (n - t)))"
    "m'(buf + of_nat t := 0) = store_bytes (emu_mem s) buf (join_words (drop 1 ws) @ [0])"
    using join_args_from [OF a argc(3) n(2), of 1 0 "emu_mem s"] argc(2) n(1) by (auto simp: t_def)
  have "\<not> (of_nat (n - t) :: u32) <s 1" using n sless_of_nat32 [of "n - t" 1] by (simp add: t_def)
  then show ?thesis by (simp add: emulated_getargs_def argc(1) m'(1,2))
qed

section \<open>The property\<close>

text \<open>The strings a program is started with: its path and its arguments.\<close>

definition exec_strings :: "u8 list \<Rightarrow> u8 list list" where
  "exec_strings bs = (ascii ''./'' @ fst (command_words bs)) # snd (command_words bs)"

text \<open>
  C36. On the host, a command reaches the program it names. \<open>execute\<close> gives \<open>execv\<close> the first word behind
  \<open>./\<close> and the other words as arguments, as strings in its own buffer of 1026 bytes, which it does not
  leave, and returns what \<open>wait\<close> reports; a command of more than 1023 characters fails. In the program,
  where Linux has put these strings behind \<open>argv\<close>, \<open>getargs\<close> gives the arguments with one space between
  them.
\<close>

theorem emulated_command_roundtrip:
  fixes s :: "'w emulation"
  assumes c: "cstr (emu_mem s) command bs" and d: "disj_ranges buf 1026 command (Suc (length bs))"
  shows "if length bs \<le> 1023
    then (\<exists>m ps w st. emulated_execute L buf command s = Some (s\<lparr>process := (m, w)\<rparr>, wait_value st)
        \<and> (w, st) = (case execv L buf (buf # ps @ [0]) (m, snd (process s)) of
                       Some ended \<Rightarrow> ended | None \<Rightarrow> (snd (process s), Signaled 9))
        \<and> list_all2 (cstr m) (buf # ps) (exec_strings bs) \<and> (\<forall>x. \<not> in_range buf 1026 x \<longrightarrow> m x = emu_mem s x))
      \<and> (\<forall>(t :: 'w emulation) args n.
           load32 (emu_mem t) (start_esp t) = of_nat (length (exec_strings bs)) \<and> argv_at (emu_mem t) (start_esp t + 4) (exec_strings bs)
           \<and> apart (emu_mem t) (start_esp t + 4) (exec_strings bs) args n
           \<and> length (join_words (snd (command_words bs))) < n \<and> n < 2147483648
           \<longrightarrow> emulated_getargs args (of_nat n) t =
                 Some (set_emu_mem (store_bytes (emu_mem t) args (join_words (snd (command_words bs)) @ [0])) t, 0))
    else emulated_execute L buf command s = Some (s, - 1)"
proof (cases "length bs \<le> 1023")
  case True
  have "2 * length (snd (command_words bs)) \<le> Suc (length (drop 1 (dropWhile word_char bs)))"
    by (simp add: command_words_def length_arg_words del: length_drop)
  moreover have "length (dropWhile word_char bs) \<le> length bs" by (simp add: length_dropWhile_le)
  ultimately have n: "length (exec_strings bs) < 2147483648" "0 < length (exec_strings bs)" using True by (simp_all add: exec_strings_def)
  show ?thesis
    using emulated_execute_spec [OF c d, of L] emulated_getargs_spec [OF _ n(2,1)] True
    unfolding if_P [OF True] by (simp add: exec_strings_def) blast
next
  case False
  then show ?thesis using emulated_execute_spec [OF c d, of L] by simp
qed

text \<open>The command \<open>grep  x yz\<close> with a program that exits with 7, and its process.\<close>

definition sample_linux :: "unit linux" where
  "sample_linux = \<lparr>trap = (\<lambda>_ _ _ _ p. Some (p, 0)), opendir = (\<lambda>_ p. (p, 0x9000)), readdir = (\<lambda>_ p. (p, 0)), closedir = (\<lambda>_ p. (p, 0)),
     d_name = 11, open_file = (\<lambda>_ _ p. (p, 3)), close_file = (\<lambda>_ p. (p, 0)), mmap = (\<lambda>_ _ p. (p, - 1)), perror = (\<lambda>_ p. p),
     execv = (\<lambda>_ _ p. Some (snd p, Exited 7)), stale_c = 0, stale_d = 0\<rparr>"

definition sample_command :: "u8 list" where
  "sample_command = ascii ''grep  x yz''"

definition sample_process :: "mem \<Rightarrow> unit emulation" where
  "sample_process m = \<lparr>process = (m, ()), start_esp = 0x8000, dir_fd = - 1, dir_ptr = 0, mem_fd = - 1\<rparr>"

definition sample_child :: mem where
  "sample_child = (\<lambda>_. 0)(
     0x8000 := 0x03, 0x8005 := 0x81, 0x8008 := 0x10, 0x8009 := 0x81, 0x800C := 0x20, 0x800D := 0x81,
     0x8100 := 0x2E, 0x8101 := 0x2F, 0x8102 := 0x67, 0x8103 := 0x72, 0x8104 := 0x65, 0x8105 := 0x70,
     0x8110 := 0x78, 0x8120 := 0x79, 0x8121 := 0x7A)"

lemma sample_words: "command_words sample_command = (ascii ''grep'', [ascii ''x'', ascii ''yz''])"
proof -
  have "arg_words (ascii '' x yz'') = [ascii ''x'', ascii ''yz'']"
    by (simp add: arg_words.simps [of "_ # _"] arg_words.simps [of "[]"] ascii_def word_char_def)
  then show ?thesis by (simp add: command_words_def sample_command_def word_char_def ascii_def)
qed

theorem emulated_command_roundtrip_witness:
  "(\<exists>m w. emulated_execute sample_linux 0x2000 0x1000 (sample_process (store_bytes (\<lambda>_. 0) 0x1000 (sample_command @ [0]))) =
      Some ((sample_process m)\<lparr>process := (m, w)\<rparr>, 7) \<and> cstr m 0x2000 (ascii ''./grep''))
   \<and> emulated_getargs 0x5000 16 (sample_process sample_child) =
      Some (sample_process (store_bytes sample_child 0x5000 (ascii ''x yz'' @ [0])), 0)"
proof -
  define s where "s = sample_process (store_bytes (\<lambda>_. 0) 0x1000 (sample_command @ [0]))"
  have c: "cstr (emu_mem s) 0x1000 sample_command"
    unfolding s_def emu_mem_def sample_process_def by (simp, rule cstr_store_bytes) (simp_all add: sample_command_def ascii_def)
  have d: "disj_ranges 0x2000 1026 0x1000 (Suc (length sample_command))"
    by (simp add: disj_ranges_def sample_command_def ascii_def)
  have l: "length sample_command \<le> 1023" by (simp add: sample_command_def ascii_def)
  note e = exec_strings_def [of sample_command, unfolded sample_words fst_conv snd_conv]
  have mem: "emu_mem (sample_process sample_child) = sample_child" "start_esp (sample_process sample_child) = 0x8000"
    by (simp_all add: emu_mem_def sample_process_def)
  have three: "load32 sample_child 0x8000 = of_nat (length (exec_strings sample_command))"
    by (simp add: e sample_child_def load32_def)
  have ptrs: "load32 sample_child 0x8004 = 0x8100" "load32 sample_child 0x8008 = 0x8110" "load32 sample_child 0x800C = 0x8120"
    by (simp_all add: sample_child_def load32_def)
  have strs: "cstr sample_child 0x8100 (ascii ''./grep'')" "cstr sample_child 0x8110 (ascii ''x'')" "cstr sample_child 0x8120 (ascii ''yz'')"
    by (simp_all add: sample_child_def cstr_def load_bytes_Suc ascii_def)
  have all: "(\<forall>i < 3. P i) \<longleftrightarrow> P 0 \<and> P 1 \<and> P 2" for P :: "nat \<Rightarrow> bool"
    by (simp add: numeral_3_eq_3 numeral_2_eq_2 All_less_Suc) auto
  have len: "length (exec_strings sample_command) = 3" by (simp add: e)
  have argv: "argv_at sample_child (0x8000 + 4) (exec_strings sample_command)"
    unfolding argv_at_def len all using ptrs strs by (simp add: e ascii_def)
  have apart: "apart sample_child (0x8000 + 4) (exec_strings sample_command) 0x5000 16"
    unfolding apart_def len all using ptrs by (simp add: e disj_ranges_def ascii_def)
  have fits: "length (join_words (snd (command_words sample_command))) < 16" by (simp add: sample_words ascii_def)
  note both = emulated_command_roundtrip [OF c d, of sample_linux, unfolded if_P [OF l]]
  have "emulated_getargs 0x5000 (of_nat 16) (sample_process sample_child) =
      Some (set_emu_mem (store_bytes sample_child 0x5000 (join_words (snd (command_words sample_command)) @ [0])) (sample_process sample_child), 0)"
    using conjunct2 [OF both, rule_format, of "sample_process sample_child" "0x5000" 16] three argv apart fits by (simp add: mem)
  moreover obtain m ps w st where "emulated_execute sample_linux 0x2000 0x1000 s = Some (s\<lparr>process := (m, w)\<rparr>, wait_value st)"
    "(w, st) = (snd (process s), Exited 7)" "list_all2 (cstr m) (0x2000 # ps) (exec_strings sample_command)"
    using conjunct1 [OF both] by (auto simp: sample_linux_def)
  ultimately show ?thesis
    unfolding s_def [symmetric] by (auto simp: e sample_words s_def sample_process_def set_emu_mem_def wait_value_def ascii_def)
qed

end
