(* ===== verification/Spec2Isabelle.thy ===== *)
theory Spec2Isabelle
  imports ExecuteSpec SwitchSpec Boot LsSpec GrepSpec BlinkSpec SignalTest EmulateSpec
begin

text \<open>
  FireballOS is a kernel for one x86 processor with three text terminals, a read-only file system, up to
  seven processes (one program page each) and ten system calls, with a set of small user programs. This
  development models the kernel of \<open>student-distrib/\<close> and the programs of \<open>syscalls/\<close> function by function,
  keeps the names of the source, and proves what the parts and their composition do.

  \<^bold>\<open>How the code is read.\<close> A C function is a HOL function of the state it works on; it returns the new state
  and its value. Integers are words of the width the code declares (\<open>u8\<close>, \<open>u16\<close>, \<open>u32\<close>; signed comparisons
  are \<open><s\<close> and \<open>\<le>s\<close>); the \<open>int\<close>s of the terminals, whose range is part of the invariant, are \<open>int\<close>.
  Memory is one map \<open>mem\<close> from addresses to bytes; buffers, strings, the file system image and video memory
  lie in it, so that aliasing is visible. \<open>None\<close> stands for everything after which C code does not go on as
  written: an access outside of an array, a NULL pointer, a division by zero, a loop that never ends. Loops
  that end are \<open>fun\<close> or \<open>function\<close> with a measure, bounded ones \<open>for_loop\<close>; loops that may not end are
  \<open>partial_function (option)\<close>, so no fuel is needed anywhere and that they return is a theorem, with the value
  \<open>Some\<close>. The hardware is a parameter \<open>device\<close> that answers port reads from the trace of all port accesses;
  interrupts during a busy wait are a parameter saying which arrives when.

  \<^bold>\<open>Parts\<close> (theory: files; what it holds).
  \<^item> \<open>Prelude\<close>: words, memory ranges, strings in memory (\<open>cstr\<close>, \<open>load_bytes\<close>, \<open>store_bytes\<close>), \<open>for_loop\<close>.
  \<^item> \<open>LibMem\<close>, \<open>LibString\<close>: \<open>lib.c\<close>, second half. \<open>memcpy\<close> and \<open>memmove\<close> by their string instructions, against
    the locales \<open>block_copy\<close> and \<open>overlap_copy\<close>; \<open>strlen\<close> to \<open>itoa\<close> with numerals as the specification.
  \<^item> \<open>Ports\<close>, \<open>Pic\<close>, \<open>Rtc\<close>, \<open>Timer\<close>: \<open>lib.h\<close>, \<open>i8259.c\<close>, \<open>rtc.c\<close>, \<open>pit.c\<close>, \<open>music.c\<close>. Drivers as sequences of port
    accesses; models of the 8259, of the clock's registers, of the 8253 and of the speaker's gate read the
    trace and say what the accesses program.
  \<^item> \<open>Video\<close>, \<open>Buffer\<close>, \<open>Terminal\<close>, \<open>TerminalSpec\<close>: \<open>lib.c\<close>, first half, \<open>buffer.c\<close>, \<open>terminal.c\<close>. Cells, \<open>printf\<close>,
    the buffer of each terminal and switching. The specification is \<open>text_state\<close>, characters and a position;
    the locale \<open>screen_op\<close> gives the invariant \<open>terminal_ok\<close> for every buffer operation.
  \<^item> \<open>FileTypes\<close>, \<open>Filesys\<close>, \<open>FilesysSpec\<close>: \<open>filesys.c\<close>. The image in memory, directory lookup, block-wise reads,
    the file and directory drivers (locale \<open>file_driver\<close>, shared with the clock), loading of programs; a file
    is refined to the list of its bytes, a directory to the list of its entries.
  \<^item> \<open>Paging\<close>: \<open>paging.c\<close>. Directories, tables, control registers, address translation \<open>translate\<close>.
  \<^item> \<open>Syscalls\<close>, \<open>FileCalls\<close>, \<open>ProcessSpec\<close>, \<open>CommandLine\<close>, \<open>ExecuteSpec\<close>: \<open>systemcalls.c\<close>. The state \<open>kernel\<close> joins
    all the above with the process control blocks. \<open>view\<close> is memory as the running program sees it, with the
    program page of its directory. The abstract kernel is a stack of frames: \<open>execute\<close> pushes, \<open>halt\<close> pops.
  \<^item> \<open>Keyboard\<close>, \<open>KeyboardSpec\<close>, \<open>SwitchSpec\<close>, \<open>Mouse\<close>: \<open>keyboard.c\<close>, \<open>mouse.c\<close>. What an interrupt does to the terminals.
    The keys that arrive while \<open>terminal_read\<close> waits are a list of events (\<open>typist\<close>), and the line read is their
    text. A function key suspends the running process and continues the one in \<open>front\<close> of another terminal.
  \<^item> \<open>Interrupts\<close>: \<open>int_handler.c\<close>, \<open>x86_desc.h\<close>, \<open>wrapper.S\<close>. The descriptor table, exceptions, system call entry.
  \<^item> \<open>Boot\<close>: \<open>kernel.c\<close>, \<open>bootscreen.c\<close>. The whole initialization up to the first \<open>execute\<close>.
  \<^item> \<open>UserSupport\<close>, \<open>UserPrograms\<close>, \<open>ProgramSpec\<close>, \<open>UserKernel\<close>, \<open>CatSpec\<close>, \<open>LsSpec\<close>, \<open>GrepSpec\<close>: \<open>syscalls/\<close>. Programs over an
    arbitrary operating system \<open>os\<close>; the locales \<open>console\<close> (writes to the screen appear and leave memory
    alone), \<open>strict_os\<close> (bad calls fail), \<open>file_reader\<close> and \<open>name_reader\<close> (reads deliver a file or the names)
    are what they rely on, and \<open>kernel_os\<close>, the modelled kernel behind \<open>INT 0x80\<close>, is shown to keep them.
  \<^item> \<open>Blink\<close>, \<open>BlinkSpec\<close>: \<open>fish/\<close>. The animation of blinking characters: the assembly code of \<open>blink.S\<close>, a linked
    list in the program's memory, and \<open>main\<close> over \<open>os\<close>. \<open>chain\<close> relates the memory to a list of \<open>blink\<close> records.
  \<^item> \<open>SignalTest\<close>, \<open>Emulate\<close>, \<open>EmulateSpec\<close>: \<open>ece391sigtest.c\<close>, \<open>ece391emulate.c\<close>. A test of signals, which this kernel
    does not have, and the system calls on Linux, which is a parameter, the record \<open>linux\<close>: the words of a
    command cut in place for \<open>execv\<close> and joined again by \<open>getargs\<close>, the names of a host directory.

  \<^bold>\<open>How the parts interact.\<close> A device interrupt changes the terminals (keyboard, mouse), the clock's counter or
  the status line (timer). A program enters through \<open>syscall_handler\<close>; \<open>read\<close>, \<open>write\<close> and \<open>close\<close> go through the
  jump table of the descriptor, a \<open>file_ops\<close>, to the terminal, the clock, a file or the directory. \<open>execute\<close> uses
  the file system to check and load the program, paging to give it its page, and its own block for the
  descriptors. A function that switches stacks ends in a \<open>control\<close>: a value returned, a jump to user
  space, or a return into an earlier \<open>execute\<close> on the stack saved there.

  \<^bold>\<open>What the lemmas show.\<close> For the libraries: the result on every input, failure to return included. For the
  drivers: what is programmed into the hardware. For buffers and terminals: an invariant of every
  operation and of every key, and writing, typing, reading and switching as operations on text. For the file system: reads as slices
  of a list, and safety on corrupt images. For paging: isolation of processes and of the kernel. For processes:
  a refinement to the stack under the system calls that return and keep off the kernel's own structures, what \<open>execute\<close> loads and where, that \<open>halt\<close> continues
  its caller however many programs ran in between, and each error path. For the programs: what is on
  the screen when they end, on this kernel, and that its own error tests pass. Several theorems state behaviour
  the code does not intend; the manifest lists them as findings.

  \<^bold>\<open>Hypotheses on code that is not here.\<close> \<open>reads_mask\<close>, \<open>reads_register\<close> and \<open>reads_gate\<close> say that reading back an
  8259 mask, a clock register or the speaker port gives what was last written. The addresses of literals and of
  local arrays are parameters; theorems assume that those they use are disjoint. \<open>argv_at\<close> says that Linux puts the strings given to \<open>execv\<close> behind
  \<open>argv\<close> of the new program. \<open>run\<close> says how a program that
  a user program started comes back; no property of the programs depends on it.

  \<^bold>\<open>What is apart from the byte memory.\<close> Process control blocks, page and descriptor tables, the buffers of the
  terminals and the kernel's variables are components of the state, while in the machine they lie in the
  kernel's 4 MB, and the kernel does not check the pointers it is given. The steps of \<open>fd_step\<close>, \<open>proc_step\<close> and
  \<open>user_call\<close> therefore demand what keeps a call off these structures: \<open>read_allowed\<close> and \<open>args_allowed\<close>, the buffer
  lies in the page of the program, and \<open>command_fits\<close>, the parts of the command fit the literals they are copied over.
  Kernel stacks are not modelled; a stack that overflows would reach the control block below it.

  \<^bold>\<open>Not modelled.\<close> The saving of registers in the device wrappers and the other fields of the task state segment,
  which nothing reads; the descriptor table of \<open>x86_desc.S\<close> beyond the two entries the kernel fills in, which is
  data; \<open>INVLPG\<close> and CR3 reloads as effects on a translation buffer; print-only self tests
  (\<open>test_filesys\<close>, \<open>test_paging\<close>, \<open>check_CRs\<close>) and functions that are declared without a body; interrupts that arrive
  while the kernel is not waiting, which its handlers do with interrupts off; the delivery of
  signals, which this kernel does not have; a \<open>fork\<close> that fails on the host. The assembly code of
  \<open>fish\<close> pushes its arguments and the registers it saves; of its stack only the copies it makes there are modelled.
\<close>

end
